(* ===== verification/Prelude.thy ===== *)
theory Prelude
  imports Main "HOL-Library.Word" "HOL-Library.Multiset" "HOL-Library.List_Lexorder"
    "HOL-Library.Char_ord" "HOL-Library.Option_ord"
begin

unbundle bit_operations_syntax

text \<open>
  Shared vocabulary of the development. It names the machine types of the C++ code, fixes
  how the standard library pieces used everywhere are rendered (byte reads that can go out of
  range, network byte order, \<open>std::sort\<close>, the in-place merge loop over a sorted
  vector, \<open>std::map\<close> and \<open>std::to_string\<close>) and proves the facts about them that the
  component theories share.

  Conventions: \<open>uint8_t\<close> to \<open>uint64_t\<close> are words of that width, so their arithmetic
  wraps as in C++; \<open>size_t\<close> values that count elements of a container are \<open>nat\<close>;
  \<open>std::chrono\<close> durations and time points are \<open>int\<close> nanoseconds, because their
  overflow is undefined behaviour in C++ and the code guards it where it can happen;
  \<open>expected<T, E>\<close> is the sum \<open>E + T\<close>; a \<open>std::string\<close> is a list of 8-bit characters.
\<close>

section \<open>Machine types\<close>

type_synonym u8 = "8 word"
type_synonym u16 = "16 word"
type_synonym u32 = "32 word"
type_synonym u64 = "64 word"
type_synonym bytes = "u8 list"

abbreviation u64_max :: u64 where "u64_max \<equiv> - 1"

lemma unat_u64_max: "unat u64_max = 18446744073709551615"
  by (simp add: unsigned_minus_1_eq_mask mask_eq_exp_minus_1)

lemma uint_u64_max: "uint u64_max = 18446744073709551615"
  by (simp add: unsigned_minus_1_eq_mask mask_eq_exp_minus_1)

text \<open>A 64-bit word below \<open>2 ^ 63\<close> reads the same signed and unsigned.\<close>

lemma sint_eq_uint_small:
  fixes w :: u64
  assumes "uint w < 2 ^ 63"
  shows "sint w = uint w"
proof -
  have "- (2 ^ 63) \<le> uint w" by (rule order_trans [OF _ uint_ge_0]) simp
  then have "signed_take_bit 63 (uint w) = uint w"
    using assms by (rule signed_take_bit_int_eq_self)
  then show ?thesis by (simp add: sint_uint)
qed

text \<open>\<open>std::chrono::steady_clock::time_point::max()\<close>, in nanoseconds.\<close>

definition time_point_max :: int where
  "time_point_max = 2 ^ 63 - 1"

text \<open>Equations of the component operations, for evaluation and case analysis.\<close>

named_theorems codec_simps \<open>round trips of encoders and decoders\<close>
named_theorems frame_simps \<open>what an operation leaves unchanged\<close>

section \<open>Byte reads\<close>

text \<open>A read through a pointer. \<open>None\<close> is a read outside the buffer, which C++ leaves
  undefined; the readers below prove that it does not happen.\<close>

definition rd8 :: "bytes \<Rightarrow> nat \<Rightarrow> u8 option" where
  "rd8 bs i = (if i < length bs then Some (bs ! i) else None)"

lemma rd8_Some [simp]: "i < length bs \<Longrightarrow> rd8 bs i = Some (bs ! i)"
  by (simp add: rd8_def)

lemma rd8_eq_Some_iff: "rd8 bs i = Some b \<longleftrightarrow> i < length bs \<and> b = bs ! i"
  by (auto simp: rd8_def)

definition be16 :: "u8 \<Rightarrow> u8 \<Rightarrow> u16" where
  "be16 a b = push_bit 8 (ucast a) OR ucast b"

definition be32 :: "u8 \<Rightarrow> u8 \<Rightarrow> u8 \<Rightarrow> u8 \<Rightarrow> u32" where
  "be32 a b c d = push_bit 24 (ucast a) OR push_bit 16 (ucast b) OR push_bit 8 (ucast c) OR ucast d"

definition be16_bytes :: "u16 \<Rightarrow> bytes" where
  "be16_bytes v = [ucast (drop_bit 8 v), ucast v]"

lemma length_be16_bytes [simp]: "length (be16_bytes v) = 2"
  by (simp add: be16_bytes_def)

lemma be16_of_bytes [simp]: "be16 (ucast (drop_bit 8 v)) (ucast v) = v"
  by (rule bit_word_eqI) (auto simp: be16_def bit_simps)

lemma be16_hi [simp]: "ucast (drop_bit 8 (be16 a b)) = a"
  by (rule bit_word_eqI) (auto simp: be16_def bit_simps dest: bit_imp_le_length)

lemma be16_lo [simp]: "ucast (be16 a b) = b"
  by (rule bit_word_eqI) (auto simp: be16_def bit_simps)

definition le32 :: "u8 \<Rightarrow> u8 \<Rightarrow> u8 \<Rightarrow> u8 \<Rightarrow> u32" where
  "le32 a b c d = ucast a OR push_bit 8 (ucast b) OR push_bit 16 (ucast c) OR push_bit 24 (ucast d)"

definition le16 :: "u8 \<Rightarrow> u8 \<Rightarrow> u16" where
  "le16 a b = ucast a OR push_bit 8 (ucast b)"

lemma le16_of_bytes [simp]: "le16 (ucast v) (ucast (drop_bit 8 v)) = v"
  by (rule bit_word_eqI) (auto simp: le16_def bit_simps)

lemma le32_of_bytes [simp]:
  "le32 (ucast v) (ucast (drop_bit 8 v)) (ucast (drop_bit 16 v)) (ucast (drop_bit 24 v)) = v"
proof (rule bit_word_eqI)
  fix n
  assume "n < LENGTH(32)"
  then consider "n < 8" | "8 \<le> n \<and> n < 16" | "16 \<le> n \<and> n < 24" | "24 \<le> n \<and> n < 32"
    by fastforce
  then show "bit (le32 (ucast v) (ucast (drop_bit 8 v)) (ucast (drop_bit 16 v)) (ucast (drop_bit 24 v))) n
      \<longleftrightarrow> bit v n"
    by cases (auto simp: le32_def bit_simps)
qed

section \<open>\<open>std::sort\<close>\<close>

text \<open>
  \<open>std::sort\<close> takes a comparator and promises a permutation of its input in which no later
  element is less than an earlier one; the order of equivalent elements is not specified.
  The model is an insertion sort; the locale states what the standard demands of the
  comparator, and its last lemma says when the result is the only one the standard allows.
\<close>

fun insert_by :: "('a \<Rightarrow> 'a \<Rightarrow> bool) \<Rightarrow> 'a \<Rightarrow> 'a list \<Rightarrow> 'a list" where
  "insert_by lt x [] = [x]"
| "insert_by lt x (y # ys) = (if lt y x then y # insert_by lt x ys else x # y # ys)"

definition std_sort :: "('a \<Rightarrow> 'a \<Rightarrow> bool) \<Rightarrow> 'a list \<Rightarrow> 'a list" where
  "std_sort lt xs = foldr (insert_by lt) xs []"

abbreviation sorted_by :: "('a \<Rightarrow> 'a \<Rightarrow> bool) \<Rightarrow> 'a list \<Rightarrow> bool" where
  "sorted_by lt xs \<equiv> sorted_wrt (\<lambda>x y. \<not> lt y x) xs"

lemma std_sort_simps [simp]:
  "std_sort lt [] = []"
  "std_sort lt (x # xs) = insert_by lt x (std_sort lt xs)"
  by (simp_all add: std_sort_def)

lemma mset_insert_by [simp]: "mset (insert_by lt x xs) = add_mset x (mset xs)"
  by (induction xs) auto

lemma mset_std_sort [simp]: "mset (std_sort lt xs) = mset xs"
  by (induction xs) auto

lemma set_std_sort [simp]: "set (std_sort lt xs) = set xs"
  by (metis mset_std_sort set_mset_mset)

lemma length_std_sort [simp]: "length (std_sort lt xs) = length xs"
  by (metis mset_std_sort size_mset)

lemma set_insert_by [simp]: "set (insert_by lt x xs) = insert x (set xs)"
  by (metis mset_insert_by set_mset_add_mset_insert set_mset_mset)

lemma std_sort_eq_Nil_iff [simp]: "std_sort lt xs = [] \<longleftrightarrow> xs = []"
  by (metis length_0_conv length_std_sort)

locale strict_weak_order =
  fixes lt :: "'a \<Rightarrow> 'a \<Rightarrow> bool"
  assumes less_asym: "lt x y \<Longrightarrow> \<not> lt y x"
    and less_negtrans: "\<not> lt x y \<Longrightarrow> \<not> lt y z \<Longrightarrow> \<not> lt x z"
begin

lemma insert_by_sorted: "sorted_by lt xs \<Longrightarrow> sorted_by lt (insert_by lt x xs)"
  by (induction xs) (auto dest: less_asym less_negtrans)

lemma std_sort_sorted: "sorted_by lt (std_sort lt xs)"
  by (induction xs) (auto intro: insert_by_sorted)

lemma sorted_unique:
  assumes "sorted_by lt xs" and "sorted_by lt ys" and "mset xs = mset ys"
    and "\<And>x y. x \<in> set xs \<Longrightarrow> y \<in> set xs \<Longrightarrow> \<not> lt x y \<Longrightarrow> \<not> lt y x \<Longrightarrow> x = y"
  shows "xs = ys"
  using assms
proof (induction xs arbitrary: ys)
  case Nil
  then show ?case by simp
next
  case (Cons x xs)
  then obtain y ys' where ys: "ys = y # ys'"
    by (cases ys) auto
  have same_set: "set (x # xs) = set (y # ys')"
    using Cons.prems(3) ys mset_eq_setD by blast
  have "x = y"
  proof (rule ccontr)
    assume neq: "x \<noteq> y"
    then have "x \<in> set ys'" and "y \<in> set xs"
      using same_set by auto
    then have "\<not> lt x y" and "\<not> lt y x"
      using Cons.prems(1,2) ys by auto
    with Cons.prems(4) \<open>y \<in> set xs\<close> neq show False by auto
  qed
  moreover have "xs = ys'"
  proof (rule Cons.IH)
    show "mset xs = mset ys'"
      using Cons.prems(3) ys \<open>x = y\<close> by simp
  qed (use Cons.prems ys in auto)
  ultimately show ?case using ys by simp
qed

text \<open>Whatever permutation \<open>std::sort\<close> picks, it is this one when no two different elements
  of the input are equivalent.\<close>

lemma std_sort_unique:
  assumes "sorted_by lt ys" and "mset ys = mset xs"
    and "\<And>x y. x \<in> set xs \<Longrightarrow> y \<in> set xs \<Longrightarrow> \<not> lt x y \<Longrightarrow> \<not> lt y x \<Longrightarrow> x = y"
  shows "ys = std_sort lt xs"
proof -
  have "std_sort lt xs = ys"
    by (rule sorted_unique) (use assms in \<open>auto simp: std_sort_sorted\<close>)
  then show ?thesis by simp
qed

end

text \<open>Comparators that compare a key with \<open><\<close> are strict weak orders.\<close>

lemma strict_weak_order_key:
  "strict_weak_order (\<lambda>x y. (f x :: 'k::linorder) < f y)"
  by unfold_locales auto

text \<open>Lexicographic combination: the second comparator decides between equivalent elements.\<close>

definition lex_less :: "('a \<Rightarrow> 'a \<Rightarrow> bool) \<Rightarrow> ('a \<Rightarrow> 'a \<Rightarrow> bool) \<Rightarrow> 'a \<Rightarrow> 'a \<Rightarrow> bool" where
  "lex_less r s x y \<longleftrightarrow> r x y \<or> \<not> r y x \<and> s x y"

lemma strict_weak_order_lex:
  assumes "strict_weak_order r" and "strict_weak_order s"
  shows "strict_weak_order (lex_less r s)"
proof -
  show ?thesis
    using assms unfolding strict_weak_order_def lex_less_def by meson
qed

section \<open>\<open>std::to_string\<close> of unsigned integers\<close>

definition digit_char :: "nat \<Rightarrow> char" where
  "digit_char d = char_of (48 + d)"

definition is_digit :: "char \<Rightarrow> bool" where
  "is_digit c \<longleftrightarrow> 48 \<le> (of_char c :: nat) \<and> (of_char c :: nat) \<le> 57"

definition digit_value :: "char \<Rightarrow> nat" where
  "digit_value c = of_char c - 48"

fun dec_of_nat :: "nat \<Rightarrow> string" where
  "dec_of_nat n = (if n < 10 then [digit_char n] else dec_of_nat (n div 10) @ [digit_char (n mod 10)])"

declare dec_of_nat.simps [simp del]

definition nat_of_dec :: "string \<Rightarrow> nat" where
  "nat_of_dec = foldl (\<lambda>n c. 10 * n + digit_value c) 0"

lemma digit_value_char [simp]: "d < 10 \<Longrightarrow> digit_value (digit_char d) = d"
  by (simp add: digit_value_def digit_char_def)

lemma is_digit_char [simp]: "d < 10 \<Longrightarrow> is_digit (digit_char d)"
  by (simp add: is_digit_def digit_char_def)

lemma dec_of_nat_digits: "\<forall>c \<in> set (dec_of_nat n). is_digit c"
proof (induction n rule: dec_of_nat.induct)
  case (1 n)
  then show ?case by (subst dec_of_nat.simps) auto
qed

lemma dec_of_nat_nonempty [simp]: "dec_of_nat n \<noteq> []"
  by (subst dec_of_nat.simps) simp

lemma nat_of_dec_append [simp]: "nat_of_dec (xs @ [c]) = 10 * nat_of_dec xs + digit_value c"
  by (simp add: nat_of_dec_def)

lemma nat_of_dec_inverse [codec_simps]: "nat_of_dec (dec_of_nat n) = n"
proof (induction n rule: dec_of_nat.induct)
  case (1 n)
  then show ?case
    by (subst dec_of_nat.simps) (simp add: nat_of_dec_def)
qed

lemma dec_of_nat_inject [simp]: "dec_of_nat m = dec_of_nat n \<longleftrightarrow> m = n"
  by (metis nat_of_dec_inverse)

section \<open>\<open>std::map\<close>\<close>

text \<open>An ordered map is kept as an association list in key order, which is the order in which
  C++ iterates over it. \<open>omap_update k f d m\<close> is \<open>m[k] = f(m[k])\<close>, where \<open>operator[]\<close>
  inserts the default \<open>d\<close> for a new key.\<close>

fun omap_update :: "'k::linorder \<Rightarrow> ('v \<Rightarrow> 'v) \<Rightarrow> 'v \<Rightarrow> ('k \<times> 'v) list \<Rightarrow> ('k \<times> 'v) list" where
  "omap_update k f d [] = [(k, f d)]"
| "omap_update k f d ((k', v) # m) =
     (if k < k' then (k, f d) # (k', v) # m
      else if k = k' then (k, f v) # m
      else (k', v) # omap_update k f d m)"

abbreviation omap_ok :: "('k::linorder \<times> 'v) list \<Rightarrow> bool" where
  "omap_ok m \<equiv> sorted_wrt (<) (map fst m)"

lemma omap_update_keys: "fst ` set (omap_update k f d m) = insert k (fst ` set m)"
proof (induction m)
  case (Cons p m)
  then show ?case by (cases p) (simp add: insert_commute)
qed simp

lemma omap_update_ok: "omap_ok m \<Longrightarrow> omap_ok (omap_update k f d m)"
proof (induction m)
  case (Cons p m)
  obtain k' v where p: "p = (k', v)" by (cases p)
  have keys: "\<And>x. x \<in> fst ` set (omap_update k f d m) \<Longrightarrow> x = k \<or> x \<in> fst ` set m"
    by (simp add: omap_update_keys)
  show ?case
    using Cons keys by (fastforce simp: p)
qed simp

lemma map_of_omap_update:
  "omap_ok m \<Longrightarrow>
    map_of (omap_update k f d m) =
      (map_of m)(k \<mapsto> f (case map_of m k of None \<Rightarrow> d | Some v \<Rightarrow> v))"
proof (induction m)
  case (Cons p m)
  obtain k' v where p: "p = (k', v)" by (cases p)
  have fresh: "map_of m k = None" if "k < k'"
  proof -
    have "k \<notin> fst ` set m"
      using Cons.prems that p by (auto dest: less_trans)
    then show ?thesis by (simp add: map_of_eq_None_iff)
  qed
  show ?case
    using Cons fresh by (auto simp: p fun_eq_iff)
qed simp

lemma omap_ok_distinct: "omap_ok m \<Longrightarrow> distinct (map fst m)"
  by (simp add: strict_sorted_iff)

lemma omap_ok_Nil [simp]: "omap_ok []"
  by simp

section \<open>Unordered containers\<close>

text \<open>\<open>std::unordered_map\<close> as an association list with one entry for each key. The order of
  the list stands for the unspecified iteration order; no property below depends on it.\<close>

fun umap_assign :: "'k \<Rightarrow> 'v \<Rightarrow> ('k \<times> 'v) list \<Rightarrow> ('k \<times> 'v) list" where
  "umap_assign k v [] = [(k, v)]"
| "umap_assign k v (p # m) = (if fst p = k then (k, v) # m else p # umap_assign k v m)"

definition umap_erase :: "'k \<Rightarrow> ('k \<times> 'v) list \<Rightarrow> ('k \<times> 'v) list" where
  "umap_erase k m = filter (\<lambda>p. fst p \<noteq> k) m"

abbreviation umap_ok :: "('k \<times> 'v) list \<Rightarrow> bool" where
  "umap_ok m \<equiv> distinct (map fst m)"

declare map_of_eq_Some_iff [simp del]

lemma map_of_umap_assign [simp]: "map_of (umap_assign k v m) = (map_of m)(k \<mapsto> v)"
  by (induction m) (auto simp: fun_eq_iff)

lemma keys_umap_assign [simp]: "fst ` set (umap_assign k v m) = insert k (fst ` set m)"
  by (induction m) auto

lemma umap_assign_ok [intro]: "umap_ok m \<Longrightarrow> umap_ok (umap_assign k v m)"
proof (induction m)
  case (Cons p m)
  have "fst p \<notin> fst ` set (umap_assign k v m)" if "fst p \<noteq> k"
    using Cons.prems that by (simp add: image_iff)
  then show ?case using Cons by auto
qed simp

lemma map_of_umap_erase [simp]: "map_of (umap_erase k m) = (map_of m)(k := None)"
  by (induction m) (auto simp: umap_erase_def fun_eq_iff)

lemma umap_erase_ok [intro]: "umap_ok m \<Longrightarrow> umap_ok (umap_erase k m)"
  by (induction m) (auto simp: umap_erase_def)

text \<open>Sorting a map's entries does not change what it maps.\<close>

lemma umap_ok_std_sort: "umap_ok m \<Longrightarrow> umap_ok (std_sort lt m)"
proof -
  have "mset (map fst (std_sort lt m)) = mset (map fst m)" by simp
  then show "umap_ok m \<Longrightarrow> umap_ok (std_sort lt m)" using mset_eq_imp_distinct_iff by blast
qed

lemma map_of_std_sort: "umap_ok m \<Longrightarrow> map_of (std_sort lt m) = map_of m"
  using map_of_inject_set [OF umap_ok_std_sort] by (metis set_std_sort)

lemma length_umap_assign: "length (umap_assign k v m) = (if k \<in> fst ` set m then length m else Suc (length m))"
  by (induction m) auto

lemma umap_ok_mem_iff: "umap_ok m \<Longrightarrow> (k, v) \<in> set m \<longleftrightarrow> map_of m k = Some v"
  by (simp add: map_of_eq_Some_iff)

end
