(* ===== verification/Ethernet.thy ===== *)
theory Ethernet
  imports Prelude
begin

text \<open>
  Ethernet addresses and frames: \<^verbatim>\<open>include/wirelab/ethernet_frame.hpp\<close> and
  \<^verbatim>\<open>src/ethernet_frame.cpp\<close>. \<open>MacAddress\<close> is a datatype of six bytes ordered as
  \<open>std::array\<close> orders them; an \<open>EthernetFrame\<close> is a record. The lemmas give the
  round trips between frames and bytes and between addresses and text.
\<close>

section \<open>MAC addresses\<close>

datatype mac_address = MacAddress u8 u8 u8 u8 u8 u8

primrec mac_bytes :: "mac_address \<Rightarrow> bytes" where
  "mac_bytes (MacAddress a b c d e f) = [a, b, c, d, e, f]"

lemma mac_bytes_inject [simp]: "mac_bytes m = mac_bytes n \<longleftrightarrow> m = n"
  by (cases m; cases n) auto

lemma length_mac_bytes [simp]: "length (mac_bytes m) = 6"
  by (cases m) simp

instantiation mac_address :: linorder
begin

definition less_eq_mac_address :: "mac_address \<Rightarrow> mac_address \<Rightarrow> bool" where
  "less_eq_mac_address m n \<longleftrightarrow> mac_bytes m \<le> mac_bytes n"

definition less_mac_address :: "mac_address \<Rightarrow> mac_address \<Rightarrow> bool" where
  "less_mac_address m n \<longleftrightarrow> mac_bytes m < mac_bytes n"

instance
  by standard
    (auto simp: less_eq_mac_address_def less_mac_address_def
      simp flip: mac_bytes_inject dest: order_antisym)

end

definition mac_zero :: mac_address where
  "mac_zero = MacAddress 0 0 0 0 0 0"

definition mac_broadcast :: mac_address where
  "mac_broadcast = MacAddress 0xff 0xff 0xff 0xff 0xff 0xff"

text \<open>\<open>MacAddress(const uint8_t*)\<close> copies six bytes from the pointer.\<close>

definition mac_at :: "bytes \<Rightarrow> nat \<Rightarrow> mac_address option" where
  "mac_at bs i =
     (if i + 6 \<le> length bs
      then Some (MacAddress (bs ! i) (bs ! (i + 1)) (bs ! (i + 2)) (bs ! (i + 3)) (bs ! (i + 4)) (bs ! (i + 5)))
      else None)"

definition is_broadcast :: "mac_address \<Rightarrow> bool" where
  "is_broadcast m \<longleftrightarrow> list_all (\<lambda>b. b = 0xff) (mac_bytes m)"

definition is_zero :: "mac_address \<Rightarrow> bool" where
  "is_zero m \<longleftrightarrow> list_all (\<lambda>b. b = 0) (mac_bytes m)"

lemma is_broadcast_iff: "is_broadcast m \<longleftrightarrow> m = mac_broadcast"
  by (cases m) (auto simp: is_broadcast_def mac_broadcast_def)

lemma is_zero_iff: "is_zero m \<longleftrightarrow> m = mac_zero"
  by (cases m) (auto simp: is_zero_def mac_zero_def)

lemma mac_at_0 [simp]: "mac_at (mac_bytes m @ bs) 0 = Some m"
  by (cases m) (simp add: mac_at_def)

section \<open>Text form of an address\<close>

definition hex_digit_char :: "nat \<Rightarrow> char" where
  "hex_digit_char d = (if d < 10 then char_of (48 + d) else char_of (87 + d))"

definition hex_digit_value :: "char \<Rightarrow> nat option" where
  "hex_digit_value c =
     (let n = of_char c :: nat in
      if 48 \<le> n \<and> n \<le> 57 then Some (n - 48)
      else if 97 \<le> n \<and> n \<le> 102 then Some (n - 87)
      else if 65 \<le> n \<and> n \<le> 70 then Some (n - 55)
      else None)"

lemma hex_digit_value_char [simp]: "d < 16 \<Longrightarrow> hex_digit_value (hex_digit_char d) = Some d"
  by (simp add: hex_digit_value_def hex_digit_char_def)

text \<open>\<open>std::isspace\<close> in the C locale.\<close>

definition is_space :: "char \<Rightarrow> bool" where
  "is_space c \<longleftrightarrow> (let n = of_char c :: nat in n = 32 \<or> 9 \<le> n \<and> n \<le> 13)"

text \<open>\<open>std::stoi(text, nullptr, 16)\<close>: leading white space, an optional sign, an optional
  \<open>0x\<close> prefix, then as many hexadecimal digits as follow; \<open>None\<close> is the exception when
  there is no digit. The rest of the text is ignored. (The two-character texts it is given
  here cannot be out of the range of \<open>int\<close>.)\<close>

fun hex_prefix_value :: "int \<Rightarrow> string \<Rightarrow> int" where
  "hex_prefix_value acc [] = acc"
| "hex_prefix_value acc (c # cs) =
     (case hex_digit_value c of None \<Rightarrow> acc | Some d \<Rightarrow> hex_prefix_value (16 * acc + int d) cs)"

definition starts_hex_digit :: "string \<Rightarrow> bool" where
  "starts_hex_digit cs = (case cs of [] \<Rightarrow> False | c # _ \<Rightarrow> hex_digit_value c \<noteq> None)"

definition strip_0x :: "string \<Rightarrow> string" where
  "strip_0x cs =
     (case cs of
        z # x # rest \<Rightarrow>
          if z = CHR ''0'' \<and> (x = CHR ''x'' \<or> x = CHR ''X'') \<and> starts_hex_digit rest then rest else cs
      | _ \<Rightarrow> cs)"

definition stoi16 :: "string \<Rightarrow> int option" where
  "stoi16 text =
     (let body = dropWhile is_space text;
          (negative, body) =
            (case body of
               c # rest \<Rightarrow> if c = CHR ''-'' then (True, rest) else if c = CHR ''+'' then (False, rest) else (False, body)
             | [] \<Rightarrow> (False, []));
          digits = strip_0x body
      in if starts_hex_digit digits
         then Some (if negative then - hex_prefix_value 0 digits else hex_prefix_value 0 digits)
         else None)"

text \<open>\<open>MacAddress::from_string\<close>: any failure gives the zero address. The loop over the six
  bytes is \<open>mac_from_string_loop\<close>; \<open>mac\<close> collects the bytes read so far.\<close>

fun mac_from_string_loop :: "string \<Rightarrow> char \<Rightarrow> nat \<Rightarrow> nat \<Rightarrow> bytes \<Rightarrow> bytes option" where
  "mac_from_string_loop str delimiter i 0 mac = Some mac"
| "mac_from_string_loop str delimiter i (Suc n) mac =
     (let pos = i * 3 in
      if i > 0 \<and> str ! (pos - 1) \<noteq> delimiter then None
      else
        (case stoi16 (take 2 (drop pos str)) of
           None \<Rightarrow> None
         | Some v \<Rightarrow> mac_from_string_loop str delimiter (Suc i) n (mac @ [word_of_int v])))"

definition mac_from_string :: "string \<Rightarrow> mac_address" where
  "mac_from_string str =
     (if length str \<noteq> 17 then mac_zero
      else
        let delimiter = str ! 2 in
        if delimiter \<noteq> CHR '':'' \<and> delimiter \<noteq> CHR ''-'' then mac_zero
        else
          (case mac_from_string_loop str delimiter 0 6 [] of
             Some [a, b, c, d, e, f] \<Rightarrow> MacAddress a b c d e f
           | _ \<Rightarrow> mac_zero))"

definition hex2 :: "u8 \<Rightarrow> string" where
  "hex2 b = [hex_digit_char (unat b div 16), hex_digit_char (unat b mod 16)]"

definition mac_to_string :: "mac_address \<Rightarrow> string" where
  "mac_to_string m =
     (case mac_bytes m of
        [] \<Rightarrow> []
      | b # bs \<Rightarrow> hex2 b @ concat (map (\<lambda>b. CHR '':'' # hex2 b) bs))"

lemma length_hex2 [simp]: "length (hex2 b) = 2"
  by (simp add: hex2_def)

lemma hex_digit_char_plain:
  assumes "d < 16"
  shows "\<not> is_space (hex_digit_char d)" "hex_digit_char d \<noteq> CHR ''-''" "hex_digit_char d \<noteq> CHR ''+''"
    "hex_digit_char d \<noteq> CHR ''x''" "hex_digit_char d \<noteq> CHR ''X''"
proof -
  have "(of_char (hex_digit_char d) :: nat) = (if d < 10 then 48 + d else 87 + d)"
    using assms by (simp add: hex_digit_char_def)
  then have code: "48 \<le> (of_char (hex_digit_char d) :: nat) \<and>
      (of_char (hex_digit_char d) :: nat) \<noteq> 88 \<and> (of_char (hex_digit_char d) :: nat) \<noteq> 120"
    using assms by auto
  then show "\<not> is_space (hex_digit_char d)" by (simp add: is_space_def)
  show "hex_digit_char d \<noteq> CHR ''-''" "hex_digit_char d \<noteq> CHR ''+''"
    "hex_digit_char d \<noteq> CHR ''x''" "hex_digit_char d \<noteq> CHR ''X''"
    using code by auto
qed

lemma stoi16_hex2 [codec_simps]: "stoi16 (hex2 b) = Some (uint b)"
proof -
  define h l where "h = unat b div 16" and "l = unat b mod 16"
  have "unat b < 256" by (rule order_less_le_trans [OF unsigned_less]) simp
  then have bounds: "h < 16" "l < 16" by (auto simp: h_def l_def)
  have "16 * h + l = unat b" by (simp add: h_def l_def)
  then have "16 * int h + int l = uint b"
    by (metis of_nat_add of_nat_mult of_nat_numeral of_nat_unat)
  with bounds hex_digit_char_plain [OF bounds(1)] hex_digit_char_plain [OF bounds(2)] show ?thesis
    by (simp add: stoi16_def hex2_def strip_0x_def starts_hex_digit_def flip: h_def l_def)
qed

lemma hex2_cases:
  obtains p q where "hex2 b = [p, q]" and "stoi16 [p, q] = Some (uint b)"
  using stoi16_hex2 [of b] by (simp add: hex2_def)

lemma mac_from_to_string [codec_simps]: "mac_from_string (mac_to_string m) = m"
proof (cases m)
  case (MacAddress a b c d e f)
  obtain a1 a2 b1 b2 c1 c2 where abc:
    "hex2 a = [a1, a2]" "stoi16 [a1, a2] = Some (uint a)"
    "hex2 b = [b1, b2]" "stoi16 [b1, b2] = Some (uint b)"
    "hex2 c = [c1, c2]" "stoi16 [c1, c2] = Some (uint c)"
    by (metis hex2_cases)
  obtain d1 d2 e1 e2 f1 f2 where def:
    "hex2 d = [d1, d2]" "stoi16 [d1, d2] = Some (uint d)"
    "hex2 e = [e1, e2]" "stoi16 [e1, e2] = Some (uint e)"
    "hex2 f = [f1, f2]" "stoi16 [f1, f2] = Some (uint f)"
    by (metis hex2_cases)
  show ?thesis
    by (simp add: MacAddress mac_to_string_def mac_from_string_def abc def eval_nat_numeral)
qed

section \<open>Ethernet frames\<close>

datatype frame_parse_error = TooShort

record ethernet_frame =
  dst_mac :: mac_address
  src_mac :: mac_address
  ethertype :: u16
  payload :: bytes

definition ethernet_header_size :: nat where
  "ethernet_header_size = 14"

definition ETHERTYPE_IPV4 :: u16 where "ETHERTYPE_IPV4 = 0x0800"
definition ETHERTYPE_ARP :: u16 where "ETHERTYPE_ARP = 0x0806"
definition ETHERTYPE_IPV6 :: u16 where "ETHERTYPE_IPV6 = 0x86DD"

text \<open>The default-constructed frame, \<open>EthernetFrame{}\<close>.\<close>

definition empty_frame :: ethernet_frame where
  "empty_frame = \<lparr> dst_mac = mac_zero, src_mac = mac_zero, ethertype = 0, payload = [] \<rparr>"

text \<open>\<open>EthernetFrame::try_parse(data, size)\<close>. The outer \<open>option\<close> is \<open>None\<close> where the code
  would read outside the buffer that \<open>data\<close> points to.\<close>

definition try_parse_raw :: "bytes option \<Rightarrow> nat \<Rightarrow> (frame_parse_error + ethernet_frame) option" where
  "try_parse_raw data sz =
     (case data of
        None \<Rightarrow> Some (Inl TooShort)
      | Some bs \<Rightarrow>
          if sz < ethernet_header_size then Some (Inl TooShort)
          else
            Option.bind (mac_at bs 0) (\<lambda>dst.
            Option.bind (mac_at bs 6) (\<lambda>src.
            Option.bind (rd8 bs 12) (\<lambda>high.
            Option.bind (rd8 bs 13) (\<lambda>low.
              if sz \<le> length bs
              then Some (Inr \<lparr> dst_mac = dst, src_mac = src, ethertype = be16 high low,
                               payload = drop ethernet_header_size (take sz bs) \<rparr>)
              else None)))))"

text \<open>The overload that takes a vector passes its own size, so the reads stay inside it
  (lemma \<open>try_parse_raw_total\<close>).\<close>

definition try_parse :: "bytes \<Rightarrow> frame_parse_error + ethernet_frame" where
  "try_parse data =
     (case try_parse_raw (Some data) (length data) of None \<Rightarrow> Inl TooShort | Some r \<Rightarrow> r)"

definition parse :: "bytes \<Rightarrow> ethernet_frame" where
  "parse data = (case try_parse data of Inl _ \<Rightarrow> empty_frame | Inr f \<Rightarrow> f)"

definition serialize :: "ethernet_frame \<Rightarrow> bytes" where
  "serialize f = mac_bytes (dst_mac f) @ mac_bytes (src_mac f) @ be16_bytes (ethertype f) @ payload f"

lemma try_parse_raw_total: "\<exists>r. try_parse_raw (Some bs) (length bs) = Some r"
  by (simp add: try_parse_raw_def mac_at_def ethernet_header_size_def)

lemma try_parse_short: "length bs < 14 \<Longrightarrow> try_parse bs = Inl TooShort"
  by (simp add: try_parse_def try_parse_raw_def ethernet_header_size_def)

lemma try_parse_long:
  "14 \<le> length bs \<Longrightarrow>
    try_parse bs = Inr \<lparr> dst_mac = the (mac_at bs 0), src_mac = the (mac_at bs 6),
                        ethertype = be16 (bs ! 12) (bs ! 13), payload = drop 14 bs \<rparr>"
  by (simp add: try_parse_def try_parse_raw_def mac_at_def ethernet_header_size_def)

lemma try_parse_Inr_iff: "(\<exists>f. try_parse bs = Inr f) \<longleftrightarrow> 14 \<le> length bs"
  by (cases "14 \<le> length bs") (auto simp: try_parse_long try_parse_short)

lemma parse_serialize [codec_simps]: "try_parse (serialize f) = Inr f"
proof -
  have fields: "the (mac_at (serialize f) 0) = dst_mac f" "the (mac_at (serialize f) 6) = src_mac f"
    "serialize f ! 12 = ucast (drop_bit 8 (ethertype f))" "serialize f ! 13 = ucast (ethertype f)"
    "drop 14 (serialize f) = payload f" "14 \<le> length (serialize f)"
    by (cases "dst_mac f"; cases "src_mac f"; simp add: serialize_def mac_at_def be16_bytes_def)+
  then show ?thesis by (simp add: try_parse_long)
qed

lemma serialize_parse [codec_simps]:
  assumes "try_parse bs = Inr f"
  shows "serialize f = bs"
proof -
  have len: "14 \<le> length bs" using assms try_parse_Inr_iff by blast
  then obtain b0 b1 b2 b3 b4 b5 b6 b7 b8 b9 b10 b11 b12 b13 rest where
    "bs = [b0, b1, b2, b3, b4, b5, b6, b7, b8, b9, b10, b11, b12, b13] @ rest"
    by (auto simp: numeral_eq_Suc Suc_le_length_iff)
  with assms len show ?thesis
    by (auto simp: try_parse_long mac_at_def serialize_def be16_bytes_def)
qed

text \<open>The remaining members of the frame class, and \<open>std::hash<MacAddress>\<close>, which packs the
  six bytes into one word.\<close>

definition frame_size :: "ethernet_frame \<Rightarrow> nat" where
  "frame_size f = ethernet_header_size + length (payload f)"

definition frame_is_broadcast :: "ethernet_frame \<Rightarrow> bool" where
  "frame_is_broadcast f = is_broadcast (dst_mac f)"

definition mac_hash :: "mac_address \<Rightarrow> u64" where
  "mac_hash m = fold (\<lambda>i h. h XOR push_bit (i * 8) (ucast (mac_bytes m ! i))) [0..<6] 0"

lemma length_serialize [simp]: "length (serialize f) = frame_size f"
  by (simp add: serialize_def frame_size_def ethernet_header_size_def be16_bytes_def)

lemma dst_mac_bytes: "take 6 (serialize f) = mac_bytes (dst_mac f)"
  by (simp add: serialize_def)

text \<open>The frame codec loses nothing and invents nothing: a buffer of fewer than fourteen bytes is
  rejected, any other buffer is the serialisation of the frame it parses to, and every frame
  parses back from its own bytes.\<close>

theorem frame_codec:
  "(case try_parse bs of
      Inl e \<Rightarrow> length bs < ethernet_header_size
    | Inr g \<Rightarrow> frame_size g = length bs \<and> serialize g = bs) \<and>
   try_parse (serialize f) = Inr f \<and> parse (serialize f) = f"
proof (cases "try_parse bs")
  case (Inl e)
  then have "length bs < 14" by (metis Inl_Inr_False not_le try_parse_Inr_iff)
  with Inl show ?thesis by (simp add: parse_serialize parse_def ethernet_header_size_def)
next
  case (Inr g)
  then have "serialize g = bs" by (rule serialize_parse)
  with Inr show ?thesis
    by (simp add: parse_serialize parse_def flip: length_serialize)
qed

lemma bit_u8_high: "8 \<le> k \<Longrightarrow> \<not> bit (b :: u8) k"
  by (simp add: impossible_bit)

lemma mac_hash_bit:
  assumes "i < 6" and "j < 8"
  shows "bit (mac_hash m) (8 * i + j) = bit (mac_bytes m ! i) j"
proof -
  have "i = 0 \<or> i = 1 \<or> i = 2 \<or> i = 3 \<or> i = 4 \<or> i = 5" using assms(1) by auto
  then show ?thesis
    using assms(2)
    by (cases m; elim disjE) (simp_all add: mac_hash_def upt_rec bit_simps not_le bit_u8_high)
qed

lemma mac_hash_inject: "mac_hash m = mac_hash m' \<longleftrightarrow> m = m'"
proof
  assume eq: "mac_hash m = mac_hash m'"
  have "mac_bytes m ! i = mac_bytes m' ! i" if "i < 6" for i
    using that eq mac_hash_bit [of i _ m] mac_hash_bit [of i _ m'] by (intro bit_word_eqI) simp
  then have "mac_bytes m = mac_bytes m'" by (intro nth_equalityI) simp_all
  then show "m = m'" by simp
qed simp

text \<open>Printing an address and reading the text back gives the address, so the printed form
  identifies it; the hash also distinguishes every two addresses.\<close>

theorem mac_text_roundtrip:
  "mac_from_string (mac_to_string m) = m \<and> length (mac_to_string m) = 17 \<and>
   (mac_hash m = mac_hash m' \<longleftrightarrow> m = m')"
proof -
  have "length (mac_to_string m) = 17" by (cases m) (simp add: mac_to_string_def)
  then show ?thesis by (simp add: mac_from_to_string mac_hash_inject)
qed

end
