(* ===== verification/Packet_Batch.thy ===== *)
theory Packet_Batch
  imports Ethernet "HOL-Library.Monad_Syntax"
begin

text \<open>
  Packet views and batches: \<open>PacketView\<close> of \<^verbatim>\<open>include/wirelab/packet_analyzer.hpp\<close>, and
  \<^verbatim>\<open>include/wirelab/packet_batch.hpp\<close> with \<^verbatim>\<open>src/packet_batch.cpp\<close>. A pointer is the part of
  its allocation from the address on, so a view into the middle of a batch still sees the bytes
  of the packets behind it; \<open>view_ok\<close> says that the \<open>size\<close> bytes of the view are there. The
  lemmas show that a batch hands back the packets it was created from.
\<close>

section \<open>Views\<close>

record packet_view =
  pv_bytes :: "bytes option"
  pv_size :: nat
  pv_ingress :: u32

definition view_ok :: "packet_view \<Rightarrow> bool" where
  "view_ok v \<longleftrightarrow> (case pv_bytes v of None \<Rightarrow> True | Some bs \<Rightarrow> pv_size v \<le> length bs)"

text \<open>The bytes a view stands for.\<close>

definition view_content :: "packet_view \<Rightarrow> bytes" where
  "view_content v = (case pv_bytes v of None \<Rightarrow> [] | Some bs \<Rightarrow> take (pv_size v) bs)"

section \<open>Batches\<close>

datatype packet_batch_error = NullPacketBytes | PacketTooLarge | BatchTooLarge

definition batch_error_text :: "packet_batch_error \<Rightarrow> string" where
  "batch_error_text e =
     (case e of
        NullPacketBytes \<Rightarrow> ''null packet bytes''
      | PacketTooLarge \<Rightarrow> ''packet exceeds CUDA batch length limit''
      | BatchTooLarge \<Rightarrow> ''packet batch exceeds CUDA byte-offset limit'')"

record packet_batch =
  packet_bytes :: bytes
  packet_offsets :: "u32 list"
  packet_lengths :: "u16 list"
  sender_ids :: "u32 list"
  batch_timestamp_ns :: u64

definition packet_count :: "packet_batch \<Rightarrow> nat" where
  "packet_count b = length (packet_lengths b)"

text \<open>The checks of the subtraction \<open>UINT32_MAX - packet_bytes.size()\<close> are exact, because the
  loop never lets the buffer grow past \<open>UINT32_MAX\<close>. A packet whose bytes end before its
  size would be read past its end; \<open>create\<close> cannot see that, and the loop takes what is there.\<close>

fun create_loop :: "packet_view list \<Rightarrow> packet_batch \<Rightarrow> packet_batch_error + packet_batch" where
  "create_loop [] b = Inr b"
| "create_loop (v # vs) b =
     (if pv_size v \<noteq> 0 \<and> pv_bytes v = None then Inl NullPacketBytes
      else if pv_size v > 65535 then Inl PacketTooLarge
      else if pv_size v > 4294967295 - length (packet_bytes b) then Inl BatchTooLarge
      else
        let b = (if pv_size v \<noteq> 0 then b\<lparr> packet_bytes := packet_bytes b @ view_content v \<rparr> else b)
        in create_loop vs
             (b\<lparr> packet_lengths := packet_lengths b @ [of_nat (pv_size v)],
                 sender_ids := sender_ids b @ [pv_ingress v],
                 packet_offsets := packet_offsets b @ [of_nat (length (packet_bytes b))] \<rparr>))"

text \<open>\<open>create(packets, packet_count, timestamp)\<close>; \<open>None\<close> is the null pointer, which is allowed
  only with a count of zero.\<close>

definition batch_create ::
    "packet_view list option \<Rightarrow> nat \<Rightarrow> u64 \<Rightarrow> packet_batch_error + packet_batch" where
  "batch_create packets cnt timestamp =
     (if cnt \<noteq> 0 \<and> packets = None then Inl NullPacketBytes
      else
        create_loop (case packets of None \<Rightarrow> [] | Some vs \<Rightarrow> take cnt vs)
          \<lparr> packet_bytes = [], packet_offsets = [0], packet_lengths = [], sender_ids = [],
            batch_timestamp_ns = timestamp \<rparr>)"

text \<open>\<open>packet_view(index)\<close>; \<open>None\<close> is an index outside one of the vectors.\<close>

definition batch_view :: "packet_batch \<Rightarrow> nat \<Rightarrow> packet_view option" where
  "batch_view b i =
     (if i < length (packet_offsets b) \<and> i < length (packet_lengths b) \<and> i < length (sender_ids b)
      then
        Some \<lparr> pv_bytes = (if packet_lengths b ! i = 0 then None
                            else Some (drop (unat (packet_offsets b ! i)) (packet_bytes b))),
               pv_size = unat (packet_lengths b ! i), pv_ingress = sender_ids b ! i \<rparr>
      else None)"

definition packet_views :: "packet_batch \<Rightarrow> packet_view list option" where
  "packet_views b = those (map (batch_view b) [0..<packet_count b])"

section \<open>The batch invariant\<close>

text \<open>Every offset is where the packet's bytes start, the lengths add up to the buffer, and the
  buffer can be addressed with 32 bits.\<close>

definition batch_ok :: "packet_batch \<Rightarrow> bool" where
  "batch_ok b \<longleftrightarrow>
     length (packet_offsets b) = packet_count b + 1 \<and> length (sender_ids b) = packet_count b \<and>
     length (packet_bytes b) \<le> 4294967295 \<and>
     (\<forall>i \<le> packet_count b. unat (packet_offsets b ! i) = sum_list (map unat (take i (packet_lengths b)))) \<and>
     unat (packet_offsets b ! packet_count b) = length (packet_bytes b)"

text \<open>The packets of a batch, as bytes with their senders.\<close>

definition batch_packets :: "packet_batch \<Rightarrow> (bytes \<times> u32) list" where
  "batch_packets b =
     map (\<lambda>i. (take (unat (packet_lengths b ! i)) (drop (unat (packet_offsets b ! i)) (packet_bytes b)),
               sender_ids b ! i)) [0..<packet_count b]"

definition view_packet :: "packet_view \<Rightarrow> bytes \<times> u32" where
  "view_packet v = (view_content v, pv_ingress v)"

lemma unat_u16_small: "n \<le> 65535 \<Longrightarrow> unat (of_nat n :: u16) = n"
  by (simp add: unat_of_nat take_bit_nat_eq_self)

lemma unat_u32_small: "n \<le> 4294967295 \<Longrightarrow> unat (of_nat n :: u32) = n"
  by (simp add: unat_of_nat take_bit_nat_eq_self)

text \<open>One packet more: what the loop body does to a batch.\<close>

definition batch_append :: "packet_view \<Rightarrow> packet_batch \<Rightarrow> packet_batch" where
  "batch_append v b =
     b\<lparr> packet_bytes := packet_bytes b @ view_content v,
        packet_lengths := packet_lengths b @ [of_nat (pv_size v)],
        sender_ids := sender_ids b @ [pv_ingress v],
        packet_offsets := packet_offsets b @ [of_nat (length (packet_bytes b) + length (view_content v))] \<rparr>"

definition view_fits :: "packet_view \<Rightarrow> packet_batch \<Rightarrow> bool" where
  "view_fits v b \<longleftrightarrow> (pv_size v = 0 \<or> pv_bytes v \<noteq> None) \<and> pv_size v \<le> 65535 \<and>
     pv_size v \<le> 4294967295 - length (packet_bytes b)"

lemma length_view_content: "view_ok v \<Longrightarrow> pv_size v = 0 \<or> pv_bytes v \<noteq> None \<Longrightarrow> length (view_content v) = pv_size v"
  by (auto simp: view_ok_def view_content_def split: option.splits)

lemma create_loop_Cons:
  "create_loop (v # vs) b =
     (if pv_size v \<noteq> 0 \<and> pv_bytes v = None then Inl NullPacketBytes
      else if pv_size v > 65535 then Inl PacketTooLarge
      else if pv_size v > 4294967295 - length (packet_bytes b) then Inl BatchTooLarge
      else create_loop vs (batch_append v b))"
  by (auto simp: batch_append_def Let_def view_content_def split: option.splits)

lemma create_loop_Inr_Cons:
  "create_loop (v # vs) b = Inr b' \<Longrightarrow> view_fits v b \<and> create_loop vs (batch_append v b) = Inr b'"
  unfolding create_loop_Cons view_fits_def by (auto split: if_splits)

declare create_loop.simps(2) [simp del]

lemma batch_packet_inside:
  assumes "batch_ok b" and "i < packet_count b"
  shows "unat (packet_offsets b ! i) + unat (packet_lengths b ! i) \<le> length (packet_bytes b)"
proof -
  have "unat (packet_offsets b ! Suc i) = unat (packet_offsets b ! i) + unat (packet_lengths b ! i)"
    using assms by (simp add: batch_ok_def packet_count_def take_Suc_conv_app_nth)
  moreover have "sum_list (map unat (take (Suc i) (packet_lengths b))) \<le> sum_list (map unat (packet_lengths b))"
    by (metis append_take_drop_id le_add1 map_append sum_list_append)
  ultimately show ?thesis
    using assms by (auto simp: batch_ok_def packet_count_def)
qed

lemma batch_append_ok:
  assumes "batch_ok b" and "view_ok v" and "view_fits v b"
  shows "batch_ok (batch_append v b)"
    and "batch_packets (batch_append v b) = batch_packets b @ [view_packet v]"
    and "packet_count (batch_append v b) = packet_count b + 1"
proof -
  have len: "length (view_content v) = pv_size v"
    using assms(2,3) by (auto simp: view_fits_def intro: length_view_content)
  have small: "unat (of_nat (pv_size v) :: u16) = pv_size v"
    using assms(3) by (simp add: view_fits_def unat_u16_small)
  have "length (packet_bytes b) + pv_size v \<le> 4294967295"
    using assms(1,3) by (auto simp: view_fits_def batch_ok_def)
  from unat_u32_small [OF this] have small32:
    "unat (of_nat (length (packet_bytes b)) + of_nat (pv_size v) :: u32) = length (packet_bytes b) + pv_size v"
    by simp
  show cnt: "packet_count (batch_append v b) = packet_count b + 1"
    by (simp add: batch_append_def packet_count_def)
  show "batch_ok (batch_append v b)"
    using assms(1,3) small small32
    by (auto simp: batch_ok_def batch_append_def packet_count_def view_fits_def nth_append le_Suc_eq len
        dest: le_antisym)
  have inside: "unat (packet_lengths b ! i) \<le> length (packet_bytes b) - unat (packet_offsets b ! i)"
    if "i < packet_count b" for i
    using batch_packet_inside [OF assms(1) that] by simp
  have "unat (packet_offsets b ! packet_count b) = length (packet_bytes b)"
    using assms(1) by (simp add: batch_ok_def)
  then show "batch_packets (batch_append v b) = batch_packets b @ [view_packet v]"
    using assms(1) small len inside
    by (auto simp: batch_packets_def cnt view_packet_def batch_append_def batch_ok_def nth_append
        packet_count_def)
qed

lemma create_loop_ok:
  assumes "create_loop vs b = Inr b'" and "batch_ok b" and "\<forall>v \<in> set vs. view_ok v"
  shows "batch_ok b' \<and> batch_packets b' = batch_packets b @ map view_packet vs \<and>
    batch_timestamp_ns b' = batch_timestamp_ns b"
  using assms
proof (induction vs arbitrary: b)
  case (Cons v vs)
  note step = create_loop_Inr_Cons [OF Cons.prems(1)]
  have ok: "view_ok v" using Cons.prems(3) by simp
  note app = batch_append_ok [OF Cons.prems(2) ok step [THEN conjunct1]]
  have "batch_timestamp_ns (batch_append v b) = batch_timestamp_ns b" by (simp add: batch_append_def)
  with Cons.IH [OF step [THEN conjunct2] app(1)] Cons.prems(3) app(2) show ?case by simp
qed simp

text \<open>Which view the batch gives for a packet.\<close>

lemma batch_view_Some:
  assumes "batch_ok b" and "i < packet_count b"
  shows "\<exists>v. batch_view b i = Some v \<and> view_ok v \<and> view_packet v = batch_packets b ! i"
  using assms batch_packet_inside [OF assms]
  by (auto simp: batch_view_def batch_ok_def packet_count_def view_ok_def view_packet_def
      view_content_def batch_packets_def)

lemma create_loop_accepts:
  assumes "batch_ok b" and "\<forall>v \<in> set vs. view_ok v"
  shows "(\<exists>b'. create_loop vs b = Inr b') \<longleftrightarrow>
    (\<forall>v \<in> set vs. (pv_size v = 0 \<or> pv_bytes v \<noteq> None) \<and> pv_size v \<le> 65535) \<and>
    length (packet_bytes b) + sum_list (map pv_size vs) \<le> 4294967295"
  using assms
proof (induction vs arbitrary: b)
  case Nil
  then show ?case by (simp add: batch_ok_def)
next
  case (Cons v vs)
  have small: "length (packet_bytes b) \<le> 4294967295" using Cons.prems by (simp add: batch_ok_def)
  show ?case
  proof (cases "view_fits v b")
    case True
    have ok: "view_ok v" using Cons.prems by simp
    have len: "length (view_content v) = pv_size v"
      using True ok by (auto simp: view_fits_def intro: length_view_content)
    have "create_loop (v # vs) b = create_loop vs (batch_append v b)"
      using True by (auto simp: create_loop_Cons view_fits_def)
    moreover have "length (packet_bytes (batch_append v b)) = length (packet_bytes b) + pv_size v"
      by (simp add: batch_append_def len)
    ultimately show ?thesis
      using True Cons.IH [OF batch_append_ok(1) [OF Cons.prems(1) ok True]] Cons.prems(2)
      by (auto simp: view_fits_def)
  next
    case False
    then have "\<not> (\<exists>b'. create_loop (v # vs) b = Inr b')"
      using create_loop_Inr_Cons by blast
    then show ?thesis using False small by (auto simp: view_fits_def)
  qed
qed

lemma batch_ok_empty:
  "batch_ok \<lparr> packet_bytes = [], packet_offsets = [0], packet_lengths = [], sender_ids = [],
     batch_timestamp_ns = ts \<rparr>"
  by (simp add: batch_ok_def packet_count_def)

lemma batch_create_ok:
  assumes "batch_create (Some vs) (length vs) ts = Inr b" and "\<forall>v \<in> set vs. view_ok v"
  shows "batch_ok b \<and> batch_packets b = map view_packet vs \<and> batch_timestamp_ns b = ts"
proof -
  have "create_loop vs \<lparr> packet_bytes = [], packet_offsets = [0], packet_lengths = [],
      sender_ids = [], batch_timestamp_ns = ts \<rparr> = Inr b"
    using assms(1) by (simp add: batch_create_def)
  from create_loop_ok [OF this batch_ok_empty assms(2)] show ?thesis
    by (simp add: batch_packets_def packet_count_def)
qed

lemma packet_views_ok:
  assumes "batch_ok b"
  shows "\<exists>ws. packet_views b = Some ws \<and> (\<forall>w \<in> set ws. view_ok w) \<and>
    map view_packet ws = batch_packets b"
proof -
  define f where "f i = the (batch_view b i)" for i
  have f: "batch_view b i = Some (f i) \<and> view_ok (f i) \<and> view_packet (f i) = batch_packets b ! i"
    if "i < packet_count b" for i
    using batch_view_Some [OF assms that] by (auto simp: f_def)
  have those_Some: "those (map (\<lambda>i. Some (f i)) is) = Some (map f is)" for "is"
    by (induction "is") simp_all
  have "map (batch_view b) [0..<packet_count b] = map (\<lambda>i. Some (f i)) [0..<packet_count b]"
    using f by simp
  then have "packet_views b = Some (map f [0..<packet_count b])"
    by (simp only: packet_views_def those_Some)
  moreover have "map view_packet (map f [0..<packet_count b]) = batch_packets b"
    by (rule nth_equalityI) (use f in \<open>auto simp: batch_packets_def\<close>)
  ultimately show ?thesis using f by auto
qed

text \<open>A batch can be made from packets exactly when every non-empty packet has bytes, none is
  longer than 65535 bytes and together they stay below 2^32 bytes; and a batch that was made
  gives back, in order, the same packets with the same senders, through views that stay inside
  its buffer.\<close>

theorem batch_create_roundtrip:
  assumes "\<forall>v \<in> set vs. view_ok v"
  shows "case batch_create (Some vs) (length vs) ts of
      Inl e \<Rightarrow> \<not> ((\<forall>v \<in> set vs. (pv_size v = 0 \<or> pv_bytes v \<noteq> None) \<and> pv_size v \<le> 65535) \<and>
                 sum_list (map pv_size vs) \<le> 4294967295)
    | Inr b \<Rightarrow> ((\<forall>v \<in> set vs. (pv_size v = 0 \<or> pv_bytes v \<noteq> None) \<and> pv_size v \<le> 65535) \<and>
                 sum_list (map pv_size vs) \<le> 4294967295) \<and>
        (\<exists>ws. packet_views b = Some ws \<and> (\<forall>w \<in> set ws. view_ok w) \<and>
              map view_packet ws = map view_packet vs)"
proof -
  let ?e = "\<lparr> packet_bytes = [], packet_offsets = [0], packet_lengths = [], sender_ids = [],
    batch_timestamp_ns = ts \<rparr>"
  have loop: "batch_create (Some vs) (length vs) ts = create_loop vs ?e"
    by (simp add: batch_create_def)
  note accepts = create_loop_accepts [OF batch_ok_empty assms, of ts]
  show ?thesis
  proof (cases "create_loop vs ?e")
    case (Inl e)
    with accepts show ?thesis by (simp add: loop)
  next
    case (Inr b)
    with batch_create_ok [OF _ assms, of ts b] packet_views_ok [of b] have "\<exists>ws. packet_views b = Some ws \<and>
        (\<forall>w \<in> set ws. view_ok w) \<and> map view_packet ws = map view_packet vs"
      by (simp add: loop)
    with Inr accepts show ?thesis by (simp add: loop)
  qed
qed

theorem batch_create_roundtrip_witness:
  "\<exists>b ws. batch_create (Some [\<lparr> pv_bytes = Some [1, 2, 3], pv_size = 2, pv_ingress = 7 \<rparr>,
      \<lparr> pv_bytes = None, pv_size = 0, pv_ingress = 8 \<rparr>]) 2 9 = Inr b \<and>
    packet_views b = Some ws \<and> map view_packet ws = [([1, 2], 7), ([], 8)]"
proof -
  let ?vs = "[\<lparr> pv_bytes = Some [1, 2, 3], pv_size = 2, pv_ingress = 7 \<rparr>,
    \<lparr> pv_bytes = None, pv_size = 0, pv_ingress = 8 \<rparr>] :: packet_view list"
  have "\<forall>v \<in> set ?vs. view_ok v" by (simp add: view_ok_def)
  from batch_create_roundtrip [OF this, of 9] show ?thesis
    by (auto simp: batch_create_def create_loop_Cons view_packet_def view_content_def)
qed

end
