(* ===== verification/Pcap.thy ===== *)
theory Pcap
  imports Packet_Batch
begin

text \<open>
  Captures, \<^verbatim>\<open>include/wirelab/pcap.hpp\<close> and \<^verbatim>\<open>src/pcap.cpp\<close>: the classic
  and the pcapng reader over one byte buffer, the pcapng writer, and the views into a capture. A
  read outside the buffer is \<open>None\<close>; \<open>capture_reads_in_bounds\<close> shows that no input causes one and
  that every packet lies inside the buffer, and \<open>pcapng_roundtrip\<close> that the reader returns what the
  writer was given. The stream of the writer is the list of bytes it received; whether a write
  succeeds is an argument. \<open>from_file\<close> is with the program that replays captures, in \<open>Pcap_Replay\<close>.
\<close>

section \<open>Constants and data\<close>

datatype pcap_error =
  FileRead | FileWrite | TruncatedHeader | UnknownMagic | UnsupportedLinkType | TruncatedPacket | OversizePacket

definition pcap_error_text :: "pcap_error \<Rightarrow> string" where
  "pcap_error_text e =
     (case e of
        FileRead \<Rightarrow> ''file could not be read''
      | FileWrite \<Rightarrow> ''file could not be written''
      | TruncatedHeader \<Rightarrow> ''file is shorter than a pcap header''
      | UnknownMagic \<Rightarrow> ''not a classic pcap file''
      | UnsupportedLinkType \<Rightarrow> ''capture link type is not Ethernet''
      | TruncatedPacket \<Rightarrow> ''packet record runs past the end of the file''
      | OversizePacket \<Rightarrow> ''packet record declares an implausible length'')"

definition MAGIC_MICROSECONDS :: u32 where "MAGIC_MICROSECONDS = 0xa1b2c3d4"
definition MAGIC_NANOSECONDS :: u32 where "MAGIC_NANOSECONDS = 0xa1b23c4d"
definition MAGIC_MICROSECONDS_SWAPPED :: u32 where "MAGIC_MICROSECONDS_SWAPPED = 0xd4c3b2a1"
definition MAGIC_NANOSECONDS_SWAPPED :: u32 where "MAGIC_NANOSECONDS_SWAPPED = 0x4d3cb2a1"
definition BLOCK_SECTION_HEADER :: u32 where "BLOCK_SECTION_HEADER = 0x0a0d0d0a"
definition BLOCK_INTERFACE_DESCRIPTION :: u32 where "BLOCK_INTERFACE_DESCRIPTION = 1"
definition BLOCK_ENHANCED_PACKET :: u32 where "BLOCK_ENHANCED_PACKET = 6"
definition BLOCK_SIMPLE_PACKET :: u32 where "BLOCK_SIMPLE_PACKET = 3"
definition BYTE_ORDER_MAGIC :: u32 where "BYTE_ORDER_MAGIC = 0x1a2b3c4d"
definition BYTE_ORDER_MAGIC_SWAPPED :: u32 where "BYTE_ORDER_MAGIC_SWAPPED = 0x4d3c2b1a"
definition OPTION_END :: u16 where "OPTION_END = 0"
definition OPTION_COMMENT :: u16 where "OPTION_COMMENT = 1"
definition OPTION_INTERFACE_NAME :: u16 where "OPTION_INTERFACE_NAME = 2"
definition OPTION_USER_APPLICATION :: u16 where "OPTION_USER_APPLICATION = 4"
definition OPTION_TIMESTAMP_RESOLUTION :: u16 where "OPTION_TIMESTAMP_RESOLUTION = 9"
definition DEFAULT_RESOLUTION :: u8 where "DEFAULT_RESOLUTION = 6"
definition NANOSECOND_RESOLUTION :: u8 where "NANOSECOND_RESOLUTION = 9"
definition MAXIMUM_SNAPLEN :: u32 where "MAXIMUM_SNAPLEN = 262144"
definition LINKTYPE_ETHERNET :: u32 where "LINKTYPE_ETHERNET = 1"

lemmas block_types = BLOCK_SECTION_HEADER_def BLOCK_INTERFACE_DESCRIPTION_def BLOCK_ENHANCED_PACKET_def
  BLOCK_SIMPLE_PACKET_def

record pcap_packet =
  pk_timestamp :: u64
  pk_offset :: nat
  pk_captured :: nat
  pk_original :: nat

record pcap_capture =
  pc_bytes :: bytes
  pc_packets :: "pcap_packet list"
  pc_link_type :: u32
  pc_snaplen :: u32
  pc_nanoseconds :: bool
  pc_pcapng :: bool

text \<open>A reader's outcome: \<open>None\<close> is a read outside the buffer.\<close>

type_synonym 'a reading = "(pcap_error + 'a) option"

section \<open>Reading numbers\<close>

definition read_u32 :: "bytes \<Rightarrow> nat \<Rightarrow> bool \<Rightarrow> u32 option" where
  "read_u32 bs i swapped =
     Option.bind (rd8 bs i) (\<lambda>a. Option.bind (rd8 bs (i + 1)) (\<lambda>b.
     Option.bind (rd8 bs (i + 2)) (\<lambda>c. Option.bind (rd8 bs (i + 3)) (\<lambda>d.
       let v = le32 a b c d in
       Some (if \<not> swapped then v
             else drop_bit 24 v OR (drop_bit 8 v AND 0x0000ff00) OR (push_bit 8 v AND 0x00ff0000) OR push_bit 24 v)))))"

definition read_u16 :: "bytes \<Rightarrow> nat \<Rightarrow> bool \<Rightarrow> u16 option" where
  "read_u16 bs i swapped =
     Option.bind (rd8 bs i) (\<lambda>a. Option.bind (rd8 bs (i + 1)) (\<lambda>b.
       let v = le16 a b in Some (if swapped then drop_bit 8 v OR push_bit 8 v else v)))"

text \<open>The options of an interface block: \<open>base\<close> and \<open>len\<close> delimit them, \<open>offset\<close> runs over them.\<close>

function read_timestamp_resolution :: "bytes \<Rightarrow> nat \<Rightarrow> nat \<Rightarrow> bool \<Rightarrow> nat \<Rightarrow> u8 option" where
  "read_timestamp_resolution bs base len swapped offset =
     (if offset + 4 \<le> len then
        Option.bind (read_u16 bs (base + offset) swapped) (\<lambda>code.
        Option.bind (read_u16 bs (base + offset + 2) swapped) (\<lambda>option_length.
          if code = OPTION_END then Some DEFAULT_RESOLUTION
          else if code = OPTION_TIMESTAMP_RESOLUTION \<and> option_length \<ge> 1 \<and> offset + 4 + unat option_length \<le> len
          then rd8 bs (base + offset + 4)
          else read_timestamp_resolution bs base len swapped (offset + (4 + (unat option_length + 3) div 4 * 4))))
      else Some DEFAULT_RESOLUTION)"
  by pat_completeness auto
termination by (relation "measure (\<lambda>(bs, base, len, swapped, offset). len - offset)") auto

declare read_timestamp_resolution.simps [simp del]

definition ticks_to_nanoseconds :: "u64 \<Rightarrow> u8 \<Rightarrow> u64" where
  "ticks_to_nanoseconds ticks resolution =
     (if resolution AND 0x80 \<noteq> 0 then
        let power = unat (resolution AND 0x7f)
        in if power \<ge> 64 then 0 else ticks * 1000000000 div push_bit power 1
      else
        ((\<lambda>n. n div 10) ^^ (unat resolution - 9)) (((\<lambda>n. n * 10) ^^ (9 - unat resolution)) ticks))"

section \<open>The classic reader\<close>

function classic_loop :: "bytes \<Rightarrow> bool \<Rightarrow> bool \<Rightarrow> nat \<Rightarrow> pcap_packet list \<Rightarrow> pcap_packet list reading" where
  "classic_loop bs swapped nanoseconds offset packets =
     (if offset < length bs then
        if length bs - offset < 16 then Some (Inl TruncatedPacket)
        else
          Option.bind (read_u32 bs offset swapped) (\<lambda>seconds.
          Option.bind (read_u32 bs (offset + 4) swapped) (\<lambda>fraction.
          Option.bind (read_u32 bs (offset + 8) swapped) (\<lambda>captured.
          Option.bind (read_u32 bs (offset + 12) swapped) (\<lambda>original.
            if captured > MAXIMUM_SNAPLEN then Some (Inl OversizePacket)
            else if length bs - (offset + 16) < unat captured then Some (Inl TruncatedPacket)
            else classic_loop bs swapped nanoseconds (offset + 16 + unat captured)
              (packets @
                [\<lparr> pk_timestamp = ucast seconds * 1000000000 + (if nanoseconds then ucast fraction else ucast fraction * 1000),
                   pk_offset = offset + 16, pk_captured = unat captured, pk_original = unat original \<rparr>])))))
      else Some (Inr packets))"
  by pat_completeness auto
termination by (relation "measure (\<lambda>(bs, swapped, nanoseconds, offset, packets). length bs - offset)") auto

declare classic_loop.simps [simp del]

text \<open>The magic number: whether the file is byte-swapped, and whether it counts nanoseconds.\<close>

definition classic_magic :: "u32 \<Rightarrow> (bool \<times> bool) option" where
  "classic_magic magic =
     (if magic = MAGIC_MICROSECONDS then Some (False, False)
      else if magic = MAGIC_NANOSECONDS then Some (False, True)
      else if magic = MAGIC_MICROSECONDS_SWAPPED then Some (True, False)
      else if magic = MAGIC_NANOSECONDS_SWAPPED then Some (True, True)
      else None)"

section \<open>The pcapng reader\<close>

record pcapng_state =
  ng_swapped :: bool
  ng_resolutions :: "u8 list"
  ng_packets :: "pcap_packet list"
  ng_link_type :: u32
  ng_snaplen :: u32
  ng_nanoseconds :: bool

text \<open>The section header sets the byte order before the block's length is read.\<close>

definition ng_section :: "bytes \<Rightarrow> nat \<Rightarrow> pcapng_state \<Rightarrow> pcapng_state reading" where
  "ng_section bs offset st =
     (if length bs - offset < 16 then Some (Inl TruncatedHeader)
      else Option.bind (read_u32 bs (offset + 8) False) (\<lambda>order.
        if order = BYTE_ORDER_MAGIC then Some (Inr (st\<lparr> ng_swapped := False, ng_resolutions := [] \<rparr>))
        else if order = BYTE_ORDER_MAGIC_SWAPPED then Some (Inr (st\<lparr> ng_swapped := True, ng_resolutions := [] \<rparr>))
        else Some (Inl UnknownMagic)))"

definition ng_interface :: "bytes \<Rightarrow> nat \<Rightarrow> nat \<Rightarrow> pcapng_state \<Rightarrow> pcapng_state reading" where
  "ng_interface bs body body_length st =
     (if body_length < 8 then Some (Inl TruncatedHeader)
      else Option.bind (read_u16 bs body (ng_swapped st)) (\<lambda>link_type.
        if ucast link_type \<noteq> LINKTYPE_ETHERNET then Some (Inl UnsupportedLinkType)
        else
          Option.bind (read_u32 bs (body + 4) (ng_swapped st)) (\<lambda>snaplen.
          Option.bind (read_timestamp_resolution bs (body + 8) (body_length - 8) (ng_swapped st) 0) (\<lambda>resolution.
            Some (Inr (st\<lparr> ng_resolutions := ng_resolutions st @ [resolution], ng_link_type := ucast link_type,
              ng_snaplen := max (ng_snaplen st) snaplen,
              ng_nanoseconds := ng_nanoseconds st \<or> resolution AND 0x80 = 0 \<and> resolution > DEFAULT_RESOLUTION \<rparr>))))))"

definition ng_enhanced :: "bytes \<Rightarrow> nat \<Rightarrow> nat \<Rightarrow> pcapng_state \<Rightarrow> pcapng_state reading" where
  "ng_enhanced bs body body_length st =
     (if body_length < 20 then Some (Inl TruncatedHeader)
      else
        Option.bind (read_u32 bs body (ng_swapped st)) (\<lambda>interface_id.
        Option.bind (read_u32 bs (body + 4) (ng_swapped st)) (\<lambda>high.
        Option.bind (read_u32 bs (body + 8) (ng_swapped st)) (\<lambda>low.
        Option.bind (read_u32 bs (body + 12) (ng_swapped st)) (\<lambda>captured.
        Option.bind (read_u32 bs (body + 16) (ng_swapped st)) (\<lambda>original.
          if captured > MAXIMUM_SNAPLEN then Some (Inl OversizePacket)
          else if body_length - 20 < unat captured \<or> unat interface_id \<ge> length (ng_resolutions st)
          then Some (Inl TruncatedPacket)
          else
            let ticks = push_bit 32 (ucast high) OR ucast low
            in Some (Inr (st\<lparr> ng_packets := ng_packets st @
              [\<lparr> pk_timestamp = ticks_to_nanoseconds ticks (ng_resolutions st ! unat interface_id),
                 pk_offset = body + 20, pk_captured = unat captured, pk_original = unat original \<rparr>] \<rparr>))))))))"

definition ng_simple :: "bytes \<Rightarrow> nat \<Rightarrow> nat \<Rightarrow> pcapng_state \<Rightarrow> pcapng_state reading" where
  "ng_simple bs body body_length st =
     (if body_length < 4 \<or> ng_resolutions st = [] then Some (Inl TruncatedPacket)
      else Option.bind (read_u32 bs body (ng_swapped st)) (\<lambda>original.
        let captured = (if ng_snaplen st = 0 then original else min original (ng_snaplen st))
        in if captured > MAXIMUM_SNAPLEN then Some (Inl OversizePacket)
           else if body_length - 4 < unat captured then Some (Inl TruncatedPacket)
           else Some (Inr (st\<lparr> ng_packets := ng_packets st @
             [\<lparr> pk_timestamp = 0, pk_offset = body + 4, pk_captured = unat captured, pk_original = unat original \<rparr>] \<rparr>))))"

text \<open>Chaining readings: a read outside the buffer and an error both end the reader.\<close>

definition reading_bind :: "'a reading \<Rightarrow> ('a \<Rightarrow> 'b reading) \<Rightarrow> 'b reading" where
  "reading_bind r f = (case r of None \<Rightarrow> None | Some (Inl e) \<Rightarrow> Some (Inl e) | Some (Inr x) \<Rightarrow> f x)"

text \<open>One block: what its type calls for before and after its length is known, and the state after it with
  the offset of the next block.\<close>

definition ng_open :: "u32 \<Rightarrow> bytes \<Rightarrow> nat \<Rightarrow> pcapng_state \<Rightarrow> pcapng_state reading" where
  "ng_open block_type bs offset st =
     (if block_type = BLOCK_SECTION_HEADER then ng_section bs offset st else Some (Inr st))"

definition ng_body :: "u32 \<Rightarrow> bytes \<Rightarrow> nat \<Rightarrow> nat \<Rightarrow> pcapng_state \<Rightarrow> pcapng_state reading" where
  "ng_body block_type bs body body_length st =
     (if block_type = BLOCK_INTERFACE_DESCRIPTION then ng_interface bs body body_length st
      else if block_type = BLOCK_ENHANCED_PACKET then ng_enhanced bs body body_length st
      else if block_type = BLOCK_SIMPLE_PACKET then ng_simple bs body body_length st
      else Some (Inr st))"

definition ng_block :: "bytes \<Rightarrow> nat \<Rightarrow> pcapng_state \<Rightarrow> (nat \<times> pcapng_state) reading" where
  "ng_block bs offset st =
     (if length bs - offset < 12 then Some (Inl TruncatedPacket)
      else Option.bind (read_u32 bs offset (ng_swapped st)) (\<lambda>block_type.
        reading_bind (ng_open block_type bs offset st) (\<lambda>st.
        Option.bind (read_u32 bs (offset + 4) (ng_swapped st)) (\<lambda>len.
          if unat len < 12 \<or> unat len mod 4 \<noteq> 0 \<or> unat len > length bs - offset then Some (Inl TruncatedPacket)
          else
            reading_bind (ng_body block_type bs (offset + 8) (unat len - 12) st) (\<lambda>st.
            Option.bind (read_u32 bs (offset + unat len - 4) (ng_swapped st)) (\<lambda>trailer.
              if trailer \<noteq> len then Some (Inl TruncatedPacket)
              else Some (Inr (offset + unat len, st))))))))"

lemma reading_bind_simps [simp]:
  "reading_bind None f = None" "reading_bind (Some (Inl e)) f = Some (Inl e)" "reading_bind (Some (Inr x)) f = f x"
  by (simp_all add: reading_bind_def)

lemma reading_bind_Inr_iff:
  "reading_bind r f = Some (Inr y) \<longleftrightarrow> (\<exists>x. r = Some (Inr x) \<and> f x = Some (Inr y))"
  by (auto simp: reading_bind_def split: option.splits sum.splits)

lemma option_bind_Some_iff: "Option.bind r f = Some y \<longleftrightarrow> (\<exists>x. r = Some x \<and> f x = Some y)"
  by (cases r) simp_all

lemma ng_block_advances:
  assumes "ng_block bs offset st = Some (Inr (offset', st'))"
  shows "offset + 12 \<le> offset' \<and> offset' \<le> length bs"
  using assms
  by (auto simp: ng_block_def reading_bind_Inr_iff option_bind_Some_iff split: if_split_asm)

function ng_loop :: "bytes \<Rightarrow> nat \<Rightarrow> pcapng_state \<Rightarrow> pcapng_state reading" where
  "ng_loop bs offset st =
     (if offset < length bs then
        (case ng_block bs offset st of
           None \<Rightarrow> None
         | Some (Inl e) \<Rightarrow> Some (Inl e)
         | Some (Inr (offset', st')) \<Rightarrow> ng_loop bs offset' st')
      else Some (Inr st))"
  by pat_completeness auto
termination
  by (relation "measure (\<lambda>(bs, offset, st). length bs - offset)") (auto dest: ng_block_advances)

declare ng_loop.simps [simp del]

definition from_pcapng_bytes :: "bytes \<Rightarrow> pcap_capture reading" where
  "from_pcapng_bytes bs =
     reading_bind
       (ng_loop bs 0 \<lparr> ng_swapped = False, ng_resolutions = [], ng_packets = [], ng_link_type = LINKTYPE_ETHERNET,
          ng_snaplen = 0, ng_nanoseconds = False \<rparr>) (\<lambda>st.
       Some (Inr \<lparr> pc_bytes = bs, pc_packets = ng_packets st, pc_link_type = ng_link_type st,
         pc_snaplen = (if ng_snaplen st = 0 then MAXIMUM_SNAPLEN else ng_snaplen st),
         pc_nanoseconds = ng_nanoseconds st, pc_pcapng = True \<rparr>))"

definition from_bytes :: "bytes \<Rightarrow> pcap_capture reading" where
  "from_bytes bs =
     (if length bs < 4 then Some (Inl TruncatedHeader)
      else Option.bind (read_u32 bs 0 False) (\<lambda>magic.
        if magic = BLOCK_SECTION_HEADER then from_pcapng_bytes bs
        else if length bs < 24 then Some (Inl TruncatedHeader)
        else
          (case classic_magic magic of
             None \<Rightarrow> Some (Inl UnknownMagic)
           | Some (swapped, nanoseconds) \<Rightarrow>
               Option.bind (read_u32 bs 16 swapped) (\<lambda>snaplen.
               Option.bind (read_u32 bs 20 swapped) (\<lambda>link_type.
                 if link_type \<noteq> LINKTYPE_ETHERNET then Some (Inl UnsupportedLinkType)
                 else reading_bind (classic_loop bs swapped nanoseconds 24 []) (\<lambda>packets.
                   Some (Inr \<lparr> pc_bytes = bs, pc_packets = packets, pc_link_type = link_type, pc_snaplen = snaplen,
                     pc_nanoseconds = nanoseconds, pc_pcapng = False \<rparr>)))))))"

section \<open>Access\<close>

definition capture_count :: "pcap_capture \<Rightarrow> nat" where
  "capture_count c = length (pc_packets c)"

text \<open>The view borrows the frame in place: its bytes are the buffer from the packet's offset on.\<close>

definition pcap_view :: "pcap_capture \<Rightarrow> nat \<Rightarrow> u32 \<Rightarrow> packet_view" where
  "pcap_view c index ingress =
     (if index \<ge> length (pc_packets c) then \<lparr> pv_bytes = None, pv_size = 0, pv_ingress = 0 \<rparr>
      else \<lparr> pv_bytes = Some (drop (pk_offset (pc_packets c ! index)) (pc_bytes c)),
             pv_size = pk_captured (pc_packets c ! index), pv_ingress = ingress \<rparr>)"

definition pcap_frame :: "pcap_capture \<Rightarrow> nat \<Rightarrow> bytes option" where
  "pcap_frame c index =
     (if index < length (pc_packets c) then Some (drop (pk_offset (pc_packets c ! index)) (pc_bytes c)) else None)"

section \<open>The writer\<close>

definition le16_bytes :: "u16 \<Rightarrow> bytes" where
  "le16_bytes v = [ucast v, ucast (drop_bit 8 v)]"

definition le32_bytes :: "u32 \<Rightarrow> bytes" where
  "le32_bytes v = [ucast v, ucast (drop_bit 8 v), ucast (drop_bit 16 v), ucast (drop_bit 24 v)]"

definition le64_bytes :: "u64 \<Rightarrow> bytes" where
  "le64_bytes v = le32_bytes (ucast v) @ le32_bytes (ucast (drop_bit 32 v))"

definition append_padding :: "nat \<Rightarrow> bytes \<Rightarrow> bytes" where
  "append_padding unpadded buffer =
     (let remainder = unpadded mod 4 in if remainder \<noteq> 0 then buffer @ replicate (4 - remainder) 0 else buffer)"

definition append_option :: "u16 \<Rightarrow> bytes \<Rightarrow> bytes \<Rightarrow> bytes" where
  "append_option code content buffer =
     append_padding (length content) (buffer @ le16_bytes code @ le16_bytes (of_nat (length content)) @ content)"

definition append_option_end :: "bytes \<Rightarrow> bytes" where
  "append_option_end buffer = buffer @ le16_bytes OPTION_END @ le16_bytes 0"

definition close_block :: "nat \<Rightarrow> bytes \<Rightarrow> bytes" where
  "close_block start buffer =
     (let total :: u32 = of_nat (length buffer - start + 4)
      in buffer[start + 4 := ucast total, start + 5 := ucast (drop_bit 8 total),
           start + 6 := ucast (drop_bit 16 total), start + 7 := ucast (drop_bit 24 total)] @ le32_bytes total)"

text \<open>A \<open>std::string\<close> as the bytes it holds.\<close>

definition bytes_of_string :: "string \<Rightarrow> bytes" where
  "bytes_of_string s = map (\<lambda>c. of_nat (of_char c)) s"

record pcapng_writer =
  wr_stream :: bytes
  wr_snaplen :: u32
  wr_written :: u64

definition section_block :: "bytes \<Rightarrow> bytes" where
  "section_block header =
     close_block (length header)
       (append_option_end (append_option OPTION_USER_APPLICATION (bytes_of_string ''WireLab'')
         (header @ le32_bytes BLOCK_SECTION_HEADER @ le32_bytes 0 @ le32_bytes BYTE_ORDER_MAGIC @ le16_bytes 1 @
          le16_bytes 0 @ le64_bytes 0xffffffffffffffff)))"

definition interface_block :: "string \<Rightarrow> u32 \<Rightarrow> bytes \<Rightarrow> bytes" where
  "interface_block name snaplen header =
     close_block (length header)
       (append_option_end (append_option OPTION_TIMESTAMP_RESOLUTION [NANOSECOND_RESOLUTION]
         (append_option OPTION_INTERFACE_NAME (bytes_of_string name)
           (header @ le32_bytes BLOCK_INTERFACE_DESCRIPTION @ le32_bytes 0 @ le16_bytes (ucast LINKTYPE_ETHERNET) @
            le16_bytes 0 @ le32_bytes snaplen))))"

text \<open>\<open>opened\<close> and \<open>written\<close> are the states of the stream after opening the file and after writing.\<close>

definition writer_create :: "bool \<Rightarrow> bool \<Rightarrow> string \<Rightarrow> u32 \<Rightarrow> pcap_error + pcapng_writer" where
  "writer_create opened written name snaplen =
     (if \<not> opened then Inl FileWrite
      else if \<not> written then Inl FileWrite
      else Inr \<lparr> wr_stream = interface_block name snaplen (section_block []), wr_snaplen = snaplen, wr_written = 0 \<rparr>)"

definition packet_block :: "u64 \<Rightarrow> bytes \<Rightarrow> nat \<Rightarrow> string \<Rightarrow> bytes" where
  "packet_block timestamp data original comment =
     (let block = append_padding (length data)
            (le32_bytes BLOCK_ENHANCED_PACKET @ le32_bytes 0 @ le32_bytes 0 @ le32_bytes (ucast (drop_bit 32 timestamp)) @
             le32_bytes (ucast timestamp) @ le32_bytes (of_nat (length data)) @
             le32_bytes (of_nat (max original (length data))) @ data)
      in close_block 0
           (if comment \<noteq> [] then append_option_end (append_option OPTION_COMMENT (bytes_of_string comment) block)
            else block))"

text \<open>\<open>data\<close> is what the pointer points to; reading more of it than there is is \<open>None\<close>.\<close>

definition writer_write ::
    "bool \<Rightarrow> u64 \<Rightarrow> bytes option \<Rightarrow> nat \<Rightarrow> nat \<Rightarrow> string \<Rightarrow> pcapng_writer \<Rightarrow> pcapng_writer reading" where
  "writer_write written timestamp data captured original comment w =
     (if data = None \<and> captured \<noteq> 0 then Some (Inl FileWrite)
      else if captured > unat MAXIMUM_SNAPLEN then Some (Inl OversizePacket)
      else
        let content = (case data of None \<Rightarrow> [] | Some bs \<Rightarrow> bs)
        in if length content < captured then None
           else if \<not> written then Some (Inl FileWrite)
           else Some (Inr (w\<lparr> wr_stream := wr_stream w @ packet_block timestamp (take captured content) original comment,
                              wr_written := wr_written w + 1 \<rparr>)))"

section \<open>Readings that stay in the buffer\<close>

definition safe :: "('a \<Rightarrow> bool) \<Rightarrow> 'a reading \<Rightarrow> bool" where
  "safe P r \<longleftrightarrow> r \<noteq> None \<and> (\<forall>x. r = Some (Inr x) \<longrightarrow> P x)"

lemma safe_Inl: "safe P (Some (Inl e))"
  by (simp add: safe_def)

lemma safe_Inr: "P x \<Longrightarrow> safe P (Some (Inr x))"
  by (simp add: safe_def)

lemma safe_if: "(c \<Longrightarrow> safe P a) \<Longrightarrow> (\<not> c \<Longrightarrow> safe P b) \<Longrightarrow> safe P (if c then a else b)"
  by simp

lemma safe_bind: "r \<noteq> None \<Longrightarrow> (\<And>v. r = Some v \<Longrightarrow> safe P (f v)) \<Longrightarrow> safe P (Option.bind r f)"
  by (cases r) simp_all

lemma safe_reading_bind: "safe Q r \<Longrightarrow> (\<And>x. Q x \<Longrightarrow> safe P (f x)) \<Longrightarrow> safe P (reading_bind r f)"
  by (auto simp: safe_def reading_bind_def split: option.splits sum.splits)

lemma read_u32_inside: "i + 4 \<le> length bs \<Longrightarrow> read_u32 bs i s \<noteq> None"
  by (simp add: read_u32_def Let_def)

lemma read_u16_inside: "i + 2 \<le> length bs \<Longrightarrow> read_u16 bs i s \<noteq> None"
  by (simp add: read_u16_def Let_def)

lemma read_timestamp_resolution_inside:
  "base + len \<le> length bs \<Longrightarrow> read_timestamp_resolution bs base len swapped offset \<noteq> None"
proof (induction bs base len swapped offset rule: read_timestamp_resolution.induct)
  case (1 bs base len swapped offset)
  show ?case
  proof (cases "offset + 4 \<le> len")
    case True
    then obtain code option_length where
      "read_u16 bs (base + offset) swapped = Some code" "read_u16 bs (base + offset + 2) swapped = Some option_length"
      using "1.prems" read_u16_inside [of "base + offset" bs swapped] read_u16_inside [of "base + offset + 2" bs swapped]
      by auto
    with True "1.IH" [OF True] "1.prems" show ?thesis
      by (subst read_timestamp_resolution.simps) (auto simp: rd8_def word_le_nat_alt)
  next
    case False
    then show ?thesis by (subst read_timestamp_resolution.simps) auto
  qed
qed

lemmas safe_intros = safe_if safe_Inl safe_bind read_u32_inside read_u16_inside read_timestamp_resolution_inside

definition packet_in :: "bytes \<Rightarrow> pcap_packet \<Rightarrow> bool" where
  "packet_in bs p \<longleftrightarrow> pk_offset p + pk_captured p \<le> length bs \<and> pk_captured p \<le> 262144 \<and> pk_original p < 2 ^ 32"

definition packets_in :: "bytes \<Rightarrow> pcap_packet list \<Rightarrow> bool" where
  "packets_in bs ps \<longleftrightarrow> (\<forall>p \<in> set ps. packet_in bs p)"

lemma packets_in_simps [simp]:
  "packets_in bs []" "packets_in bs (ps @ [p]) \<longleftrightarrow> packets_in bs ps \<and> packet_in bs p"
  by (auto simp: packets_in_def)

lemma packet_in_read [simp]:
  "\<not> captured > MAXIMUM_SNAPLEN \<Longrightarrow> packet_in bs \<lparr> pk_timestamp = t, pk_offset = offset, pk_captured = unat captured,
      pk_original = unat (original :: u32) \<rparr> \<longleftrightarrow> offset + unat captured \<le> length bs"
  using unsigned_less [of original, where ?'a = nat] by (auto simp: packet_in_def word_less_nat_alt MAXIMUM_SNAPLEN_def)

lemma classic_loop_safe:
  "packets_in bs packets \<Longrightarrow> safe (packets_in bs) (classic_loop bs swapped nanoseconds offset packets)"
proof (induction bs swapped nanoseconds offset packets rule: classic_loop.induct)
  case (1 bs swapped nanoseconds offset packets)
  show ?case
    by (subst classic_loop.simps, intro safe_intros "1.IH") (use "1.prems" in \<open>auto simp: safe_Inr\<close>)
qed

abbreviation ng_in :: "bytes \<Rightarrow> pcapng_state \<Rightarrow> bool" where
  "ng_in bs st \<equiv> packets_in bs (ng_packets st)"

lemma ng_open_safe: "offset \<le> length bs \<Longrightarrow> ng_in bs st \<Longrightarrow> safe (ng_in bs) (ng_open ty bs offset st)"
  unfolding ng_open_def ng_section_def by (intro safe_intros safe_Inr) auto

lemma ng_body_safe:
  assumes "body + body_length \<le> length bs" and "ng_in bs st"
  shows "safe (ng_in bs) (ng_body ty bs body body_length st)"
  unfolding ng_body_def ng_interface_def ng_enhanced_def ng_simple_def Let_def
  by (intro safe_intros safe_Inr) (use assms in \<open>auto\<close>)

lemma ng_block_safe:
  assumes "offset < length bs" and "ng_in bs st"
  shows "safe (\<lambda>(offset', st'). offset' \<le> length bs \<and> ng_in bs st') (ng_block bs offset st)"
proof -
  have type_ok: "offset + 4 \<le> length bs" "offset + 4 + 4 \<le> length bs" if "\<not> length bs - offset < 12"
    using that by simp_all
  have block_ok: "offset + 8 + (n - 12) \<le> length bs" "offset + n - 4 + 4 \<le> length bs" "offset + n \<le> length bs"
    if "\<not> (n < 12 \<or> n mod 4 \<noteq> 0 \<or> n > length bs - offset)" for n
    using that assms(1) unfolding de_Morgan_disj not_less by linarith+
  let ?P = "\<lambda>(offset', st'). offset' \<le> length bs \<and> ng_in bs st'"
  have tail: "safe ?P (Option.bind (read_u32 bs (offset + n - 4) s) (\<lambda>trailer.
      if trailer \<noteq> len then Some (Inl TruncatedPacket) else Some (Inr (offset + n, st''))))"
    if "\<not> (n < 12 \<or> n mod 4 \<noteq> 0 \<or> n > length bs - offset)" and "ng_in bs st''" for n len s st''
    by (rule safe_bind [OF read_u32_inside [OF block_ok(2) [OF that(1)]]]) (use that(2) block_ok(3) [OF that(1)] in \<open>simp add: safe_def\<close>)
  show ?thesis
    unfolding ng_block_def
  proof (rule safe_if [OF safe_Inl], rule safe_bind [OF read_u32_inside], erule type_ok,
      rule safe_reading_bind [where Q = "ng_in bs"], rule ng_open_safe, rule less_imp_le [OF assms(1)], rule assms(2),
      rule safe_bind [OF read_u32_inside], erule type_ok)
    fix st' :: pcapng_state and len :: u32 and ty
    assume st': "ng_in bs st'"
    show "safe ?P (if unat len < 12 \<or> unat len mod 4 \<noteq> 0 \<or> unat len > length bs - offset then Some (Inl TruncatedPacket)
      else reading_bind (ng_body ty bs (offset + 8) (unat len - 12) st') (\<lambda>st.
        Option.bind (read_u32 bs (offset + unat len - 4) (ng_swapped st)) (\<lambda>trailer.
          if trailer \<noteq> len then Some (Inl TruncatedPacket) else Some (Inr (offset + unat len, st)))))"
      by (rule safe_if [OF safe_Inl], rule safe_reading_bind [OF ng_body_safe [OF block_ok(1) st']], assumption, rule tail)
  qed
qed

lemma ng_loop_safe: "ng_in bs st \<Longrightarrow> safe (ng_in bs) (ng_loop bs offset st)"
proof (induction bs offset st rule: ng_loop.induct)
  case (1 bs offset st)
  show ?case
  proof (cases "offset < length bs")
    case True
    note block = ng_block_safe [OF True "1.prems"]
    then obtain r where r: "ng_block bs offset st = Some r" by (auto simp: safe_def)
    have unfold: "ng_loop bs offset st =
        (case r of Inl e \<Rightarrow> Some (Inl e) | Inr (offset', st') \<Rightarrow> ng_loop bs offset' st')"
      using True by (subst ng_loop.simps) (simp add: r split: sum.split)
    show ?thesis
    proof (cases r)
      case (Inl e)
      then show ?thesis by (simp add: unfold safe_Inl)
    next
      case (Inr next_block)
      obtain offset' st' where n: "next_block = (offset', st')" by (cases next_block)
      have "ng_in bs st'" using block by (simp add: r Inr n safe_def)
      from "1.IH" [OF True r Inr n [symmetric] this] show ?thesis by (simp add: unfold Inr n)
    qed
  next
    case False
    with "1.prems" show ?thesis by (subst ng_loop.simps) (simp add: safe_Inr)
  qed
qed

section \<open>Reading what was written\<close>

lemma length_le_bytes [simp]: "length (le16_bytes v) = 2" "length (le32_bytes w) = 4" "length (le64_bytes x) = 8"
  by (simp_all add: le16_bytes_def le32_bytes_def le64_bytes_def)

lemma read_u32_at: "bs = xs @ le32_bytes v @ ys \<Longrightarrow> i = length xs \<Longrightarrow> read_u32 bs i False = Some v"
  by (simp add: read_u32_def le32_bytes_def rd8_def nth_append Let_def)

lemma read_u16_at: "bs = xs @ le16_bytes v @ ys \<Longrightarrow> i = length xs \<Longrightarrow> read_u16 bs i False = Some v"
  by (simp add: read_u16_def le16_bytes_def rd8_def nth_append Let_def)

lemma drop_split: "drop i bs = x # xs \<Longrightarrow> bs = take i bs @ x # xs \<and> i = length (take i bs)"
  by (metis append_take_drop_id drop_all length_take list.distinct(1) min.absorb2 nat_le_linear)

lemma read_u32_drop: "drop i bs = le32_bytes v @ ys \<Longrightarrow> read_u32 bs i False = Some v"
  using drop_split [of i bs] by (intro read_u32_at [of bs "take i bs" v ys]) (simp_all add: le32_bytes_def)

lemma read_u16_drop: "drop i bs = le16_bytes v @ ys \<Longrightarrow> read_u16 bs i False = Some v"
  using drop_split [of i bs] by (intro read_u16_at [of bs "take i bs" v ys]) (simp_all add: le16_bytes_def)

definition padding :: "nat \<Rightarrow> bytes" where
  "padding n = (if n mod 4 \<noteq> 0 then replicate (4 - n mod 4) 0 else [])"

lemma append_padding_eq: "append_padding n buffer = buffer @ padding n"
  by (simp add: append_padding_def padding_def Let_def)

lemma length_padding: "n + length (padding n) = (n + 3) div 4 * 4"
proof -
  define q r where "q = n div 4" and "r = n mod 4"
  have n: "n = 4 * q + r" and "r < 4" by (simp_all add: q_def r_def)
  then consider "r = 0" | "r = 1" | "r = 2" | "r = 3" by linarith
  moreover have p: "length (padding n) = (if r = 0 then 0 else 4 - r)" by (simp add: padding_def r_def)
  ultimately show ?thesis unfolding p by cases (simp_all add: n)
qed

lemma length_padding_le: "length (padding n) \<le> 3"
  by (simp add: padding_def) arith

lemma unat_MAXIMUM_SNAPLEN [simp]: "unat MAXIMUM_SNAPLEN = 262144"
  by (simp add: MAXIMUM_SNAPLEN_def)

lemma padded_mod [simp]: "(n + length (padding n)) mod 4 = 0"
  by (simp add: length_padding)

lemma append_option_eq:
  "append_option code content buffer =
    buffer @ le16_bytes code @ le16_bytes (of_nat (length content)) @ content @ padding (length content)"
  by (simp add: append_option_def append_padding_eq)

definition framed :: "u32 \<Rightarrow> bytes \<Rightarrow> bytes" where
  "framed ty body = le32_bytes ty @ le32_bytes (of_nat (length body + 12)) @ body @ le32_bytes (of_nat (length body + 12))"

lemma close_block_framed: "close_block (length pre) (pre @ le32_bytes ty @ le32_bytes 0 @ body) = pre @ framed ty body"
proof -
  have "length (pre @ le32_bytes ty @ le32_bytes 0 @ body) - length pre + 4 = length body + 12" by simp
  then show ?thesis
    unfolding close_block_def Let_def framed_def by (simp add: le32_bytes_def list_update_append add.commute)
qed

text \<open>A block at the end of \<open>pre\<close>, as the writer lays it out, is read as one step.\<close>

lemma ng_block_step:
  assumes bs: "bs = pre @ le32_bytes ty @ le32_bytes len @ body @ le32_bytes len @ post"
    and len: "len = of_nat (length body + 12)" "length body mod 4 = 0" "length body + 12 < 2 ^ 32"
    and st: "\<not> ng_swapped st" "ng_open ty bs (length pre) st = Some (Inr st1)" "\<not> ng_swapped st1"
      "ng_body ty bs (length pre + 8) (length body) st1 = Some (Inr st2)" "\<not> ng_swapped st2"
  shows "ng_block bs (length pre) st = Some (Inr (length pre + length body + 12, st2))"
proof -
  have n: "unat len = length body + 12"
    unfolding len(1) using len(3) by (simp only: unsigned_of_nat) (simp add: take_bit_nat_eq_self)
  have reads: "read_u32 bs (length pre) False = Some ty" "read_u32 bs (length pre + 4) False = Some len"
    "read_u32 bs (8 + (length pre + length body)) False = Some len"
    by (rule read_u32_at [OF bs], simp,
        rule read_u32_at [of _ "pre @ le32_bytes ty" _ "body @ le32_bytes len @ post"], simp add: bs, simp,
        rule read_u32_at [of _ "pre @ le32_bytes ty @ le32_bytes len @ body" _ post], simp add: bs, simp)
  have sizes: "\<not> length bs - length pre < 12" "\<not> length body + 12 > length bs - length pre"
    "length pre + (length body + 12) - 4 = 8 + (length pre + length body)"
    by (simp_all add: bs)
  have aligned: "(length body + 12) mod 4 = 0" using len(2) by presburger
  show ?thesis
    unfolding ng_block_def using st reads sizes aligned by (simp add: n)
qed

lemma ticks_nanoseconds [simp]: "ticks_to_nanoseconds ticks NANOSECOND_RESOLUTION = ticks"
  by (simp add: ticks_to_nanoseconds_def NANOSECOND_RESOLUTION_def)

lemma join_halves: "push_bit 32 (ucast (ucast (drop_bit 32 v) :: u32)) OR ucast (ucast v :: u32) = (v :: u64)"
  by (rule bit_word_eqI) (auto simp: bit_simps)

lemma length_bytes_of_string [simp]: "length (bytes_of_string s) = length s"
  by (simp add: bytes_of_string_def)

text \<open>The three kinds of block.\<close>

definition section_body :: bytes where
  "section_body = le32_bytes BYTE_ORDER_MAGIC @ le16_bytes 1 @ le16_bytes 0 @ le64_bytes 0xffffffffffffffff @
     le16_bytes OPTION_USER_APPLICATION @ le16_bytes (of_nat (length ''WireLab'')) @ bytes_of_string ''WireLab'' @
     padding (length ''WireLab'') @
     le16_bytes OPTION_END @ le16_bytes 0"

definition interface_body :: "string \<Rightarrow> u32 \<Rightarrow> bytes" where
  "interface_body name snaplen = le16_bytes 1 @ le16_bytes 0 @ le32_bytes snaplen @
     le16_bytes OPTION_INTERFACE_NAME @ le16_bytes (of_nat (length name)) @ bytes_of_string name @ padding (length name) @
     le16_bytes OPTION_TIMESTAMP_RESOLUTION @ le16_bytes 1 @ [NANOSECOND_RESOLUTION] @ padding 1 @
     le16_bytes OPTION_END @ le16_bytes 0"

definition comment_option :: "string \<Rightarrow> bytes" where
  "comment_option comment =
     (if comment = [] then []
      else le16_bytes OPTION_COMMENT @ le16_bytes (of_nat (length comment)) @ bytes_of_string comment @
        padding (length comment) @ le16_bytes OPTION_END @ le16_bytes 0)"

definition packet_body :: "u64 \<Rightarrow> bytes \<Rightarrow> nat \<Rightarrow> string \<Rightarrow> bytes" where
  "packet_body timestamp data original comment =
     le32_bytes 0 @ le32_bytes (ucast (drop_bit 32 timestamp)) @ le32_bytes (ucast timestamp) @
     le32_bytes (of_nat (length data)) @ le32_bytes (of_nat (max original (length data))) @ data @
     padding (length data) @ comment_option comment"

lemma section_block_eq: "section_block [] = framed BLOCK_SECTION_HEADER section_body"
  using close_block_framed [of "[]" BLOCK_SECTION_HEADER section_body]
  by (simp only: section_block_def section_body_def append_option_end_def append_option_eq length_bytes_of_string
      append_assoc append_Nil list.size)

lemma interface_block_eq:
  "interface_block name snaplen pre = pre @ framed BLOCK_INTERFACE_DESCRIPTION (interface_body name snaplen)"
proof -
  have one: "(of_nat (length [NANOSECOND_RESOLUTION]) :: u16) = 1" "padding (length [NANOSECOND_RESOLUTION]) = padding 1"
    "(ucast LINKTYPE_ETHERNET :: u16) = 1"
    by (simp_all add: LINKTYPE_ETHERNET_def)
  show ?thesis
    using close_block_framed [of pre BLOCK_INTERFACE_DESCRIPTION "interface_body name snaplen"]
    by (simp only: interface_block_def interface_body_def append_option_end_def append_option_eq length_bytes_of_string
        append_assoc one)
qed

lemma packet_block_eq:
  "packet_block timestamp data original comment =
    framed BLOCK_ENHANCED_PACKET (packet_body timestamp data original comment)"
  using close_block_framed [of "[]" BLOCK_ENHANCED_PACKET "packet_body timestamp data original comment"]
  by (cases "comment = []")
    (simp_all only: packet_block_def packet_body_def comment_option_def append_option_end_def append_option_eq
      append_padding_eq length_bytes_of_string append_assoc append_Nil append_Nil2 list.size Let_def if_True if_False
      simp_thms)

text \<open>Every block is a multiple of four bytes long.\<close>

lemma aligned_append: "4 dvd length xs \<Longrightarrow> 4 dvd length ys \<Longrightarrow> 4 dvd length (xs @ ys)"
  by simp

lemma aligned_pieces:
  assumes "4 dvd length rest"
  shows "4 dvd length (le32_bytes v @ rest)" and "4 dvd length (le64_bytes x @ rest)"
    and "4 dvd length (le16_bytes a @ le16_bytes b @ rest)"
  using assms aligned_append [of "le16_bytes a @ le16_bytes b" rest] by simp_all

lemma aligned_padded:
  assumes "n = length content" and "4 dvd length rest"
  shows "4 dvd length (content @ padding n @ rest)"
proof -
  have "4 dvd length (content @ padding n)"
    unfolding mod_eq_0_iff_dvd [symmetric] length_append assms(1) by (rule padded_mod)
  from aligned_append [OF this assms(2)] show ?thesis by simp
qed

lemma aligned_section: "4 dvd length section_body"
  unfolding section_body_def by (intro aligned_pieces aligned_padded) simp_all

lemma aligned_interface: "4 dvd length (interface_body name snaplen)"
  unfolding interface_body_def by (intro aligned_pieces aligned_padded) simp_all

lemma aligned_packet: "4 dvd length (packet_body timestamp data original comment)"
proof -
  have "4 dvd length (comment_option comment)"
    unfolding comment_option_def by (cases "comment = []") (simp_all only: if_True if_False simp_thms list.size dvd_0_right,
      intro aligned_pieces aligned_padded, simp_all)
  then show ?thesis unfolding packet_body_def by (intro aligned_pieces aligned_padded) simp_all
qed

lemma framed_step:
  assumes "bs = pre @ framed ty body @ post" and "4 dvd length body" and "length body + 12 < 2 ^ 32"
    and "\<not> ng_swapped st" and "ng_open ty bs (length pre) st = Some (Inr st1)" and "\<not> ng_swapped st1"
    and "ng_body ty bs (length pre + 8) (length body) st1 = Some (Inr st2)" and "\<not> ng_swapped st2"
  shows "ng_block bs (length pre) st = Some (Inr (length (pre @ framed ty body), st2))"
proof -
  have "ng_block bs (length pre) st = Some (Inr (length pre + length body + 12, st2))"
    by (rule ng_block_step [OF _ refl _ assms(3,4,5,6,7,8)]) (use assms(1,2) in \<open>simp_all add: framed_def\<close>)
  then show ?thesis by (simp add: framed_def)
qed

lemma read_section:
  assumes "bs = framed BLOCK_SECTION_HEADER section_body @ post" and "\<not> ng_swapped st"
  shows "ng_block bs 0 st =
    Some (Inr (length (framed BLOCK_SECTION_HEADER section_body), st\<lparr> ng_swapped := False, ng_resolutions := [] \<rparr>))"
proof -
  let ?len = "le32_bytes (of_nat (length section_body + 12))"
  obtain rest where body: "section_body = le32_bytes BYTE_ORDER_MAGIC @ rest" by (simp add: section_body_def)
  have "read_u32 bs 8 False = Some BYTE_ORDER_MAGIC"
    by (rule read_u32_drop [of _ _ _ "rest @ ?len @ post"]) (simp add: assms(1) framed_def body)
  moreover have "\<not> length bs - 0 < 16" by (simp add: assms(1) framed_def body)
  ultimately have opened: "ng_open BLOCK_SECTION_HEADER bs (length []) st =
      Some (Inr (st\<lparr> ng_swapped := False, ng_resolutions := [] \<rparr>))"
    by (simp add: ng_open_def ng_section_def)
  have "length section_body + 12 < 2 ^ 32" by (simp add: section_body_def padding_def)
  from framed_step [of bs "[]", OF _ aligned_section this assms(2) opened] show ?thesis
    by (simp add: assms(1) ng_body_def block_types)
qed

lemma read_resolution_nanoseconds:
  assumes "bs = pre @ (le16_bytes OPTION_INTERFACE_NAME @ le16_bytes (of_nat (length name)) @ bytes_of_string name @
      padding (length name)) @ le16_bytes OPTION_TIMESTAMP_RESOLUTION @ le16_bytes 1 @ NANOSECOND_RESOLUTION # post"
    and "length name < 2 ^ 16" and "12 + (length name + length (padding (length name))) \<le> len"
  shows "read_timestamp_resolution bs (length pre) len False 0 = Some NANOSECOND_RESOLUTION"
proof -
  let ?option = "le16_bytes OPTION_INTERFACE_NAME @ le16_bytes (of_nat (length name)) @ bytes_of_string name @
      padding (length name)"
  define k where "k = 4 + (length name + 3) div 4 * 4"
  have k: "length ?option = k" "k + 8 \<le> len"
    using assms(3) length_padding [of "length name"] by (simp_all add: k_def)
  have n: "unat (of_nat (length name) :: u16) = length name"
    using assms(2) by (simp only: unsigned_of_nat) (simp add: take_bit_nat_eq_self)
  have reads: "read_u16 bs (length pre) False = Some OPTION_INTERFACE_NAME"
    "read_u16 bs (length pre + 2) False = Some (of_nat (length name))"
    "read_u16 bs (length pre + k) False = Some OPTION_TIMESTAMP_RESOLUTION"
    "read_u16 bs (length pre + k + 2) False = Some 1"
    by (rule read_u16_drop, simp add: assms(1), rule read_u16_drop, simp add: assms(1),
        rule read_u16_drop, simp add: assms(1) flip: k(1), rule read_u16_drop, simp add: assms(1) flip: k(1))
  have nine: "rd8 bs (length pre + k + 4) = Some NANOSECOND_RESOLUTION"
  proof -
    have "bs = (pre @ ?option @ le16_bytes OPTION_TIMESTAMP_RESOLUTION @ le16_bytes 1) @ NANOSECOND_RESOLUTION # post"
      by (simp only: assms(1) append_assoc)
    moreover have "length pre + k + 4 =
        length (pre @ ?option @ le16_bytes OPTION_TIMESTAMP_RESOLUTION @ le16_bytes 1)"
      using k(1) by simp
    ultimately show ?thesis by (simp only: rd8_eq_Some_iff nth_append_length) simp
  qed
  have codes: "OPTION_INTERFACE_NAME \<noteq> OPTION_END" "OPTION_INTERFACE_NAME \<noteq> OPTION_TIMESTAMP_RESOLUTION"
    "OPTION_TIMESTAMP_RESOLUTION \<noteq> OPTION_END"
    by (simp_all add: OPTION_END_def OPTION_INTERFACE_NAME_def OPTION_TIMESTAMP_RESOLUTION_def)
  have "read_timestamp_resolution bs (length pre) len False k = Some NANOSECOND_RESOLUTION"
    using k(2) reads(3,4) nine codes by (subst read_timestamp_resolution.simps) simp
  then show ?thesis
    using k(2) reads(1,2) codes n by (subst read_timestamp_resolution.simps) (simp add: k_def)
qed

lemma read_interface:
  assumes bs: "bs = pre @ framed BLOCK_INTERFACE_DESCRIPTION (interface_body name snaplen) @ post"
    and "length name < 2 ^ 16" and "\<not> ng_swapped st"
  shows "ng_block bs (length pre) st =
    Some (Inr (length (pre @ framed BLOCK_INTERFACE_DESCRIPTION (interface_body name snaplen)),
      st\<lparr> ng_resolutions := ng_resolutions st @ [NANOSECOND_RESOLUTION], ng_link_type := LINKTYPE_ETHERNET,
         ng_snaplen := max (ng_snaplen st) snaplen, ng_nanoseconds := True \<rparr>))"
proof -
  let ?body = "interface_body name snaplen"
  let ?len = "le32_bytes (of_nat (length ?body + 12))"
  have small: "length ?body + 12 < 2 ^ 32"
    using assms(2) length_padding [of "length name"] by (simp add: interface_body_def padding_def)
  have reads: "read_u16 bs (length pre + 8) False = Some 1" "read_u32 bs (length pre + 8 + 4) False = Some snaplen"
    by (rule read_u16_drop, simp add: bs framed_def interface_body_def,
        rule read_u32_drop, simp add: bs framed_def interface_body_def)
  have resolution: "read_timestamp_resolution bs (length pre + 8 + 8) (length ?body - 8) False 0 = Some NANOSECOND_RESOLUTION"
  proof -
    let ?head = "pre @ le32_bytes BLOCK_INTERFACE_DESCRIPTION @ ?len @ le16_bytes 1 @ le16_bytes 0 @ le32_bytes snaplen"
    have head: "length ?head = length pre + 8 + 8" by simp
    have "read_timestamp_resolution bs (length ?head) (length ?body - 8) False 0 = Some NANOSECOND_RESOLUTION"
      by (rule read_resolution_nanoseconds [OF _ assms(2), of bs ?head "padding 1 @ le16_bytes OPTION_END @ le16_bytes 0 @ ?len @ post"])
        (simp_all add: bs framed_def interface_body_def)
    then show ?thesis unfolding head .
  qed
  have "ng_body BLOCK_INTERFACE_DESCRIPTION bs (length pre + 8) (length ?body) st =
      Some (Inr (st\<lparr> ng_resolutions := ng_resolutions st @ [NANOSECOND_RESOLUTION], ng_link_type := LINKTYPE_ETHERNET,
         ng_snaplen := max (ng_snaplen st) snaplen, ng_nanoseconds := True \<rparr>))"
    using reads resolution assms(3)
    by (simp add: ng_body_def ng_interface_def LINKTYPE_ETHERNET_def interface_body_def NANOSECOND_RESOLUTION_def
        DEFAULT_RESOLUTION_def)
  then show ?thesis
    by (rule framed_step [OF bs aligned_interface small assms(3), of st, rotated -1, rotated -1])
      (use assms(3) in \<open>simp_all add: ng_open_def block_types\<close>)
qed

text \<open>The packet the reader makes of a packet block.\<close>

definition packet_read :: "nat \<Rightarrow> u64 \<Rightarrow> bytes \<Rightarrow> nat \<Rightarrow> pcap_packet" where
  "packet_read offset timestamp data original =
     \<lparr> pk_timestamp = timestamp, pk_offset = offset + 28, pk_captured = length data,
       pk_original = max original (length data) \<rparr>"

lemma unat_of_nat_u32: "n < 2 ^ 32 \<Longrightarrow> unat (of_nat n :: u32) = n"
  by (simp only: unsigned_of_nat) (simp add: take_bit_nat_eq_self)

lemma read_packet:
  assumes bs: "bs = pre @ framed BLOCK_ENHANCED_PACKET (packet_body timestamp data original comment) @ post"
    and sizes: "length data \<le> 262144" "original < 2 ^ 32" "length comment < 2 ^ 16"
    and st: "\<not> ng_swapped st" "ng_resolutions st = [NANOSECOND_RESOLUTION]"
  shows "ng_block bs (length pre) st =
    Some (Inr (length (pre @ framed BLOCK_ENHANCED_PACKET (packet_body timestamp data original comment)),
      st\<lparr> ng_packets := ng_packets st @ [packet_read (length pre) timestamp data original] \<rparr>))"
proof -
  let ?body = "packet_body timestamp data original comment"
  have small: "length ?body + 12 < 2 ^ 32"
    using sizes length_padding_le [of "length data"] length_padding_le [of "length comment"]
    by (simp add: packet_body_def comment_option_def)
  have reads: "read_u32 bs (length pre + 8) False = Some 0"
    "read_u32 bs (length pre + 8 + 4) False = Some (ucast (drop_bit 32 timestamp))"
    "read_u32 bs (length pre + 8 + 8) False = Some (ucast timestamp)"
    "read_u32 bs (length pre + 8 + 12) False = Some (of_nat (length data))"
    "read_u32 bs (length pre + 8 + 16) False = Some (of_nat (max original (length data)))"
    by (rule read_u32_drop, simp add: bs framed_def packet_body_def)+
  have lengths: "unat (of_nat (length data) :: u32) = length data"
    "unat (of_nat (max original (length data)) :: u32) = max original (length data)"
    using sizes by (simp_all add: unat_of_nat_u32 del: of_nat_max)
  have fits: "\<not> (of_nat (length data) :: u32) > MAXIMUM_SNAPLEN" "\<not> length ?body < 20" "\<not> length ?body - 20 < length data"
    using sizes(1) lengths(1) by (simp_all add: word_less_nat_alt MAXIMUM_SNAPLEN_def packet_body_def)
  have "ng_body BLOCK_ENHANCED_PACKET bs (length pre + 8) (length ?body) st =
      Some (Inr (st\<lparr> ng_packets := ng_packets st @ [packet_read (length pre) timestamp data original] \<rparr>))"
    using reads fits lengths st
    by (simp add: ng_body_def ng_enhanced_def block_types join_halves packet_read_def Let_def del: of_nat_max)
  then show ?thesis
    by (rule framed_step [OF bs aligned_packet small st(1), of st, rotated -1, rotated -1])
      (use st in \<open>simp_all add: ng_open_def block_types\<close>)
qed

text \<open>What the writer is asked for.\<close>

record written_packet =
  wp_timestamp :: u64
  wp_data :: bytes
  wp_original :: nat
  wp_comment :: string

fun write_packets :: "written_packet list \<Rightarrow> pcapng_writer \<Rightarrow> pcapng_writer reading" where
  "write_packets [] w = Some (Inr w)"
| "write_packets (p # ps) w =
     reading_bind (writer_write True (wp_timestamp p) (Some (wp_data p)) (length (wp_data p)) (wp_original p) (wp_comment p) w)
       (write_packets ps)"

definition writable :: "written_packet \<Rightarrow> bool" where
  "writable p \<longleftrightarrow> length (wp_data p) \<le> 262144 \<and> wp_original p < 2 ^ 32 \<and> length (wp_comment p) < 2 ^ 16"

definition written_block :: "written_packet \<Rightarrow> bytes" where
  "written_block p = framed BLOCK_ENHANCED_PACKET (packet_body (wp_timestamp p) (wp_data p) (wp_original p) (wp_comment p))"

lemma write_packets_stream:
  "\<forall>p \<in> set ps. writable p \<Longrightarrow>
    write_packets ps w = Some (Inr (w\<lparr> wr_stream := wr_stream w @ concat (map written_block ps),
      wr_written := wr_written w + of_nat (length ps) \<rparr>))"
proof (induction ps arbitrary: w)
  case (Cons p ps)
  then show ?case
    by (simp add: writer_write_def writable_def packet_block_eq written_block_def algebra_simps Let_def)
qed simp

fun packets_read :: "nat \<Rightarrow> written_packet list \<Rightarrow> pcap_packet list" where
  "packets_read offset [] = []"
| "packets_read offset (p # ps) =
     packet_read offset (wp_timestamp p) (wp_data p) (wp_original p) # packets_read (offset + length (written_block p)) ps"

lemma read_packets:
  assumes "bs = pre @ concat (map written_block ps)" and "\<forall>p \<in> set ps. writable p"
    and "\<not> ng_swapped st" and "ng_resolutions st = [NANOSECOND_RESOLUTION]"
  shows "ng_loop bs (length pre) st = Some (Inr (st\<lparr> ng_packets := ng_packets st @ packets_read (length pre) ps \<rparr>))"
  using assms
proof (induction ps arbitrary: pre st)
  case Nil
  then show ?case by (subst ng_loop.simps) simp
next
  case (Cons p ps)
  have "0 < length (written_block p)" by (simp add: written_block_def framed_def)
  then have more: "length pre < length bs" using Cons.prems(1) by simp
  have bs: "bs = pre @ written_block p @ concat (map written_block ps)" using Cons.prems(1) by simp
  let ?st = "st\<lparr> ng_packets := ng_packets st @ [packet_read (length pre) (wp_timestamp p) (wp_data p) (wp_original p)] \<rparr>"
  have "ng_block bs (length pre) st = Some (Inr (length (pre @ written_block p), ?st))"
    using read_packet [OF bs [unfolded written_block_def]] Cons.prems(2-4) by (simp add: writable_def written_block_def)
  then have "ng_loop bs (length pre) st = ng_loop bs (length (pre @ written_block p)) ?st"
    using more by (subst ng_loop.simps) simp
  also have "\<dots> = Some (Inr (?st\<lparr> ng_packets := ng_packets ?st @ packets_read (length (pre @ written_block p)) ps \<rparr>))"
    by (rule Cons.IH) (use Cons.prems in simp_all)
  finally show ?case by simp
qed

text \<open>A packet as a client sees it: its time, its bytes in the buffer, and its length on the wire.\<close>

definition packet_content :: "bytes \<Rightarrow> pcap_packet \<Rightarrow> u64 \<times> bytes \<times> nat" where
  "packet_content bs pk = (pk_timestamp pk, take (pk_captured pk) (drop (pk_offset pk) bs), pk_original pk)"

definition written_content :: "written_packet \<Rightarrow> u64 \<times> bytes \<times> nat" where
  "written_content p = (wp_timestamp p, wp_data p, max (wp_original p) (length (wp_data p)))"

lemma packets_read_content:
  "bs = pre @ concat (map written_block ps) \<Longrightarrow>
    map (packet_content bs) (packets_read (length pre) ps) = map written_content ps"
proof (induction ps arbitrary: pre)
  case (Cons p ps)
  have "take (length (wp_data p)) (drop (length pre + 28) bs) = wp_data p"
    by (simp add: Cons.prems written_block_def framed_def packet_body_def)
  then have "packet_content bs (packet_read (length pre) (wp_timestamp p) (wp_data p) (wp_original p)) = written_content p"
    by (simp add: packet_content_def written_content_def packet_read_def)
  moreover have "map (packet_content bs) (packets_read (length (pre @ written_block p)) ps) = map written_content ps"
    by (rule Cons.IH) (simp add: Cons.prems)
  ultimately show ?case by simp
qed simp

lemma view_in_bounds:
  assumes "packets_in (pc_bytes c) (pc_packets c)"
  shows "view_ok (pcap_view c i ingress)"
proof (cases "i < length (pc_packets c)")
  case True
  then have "pk_offset (pc_packets c ! i) + pk_captured (pc_packets c ! i) \<le> length (pc_bytes c)"
    using assms nth_mem by (auto simp: packets_in_def packet_in_def)
  then show ?thesis using True by (simp add: pcap_view_def view_ok_def)
qed (simp add: pcap_view_def view_ok_def)

lemma from_bytes_safe: "safe (\<lambda>c. pc_bytes c = bs \<and> packets_in bs (pc_packets c)) (from_bytes bs)" (is "safe ?Q _")
proof -
  have ng: "safe ?Q (from_pcapng_bytes bs)"
    unfolding from_pcapng_bytes_def by (intro safe_reading_bind [OF ng_loop_safe] safe_Inr) simp_all
  have classic: "safe ?Q (reading_bind (classic_loop bs swapped nanoseconds 24 []) (\<lambda>packets.
      Some (Inr \<lparr> pc_bytes = bs, pc_packets = packets, pc_link_type = l, pc_snaplen = n, pc_nanoseconds = nanoseconds,
        pc_pcapng = False \<rparr>)))" for swapped nanoseconds l n
    by (intro safe_reading_bind [OF classic_loop_safe] safe_Inr) simp_all
  have magic: "safe ?Q (case classic_magic m of None \<Rightarrow> Some (Inl UnknownMagic)
      | Some (swapped, nanoseconds) \<Rightarrow> Option.bind (read_u32 bs 16 swapped) (\<lambda>snaplen.
          Option.bind (read_u32 bs 20 swapped) (\<lambda>link_type.
            if link_type \<noteq> LINKTYPE_ETHERNET then Some (Inl UnsupportedLinkType)
            else reading_bind (classic_loop bs swapped nanoseconds 24 []) (\<lambda>packets.
              Some (Inr \<lparr> pc_bytes = bs, pc_packets = packets, pc_link_type = link_type, pc_snaplen = snaplen,
                pc_nanoseconds = nanoseconds, pc_pcapng = False \<rparr>)))))" if "\<not> length bs < 24" for m
  proof (cases "classic_magic m")
    case None
    then show ?thesis by (simp add: safe_Inl)
  next
    case (Some sn)
    then show ?thesis using that
      by (cases sn) (auto intro!: safe_if safe_Inl safe_bind read_u32_inside classic)
  qed
  show ?thesis
    unfolding from_bytes_def by (intro safe_if safe_Inl safe_bind read_u32_inside ng magic) simp_all
qed

section \<open>Properties\<close>

text \<open>C31. Whatever bytes a capture file holds, the readers stay inside them, end, and give an error or packets
  that all lie inside the buffer, so that every view into a capture is readable.\<close>

theorem capture_reads_in_bounds:
  "case from_bytes bs of None \<Rightarrow> False | Some (Inl e) \<Rightarrow> True
   | Some (Inr c) \<Rightarrow> pc_bytes c = bs \<and> (\<forall>i ingress. view_ok (pcap_view c i ingress))"
  using from_bytes_safe [of bs] by (auto simp: safe_def view_in_bounds split: option.split sum.split)

lemma written_packets_read:
  assumes "writer_create True True name snaplen = Inr w0" and "length name < 2 ^ 16"
    and "\<forall>p \<in> set ps. writable p" and "write_packets ps w0 = Some (Inr w)"
  shows "\<exists>c. from_bytes (wr_stream w) = Some (Inr c) \<and> pc_link_type c = LINKTYPE_ETHERNET \<and> pc_pcapng c \<and>
    map (packet_content (wr_stream w)) (pc_packets c) = map written_content ps \<and> wr_written w = of_nat (length ps)"
proof -
  let ?section = "framed BLOCK_SECTION_HEADER section_body"
  let ?interface = "framed BLOCK_INTERFACE_DESCRIPTION (interface_body name snaplen)"
  let ?bs = "wr_stream w"
  let ?st0 = "\<lparr> ng_swapped = False, ng_resolutions = [], ng_packets = [], ng_link_type = LINKTYPE_ETHERNET,
    ng_snaplen = 0, ng_nanoseconds = False \<rparr>"
  let ?st2 = "\<lparr> ng_swapped = False, ng_resolutions = [NANOSECOND_RESOLUTION], ng_packets = [],
    ng_link_type = LINKTYPE_ETHERNET, ng_snaplen = snaplen, ng_nanoseconds = True \<rparr>"
  have w0: "w0 = \<lparr> wr_stream = ?section @ ?interface, wr_snaplen = snaplen, wr_written = 0 \<rparr>"
    using assms(1) by (simp add: writer_create_def interface_block_eq section_block_eq)
  have w: "?bs = (?section @ ?interface) @ concat (map written_block ps)" "wr_written w = of_nat (length ps)"
    using assms(4) write_packets_stream [OF assms(3), of w0] by (auto simp: w0)
  have bs: "?bs = ?section @ ?interface @ concat (map written_block ps)" using w by simp
  have "ng_block ?bs 0 ?st0 = Some (Inr (length ?section, ?st0))"
    using read_section [OF bs, of ?st0] by simp
  moreover have "ng_block ?bs (length ?section) ?st0 = Some (Inr (length (?section @ ?interface), ?st2))"
    using read_interface [OF bs assms(2), of ?st0] by (simp add: word_le_def max_def)
  moreover have "ng_loop ?bs (length (?section @ ?interface)) ?st2 =
      Some (Inr (?st2\<lparr> ng_packets := packets_read (length (?section @ ?interface)) ps \<rparr>))"
    using read_packets [OF w(1) assms(3), of ?st2] by simp
  moreover have "0 < length ?bs" "length ?section < length ?bs"
    by (simp_all add: bs framed_def)
  ultimately have "ng_loop ?bs 0 ?st0 = Some (Inr (?st2\<lparr> ng_packets := packets_read (length (?section @ ?interface)) ps \<rparr>))"
    by (subst ng_loop.simps) (simp, subst ng_loop.simps, simp)
  moreover have "read_u32 ?bs 0 False = Some BLOCK_SECTION_HEADER" "\<not> length ?bs < 4"
    by (rule read_u32_drop, simp add: bs framed_def) (simp add: bs framed_def)
  ultimately obtain c where "from_bytes ?bs = Some (Inr c)" "pc_link_type c = LINKTYPE_ETHERNET" "pc_pcapng c"
    "pc_packets c = packets_read (length (?section @ ?interface)) ps"
    by (simp add: from_bytes_def from_pcapng_bytes_def)
  then show ?thesis using packets_read_content [OF w(1)] w(2) by auto
qed

text \<open>C30. A capture that the writer produced is read back in full: same number of packets, same times to the
  nanosecond, same bytes, and the length on the wire, which is at least the captured length, in a
  file the reader reports as an Ethernet pcapng capture. It holds for packets within the snap
  length, wire lengths below 2^32 and texts below 2^16 characters.\<close>

theorem pcapng_roundtrip:
  assumes "writer_create True True name snaplen = Inr w0" and "length name < 2 ^ 16"
    and "\<forall>p \<in> set ps. writable p" and "write_packets ps w0 = Some (Inr w)"
  shows "\<exists>c. from_bytes (wr_stream w) = Some (Inr c) \<and> pc_link_type c = LINKTYPE_ETHERNET \<and> pc_pcapng c \<and>
    map (packet_content (wr_stream w)) (pc_packets c) = map written_content ps \<and> wr_written w = of_nat (length ps)"
  using written_packets_read [OF assms] .

definition example_written :: "written_packet list" where
  "example_written = [\<lparr> wp_timestamp = 1700000000123456789, wp_data = [1, 2, 3], wp_original = 60, wp_comment = ''runt'' \<rparr>,
     \<lparr> wp_timestamp = 1700000000123456790, wp_data = [], wp_original = 0, wp_comment = [] \<rparr>]"

theorem pcapng_roundtrip_witness:
  "\<exists>w0 w c. writer_create True True ''eth0'' 262144 = Inr w0 \<and> write_packets example_written w0 = Some (Inr w) \<and>
    from_bytes (wr_stream w) = Some (Inr c) \<and>
    map (packet_content (wr_stream w)) (pc_packets c) = [(1700000000123456789, [1, 2, 3], 60), (1700000000123456790, [], 0)]"
proof -
  obtain w0 where w0: "writer_create True True ''eth0'' 262144 = Inr w0" by (simp add: writer_create_def)
  have ps: "\<forall>p \<in> set example_written. writable p" by (simp add: example_written_def writable_def)
  obtain w where w: "write_packets example_written w0 = Some (Inr w)" using write_packets_stream [OF ps] by blast
  have "length ''eth0'' < (2::nat) ^ 16" by simp
  from pcapng_roundtrip [OF w0 this ps w] w0 w show ?thesis
    by (auto simp: example_written_def written_content_def)
qed

end
