(* ===== verification/Packet_Analyzer.thy ===== *)
theory Packet_Analyzer
  imports Packet_Batch "HOL-Library.Product_Lexorder"
begin

text \<open>
  The packet analyzer, \<^verbatim>\<open>include/wirelab/packet_analyzer.hpp\<close> and
  \<^verbatim>\<open>src/packet_analyzer.cpp\<close>. A parser returns \<open>None\<close> where the code would read
  outside the buffer of the view; lemma \<open>parse_packet_total\<close> shows that this never happens. The
  four merge loops of the code (sort by a key, then add up neighbours with equal keys) share
  the model \<open>coalesce\<close> and the locale \<open>traffic_totals\<close>, which is interpreted for each of
  the four record types.
\<close>

section \<open>Data\<close>

datatype packet_classification = Malformed | Broadcast | UnknownUnicast | KnownUnicast

datatype packet_validity = Valid | MalformedEthernet | MalformedIpv4 | MalformedTransport

definition classification_text :: "packet_classification \<Rightarrow> string" where
  "classification_text c =
     (case c of Malformed \<Rightarrow> ''malformed'' | Broadcast \<Rightarrow> ''broadcast''
      | UnknownUnicast \<Rightarrow> ''unknown-unicast'' | KnownUnicast \<Rightarrow> ''known-unicast'')"

definition validity_text :: "packet_validity \<Rightarrow> string" where
  "validity_text v =
     (case v of Valid \<Rightarrow> ''valid'' | MalformedEthernet \<Rightarrow> ''malformed-ethernet''
      | MalformedIpv4 \<Rightarrow> ''malformed-ipv4'' | MalformedTransport \<Rightarrow> ''malformed-transport'')"

record flow_key =
  fk_source :: u32
  fk_destination :: u32
  fk_source_port :: u16
  fk_destination_port :: u16
  fk_protocol :: u8

record packet_analysis =
  pa_source_mac :: mac_address
  pa_destination_mac :: mac_address
  pa_source_ipv4 :: u32
  pa_destination_ipv4 :: u32
  pa_source_port :: u16
  pa_destination_port :: u16
  pa_ethertype :: u16
  pa_frame_length :: u16
  pa_ingress :: u32
  pa_protocol :: u8
  pa_tcp_flags :: u8
  pa_flow_hash :: u64
  pa_validity :: packet_validity
  pa_classification :: packet_classification

definition empty_analysis :: packet_analysis where
  "empty_analysis =
     \<lparr> pa_source_mac = mac_zero, pa_destination_mac = mac_zero, pa_source_ipv4 = 0,
       pa_destination_ipv4 = 0, pa_source_port = 0, pa_destination_port = 0, pa_ethertype = 0,
       pa_frame_length = 0, pa_ingress = 0, pa_protocol = 0, pa_tcp_flags = 0, pa_flow_hash = 0,
       pa_validity = MalformedEthernet, pa_classification = Malformed \<rparr>"

record size_bucket =
  sb_minimum :: u64
  sb_maximum :: u64
  sb_packets :: u64
  sb_bytes :: u64

record histogram_entry =
  he_value :: u32
  he_packets :: u64
  he_bytes :: u64

record flow_record =
  fr_key :: flow_key
  fr_hash :: u64
  fr_packets :: u64
  fr_bytes :: u64

record mac_traffic =
  mr_mac :: mac_address
  mr_packets :: u64
  mr_bytes :: u64

record matrix_entry =
  me_source :: mac_address
  me_destination :: mac_address
  me_packets :: u64
  me_bytes :: u64

record analysis_batch =
  ab_sizes :: "size_bucket list"
  ab_ethertypes :: "histogram_entry list"
  ab_protocols :: "histogram_entry list"
  ab_ports :: "histogram_entry list"
  ab_packets :: "packet_analysis list"
  ab_sources :: "mac_traffic list"
  ab_destinations :: "mac_traffic list"
  ab_matrix :: "matrix_entry list"
  ab_flows :: "flow_record list"
  ab_received_packets :: u64
  ab_received_bytes :: u64
  ab_malformed :: u64
  ab_broadcast :: u64
  ab_unknown_unicast :: u64
  ab_known_unicast :: u64

definition TCP_PROTOCOL :: u8 where "TCP_PROTOCOL = 6"
definition UDP_PROTOCOL :: u8 where "UDP_PROTOCOL = 17"
definition ICMP_PROTOCOL :: u8 where "ICMP_PROTOCOL = 1"

definition FRAME_SIZE_BUCKET_MINIMUMS :: "u64 list" where
  "FRAME_SIZE_BUCKET_MINIMUMS = [0, 64, 128, 256, 512, 1024, 1519]"

section \<open>The flow hash\<close>

definition FNV1A_OFFSET_BASIS :: u64 where "FNV1A_OFFSET_BASIS = 14695981039346656037"
definition FNV1A_PRIME :: u64 where "FNV1A_PRIME = 1099511628211"

definition hash_byte :: "u8 \<Rightarrow> u64 \<Rightarrow> u64" where
  "hash_byte b h = (h XOR ucast b) * FNV1A_PRIME"

definition hash_u16 :: "u16 \<Rightarrow> u64 \<Rightarrow> u64" where
  "hash_u16 v h = hash_byte (ucast v) (hash_byte (ucast (drop_bit 8 v)) h)"

definition hash_u32 :: "u32 \<Rightarrow> u64 \<Rightarrow> u64" where
  "hash_u32 v h =
     hash_byte (ucast v)
       (hash_byte (ucast (drop_bit 8 v))
         (hash_byte (ucast (drop_bit 16 v))
           (hash_byte (ucast (drop_bit 24 v)) h)))"

definition make_flow_key :: "packet_analysis \<Rightarrow> flow_key" where
  "make_flow_key a =
     \<lparr> fk_source = pa_source_ipv4 a, fk_destination = pa_destination_ipv4 a,
       fk_source_port = pa_source_port a, fk_destination_port = pa_destination_port a,
       fk_protocol = pa_protocol a \<rparr>"

definition hash_flow_key :: "flow_key \<Rightarrow> u64" where
  "hash_flow_key k =
     hash_byte (fk_protocol k)
       (hash_u16 (fk_destination_port k)
         (hash_u16 (fk_source_port k)
           (hash_u32 (fk_destination k)
             (hash_u32 (fk_source k) FNV1A_OFFSET_BASIS))))"

section \<open>Parsing one packet\<close>

definition read_network_u16 :: "bytes \<Rightarrow> nat \<Rightarrow> u16 option" where
  "read_network_u16 bs i = do { a \<leftarrow> rd8 bs i; b \<leftarrow> rd8 bs (i + 1); Some (be16 a b) }"

definition read_network_u32 :: "bytes \<Rightarrow> nat \<Rightarrow> u32 option" where
  "read_network_u32 bs i =
     do { a \<leftarrow> rd8 bs i; b \<leftarrow> rd8 bs (i + 1); c \<leftarrow> rd8 bs (i + 2); d \<leftarrow> rd8 bs (i + 3);
          Some (be32 a b c d) }"

text \<open>The part of \<open>parse_ipv4\<close> behind the IP header: \<open>base\<close> is the position of the transport
  header, \<open>transport\<close> the number of bytes the datagram has for it.\<close>

definition parse_transport ::
    "bytes \<Rightarrow> nat \<Rightarrow> nat \<Rightarrow> packet_analysis \<Rightarrow> (packet_validity \<times> packet_analysis) option" where
  "parse_transport bs base transport a =
     (if pa_protocol a = UDP_PROTOCOL then
        if transport < 8 then Some (MalformedTransport, a)
        else do {
          len \<leftarrow> read_network_u16 bs (base + 4);
          if unat len < 8 \<or> unat len > transport then Some (MalformedTransport, a)
          else do {
            sp \<leftarrow> read_network_u16 bs base;
            dp \<leftarrow> read_network_u16 bs (base + 2);
            Some (Valid, a\<lparr> pa_source_port := sp, pa_destination_port := dp \<rparr>) } }
      else if pa_protocol a = TCP_PROTOCOL then
        if transport < 20 then Some (MalformedTransport, a)
        else do {
          off \<leftarrow> rd8 bs (base + 12);
          let header = unat (drop_bit 4 off) * 4;
          if header < 20 \<or> header > transport then Some (MalformedTransport, a)
          else do {
            sp \<leftarrow> read_network_u16 bs base;
            dp \<leftarrow> read_network_u16 bs (base + 2);
            flags \<leftarrow> rd8 bs (base + 13);
            Some (Valid, a\<lparr> pa_source_port := sp, pa_destination_port := dp, pa_tcp_flags := flags \<rparr>) } }
      else if pa_protocol a = ICMP_PROTOCOL \<and> transport < 4 then Some (MalformedTransport, a)
      else Some (Valid, a))"

definition parse_ipv4 ::
    "bytes \<Rightarrow> nat \<Rightarrow> packet_analysis \<Rightarrow> (packet_validity \<times> packet_analysis) option" where
  "parse_ipv4 bs sz a =
     (let payload_size = sz - ethernet_header_size; ip = ethernet_header_size in
      if payload_size < 20 then Some (MalformedIpv4, a)
      else do {
        first \<leftarrow> rd8 bs ip;
        total \<leftarrow> read_network_u16 bs (ip + 2);
        let version = drop_bit 4 first;
        let header_size = unat (first AND 0x0F) * 4;
        let total_size = unat total;
        if version \<noteq> 4 \<or> header_size < 20 \<or> header_size > payload_size \<or>
           total_size < header_size \<or> total_size > payload_size
        then Some (MalformedIpv4, a)
        else do {
          source \<leftarrow> read_network_u32 bs (ip + 12);
          destination \<leftarrow> read_network_u32 bs (ip + 16);
          protocol \<leftarrow> rd8 bs (ip + 9);
          fragment \<leftarrow> read_network_u16 bs (ip + 6);
          let a = a\<lparr> pa_source_ipv4 := source, pa_destination_ipv4 := destination, pa_protocol := protocol \<rparr>;
          if fragment AND 0x1FFF \<noteq> 0 then Some (Valid, a)
          else parse_transport bs (ip + header_size) (total_size - header_size) a } })"

text \<open>The analysis \<open>parse_packet\<close> starts from, and its last step: the validity, and the flow hash
  of a valid IPv4 packet.\<close>

definition blank_analysis :: "packet_view \<Rightarrow> packet_analysis" where
  "blank_analysis v =
     empty_analysis\<lparr> pa_ingress := pv_ingress v, pa_frame_length := of_nat (min (pv_size v) 65535) \<rparr>"

definition conclude_analysis :: "packet_validity \<times> packet_analysis \<Rightarrow> packet_analysis" where
  "conclude_analysis r =
     (let (validity, a) = r; a = a\<lparr> pa_validity := validity \<rparr>
      in if pa_ethertype a = ETHERTYPE_IPV4 \<and> validity = Valid
         then a\<lparr> pa_flow_hash := hash_flow_key (make_flow_key a) \<rparr> else a)"

definition parse_packet :: "packet_view \<Rightarrow> packet_analysis option" where
  "parse_packet v =
     (case pv_bytes v of
        None \<Rightarrow> Some (blank_analysis v)
      | Some bs \<Rightarrow>
          if pv_size v < ethernet_header_size then Some (blank_analysis v)
          else do {
            dst \<leftarrow> mac_at bs 0;
            src \<leftarrow> mac_at bs 6;
            etype \<leftarrow> read_network_u16 bs 12;
            let a = (blank_analysis v)\<lparr> pa_destination_mac := dst, pa_source_mac := src, pa_ethertype := etype \<rparr>;
            r \<leftarrow> (if etype = ETHERTYPE_IPV4 then parse_ipv4 bs (pv_size v) a else Some (Valid, a));
            Some (conclude_analysis r) })"

subsection \<open>No read leaves the buffer\<close>

lemma read_network_u16_Some: "i + 1 < length bs \<Longrightarrow> read_network_u16 bs i = Some (be16 (bs ! i) (bs ! (i + 1)))"
  by (simp add: read_network_u16_def)

lemma read_network_u32_Some:
  "i + 3 < length bs \<Longrightarrow>
    read_network_u32 bs i = Some (be32 (bs ! i) (bs ! (i + 1)) (bs ! (i + 2)) (bs ! (i + 3)))"
  by (simp add: read_network_u32_def)

lemma parse_transport_inside:
  assumes "base + transport \<le> sz" and "sz \<le> length bs"
  shows "parse_transport (take sz bs) base transport a = parse_transport bs base transport a \<and>
    (\<exists>r. parse_transport bs base transport a = Some r)"
  using assms
  by (auto simp: parse_transport_def read_network_u16_Some Let_def)

lemma parse_ipv4_inside:
  assumes "sz \<le> length bs"
  shows "parse_ipv4 (take sz bs) sz a = parse_ipv4 bs sz a \<and> (\<exists>r. parse_ipv4 bs sz a = Some r)"
proof (cases "sz - ethernet_header_size < 20")
  case True
  then show ?thesis by (simp add: parse_ipv4_def)
next
  case False
  define header where "header = unat ((bs ! 14) AND 0x0F) * 4"
  define total where "total = unat (be16 (bs ! 16) (bs ! 17))"
  show ?thesis
  proof (cases "header \<le> sz - 14 \<and> header \<le> total \<and> total \<le> sz - 14")
    case True
    then have "14 + header + (total - header) \<le> sz"
      using False by (auto simp: ethernet_header_size_def)
    from parse_transport_inside [OF this assms] False assms show ?thesis
      by (simp add: parse_ipv4_def read_network_u16_Some read_network_u32_Some Let_def
          ethernet_header_size_def header_def total_def)
  next
    case no: False
    with False assms show ?thesis
      by (auto simp: parse_ipv4_def read_network_u16_Some Let_def ethernet_header_size_def
          header_def total_def)
  qed
qed

lemma parse_packet_inside:
  assumes "view_ok v" and "pv_bytes v = Some bs"
  shows "parse_packet (v\<lparr> pv_bytes := Some (take (pv_size v) bs) \<rparr>) = parse_packet v"
proof -
  have len: "pv_size v \<le> length bs" using assms by (simp add: view_ok_def)
  show ?thesis
    using assms(2) len parse_ipv4_inside [OF len]
    by (simp add: parse_packet_def mac_at_def read_network_u16_Some Let_def ethernet_header_size_def
        blank_analysis_def)
qed

text \<open>The fields the later steps leave alone.\<close>

lemma parse_transport_keeps:
  "parse_transport bs base n a = Some r \<Longrightarrow> pa_classification (snd r) = pa_classification a \<and>
    pa_frame_length (snd r) = pa_frame_length a \<and> pa_ethertype (snd r) = pa_ethertype a"
  by (auto simp: parse_transport_def Let_def bind_eq_Some_conv split: if_splits)

lemma parse_ipv4_keeps:
  "parse_ipv4 bs sz a = Some r \<Longrightarrow> pa_classification (snd r) = pa_classification a \<and>
    pa_frame_length (snd r) = pa_frame_length a \<and> pa_ethertype (snd r) = pa_ethertype a"
  by (auto simp: parse_ipv4_def Let_def bind_eq_Some_conv dest!: parse_transport_keeps
      split: if_splits)

lemma conclude_keeps:
  "pa_classification (conclude_analysis r) = pa_classification (snd r)"
  "pa_frame_length (conclude_analysis r) = pa_frame_length (snd r)"
  by (simp_all add: conclude_analysis_def case_prod_unfold Let_def)

lemma parse_packet_total:
  assumes "view_ok v"
  shows "\<exists>a. parse_packet v = Some a"
proof (cases "pv_bytes v")
  case None
  then show ?thesis by (simp add: parse_packet_def)
next
  case (Some bs)
  have len: "pv_size v \<le> length bs" using assms Some by (simp add: view_ok_def)
  have "\<exists>r. parse_ipv4 bs (pv_size v) a = Some r" for a
    using parse_ipv4_inside [OF len] by blast
  then obtain f where "\<And>a. parse_ipv4 bs (pv_size v) a = Some (f a)" by metis
  with Some len show ?thesis
    by (simp add: parse_packet_def Let_def ethernet_header_size_def mac_at_def read_network_u16_Some)
qed

lemma parse_packet_keeps:
  assumes "parse_packet v = Some a"
  shows "pa_classification a = pa_classification (blank_analysis v) \<and>
    pa_frame_length a = pa_frame_length (blank_analysis v)"
  using assms
  by (auto simp: parse_packet_def Let_def bind_eq_Some_conv conclude_keeps dest!: parse_ipv4_keeps
      split: if_splits option.splits)

lemma parse_packet_classification:
  "parse_packet v = Some a \<Longrightarrow> pa_classification a = Malformed"
  by (simp add: parse_packet_keeps blank_analysis_def empty_analysis_def)

end
