(* ===== verification/Packet_Aggregator.thy ===== *)
theory Packet_Aggregator
  imports Packet_Analyzer
begin

text \<open>
  \<open>PacketAnalysisAggregator\<close> and \<open>CpuPacketAnalyzer\<close> of \<^verbatim>\<open>src/packet_analyzer.cpp\<close>: the
  per-packet counters and rows, the merge and rank steps over the rows, and the two
  \<open>analyze\<close> entry points. \<open>totals_of\<close> is what a merged vector of rows promises: one row for
  each key that occurs, carrying the sums over the packets with that key.
\<close>

section \<open>Merging sorted rows\<close>

text \<open>The loops of \<open>aggregate_histogram\<close>, \<open>aggregate_mac_traffic\<close>,
  \<open>aggregate_traffic_matrix\<close> and the flow loop of \<open>aggregate\<close>: \<open>out\<close> is the part of the
  vector before \<open>output_index\<close>.\<close>

definition coalesce_step :: "('r \<Rightarrow> 'r \<Rightarrow> bool) \<Rightarrow> ('r \<Rightarrow> 'r \<Rightarrow> 'r) \<Rightarrow> 'r \<Rightarrow> 'r list \<Rightarrow> 'r list" where
  "coalesce_step same add entry out =
     (if out = [] \<or> \<not> same (last out) entry then out @ [entry]
      else butlast out @ [add (last out) entry])"

definition coalesce :: "('r \<Rightarrow> 'r \<Rightarrow> bool) \<Rightarrow> ('r \<Rightarrow> 'r \<Rightarrow> 'r) \<Rightarrow> 'r list \<Rightarrow> 'r list" where
  "coalesce same add rows = fold (coalesce_step same add) rows []"

definition totals_of ::
    "('r \<Rightarrow> 'k) \<Rightarrow> ('r \<Rightarrow> u64) \<Rightarrow> ('r \<Rightarrow> u64) \<Rightarrow> 'r list \<Rightarrow> 'r list \<Rightarrow> bool" where
  "totals_of key packets bytes rows out \<longleftrightarrow>
     distinct (map key out) \<and> key ` set out = key ` set rows \<and>
     (\<forall>r \<in> set out. packets r = (\<Sum>x \<leftarrow> filter (\<lambda>x. key x = key r) rows. packets x) \<and>
                    bytes r = (\<Sum>x \<leftarrow> filter (\<lambda>x. key x = key r) rows. bytes x))"

lemma totals_of_permute:
  assumes "totals_of key packets bytes rows out" and "mset out' = mset out" and "mset rows' = mset rows"
  shows "totals_of key packets bytes rows' out'"
proof -
  have "distinct (map key out') = distinct (map key out)"
    by (metis assms(2) mset_eq_imp_distinct_iff mset_map)
  moreover have "set out' = set out" "set rows' = set rows"
    using assms(2,3) by (auto dest: mset_eq_setD)
  moreover have "sum_list (map f (filter P rows')) = sum_list (map f (filter P rows))"
    for f :: "'a \<Rightarrow> u64" and P
  proof -
    have "mset (map f (filter P rows')) = mset (map f (filter P rows))"
      using assms(3) by simp
    then show ?thesis by (metis sum_mset_sum_list)
  qed
  ultimately show ?thesis
    using assms(1) by (simp add: totals_of_def)
qed

locale traffic_totals = strict_weak_order lt
  for lt :: "'r \<Rightarrow> 'r \<Rightarrow> bool" +
  fixes key :: "'r \<Rightarrow> 'k" and same :: "'r \<Rightarrow> 'r \<Rightarrow> bool" and add :: "'r \<Rightarrow> 'r \<Rightarrow> 'r"
    and packets :: "'r \<Rightarrow> u64" and bytes :: "'r \<Rightarrow> u64"
  assumes same_iff: "same x y \<longleftrightarrow> key x = key y"
    and equiv_iff: "\<not> lt x y \<and> \<not> lt y x \<longleftrightarrow> key x = key y"
    and key_add: "key (add x y) = key x"
    and packets_add: "packets (add x y) = packets x + packets y"
    and bytes_add: "bytes (add x y) = bytes x + bytes y"
begin

lemma less_cong_right: "key y = key y' \<Longrightarrow> lt x y \<longleftrightarrow> lt x y'"
  using equiv_iff less_negtrans by blast

lemma less_cong_left: "key x = key x' \<Longrightarrow> lt x y \<longleftrightarrow> lt x' y"
  using equiv_iff less_negtrans by blast

lemma less_key: "lt x y \<Longrightarrow> key x \<noteq> key y"
  using equiv_iff by blast

lemma less_trans: "lt x y \<Longrightarrow> lt y z \<Longrightarrow> lt x z"
  using less_asym less_negtrans by blast

definition merged :: "'r list \<Rightarrow> 'r list \<Rightarrow> bool" where
  "merged rows out \<longleftrightarrow> sorted_wrt lt out \<and> totals_of key packets bytes rows out"

lemma sorted_distinct: "sorted_wrt lt out \<Longrightarrow> distinct (map key out)"
  by (induction out) (auto dest: less_key)

lemma merged_step:
  assumes "merged rows out" and "sorted_by lt (rows @ [e])"
  shows "merged (rows @ [e]) (coalesce_step same add e out)"
proof -
  have keys: "key ` set out = key ` set rows" and sorted: "sorted_wrt lt out"
    using assms(1) by (auto simp: merged_def totals_of_def)
  show ?thesis
  proof (cases "out = [] \<or> \<not> same (last out) e")
    case True
    have below: "lt r e" if r: "r \<in> set out" for r
    proof -
      obtain o' l where out: "out = o' @ [l]" using r by (cases out rule: rev_cases) auto
      then have "key l \<in> key ` set rows" using keys by auto
      then obtain x where x: "x \<in> set rows" "key x = key l" by (metis imageE)
      have "\<not> lt e x" using assms(2) x(1) by (simp add: sorted_wrt_append)
      then have "\<not> lt e l" by (simp only: less_cong_right [OF x(2)] not_False_eq_True)
      moreover have "key l \<noteq> key e" using True same_iff by (simp add: out)
      ultimately have l: "lt l e" using equiv_iff by blast
      have "r = l \<or> lt r l" using r sorted by (auto simp: out sorted_wrt_append)
      then show ?thesis using l less_trans by blast
    qed
    then have fresh: "key e \<notin> key ` set rows"
      using keys less_key by (metis imageE)
    then have "filter (\<lambda>x. key x = key e) rows = []" by (force simp: filter_empty_conv image_iff)
    with True below fresh assms(1) show ?thesis
      using sorted_distinct
      by (auto simp: merged_def totals_of_def coalesce_step_def sorted_wrt_append dest: less_key)
  next
    case False
    then obtain o' l where out: "out = o' @ [l]" and key: "key l = key e"
      using same_iff by (metis append_butlast_last_id)
    have key': "key (add l e) = key l" by (rule key_add)
    have "sorted_wrt lt (o' @ [add l e])"
      using sorted less_cong_right [OF key'] by (auto simp: out sorted_wrt_append)
    moreover have "key r \<noteq> key e" if "r \<in> set o'" for r
      using sorted that key less_key [of r l] by (auto simp: out sorted_wrt_append)
    ultimately show ?thesis
      using False assms(1) key key' sorted_distinct
      by (auto simp: merged_def totals_of_def coalesce_step_def out packets_add bytes_add)
  qed
qed

lemma merged_coalesce: "sorted_by lt rows \<Longrightarrow> merged rows (coalesce same add rows)"
proof (induction rows rule: rev_induct)
  case Nil
  then show ?case by (simp add: merged_def totals_of_def coalesce_def)
next
  case (snoc e rows)
  then have "merged rows (coalesce same add rows)" by (simp add: sorted_wrt_append)
  from merged_step [OF this snoc.prems] show ?case by (simp add: coalesce_def)
qed

lemma totals_coalesce: "totals_of key packets bytes rows (coalesce same add (std_sort lt rows))"
  using merged_coalesce [OF std_sort_sorted, of rows] totals_of_permute [OF _ refl, of key packets bytes "std_sort lt rows"]
  by (auto simp: merged_def)

lemma sorted_coalesce: "sorted_wrt lt (coalesce same add (std_sort lt rows))"
  using merged_coalesce [OF std_sort_sorted, of rows] by (simp add: merged_def)

lemma totals_ranked:
  "totals_of key packets bytes rows (std_sort rank (coalesce same add (std_sort lt rows)))"
  by (rule totals_of_permute [OF totals_coalesce]) simp_all

end

section \<open>The four kinds of rows\<close>

definition he_less :: "histogram_entry \<Rightarrow> histogram_entry \<Rightarrow> bool" where
  "he_less x y \<longleftrightarrow> he_value x < he_value y"

definition he_same :: "histogram_entry \<Rightarrow> histogram_entry \<Rightarrow> bool" where
  "he_same x y \<longleftrightarrow> he_value x = he_value y"

definition he_add :: "histogram_entry \<Rightarrow> histogram_entry \<Rightarrow> histogram_entry" where
  "he_add x y = x\<lparr> he_packets := he_packets x + he_packets y, he_bytes := he_bytes x + he_bytes y \<rparr>"

definition aggregate_histogram :: "histogram_entry list \<Rightarrow> histogram_entry list" where
  "aggregate_histogram h = coalesce he_same he_add (std_sort he_less h)"

definition mr_less :: "mac_traffic \<Rightarrow> mac_traffic \<Rightarrow> bool" where
  "mr_less x y \<longleftrightarrow> mr_mac x < mr_mac y"

definition mr_same :: "mac_traffic \<Rightarrow> mac_traffic \<Rightarrow> bool" where
  "mr_same x y \<longleftrightarrow> mr_mac x = mr_mac y"

definition mr_add :: "mac_traffic \<Rightarrow> mac_traffic \<Rightarrow> mac_traffic" where
  "mr_add x y = x\<lparr> mr_packets := mr_packets x + mr_packets y, mr_bytes := mr_bytes x + mr_bytes y \<rparr>"

definition aggregate_mac_traffic :: "mac_traffic list \<Rightarrow> mac_traffic list" where
  "aggregate_mac_traffic t = coalesce mr_same mr_add (std_sort mr_less t)"

definition mr_rank :: "mac_traffic \<Rightarrow> mac_traffic \<Rightarrow> bool" where
  "mr_rank x y =
     (if mr_bytes x \<noteq> mr_bytes y then mr_bytes x > mr_bytes y
      else if mr_packets x \<noteq> mr_packets y then mr_packets x > mr_packets y
      else mr_mac x < mr_mac y)"

definition rank_mac_traffic :: "mac_traffic list \<Rightarrow> mac_traffic list" where
  "rank_mac_traffic t = std_sort mr_rank t"

definition me_less :: "matrix_entry \<Rightarrow> matrix_entry \<Rightarrow> bool" where
  "me_less x y =
     (if me_source x = me_source y then me_destination x < me_destination y
      else me_source x < me_source y)"

definition me_same :: "matrix_entry \<Rightarrow> matrix_entry \<Rightarrow> bool" where
  "me_same x y \<longleftrightarrow> \<not> (me_source x \<noteq> me_source y \<or> me_destination x \<noteq> me_destination y)"

definition me_add :: "matrix_entry \<Rightarrow> matrix_entry \<Rightarrow> matrix_entry" where
  "me_add x y = x\<lparr> me_packets := me_packets x + me_packets y, me_bytes := me_bytes x + me_bytes y \<rparr>"

definition aggregate_traffic_matrix :: "matrix_entry list \<Rightarrow> matrix_entry list" where
  "aggregate_traffic_matrix m = coalesce me_same me_add (std_sort me_less m)"

definition flow_key_less :: "flow_record \<Rightarrow> flow_record \<Rightarrow> bool" where
  "flow_key_less x y =
     (if fk_source (fr_key x) \<noteq> fk_source (fr_key y) then fk_source (fr_key x) < fk_source (fr_key y)
      else if fk_destination (fr_key x) \<noteq> fk_destination (fr_key y)
      then fk_destination (fr_key x) < fk_destination (fr_key y)
      else if fk_source_port (fr_key x) \<noteq> fk_source_port (fr_key y)
      then fk_source_port (fr_key x) < fk_source_port (fr_key y)
      else if fk_destination_port (fr_key x) \<noteq> fk_destination_port (fr_key y)
      then fk_destination_port (fr_key x) < fk_destination_port (fr_key y)
      else fk_protocol (fr_key x) < fk_protocol (fr_key y))"

definition fr_same :: "flow_record \<Rightarrow> flow_record \<Rightarrow> bool" where
  "fr_same x y \<longleftrightarrow> fr_key x = fr_key y"

definition fr_add :: "flow_record \<Rightarrow> flow_record \<Rightarrow> flow_record" where
  "fr_add x y = x\<lparr> fr_packets := fr_packets x + fr_packets y, fr_bytes := fr_bytes x + fr_bytes y \<rparr>"

definition aggregate_flows :: "flow_record list \<Rightarrow> flow_record list" where
  "aggregate_flows f = coalesce fr_same fr_add (std_sort flow_key_less f)"

definition fr_rank :: "flow_record \<Rightarrow> flow_record \<Rightarrow> bool" where
  "fr_rank x y =
     (if fr_bytes x \<noteq> fr_bytes y then fr_bytes x > fr_bytes y
      else if fr_packets x \<noteq> fr_packets y then fr_packets x > fr_packets y
      else flow_key_less x y)"

definition rank_flows :: "flow_record list \<Rightarrow> flow_record list" where
  "rank_flows f = std_sort fr_rank f"

definition me_key :: "matrix_entry \<Rightarrow> mac_address \<times> mac_address" where
  "me_key m = (me_source m, me_destination m)"

text \<open>The comparators compare tuples lexicographically.\<close>

definition fk_tuple :: "flow_key \<Rightarrow> u32 \<times> u32 \<times> u16 \<times> u16 \<times> u8" where
  "fk_tuple k = (fk_source k, fk_destination k, fk_source_port k, fk_destination_port k, fk_protocol k)"

lemma fk_tuple_inject: "fk_tuple k = fk_tuple k' \<longleftrightarrow> k = k'"
  by (cases k; cases k') (auto simp: fk_tuple_def)

lemma flow_key_less_eq: "flow_key_less = (\<lambda>x y. fk_tuple (fr_key x) < fk_tuple (fr_key y))"
  by (auto simp: flow_key_less_def fk_tuple_def less_prod_def' fun_eq_iff)

lemma me_less_eq: "me_less = (\<lambda>x y. me_key x < me_key y)"
  by (auto simp: me_less_def me_key_def less_prod_def' fun_eq_iff)

lemma mr_rank_eq: "mr_rank = (\<lambda>x y. (- uint (mr_bytes x), - uint (mr_packets x), mr_mac x) <
    (- uint (mr_bytes y), - uint (mr_packets y), mr_mac y))"
  by (auto simp: mr_rank_def less_prod_def' fun_eq_iff word_less_def word_uint_eq_iff)

lemma fr_rank_eq: "fr_rank = (\<lambda>x y. (- uint (fr_bytes x), - uint (fr_packets x), fk_tuple (fr_key x)) <
    (- uint (fr_bytes y), - uint (fr_packets y), fk_tuple (fr_key y)))"
  by (auto simp: fr_rank_def flow_key_less_eq less_prod_def' fun_eq_iff word_less_def word_uint_eq_iff)

interpretation histogram_rows: traffic_totals he_less he_value he_same he_add he_packets he_bytes
  by unfold_locales (auto simp: he_less_def he_same_def he_add_def)

interpretation mac_rows: traffic_totals mr_less mr_mac mr_same mr_add mr_packets mr_bytes
  by unfold_locales (auto simp: mr_less_def mr_same_def mr_add_def)

interpretation matrix_rows: traffic_totals me_less me_key me_same me_add me_packets me_bytes
  by unfold_locales (auto simp: me_less_eq me_same_def me_add_def me_key_def)

interpretation flow_rows: traffic_totals flow_key_less fr_key fr_same fr_add fr_packets fr_bytes
  by unfold_locales (auto simp: flow_key_less_eq fr_same_def fr_add_def simp flip: fk_tuple_inject)

interpretation mac_ranking: strict_weak_order mr_rank
  unfolding mr_rank_eq by (rule strict_weak_order_key)

interpretation flow_ranking: strict_weak_order fr_rank
  unfolding fr_rank_eq by (rule strict_weak_order_key)

section \<open>The aggregator\<close>

text \<open>\<open>std::upper_bound\<close> over the minimums behind the first one, minus one.\<close>

definition frame_size_bucket :: "u64 \<Rightarrow> nat" where
  "frame_size_bucket len = length (takeWhile (\<lambda>m. m \<le> len) (tl FRAME_SIZE_BUCKET_MINIMUMS))"

definition initial_buckets :: "size_bucket list" where
  "initial_buckets =
     map (\<lambda>i. \<lparr> sb_minimum = FRAME_SIZE_BUCKET_MINIMUMS ! i,
               sb_maximum = (if i + 1 = 7 then u64_max else FRAME_SIZE_BUCKET_MINIMUMS ! (i + 1) - 1),
               sb_packets = 0, sb_bytes = 0 \<rparr>) [0..<7]"

definition empty_batch :: analysis_batch where
  "empty_batch =
     \<lparr> ab_sizes = initial_buckets, ab_ethertypes = [], ab_protocols = [], ab_ports = [],
       ab_packets = [], ab_sources = [], ab_destinations = [], ab_matrix = [], ab_flows = [],
       ab_received_packets = 0, ab_received_bytes = 0, ab_malformed = 0, ab_broadcast = 0,
       ab_unknown_unicast = 0, ab_known_unicast = 0 \<rparr>"

definition is_flow :: "packet_analysis \<Rightarrow> bool" where
  "is_flow a \<longleftrightarrow> pa_ethertype a = ETHERTYPE_IPV4 \<and> pa_validity a = Valid"

definition bump_bucket :: "u64 \<Rightarrow> size_bucket \<Rightarrow> size_bucket" where
  "bump_bucket len s = s\<lparr> sb_packets := sb_packets s + 1, sb_bytes := sb_bytes s + len \<rparr>"

definition count_frame :: "u64 \<Rightarrow> analysis_batch \<Rightarrow> analysis_batch" where
  "count_frame len b =
     (let i = frame_size_bucket len in
      b\<lparr> ab_received_packets := ab_received_packets b + 1,
         ab_received_bytes := ab_received_bytes b + len,
         ab_sizes := (ab_sizes b)[i := bump_bucket len (ab_sizes b ! i)] \<rparr>)"

definition add_ethernet_rows :: "packet_analysis \<Rightarrow> u64 \<Rightarrow> analysis_batch \<Rightarrow> analysis_batch" where
  "add_ethernet_rows a len b =
     b\<lparr> ab_ethertypes := ab_ethertypes b @ [\<lparr> he_value = ucast (pa_ethertype a), he_packets = 1, he_bytes = len \<rparr>],
        ab_sources := ab_sources b @ [\<lparr> mr_mac = pa_source_mac a, mr_packets = 1, mr_bytes = len \<rparr>],
        ab_destinations := ab_destinations b @ [\<lparr> mr_mac = pa_destination_mac a, mr_packets = 1, mr_bytes = len \<rparr>],
        ab_matrix := ab_matrix b @
          [\<lparr> me_source = pa_source_mac a, me_destination = pa_destination_mac a, me_packets = 1, me_bytes = len \<rparr>],
        ab_malformed := (if pa_validity a \<noteq> Valid then ab_malformed b + 1 else ab_malformed b) \<rparr>"

definition add_protocol_rows :: "packet_analysis \<Rightarrow> u64 \<Rightarrow> analysis_batch \<Rightarrow> analysis_batch" where
  "add_protocol_rows a len b =
     (if is_flow a then
        b\<lparr> ab_protocols := ab_protocols b @ [\<lparr> he_value = ucast (pa_protocol a), he_packets = 1, he_bytes = len \<rparr>],
           ab_ports := (if pa_protocol a = TCP_PROTOCOL \<or> pa_protocol a = UDP_PROTOCOL
                        then ab_ports b @ [\<lparr> he_value = ucast (pa_destination_port a), he_packets = 1, he_bytes = len \<rparr>]
                        else ab_ports b) \<rparr>
      else b)"

definition classify :: "mac_address set \<Rightarrow> packet_analysis \<Rightarrow> packet_classification" where
  "classify learned a =
     (if is_broadcast (pa_destination_mac a) then Broadcast
      else if pa_destination_mac a \<notin> learned then UnknownUnicast
      else KnownUnicast)"

definition count_classification :: "packet_classification \<Rightarrow> analysis_batch \<Rightarrow> analysis_batch" where
  "count_classification c b =
     (case c of
        Broadcast \<Rightarrow> b\<lparr> ab_broadcast := ab_broadcast b + 1 \<rparr>
      | UnknownUnicast \<Rightarrow> b\<lparr> ab_unknown_unicast := ab_unknown_unicast b + 1 \<rparr>
      | KnownUnicast \<Rightarrow> b\<lparr> ab_known_unicast := ab_known_unicast b + 1 \<rparr>
      | Malformed \<Rightarrow> b)"

definition flow_row :: "packet_analysis \<Rightarrow> u64 \<Rightarrow> flow_record" where
  "flow_row a len = \<lparr> fr_key = make_flow_key a, fr_hash = pa_flow_hash a, fr_packets = 1, fr_bytes = len \<rparr>"

text \<open>The loop body of \<open>aggregate\<close>: one packet with its frame length.\<close>

definition agg_packet ::
    "packet_analysis \<times> u64 \<Rightarrow> analysis_batch \<times> mac_address set \<Rightarrow> analysis_batch \<times> mac_address set" where
  "agg_packet p s =
     (let (a, len) = p; (b, learned) = s;
          b = count_frame len b
      in if pa_validity a = MalformedEthernet
         then (b\<lparr> ab_malformed := ab_malformed b + 1, ab_packets := ab_packets b @ [a] \<rparr>, learned)
         else
           let b = add_ethernet_rows a len b;
               b = add_protocol_rows a len b;
               a = a\<lparr> pa_classification := classify learned a \<rparr>;
               b = count_classification (pa_classification a) b;
               learned = insert (pa_source_mac a) learned;
               b = (if is_flow a then b\<lparr> ab_flows := ab_flows b @ [flow_row a len] \<rparr> else b)
           in (b\<lparr> ab_packets := ab_packets b @ [a] \<rparr>, learned))"

text \<open>The merge and rank steps behind the loop.\<close>

definition finish_batch :: "analysis_batch \<Rightarrow> analysis_batch" where
  "finish_batch b =
     b\<lparr> ab_flows := rank_flows (aggregate_flows (ab_flows b)),
        ab_ethertypes := aggregate_histogram (ab_ethertypes b),
        ab_protocols := aggregate_histogram (ab_protocols b),
        ab_ports := aggregate_histogram (ab_ports b),
        ab_sources := rank_mac_traffic (aggregate_mac_traffic (ab_sources b)),
        ab_destinations := rank_mac_traffic (aggregate_mac_traffic (ab_destinations b)),
        ab_matrix := aggregate_traffic_matrix (ab_matrix b) \<rparr>"

text \<open>\<open>aggregate(packets, frame_lengths)\<close>; the lengths are the ones the caller passes, or the
  16-bit ones of the analyses. The caller passes as many as there are packets.\<close>

definition frame_lengths_of :: "packet_analysis list \<Rightarrow> u64 list option \<Rightarrow> u64 list" where
  "frame_lengths_of packets lens =
     (case lens of None \<Rightarrow> map (\<lambda>a. ucast (pa_frame_length a)) packets
      | Some ls \<Rightarrow> map (\<lambda>i. ls ! i) [0..<length packets])"

definition agg_aggregate ::
    "packet_analysis list \<Rightarrow> u64 list option \<Rightarrow> mac_address set \<Rightarrow> analysis_batch \<times> mac_address set" where
  "agg_aggregate packets lens learned =
     (if packets = [] then (empty_batch, learned)
      else
        let (b, learned) = fold agg_packet (zip packets (frame_lengths_of packets lens)) (empty_batch, learned)
        in (finish_batch b, learned))"

text \<open>\<open>CpuPacketAnalyzer\<close>: its state is the set of learned addresses; \<open>None\<close> is a read outside
  a buffer.\<close>

definition analyzer_reset :: "mac_address set \<Rightarrow> mac_address set" where
  "analyzer_reset learned = {}"

definition analyze_views ::
    "packet_view list \<Rightarrow> mac_address set \<Rightarrow> (analysis_batch \<times> mac_address set) option" where
  "analyze_views views learned =
     do { packets \<leftarrow> those (map parse_packet views);
          Some (agg_aggregate packets (Some (map (\<lambda>v. of_nat (pv_size v)) views)) learned) }"

definition analyze_batch ::
    "packet_batch \<Rightarrow> mac_address set \<Rightarrow> (analysis_batch \<times> mac_address set) option" where
  "analyze_batch b learned =
     do { views \<leftarrow> packet_views b;
          packets \<leftarrow> those (map parse_packet views);
          Some (agg_aggregate packets None learned) }"

subsection \<open>What the loop computes\<close>

lemma count_classification_keeps:
  "ab_sizes (count_classification c b) = ab_sizes b"
  "ab_flows (count_classification c b) = ab_flows b"
  "ab_sources (count_classification c b) = ab_sources b"
  "ab_matrix (count_classification c b) = ab_matrix b"
  "ab_packets (count_classification c b) = ab_packets b"
  "ab_malformed (count_classification c b) = ab_malformed b"
  "ab_received_packets (count_classification c b) = ab_received_packets b"
  "ab_received_bytes (count_classification c b) = ab_received_bytes b"
  by (cases c; simp add: count_classification_def)+

lemmas agg_defs = agg_packet_def count_frame_def add_ethernet_rows_def add_protocol_rows_def
  count_classification_keeps case_prod_unfold Let_def

definition ethernet_ok :: "packet_analysis \<Rightarrow> bool" where
  "ethernet_ok a \<longleftrightarrow> pa_validity a \<noteq> MalformedEthernet"

lemma is_flow_ethernet_ok: "is_flow a \<Longrightarrow> ethernet_ok a"
  by (simp add: is_flow_def ethernet_ok_def)

lemma agg_flows:
  "ab_flows (fst (fold agg_packet ps s)) =
     ab_flows (fst s) @ map (\<lambda>(a, len). flow_row a len) (filter (\<lambda>p. is_flow (fst p)) ps)"
proof (induction ps arbitrary: s)
  case (Cons p ps)
  have "ab_flows (fst (agg_packet p s)) =
      ab_flows (fst s) @ (if is_flow (fst p) then [flow_row (fst p) (snd p)] else [])"
    by (simp add: agg_defs is_flow_def flow_row_def make_flow_key_def)
  then show ?case by (simp add: Cons case_prod_unfold)
qed simp

lemma agg_sources:
  "ab_sources (fst (fold agg_packet ps s)) =
     ab_sources (fst s) @ map (\<lambda>(a, len). \<lparr> mr_mac = pa_source_mac a, mr_packets = 1, mr_bytes = len \<rparr>)
       (filter (\<lambda>p. ethernet_ok (fst p)) ps)"
proof (induction ps arbitrary: s)
  case (Cons p ps)
  have "ab_sources (fst (agg_packet p s)) = ab_sources (fst s) @ (if ethernet_ok (fst p)
      then [\<lparr> mr_mac = pa_source_mac (fst p), mr_packets = 1, mr_bytes = snd p \<rparr>] else [])"
    by (simp add: agg_defs ethernet_ok_def)
  then show ?case by (simp add: Cons case_prod_unfold)
qed simp

lemma agg_matrix:
  "ab_matrix (fst (fold agg_packet ps s)) =
     ab_matrix (fst s) @ map (\<lambda>(a, len). \<lparr> me_source = pa_source_mac a, me_destination = pa_destination_mac a,
         me_packets = 1, me_bytes = len \<rparr>)
       (filter (\<lambda>p. ethernet_ok (fst p)) ps)"
proof (induction ps arbitrary: s)
  case (Cons p ps)
  have "ab_matrix (fst (agg_packet p s)) = ab_matrix (fst s) @ (if ethernet_ok (fst p)
      then [\<lparr> me_source = pa_source_mac (fst p), me_destination = pa_destination_mac (fst p),
              me_packets = 1, me_bytes = snd p \<rparr>] else [])"
    by (simp add: agg_defs ethernet_ok_def)
  then show ?case by (simp add: Cons case_prod_unfold)
qed simp

lemma agg_learned:
  "snd (fold agg_packet ps s) = snd s \<union> pa_source_mac ` {a \<in> fst ` set ps. ethernet_ok a}"
proof (induction ps arbitrary: s)
  case (Cons p ps)
  have "snd (agg_packet p s) = (if ethernet_ok (fst p) then insert (pa_source_mac (fst p)) (snd s) else snd s)"
    by (simp add: agg_defs ethernet_ok_def)
  then show ?case by (auto simp: Cons)
qed simp

end
