(* ===== verification/Packet_Accounting.thy ===== *)
theory Packet_Accounting
  imports Packet_Aggregator
begin

text \<open>
  What the analyzer's results add up to: the counters, the classification of every packet, the
  size histogram, the traffic rows, and the agreement of the two \<open>analyze\<close> entry points.
\<close>

section \<open>Classification and counters of the loop\<close>

fun classified :: "mac_address set \<Rightarrow> packet_analysis list \<Rightarrow> packet_analysis list" where
  "classified learned [] = []"
| "classified learned (a # as) =
     (if ethernet_ok a
      then a\<lparr> pa_classification := classify learned a \<rparr> # classified (insert (pa_source_mac a) learned) as
      else a # classified learned as)"

lemma length_classified [simp]: "length (classified learned as) = length as"
  by (induction as arbitrary: learned) auto

lemma nth_classified:
  "i < length as \<Longrightarrow>
    classified learned as ! i =
      (if ethernet_ok (as ! i)
       then (as ! i)\<lparr> pa_classification :=
              classify (learned \<union> pa_source_mac ` {x \<in> set (take i as). ethernet_ok x}) (as ! i) \<rparr>
       else as ! i)"
proof (induction as arbitrary: learned i)
  case (Cons a as)
  have "{x. (x = a \<or> x \<in> A) \<and> ethernet_ok x} = insert a {x \<in> A. ethernet_ok x}" if "ethernet_ok a" for A
    using that by auto
  moreover have "{x. (x = a \<or> x \<in> A) \<and> ethernet_ok x} = {x \<in> A. ethernet_ok x}" if "\<not> ethernet_ok a" for A
    using that by auto
  ultimately show ?case
    using Cons by (cases i) auto
qed simp

lemma agg_packets:
  "ab_packets (fst (fold agg_packet ps s)) = ab_packets (fst s) @ classified (snd s) (map fst ps)"
proof (induction ps arbitrary: s)
  case (Cons p ps)
  have "ab_packets (fst (agg_packet p s)) = ab_packets (fst s) @
      [if ethernet_ok (fst p) then (fst p)\<lparr> pa_classification := classify (snd s) (fst p) \<rparr> else fst p]"
    and "snd (agg_packet p s) =
      (if ethernet_ok (fst p) then insert (pa_source_mac (fst p)) (snd s) else snd s)"
    by (simp_all add: agg_defs ethernet_ok_def)
  then show ?case by (simp add: Cons)
qed simp

definition class_count :: "packet_classification \<Rightarrow> packet_analysis list \<Rightarrow> u64" where
  "class_count c as = of_nat (length (filter (\<lambda>a. pa_classification a = c) as))"

lemma class_count_simps [simp]:
  "class_count c [] = 0"
  "class_count c (a # as) = (if pa_classification a = c then 1 else 0) + class_count c as"
  by (simp_all add: class_count_def)

lemma agg_step_counters:
  "ab_received_packets (fst (agg_packet p s)) = ab_received_packets (fst s) + 1"
  "ab_received_bytes (fst (agg_packet p s)) = ab_received_bytes (fst s) + snd p"
  "ab_malformed (fst (agg_packet p s)) =
     ab_malformed (fst s) + (if pa_validity (fst p) = Valid then 0 else 1)"
  by (simp_all add: agg_defs)

lemma count_classification_fields:
  "ab_broadcast (count_classification c b) = ab_broadcast b + (if c = Broadcast then 1 else 0)"
  "ab_unknown_unicast (count_classification c b) = ab_unknown_unicast b + (if c = UnknownUnicast then 1 else 0)"
  "ab_known_unicast (count_classification c b) = ab_known_unicast b + (if c = KnownUnicast then 1 else 0)"
  by (cases c; simp add: count_classification_def)+

lemma rows_keep_classes:
  "ab_broadcast (add_protocol_rows a len b) = ab_broadcast b"
  "ab_unknown_unicast (add_protocol_rows a len b) = ab_unknown_unicast b"
  "ab_known_unicast (add_protocol_rows a len b) = ab_known_unicast b"
  "ab_broadcast (add_ethernet_rows a len b) = ab_broadcast b"
  "ab_unknown_unicast (add_ethernet_rows a len b) = ab_unknown_unicast b"
  "ab_known_unicast (add_ethernet_rows a len b) = ab_known_unicast b"
  "ab_broadcast (count_frame len b) = ab_broadcast b"
  "ab_unknown_unicast (count_frame len b) = ab_unknown_unicast b"
  "ab_known_unicast (count_frame len b) = ab_known_unicast b"
  by (simp_all add: add_protocol_rows_def add_ethernet_rows_def count_frame_def Let_def)

lemma agg_step_classes:
  shows "ab_broadcast (fst (agg_packet p s)) = ab_broadcast (fst s) +
      (if ethernet_ok (fst p) \<and> classify (snd s) (fst p) = Broadcast then 1 else 0)"
    and "ab_unknown_unicast (fst (agg_packet p s)) = ab_unknown_unicast (fst s) +
      (if ethernet_ok (fst p) \<and> classify (snd s) (fst p) = UnknownUnicast then 1 else 0)"
    and "ab_known_unicast (fst (agg_packet p s)) = ab_known_unicast (fst s) +
      (if ethernet_ok (fst p) \<and> classify (snd s) (fst p) = KnownUnicast then 1 else 0)"
    and "snd (agg_packet p s) =
      (if ethernet_ok (fst p) then insert (pa_source_mac (fst p)) (snd s) else snd s)"
  by (simp_all add: agg_packet_def Let_def case_prod_unfold ethernet_ok_def count_classification_fields
      rows_keep_classes)

lemma agg_counters:
  "ab_received_packets (fst (fold agg_packet ps s)) = ab_received_packets (fst s) + of_nat (length ps)"
  "ab_received_bytes (fst (fold agg_packet ps s)) = ab_received_bytes (fst s) + sum_list (map snd ps)"
  "ab_malformed (fst (fold agg_packet ps s)) =
     ab_malformed (fst s) + of_nat (length (filter (\<lambda>p. pa_validity (fst p) \<noteq> Valid) ps))"
  by (induction ps arbitrary: s) (auto simp: agg_step_counters algebra_simps)

lemma agg_classes:
  assumes "\<forall>p \<in> set ps. pa_classification (fst p) = Malformed"
  shows "ab_broadcast (fst (fold agg_packet ps s)) =
      ab_broadcast (fst s) + class_count Broadcast (classified (snd s) (map fst ps)) \<and>
    ab_unknown_unicast (fst (fold agg_packet ps s)) =
      ab_unknown_unicast (fst s) + class_count UnknownUnicast (classified (snd s) (map fst ps)) \<and>
    ab_known_unicast (fst (fold agg_packet ps s)) =
      ab_known_unicast (fst s) + class_count KnownUnicast (classified (snd s) (map fst ps))"
  using assms
proof (induction ps arbitrary: s)
  case (Cons p ps)
  have "pa_classification (fst p) = Malformed" using Cons.prems by simp
  with Cons show ?case by (simp add: agg_step_classes)
qed simp

lemma classify_not_malformed: "classify learned a \<noteq> Malformed"
  by (simp add: classify_def)

lemma class_count_total:
  "class_count Malformed as + class_count Broadcast as + class_count UnknownUnicast as +
     class_count KnownUnicast as = of_nat (length as)"
proof (induction as)
  case (Cons a as)
  then show ?case by (cases "pa_classification a") (auto simp: algebra_simps)
qed simp

lemma class_count_classified_malformed:
  assumes "\<forall>a \<in> set as. pa_classification a = Malformed"
  shows "class_count Malformed (classified learned as) = of_nat (length (filter (\<lambda>a. \<not> ethernet_ok a) as))"
  using assms by (induction as arbitrary: learned) (auto simp: classify_not_malformed)

section \<open>The size histogram\<close>

lemma frame_size_bucket_bound: "frame_size_bucket len < 7"
proof -
  have "length (takeWhile (\<lambda>m. m \<le> len) (tl FRAME_SIZE_BUCKET_MINIMUMS)) \<le> 6"
    by (rule order_trans [OF length_takeWhile_le]) (simp add: FRAME_SIZE_BUCKET_MINIMUMS_def)
  then show ?thesis by (simp add: frame_size_bucket_def)
qed

lemma seven_cases: "i < (7::nat) \<Longrightarrow> i = 0 \<or> i = 1 \<or> i = 2 \<or> i = 3 \<or> i = 4 \<or> i = 5 \<or> i = 6"
  by auto

lemma word_less_minus_one: "m \<noteq> 0 \<Longrightarrow> (len :: u64) \<le> m - 1 \<longleftrightarrow> len < m"
  by unat_arith

lemma frame_size_bucket_iff:
  assumes "i < 7"
  shows "frame_size_bucket len = i \<longleftrightarrow>
    sb_minimum (initial_buckets ! i) \<le> len \<and> len \<le> sb_maximum (initial_buckets ! i)"
proof -
  have nat: "unat len < 18446744073709551616"
    by (rule order_less_le_trans [OF unsigned_less]) simp
  show ?thesis
    using seven_cases [OF assms] nat
    by (elim disjE) (auto simp: frame_size_bucket_def FRAME_SIZE_BUCKET_MINIMUMS_def initial_buckets_def
        word_le_nat_alt not_le unat_u64_max)
qed

lemma agg_sizes:
  assumes "length (ab_sizes (fst s)) = 7" and "i < 7"
  shows "length (ab_sizes (fst (fold agg_packet ps s))) = 7 \<and>
    ab_sizes (fst (fold agg_packet ps s)) ! i =
      (ab_sizes (fst s) ! i)
        \<lparr> sb_packets := sb_packets (ab_sizes (fst s) ! i) +
             of_nat (length (filter (\<lambda>p. frame_size_bucket (snd p) = i) ps)),
          sb_bytes := sb_bytes (ab_sizes (fst s) ! i) +
             (\<Sum>p \<leftarrow> filter (\<lambda>p. frame_size_bucket (snd p) = i) ps. snd p) \<rparr>"
  using assms
proof (induction ps arbitrary: s)
  case Nil
  then show ?case by simp
next
  case (Cons p ps)
  have step: "ab_sizes (fst (agg_packet p s)) =
      (ab_sizes (fst s))[frame_size_bucket (snd p) := bump_bucket (snd p) (ab_sizes (fst s) ! frame_size_bucket (snd p))]"
    by (simp_all add: agg_defs)
  show ?case
    using Cons.IH [of "agg_packet p s"] Cons.prems frame_size_bucket_bound [of "snd p"]
    by (auto simp: step nth_list_update bump_bucket_def algebra_simps)
qed

section \<open>The entry points\<close>

lemma totals_of_Nil [simp]: "totals_of key packets bytes [] []"
  by (simp add: totals_of_def)

lemma those_total: "\<forall>x \<in> set xs. \<exists>y. f x = Some y \<Longrightarrow> those (map f xs) = Some (map (\<lambda>x. the (f x)) xs)"
  by (induction xs) auto

definition analyses :: "packet_view list \<Rightarrow> packet_analysis list" where
  "analyses views = map (\<lambda>v. the (parse_packet v)) views"

definition view_lengths :: "packet_view list \<Rightarrow> u64 list" where
  "view_lengths views = map (\<lambda>v. of_nat (pv_size v)) views"

lemma length_analyses [simp]: "length (analyses views) = length views"
  by (simp add: analyses_def)

lemma analyses_Malformed:
  assumes "\<forall>v \<in> set views. view_ok v"
  shows "\<forall>a \<in> set (analyses views). pa_classification a = Malformed"
proof
  fix a assume "a \<in> set (analyses views)"
  then obtain v where v: "v \<in> set views" "a = the (parse_packet v)" by (auto simp: analyses_def)
  with assms obtain b where "parse_packet v = Some b" using parse_packet_total by blast
  with v show "pa_classification a = Malformed" using parse_packet_classification by simp
qed

lemma frame_lengths_of_Some: "length ls = length ps \<Longrightarrow> frame_lengths_of ps (Some ls) = ls"
  by (auto simp: frame_lengths_of_def intro: nth_equalityI)

text \<open>Two packets for the witnesses: an ARP broadcast, and an answer to its sender.\<close>

definition example_views :: "packet_view list" where
  "example_views =
     [\<lparr> pv_bytes = Some [255, 255, 255, 255, 255, 255, 2, 0, 0, 0, 0, 1, 8, 6], pv_size = 14, pv_ingress = 0 \<rparr>,
      \<lparr> pv_bytes = Some [2, 0, 0, 0, 0, 1, 2, 0, 0, 0, 0, 2, 8, 6], pv_size = 14, pv_ingress = 1 \<rparr>]"

lemma example_views_ok: "\<forall>v \<in> set example_views. view_ok v"
  by (simp add: example_views_def view_ok_def)

lemma example_views_parsed:
  "analyses example_views =
    [empty_analysis\<lparr> pa_source_mac := MacAddress 2 0 0 0 0 1, pa_destination_mac := mac_broadcast,
       pa_ethertype := ETHERTYPE_ARP, pa_frame_length := 14, pa_validity := Valid \<rparr>,
     empty_analysis\<lparr> pa_source_mac := MacAddress 2 0 0 0 0 2, pa_destination_mac := MacAddress 2 0 0 0 0 1,
       pa_ethertype := ETHERTYPE_ARP, pa_frame_length := 14, pa_ingress := 1, pa_validity := Valid \<rparr>]"
  by (simp add: example_views_def analyses_def parse_packet_def mac_at_def read_network_u16_Some
      be16_def ethernet_header_size_def blank_analysis_def conclude_analysis_def ETHERTYPE_IPV4_def
      ETHERTYPE_ARP_def mac_broadcast_def empty_analysis_def)

lemma example_views_length: "length example_views = 2" "view_lengths example_views = [14, 14]"
  by (simp_all add: example_views_def view_lengths_def)

text \<open>The result of the first entry point, as the loop over the parsed packets.\<close>

lemma analyze_views_eq:
  assumes "\<forall>v \<in> set views. view_ok v"
  shows "analyze_views views learned =
    Some (if views = [] then (empty_batch, learned)
          else let r = fold agg_packet (zip (analyses views) (view_lengths views)) (empty_batch, learned)
               in (finish_batch (fst r), snd r))"
proof -
  have "those (map parse_packet views) = Some (analyses views)"
    using assms parse_packet_total unfolding analyses_def by (intro those_total) blast
  then show ?thesis
    by (auto simp: analyze_views_def agg_aggregate_def analyses_def frame_lengths_of_Some
        view_lengths_def case_prod_unfold Let_def)
qed

lemma finish_batch_keeps:
  "ab_sizes (finish_batch b) = ab_sizes b" "ab_packets (finish_batch b) = ab_packets b"
  "ab_received_packets (finish_batch b) = ab_received_packets b"
  "ab_received_bytes (finish_batch b) = ab_received_bytes b"
  "ab_malformed (finish_batch b) = ab_malformed b"
  "ab_broadcast (finish_batch b) = ab_broadcast b"
  "ab_unknown_unicast (finish_batch b) = ab_unknown_unicast b"
  "ab_known_unicast (finish_batch b) = ab_known_unicast b"
  by (simp_all add: finish_batch_def)

lemma map_fst_frames: "map fst (zip (analyses views) (view_lengths views)) = analyses views"
  by (simp add: analyses_def view_lengths_def)

lemma map_snd_frames: "map snd (zip (analyses views) (view_lengths views)) = view_lengths views"
  by (simp add: analyses_def view_lengths_def)

lemma views_counters:
  assumes "\<forall>v \<in> set views. view_ok v" and "analyze_views views learned = Some (b, learned')"
  shows "ab_received_packets b = of_nat (length views) \<and> ab_received_bytes b = sum_list (view_lengths views)"
  using assms(2) unfolding analyze_views_eq [OF assms(1)]
  by (cases "views = []")
    (auto simp: Let_def finish_batch_keeps agg_counters map_snd_frames view_lengths_def analyses_def empty_batch_def)

text \<open>What the analyzer has learned before a packet: what it knew, and the sources of the earlier packets of the call that have
  a whole Ethernet header.\<close>

definition learned_before :: "mac_address set \<Rightarrow> packet_view list \<Rightarrow> nat \<Rightarrow> mac_address set" where
  "learned_before learned views i =
     learned \<union> {m. \<exists>j x. j < i \<and> parse_packet (views ! j) = Some x \<and> pa_validity x \<noteq> MalformedEthernet \<and> m = pa_source_mac x}"

lemma parsed_nth:
  assumes "\<forall>v \<in> set views. view_ok v" and "i < length views"
  shows "parse_packet (views ! i) = Some (analyses views ! i)"
proof -
  obtain a where "parse_packet (views ! i) = Some a" using parse_packet_total assms by (meson nth_mem)
  then show ?thesis using assms(2) by (simp add: analyses_def)
qed

lemma learned_before_eq:
  assumes "\<forall>v \<in> set views. view_ok v" and "i < length views"
  shows "learned \<union> pa_source_mac ` {x \<in> set (take i (analyses views)). ethernet_ok x} = learned_before learned views i"
proof -
  have "x \<in> set (take i (analyses views)) \<longleftrightarrow> (\<exists>j < i. parse_packet (views ! j) = Some x)" for x
  proof -
    have "take i (analyses views) = map (\<lambda>j. analyses views ! j) [0..<i]"
      using assms(2) by (intro nth_equalityI) simp_all
    moreover have "parse_packet (views ! j) = Some (analyses views ! j)" if "j < i" for j
      using parsed_nth [OF assms(1)] assms(2) that by simp
    ultimately show ?thesis by auto
  qed
  then show ?thesis by (auto simp: learned_before_def ethernet_ok_def image_iff)
qed

text \<open>C36. Analyzing packets whose bytes are all there never reads outside them and accounts for every one. Each packet comes
  back at its position with the fields that were parsed from it, classified, if it has a whole Ethernet header, as a
  broadcast, as known unicast if its destination was learned before, in an earlier call or from an earlier packet of this one,
  and as unknown unicast otherwise. The packet and byte counters are the totals, each class counter is the number of packets
  reported with that class, the four classes cover all packets, and the malformed counter is the number of packets that
  did not parse as valid.\<close>

theorem analyzer_accounts_for_all:
  assumes "\<forall>v \<in> set views. view_ok v"
  shows "\<exists>b learned'. analyze_views views learned = Some (b, learned') \<and>
    length (ab_packets b) = length views \<and>
    (\<forall>i < length views. \<exists>a. parse_packet (views ! i) = Some a \<and>
      ab_packets b ! i =
        (if pa_validity a = MalformedEthernet then a
         else a\<lparr> pa_classification :=
           (if is_broadcast (pa_destination_mac a) then Broadcast
            else if pa_destination_mac a \<in> learned_before learned views i then KnownUnicast else UnknownUnicast) \<rparr>)) \<and>
    ab_received_packets b = of_nat (length views) \<and>
    ab_received_bytes b = sum_list (view_lengths views) \<and>
    ab_broadcast b = class_count Broadcast (ab_packets b) \<and>
    ab_unknown_unicast b = class_count UnknownUnicast (ab_packets b) \<and>
    ab_known_unicast b = class_count KnownUnicast (ab_packets b) \<and>
    class_count Malformed (ab_packets b) + ab_broadcast b + ab_unknown_unicast b + ab_known_unicast b
      = ab_received_packets b \<and>
    ab_malformed b = of_nat (length (filter (\<lambda>a. pa_validity a \<noteq> Valid) (analyses views)))"
proof -
  let ?ps = "zip (analyses views) (view_lengths views)"
  let ?b = "fst (fold agg_packet ?ps (empty_batch, learned))"
  have "\<forall>p \<in> set ?ps. pa_classification (fst p) = Malformed"
    using analyses_Malformed [OF assms] by (auto dest: set_zip_leftD)
  from agg_classes [OF this, of "(empty_batch, learned)"]
  have classes: "ab_broadcast ?b = class_count Broadcast (ab_packets ?b)"
    "ab_unknown_unicast ?b = class_count UnknownUnicast (ab_packets ?b)"
    "ab_known_unicast ?b = class_count KnownUnicast (ab_packets ?b)"
    by (simp_all add: agg_packets empty_batch_def)
  have len: "length (ab_packets ?b) = length views"
    by (simp add: agg_packets empty_batch_def map_fst_frames)
  have "length (filter (\<lambda>p. pa_validity (fst p) \<noteq> Valid) ?ps) =
      length (filter (\<lambda>a. pa_validity a \<noteq> Valid) (map fst ?ps))"
    by (simp add: filter_map o_def)
  then have malformed: "ab_malformed ?b = of_nat (length (filter (\<lambda>a. pa_validity a \<noteq> Valid) (analyses views)))"
    by (simp add: agg_counters(3) empty_batch_def map_fst_frames)
  have received: "ab_received_packets ?b = of_nat (length views)"
    "ab_received_bytes ?b = sum_list (view_lengths views)"
    by (simp_all add: agg_counters map_snd_frames) (simp_all add: empty_batch_def view_lengths_def)
  have each: "\<exists>a. parse_packet (views ! i) = Some a \<and> ab_packets ?b ! i =
        (if pa_validity a = MalformedEthernet then a
         else a\<lparr> pa_classification :=
           (if is_broadcast (pa_destination_mac a) then Broadcast
            else if pa_destination_mac a \<in> learned_before learned views i then KnownUnicast else UnknownUnicast) \<rparr>)"
    if "i < length views" for i
    using that learned_before_eq [OF assms that, of learned] parsed_nth [OF assms that]
    by (simp add: agg_packets empty_batch_def map_fst_frames nth_classified classify_def ethernet_ok_def)
  show ?thesis
  proof (cases "views = []")
    case True
    then show ?thesis by (simp add: analyze_views_eq empty_batch_def view_lengths_def analyses_def)
  next
    case False
    show ?thesis
      using class_count_total [of "ab_packets ?b"] False each
      by (simp add: analyze_views_eq [OF assms] Let_def finish_batch_keeps classes len received malformed)
  qed
qed

theorem analyzer_accounts_for_all_witness:
  "\<exists>b learned'. analyze_views example_views {} = Some (b, learned') \<and>
    ab_received_packets b = 2 \<and> ab_received_bytes b = 28 \<and> ab_malformed b = 0 \<and>
    (\<exists>a. parse_packet (example_views ! 0) = Some a \<and> pa_source_mac (ab_packets b ! 0) = pa_source_mac a)"
proof -
  have "0 < length example_views" by (simp add: example_views_length)
  then show ?thesis
    using analyzer_accounts_for_all [OF example_views_ok, of "{}"]
    by (auto simp: example_views_length example_views_parsed elim!: allE [where x = 0])
qed

text \<open>A packet is reported as known unicast exactly when its destination is not the broadcast
  address and was learned before: in an earlier call, or as the source of an earlier packet of
  this call that has a whole Ethernet header. What the call learns is the sources of those
  packets.\<close>

theorem known_unicast_exact:
  assumes "\<forall>v \<in> set views. view_ok v" and "i < length views"
    and "ethernet_ok (analyses views ! i)"
  shows "\<exists>b learned'. analyze_views views learned = Some (b, learned') \<and>
    learned' = learned \<union> pa_source_mac ` {x \<in> set (analyses views). ethernet_ok x} \<and>
    (pa_classification (ab_packets b ! i) = KnownUnicast \<longleftrightarrow>
      pa_destination_mac (analyses views ! i) \<noteq> mac_broadcast \<and>
      pa_destination_mac (analyses views ! i) \<in>
        learned \<union> pa_source_mac ` {x \<in> set (take i (analyses views)). ethernet_ok x})"
proof -
  have "fst ` set (zip (analyses views) (view_lengths views)) = set (analyses views)"
    by (metis list.set_map map_fst_frames)
  then show ?thesis
    using assms
    by (auto simp: analyze_views_eq Let_def finish_batch_keeps agg_packets map_fst_frames
        agg_learned empty_batch_def nth_classified classify_def is_broadcast_iff)
qed

theorem known_unicast_exact_witness:
  "\<exists>b learned'. analyze_views example_views {} = Some (b, learned') \<and>
    pa_classification (ab_packets b ! 1) = KnownUnicast"
proof -
  have "ethernet_ok (analyses example_views ! 1)" "1 < length example_views"
    by (simp_all add: example_views_parsed ethernet_ok_def example_views_length)
  from known_unicast_exact [OF example_views_ok this(2,1), of "{}"] show ?thesis
    by (auto simp: example_views_parsed ethernet_ok_def mac_broadcast_def empty_analysis_def)
qed

text \<open>The seven buckets of the size histogram split the sizes: each counts the packets, and adds up
  the bytes, of the frames between its bounds, and of no others.\<close>

theorem size_histogram_exact:
  assumes "\<forall>v \<in> set views. view_ok v" and "i < 7"
  shows "\<exists>b learned'. analyze_views views learned = Some (b, learned') \<and> length (ab_sizes b) = 7 \<and>
    (let s = ab_sizes b ! i;
         inside = filter (\<lambda>len. sb_minimum s \<le> len \<and> len \<le> sb_maximum s) (view_lengths views)
     in sb_packets s = of_nat (length inside) \<and> sb_bytes s = sum_list inside)"
proof -
  let ?ps = "zip (analyses views) (view_lengths views)"
  let ?s = "ab_sizes (fst (fold agg_packet ?ps (empty_batch, learned))) ! i"
  have "filter (\<lambda>len. frame_size_bucket len = i) (view_lengths views) =
      map snd (filter (\<lambda>p. frame_size_bucket (snd p) = i) ?ps)"
    using filter_map [of "\<lambda>len. frame_size_bucket len = i" snd ?ps]
    by (simp add: map_snd_frames o_def)
  then have rows: "sum_list (filter (\<lambda>len. frame_size_bucket len = i) (view_lengths views)) =
      (\<Sum>p \<leftarrow> filter (\<lambda>p. frame_size_bucket (snd p) = i) ?ps. snd p)"
    "length (filter (\<lambda>len. frame_size_bucket len = i) (view_lengths views)) =
      length (filter (\<lambda>p. frame_size_bucket (snd p) = i) ?ps)"
    by simp_all
  have seven: "length (ab_sizes (fst (empty_batch, learned))) = 7"
    by (simp add: empty_batch_def initial_buckets_def)
  have zero: "sb_packets (initial_buckets ! i) = 0" "sb_bytes (initial_buckets ! i) = 0"
    using assms(2) by (simp_all add: initial_buckets_def)
  have same: "ab_sizes empty_batch = initial_buckets" by (simp add: empty_batch_def)
  note sizes = agg_sizes [OF seven assms(2), of ?ps]
  show ?thesis
  proof (cases "views = []")
    case True
    then show ?thesis
      using zero seven by (simp add: analyze_views_eq same view_lengths_def)
  next
    case False
    then show ?thesis
      using sizes zero rows
      by (simp add: analyze_views_eq [OF assms(1)] Let_def finish_batch_keeps same
          flip: frame_size_bucket_iff [OF assms(2)])
  qed
qed

theorem size_histogram_exact_witness:
  "\<exists>b learned'. analyze_views example_views {} = Some (b, learned') \<and> length (ab_sizes b) = 7"
  using size_histogram_exact [OF example_views_ok, of 0 "{}"] by auto

text \<open>C37. The traffic rows of a batch are exact: there is one flow per five-tuple that occurs among the
  valid IPv4 packets, one source row per source address and one matrix row per address pair that
  occurs among the packets with an Ethernet header; each carries the number of its packets and
  the sum of their bytes; and flows and sources come ranked.\<close>

theorem traffic_rows_exact:
  assumes "\<forall>v \<in> set views. view_ok v"
  shows "\<exists>b learned'. analyze_views views learned = Some (b, learned') \<and>
    (let frames = zip (analyses views) (view_lengths views);
         whole = filter (\<lambda>p. ethernet_ok (fst p)) frames
     in totals_of fr_key fr_packets fr_bytes
          (map (\<lambda>(a, len). flow_row a len) (filter (\<lambda>p. is_flow (fst p)) frames)) (ab_flows b) \<and>
        totals_of mr_mac mr_packets mr_bytes
          (map (\<lambda>(a, len). \<lparr> mr_mac = pa_source_mac a, mr_packets = 1, mr_bytes = len \<rparr>) whole)
          (ab_sources b) \<and>
        totals_of me_key me_packets me_bytes
          (map (\<lambda>(a, len). \<lparr> me_source = pa_source_mac a, me_destination = pa_destination_mac a,
                             me_packets = 1, me_bytes = len \<rparr>) whole)
          (ab_matrix b)) \<and>
    sorted_by fr_rank (ab_flows b) \<and> sorted_by mr_rank (ab_sources b)"
proof (cases "views = []")
  case True
  then show ?thesis
    by (simp add: analyze_views_eq empty_batch_def analyses_def)
next
  case False
  have rows: "ab_flows (finish_batch b) = std_sort fr_rank (coalesce fr_same fr_add (std_sort flow_key_less (ab_flows b)))"
    "ab_sources (finish_batch b) = std_sort mr_rank (coalesce mr_same mr_add (std_sort mr_less (ab_sources b)))"
    "ab_matrix (finish_batch b) = coalesce me_same me_add (std_sort me_less (ab_matrix b))" for b
    by (simp_all add: finish_batch_def rank_flows_def aggregate_flows_def rank_mac_traffic_def
        aggregate_mac_traffic_def aggregate_traffic_matrix_def)
  have none: "ab_flows empty_batch = []" "ab_sources empty_batch = []" "ab_matrix empty_batch = []"
    by (simp_all add: empty_batch_def)
  show ?thesis
    using False
    by (simp add: analyze_views_eq [OF assms] Let_def rows none agg_flows agg_sources agg_matrix
        flow_rows.totals_ranked mac_rows.totals_ranked matrix_rows.totals_coalesce
        flow_ranking.std_sort_sorted mac_ranking.std_sort_sorted)
qed

theorem traffic_rows_exact_witness:
  "\<exists>b learned'. analyze_views example_views {} = Some (b, learned') \<and>
    mr_mac ` set (ab_sources b) = {MacAddress 2 0 0 0 0 1, MacAddress 2 0 0 0 0 2}"
proof -
  let ?whole = "filter (\<lambda>p. ethernet_ok (fst p)) (zip (analyses example_views) (view_lengths example_views))"
  have "mr_mac ` set (map (\<lambda>(a, len). \<lparr> mr_mac = pa_source_mac a, mr_packets = 1, mr_bytes = len \<rparr>) ?whole) =
      {MacAddress 2 0 0 0 0 1, MacAddress 2 0 0 0 0 2}"
    by (simp add: example_views_parsed example_views_length ethernet_ok_def insert_commute)
  moreover obtain b l where "analyze_views example_views {} = Some (b, l)"
    and "totals_of mr_mac mr_packets mr_bytes
      (map (\<lambda>(a, len). \<lparr> mr_mac = pa_source_mac a, mr_packets = 1, mr_bytes = len \<rparr>) ?whole) (ab_sources b)"
    using traffic_rows_exact [OF example_views_ok, of "{}"] unfolding Let_def by blast
  ultimately show ?thesis unfolding totals_of_def by metis
qed

section \<open>Batches and views agree\<close>

text \<open>What the parser sees of a view is its bytes and its sender.\<close>

lemma parse_packet_content:
  assumes "view_ok v" and "pv_size v = 0 \<or> pv_bytes v \<noteq> None"
  shows "parse_packet v =
    parse_packet \<lparr> pv_bytes = Some (view_content v), pv_size = length (view_content v), pv_ingress = pv_ingress v \<rparr>"
proof (cases "pv_bytes v")
  case None
  then show ?thesis
    using assms(2) by (simp add: parse_packet_def view_content_def ethernet_header_size_def blank_analysis_def)
next
  case (Some bs)
  have "pv_size v \<le> length bs" using assms(1) Some by (simp add: view_ok_def)
  moreover have "v = \<lparr> pv_bytes = pv_bytes v, pv_size = pv_size v, pv_ingress = pv_ingress v \<rparr>" by simp
  ultimately show ?thesis
    using parse_packet_inside [OF assms(1) Some] Some
    by (cases v) (simp add: view_content_def min_def)
qed

lemma parse_packet_cong:
  assumes "view_ok v" "pv_size v = 0 \<or> pv_bytes v \<noteq> None" "view_ok w" "pv_size w = 0 \<or> pv_bytes w \<noteq> None"
    and "view_packet v = view_packet w"
  shows "parse_packet v = parse_packet w"
  using parse_packet_content [OF assms(1,2)] parse_packet_content [OF assms(3,4)] assms(5)
  by (simp add: view_packet_def)

lemma parse_packet_length:
  assumes "parse_packet v = Some a" and "pv_size v \<le> 65535"
  shows "ucast (pa_frame_length a) = (of_nat (pv_size v) :: u64)"
proof -
  have "pa_frame_length a = of_nat (min (pv_size v) 65535)"
    using parse_packet_keeps [OF assms(1)] by (simp add: blank_analysis_def)
  moreover have "ucast (of_nat n :: u16) = (of_nat n :: u64)" if "n \<le> 65535" for n
    using that by (simp add: unsigned_of_nat take_bit_nat_eq_self)
  ultimately show ?thesis using assms(2) by (simp add: min_def)
qed

lemma those_eq_Some: "those xs = Some ys \<Longrightarrow> xs = map Some ys"
  by (induction xs arbitrary: ys) (auto split: option.splits)

text \<open>Analyzing a batch gives the same result as analyzing the packets it was made from.\<close>

lemma batch_agrees:
  assumes "\<forall>v \<in> set vs. view_ok v" and "batch_create (Some vs) (length vs) ts = Inr b"
  shows "\<exists>r. analyze_batch b learned = Some r \<and> analyze_views vs learned = Some r"
proof -
  note made = batch_create_ok [OF assms(2,1)]
  then obtain ws where ws: "packet_views b = Some ws" "\<forall>w \<in> set ws. view_ok w"
      and content: "map view_packet ws = map view_packet vs"
    using packet_views_ok by metis
  have vs: "pv_size v \<le> 65535 \<and> (pv_size v = 0 \<or> pv_bytes v \<noteq> None)" if "v \<in> set vs" for v
    using that create_loop_accepts [OF batch_ok_empty assms(1), of ts] assms(2)
    by (auto simp: batch_create_def)
  have ws': "pv_size w = 0 \<or> pv_bytes w \<noteq> None" if "w \<in> set ws" for w
  proof -
    have "map (batch_view b) [0..<packet_count b] = map Some ws"
      using ws(1) by (auto simp: packet_views_def dest: those_eq_Some)
    moreover have "Some w \<in> set (map Some ws)" using that by simp
    ultimately obtain i where "batch_view b i = Some w"
      by (metis (no_types, lifting) ex_map_conv)
    then show ?thesis by (auto simp: batch_view_def unat_eq_0 split: if_splits)
  qed
  have len: "length ws = length vs" using content by (metis length_map)
  have same: "map parse_packet ws = map parse_packet vs"
  proof (rule nth_equalityI)
    fix i assume "i < length (map parse_packet ws)"
    then have i: "i < length ws" "i < length vs" using len by simp_all
    then have "view_packet (ws ! i) = view_packet (vs ! i)" using content by (metis nth_map)
    with i show "map parse_packet ws ! i = map parse_packet vs ! i"
      using ws(2) ws' vs assms(1) by (simp add: parse_packet_cong)
  qed (simp add: len)
  obtain as where as: "those (map parse_packet vs) = Some as" "length as = length vs"
    "\<And>i. i < length vs \<Longrightarrow> parse_packet (vs ! i) = Some (as ! i)"
    using those_total [of vs parse_packet] assms(1) parse_packet_total by fastforce
  have "frame_lengths_of as None = frame_lengths_of as (Some (map (\<lambda>v. of_nat (pv_size v)) vs))"
    using as(2,3) vs
    by (auto simp: frame_lengths_of_def intro!: nth_equalityI parse_packet_length)
  then show ?thesis
    by (simp add: analyze_batch_def analyze_views_def ws(1) same as(1) agg_aggregate_def)
qed

end
