(* ===== verification/Anomaly_Detector.thy ===== *)
theory Anomaly_Detector
  imports Packet_Aggregator
begin

text \<open>
  The anomaly detector, \<^verbatim>\<open>include/wirelab/anomaly_detector.hpp\<close> and
  \<^verbatim>\<open>src/anomaly_detector.cpp\<close>: the sliding window of observed packets, the eight ordered
  maps that \<open>evaluate\<close> fills from it, the candidates of the seven anomaly types, and the set of
  active anomalies that makes the events edge triggered. \<open>anomalous\<close> is the declarative
  meaning of the thresholds; the theorems show that the active set is exactly what it describes.
\<close>

section \<open>Data\<close>

datatype anomaly_type =
    BroadcastStorm | MacFlap | UnknownUnicastFlood | UdpFlood | PortScan | HotTalker | MalformedFrame

fun anomaly_index :: "anomaly_type \<Rightarrow> nat" where
  "anomaly_index BroadcastStorm = 0"
| "anomaly_index MacFlap = 1"
| "anomaly_index UnknownUnicastFlood = 2"
| "anomaly_index UdpFlood = 3"
| "anomaly_index PortScan = 4"
| "anomaly_index HotTalker = 5"
| "anomaly_index MalformedFrame = 6"

lemma anomaly_index_inject: "anomaly_index x = anomaly_index y \<longleftrightarrow> x = y"
  by (cases x; cases y) simp_all

text \<open>The enumerators compare by their position.\<close>

instantiation anomaly_type :: linorder
begin

definition less_eq_anomaly_type :: "anomaly_type \<Rightarrow> anomaly_type \<Rightarrow> bool" where
  "less_eq_anomaly_type x y \<longleftrightarrow> anomaly_index x \<le> anomaly_index y"

definition less_anomaly_type :: "anomaly_type \<Rightarrow> anomaly_type \<Rightarrow> bool" where
  "less_anomaly_type x y \<longleftrightarrow> anomaly_index x < anomaly_index y"

instance
  by standard (auto simp: less_eq_anomaly_type_def less_anomaly_type_def anomaly_index_inject)

end

definition anomaly_type_text :: "anomaly_type \<Rightarrow> string" where
  "anomaly_type_text t =
     (case t of BroadcastStorm \<Rightarrow> ''broadcast-storm'' | MacFlap \<Rightarrow> ''mac-flap''
      | UnknownUnicastFlood \<Rightarrow> ''unknown-unicast-flood'' | UdpFlood \<Rightarrow> ''udp-flood''
      | PortScan \<Rightarrow> ''port-scan'' | HotTalker \<Rightarrow> ''hot-talker''
      | MalformedFrame \<Rightarrow> ''malformed-frame'')"

record detector_config =
  window_duration_ns :: u64
  broadcast_threshold :: u64
  mac_flap_threshold :: u64
  unknown_unicast_threshold :: u64
  udp_threshold :: u64
  port_scan_threshold :: u64
  hot_talker_threshold :: u64
  malformed_threshold :: u64

definition default_detector_config :: detector_config where
  "default_detector_config =
     \<lparr> window_duration_ns = 1000000000, broadcast_threshold = 0, mac_flap_threshold = 0,
       unknown_unicast_threshold = 0, udp_threshold = 0, port_scan_threshold = 0,
       hot_talker_threshold = 0, malformed_threshold = 0 \<rparr>"

record anomaly_event =
  ev_type :: anomaly_type
  ev_source_mac :: mac_address
  ev_source_ipv4 :: u32
  ev_ingress :: u32
  ev_packets :: u64
  ev_bytes :: u64
  ev_destinations :: u64
  ev_threshold :: u64
  ev_window_ns :: u64

record observation =
  ob_timestamp :: u64
  ob_source_mac :: mac_address
  ob_source_ipv4 :: u32
  ob_destination_port :: u16
  ob_frame_length :: u16
  ob_ingress :: u32
  ob_protocol :: u8
  ob_classification :: packet_classification
  ob_validity :: packet_validity

text \<open>\<open>ActiveAnomaly\<close>: its order compares the four members lexicographically, as tuples do.\<close>

type_synonym active_anomaly = "anomaly_type \<times> mac_address \<times> u32 \<times> u32"

definition event_key :: "anomaly_event \<Rightarrow> active_anomaly" where
  "event_key e = (ev_type e, ev_source_mac e, ev_source_ipv4 e, ev_ingress e)"

record detector =
  ad_config :: detector_config
  observations :: "observation list"
  active_anomalies :: "active_anomaly set"
  last_timestamp :: u64
  has_timestamp :: bool

text \<open>The exception \<open>std::invalid_argument\<close>, by where it is thrown.\<close>

datatype detector_error = ZeroWindow | TimestampNotMonotonic

definition ad_new :: "detector_config \<Rightarrow> detector_error + detector" where
  "ad_new config =
     (if window_duration_ns config = 0 then Inl ZeroWindow
      else Inr \<lparr> ad_config = config, observations = [], active_anomalies = {}, last_timestamp = 0,
                 has_timestamp = False \<rparr>)"

definition ad_reset :: "detector \<Rightarrow> detector" where
  "ad_reset d = d\<lparr> observations := [], active_anomalies := {}, last_timestamp := 0, has_timestamp := False \<rparr>"

section \<open>The window\<close>

definition observe :: "u64 \<Rightarrow> packet_analysis \<Rightarrow> observation" where
  "observe ts p =
     \<lparr> ob_timestamp = ts, ob_source_mac = pa_source_mac p, ob_source_ipv4 = pa_source_ipv4 p,
       ob_destination_port = pa_destination_port p, ob_frame_length = pa_frame_length p,
       ob_ingress = pa_ingress p, ob_protocol = pa_protocol p,
       ob_classification = pa_classification p, ob_validity = pa_validity p \<rparr>"

definition window_cutoff :: "detector_config \<Rightarrow> u64 \<Rightarrow> u64" where
  "window_cutoff config ts = (if ts > window_duration_ns config then ts - window_duration_ns config else 0)"

definition expire :: "detector_config \<Rightarrow> u64 \<Rightarrow> observation list \<Rightarrow> observation list" where
  "expire config ts obs = dropWhile (\<lambda>ob. ob_timestamp ob < window_cutoff config ts) obs"

section \<open>The maps\<close>

record traffic_counter =
  ct_packets :: u64
  ct_bytes :: u64
  ct_ingress :: u32

definition zero_counter :: traffic_counter where
  "zero_counter = \<lparr> ct_packets = 0, ct_bytes = 0, ct_ingress = 0 \<rparr>"

definition bump_counter :: "observation \<Rightarrow> traffic_counter \<Rightarrow> traffic_counter" where
  "bump_counter ob c = \<lparr> ct_packets = ct_packets c + 1, ct_bytes = ct_bytes c + ucast (ob_frame_length ob),
                         ct_ingress = ob_ingress ob \<rparr>"

text \<open>The counter of malformed frames is keyed by the port and keeps no port of its own.\<close>

definition bump_malformed :: "observation \<Rightarrow> traffic_counter \<Rightarrow> traffic_counter" where
  "bump_malformed ob c = c\<lparr> ct_packets := ct_packets c + 1, ct_bytes := ct_bytes c + ucast (ob_frame_length ob) \<rparr>"

record window_maps =
  wm_broadcasts :: "(mac_address \<times> traffic_counter) list"
  wm_unknown_unicasts :: "(mac_address \<times> traffic_counter) list"
  wm_udp_sources :: "(u32 \<times> traffic_counter) list"
  wm_scan_destinations :: "(u32 \<times> u16 set) list"
  wm_scan_ports :: "(u32 \<times> u32) list"
  wm_ingress_ports :: "(mac_address \<times> u32 list) list"
  wm_source_traffic :: "(mac_address \<times> traffic_counter) list"
  wm_malformed :: "(u32 \<times> traffic_counter) list"

definition empty_maps :: window_maps where
  "empty_maps = \<lparr> wm_broadcasts = [], wm_unknown_unicasts = [], wm_udp_sources = [],
     wm_scan_destinations = [], wm_scan_ports = [], wm_ingress_ports = [], wm_source_traffic = [],
     wm_malformed = [] \<rparr>"

definition is_scan :: "observation \<Rightarrow> bool" where
  "is_scan ob \<longleftrightarrow> ob_validity ob = Valid \<and> (ob_protocol ob = 6 \<or> ob_protocol ob = 17)"

definition is_udp :: "observation \<Rightarrow> bool" where
  "is_udp ob \<longleftrightarrow> ob_validity ob = Valid \<and> ob_protocol ob = 17"

text \<open>The loop over the observations: each map is updated under the condition the code has for
  it.\<close>

definition observe_step :: "observation \<Rightarrow> window_maps \<Rightarrow> window_maps" where
  "observe_step ob w =
     w\<lparr> wm_broadcasts :=
          (if ob_classification ob = Broadcast
           then omap_update (ob_source_mac ob) (bump_counter ob) zero_counter (wm_broadcasts w)
           else wm_broadcasts w),
        wm_unknown_unicasts :=
          (if ob_classification ob = UnknownUnicast
           then omap_update (ob_source_mac ob) (bump_counter ob) zero_counter (wm_unknown_unicasts w)
           else wm_unknown_unicasts w),
        wm_udp_sources :=
          (if is_udp ob
           then omap_update (ob_source_ipv4 ob) (bump_counter ob) zero_counter (wm_udp_sources w)
           else wm_udp_sources w),
        wm_scan_destinations :=
          (if is_scan ob
           then omap_update (ob_source_ipv4 ob) (insert (ob_destination_port ob)) {} (wm_scan_destinations w)
           else wm_scan_destinations w),
        wm_scan_ports :=
          (if is_scan ob
           then omap_update (ob_source_ipv4 ob) (\<lambda>_. ob_ingress ob) 0 (wm_scan_ports w)
           else wm_scan_ports w),
        wm_ingress_ports :=
          (if ob_classification ob \<noteq> Malformed
           then omap_update (ob_source_mac ob) (\<lambda>ports. ports @ [ob_ingress ob]) [] (wm_ingress_ports w)
           else wm_ingress_ports w),
        wm_source_traffic :=
          (if ob_validity ob = Valid
           then omap_update (ob_source_mac ob) (bump_counter ob) zero_counter (wm_source_traffic w)
           else wm_source_traffic w),
        wm_malformed :=
          (if ob_validity ob \<noteq> Valid
           then omap_update (ob_ingress ob) (bump_malformed ob) zero_counter (wm_malformed w)
           else wm_malformed w) \<rparr>"

definition window_maps_of :: "observation list \<Rightarrow> window_maps" where
  "window_maps_of obs = fold observe_step obs empty_maps"

section \<open>Candidates\<close>

definition add_candidate ::
    "detector_config \<Rightarrow> anomaly_type \<Rightarrow> mac_address \<Rightarrow> u32 \<Rightarrow> u32 \<Rightarrow> u64 \<Rightarrow> u64 \<Rightarrow> u64 \<Rightarrow> u64
      \<Rightarrow> anomaly_event list" where
  "add_candidate config type mac ip port packets bytes destinations threshold =
     (if threshold = 0 then []
      else if packets \<le> threshold \<and> destinations \<le> threshold then []
      else [\<lparr> ev_type = type, ev_source_mac = mac, ev_source_ipv4 = ip, ev_ingress = port,
              ev_packets = packets, ev_bytes = bytes, ev_destinations = destinations,
              ev_threshold = threshold, ev_window_ns = window_duration_ns config \<rparr>])"

fun transitions :: "u32 list \<Rightarrow> u64" where
  "transitions (p # q # ports) = (if q \<noteq> p then 1 else 0) + transitions (q # ports)"
| "transitions _ = 0"

definition candidates :: "detector_config \<Rightarrow> window_maps \<Rightarrow> anomaly_event list" where
  "candidates config w =
     concat (map (\<lambda>(mac, c). add_candidate config BroadcastStorm mac 0 (ct_ingress c) (ct_packets c)
                    (ct_bytes c) 0 (broadcast_threshold config)) (wm_broadcasts w)) @
     concat (map (\<lambda>(mac, c). add_candidate config UnknownUnicastFlood mac 0 (ct_ingress c) (ct_packets c)
                    (ct_bytes c) 0 (unknown_unicast_threshold config)) (wm_unknown_unicasts w)) @
     concat (map (\<lambda>(ip, c). add_candidate config UdpFlood mac_zero ip (ct_ingress c) (ct_packets c)
                    (ct_bytes c) 0 (udp_threshold config)) (wm_udp_sources w)) @
     concat (map (\<lambda>(ip, ds). add_candidate config PortScan mac_zero ip
                    (case map_of (wm_scan_ports w) ip of None \<Rightarrow> 0 | Some p \<Rightarrow> p) 0 0
                    (of_nat (card ds)) (port_scan_threshold config)) (wm_scan_destinations w)) @
     concat (map (\<lambda>(mac, ports). add_candidate config MacFlap mac 0
                    (if ports = [] then 0 else last ports) (transitions ports) 0 0
                    (mac_flap_threshold config)) (wm_ingress_ports w)) @
     concat (map (\<lambda>(mac, c). add_candidate config HotTalker mac 0 (ct_ingress c) (ct_packets c)
                    (ct_bytes c) 0 (hot_talker_threshold config)) (wm_source_traffic w)) @
     concat (map (\<lambda>(port, c). add_candidate config MalformedFrame mac_zero 0 port (ct_packets c)
                    (ct_bytes c) 0 (malformed_threshold config)) (wm_malformed w))"

definition event_less :: "anomaly_event \<Rightarrow> anomaly_event \<Rightarrow> bool" where
  "event_less x y =
     (if ev_type x \<noteq> ev_type y then ev_type x < ev_type y
      else if ev_source_mac x \<noteq> ev_source_mac y then ev_source_mac x < ev_source_mac y
      else if ev_source_ipv4 x \<noteq> ev_source_ipv4 y then ev_source_ipv4 x < ev_source_ipv4 y
      else ev_ingress x < ev_ingress y)"

section \<open>Evaluation\<close>

definition ad_evaluate :: "packet_analysis list \<Rightarrow> u64 \<Rightarrow> detector \<Rightarrow> detector_error + anomaly_event list \<times> detector" where
  "ad_evaluate packets ts d =
     (if has_timestamp d \<and> ts < last_timestamp d then Inl TimestampNotMonotonic
      else
        let obs = expire (ad_config d) ts (observations d @ map (observe ts) packets);
            sorted = std_sort event_less (candidates (ad_config d) (window_maps_of obs))
        in Inr (filter (\<lambda>e. event_key e \<notin> active_anomalies d) sorted,
                d\<lparr> has_timestamp := True, last_timestamp := ts, observations := obs,
                   active_anomalies := event_key ` set sorted \<rparr>))"

section \<open>The maps as filtered folds\<close>

definition keyed_fold ::
    "(observation \<Rightarrow> bool) \<Rightarrow> (observation \<Rightarrow> 'k::linorder) \<Rightarrow> (observation \<Rightarrow> 'v \<Rightarrow> 'v) \<Rightarrow> 'v
      \<Rightarrow> observation list \<Rightarrow> ('k \<times> 'v) list" where
  "keyed_fold P key upd d obs = fold (\<lambda>ob m. if P ob then omap_update (key ob) (upd ob) d m else m) obs []"

lemma keyed_fold_snoc:
  "keyed_fold P key upd d (obs @ [ob]) =
     (if P ob then omap_update (key ob) (upd ob) d (keyed_fold P key upd d obs) else keyed_fold P key upd d obs)"
  by (simp add: keyed_fold_def)

lemma keyed_fold_Nil [simp]: "keyed_fold P key upd d [] = []"
  by (simp add: keyed_fold_def)

lemma keyed_fold_ok: "omap_ok (keyed_fold P key upd d obs)"
  by (induction obs rule: rev_induct) (auto simp: keyed_fold_snoc intro: omap_update_ok)

lemma map_of_keyed_fold:
  "map_of (keyed_fold P key upd d obs) k =
     (let os = filter (\<lambda>ob. P ob \<and> key ob = k) obs in if os = [] then None else Some (fold upd os d))"
proof (induction obs rule: rev_induct)
  case (snoc ob obs)
  then show ?case
    by (auto simp: keyed_fold_snoc map_of_omap_update keyed_fold_ok Let_def)
qed simp

lemma mem_keyed_fold:
  "(k, v) \<in> set (keyed_fold P key upd d obs) \<longleftrightarrow>
     (let os = filter (\<lambda>ob. P ob \<and> key ob = k) obs in os \<noteq> [] \<and> v = fold upd os d)"
proof -
  have "(k, v) \<in> set (keyed_fold P key upd d obs) \<longleftrightarrow> map_of (keyed_fold P key upd d obs) k = Some v"
    by (rule umap_ok_mem_iff) (rule omap_ok_distinct [OF keyed_fold_ok])
  also have "\<dots> \<longleftrightarrow> (let os = filter (\<lambda>ob. P ob \<and> key ob = k) obs in os \<noteq> [] \<and> v = fold upd os d)"
    by (auto simp: map_of_keyed_fold Let_def)
  finally show ?thesis .
qed

lemma window_maps_of_eq:
  "window_maps_of obs =
    \<lparr> wm_broadcasts = keyed_fold (\<lambda>ob. ob_classification ob = Broadcast) ob_source_mac bump_counter zero_counter obs,
      wm_unknown_unicasts =
        keyed_fold (\<lambda>ob. ob_classification ob = UnknownUnicast) ob_source_mac bump_counter zero_counter obs,
      wm_udp_sources = keyed_fold is_udp ob_source_ipv4 bump_counter zero_counter obs,
      wm_scan_destinations = keyed_fold is_scan ob_source_ipv4 (\<lambda>ob. insert (ob_destination_port ob)) {} obs,
      wm_scan_ports = keyed_fold is_scan ob_source_ipv4 (\<lambda>ob _. ob_ingress ob) 0 obs,
      wm_ingress_ports =
        keyed_fold (\<lambda>ob. ob_classification ob \<noteq> Malformed) ob_source_mac (\<lambda>ob ports. ports @ [ob_ingress ob]) [] obs,
      wm_source_traffic = keyed_fold (\<lambda>ob. ob_validity ob = Valid) ob_source_mac bump_counter zero_counter obs,
      wm_malformed = keyed_fold (\<lambda>ob. ob_validity ob \<noteq> Valid) ob_ingress bump_malformed zero_counter obs \<rparr>"
proof (induction obs rule: rev_induct)
  case Nil
  then show ?case by (simp add: window_maps_of_def empty_maps_def)
next
  case (snoc ob obs)
  have "window_maps_of (obs @ [ob]) = observe_step ob (window_maps_of obs)"
    by (simp add: window_maps_of_def)
  then show ?case
    by (simp only: snoc observe_step_def keyed_fold_snoc window_maps.simps)
qed

section \<open>What an anomaly is\<close>

text \<open>The packets of a window that count for an anomaly of a type and a source.\<close>

definition anomaly_evidence :: "anomaly_type \<Rightarrow> mac_address \<Rightarrow> u32 \<Rightarrow> u32 \<Rightarrow> observation list \<Rightarrow> observation list" where
  "anomaly_evidence type mac ip port obs =
     (case type of
        BroadcastStorm \<Rightarrow> filter (\<lambda>ob. ob_classification ob = Broadcast \<and> ob_source_mac ob = mac) obs
      | UnknownUnicastFlood \<Rightarrow> filter (\<lambda>ob. ob_classification ob = UnknownUnicast \<and> ob_source_mac ob = mac) obs
      | UdpFlood \<Rightarrow> filter (\<lambda>ob. is_udp ob \<and> ob_source_ipv4 ob = ip) obs
      | PortScan \<Rightarrow> filter (\<lambda>ob. is_scan ob \<and> ob_source_ipv4 ob = ip) obs
      | MacFlap \<Rightarrow> filter (\<lambda>ob. ob_classification ob \<noteq> Malformed \<and> ob_source_mac ob = mac) obs
      | HotTalker \<Rightarrow> filter (\<lambda>ob. ob_validity ob = Valid \<and> ob_source_mac ob = mac) obs
      | MalformedFrame \<Rightarrow> filter (\<lambda>ob. ob_validity ob \<noteq> Valid \<and> ob_ingress ob = port) obs)"

definition anomaly_measure :: "anomaly_type \<Rightarrow> observation list \<Rightarrow> u64" where
  "anomaly_measure type os =
     (case type of
        PortScan \<Rightarrow> of_nat (card (ob_destination_port ` set os))
      | MacFlap \<Rightarrow> transitions (map ob_ingress os)
      | _ \<Rightarrow> of_nat (length os))"

definition anomaly_threshold :: "detector_config \<Rightarrow> anomaly_type \<Rightarrow> u64" where
  "anomaly_threshold config type =
     (case type of BroadcastStorm \<Rightarrow> broadcast_threshold config | MacFlap \<Rightarrow> mac_flap_threshold config
      | UnknownUnicastFlood \<Rightarrow> unknown_unicast_threshold config | UdpFlood \<Rightarrow> udp_threshold config
      | PortScan \<Rightarrow> port_scan_threshold config | HotTalker \<Rightarrow> hot_talker_threshold config
      | MalformedFrame \<Rightarrow> malformed_threshold config)"

text \<open>The parts of the key that a type does not use are zero.\<close>

definition key_shape :: "anomaly_type \<Rightarrow> mac_address \<Rightarrow> u32 \<Rightarrow> bool" where
  "key_shape type mac ip =
     (if type = UdpFlood \<or> type = PortScan then mac = mac_zero
      else if type = MalformedFrame then mac = mac_zero \<and> ip = 0
      else ip = 0)"

definition anomalous :: "detector_config \<Rightarrow> observation list \<Rightarrow> active_anomaly \<Rightarrow> bool" where
  "anomalous config obs = (\<lambda>(type, mac, ip, port).
     let os = anomaly_evidence type mac ip port obs in
     key_shape type mac ip \<and> anomaly_threshold config type \<noteq> 0 \<and> os \<noteq> [] \<and>
     anomaly_measure type os > anomaly_threshold config type \<and> port = ob_ingress (last os))"

lemma fold_bump:
  "os \<noteq> [] \<Longrightarrow> fold bump_counter os c =
    \<lparr> ct_packets = ct_packets c + of_nat (length os),
      ct_bytes = ct_bytes c + (\<Sum>ob \<leftarrow> os. ucast (ob_frame_length ob)),
      ct_ingress = ob_ingress (last os) \<rparr>"
proof (induction os arbitrary: c)
  case (Cons ob os)
  then show ?case by (cases "os = []") (simp_all add: bump_counter_def)
qed simp

lemma fold_bump_malformed:
  "fold bump_malformed os c =
    c\<lparr> ct_packets := ct_packets c + of_nat (length os),
       ct_bytes := ct_bytes c + (\<Sum>ob \<leftarrow> os. ucast (ob_frame_length ob)) \<rparr>"
  by (induction os arbitrary: c) (simp_all add: bump_malformed_def)

lemma fold_ports: "fold (\<lambda>ob ports. ports @ [ob_ingress ob]) os ps = ps @ map ob_ingress os"
  by (induction os arbitrary: ps) simp_all

lemma fold_destinations: "fold (\<lambda>ob. insert (ob_destination_port ob)) os ds = ds \<union> ob_destination_port ` set os"
  by (induction os arbitrary: ds) auto

lemma fold_last: "os \<noteq> [] \<Longrightarrow> fold (\<lambda>ob _. ob_ingress ob) os p = ob_ingress (last os)"
  by (induction os arbitrary: p) auto

lemma mem_add_candidate:
  "e \<in> set (add_candidate config type mac ip port packets bytes destinations threshold) \<longleftrightarrow>
     threshold \<noteq> 0 \<and> (packets > threshold \<or> destinations > threshold) \<and>
     e = \<lparr> ev_type = type, ev_source_mac = mac, ev_source_ipv4 = ip, ev_ingress = port,
           ev_packets = packets, ev_bytes = bytes, ev_destinations = destinations,
           ev_threshold = threshold, ev_window_ns = window_duration_ns config \<rparr>"
  by (auto simp: add_candidate_def not_le)

lemma word_not_less_zero: "\<not> (t :: u64) < 0"
  by simp

text \<open>One list of candidates: a map filled by \<open>keyed_fold\<close>, with at most one candidate per entry.\<close>

lemma mem_concat_fold:
  "e \<in> set (concat (map (\<lambda>(k, v). f k v) (keyed_fold P key upd d obs))) \<longleftrightarrow>
   (\<exists>k. filter (\<lambda>ob. P ob \<and> key ob = k) obs \<noteq> [] \<and>
      e \<in> set (f k (fold upd (filter (\<lambda>ob. P ob \<and> key ob = k) obs) d)))"
proof -
  have "e \<in> set (concat (map (\<lambda>(k, v). f k v) (keyed_fold P key upd d obs))) \<longleftrightarrow>
      (\<exists>k v. (k, v) \<in> set (keyed_fold P key upd d obs) \<and> e \<in> set (f k v))"
    by force
  then show ?thesis unfolding mem_keyed_fold Let_def by blast
qed

lemma bex_concat_fold:
  "(\<exists>e \<in> set (concat (map (\<lambda>(k, v). f k v) (keyed_fold P key upd d obs))). event_key e = K) \<longleftrightarrow>
   (\<exists>k. filter (\<lambda>ob. P ob \<and> key ob = k) obs \<noteq> [] \<and>
      (\<exists>e \<in> set (f k (fold upd (filter (\<lambda>ob. P ob \<and> key ob = k) obs) d)). event_key e = K))"
  unfolding Bex_def mem_concat_fold by blast

lemma bex_add_candidate:
  "(\<exists>e \<in> set (add_candidate config type mac ip port packets bytes destinations threshold). event_key e = K) \<longleftrightarrow>
   threshold \<noteq> 0 \<and> (packets > threshold \<or> destinations > threshold) \<and> K = (type, mac, ip, port)"
  by (auto simp: Bex_def mem_add_candidate event_key_def)

lemma broadcast_candidates:
  "(\<exists>e \<in> set (concat (map (\<lambda>(mac, c). add_candidate config T mac 0 (ct_ingress c) (ct_packets c)
      (ct_bytes c) 0 threshold) (keyed_fold P ob_source_mac bump_counter zero_counter obs))).
      event_key e = (type, mac, ip, port)) \<longleftrightarrow>
   type = T \<and> ip = 0 \<and> threshold \<noteq> 0 \<and>
     (let os = filter (\<lambda>ob. P ob \<and> ob_source_mac ob = mac) obs
      in os \<noteq> [] \<and> of_nat (length os) > threshold \<and> port = ob_ingress (last os))"
  unfolding bex_concat_fold bex_add_candidate
  by (auto simp: Let_def fold_bump zero_counter_def)

lemma udp_candidates:
  "(\<exists>e \<in> set (concat (map (\<lambda>(ip, c). add_candidate config T m0 ip (ct_ingress c) (ct_packets c)
      (ct_bytes c) 0 threshold) (keyed_fold P ob_source_ipv4 bump_counter zero_counter obs))).
      event_key e = (type, mac, ip, port)) \<longleftrightarrow>
   type = T \<and> mac = m0 \<and> threshold \<noteq> 0 \<and>
     (let os = filter (\<lambda>ob. P ob \<and> ob_source_ipv4 ob = ip) obs
      in os \<noteq> [] \<and> of_nat (length os) > threshold \<and> port = ob_ingress (last os))"
  unfolding bex_concat_fold bex_add_candidate
  by (auto simp: Let_def fold_bump zero_counter_def)

lemma scan_candidates:
  "(\<exists>e \<in> set (concat (map (\<lambda>(ip, ds). add_candidate config T m0 ip
      (case map_of (keyed_fold P ob_source_ipv4 (\<lambda>ob _. ob_ingress ob) 0 obs) ip of None \<Rightarrow> 0 | Some p \<Rightarrow> p) 0 0
      (of_nat (card ds)) threshold)
      (keyed_fold P ob_source_ipv4 (\<lambda>ob. insert (ob_destination_port ob)) {} obs))).
      event_key e = (type, mac, ip, port)) \<longleftrightarrow>
   type = T \<and> mac = m0 \<and> threshold \<noteq> 0 \<and>
     (let os = filter (\<lambda>ob. P ob \<and> ob_source_ipv4 ob = ip) obs
      in os \<noteq> [] \<and> of_nat (card (ob_destination_port ` set os)) > threshold \<and> port = ob_ingress (last os))"
  unfolding bex_concat_fold bex_add_candidate map_of_keyed_fold
  by (auto simp: Let_def fold_destinations fold_last)

lemma flap_candidates:
  "(\<exists>e \<in> set (concat (map (\<lambda>(mac, ports). add_candidate config T mac 0
      (if ports = [] then 0 else last ports) (transitions ports) 0 0 threshold)
      (keyed_fold P ob_source_mac (\<lambda>ob ports. ports @ [ob_ingress ob]) [] obs))).
      event_key e = (type, mac, ip, port)) \<longleftrightarrow>
   type = T \<and> ip = 0 \<and> threshold \<noteq> 0 \<and>
     (let os = filter (\<lambda>ob. P ob \<and> ob_source_mac ob = mac) obs
      in os \<noteq> [] \<and> transitions (map ob_ingress os) > threshold \<and> port = ob_ingress (last os))"
  unfolding bex_concat_fold bex_add_candidate
  by (auto simp: Let_def fold_ports last_map)

lemma malformed_candidates:
  "(\<exists>e \<in> set (concat (map (\<lambda>(port, c). add_candidate config T m0 0 port (ct_packets c)
      (ct_bytes c) 0 threshold) (keyed_fold P ob_ingress bump_malformed zero_counter obs))).
      event_key e = (type, mac, ip, port)) \<longleftrightarrow>
   type = T \<and> mac = m0 \<and> ip = 0 \<and> threshold \<noteq> 0 \<and>
     (let os = filter (\<lambda>ob. P ob \<and> ob_ingress ob = port) obs
      in os \<noteq> [] \<and> of_nat (length os) > threshold)"
  unfolding bex_concat_fold bex_add_candidate
  by (auto simp: Let_def fold_bump_malformed zero_counter_def)

lemma last_malformed:
  assumes "filter (\<lambda>ob. ob_validity ob \<noteq> Valid \<and> ob_ingress ob = port) obs \<noteq> []"
  shows "ob_ingress (last (filter (\<lambda>ob. ob_validity ob \<noteq> Valid \<and> ob_ingress ob = port) obs)) = port"
  using last_in_set [OF assms] by auto

lemma candidates_iff:
  "(\<exists>e \<in> set (candidates config (window_maps_of obs)). event_key e = (type, mac, ip, port)) \<longleftrightarrow>
     anomalous config obs (type, mac, ip, port)"
  unfolding candidates_def window_maps_of_eq window_maps.simps set_append bex_Un
    broadcast_candidates udp_candidates scan_candidates flap_candidates malformed_candidates
  by (cases type)
    (auto simp: anomalous_def anomaly_evidence_def anomaly_measure_def anomaly_threshold_def
      key_shape_def Let_def last_malformed)

lemma candidates_keys:
  "event_key ` set (candidates config (window_maps_of obs)) = {k. anomalous config obs k}"
proof -
  have "k \<in> event_key ` set (candidates config (window_maps_of obs)) \<longleftrightarrow>
      (\<exists>e \<in> set (candidates config (window_maps_of obs)). event_key e = k)" for k
    by (auto simp: image_iff)
  moreover have "(\<exists>e \<in> set (candidates config (window_maps_of obs)). event_key e = k) \<longleftrightarrow>
      anomalous config obs k" for k
    by (cases k) (simp only: candidates_iff)
  ultimately show ?thesis by blast
qed

text \<open>Each map gives at most one candidate per key, so the candidates are different anomalies.\<close>

lemma distinct_concat_keys:
  assumes "distinct (map fst m)" and "\<And>k v. length (f k v) \<le> 1"
    and "\<And>k v k' v' e e'. e \<in> set (f k v) \<Longrightarrow> e' \<in> set (f k' v') \<Longrightarrow> event_key e = event_key e' \<Longrightarrow> k = k'"
  shows "distinct (map event_key (concat (map (\<lambda>(k, v). f k v) m)))"
  using assms(1)
proof (induction m)
  case (Cons p m)
  obtain k v where p: "p = (k, v)" by (cases p)
  have "distinct (map event_key (f k v))"
    using assms(2) [of k v] by (cases "f k v") auto
  moreover have "event_key e \<noteq> event_key e'"
    if "e \<in> set (f k v)" "(k', v') \<in> set m" "e' \<in> set (f k' v')" for e e' k' v'
  proof -
    have "k \<noteq> k'" using Cons.prems that(2) by (force simp: p)
    then show ?thesis using assms(3) that by blast
  qed
  ultimately show ?case using Cons by (fastforce simp: p)
qed simp

lemma candidates_distinct:
  "distinct (map event_key (candidates config (window_maps_of obs)))"
proof -
  have key: "distinct (map fst (keyed_fold P key upd d obs))"
    for P and key :: "observation \<Rightarrow> 'k::linorder" and upd :: "observation \<Rightarrow> 'v \<Rightarrow> 'v" and d
    by (rule omap_ok_distinct [OF keyed_fold_ok])
  have len: "length (add_candidate config type mac ip port packets bytes destinations threshold) \<le> 1"
    for type mac ip port packets bytes destinations threshold
    by (simp add: add_candidate_def)
  show ?thesis
    unfolding candidates_def window_maps_of_eq window_maps.simps map_append distinct_append
    by (intro conjI distinct_concat_keys key len) (auto simp: mem_add_candidate event_key_def)
qed

lemma event_less_eq: "event_less = (\<lambda>x y. event_key x < event_key y)"
  by (auto simp: event_less_def event_key_def less_prod_def' fun_eq_iff)

interpretation event_order: strict_weak_order event_less
  unfolding event_less_eq by (rule strict_weak_order_key)

section \<open>Runs\<close>

text \<open>A run of the detector: batches with their times. A time that goes back throws and leaves
  the detector as it was.\<close>

fun ad_run :: "(packet_analysis list \<times> u64) list \<Rightarrow> detector \<Rightarrow> detector" where
  "ad_run [] d = d"
| "ad_run ((ps, ts) # rest) d =
     (case ad_evaluate ps ts d of Inl _ \<Rightarrow> ad_run rest d | Inr (_, d') \<Rightarrow> ad_run rest d')"

definition ad_inv :: "detector \<Rightarrow> bool" where
  "ad_inv d \<longleftrightarrow> window_duration_ns (ad_config d) \<noteq> 0 \<and>
     sorted (map ob_timestamp (observations d)) \<and>
     (if has_timestamp d
      then (\<forall>ob \<in> set (observations d). window_cutoff (ad_config d) (last_timestamp d) \<le> ob_timestamp ob \<and>
              ob_timestamp ob \<le> last_timestamp d) \<and>
           active_anomalies d = {k. anomalous (ad_config d) (observations d) k}
      else observations d = [] \<and> active_anomalies d = {})"

lemma dropWhile_sorted:
  "sorted (map f xs) \<Longrightarrow> dropWhile (\<lambda>x. f x < (c :: 'k::linorder)) xs = filter (\<lambda>x. c \<le> f x) xs"
  by (induction xs) (auto simp: not_less intro!: filter_True [symmetric])

lemma window_cutoff_mono: "t \<le> t' \<Longrightarrow> window_cutoff c t \<le> window_cutoff c t'"
  by (auto simp: window_cutoff_def word_le_nat_alt word_less_nat_alt unat_sub)

lemma window_cutoff_le: "window_cutoff c t \<le> t"
  by (auto simp: window_cutoff_def word_le_nat_alt word_less_nat_alt unat_sub)

lemma ad_evaluate_Inr:
  assumes "ad_inv d" and "ad_evaluate ps ts d = Inr (events, d')"
  shows "ad_inv d'" and "ad_config d' = ad_config d" and "last_timestamp d' = ts" and "has_timestamp d'"
    and "observations d' = filter (\<lambda>ob. window_cutoff (ad_config d) ts \<le> ob_timestamp ob)
           (observations d @ map (observe ts) ps)"
    and "event_key ` set events = active_anomalies d' - active_anomalies d"
    and "sorted_by event_less events" and "distinct (map event_key events)"
proof -
  let ?all = "observations d @ map (observe ts) ps"
  let ?obs = "expire (ad_config d) ts ?all"
  let ?sorted = "std_sort event_less (candidates (ad_config d) (window_maps_of ?obs))"
  have mono: "has_timestamp d \<Longrightarrow> last_timestamp d \<le> ts"
    using assms(2) by (auto simp: ad_evaluate_def split: if_splits)
  have events: "events = filter (\<lambda>e. event_key e \<notin> active_anomalies d) ?sorted"
    and d': "d' = d\<lparr> has_timestamp := True, last_timestamp := ts, observations := ?obs,
               active_anomalies := event_key ` set ?sorted \<rparr>"
    using assms(2) by (auto simp: ad_evaluate_def Let_def split: if_splits)
  have old: "sorted (map ob_timestamp (observations d))" "\<forall>ob \<in> set (observations d). ob_timestamp ob \<le> ts"
    using assms(1) mono by (fastforce simp: ad_inv_def split: if_splits)+
  have new: "ob_timestamp (observe ts p) = ts" for p by (simp add: observe_def)
  have sorted: "sorted (map ob_timestamp ?all)"
    using old by (auto simp: sorted_append new o_def map_replicate_const)
  have obs: "?obs = filter (\<lambda>ob. window_cutoff (ad_config d) ts \<le> ob_timestamp ob) ?all"
    unfolding expire_def by (rule dropWhile_sorted [OF sorted])
  show "ad_inv d'"
    using assms(1) old sorted
    by (auto simp: ad_inv_def d' candidates_keys obs new sorted_append intro!: sorted_filter)
  show "ad_config d' = ad_config d" "last_timestamp d' = ts" "has_timestamp d'" by (simp_all add: d')
  show "observations d' = filter (\<lambda>ob. window_cutoff (ad_config d) ts \<le> ob_timestamp ob) ?all"
    by (simp add: d' obs)
  show "event_key ` set events = active_anomalies d' - active_anomalies d"
    by (auto simp: events d')
  show "sorted_by event_less events"
    unfolding events by (rule sorted_wrt_filter [OF event_order.std_sort_sorted])
  have "mset (map event_key ?sorted) = mset (map event_key (candidates (ad_config d) (window_maps_of ?obs)))"
    by simp
  then have "distinct (map event_key ?sorted)"
    using candidates_distinct mset_eq_imp_distinct_iff by blast
  then show "distinct (map event_key events)"
    unfolding events by (rule distinct_map_filter)
qed

lemma ad_run_append: "ad_run (h @ h') d = ad_run h' (ad_run h d)"
  by (induction h arbitrary: d) (auto split: sum.splits)

lemma ad_new_inv: "ad_new config = Inr d \<Longrightarrow> ad_inv d \<and> ad_config d = config \<and> \<not> has_timestamp d"
  by (auto simp: ad_new_def ad_inv_def split: if_splits)

lemma ad_run_inv: "ad_inv d \<Longrightarrow> ad_inv (ad_run h d) \<and> ad_config (ad_run h d) = ad_config d"
proof (induction h arbitrary: d)
  case (Cons p h)
  obtain ps ts where p: "p = (ps, ts)" by (cases p)
  show ?case
  proof (cases "ad_evaluate ps ts d")
    case (Inl e)
    with Cons show ?thesis by (simp add: p)
  next
    case (Inr r)
    obtain events d' where r: "r = (events, d')" by (cases r)
    note step = ad_evaluate_Inr [OF Cons.prems Inr [unfolded r]]
    from Cons.IH [OF step(1)] step(2) Inr show ?thesis by (simp add: p r)
  qed
qed simp

text \<open>Everything a history shows to the detector.\<close>

definition observed :: "(packet_analysis list \<times> u64) list \<Rightarrow> observation list" where
  "observed h = concat (map (\<lambda>(ps, ts). map (observe ts) ps) h)"

lemma observed_snoc: "observed (h @ [(ps, ts)]) = observed h @ map (observe ts) ps"
  by (simp add: observed_def)

lemma ad_run_monotonic:
  assumes "ad_new config = Inr d0" and "sorted (map snd h)" and "h \<noteq> []"
  shows "has_timestamp (ad_run h d0) \<and> last_timestamp (ad_run h d0) = snd (last h) \<and>
    observations (ad_run h d0) =
      filter (\<lambda>ob. window_cutoff config (snd (last h)) \<le> ob_timestamp ob) (observed h)"
  using assms(2,3)
proof (induction h rule: rev_induct)
  case Nil
  then show ?case by simp
next
  case (snoc p h)
  obtain ps ts where p: "p = (ps, ts)" by (cases p)
  let ?d = "ad_run h d0"
  have inv: "ad_inv ?d" and config: "ad_config ?d = config"
    using ad_run_inv ad_new_inv [OF assms(1)] by auto
  have "has_timestamp ?d \<longrightarrow> last_timestamp ?d \<le> ts"
  proof (cases "h = []")
    case True
    then show ?thesis using ad_new_inv [OF assms(1)] by simp
  next
    case False
    then have "snd (last h) \<le> ts"
      using snoc.prems by (auto simp: p sorted_append last_map)
    then show ?thesis using snoc False by (simp add: sorted_append)
  qed
  then obtain events d' where r: "ad_evaluate ps ts ?d = Inr (events, d')"
    by (auto simp: ad_evaluate_def Let_def not_le [symmetric])
  note step = ad_evaluate_Inr [OF inv r]
  have "filter (\<lambda>ob. window_cutoff config ts \<le> ob_timestamp ob) (observations ?d) =
      filter (\<lambda>ob. window_cutoff config ts \<le> ob_timestamp ob) (observed h)"
  proof (cases "h = []")
    case True
    then show ?thesis using assms(1) by (auto simp: observed_def ad_new_def split: if_splits)
  next
    case False
    then have "snd (last h) \<le> ts"
      using snoc.prems by (auto simp: p sorted_append last_map)
    then have "window_cutoff config (snd (last h)) \<le> window_cutoff config ts"
      by (rule window_cutoff_mono)
    then show ?thesis
      using snoc False by (auto simp: sorted_append intro!: filter_cong)
  qed
  with step r config show ?case
    by (simp add: ad_run_append p observed_snoc)
qed

text \<open>C38. The detector is edge triggered and exact. Whatever it has seen before, an evaluation reports
  the anomalies that its window now shows and that were not active after the previous one: each
  once, in order. What is active afterwards is what the thresholds say of the window, no more
  and no less.\<close>

theorem detector_edge_triggered:
  assumes "ad_new config = Inr d0" and "ad_evaluate ps ts (ad_run h d0) = Inr (events, d')"
  shows "active_anomalies d' = {k. anomalous config (observations d') k} \<and>
    event_key ` set events = active_anomalies d' - active_anomalies (ad_run h d0) \<and>
    distinct (map event_key events) \<and> sorted_by event_less events"
proof -
  have inv: "ad_inv (ad_run h d0)" and config: "ad_config (ad_run h d0) = config"
    using ad_run_inv ad_new_inv [OF assms(1)] by auto
  note step = ad_evaluate_Inr [OF inv assms(2)]
  have "active_anomalies d' = {k. anomalous config (observations d') k}"
    using step(1,2,4) config by (simp add: ad_inv_def)
  with step(6,7,8) show ?thesis by blast
qed

text \<open>C39. The window is exact: when the times of a history do not go back, no evaluation throws, and
  the detector holds, in order, exactly the packets it was shown whose time is not before the
  start of the window that ends at the last evaluation.\<close>

theorem detector_window_exact:
  assumes "ad_new config = Inr d0" and "sorted (map snd (h @ [(ps, ts)]))"
  shows "\<exists>events d'. ad_evaluate ps ts (ad_run h d0) = Inr (events, d') \<and>
    observations d' = filter (\<lambda>ob. window_cutoff config ts \<le> ob_timestamp ob) (observed (h @ [(ps, ts)]))"
proof -
  have "\<not> (has_timestamp (ad_run h d0) \<and> ts < last_timestamp (ad_run h d0))"
  proof (cases "h = []")
    case True
    then show ?thesis using ad_new_inv [OF assms(1)] by simp
  next
    case False
    then have "snd (last h) \<le> ts" using assms(2) by (auto simp: sorted_append last_map)
    then show ?thesis
      using ad_run_monotonic [OF assms(1) _ False] assms(2) by (auto simp: sorted_append)
  qed
  then obtain events d' where r: "ad_evaluate ps ts (ad_run h d0) = Inr (events, d')"
    by (auto simp: ad_evaluate_def Let_def)
  then have "ad_run (h @ [(ps, ts)]) d0 = d'" by (simp add: ad_run_append)
  with ad_run_monotonic [OF assms] r show ?thesis by simp
qed

text \<open>Two malformed frames on port 3 against a threshold of one, for the witnesses.\<close>

definition example_config :: detector_config where
  "example_config = default_detector_config\<lparr> malformed_threshold := 1 \<rparr>"

definition example_detector :: detector where
  "example_detector = \<lparr> ad_config = example_config, observations = [], active_anomalies = {},
     last_timestamp = 0, has_timestamp = False \<rparr>"

definition runt :: packet_analysis where
  "runt = empty_analysis\<lparr> pa_ingress := 3, pa_frame_length := 7 \<rparr>"

lemma example_detector_new: "ad_new example_config = Inr example_detector"
  by (simp add: ad_new_def example_detector_def example_config_def default_detector_config_def)

theorem detector_window_exact_witness:
  "\<exists>events d'. ad_evaluate [runt] 2000000000 (ad_run [([runt], 5), ([runt], 1000000000)] example_detector)
      = Inr (events, d') \<and> length (observations d') = 2"
proof -
  have "sorted (map snd ([([runt], 5), ([runt], 1000000000)] @ [([runt], 2000000000 :: u64)]))" by simp
  from detector_window_exact [OF example_detector_new this] show ?thesis
    by (auto simp: observed_def observe_def window_cutoff_def example_config_def
        default_detector_config_def)
qed

theorem detector_edge_triggered_witness:
  "\<exists>events d'. ad_evaluate [runt] 9 (ad_run [([runt], 5)] example_detector) = Inr (events, d') \<and>
    (MalformedFrame, mac_zero, 0, 3) \<in> event_key ` set events"
proof -
  have run: "ad_run [([runt], 5)] example_detector =
      example_detector\<lparr> observations := [observe 5 runt], last_timestamp := 5, has_timestamp := True \<rparr>"
    by (simp add: ad_evaluate_def example_detector_def expire_def window_cutoff_def Let_def
        example_config_def default_detector_config_def window_maps_of_def empty_maps_def
        observe_step_def observe_def runt_def empty_analysis_def candidates_def add_candidate_def
        is_udp_def is_scan_def bump_malformed_def zero_counter_def)
  then obtain events d' where r: "ad_evaluate [runt] 9 (ad_run [([runt], 5)] example_detector) = Inr (events, d')"
    and obs: "observations d' = [observe 5 runt, observe 9 runt]"
    by (simp add: ad_evaluate_def Let_def example_detector_def expire_def window_cutoff_def
        example_config_def default_detector_config_def observe_def)
  have "anomalous example_config (observations d') (MalformedFrame, mac_zero, 0, 3)"
    by (simp add: obs anomalous_def anomaly_evidence_def observe_def runt_def empty_analysis_def
        key_shape_def anomaly_threshold_def anomaly_measure_def example_config_def)
  moreover have "active_anomalies (ad_run [([runt], 5)] example_detector) = {}"
    unfolding run by (simp add: example_detector_def)
  ultimately show ?thesis
    using detector_edge_triggered [OF example_detector_new r] r by blast
qed

end
