(* ===== verification/Policy_Engine.thy ===== *)
theory Policy_Engine
  imports Anomaly_Detector
begin

text \<open>
  The policy engine, \<^verbatim>\<open>include/wirelab/policy_engine.hpp\<close> and \<^verbatim>\<open>src/policy_engine.cpp\<close>:
  an ordered list of named rules, one hit counter per rule that has fired, and \<open>evaluate\<close>,
  which answers every anomaly with the first enabled rule for its type. The invariant is that
  names are unique and not empty, rate-limit rules have a rate, and only rules have counters.
\<close>

section \<open>Data\<close>

datatype policy_action = Allow | Drop | Mirror | RateLimit | Quarantine | AlertOnly

datatype policy_configuration_error = EmptyName | DuplicateName | MissingRateLimit

definition policy_action_text :: "policy_action \<Rightarrow> string" where
  "policy_action_text a =
     (case a of Allow \<Rightarrow> ''allow'' | Drop \<Rightarrow> ''drop'' | Mirror \<Rightarrow> ''mirror''
      | RateLimit \<Rightarrow> ''rate_limit'' | Quarantine \<Rightarrow> ''quarantine'' | AlertOnly \<Rightarrow> ''alert_only'')"

definition policy_configuration_error_text :: "policy_configuration_error \<Rightarrow> string" where
  "policy_configuration_error_text e =
     (case e of EmptyName \<Rightarrow> ''policy name must not be empty''
      | DuplicateName \<Rightarrow> ''policy names must be unique''
      | MissingRateLimit \<Rightarrow> ''rate-limit policies require a packet rate'')"

record policy_rule =
  pr_name :: string
  pr_type :: anomaly_type
  pr_action :: policy_action
  pr_enabled :: bool
  pr_rate :: u64

record policy_decision =
  pd_rule :: string
  pd_action :: policy_action
  pd_anomaly :: anomaly_event
  pd_hits :: u64
  pd_rate :: u64

record policy_engine =
  rules :: "policy_rule list"
  hit_counts :: "(string \<times> u64) list"

definition pe_new :: policy_engine where
  "pe_new = \<lparr> rules = [], hit_counts = [] \<rparr>"

section \<open>Operations\<close>

definition pe_validate :: "policy_rule \<Rightarrow> policy_configuration_error + unit" where
  "pe_validate r =
     (if pr_name r = [] then Inl EmptyName
      else if pr_action r = RateLimit \<and> pr_rate r = 0 then Inl MissingRateLimit
      else Inr ())"

text \<open>The loop of \<open>set_rules\<close>; \<open>names\<close> are the names seen.\<close>

fun check_rules :: "policy_rule list \<Rightarrow> string set \<Rightarrow> policy_configuration_error + unit" where
  "check_rules [] names = Inr ()"
| "check_rules (r # rs) names =
     (case pe_validate r of
        Inl e \<Rightarrow> Inl e
      | Inr _ \<Rightarrow> if pr_name r \<in> names then Inl DuplicateName else check_rules rs (insert (pr_name r) names))"

definition set_rules :: "policy_rule list \<Rightarrow> policy_engine \<Rightarrow> (policy_configuration_error + unit) \<times> policy_engine" where
  "set_rules rs e =
     (case check_rules rs {} of
        Inl err \<Rightarrow> (Inl err, e)
      | Inr _ \<Rightarrow> (Inr (), e\<lparr> rules := rs, hit_counts := [] \<rparr>))"

definition add_rule :: "policy_rule \<Rightarrow> policy_engine \<Rightarrow> (policy_configuration_error + unit) \<times> policy_engine" where
  "add_rule r e =
     (case pe_validate r of
        Inl err \<Rightarrow> (Inl err, e)
      | Inr _ \<Rightarrow>
          if list_ex (\<lambda>existing. pr_name existing = pr_name r) (rules e) then (Inl DuplicateName, e)
          else (Inr (), e\<lparr> rules := rules e @ [r] \<rparr>))"

text \<open>\<open>vector::erase\<close> and the assignment through an iterator, at the first rule of a name.\<close>

fun erase_first :: "('a \<Rightarrow> bool) \<Rightarrow> 'a list \<Rightarrow> 'a list" where
  "erase_first P [] = []"
| "erase_first P (x # xs) = (if P x then xs else x # erase_first P xs)"

fun update_first :: "('a \<Rightarrow> bool) \<Rightarrow> ('a \<Rightarrow> 'a) \<Rightarrow> 'a list \<Rightarrow> 'a list" where
  "update_first P f [] = []"
| "update_first P f (x # xs) = (if P x then f x # xs else x # update_first P f xs)"

definition remove_rule :: "string \<Rightarrow> policy_engine \<Rightarrow> bool \<times> policy_engine" where
  "remove_rule name e =
     (case List.find (\<lambda>r. pr_name r = name) (rules e) of
        None \<Rightarrow> (False, e)
      | Some r \<Rightarrow> (True, e\<lparr> hit_counts := umap_erase (pr_name r) (hit_counts e),
                           rules := erase_first (\<lambda>r. pr_name r = name) (rules e) \<rparr>))"

definition set_enabled :: "string \<Rightarrow> bool \<Rightarrow> policy_engine \<Rightarrow> bool \<times> policy_engine" where
  "set_enabled name enabled e =
     (case List.find (\<lambda>r. pr_name r = name) (rules e) of
        None \<Rightarrow> (False, e)
      | Some r \<Rightarrow> (True, e\<lparr> rules := update_first (\<lambda>r. pr_name r = name) (\<lambda>r. r\<lparr> pr_enabled := enabled \<rparr>) (rules e) \<rparr>))"

definition hit_count :: "policy_engine \<Rightarrow> string \<Rightarrow> u64" where
  "hit_count e name = (case map_of (hit_counts e) name of None \<Rightarrow> 0 | Some n \<Rightarrow> n)"

definition pe_reset :: "policy_engine \<Rightarrow> policy_engine" where
  "pe_reset e = e\<lparr> hit_counts := [] \<rparr>"

definition first_rule :: "policy_rule list \<Rightarrow> anomaly_type \<Rightarrow> policy_rule option" where
  "first_rule rs type = List.find (\<lambda>r. pr_enabled r \<and> pr_type r = type) rs"

fun pe_evaluate :: "anomaly_event list \<Rightarrow> policy_engine \<Rightarrow> policy_decision list \<times> policy_engine" where
  "pe_evaluate [] e = ([], e)"
| "pe_evaluate (a # as) e =
     (case first_rule (rules e) (ev_type a) of
        None \<Rightarrow> pe_evaluate as e
      | Some r \<Rightarrow>
          let hits = hit_count e (pr_name r) + 1;
              e = e\<lparr> hit_counts := umap_assign (pr_name r) hits (hit_counts e) \<rparr>;
              (ds, e) = pe_evaluate as e
          in (\<lparr> pd_rule = pr_name r, pd_action = pr_action r, pd_anomaly = a, pd_hits = hits,
                pd_rate = pr_rate r \<rparr> # ds, e))"

section \<open>The invariant\<close>

definition rule_ok :: "policy_rule \<Rightarrow> bool" where
  "rule_ok r \<longleftrightarrow> pr_name r \<noteq> [] \<and> (pr_action r = RateLimit \<longrightarrow> pr_rate r \<noteq> 0)"

definition pe_ok :: "policy_engine \<Rightarrow> bool" where
  "pe_ok e \<longleftrightarrow> distinct (map pr_name (rules e)) \<and> (\<forall>r \<in> set (rules e). rule_ok r) \<and>
     umap_ok (hit_counts e) \<and> fst ` set (hit_counts e) \<subseteq> pr_name ` set (rules e)"

lemma pe_validate_iff: "pe_validate r = Inr u \<longleftrightarrow> rule_ok r"
  by (auto simp: pe_validate_def rule_ok_def)

lemma check_rules_iff:
  "check_rules rs names = Inr u \<longleftrightarrow>
    distinct (map pr_name rs) \<and> pr_name ` set rs \<inter> names = {} \<and> (\<forall>r \<in> set rs. rule_ok r)"
proof (induction rs arbitrary: names)
  case (Cons r rs)
  have "check_rules (r # rs) names = Inr u \<longleftrightarrow>
      rule_ok r \<and> pr_name r \<notin> names \<and> check_rules rs (insert (pr_name r) names) = Inr u"
    by (cases "pe_validate r") (auto simp flip: pe_validate_iff [where u = u])
  with Cons show ?case by auto
qed simp

lemma erase_first_subset: "set (erase_first P xs) \<subseteq> set xs"
  by (induction xs) auto

lemma erase_first_distinct: "distinct (map f xs) \<Longrightarrow> distinct (map f (erase_first P xs))"
  by (induction xs) (auto dest: subsetD [OF erase_first_subset])

lemma erase_first_unique:
  "distinct (map f xs) \<Longrightarrow> erase_first (\<lambda>x. f x = k) xs = filter (\<lambda>x. f x \<noteq> k) xs"
  by (induction xs) (auto simp: image_iff intro!: filter_True [symmetric])

lemma update_first_map: "(\<And>x. f (g x) = f x) \<Longrightarrow> map f (update_first P g xs) = map f xs"
  by (induction xs) auto

lemma update_first_mem: "x \<in> set (update_first P g xs) \<Longrightarrow> x \<in> set xs \<or> (\<exists>y \<in> set xs. x = g y)"
  by (induction xs) (auto split: if_splits)

lemma pe_ok_new: "pe_ok pe_new"
  by (simp add: pe_ok_def pe_new_def)

lemma pe_ok_set_rules: "pe_ok e \<Longrightarrow> pe_ok (snd (set_rules rs e))"
  using check_rules_iff [of rs "{}"]
  by (auto simp: set_rules_def pe_ok_def split: sum.splits)

lemma pe_ok_add_rule: "pe_ok e \<Longrightarrow> pe_ok (snd (add_rule r e))"
  using pe_validate_iff [of r]
  by (auto simp: add_rule_def pe_ok_def list_ex_iff split: sum.splits)

lemma pe_ok_remove_rule:
  assumes "pe_ok e"
  shows "pe_ok (snd (remove_rule name e))"
proof (cases "List.find (\<lambda>r. pr_name r = name) (rules e)")
  case None
  with assms show ?thesis by (simp add: remove_rule_def)
next
  case (Some r)
  then have "pr_name r = name" by (auto simp: find_Some_iff)
  moreover have "erase_first (\<lambda>r. pr_name r = name) (rules e) = filter (\<lambda>r. pr_name r \<noteq> name) (rules e)"
    using assms by (intro erase_first_unique) (simp add: pe_ok_def)
  ultimately show ?thesis
    using assms Some
    by (auto simp: remove_rule_def pe_ok_def umap_erase_def distinct_map_filter)
qed

lemma pe_ok_set_enabled:
  assumes "pe_ok e"
  shows "pe_ok (snd (set_enabled name b e))"
proof -
  let ?rs = "update_first (\<lambda>r. pr_name r = name) (\<lambda>r. r\<lparr> pr_enabled := b \<rparr>) (rules e)"
  have names: "map pr_name ?rs = map pr_name (rules e)"
    by (rule update_first_map) simp
  moreover have "\<forall>r \<in> set ?rs. rule_ok r"
    using assms by (auto simp: pe_ok_def rule_ok_def dest!: update_first_mem)
  moreover have "pr_name ` set ?rs = pr_name ` set (rules e)"
    using names by (metis list.set_map)
  ultimately show ?thesis
    using assms by (auto simp: set_enabled_def pe_ok_def split: option.splits)
qed

lemma first_rule_Some: "first_rule rs type = Some r \<Longrightarrow> r \<in> set rs \<and> pr_enabled r \<and> pr_type r = type"
  by (auto simp: first_rule_def find_Some_iff)

lemma pe_evaluate_ok:
  assumes "pe_ok e" and "pe_evaluate as e = (ds, e')"
  shows "pe_ok e' \<and> rules e' = rules e"
  using assms
proof (induction as arbitrary: e ds e')
  case (Cons a as)
  show ?case
  proof (cases "first_rule (rules e) (ev_type a)")
    case None
    with Cons.prems have "pe_evaluate as e = (ds, e')" by simp
    from Cons.IH [OF Cons.prems(1) this] show ?thesis .
  next
    case (Some r)
    let ?e = "e\<lparr> hit_counts := umap_assign (pr_name r) (hit_count e (pr_name r) + 1) (hit_counts e) \<rparr>"
    have ok: "pe_ok ?e"
      using Cons.prems(1) first_rule_Some [OF Some] by (auto simp: pe_ok_def)
    obtain ds1 e1 where rest: "pe_evaluate as ?e = (ds1, e1)" by (cases "pe_evaluate as ?e")
    have "e' = e1" using Cons.prems(2) Some rest by (simp add: Let_def)
    with Cons.IH [OF ok rest] show ?thesis by simp
  qed
qed simp

lemma pe_evaluate_spec:
  assumes "pe_evaluate as e = (ds, e')"
  shows "map (\<lambda>d. (pd_anomaly d, pd_rule d, pd_action d, pd_rate d)) ds =
      List.map_filter (\<lambda>a. map_option (\<lambda>r. (a, pr_name r, pr_action r, pr_rate r)) (first_rule (rules e) (ev_type a))) as \<and>
    (\<forall>n. hit_count e' n = hit_count e n + of_nat (length (filter (\<lambda>d. pd_rule d = n) ds)))"
  using assms
proof (induction as arbitrary: e ds e')
  case Nil
  then show ?case by (auto simp: map_filter_simps)
next
  case (Cons a as)
  show ?case
  proof (cases "first_rule (rules e) (ev_type a)")
    case None
    with Cons.prems have "pe_evaluate as e = (ds, e')" by simp
    from Cons.IH [OF this] None show ?thesis by (simp add: map_filter_simps)
  next
    case (Some r)
    let ?e = "e\<lparr> hit_counts := umap_assign (pr_name r) (hit_count e (pr_name r) + 1) (hit_counts e) \<rparr>"
    have hit: "hit_count ?e n = (if n = pr_name r then hit_count e n + 1 else hit_count e n)" for n
      by (simp add: hit_count_def)
    obtain ds1 e1 where rest: "pe_evaluate as ?e = (ds1, e1)" by (cases "pe_evaluate as ?e")
    with Cons.prems Some have ds: "e' = e1" "ds = \<lparr> pd_rule = pr_name r, pd_action = pr_action r,
        pd_anomaly = a, pd_hits = hit_count e (pr_name r) + 1, pd_rate = pr_rate r \<rparr> # ds1"
      by (simp_all add: Let_def)
    from Cons.IH [OF rest] show ?thesis
      by (simp add: ds map_filter_simps Some hit)
  qed
qed

section \<open>Reachable engines\<close>

inductive pe_reachable :: "policy_engine \<Rightarrow> bool" where
  pe_start: "pe_reachable pe_new"
| pe_set: "pe_reachable e \<Longrightarrow> pe_reachable (snd (set_rules rs e))"
| pe_add: "pe_reachable e \<Longrightarrow> pe_reachable (snd (add_rule r e))"
| pe_remove: "pe_reachable e \<Longrightarrow> pe_reachable (snd (remove_rule name e))"
| pe_enable: "pe_reachable e \<Longrightarrow> pe_reachable (snd (set_enabled name b e))"
| pe_eval: "pe_reachable e \<Longrightarrow> pe_reachable (snd (pe_evaluate as e))"
| pe_clear: "pe_reachable e \<Longrightarrow> pe_reachable (pe_reset e)"

lemma pe_reachable_ok: "pe_reachable e \<Longrightarrow> pe_ok e"
proof (induction rule: pe_reachable.induct)
  case (pe_eval e as)
  then show ?case using pe_evaluate_ok by (metis prod.collapse)
next
  case (pe_clear e)
  then show ?case by (auto simp: pe_ok_def pe_reset_def)
qed (auto intro: pe_ok_new pe_ok_set_rules pe_ok_add_rule pe_ok_remove_rule pe_ok_set_enabled)

text \<open>Every anomaly gets at most one decision, from the first enabled rule for its type, and the
  decisions come in the order of the anomalies. The hit counter of a rule grows by the number of
  decisions it made, every decision that limits a rate carries a positive rate, and evaluating
  leaves the rules alone.\<close>

theorem first_enabled_rule_decides:
  assumes "pe_reachable e" and "pe_evaluate anomalies e = (ds, e')"
  shows "map (\<lambda>d. (pd_anomaly d, pd_rule d, pd_action d, pd_rate d)) ds =
      List.map_filter (\<lambda>a. map_option (\<lambda>r. (a, pr_name r, pr_action r, pr_rate r))
        (List.find (\<lambda>r. pr_enabled r \<and> pr_type r = ev_type a) (rules e))) anomalies \<and>
    (\<forall>n. hit_count e' n = hit_count e n + of_nat (length (filter (\<lambda>d. pd_rule d = n) ds))) \<and>
    (\<forall>d \<in> set ds. pd_action d = RateLimit \<longrightarrow> pd_rate d \<noteq> 0) \<and> rules e' = rules e"
proof -
  have ok: "pe_ok e" by (rule pe_reachable_ok [OF assms(1)])
  note spec = pe_evaluate_spec [OF assms(2)]
  have "pd_action d = RateLimit \<longrightarrow> pd_rate d \<noteq> 0" if "d \<in> set ds" for d
  proof -
    have "(pd_anomaly d, pd_rule d, pd_action d, pd_rate d) \<in>
        set (map (\<lambda>d. (pd_anomaly d, pd_rule d, pd_action d, pd_rate d)) ds)"
      using that by simp
    then obtain r where "r \<in> set (rules e)" "pd_action d = pr_action r" "pd_rate d = pr_rate r"
      unfolding conjunct1 [OF spec] using first_rule_Some
      by (fastforce simp: List.map_filter_def)
    with ok show ?thesis by (auto simp: pe_ok_def rule_ok_def)
  qed
  then show ?thesis
    using spec pe_evaluate_ok [OF ok assms(2)] by (simp add: first_rule_def)
qed

definition example_rules :: "policy_rule list" where
  "example_rules =
     [\<lparr> pr_name = ''off'', pr_type = MalformedFrame, pr_action = Drop, pr_enabled = False, pr_rate = 0 \<rparr>,
      \<lparr> pr_name = ''runts'', pr_type = MalformedFrame, pr_action = Quarantine, pr_enabled = True, pr_rate = 0 \<rparr>]"

definition example_event :: anomaly_event where
  "example_event = \<lparr> ev_type = MalformedFrame, ev_source_mac = mac_zero, ev_source_ipv4 = 0,
     ev_ingress = 0, ev_packets = 9, ev_bytes = 90, ev_destinations = 0, ev_threshold = 4,
     ev_window_ns = 1000000000 \<rparr>"

theorem first_enabled_rule_decides_witness:
  "map pd_rule (fst (pe_evaluate [example_event] (snd (set_rules example_rules pe_new)))) = [''runts'']"
proof -
  have "pe_reachable (snd (set_rules example_rules pe_new))" by (intro pe_reachable.intros)
  from first_enabled_rule_decides [OF this, of "[example_event]"] show ?thesis
    by (simp add: set_rules_def example_rules_def pe_validate_def pe_new_def first_rule_def
        example_event_def Let_def)
qed

text \<open>A rule set is accepted exactly when the names are unique and not empty and every rate-limit rule
  has a rate; whatever is done to an engine afterwards, its rules stay that way, and a rule that
  is not there has no hits.\<close>

theorem policy_rules_stay_valid:
  assumes "pe_reachable e"
  shows "(fst (set_rules rs e) = Inr () \<longleftrightarrow>
      distinct (map pr_name rs) \<and>
      (\<forall>r \<in> set rs. pr_name r \<noteq> [] \<and> (pr_action r = RateLimit \<longrightarrow> pr_rate r \<noteq> 0))) \<and>
    distinct (map pr_name (rules e)) \<and>
    (\<forall>r \<in> set (rules e). pr_name r \<noteq> [] \<and> (pr_action r = RateLimit \<longrightarrow> pr_rate r \<noteq> 0)) \<and>
    (name \<notin> pr_name ` set (rules e) \<longrightarrow> hit_count e name = 0)"
proof -
  have "fst (set_rules rs e) = Inr () \<longleftrightarrow> check_rules rs {} = Inr ()"
    by (auto simp: set_rules_def split: sum.splits)
  moreover have "hit_count e name = 0" if "name \<notin> pr_name ` set (rules e)"
  proof -
    have "map_of (hit_counts e) name = None"
      using that pe_reachable_ok [OF assms] by (auto simp: pe_ok_def map_of_eq_None_iff)
    then show ?thesis by (simp add: hit_count_def)
  qed
  ultimately show ?thesis
    using pe_reachable_ok [OF assms] by (auto simp: check_rules_iff pe_ok_def rule_ok_def)
qed

theorem policy_rules_stay_valid_witness:
  "fst (set_rules (example_rules @ example_rules) pe_new) \<noteq> Inr () \<and> fst (set_rules example_rules pe_new) = Inr ()"
  using policy_rules_stay_valid [OF pe_start, of "example_rules @ example_rules"]
    policy_rules_stay_valid [OF pe_start, of example_rules]
  by (auto simp: example_rules_def)

end
