(* ===== verification/Topology.thy ===== *)
theory Topology
  imports Prelude
begin

text \<open>
  Topologies, \<^verbatim>\<open>include/wirelab/topology.hpp\<close> and \<^verbatim>\<open>src/topology.cpp\<close>: the configuration of
  hosts, one switch and links, and \<open>Topology::create\<close>, which validates it. The two loops of
  \<open>create\<close> are recursive functions that stop at the first error. \<open>topology_wf\<close> is the
  declarative description of a valid configuration; \<open>create\<close> accepts exactly those.
\<close>

section \<open>Data\<close>

datatype topology_node_type = Host | Switch

datatype topology_validation_error =
    MissingName | MissingNodes | MissingNodeId | DuplicateNodeId | MissingSwitch | MultipleSwitches
  | UnknownLinkEndpoint | SelfLink | DuplicateLink | InvalidLinkShape | NegativeLatency

record topology_node =
  node_id :: string
  node_type :: topology_node_type

text \<open>The latency of a link is in milliseconds.\<close>

record topology_link =
  link_from :: string
  link_to :: string
  link_latency_ms :: int

record topology_configuration =
  topo_name :: string
  topo_nodes :: "topology_node list"
  topo_links :: "topology_link list"

record topology =
  topo_configuration :: topology_configuration
  switch_index :: nat

definition nodes :: "topology \<Rightarrow> topology_node list" where
  "nodes t = topo_nodes (topo_configuration t)"

definition links :: "topology \<Rightarrow> topology_link list" where
  "links t = topo_links (topo_configuration t)"

definition port_count :: "topology \<Rightarrow> nat" where
  "port_count t = length (links t)"

text \<open>\<open>switch_node()\<close> reads \<open>nodes[switch_index_]\<close>; \<open>None\<close> is an index out of range.\<close>

definition switch_node :: "topology \<Rightarrow> topology_node option" where
  "switch_node t = (if switch_index t < length (nodes t) then Some (nodes t ! switch_index t) else None)"

text \<open>The texts of the enumerators, \<open>to_string\<close>.\<close>

definition node_type_text :: "topology_node_type \<Rightarrow> string" where
  "node_type_text t = (case t of Host \<Rightarrow> ''host'' | Switch \<Rightarrow> ''switch'')"

definition validation_error_text :: "topology_validation_error \<Rightarrow> string" where
  "validation_error_text e =
     (case e of
        MissingName \<Rightarrow> ''topology name is required''
      | MissingNodes \<Rightarrow> ''topology requires at least one node''
      | MissingNodeId \<Rightarrow> ''topology node id is required''
      | DuplicateNodeId \<Rightarrow> ''topology node ids must be unique''
      | MissingSwitch \<Rightarrow> ''topology requires exactly one switch''
      | MultipleSwitches \<Rightarrow> ''topology requires exactly one switch''
      | UnknownLinkEndpoint \<Rightarrow> ''topology link endpoint does not exist''
      | SelfLink \<Rightarrow> ''topology link cannot connect a node to itself''
      | DuplicateLink \<Rightarrow> ''topology links must be unique''
      | InvalidLinkShape \<Rightarrow> ''topology links must connect the switch to a host''
      | NegativeLatency \<Rightarrow> ''topology link latency cannot be negative'')"

section \<open>Validation\<close>

definition link_key :: "string \<Rightarrow> string \<Rightarrow> string" where
  "link_key first second =
     (if first < second then first @ CHR 0x00 # second else second @ CHR 0x00 # first)"

text \<open>The loop over the nodes: \<open>ids\<close> are the identifiers seen, \<open>cnt\<close> counts the switches seen, and
  \<open>switch_at\<close> the index of the last one.\<close>

fun check_nodes ::
    "nat \<Rightarrow> topology_node list \<Rightarrow> string set \<Rightarrow> nat \<Rightarrow> nat
      \<Rightarrow> topology_validation_error + string set \<times> nat \<times> nat" where
  "check_nodes index [] ids cnt switch_at = Inr (ids, cnt, switch_at)"
| "check_nodes index (node # rest) ids cnt switch_at =
     (if node_id node = [] then Inl MissingNodeId
      else if node_id node \<in> ids then Inl DuplicateNodeId
      else if node_type node = Switch
      then check_nodes (Suc index) rest (insert (node_id node) ids) (Suc cnt) index
      else check_nodes (Suc index) rest (insert (node_id node) ids) cnt switch_at)"

fun check_links ::
    "string set \<Rightarrow> string \<Rightarrow> topology_link list \<Rightarrow> string set \<Rightarrow> topology_validation_error + unit" where
  "check_links ids switch_id [] keys = Inr ()"
| "check_links ids switch_id (link # rest) keys =
     (if link_from link = link_to link then Inl SelfLink
      else if link_from link \<notin> ids \<or> link_to link \<notin> ids then Inl UnknownLinkEndpoint
      else if link_key (link_from link) (link_to link) \<in> keys then Inl DuplicateLink
      else if link_latency_ms link < 0 then Inl NegativeLatency
      else if (link_from link = switch_id) = (link_to link = switch_id) then Inl InvalidLinkShape
      else check_links ids switch_id rest (insert (link_key (link_from link) (link_to link)) keys))"

definition topology_create :: "topology_configuration \<Rightarrow> topology_validation_error + topology" where
  "topology_create c =
     (if topo_name c = [] then Inl MissingName
      else if topo_nodes c = [] then Inl MissingNodes
      else
        (case check_nodes 0 (topo_nodes c) {} 0 0 of
           Inl e \<Rightarrow> Inl e
         | Inr (ids, cnt, switch_at) \<Rightarrow>
             if cnt = 0 then Inl MissingSwitch
             else if cnt > 1 then Inl MultipleSwitches
             else
               (case check_links ids (node_id (topo_nodes c ! switch_at)) (topo_links c) {} of
                  Inl e \<Rightarrow> Inl e
                | Inr _ \<Rightarrow> Inr \<lparr> topo_configuration = c, switch_index = switch_at \<rparr>)))"

section \<open>What a valid configuration is\<close>

definition switches :: "topology_node list \<Rightarrow> nat list" where
  "switches ns = filter (\<lambda>i. node_type (ns ! i) = Switch) [0..<length ns]"

definition link_ok :: "string set \<Rightarrow> string \<Rightarrow> topology_link \<Rightarrow> bool" where
  "link_ok ids switch_id l \<longleftrightarrow>
     link_from l \<in> ids \<and> link_to l \<in> ids \<and> link_from l \<noteq> link_to l \<and> 0 \<le> link_latency_ms l
     \<and> (link_from l = switch_id) \<noteq> (link_to l = switch_id)"

definition topology_wf :: "topology_configuration \<Rightarrow> nat \<Rightarrow> bool" where
  "topology_wf c i \<longleftrightarrow>
     topo_name c \<noteq> [] \<and> (\<forall>n \<in> set (topo_nodes c). node_id n \<noteq> []) \<and> distinct (map node_id (topo_nodes c))
     \<and> switches (topo_nodes c) = [i]
     \<and> (\<forall>l \<in> set (topo_links c). link_ok (node_id ` set (topo_nodes c)) (node_id (topo_nodes c ! i)) l)
     \<and> distinct (map (\<lambda>l. link_key (link_from l) (link_to l)) (topo_links c))"

section \<open>Lemmas\<close>

definition switches_from :: "nat \<Rightarrow> topology_node list \<Rightarrow> nat list" where
  "switches_from k ns = map ((+) k) (switches ns)"

lemma switches_from_Cons:
  "switches_from k (n # ns) =
    (if node_type n = Switch then [k] else []) @ switches_from (Suc k) ns"
proof -
  have "[0..<length (n # ns)] = 0 # map Suc [0..<length ns]"
    by (simp add: map_Suc_upt upt_conv_Cons del: upt_Suc)
  then have "switches (n # ns) = (if node_type n = Switch then [0] else []) @ map Suc (switches ns)"
    by (simp add: switches_def filter_map o_def del: upt_Suc)
  then show ?thesis by (simp add: switches_from_def)
qed

lemma switches_from_Nil [simp]: "switches_from k [] = []"
  by (simp add: switches_from_def switches_def)

lemma switches_from_0: "switches_from 0 ns = switches ns"
  by (simp add: switches_from_def map_idI)

lemma check_nodes_Inr:
  "check_nodes k ns ids cnt at = Inr (ids', cnt', at') \<longleftrightarrow>
    (\<forall>n \<in> set ns. node_id n \<noteq> []) \<and> distinct (map node_id ns) \<and> ids \<inter> node_id ` set ns = {}
    \<and> ids' = ids \<union> node_id ` set ns \<and> cnt' = cnt + length (switches_from k ns)
    \<and> at' = (if switches_from k ns = [] then at else last (switches_from k ns))"
  by (induction k ns ids cnt at rule: check_nodes.induct) (auto simp: switches_from_Cons)

lemma check_links_Inr:
  "check_links ids sw ls keys = Inr () \<longleftrightarrow>
    (\<forall>l \<in> set ls. link_ok ids sw l) \<and> distinct (map (\<lambda>l. link_key (link_from l) (link_to l)) ls)
    \<and> keys \<inter> (\<lambda>l. link_key (link_from l) (link_to l)) ` set ls = {}"
  by (induction ids sw ls keys rule: check_links.induct) (auto simp: link_ok_def)

lemma switches_index: "i \<in> set (switches ns) \<longleftrightarrow> i < length ns \<and> node_type (ns ! i) = Switch"
  by (auto simp: switches_def)

lemma topology_create_Inr:
  "topology_create c = Inr t \<longleftrightarrow>
    (\<exists>i. topology_wf c i \<and> t = \<lparr> topo_configuration = c, switch_index = i \<rparr>)"
proof
  assume ok: "topology_create c = Inr t"
  then obtain ids cnt at where n: "check_nodes 0 (topo_nodes c) {} 0 0 = Inr (ids, cnt, at)"
    and one: "cnt = 1"
    and l: "check_links ids (node_id (topo_nodes c ! at)) (topo_links c) {} = Inr ()"
    and t: "t = \<lparr> topo_configuration = c, switch_index = at \<rparr>" and "topo_name c \<noteq> []"
    by (auto simp: topology_create_def split: if_splits sum.splits)
  from n one have "length (switches (topo_nodes c)) = 1"
    and "at = (if switches (topo_nodes c) = [] then 0 else last (switches (topo_nodes c)))"
    by (auto simp: check_nodes_Inr switches_from_0)
  then have "switches (topo_nodes c) = [at]"
    by (cases "switches (topo_nodes c)") auto
  with n l t \<open>topo_name c \<noteq> []\<close> show "\<exists>i. topology_wf c i \<and> t = \<lparr> topo_configuration = c, switch_index = i \<rparr>"
    by (auto simp: topology_wf_def check_nodes_Inr check_links_Inr)
next
  assume "\<exists>i. topology_wf c i \<and> t = \<lparr> topo_configuration = c, switch_index = i \<rparr>"
  then obtain i where wf: "topology_wf c i" and t: "t = \<lparr> topo_configuration = c, switch_index = i \<rparr>" by blast
  have "check_nodes 0 (topo_nodes c) {} 0 0 = Inr (node_id ` set (topo_nodes c), 1, i)"
    using wf by (simp add: check_nodes_Inr switches_from_0 topology_wf_def)
  moreover have "topo_nodes c \<noteq> []"
    using wf by (auto simp: topology_wf_def switches_def)
  moreover have "check_links (node_id ` set (topo_nodes c)) (node_id (topo_nodes c ! i)) (topo_links c) {} = Inr ()"
    using wf by (simp add: check_links_Inr topology_wf_def)
  ultimately show "topology_create c = Inr t"
    using wf t by (simp add: topology_create_def topology_wf_def)
qed

text \<open>Without NUL characters in the identifiers, a link key stands for the unordered pair.\<close>

lemma append_sep_inject:
  assumes "z \<notin> set a" and "z \<notin> set c" and "a @ z # b = c @ z # d"
  shows "a = c \<and> b = d"
  using assms
proof (induction a arbitrary: c)
  case Nil
  then show ?case by (cases c) auto
next
  case (Cons x a)
  then show ?case by (cases c) auto
qed

lemma link_key_parts:
  obtains x y where "{a, b} = {x, y}" and "link_key a b = x @ CHR 0x00 # y"
  unfolding link_key_def by (metis insert_commute)

lemma link_key_eq_iff:
  assumes "CHR 0x00 \<notin> set a \<union> set b \<union> set c \<union> set d"
  shows "link_key a b = link_key c d \<longleftrightarrow> {a, b} = {c, d}"
proof
  assume eq: "link_key a b = link_key c d"
  obtain x y where xy: "{a, b} = {x, y}" "link_key a b = x @ CHR 0x00 # y" by (rule link_key_parts)
  obtain u v where uv: "{c, d} = {u, v}" "link_key c d = u @ CHR 0x00 # v" by (rule link_key_parts)
  have "x \<in> {a, b}" "u \<in> {c, d}" using xy(1) uv(1) by auto
  then have "CHR 0x00 \<notin> set x" "CHR 0x00 \<notin> set u" using assms by auto
  then have "x = u \<and> y = v"
    using append_sep_inject [of "CHR 0x00" x u y v] eq xy(2) uv(2) by simp
  with xy(1) uv(1) show "{a, b} = {c, d}" by simp
next
  assume "{a, b} = {c, d}"
  then consider "a = c" "b = d" | "a = d" "b = c" by (auto simp: doubleton_eq_iff)
  then show "link_key a b = link_key c d"
    by cases (auto simp: link_key_def)
qed

section \<open>Properties\<close>

text \<open>\<open>Topology::create\<close> accepts exactly the well-formed configurations: a name, non-empty and
  pairwise different identifiers, one switch, and links without negative latency that each join
  the switch with a declared host and have different keys. The accepted topology is the given
  configuration, and its switch index is the index of that one switch.\<close>

theorem topology_create_iff:
  "(\<exists>t. topology_create c = Inr t \<and> topo_configuration t = c \<and> switch_index t = i) \<longleftrightarrow> topology_wf c i"
  by (metis topology_create_Inr topology.select_convs(1,2))

text \<open>In an accepted topology whose identifiers contain no NUL character the links form a
  star without parallel links: every link joins the switch with a host, and no two links join the
  same pair, whatever their directions.\<close>

theorem topology_star:
  assumes "topology_create c = Inr t"
    and nul: "\<forall>n \<in> set (nodes t). CHR 0x00 \<notin> set (node_id n)"
    and "i < j" "j < length (links t)"
  shows "{link_from (links t ! i), link_to (links t ! i)} \<noteq> {link_from (links t ! j), link_to (links t ! j)}
    \<and> (\<exists>s h. switch_node t = Some s \<and> h \<in> set (nodes t) \<and> node_type s = Switch \<and> node_type h = Host
        \<and> {link_from (links t ! i), link_to (links t ! i)} = {node_id s, node_id h})"
proof -
  obtain k where wf: "topology_wf c k" and t: "t = \<lparr> topo_configuration = c, switch_index = k \<rparr>"
    using assms(1) by (auto simp: topology_create_Inr)
  let ?s = "nodes t ! k"
  let ?key = "\<lambda>l. link_key (link_from l) (link_to l)"
  have k: "k < length (nodes t)" "node_type ?s = Switch"
    and only: "\<And>m. m < length (nodes t) \<Longrightarrow> node_type (nodes t ! m) = Switch \<Longrightarrow> m = k"
    using wf switches_index [of _ "nodes t"] by (auto simp: topology_wf_def t nodes_def)
  have ok: "\<And>l. l \<in> set (links t) \<Longrightarrow> link_ok (node_id ` set (nodes t)) (node_id ?s) l"
    using wf by (auto simp: topology_wf_def t nodes_def links_def)
  have clean: "CHR 0x00 \<notin> set (link_from l) \<union> set (link_to l)" if "l \<in> set (links t)" for l
    using ok [OF that] nul by (auto simp: link_ok_def)
  have "distinct (map ?key (links t))"
    using wf by (simp add: topology_wf_def t links_def)
  then have "?key (links t ! i) \<noteq> ?key (links t ! j)"
    using assms(3,4) by (auto simp: distinct_conv_nth)
  then have diff: "{link_from (links t ! i), link_to (links t ! i)} \<noteq> {link_from (links t ! j), link_to (links t ! j)}"
    using clean [of "links t ! i"] clean [of "links t ! j"] assms(3,4)
    by (subst (asm) link_key_eq_iff) auto
  have pair: "\<exists>h \<in> set (nodes t). node_id h \<noteq> node_id ?s \<and> {link_from l, link_to l} = {node_id ?s, node_id h}"
    if "link_ok (node_id ` set (nodes t)) (node_id ?s) l" for l
  proof (cases "link_from l = node_id ?s")
    case True
    with that obtain h where "h \<in> set (nodes t)" "node_id h = link_to l" "link_to l \<noteq> node_id ?s"
      by (auto simp: link_ok_def)
    with True show ?thesis by (intro bexI [of _ h]) auto
  next
    case False
    with that obtain h where "h \<in> set (nodes t)" "node_id h = link_from l" "link_to l = node_id ?s"
      by (auto simp: link_ok_def)
    with False show ?thesis by (intro bexI [of _ h]) auto
  qed
  have "links t ! i \<in> set (links t)" using assms(3,4) by simp
  from pair [OF ok [OF this]] obtain h where h: "h \<in> set (nodes t)" "node_id h \<noteq> node_id ?s"
    "{link_from (links t ! i), link_to (links t ! i)} = {node_id ?s, node_id h}"
    by (rule bexE) (elim conjE, rule that)
  obtain m where m: "m < length (nodes t)" "nodes t ! m = h"
    using h(1) by (auto simp: in_set_conv_nth)
  have "node_type h \<noteq> Switch"
    using only [OF m(1)] m(2) h(2) by auto
  then have host: "node_type h = Host" by (cases "node_type h") auto
  have sw: "switch_node t = Some ?s"
    using k(1) by (simp add: switch_node_def t)
  show ?thesis
    by (intro conjI exI [of _ ?s] exI [of _ h]) (fact diff sw h(1) k(2) host h(3))+
qed

definition example_topology :: topology_configuration where
  "example_topology = \<lparr> topo_name = ''lab'',
     topo_nodes = [\<lparr> node_id = ''h1'', node_type = Host \<rparr>, \<lparr> node_id = ''sw'', node_type = Switch \<rparr>,
                   \<lparr> node_id = ''h2'', node_type = Host \<rparr>],
     topo_links = [\<lparr> link_from = ''h1'', link_to = ''sw'', link_latency_ms = 2 \<rparr>,
                   \<lparr> link_from = ''sw'', link_to = ''h2'', link_latency_ms = 0 \<rparr>] \<rparr>"

lemma example_topology_create:
  "topology_create example_topology = Inr \<lparr> topo_configuration = example_topology, switch_index = 1 \<rparr>"
  by (simp add: example_topology_def topology_create_def link_key_def)

theorem topology_star_witness:
  "{''h1'', ''sw''} \<noteq> {''sw'', ''h2''} \<and> {''h1'', ''sw''} = {''sw'', ''h1''}"
proof -
  let ?t = "\<lparr> topo_configuration = example_topology, switch_index = 1 \<rparr>"
  have "{link_from (links ?t ! 0), link_to (links ?t ! 0)} \<noteq> {link_from (links ?t ! 1), link_to (links ?t ! 1)}"
    by (rule topology_star [OF example_topology_create, THEN conjunct1])
      (auto simp: example_topology_def nodes_def links_def)
  then show ?thesis by (auto simp: links_def example_topology_def)
qed

end
