(* ===== verification/Fault_Engine.thy ===== *)
theory Fault_Engine
  imports Prelude
begin

text \<open>
  The fault engine, \<^verbatim>\<open>include/wirelab/fault_engine.hpp\<close> and \<^verbatim>\<open>src/fault_engine.cpp\<close>: the
  configurations keyed by target, the splitmix64 stream each target draws from, and
  \<open>evaluate\<close>, which decides for one frame whether it is dropped, duplicated, delayed or paced.
  The engine is a record with the states as an unordered map; \<open>evaluate\<close> returns the decision
  and the engine with the advanced stream.

  The locale \<open>fault_store\<close> is the contract of a keyed store of faults, with the lemmas about
  saving and restoring a fault that the policy enforcer needs.
\<close>

section \<open>Data\<close>

datatype fault_configuration_error =
  MissingTarget | NegativeFaultLatency | InvalidLossPercentage | InvalidDuplicationPercentage

definition fault_error_text :: "fault_configuration_error \<Rightarrow> string" where
  "fault_error_text e =
     (case e of
        MissingTarget \<Rightarrow> ''missing target''
      | NegativeFaultLatency \<Rightarrow> ''latency and jitter must be non-negative''
      | InvalidLossPercentage \<Rightarrow> ''loss must not exceed 100 percent''
      | InvalidDuplicationPercentage \<Rightarrow> ''duplication must not exceed 100 percent'')"

record fault_configuration =
  latency :: int
  jitter :: int
  loss_basis_points :: u32
  duplication_basis_points :: u32
  bandwidth_bits_per_second :: u64
  blackhole :: bool
  isolated :: bool

definition no_fault :: fault_configuration where
  "no_fault = \<lparr> latency = 0, jitter = 0, loss_basis_points = 0, duplication_basis_points = 0,
     bandwidth_bits_per_second = 0, blackhole = False, isolated = False \<rparr>"

text \<open>\<open>delivery_times\<close> is a \<open>std::array\<close> of two time points; the entries from
  \<open>delivery_count\<close> on keep the default value, the clock's epoch.\<close>

record fault_decision =
  dropped :: bool
  delivery_count :: nat
  delivery_times :: "int list"

record fault_state =
  configuration :: fault_configuration
  random_state :: u64
  next_transmit_time :: int

record fault_engine =
  seed :: u64
  states :: "(string \<times> fault_state) list"

definition fe_new :: "u64 \<Rightarrow> fault_engine" where
  "fe_new s = \<lparr> seed = s, states = [] \<rparr>"

definition BASIS_POINTS :: nat where "BASIS_POINTS = 10000"
definition NANOSECONDS_PER_SECOND :: u64 where "NANOSECONDS_PER_SECOND = 1000000000"
definition FNV_OFFSET_BASIS :: u64 where "FNV_OFFSET_BASIS = 14695981039346656037"
definition FNV_PRIME :: u64 where "FNV_PRIME = 1099511628211"

section \<open>Random stream and pacing\<close>

text \<open>FNV-1a over the target, started from the seed.\<close>

definition target_seed :: "u64 \<Rightarrow> string \<Rightarrow> u64" where
  "target_seed s target =
     foldl (\<lambda>hash c. (hash XOR word_of_nat (of_char c)) * FNV_PRIME) (FNV_OFFSET_BASIS XOR s) target"

text \<open>splitmix64: the drawn value and the advanced state.\<close>

definition next_random :: "u64 \<Rightarrow> u64 \<times> u64" where
  "next_random st =
     (let st = st + 0x9E3779B97F4A7C15;
          v = st;
          v = (v XOR drop_bit 30 v) * 0xBF58476D1CE4E5B9;
          v = (v XOR drop_bit 27 v) * 0x94D049BB133111EB
      in (v XOR drop_bit 31 v, st))"

definition bounded_random :: "u64 \<Rightarrow> u64 \<Rightarrow> u64 \<times> u64" where
  "bounded_random st upper_inclusive =
     (if upper_inclusive = 0 then (0, st)
      else let (v, st') = next_random st in (v mod (upper_inclusive + 1), st'))"

text \<open>The draw that is compared with a share in basis points.\<close>

definition basis_draw :: "u64 \<Rightarrow> u64 \<times> u64" where
  "basis_draw st = bounded_random st (word_of_nat (BASIS_POINTS - 1))"

definition nanoseconds_max :: int where "nanoseconds_max = 2 ^ 63 - 1"

definition transmission_time :: "nat \<Rightarrow> u64 \<Rightarrow> int" where
  "transmission_time frame_bytes bits_per_second =
     (let bits = (word_of_nat frame_bytes :: u64) * 8 in
      if bits = 0 then 0
      else
        let seconds = bits div bits_per_second;
            remainder = bits mod bits_per_second
        in if seconds > u64_max div NANOSECONDS_PER_SECOND then nanoseconds_max
           else
             let nanoseconds = seconds * NANOSECONDS_PER_SECOND
                   + (remainder * NANOSECONDS_PER_SECOND + bits_per_second - 1) div bits_per_second
             in if uint nanoseconds > nanoseconds_max then nanoseconds_max else uint nanoseconds)"

section \<open>Operations\<close>

definition fc_validate :: "string \<Rightarrow> fault_configuration \<Rightarrow> fault_configuration_error + unit" where
  "fc_validate target c =
     (if target = [] then Inl MissingTarget
      else if latency c < 0 \<or> jitter c < 0 then Inl NegativeFaultLatency
      else if unat (loss_basis_points c) > BASIS_POINTS then Inl InvalidLossPercentage
      else if unat (duplication_basis_points c) > BASIS_POINTS then Inl InvalidDuplicationPercentage
      else Inr ())"

definition set_fault ::
    "string \<Rightarrow> fault_configuration \<Rightarrow> fault_engine \<Rightarrow> fault_configuration_error + fault_engine" where
  "set_fault target c e =
     (case fc_validate target c of
        Inl err \<Rightarrow> Inl err
      | Inr _ \<Rightarrow>
          Inr (e\<lparr> states := umap_assign target
                   \<lparr> configuration = c, random_state = target_seed (seed e) target, next_transmit_time = 0 \<rparr>
                   (states e) \<rparr>))"

definition clear_fault :: "string \<Rightarrow> fault_engine \<Rightarrow> bool \<times> fault_engine" where
  "clear_fault target e =
     (map_of (states e) target \<noteq> None, e\<lparr> states := umap_erase target (states e) \<rparr>)"

definition has_fault :: "fault_engine \<Rightarrow> string \<Rightarrow> bool" where
  "has_fault e target \<longleftrightarrow> map_of (states e) target \<noteq> None"

definition fault_for :: "fault_engine \<Rightarrow> string \<Rightarrow> fault_configuration option" where
  "fault_for e target = map_option configuration (map_of (states e) target)"

definition fe_active_faults :: "fault_engine \<Rightarrow> (string \<times> fault_configuration) list" where
  "fe_active_faults e =
     std_sort (\<lambda>l r. fst l < fst r) (map (\<lambda>(t, st). (t, configuration st)) (states e))"

text \<open>The loop that fills \<open>delivery_times\<close>: \<open>n\<close> copies remain, \<open>earliest\<close> is the earliest
  delivery, \<open>ntt\<close> the next transmit time. It returns the times and the new next transmit time.\<close>

fun schedule_copies :: "nat \<Rightarrow> int \<Rightarrow> u64 \<Rightarrow> nat \<Rightarrow> int \<Rightarrow> int list \<times> int" where
  "schedule_copies frame_bytes earliest bandwidth 0 ntt = ([], ntt)"
| "schedule_copies frame_bytes earliest bandwidth (Suc n) ntt =
     (let (time, ntt') =
            (if bandwidth \<noteq> 0
             then (max earliest ntt, max earliest ntt + transmission_time frame_bytes bandwidth)
             else (earliest, ntt));
          (times, ntt'') = schedule_copies frame_bytes earliest bandwidth n ntt'
      in (time # times, ntt''))"

text \<open>The decision for a target that has a fault, with the advanced state. The random draws
  happen in the order of the code, and not at all for a black-holed or isolated target.\<close>

definition drop_decision :: fault_decision where
  "drop_decision = \<lparr> dropped = True, delivery_count = 0, delivery_times = [0, 0] \<rparr>"

definition evaluate_state :: "nat \<Rightarrow> int \<Rightarrow> fault_state \<Rightarrow> fault_decision \<times> fault_state" where
  "evaluate_state frame_bytes arrival st =
     (let c = configuration st in
      if blackhole c \<or> isolated c then (drop_decision, st)
      else
        let (loss_draw, r1) = basis_draw (random_state st) in
        if loss_draw < ucast (loss_basis_points c) then (drop_decision, st\<lparr> random_state := r1 \<rparr>)
        else
          let (dup_draw, r2) = basis_draw r1;
              count = (if dup_draw < ucast (duplication_basis_points c) then 2 else 1);
              (jitter_draw, r3) = bounded_random r2 (word_of_int (jitter c));
              earliest = arrival + latency c + sint jitter_draw;
              (times, ntt) =
                schedule_copies frame_bytes earliest (bandwidth_bits_per_second c) count (next_transmit_time st)
          in (\<lparr> dropped = False, delivery_count = count, delivery_times = take 2 (times @ [0, 0]) \<rparr>,
              st\<lparr> random_state := r3, next_transmit_time := ntt \<rparr>))"

definition evaluate :: "string \<Rightarrow> nat \<Rightarrow> int \<Rightarrow> fault_engine \<Rightarrow> fault_decision \<times> fault_engine" where
  "evaluate target frame_bytes arrival e =
     (case map_of (states e) target of
        None \<Rightarrow> (\<lparr> dropped = False, delivery_count = 1, delivery_times = [arrival, 0] \<rparr>, e)
      | Some st \<Rightarrow>
          (let (d, st') = evaluate_state frame_bytes arrival st
           in (d, e\<lparr> states := umap_assign target st' (states e) \<rparr>)))"

section \<open>Random draws and transmission times\<close>

lemma bounded_random_le:
  assumes "u \<noteq> u64_max"
  shows "fst (bounded_random st u) \<le> u"
proof (cases "u = 0")
  case False
  obtain v st' where v: "next_random st = (v, st')" by fastforce
  have "u + 1 \<noteq> 0" using assms by (metis add_eq_0_iff2)
  then have "0 < u + 1" by (simp add: word_gt_0)
  then have "v mod (u + 1) < u + 1" by (rule word_mod_less_divisor)
  then have "v mod (u + 1) \<le> u" by (simp add: word_less_nat_alt word_le_nat_alt unat_plus_if' split: if_splits)
  with v False show ?thesis by (simp add: bounded_random_def)
qed (simp add: bounded_random_def)

lemma bounded_random_basis_points:
  "unat (fst (basis_draw st)) < 10000"
proof -
  have "(word_of_nat (BASIS_POINTS - 1) :: u64) = 9999" by (simp add: BASIS_POINTS_def)
  moreover have "fst (bounded_random st 9999) \<le> 9999" by (rule bounded_random_le) simp
  ultimately show ?thesis by (simp add: basis_draw_def word_le_nat_alt)
qed

text \<open>A jitter draw is a duration between zero and the configured jitter.\<close>

lemma jitter_draw_bounds:
  assumes "0 \<le> j" and "j \<le> nanoseconds_max"
  shows "0 \<le> sint (fst (bounded_random st (word_of_int j)))"
    and "sint (fst (bounded_random st (word_of_int j))) \<le> j"
proof -
  define w :: u64 where "w = word_of_int j"
  define r where "r = fst (bounded_random st w)"
  have uw: "uint w = j"
    using assms by (simp add: w_def nanoseconds_max_def unsigned_of_int take_bit_int_eq_self)
  then have "w \<noteq> u64_max"
    using assms by (auto simp: nanoseconds_max_def uint_u64_max)
  then have "uint r \<le> j"
    using bounded_random_le [of w st] uw by (simp add: r_def word_le_def)
  moreover from this have "sint r = uint r"
    using assms by (simp add: sint_eq_uint_small nanoseconds_max_def)
  ultimately show "0 \<le> sint (fst (bounded_random st (word_of_int j)))"
    and "sint (fst (bounded_random st (word_of_int j))) \<le> j"
    by (simp_all add: r_def w_def)
qed

lemma transmission_time_nonneg [simp]: "0 \<le> transmission_time n b"
  by (simp add: transmission_time_def Let_def nanoseconds_max_def)

lemma transmission_time_le_max: "transmission_time n b \<le> nanoseconds_max"
  by (simp add: transmission_time_def Let_def nanoseconds_max_def)

lemma ceil_div_split:
  fixes x b :: nat
  assumes "0 < b"
  shows "(x div b) * k + ((x mod b) * k + b - 1) div b = (x * k + b - 1) div b"
proof -
  have "x * k = (x mod b) * k + b * ((x div b) * k)"
    by (metis add.commute distrib_right mult.assoc mult_div_mod_eq)
  then have "x * k + b - 1 = ((x mod b) * k + b - 1) + b * ((x div b) * k)"
    using assms by simp
  then have "(x * k + b - 1) div b = (((x mod b) * k + b - 1) + b * ((x div b) * k)) div b"
    by (simp only:)
  also have "\<dots> = (x div b) * k + ((x mod b) * k + b - 1) div b"
    using assms by (simp only: div_mult_self2)
  finally show ?thesis by simp
qed

lemma ceil_div_le:
  fixes x b :: nat
  assumes "0 < b"
  shows "(x + b - 1) div b \<le> x"
proof (cases x)
  case 0
  then show ?thesis using assms by simp
next
  case (Suc y)
  have "(y + b) div b = y div b + 1" using assms by (simp add: div_add_self2)
  also have "\<dots> \<le> y + 1" by (simp add: div_le_dividend)
  finally show ?thesis by (simp add: Suc)
qed

text \<open>Where nothing wraps (frames below a gigabyte, rates up to half of the 64-bit range), the
  transmission time of a frame is exactly its bit count over the rate, in nanoseconds, rounded up.\<close>

theorem transmission_time_exact:
  assumes b: "0 < unat b" "unat b \<le> 2 ^ 63" and n: "n * 8 * 1000000000 < 2 ^ 63"
  shows "transmission_time n b = int ((n * 8 * 1000000000 + unat b - 1) div unat b)"
proof (cases "n = 0")
  case True
  then show ?thesis using b by (simp add: transmission_time_def)
next
  case False
  define bits where "bits = (word_of_nat n :: u64) * 8"
  have n_small: "n * 8 < 2 ^ 64" using n by simp
  have ubits: "unat bits = n * 8"
    using n_small by (simp add: bits_def unat_word_ariths unsigned_of_nat take_bit_nat_eq_self)
  define q r where "q = unat bits div unat b" and "r = unat bits mod unat b"
  define qw rw where "qw = bits div b" and "rw = bits mod b"
  have qr: "unat qw = q" "unat rw = r"
    by (simp_all add: q_def r_def qw_def rw_def unat_div unat_mod)
  have q_le: "q \<le> n * 8" and r_le: "r \<le> n * 8"
    by (simp_all add: q_def r_def ubits)
  have ns: "unat NANOSECONDS_PER_SECOND = 1000000000" by (simp add: NANOSECONDS_PER_SECOND_def)
  define X where "X = (n * 8 * 1000000000 + unat b - 1) div unat b"
  have X_le: "X \<le> n * 8 * 1000000000" unfolding X_def using b(1) by (rule ceil_div_le)
  have sum: "q * 1000000000 + (r * 1000000000 + unat b - 1) div unat b = X"
    unfolding X_def q_def r_def ubits using b(1) by (rule ceil_div_split)
  have num: "unat (rw * NANOSECONDS_PER_SECOND + b - 1) = r * 1000000000 + unat b - 1"
  proof -
    have lt: "r * 1000000000 + unat b < 2 ^ 64" using r_le n b by simp
    have "unat (rw * NANOSECONDS_PER_SECOND + b) = r * 1000000000 + unat b"
      using lt by (simp add: unat_word_ariths(1,2) qr ns)
    moreover from this have "1 \<le> rw * NANOSECONDS_PER_SECOND + b"
      using b by (simp add: word_le_nat_alt)
    ultimately show ?thesis by (simp add: unat_sub)
  qed
  have total: "unat (qw * NANOSECONDS_PER_SECOND
      + (rw * NANOSECONDS_PER_SECOND + b - 1) div b) = X"
  proof -
    have "unat (qw * NANOSECONDS_PER_SECOND) = q * 1000000000"
      using q_le n by (simp add: unat_word_ariths(2) qr ns)
    moreover have "X < 2 ^ 64" using X_le n by simp
    ultimately show ?thesis
      using sum by (simp add: unat_word_ariths(1) unat_div num)
  qed
  have not_big: "\<not> qw > u64_max div NANOSECONDS_PER_SECOND"
    using q_le n by (simp add: word_less_nat_alt qr unat_div ns unat_u64_max)
  have "bits \<noteq> 0" using ubits False by auto
  moreover have "\<not> int X > nanoseconds_max"
    using X_le n by (simp add: nanoseconds_max_def)
  ultimately show ?thesis
    unfolding transmission_time_def Let_def X_def [symmetric]
    using not_big total by (simp add: uint_nat flip: bits_def qw_def rw_def)
qed

theorem transmission_time_exact_witness:
  "transmission_time 1500 1000000 = 12000000 \<and> transmission_time 1 3000000000 = 3"
  using transmission_time_exact [of "1000000" 1500] transmission_time_exact [of "3000000000" 1] by simp

section \<open>What \<open>evaluate\<close> decides\<close>

text \<open>The range of a stored configuration: what \<open>validate\<close> checks and what a 64-bit
  \<open>std::chrono::nanoseconds\<close> can hold.\<close>

definition fc_in_range :: "fault_configuration \<Rightarrow> bool" where
  "fc_in_range c \<longleftrightarrow> latency c \<le> nanoseconds_max \<and> jitter c \<le> nanoseconds_max"

definition fc_valid :: "fault_configuration \<Rightarrow> bool" where
  "fc_valid c \<longleftrightarrow> 0 \<le> latency c \<and> 0 \<le> jitter c \<and> unat (loss_basis_points c) \<le> 10000
     \<and> unat (duplication_basis_points c) \<le> 10000 \<and> fc_in_range c"

lemma fc_validate_iff: "fc_validate target c = Inr () \<and> fc_in_range c \<longleftrightarrow> target \<noteq> [] \<and> fc_valid c"
  by (auto simp: fc_validate_def fc_valid_def BASIS_POINTS_def)

lemma no_fault_valid [simp]: "fc_valid no_fault"
  by (simp add: fc_valid_def no_fault_def fc_in_range_def nanoseconds_max_def)

lemma schedule_copies_length [simp]: "length (fst (schedule_copies n e b k ntt)) = k"
  by (induction n e b k ntt rule: schedule_copies.induct) (auto split: prod.splits)

lemma schedule_copies_ge: "t \<in> set (fst (schedule_copies n e b k ntt)) \<Longrightarrow> e \<le> t"
  by (induction n e b k ntt rule: schedule_copies.induct) (auto split: prod.splits if_splits)

lemma schedule_copies_unpaced: "schedule_copies n e 0 k ntt = (replicate k e, ntt)"
  by (induction k arbitrary: ntt) auto

lemma evaluate_state_config [simp]: "configuration (snd (evaluate_state n a st)) = configuration st"
  by (simp add: evaluate_state_def Let_def split: prod.splits)

lemma evaluate_state_blocked:
  "blackhole (configuration st) \<or> isolated (configuration st) \<Longrightarrow> evaluate_state n a st = (drop_decision, st)"
  by (auto simp: evaluate_state_def)

lemma loss_draw_less:
  fixes p :: u32
  assumes "unat p = 10000"
  shows "fst (basis_draw st) < ucast p"
  using bounded_random_basis_points [of st] assms
  by (simp add: word_less_nat_alt unsigned_ucast_eq take_bit_nat_eq_self)

lemma evaluate_state_full_loss:
  "unat (loss_basis_points (configuration st)) = 10000 \<Longrightarrow> fst (evaluate_state n a st) = drop_decision"
  using loss_draw_less [of "loss_basis_points (configuration st)" "random_state st"]
  by (cases "basis_draw (random_state st)") (simp add: evaluate_state_def Let_def)

lemma evaluate_state_no_loss:
  "\<not> blackhole (configuration st) \<Longrightarrow> \<not> isolated (configuration st) \<Longrightarrow>
    loss_basis_points (configuration st) = 0 \<Longrightarrow> \<not> dropped (fst (evaluate_state n a st))"
  by (simp add: evaluate_state_def Let_def split: prod.splits)

lemma evaluate_state_delivered:
  assumes "evaluate_state n a st = (d, st')" and "\<not> dropped d"
  obtains r j where
    "delivery_count d = 1 \<or> delivery_count d = 2"
    "j = sint (fst (bounded_random r (word_of_int (jitter (configuration st)))))"
    "schedule_copies n (a + latency (configuration st) + j)
       (bandwidth_bits_per_second (configuration st)) (delivery_count d) (next_transmit_time st)
       = (take (delivery_count d) (delivery_times d), next_transmit_time st')"
    "length (delivery_times d) = 2"
proof -
  let ?c = "configuration st"
  obtain ld r1 where l: "basis_draw (random_state st) = (ld, r1)"
    by fastforce
  obtain dd r2 where d: "basis_draw r1 = (dd, r2)"
    by fastforce
  obtain jd r3 where j: "bounded_random r2 (word_of_int (jitter ?c)) = (jd, r3)"
    by fastforce
  define count :: nat where "count = (if dd < ucast (duplication_basis_points ?c) then 2 else 1)"
  obtain times ntt where t: "schedule_copies n (a + latency ?c + sint jd)
      (bandwidth_bits_per_second ?c) count (next_transmit_time st) = (times, ntt)"
    by fastforce
  have len: "length times = count"
    using schedule_copies_length [of n "a + latency ?c + sint jd" "bandwidth_bits_per_second ?c" count
      "next_transmit_time st"] t by simp
  have open_path: "\<not> (blackhole ?c \<or> isolated ?c)" "\<not> ld < ucast (loss_basis_points ?c)"
    using assms l by (auto simp: evaluate_state_def Let_def drop_decision_def split: if_splits)
  have "d = \<lparr> dropped = False, delivery_count = count, delivery_times = take 2 (times @ [0, 0]) \<rparr>"
    and "st' = st\<lparr> random_state := r3, next_transmit_time := ntt \<rparr>"
    using assms(1) open_path l d j t
    by (auto simp: evaluate_state_def Let_def simp flip: count_def)
  then show ?thesis
    using that [of "sint jd" r2] j t len by (auto simp: count_def)
qed

lemma fault_for_evaluate [simp]: "fault_for (snd (evaluate target n a e)) = fault_for e"
  by (auto simp: evaluate_def fault_for_def fun_eq_iff split: option.splits prod.splits)
    (metis evaluate_state_config snd_conv)

lemma evaluate_other:
  "t \<noteq> target \<Longrightarrow> map_of (states (snd (evaluate target n a e))) t = map_of (states e) t"
  by (auto simp: evaluate_def split: option.splits prod.splits)

lemma evaluate_Some:
  "map_of (states e) target = Some st \<Longrightarrow>
    fst (evaluate target n a e) = fst (evaluate_state n a st) \<and>
    map_of (states (snd (evaluate target n a e))) target = Some (snd (evaluate_state n a st))"
  by (simp add: evaluate_def split: prod.splits)

lemma evaluate_blocked:
  assumes "fault_for e target = Some c" and "blackhole c \<or> isolated c"
  shows "fst (evaluate target n a e) = drop_decision"
  using assms by (auto simp: fault_for_def evaluate_Some evaluate_state_blocked)

section \<open>The store of faults\<close>

definition fe_ok :: "fault_engine \<Rightarrow> bool" where
  "fe_ok e \<longleftrightarrow> umap_ok (states e) \<and>
     (\<forall>t st. map_of (states e) t = Some st \<longrightarrow> t \<noteq> [] \<and> fc_valid (configuration st))"

lemma fe_new_ok: "fe_ok (fe_new s)"
  by (simp add: fe_ok_def fe_new_def)

lemma set_fault_ok: "fe_ok e \<Longrightarrow> fc_in_range c \<Longrightarrow> set_fault t c e = Inr e' \<Longrightarrow> fe_ok e'"
  using fc_validate_iff [of t c]
  by (fastforce simp: set_fault_def fe_ok_def split: sum.splits if_splits)

lemma clear_fault_ok: "fe_ok e \<Longrightarrow> fe_ok (snd (clear_fault t e))"
  by (auto simp: clear_fault_def fe_ok_def)

lemma evaluate_ok: "fe_ok e \<Longrightarrow> fe_ok (snd (evaluate t n a e))"
  by (auto simp: evaluate_def fe_ok_def split: option.splits prod.splits)
    (metis evaluate_state_config snd_conv)+

text \<open>What a client of a keyed store of faults relies on: a stored fault is read back, a cleared
  one is gone, other keys keep theirs, and whether a fault is accepted does not depend on what
  is stored. Saving the fault of a key, overwriting it any number of times and putting the saved
  one back therefore restores the store.\<close>

locale fault_store =
  fixes get :: "'s \<Rightarrow> 'k \<Rightarrow> 'c option"
    and put :: "'k \<Rightarrow> 'c \<Rightarrow> 's \<Rightarrow> 's option"
    and del :: "'k \<Rightarrow> 's \<Rightarrow> 's"
    and accepts :: "'s \<Rightarrow> 'k \<Rightarrow> 'c \<Rightarrow> bool"
    and invar :: "'s \<Rightarrow> bool"
  assumes put_Some_iff: "(\<exists>s'. put k c s = Some s') \<longleftrightarrow> accepts s k c"
    and get_put: "put k c s = Some s' \<Longrightarrow> get s' = (get s)(k \<mapsto> c)"
    and get_del: "get (del k s) = (get s)(k := None)"
    and accepts_put: "put k c s = Some s' \<Longrightarrow> accepts s' = accepts s"
    and accepts_del: "accepts (del k s) = accepts s"
    and accepts_stored: "invar s \<Longrightarrow> get s k = Some c \<Longrightarrow> accepts s k c"
begin

definition put_back :: "'k \<Rightarrow> 'c option \<Rightarrow> 's \<Rightarrow> 's" where
  "put_back k saved s =
     (case saved of None \<Rightarrow> del k s | Some c \<Rightarrow> (case put k c s of None \<Rightarrow> s | Some s' \<Rightarrow> s'))"

definition overwrite :: "'k \<Rightarrow> 'c list \<Rightarrow> 's \<Rightarrow> 's" where
  "overwrite k cs s = fold (\<lambda>c s. case put k c s of None \<Rightarrow> s | Some s' \<Rightarrow> s') cs s"

lemma put_accepted: "accepts s k c \<Longrightarrow> \<exists>s'. put k c s = Some s' \<and> get s' = (get s)(k \<mapsto> c)"
  using put_Some_iff get_put by blast

lemma overwrite_others: "k' \<noteq> k \<Longrightarrow> get (overwrite k cs s) k' = get s k'"
  by (induction cs arbitrary: s) (auto simp: overwrite_def get_put split: option.splits)

lemma overwrite_accepts: "accepts (overwrite k cs s) = accepts s"
  by (induction cs arbitrary: s) (auto simp: overwrite_def accepts_put split: option.splits)

lemma get_put_back:
  assumes "\<And>c. saved = Some c \<Longrightarrow> accepts s k c"
  shows "get (put_back k saved s) = (get s)(k := saved)"
proof (cases saved)
  case (Some c)
  then obtain s' where "put k c s = Some s'" using assms put_accepted by blast
  with Some show ?thesis by (simp add: put_back_def get_put)
qed (simp add: put_back_def get_del)

theorem overwrite_put_back:
  assumes "invar s"
  shows "get (put_back k (get s k) (overwrite k cs s)) = get s"
proof -
  have "get (put_back k (get s k) (overwrite k cs s)) = (get (overwrite k cs s))(k := get s k)"
    by (rule get_put_back) (simp add: overwrite_accepts accepts_stored assms)
  then show ?thesis by (auto simp: fun_eq_iff overwrite_others)
qed

end

definition fe_put :: "string \<Rightarrow> fault_configuration \<Rightarrow> fault_engine \<Rightarrow> fault_engine option" where
  "fe_put t c e = (case set_fault t c e of Inl _ \<Rightarrow> None | Inr e' \<Rightarrow> Some e')"

interpretation fe_store: fault_store fault_for fe_put "\<lambda>t e. snd (clear_fault t e)"
  "\<lambda>e t c. fc_validate t c = Inr ()" fe_ok
  by unfold_locales
    (auto simp: fe_put_def set_fault_def fault_for_def clear_fault_def fun_eq_iff fe_ok_def
      fc_validate_iff split: sum.splits dest: iffD2 [OF fc_validate_iff, THEN conjunct1, OF conjI])

section \<open>Runs of the engine\<close>

text \<open>A sequence of frames offered to the engine, each with its target, size and arrival time.\<close>

type_synonym fault_request = "string \<times> nat \<times> int"

fun fe_run :: "fault_request list \<Rightarrow> fault_engine \<Rightarrow> fault_decision list \<times> fault_engine" where
  "fe_run [] e = ([], e)"
| "fe_run ((target, n, a) # reqs) e =
     (let (d, e') = evaluate target n a e; (ds, e'') = fe_run reqs e' in (d # ds, e''))"

lemma fe_run_Cons [simp]:
  "fst (fe_run ((t, n, a) # reqs) e) =
    fst (evaluate t n a e) # fst (fe_run reqs (snd (evaluate t n a e)))"
  by (simp split: prod.splits)

declare fe_run.simps(2) [simp del]

text \<open>The copies a run delivers, in order, each with the size of its frame.\<close>

definition delivered_copies :: "fault_request list \<Rightarrow> fault_decision list \<Rightarrow> (nat \<times> int) list" where
  "delivered_copies reqs ds =
     concat (map2 (\<lambda>(t, n, a) d. map (Pair n) (take (delivery_count d) (delivery_times d))) reqs ds)"

lemma evaluate_local:
  assumes "map_of (states e) t = map_of (states e') t"
  shows "fst (evaluate t n a e) = fst (evaluate t n a e')"
    and "map_of (states (snd (evaluate t n a e))) t = map_of (states (snd (evaluate t n a e'))) t"
  using assms by (auto simp: evaluate_def split: option.splits prod.splits)

lemma fe_run_local:
  assumes "map_of (states e) t = map_of (states e') t"
  shows "map snd (filter (\<lambda>p. fst (fst p) = t) (zip reqs (fst (fe_run reqs e)))) =
    fst (fe_run (filter (\<lambda>r. fst r = t) reqs) e')"
  using assms
proof (induction reqs arbitrary: e e')
  case (Cons r reqs)
  obtain u n a where r: "r = (u, n, a)" by (cases r)
  show ?case
  proof (cases "u = t")
    case True
    show ?thesis
      using Cons.IH [OF evaluate_local(2) [OF Cons.prems, of n a]] evaluate_local(1) [OF Cons.prems, of n a]
      by (simp add: r True)
  next
    case False
    then have "map_of (states (snd (evaluate u n a e))) t = map_of (states e') t"
      using Cons.prems by (simp add: evaluate_other)
    from Cons.IH [OF this] False show ?thesis
      by (simp add: r)
  qed
qed simp

text \<open>A schedule in which every copy leaves its predecessors the time to be transmitted, and
  none starts before \<open>start\<close>.\<close>

definition paced :: "u64 \<Rightarrow> int \<Rightarrow> (nat \<times> int) list \<Rightarrow> bool" where
  "paced bw start copies \<longleftrightarrow> (\<forall>(n, x) \<in> set copies. start \<le> x) \<and>
     sorted_wrt (\<lambda>(n, x) (m, y). x + transmission_time n bw \<le> y) copies"

lemma paced_append:
  assumes "paced bw start xs" and "paced bw mid ys" and "start \<le> mid"
    and "\<And>n x. (n, x) \<in> set xs \<Longrightarrow> x + transmission_time n bw \<le> mid"
  shows "paced bw start (xs @ ys)"
  using assms by (fastforce simp: paced_def sorted_wrt_append)

lemma paced_Cons:
  assumes "start \<le> x" and "paced bw (x + transmission_time n bw) copies"
  shows "paced bw start ((n, x) # copies)"
proof -
  have "start \<le> y" if "(m, y) \<in> set copies" for m y
  proof -
    have "x + transmission_time n bw \<le> y" using assms(2) that by (auto simp: paced_def)
    then show ?thesis using assms(1) transmission_time_nonneg [of n bw] by linarith
  qed
  then show ?thesis using assms by (auto simp: paced_def)
qed

lemma schedule_copies_paced:
  assumes "bw \<noteq> 0" and "schedule_copies n e bw k ntt = (ts, ntt')"
  shows "paced bw ntt (map (Pair n) ts)" and "ntt \<le> ntt'"
    and "\<forall>x \<in> set ts. x + transmission_time n bw \<le> ntt'"
proof -
  have "paced bw ntt (map (Pair n) ts) \<and> ntt \<le> ntt' \<and> (\<forall>x \<in> set ts. x + transmission_time n bw \<le> ntt')"
    using assms(2)
  proof (induction k arbitrary: ntt ts ntt')
    case 0
    then show ?case by (simp add: paced_def)
  next
    case (Suc k)
    let ?t = "max e ntt" and ?tx = "transmission_time n bw"
    obtain us where us: "schedule_copies n e bw k (?t + ?tx) = (us, ntt')" "ts = ?t # us"
      using Suc.prems assms(1) by (auto split: prod.splits)
    from Suc.IH [OF us(1)] have ih: "paced bw (?t + ?tx) (map (Pair n) us)" "?t + ?tx \<le> ntt'"
      "\<forall>x \<in> set us. x + ?tx \<le> ntt'" by auto
    have "paced bw ntt (map (Pair n) ts)"
      using paced_Cons [OF _ ih(1)] by (simp add: us(2))
    moreover have "ntt \<le> ?t + ?tx" using transmission_time_nonneg [of n bw] by linarith
    ultimately show ?case
      using ih(2,3) us(2) by auto
  qed
  then show "paced bw ntt (map (Pair n) ts)" and "ntt \<le> ntt'"
    and "\<forall>x \<in> set ts. x + transmission_time n bw \<le> ntt'" by auto
qed

lemma evaluate_state_paced:
  assumes "bandwidth_bits_per_second (configuration st) = bw" and "bw \<noteq> 0"
    and "evaluate_state n a st = (d, st')"
  defines "ts \<equiv> take (delivery_count d) (delivery_times d)"
  shows "paced bw (next_transmit_time st) (map (Pair n) ts)"
    and "next_transmit_time st \<le> next_transmit_time st'"
    and "\<forall>x \<in> set ts. x + transmission_time n bw \<le> next_transmit_time st'"
proof -
  have "paced bw (next_transmit_time st) (map (Pair n) ts) \<and> next_transmit_time st \<le> next_transmit_time st'
      \<and> (\<forall>x \<in> set ts. x + transmission_time n bw \<le> next_transmit_time st')"
  proof (cases "dropped d")
    case True
    then have "d = drop_decision" and "next_transmit_time st' = next_transmit_time st"
      using assms(3) by (auto simp: evaluate_state_def Let_def split: if_splits prod.splits)
    then show ?thesis by (simp add: ts_def drop_decision_def paced_def)
  next
    case False
    from assms(3) this show ?thesis
      by (rule evaluate_state_delivered) (metis assms(1,2) schedule_copies_paced ts_def)
  qed
  then show "paced bw (next_transmit_time st) (map (Pair n) ts)"
    and "next_transmit_time st \<le> next_transmit_time st'"
    and "\<forall>x \<in> set ts. x + transmission_time n bw \<le> next_transmit_time st'" by auto
qed

lemma fe_run_paced:
  assumes "map_of (states e) t = Some st" and "bandwidth_bits_per_second (configuration st) = bw"
    and "bw \<noteq> 0"
  shows "paced bw (next_transmit_time st)
    (delivered_copies (map (Pair t) frames) (fst (fe_run (map (Pair t) frames) e)))"
  using assms
proof (induction frames arbitrary: e st)
  case Nil
  then show ?case by (simp add: delivered_copies_def paced_def)
next
  case (Cons f frames)
  obtain n a where f: "f = (n, a)" by (cases f)
  obtain d st' where d: "evaluate_state n a st = (d, st')" by fastforce
  define e' where "e' = snd (evaluate t n a e)"
  have ev: "evaluate t n a e = (d, e')" and st': "map_of (states e') t = Some st'"
    using evaluate_Some [OF Cons.prems(1), of n a] d by (auto simp: e'_def prod_eq_iff)
  have c: "configuration st' = configuration st"
    using evaluate_state_config [of n a st] d by simp
  note one = evaluate_state_paced [OF Cons.prems(2,3) d]
  have rest: "paced bw (next_transmit_time st')
      (delivered_copies (map (Pair t) frames) (fst (fe_run (map (Pair t) frames) e')))"
    by (rule Cons.IH [OF st']) (use c Cons.prems in auto)
  show ?case
    using paced_append [OF one(1) rest one(2)] one(3)
    by (auto simp: f ev delivered_copies_def)
qed

section \<open>Properties\<close>

text \<open>A black hole, an isolation or a loss of one hundred percent drops every frame of the
  target, and a target with none of these and no loss never drops one.\<close>

theorem fault_drop_extremes:
  assumes "fault_for e target = Some c"
  shows "(blackhole c \<or> isolated c \<or> unat (loss_basis_points c) = 10000 \<longrightarrow>
            fst (evaluate target n a e) = drop_decision) \<and>
         (\<not> blackhole c \<and> \<not> isolated c \<and> loss_basis_points c = 0 \<longrightarrow>
            \<not> dropped (fst (evaluate target n a e)))"
  using assms
  by (auto simp: fault_for_def evaluate_Some evaluate_state_blocked evaluate_state_full_loss evaluate_state_no_loss)

theorem fault_drop_extremes_witness:
  "fst (evaluate ''p'' 60 5 (fe_new 1\<lparr> states := [(''p'',
      \<lparr> configuration = no_fault\<lparr> isolated := True \<rparr>, random_state = 7, next_transmit_time = 0 \<rparr>)] \<rparr>))
    = drop_decision"
proof -
  let ?e = "fe_new 1\<lparr> states := [(''p'',
      \<lparr> configuration = no_fault\<lparr> isolated := True \<rparr>, random_state = 7, next_transmit_time = 0 \<rparr>)] \<rparr>"
  have "fault_for ?e ''p'' = Some (no_fault\<lparr> isolated := True \<rparr>)" by (simp add: fault_for_def)
  from fault_drop_extremes [OF this] show ?thesis by simp
qed

text \<open>A frame that is not dropped is delivered once or twice, no copy before the arrival
  plus the latency, and without a bandwidth limit none later than the jitter allows.\<close>

theorem fault_delivery_window:
  assumes "fault_for e target = Some c" and "fc_valid c"
    and "evaluate target n a e = (d, e')" and "\<not> dropped d"
  shows "delivery_count d \<in> {1, 2} \<and>
    (\<forall>x \<in> set (take (delivery_count d) (delivery_times d)).
      a + latency c \<le> x \<and> (bandwidth_bits_per_second c = 0 \<longrightarrow> x \<le> a + latency c + jitter c))"
proof -
  obtain st where st: "map_of (states e) target = Some st" "configuration st = c"
    using assms(1) by (auto simp: fault_for_def)
  obtain st' where ev: "evaluate_state n a st = (d, st')"
    using evaluate_Some [OF st(1), of n a] assms(3) by (metis fst_conv surj_pair)
  from ev assms(4) obtain r j where facts: "delivery_count d = 1 \<or> delivery_count d = 2"
    "j = sint (fst (bounded_random r (word_of_int (jitter c))))"
    "schedule_copies n (a + latency c + j) (bandwidth_bits_per_second c) (delivery_count d) (next_transmit_time st)
       = (take (delivery_count d) (delivery_times d), next_transmit_time st')"
    by (rule evaluate_state_delivered) (use st(2) in auto)
  have j: "0 \<le> j" "j \<le> jitter c"
    using assms(2) jitter_draw_bounds [of "jitter c" r] by (auto simp: facts(2) fc_valid_def fc_in_range_def)
  have low: "a + latency c + j \<le> x" if "x \<in> set (take (delivery_count d) (delivery_times d))" for x
    using that facts(3) by (metis fst_conv schedule_copies_ge)
  have unpaced: "x = a + latency c + j"
    if "x \<in> set (take (delivery_count d) (delivery_times d))" and "bandwidth_bits_per_second c = 0" for x
    using that facts(3) by (metis fst_conv in_set_replicate schedule_copies_unpaced)
  from facts(1) j low unpaced show ?thesis by fastforce
qed

theorem fault_delivery_window_witness:
  "\<exists>d e'. evaluate ''p'' 60 5 (fe_new 1\<lparr> states := [(''p'',
      \<lparr> configuration = no_fault\<lparr> latency := 100, jitter := 10 \<rparr>, random_state = 7,
        next_transmit_time = 0 \<rparr>)] \<rparr>) = (d, e') \<and>
    (\<forall>x \<in> set (take (delivery_count d) (delivery_times d)). 105 \<le> x \<and> x \<le> 115)"
proof -
  let ?c = "no_fault\<lparr> latency := 100, jitter := 10 \<rparr>"
  let ?e = "fe_new 1\<lparr> states := [(''p'',
      \<lparr> configuration = ?c, random_state = 7, next_transmit_time = 0 \<rparr>)] \<rparr>"
  obtain d e' where ev: "evaluate ''p'' 60 5 ?e = (d, e')" by fastforce
  have c: "fault_for ?e ''p'' = Some ?c" by (simp add: fault_for_def)
  have v: "fc_valid ?c" by (simp add: fc_valid_def no_fault_def fc_in_range_def nanoseconds_max_def)
  have "\<not> dropped d"
    using evaluate_Some [of ?e "''p''" _ 60 5] ev
    by (simp add: evaluate_state_no_loss no_fault_def)
  from fault_delivery_window [OF c v ev this] ev show ?thesis
    by (auto simp: no_fault_def)
qed

lemma delivered_copies_frames: "(n, x) \<in> set (delivered_copies (map (Pair t) frames) ds) \<Longrightarrow> \<exists>a. (n, a) \<in> set frames"
  by (auto simp: delivered_copies_def dest!: set_zip_leftD)

text \<open>C35. A bandwidth limit is never exceeded: over any sequence of frames of a target, jittered, duplicated and dropped as
  they may be, no delivered copy starts before the line is free, and each leaves every earlier copy the time its bits take at
  the rate of the limit, in nanoseconds, rounded up. This is for frames below a gigabyte and limits up to \<open>2^63\<close> bits per
  second, where the arithmetic of the transmission time does not wrap.\<close>

theorem fault_pacing:
  assumes "map_of (states e) target = Some st" and "bw = bandwidth_bits_per_second (configuration st)"
    and "0 < unat bw" and "unat bw \<le> 2 ^ 63" and "\<And>n a. (n, a) \<in> set frames \<Longrightarrow> n * 8 * 1000000000 < 2 ^ 63"
    and "copies = delivered_copies (map (Pair target) frames) (fst (fe_run (map (Pair target) frames) e))"
  shows "(\<forall>(n, x) \<in> set copies. next_transmit_time st \<le> x) \<and>
    sorted_wrt (\<lambda>(n, x) (m, y). x + int ((n * 8 * 1000000000 + unat bw - 1) div unat bw) \<le> y) copies"
proof -
  have "bw \<noteq> 0" using assms(3) by auto
  from fe_run_paced [OF assms(1) assms(2) [symmetric] this, of frames]
  have paced: "paced bw (next_transmit_time st) copies" by (simp add: assms(6))
  have "transmission_time n bw = int ((n * 8 * 1000000000 + unat bw - 1) div unat bw)" if "(n, x) \<in> set copies" for n x
    using delivered_copies_frames [OF that [unfolded assms(6)]] assms(3-5) transmission_time_exact by blast
  with paced show ?thesis
    by (auto simp: paced_def elim!: sorted_wrt_mono_rel [rotated])
qed

definition example_limited :: fault_engine where
  "example_limited = (fe_new 1)\<lparr> states := [(''p'', \<lparr> configuration = no_fault\<lparr> bandwidth_bits_per_second := 8000000 \<rparr>,
     random_state = 7, next_transmit_time = 0 \<rparr>)] \<rparr>"

theorem fault_pacing_witness:
  "sorted_wrt (\<lambda>(n, x) (m, y). x + int ((n * 8 * 1000000000 + unat (8000000 :: u64) - 1) div unat (8000000 :: u64)) \<le> y)
     (delivered_copies (map (Pair ''p'') [(1000, 0), (1000, 0)])
       (fst (fe_run (map (Pair ''p'') [(1000, 0), (1000, 0)]) example_limited)))"
proof -
  have st: "map_of (states example_limited) ''p'' = Some \<lparr> configuration = no_fault\<lparr> bandwidth_bits_per_second := 8000000 \<rparr>,
     random_state = 7, next_transmit_time = 0 \<rparr>" by (simp add: example_limited_def)
  have bw: "(8000000 :: u64) = bandwidth_bits_per_second (configuration \<lparr> configuration = no_fault\<lparr> bandwidth_bits_per_second := 8000000 \<rparr>,
     random_state = 7, next_transmit_time = 0 \<rparr>)" by simp
  have "0 < unat (8000000 :: u64)" "unat (8000000 :: u64) \<le> 2 ^ 63"
    "\<And>n a. (n, a) \<in> set [(1000, 0), (1000, 0)] \<Longrightarrow> n * 8 * 1000000000 < (2 :: nat) ^ 63" by auto
  from fault_pacing [OF st bw this refl] show ?thesis by (rule conjunct2)
qed

text \<open>Targets do not influence each other: in any interleaving of frames, the decisions for
  one target are those of a run that offers the engine this target's frames alone.\<close>

theorem fault_targets_independent:
  "map snd (filter (\<lambda>p. fst (fst p) = target) (zip reqs (fst (fe_run reqs e)))) =
    fst (fe_run (filter (\<lambda>r. fst r = target) reqs) e)"
  by (rule fe_run_local) simp

end
