(* ===== verification/Topology_Controller.thy ===== *)
theory Topology_Controller
  imports Topology Fault_Engine
begin

text \<open>
  The topology controller, \<^verbatim>\<open>src/topology_controller.cpp\<close>: the loaded topology, its revision and
  the fault engine whose targets are the ports and links of that topology. A port or a link is
  turned into a target by a length-prefixed string; the lemmas show that different ports, different
  links, and a port and a link never share a target, so the controller is a \<open>fault_store\<close> by port.
\<close>

section \<open>State\<close>

datatype topology_controller_error = NoTopology | UnknownPort | UnknownLink | InvalidFaultConfiguration

definition controller_error_text :: "topology_controller_error \<Rightarrow> string" where
  "controller_error_text e =
     (case e of
        NoTopology \<Rightarrow> ''no topology is loaded''
      | UnknownPort \<Rightarrow> ''unknown topology port''
      | UnknownLink \<Rightarrow> ''unknown topology link''
      | InvalidFaultConfiguration \<Rightarrow> ''invalid fault configuration'')"

record topology_fault =
  tf_first :: string
  tf_second :: string
  tf_configuration :: fault_configuration

record topology_controller =
  fault_seed :: u64
  topology_revision :: u64
  tc_topology :: "topology option"
  tc_engine :: fault_engine

definition tc_new :: "u64 \<Rightarrow> topology_controller" where
  "tc_new s = \<lparr> fault_seed = s, topology_revision = 0, tc_topology = None, tc_engine = fe_new s \<rparr>"

definition tc_load :: "topology \<Rightarrow> topology_controller \<Rightarrow> topology_controller" where
  "tc_load t c =
     (let c = c\<lparr> tc_topology := Some t, tc_engine := fe_new (fault_seed c) \<rparr> in
      if topology_revision c \<noteq> u64_max then c\<lparr> topology_revision := topology_revision c + 1 \<rparr> else c)"

section \<open>Ports and links\<close>

definition port_ids :: "topology_controller \<Rightarrow> string list" where
  "port_ids c =
     (case tc_topology c of
        None \<Rightarrow> []
      | Some t \<Rightarrow> map node_id (filter (\<lambda>n. node_type n = Host) (nodes t)))"

definition port_id_at :: "topology_controller \<Rightarrow> u32 \<Rightarrow> string option" where
  "port_id_at c ingress_port =
     (let ports = port_ids c in
      if unat ingress_port < length ports then Some (ports ! unat ingress_port) else None)"

definition is_port :: "topology \<Rightarrow> string \<Rightarrow> bool" where
  "is_port t port_id \<longleftrightarrow> (\<exists>n \<in> set (nodes t). node_id n = port_id \<and> node_type n = Host)"

definition link_matches :: "string \<Rightarrow> string \<Rightarrow> topology_link \<Rightarrow> bool" where
  "link_matches first second l \<longleftrightarrow>
     link_from l = first \<and> link_to l = second \<or> link_from l = second \<and> link_to l = first"

definition is_link :: "topology \<Rightarrow> string \<Rightarrow> string \<Rightarrow> bool" where
  "is_link t first second \<longleftrightarrow> (\<exists>l \<in> set (links t). link_matches first second l)"

text \<open>\<open>link_latency\<close> dereferences the result of \<open>std::find_if\<close>; \<open>None\<close> is the past-the-end iterator.
  It is only called for a link (lemma \<open>link_latency_defined\<close>).\<close>

definition link_latency :: "topology \<Rightarrow> string \<Rightarrow> string \<Rightarrow> int option" where
  "link_latency t first second = map_option link_latency_ms (List.find (link_matches first second) (links t))"

definition port_fault_target :: "string \<Rightarrow> string" where
  "port_fault_target port_id = ''port:'' @ dec_of_nat (length port_id) @ '':'' @ port_id"

definition link_fault_target :: "string \<Rightarrow> string \<Rightarrow> string" where
  "link_fault_target first second =
     (let (first, second) = (if second < first then (second, first) else (first, second)) in
      ''link:'' @ dec_of_nat (length first) @ '':'' @ first @ '':''
        @ dec_of_nat (length second) @ '':'' @ second)"

section \<open>Faults\<close>

definition port_fault :: "topology_controller \<Rightarrow> string \<Rightarrow> fault_configuration option" where
  "port_fault c port_id =
     (case tc_topology c of
        None \<Rightarrow> None
      | Some t \<Rightarrow>
          if is_port t port_id then fault_for (tc_engine c) (port_fault_target port_id) else None)"

definition set_port_fault ::
    "string \<Rightarrow> fault_configuration \<Rightarrow> topology_controller \<Rightarrow> topology_controller_error + topology_controller" where
  "set_port_fault port_id conf c =
     (case tc_topology c of
        None \<Rightarrow> Inl NoTopology
      | Some t \<Rightarrow>
          if \<not> is_port t port_id then Inl UnknownPort
          else
            (case set_fault (port_fault_target port_id) conf (tc_engine c) of
               Inl _ \<Rightarrow> Inl InvalidFaultConfiguration
             | Inr e \<Rightarrow> Inr (c\<lparr> tc_engine := e \<rparr>)))"

definition set_link_fault ::
    "string \<Rightarrow> string \<Rightarrow> fault_configuration \<Rightarrow> topology_controller
      \<Rightarrow> topology_controller_error + topology_controller" where
  "set_link_fault first second conf c =
     (case tc_topology c of
        None \<Rightarrow> Inl NoTopology
      | Some t \<Rightarrow>
          if \<not> is_link t first second then Inl UnknownLink
          else
            (case set_fault (link_fault_target first second) conf (tc_engine c) of
               Inl _ \<Rightarrow> Inl InvalidFaultConfiguration
             | Inr e \<Rightarrow> Inr (c\<lparr> tc_engine := e \<rparr>)))"

definition clear_port_fault :: "string \<Rightarrow> topology_controller \<Rightarrow> bool \<times> topology_controller" where
  "clear_port_fault port_id c =
     (case tc_topology c of
        None \<Rightarrow> (False, c)
      | Some t \<Rightarrow>
          if is_port t port_id
          then (let (cleared, e) = clear_fault (port_fault_target port_id) (tc_engine c)
                in (cleared, c\<lparr> tc_engine := e \<rparr>))
          else (False, c))"

definition clear_link_fault :: "string \<Rightarrow> string \<Rightarrow> topology_controller \<Rightarrow> bool \<times> topology_controller" where
  "clear_link_fault first second c =
     (case tc_topology c of
        None \<Rightarrow> (False, c)
      | Some t \<Rightarrow>
          if is_link t first second
          then (let (cleared, e) = clear_fault (link_fault_target first second) (tc_engine c)
                in (cleared, c\<lparr> tc_engine := e \<rparr>))
          else (False, c))"

definition tf_less :: "topology_fault \<Rightarrow> topology_fault \<Rightarrow> bool" where
  "tf_less l r \<longleftrightarrow> tf_first l < tf_first r \<or> tf_first l = tf_first r \<and> tf_second l < tf_second r"

text \<open>The two loops of \<open>active_faults\<close>: one row for each host, then each link, whose target is
  among the configured faults.\<close>

fun port_fault_rows ::
    "(string \<times> fault_configuration) list \<Rightarrow> topology_node list \<Rightarrow> topology_fault list" where
  "port_fault_rows configured [] = []"
| "port_fault_rows configured (n # ns) =
     (if node_type n \<noteq> Host then port_fault_rows configured ns
      else
        (case List.find (\<lambda>f. fst f = port_fault_target (node_id n)) configured of
           None \<Rightarrow> port_fault_rows configured ns
         | Some f \<Rightarrow>
             \<lparr> tf_first = node_id n, tf_second = [], tf_configuration = snd f \<rparr> # port_fault_rows configured ns))"

fun link_fault_rows ::
    "(string \<times> fault_configuration) list \<Rightarrow> topology_link list \<Rightarrow> topology_fault list" where
  "link_fault_rows configured [] = []"
| "link_fault_rows configured (l # ls) =
     (case List.find (\<lambda>f. fst f = link_fault_target (link_from l) (link_to l)) configured of
        None \<Rightarrow> link_fault_rows configured ls
      | Some f \<Rightarrow>
          \<lparr> tf_first = link_from l, tf_second = link_to l, tf_configuration = snd f \<rparr>
            # link_fault_rows configured ls)"

definition tc_active_faults :: "topology_controller \<Rightarrow> topology_controller_error + topology_fault list" where
  "tc_active_faults c =
     (case tc_topology c of
        None \<Rightarrow> Inl NoTopology
      | Some t \<Rightarrow>
          let configured = fe_active_faults (tc_engine c) in
          Inr (std_sort tf_less (port_fault_rows configured (nodes t) @ link_fault_rows configured (links t))))"

definition evaluate_port ::
    "string \<Rightarrow> nat \<Rightarrow> int \<Rightarrow> topology_controller
      \<Rightarrow> (topology_controller_error + fault_decision) \<times> topology_controller" where
  "evaluate_port port_id frame_bytes arrival c =
     (case tc_topology c of
        None \<Rightarrow> (Inl NoTopology, c)
      | Some t \<Rightarrow>
          if \<not> is_port t port_id then (Inl UnknownPort, c)
          else
            (let (d, e) = evaluate (port_fault_target port_id) frame_bytes arrival (tc_engine c)
             in (Inr d, c\<lparr> tc_engine := e \<rparr>)))"

text \<open>The latency of the link is added to the delivered copies, clamped at the end of time.\<close>

definition add_latency :: "int \<Rightarrow> int \<Rightarrow> int" where
  "add_latency lat time = (if time > time_point_max - lat then time_point_max else time + lat)"

definition delay_decision :: "int \<Rightarrow> fault_decision \<Rightarrow> fault_decision" where
  "delay_decision lat d =
     d\<lparr> delivery_times := map (add_latency lat) (take (delivery_count d) (delivery_times d))
                           @ drop (delivery_count d) (delivery_times d) \<rparr>"

definition evaluate_link ::
    "string \<Rightarrow> string \<Rightarrow> nat \<Rightarrow> int \<Rightarrow> topology_controller
      \<Rightarrow> (topology_controller_error + fault_decision) \<times> topology_controller" where
  "evaluate_link first second frame_bytes arrival c =
     (case tc_topology c of
        None \<Rightarrow> (Inl NoTopology, c)
      | Some t \<Rightarrow>
          if \<not> is_link t first second then (Inl UnknownLink, c)
          else
            (let (d, e) = evaluate (link_fault_target first second) frame_bytes arrival (tc_engine c);
                 c = c\<lparr> tc_engine := e \<rparr>;
                 lat = (case link_latency t first second of None \<Rightarrow> 0 | Some ms \<Rightarrow> ms * 1000000)
             in if lat = 0 then (Inr d, c) else (Inr (delay_decision lat d), c)))"

section \<open>Targets are unambiguous\<close>

lemma colon_not_digit: "CHR '':'' \<notin> set (dec_of_nat n)"
  using dec_of_nat_digits [of n] by (auto simp: is_digit_def)

lemma length_prefix_inject:
  assumes "dec_of_nat (length a) @ CHR '':'' # a @ xs = dec_of_nat (length b) @ CHR '':'' # b @ ys"
  shows "a = b \<and> xs = ys"
proof -
  have "dec_of_nat (length a) = dec_of_nat (length b) \<and> a @ xs = b @ ys"
    using append_sep_inject [OF colon_not_digit colon_not_digit assms] .
  then show ?thesis by (auto simp: append_eq_append_conv)
qed

lemma port_fault_target_inject [simp]: "port_fault_target p = port_fault_target q \<longleftrightarrow> p = q"
  using length_prefix_inject [of p "[]" q "[]"] by (auto simp: port_fault_target_def)

lemma port_link_target_distinct [simp]:
  "port_fault_target p \<noteq> link_fault_target a b" "link_fault_target a b \<noteq> port_fault_target p"
  by (auto simp: port_fault_target_def link_fault_target_def split: prod.splits)

lemma link_fault_target_sym: "link_fault_target a b = link_fault_target b a"
  by (auto simp: link_fault_target_def)

lemma link_fault_target_ordered:
  "a \<le> b \<Longrightarrow> link_fault_target a b =
    ''link:'' @ dec_of_nat (length a) @ '':'' @ a @ '':'' @ dec_of_nat (length b) @ '':'' @ b"
  by (auto simp: link_fault_target_def)

lemma link_fault_target_eq_ordered:
  assumes "a \<le> b" and "c \<le> d" and "link_fault_target a b = link_fault_target c d"
  shows "a = c \<and> b = d"
proof -
  have "a = c \<and> CHR '':'' # dec_of_nat (length b) @ CHR '':'' # b
      = CHR '':'' # dec_of_nat (length d) @ CHR '':'' # d"
    by (rule length_prefix_inject) (use assms in \<open>simp add: link_fault_target_ordered\<close>)
  then show ?thesis using length_prefix_inject [of b "[]" d "[]"] by simp
qed

lemma link_fault_target_eq_iff: "link_fault_target a b = link_fault_target c d \<longleftrightarrow> {a, b} = {c, d}"
proof
  assume eq: "link_fault_target a b = link_fault_target c d"
  consider "a \<le> b" "c \<le> d" | "a \<le> b" "d \<le> c" | "b \<le> a" "c \<le> d" | "b \<le> a" "d \<le> c"
    using linear by blast
  then show "{a, b} = {c, d}"
    using eq link_fault_target_eq_ordered link_fault_target_sym by cases (metis insert_commute)+
next
  assume "{a, b} = {c, d}"
  then show "link_fault_target a b = link_fault_target c d"
    by (auto simp: doubleton_eq_iff link_fault_target_sym)
qed

lemma link_latency_defined: "is_link t a b \<Longrightarrow> \<exists>ms. link_latency t a b = Some ms"
  by (cases "List.find (link_matches a b) (links t)") (auto simp: is_link_def link_latency_def find_None_iff)

section \<open>The controller as a store of port faults\<close>

definition tc_ok :: "topology_controller \<Rightarrow> bool" where
  "tc_ok c \<longleftrightarrow> fe_ok (tc_engine c)"

definition has_port :: "topology_controller \<Rightarrow> string \<Rightarrow> bool" where
  "has_port c p \<longleftrightarrow> (\<exists>t. tc_topology c = Some t \<and> is_port t p)"

definition tc_put :: "string \<Rightarrow> fault_configuration \<Rightarrow> topology_controller \<Rightarrow> topology_controller option" where
  "tc_put p conf c = (case set_port_fault p conf c of Inl _ \<Rightarrow> None | Inr c' \<Rightarrow> Some c')"

abbreviation tc_accepts :: "topology_controller \<Rightarrow> string \<Rightarrow> fault_configuration \<Rightarrow> bool" where
  "tc_accepts c p conf \<equiv> has_port c p \<and> fc_validate (port_fault_target p) conf = Inr ()"

lemma port_fault_eq: "port_fault c p = (if has_port c p then fault_for (tc_engine c) (port_fault_target p) else None)"
  by (auto simp: port_fault_def has_port_def split: option.splits)

lemma set_port_fault_Inr_iff:
  "set_port_fault p conf c = Inr c' \<longleftrightarrow>
    has_port c p \<and> (\<exists>e. set_fault (port_fault_target p) conf (tc_engine c) = Inr e \<and> c' = c\<lparr> tc_engine := e \<rparr>)"
  by (auto simp: set_port_fault_def has_port_def split: option.splits sum.splits)

lemma clear_port_fault_eq:
  "clear_port_fault p c =
    (if has_port c p
     then (fst (clear_fault (port_fault_target p) (tc_engine c)),
           c\<lparr> tc_engine := snd (clear_fault (port_fault_target p) (tc_engine c)) \<rparr>)
     else (False, c))"
  by (auto simp: clear_port_fault_def has_port_def clear_fault_def split: option.splits)

lemma evaluate_port_eq:
  "has_port c p \<Longrightarrow>
    evaluate_port p n a c =
      (Inr (fst (evaluate (port_fault_target p) n a (tc_engine c))),
       c\<lparr> tc_engine := snd (evaluate (port_fault_target p) n a (tc_engine c)) \<rparr>)"
  by (auto simp: evaluate_port_def has_port_def split: prod.splits)

lemma set_fault_Inr_get:
  "set_fault t conf e = Inr e' \<Longrightarrow> fc_validate t conf = Inr () \<and> fault_for e' = (fault_for e)(t \<mapsto> conf)"
  by (auto simp: set_fault_def fault_for_def fun_eq_iff split: sum.splits)

lemma has_port_update [simp]: "has_port (c\<lparr> tc_engine := e \<rparr>) = has_port c"
  by (simp add: has_port_def fun_eq_iff)

interpretation tc_store: fault_store port_fault tc_put "\<lambda>p c. snd (clear_port_fault p c)" tc_accepts tc_ok
proof unfold_locales
  fix p conf c c'
  show "(\<exists>c'. tc_put p conf c = Some c') \<longleftrightarrow> tc_accepts c p conf"
    by (auto simp: tc_put_def set_port_fault_def has_port_def set_fault_def split: option.splits sum.splits)
  assume put: "tc_put p conf c = Some c'"
  then have set: "set_port_fault p conf c = Inr c'" by (auto simp: tc_put_def split: sum.splits)
  then show "port_fault c' = (port_fault c)(p \<mapsto> conf)"
    by (auto simp: set_port_fault_Inr_iff fun_eq_iff port_fault_eq dest: set_fault_Inr_get)
  show "tc_accepts c' = tc_accepts c"
    using set by (auto simp: set_port_fault_Inr_iff fun_eq_iff)
next
  fix p c
  show "port_fault (snd (clear_port_fault p c)) = (port_fault c)(p := None)"
    by (auto simp: clear_port_fault_eq fun_eq_iff port_fault_eq clear_fault_def fault_for_def)
  show "tc_accepts (snd (clear_port_fault p c)) = tc_accepts c"
    by (simp add: clear_port_fault_eq)
next
  fix c p conf
  assume "tc_ok c" and "port_fault c p = Some conf"
  then show "tc_accepts c p conf"
    by (auto simp: port_fault_eq tc_ok_def fe_store.accepts_stored split: if_splits)
qed

lemma evaluate_port_fault [simp]: "port_fault (snd (evaluate_port p n a c)) = port_fault c"
  by (auto simp: evaluate_port_def fun_eq_iff port_fault_eq has_port_def split: option.splits prod.splits)
    (metis fault_for_evaluate snd_conv)+

lemma evaluate_port_ids [simp]: "port_ids (snd (evaluate_port p n a c)) = port_ids c"
  by (auto simp: evaluate_port_def port_ids_def split: option.splits prod.splits)

lemma has_port_iff: "has_port c p \<longleftrightarrow> p \<in> set (port_ids c)"
  by (cases "tc_topology c") (auto simp: has_port_def port_ids_def is_port_def)

lemma port_id_at_has_port: "port_id_at c i = Some p \<Longrightarrow> has_port c p"
  by (auto simp: port_id_at_def has_port_iff Let_def split: if_splits)

lemma tc_load_ok: "tc_ok (tc_load t c)"
  by (simp add: tc_load_def tc_ok_def fe_new_ok Let_def)

section \<open>Active faults\<close>

interpretation tf_order: strict_weak_order tf_less
  by unfold_locales (auto simp: tf_less_def)

lemma find_map_of: "List.find (\<lambda>f. fst f = k) xs = map_option (Pair k) (map_of xs k)"
  by (induction xs) auto

lemma map_of_fe_active_faults:
  assumes "umap_ok (states e)"
  shows "map_of (fe_active_faults e) = fault_for e"
proof -
  let ?xs = "map (\<lambda>(t, st). (t, configuration st)) (states e)"
  have "map fst ?xs = map fst (states e)" by (simp add: case_prod_beta comp_def)
  then have "umap_ok ?xs" using assms by (simp only:)
  then have "map_of (fe_active_faults e) = map_of ?xs"
    unfolding fe_active_faults_def by (rule map_of_std_sort)
  also have "\<dots> = map_option configuration \<circ> map_of (states e)"
    by (rule map_of_map)
  finally show ?thesis
    by (simp add: fun_eq_iff fault_for_def)
qed

lemma port_fault_rows_mem:
  "f \<in> set (port_fault_rows configured ns) \<longleftrightarrow>
    tf_second f = [] \<and> (\<exists>n \<in> set ns. node_type n = Host \<and> tf_first f = node_id n)
    \<and> map_of configured (port_fault_target (tf_first f)) = Some (tf_configuration f)"
  by (induction ns) (cases f, auto simp: find_map_of split: option.splits)+

lemma link_fault_rows_mem:
  "f \<in> set (link_fault_rows configured ls) \<longleftrightarrow>
    (\<exists>l \<in> set ls. tf_first f = link_from l \<and> tf_second f = link_to l)
    \<and> map_of configured (link_fault_target (tf_first f) (tf_second f)) = Some (tf_configuration f)"
  by (induction ls) (cases f, auto simp: find_map_of split: option.splits)+

lemma tc_active_faults_mem:
  assumes "tc_ok c" and "tc_topology c = Some t" and "tc_active_faults c = Inr fs"
  shows "f \<in> set fs \<longleftrightarrow>
    (tf_second f = [] \<and> port_fault c (tf_first f) = Some (tf_configuration f)) \<or>
    ((\<exists>l \<in> set (links t). tf_first f = link_from l \<and> tf_second f = link_to l)
       \<and> fault_for (tc_engine c) (link_fault_target (tf_first f) (tf_second f)) = Some (tf_configuration f))"
proof -
  have m: "map_of (fe_active_faults (tc_engine c)) = fault_for (tc_engine c)"
    using assms(1) by (simp add: map_of_fe_active_faults tc_ok_def fe_ok_def)
  have fs: "set fs = set (port_fault_rows (fe_active_faults (tc_engine c)) (nodes t)) \<union>
      set (link_fault_rows (fe_active_faults (tc_engine c)) (links t))"
    using assms(2,3) by (auto simp: tc_active_faults_def Let_def)
  have "port_fault c (tf_first f) = Some (tf_configuration f) \<longleftrightarrow>
      (\<exists>n \<in> set (nodes t). node_type n = Host \<and> tf_first f = node_id n)
      \<and> fault_for (tc_engine c) (port_fault_target (tf_first f)) = Some (tf_configuration f)"
    using assms(2) by (auto simp: port_fault_def is_port_def)
  then show ?thesis
    by (auto simp: fs port_fault_rows_mem link_fault_rows_mem m)
qed

section \<open>Reachable controllers\<close>

text \<open>Every call a client can make, in any order. Configurations arrive as 64-bit durations, so they
  are in range.\<close>

inductive tc_step :: "topology_controller \<Rightarrow> topology_controller \<Rightarrow> bool" where
  load: "topology_create conf = Inr t \<Longrightarrow> tc_step c (tc_load t c)"
| set_port: "fc_in_range f \<Longrightarrow> set_port_fault p f c = Inr c' \<Longrightarrow> tc_step c c'"
| set_link: "fc_in_range f \<Longrightarrow> set_link_fault a b f c = Inr c' \<Longrightarrow> tc_step c c'"
| clear_port: "tc_step c (snd (clear_port_fault p c))"
| clear_link: "tc_step c (snd (clear_link_fault a b c))"
| eval_port: "tc_step c (snd (evaluate_port p n at c))"
| eval_link: "tc_step c (snd (evaluate_link a b n at c))"

inductive tc_reachable :: "topology_controller \<Rightarrow> bool" where
  start: "tc_reachable (tc_new s)"
| step: "tc_reachable c \<Longrightarrow> tc_step c c' \<Longrightarrow> tc_reachable c'"

text \<open>A target belongs to the loaded topology.\<close>

definition target_of :: "topology \<Rightarrow> string \<Rightarrow> bool" where
  "target_of t x \<longleftrightarrow> (\<exists>p. is_port t p \<and> x = port_fault_target p)
     \<or> (\<exists>a b. is_link t a b \<and> x = link_fault_target a b)"

definition tc_inv :: "topology_controller \<Rightarrow> bool" where
  "tc_inv c \<longleftrightarrow> tc_ok c
     \<and> (\<forall>t. tc_topology c = Some t \<longrightarrow> topology_create (topo_configuration t) = Inr t)
     \<and> (\<forall>x f. fault_for (tc_engine c) x = Some f \<longrightarrow> (\<exists>t. tc_topology c = Some t \<and> target_of t x))"

lemma tc_inv_engine:
  assumes "tc_inv c" and "fe_ok e"
    and "\<And>x f. fault_for e x = Some f \<Longrightarrow>
      fault_for (tc_engine c) x \<noteq> None \<or> (\<exists>t. tc_topology c = Some t \<and> target_of t x)"
  shows "tc_inv (c\<lparr> tc_engine := e \<rparr>)"
  using assms by (fastforce simp: tc_inv_def tc_ok_def)

lemma fault_for_fe_new [simp]: "fault_for (fe_new s) x = None"
  by (simp add: fault_for_def fe_new_def)

lemma fault_for_clear [simp]: "fault_for (snd (clear_fault t e)) = (fault_for e)(t := None)"
  by (rule fe_store.get_del)

lemma tc_step_inv: "tc_step c c' \<Longrightarrow> tc_inv c \<Longrightarrow> tc_inv c'"
proof (induction rule: tc_step.induct)
  case (load conf t c)
  then show ?case
    by (auto simp: tc_inv_def tc_load_def Let_def tc_ok_def fe_new_ok topology_create_Inr)
next
  case (set_port f p c c')
  then obtain e where e: "set_fault (port_fault_target p) f (tc_engine c) = Inr e" "c' = c\<lparr> tc_engine := e \<rparr>"
    and port: "has_port c p" by (auto simp: set_port_fault_Inr_iff)
  show ?case unfolding e(2)
  proof (rule tc_inv_engine [OF set_port.prems])
    show "fe_ok e" using set_fault_ok [OF _ set_port.hyps(1) e(1)] set_port.prems
      by (simp add: tc_inv_def tc_ok_def)
  qed (use port set_fault_Inr_get [OF e(1)] in \<open>auto simp: has_port_def target_of_def split: if_splits\<close>)
next
  case (set_link f a b c c')
  then obtain t e where e: "set_fault (link_fault_target a b) f (tc_engine c) = Inr e" "c' = c\<lparr> tc_engine := e \<rparr>"
    and link: "tc_topology c = Some t" "is_link t a b"
    by (auto simp: set_link_fault_def split: option.splits if_splits sum.splits)
  show ?case unfolding e(2)
  proof (rule tc_inv_engine [OF set_link.prems])
    show "fe_ok e" using set_fault_ok [OF _ set_link.hyps(1) e(1)] set_link.prems
      by (simp add: tc_inv_def tc_ok_def)
  qed (use link set_fault_Inr_get [OF e(1)] in \<open>auto simp: target_of_def split: if_splits\<close>)
next
  case (clear_port c p)
  then show ?case
    by (auto simp: clear_port_fault_eq tc_inv_def tc_ok_def clear_fault_ok intro!: tc_inv_engine)
next
  case (clear_link c a b)
  have "tc_inv (c\<lparr> tc_engine := snd (clear_fault x (tc_engine c)) \<rparr>)" for x
    by (rule tc_inv_engine [OF clear_link]) (use clear_link in \<open>auto simp: tc_inv_def tc_ok_def clear_fault_ok split: if_splits\<close>)
  then show ?case
    using clear_link by (auto simp: clear_link_fault_def split: option.splits prod.splits) (metis snd_conv)
next
  case (eval_port c p n at)
  have "tc_inv (c\<lparr> tc_engine := snd (evaluate x n at (tc_engine c)) \<rparr>)" for x
    by (rule tc_inv_engine [OF eval_port]) (use eval_port in \<open>auto simp: tc_inv_def tc_ok_def evaluate_ok\<close>)
  then show ?case
    using eval_port by (auto simp: evaluate_port_def split: option.splits prod.splits) (metis snd_conv)
next
  case (eval_link c a b n at)
  have "tc_inv (c\<lparr> tc_engine := snd (evaluate x n at (tc_engine c)) \<rparr>)" for x
    by (rule tc_inv_engine [OF eval_link]) (use eval_link in \<open>auto simp: tc_inv_def tc_ok_def evaluate_ok\<close>)
  then show ?case
    using eval_link
    by (auto simp: evaluate_link_def Let_def split: option.splits prod.splits if_splits) (metis snd_conv)+
qed

lemma tc_reachable_inv: "tc_reachable c \<Longrightarrow> tc_inv c"
proof (induction rule: tc_reachable.induct)
  case (start s)
  then show ?case by (simp add: tc_inv_def tc_ok_def tc_new_def fe_new_ok)
qed (rule tc_step_inv)

lemma example_load_reachable:
  "tc_reachable (tc_load \<lparr> topo_configuration = example_topology, switch_index = 1 \<rparr> (tc_new 7))"
  by (rule tc_reachable.step [OF tc_reachable.start]) (rule tc_step.load [OF example_topology_create])

definition example_controller :: topology_controller where
  "example_controller = tc_load \<lparr> topo_configuration = example_topology, switch_index = 1 \<rparr> (tc_new 7)"

lemma example_controller_port [simp]: "has_port example_controller ''h1''" "has_port example_controller ''h2''"
  by (auto simp: example_controller_def tc_load_def Let_def has_port_def is_port_def nodes_def
      example_topology_def tc_new_def)

lemma example_controller_ports: "port_ids example_controller = [''h1'', ''h2'']"
  by (simp add: example_controller_def tc_load_def Let_def port_ids_def nodes_def
      example_topology_def tc_new_def)

text \<open>The controller after isolating the first host.\<close>

definition example_isolated :: topology_controller where
  "example_isolated =
     (case set_port_fault ''h1'' (no_fault\<lparr> isolated := True \<rparr>) example_controller of
        Inl _ \<Rightarrow> example_controller | Inr c \<Rightarrow> c)"

lemma port_fault_target_nonempty [simp]: "port_fault_target p \<noteq> []"
  by (simp add: port_fault_target_def)

lemma example_isolated_step:
  "set_port_fault ''h1'' (no_fault\<lparr> isolated := True \<rparr>) example_controller = Inr example_isolated"
proof -
  have "tc_accepts example_controller ''h1'' (no_fault\<lparr> isolated := True \<rparr>)"
    by (simp add: fc_validate_def no_fault_def)
  then obtain c' where "tc_put ''h1'' (no_fault\<lparr> isolated := True \<rparr>) example_controller = Some c'"
    using tc_store.put_accepted by blast
  then show ?thesis by (auto simp: tc_put_def example_isolated_def split: sum.splits)
qed

lemma example_isolated_fault: "port_fault example_isolated ''h1'' = Some (no_fault\<lparr> isolated := True \<rparr>)"
  using tc_store.get_put [of "''h1''" "no_fault\<lparr> isolated := True \<rparr>" example_controller example_isolated]
    example_isolated_step by (simp add: tc_put_def)

lemma example_isolated_reachable: "tc_reachable example_isolated"
proof (rule tc_reachable.step)
  show "tc_reachable example_controller"
    unfolding example_controller_def by (rule example_load_reachable)
  show "tc_step example_controller example_isolated"
    by (rule tc_step.set_port [OF _ example_isolated_step]) (simp add: fc_in_range_def no_fault_def nanoseconds_max_def)
qed

section \<open>Properties\<close>

text \<open>The strings that name fault targets are unambiguous for arbitrary identifiers: ports have
  different targets, a port and a link never share one, and two links share one exactly when they
  join the same two endpoints, in either order.\<close>

theorem fault_targets_unambiguous:
  "(port_fault_target p = port_fault_target q \<longleftrightarrow> p = q) \<and>
   port_fault_target p \<noteq> link_fault_target a b \<and>
   (link_fault_target a b = link_fault_target c d \<longleftrightarrow> {a, b} = {c, d})"
  by (simp add: link_fault_target_eq_iff)

text \<open>C40. In every reachable controller each configured fault is valid and belongs to a host or a
  link of the loaded topology, and that topology is one that validation accepted.\<close>

theorem controller_faults_belong:
  assumes "tc_reachable c" and "fault_for (tc_engine c) x = Some f"
  shows "fc_valid f \<and> (\<exists>t. tc_topology c = Some t \<and> topology_create (topo_configuration t) = Inr t \<and> target_of t x)"
proof -
  have inv: "tc_inv c" using assms(1) by (rule tc_reachable_inv)
  then have "fe_ok (tc_engine c)" by (simp add: tc_inv_def tc_ok_def)
  then have "fc_valid f" using assms(2) by (auto simp: fault_for_def fe_ok_def)
  with inv assms(2) show ?thesis by (auto simp: tc_inv_def)
qed

theorem controller_faults_belong_witness:
  "\<exists>t. tc_topology example_isolated = Some t \<and> target_of t (port_fault_target ''h1'')"
proof -
  have "has_port example_isolated ''h1''"
    using example_isolated_fault by (auto simp: port_fault_eq split: if_splits)
  then have "fault_for (tc_engine example_isolated) (port_fault_target ''h1'') = Some (no_fault\<lparr> isolated := True \<rparr>)"
    using example_isolated_fault by (simp add: port_fault_eq)
  from controller_faults_belong [OF example_isolated_reachable this] show ?thesis by blast
qed

text \<open>The list of active faults of a reachable controller is complete and ordered: it holds a row
  for exactly the ports with a fault and the declared links with a fault, with the stored
  configuration, in the order of the endpoints.\<close>

theorem active_faults_exact:
  assumes "tc_reachable c" and "tc_active_faults c = Inr fs"
  shows "sorted_by tf_less fs \<and>
    (\<forall>f. f \<in> set fs \<longleftrightarrow>
      (tf_second f = [] \<and> port_fault c (tf_first f) = Some (tf_configuration f)) \<or>
      ((\<exists>t. tc_topology c = Some t \<and> (\<exists>l \<in> set (links t). tf_first f = link_from l \<and> tf_second f = link_to l))
        \<and> fault_for (tc_engine c) (link_fault_target (tf_first f) (tf_second f)) = Some (tf_configuration f)))"
proof -
  obtain t where t: "tc_topology c = Some t"
    using assms(2) by (auto simp: tc_active_faults_def split: option.splits)
  have "sorted_by tf_less fs"
    using assms(2) t tf_order.std_sort_sorted by (auto simp: tc_active_faults_def Let_def)
  moreover have "tc_ok c" using tc_reachable_inv [OF assms(1)] by (simp add: tc_inv_def)
  ultimately show ?thesis
    using tc_active_faults_mem [OF _ t assms(2)] t by simp
qed

theorem active_faults_exact_witness:
  "\<exists>fs. tc_active_faults example_isolated = Inr fs \<and>
    \<lparr> tf_first = ''h1'', tf_second = [], tf_configuration = no_fault\<lparr> isolated := True \<rparr> \<rparr> \<in> set fs"
proof -
  have "tc_topology example_isolated \<noteq> None"
    using example_isolated_fault by (auto simp: port_fault_def split: option.splits)
  then obtain fs where fs: "tc_active_faults example_isolated = Inr fs"
    by (auto simp: tc_active_faults_def Let_def)
  from active_faults_exact [OF example_isolated_reachable fs] fs example_isolated_fault show ?thesis
    by simp
qed

text \<open>Offering a frame to a link delays each delivered copy by the latency of the link, but never
  past the last time point the clock has, and changes nothing else of the engine's decision.\<close>

theorem link_adds_latency:
  assumes "tc_topology c = Some t" and "link_latency t a b = Some ms" and "0 \<le> ms"
    and "fst (evaluate (link_fault_target a b) n at (tc_engine c)) = d"
    and "\<forall>x \<in> set (delivery_times d). x \<le> time_point_max"
  shows "\<exists>d'. fst (evaluate_link a b n at c) = Inr d' \<and> dropped d' = dropped d \<and>
    delivery_count d' = delivery_count d \<and>
    take (delivery_count d) (delivery_times d') =
      map (\<lambda>x. min (x + ms * 1000000) time_point_max) (take (delivery_count d) (delivery_times d))"
proof -
  obtain l where "List.find (link_matches a b) (links t) = Some l"
    using assms(2) by (auto simp: link_latency_def)
  then have link: "is_link t a b"
    by (auto simp: is_link_def find_Some_iff)
  have clamp: "add_latency lat x = min (x + lat) time_point_max" if "0 \<le> lat" for lat x
    using that by (auto simp: add_latency_def)
  have id: "map (\<lambda>x. if x \<le> time_point_max then x else time_point_max) (take k (delivery_times d)) =
      take k (delivery_times d)" for k
    using assms(5) by (auto intro!: map_idI dest: in_set_takeD)
  show ?thesis
    using assms link
    by (cases "ms = 0")
      (auto simp: evaluate_link_def id delay_decision_def clamp min_def split: prod.splits)
qed

theorem link_adds_latency_witness:
  "\<exists>d'. fst (evaluate_link ''h1'' ''sw'' 60 5 example_controller) = Inr d' \<and>
    take 1 (delivery_times d') = [2000005]"
proof -
  let ?t = "\<lparr> topo_configuration = example_topology, switch_index = 1 \<rparr>"
  let ?d = "fst (evaluate (link_fault_target ''h1'' ''sw'') 60 5 (tc_engine example_controller))"
  have d: "?d = \<lparr> dropped = False, delivery_count = 1, delivery_times = [5, 0] \<rparr>"
    by (simp add: evaluate_def example_controller_def tc_load_def Let_def fe_new_def)
  have "\<exists>d'. fst (evaluate_link ''h1'' ''sw'' 60 5 example_controller) = Inr d' \<and> dropped d' = dropped ?d \<and>
    delivery_count d' = delivery_count ?d \<and>
    take (delivery_count ?d) (delivery_times d') =
      map (\<lambda>x. min (x + 2 * 1000000) time_point_max) (take (delivery_count ?d) (delivery_times ?d))"
  proof (rule link_adds_latency [OF _ _ _ refl])
    show "tc_topology example_controller = Some ?t"
      by (simp add: example_controller_def tc_load_def Let_def)
    show "link_latency ?t ''h1'' ''sw'' = Some 2"
      by (simp add: link_latency_def link_matches_def links_def example_topology_def)
  qed (simp_all add: d time_point_max_def)
  then show ?thesis by (auto simp: d time_point_max_def)
qed

text \<open>Loading a topology starts from a clean fault plane: no port has a fault, every frame of a
  declared host passes at once, and the revision grows by one until it saturates.\<close>

theorem load_starts_clean:
  "port_fault (tc_load t c) p = None \<and>
   (is_port t p \<longrightarrow> fst (evaluate_port p n at (tc_load t c)) =
      Inr \<lparr> dropped = False, delivery_count = 1, delivery_times = [at, 0] \<rparr>) \<and>
   unat (topology_revision (tc_load t c)) = min (unat (topology_revision c) + 1) (2 ^ 64 - 1)"
proof -
  have rev: "unat (topology_revision (tc_load t c)) = min (unat (topology_revision c) + 1) (2 ^ 64 - 1)"
  proof (cases "topology_revision c = u64_max")
    case True
    then show ?thesis by (simp add: tc_load_def Let_def unat_u64_max)
  next
    case False
    then have "unat (topology_revision c) \<noteq> unat u64_max" by (simp only: word_unat_eq_iff simp_thms)
    moreover have "unat (topology_revision c) < 2 ^ 64" by (rule order_less_le_trans [OF unsigned_less]) simp
    ultimately have "unat (topology_revision c) + 1 \<le> 2 ^ 64 - 1" by (simp add: unat_u64_max)
    with False show ?thesis
      by (simp add: tc_load_def Let_def unat_word_ariths(1))
  qed
  have "tc_engine (tc_load t c) = fe_new (fault_seed c)" and "tc_topology (tc_load t c) = Some t"
    by (simp_all add: tc_load_def Let_def)
  then show ?thesis
    using rev by (simp add: port_fault_eq evaluate_port_def evaluate_def fe_new_def fault_for_def split: prod.splits)
qed

theorem load_starts_clean_witness:
  "fst (evaluate_port ''h1'' 60 9 (tc_load \<lparr> topo_configuration = example_topology, switch_index = 1 \<rparr> example_isolated))
    = Inr \<lparr> dropped = False, delivery_count = 1, delivery_times = [9, 0] \<rparr>"
  using load_starts_clean [of "\<lparr> topo_configuration = example_topology, switch_index = 1 \<rparr>"
    example_isolated "''h1''" 60 9]
  by (simp add: is_port_def nodes_def example_topology_def)

end
