(* ===== verification/Policy_Enforcer.thy ===== *)
theory Policy_Enforcer
  imports Policy_Engine Topology_Controller
begin

text \<open>
  The policy enforcer, \<^verbatim>\<open>include/wirelab/policy_enforcer.hpp\<close> and
  \<^verbatim>\<open>src/policy_enforcer.cpp\<close>: decisions become leased faults on the ingress port. A lease
  remembers the fault the port had before, so that releasing it restores the port. The lemmas
  use the interpretation \<open>tc_store\<close> of the fault-store interface by the topology controller;
  the theorems state that enforcement is reversible, never weakens a live lease, and cuts off a
  quarantined port.
\<close>

section \<open>Data\<close>

datatype enforcement_kind = NoEnforcement | RateLimitKind | Blackhole | Isolate

datatype enforcement_outcome = Applied | Extended | Released | Skipped | UnknownPortOutcome | Rejected

definition enforcement_kind_text :: "enforcement_kind \<Rightarrow> string" where
  "enforcement_kind_text k =
     (case k of NoEnforcement \<Rightarrow> ''none'' | RateLimitKind \<Rightarrow> ''rate-limit'' | Blackhole \<Rightarrow> ''blackhole''
      | Isolate \<Rightarrow> ''isolate'')"

definition enforcement_outcome_text :: "enforcement_outcome \<Rightarrow> string" where
  "enforcement_outcome_text o' =
     (case o' of Applied \<Rightarrow> ''applied'' | Extended \<Rightarrow> ''extended'' | Released \<Rightarrow> ''released''
      | Skipped \<Rightarrow> ''skipped'' | UnknownPortOutcome \<Rightarrow> ''unknown-port'' | Rejected \<Rightarrow> ''rejected'')"

record enforcement_action =
  ea_port :: string
  ea_rule :: string
  ea_type :: anomaly_type
  ea_action :: policy_action
  ea_kind :: enforcement_kind
  ea_outcome :: enforcement_outcome
  ea_bits :: u64
  ea_packets :: u64
  ea_threshold :: u64
  ea_expires :: int

record enforcer_config =
  rate_limit_lease :: int
  drop_lease :: int
  quarantine_lease :: int
  assumed_frame_bytes :: u64

definition default_enforcer_config :: enforcer_config where
  "default_enforcer_config = \<lparr> rate_limit_lease = 10000000000, drop_lease = 5000000000,
     quarantine_lease = 30000000000, assumed_frame_bytes = 64 \<rparr>"

record lease =
  ls_action :: enforcement_action
  ls_restore :: fault_configuration
  ls_had_restore :: bool

record enforcer =
  en_config :: enforcer_config
  leases :: "(string \<times> lease) list"

definition en_new :: "enforcer_config \<Rightarrow> enforcer" where
  "en_new config = \<lparr> en_config = config, leases = [] \<rparr>"

section \<open>Operations\<close>

definition kind_for :: "policy_action \<Rightarrow> enforcement_kind" where
  "kind_for a =
     (case a of Drop \<Rightarrow> Blackhole | Quarantine \<Rightarrow> Isolate | RateLimit \<Rightarrow> RateLimitKind
      | Allow \<Rightarrow> NoEnforcement | Mirror \<Rightarrow> NoEnforcement | AlertOnly \<Rightarrow> NoEnforcement)"

definition severity :: "enforcement_kind \<Rightarrow> nat" where
  "severity k = (case k of NoEnforcement \<Rightarrow> 0 | RateLimitKind \<Rightarrow> 1 | Blackhole \<Rightarrow> 2 | Isolate \<Rightarrow> 3)"

definition overlay :: "fault_configuration \<Rightarrow> enforcement_kind \<Rightarrow> u64 \<Rightarrow> fault_configuration" where
  "overlay base kind bits =
     (case kind of
        RateLimitKind \<Rightarrow> base\<lparr> bandwidth_bits_per_second := bits \<rparr>
      | Blackhole \<Rightarrow> base\<lparr> blackhole := True \<rparr>
      | Isolate \<Rightarrow> base\<lparr> isolated := True \<rparr>
      | NoEnforcement \<Rightarrow> base)"

definition rate_limit_bits :: "enforcer_config \<Rightarrow> policy_decision \<Rightarrow> u64" where
  "rate_limit_bits config d =
     (if pd_rate d = 0 then 0
      else
        let mean = (if ev_packets (pd_anomaly d) = 0 then assumed_frame_bytes config
                    else ev_bytes (pd_anomaly d) div ev_packets (pd_anomaly d));
            frame_bytes = (if mean = 0 then assumed_frame_bytes config else mean)
        in pd_rate d * frame_bytes * 8)"

definition lease_for :: "enforcer_config \<Rightarrow> enforcement_kind \<Rightarrow> int" where
  "lease_for config kind =
     (case kind of RateLimitKind \<Rightarrow> rate_limit_lease config | Blackhole \<Rightarrow> drop_lease config
      | Isolate \<Rightarrow> quarantine_lease config | NoEnforcement \<Rightarrow> 0)"

text \<open>The result \<open>apply\<close> starts from for a decision.\<close>

definition initial_action :: "policy_decision \<Rightarrow> string option \<Rightarrow> enforcement_action" where
  "initial_action d port =
     \<lparr> ea_port = (case port of None \<Rightarrow> [] | Some p \<Rightarrow> p), ea_rule = pd_rule d, ea_type = ev_type (pd_anomaly d),
       ea_action = pd_action d, ea_kind = kind_for (pd_action d), ea_outcome = Skipped, ea_bits = 0,
       ea_packets = ev_packets (pd_anomaly d), ea_threshold = ev_threshold (pd_anomaly d), ea_expires = 0 \<rparr>"

text \<open>What a decision of a kind with a rate means on a port: a stronger or equal kind takes over, a
  weaker one leaves the live lease as it is.\<close>

definition supersedes :: "enforcement_kind \<Rightarrow> lease option \<Rightarrow> bool" where
  "supersedes kind existing =
     (case existing of None \<Rightarrow> True | Some l \<Rightarrow> severity kind \<ge> severity (ea_kind (ls_action l)))"

definition effective_kind :: "enforcement_kind \<Rightarrow> lease option \<Rightarrow> enforcement_kind" where
  "effective_kind kind existing =
     (case existing of None \<Rightarrow> kind
      | Some l \<Rightarrow> if supersedes kind existing then kind else ea_kind (ls_action l))"

definition effective_bits :: "enforcement_kind \<Rightarrow> u64 \<Rightarrow> lease option \<Rightarrow> u64" where
  "effective_bits kind bits existing =
     (if supersedes kind existing \<and> kind = RateLimitKind then bits
      else (case existing of None \<Rightarrow> 0 | Some l \<Rightarrow> ea_bits (ls_action l)))"

definition base_lease :: "lease option \<Rightarrow> fault_configuration option \<Rightarrow> enforcement_action \<Rightarrow> lease" where
  "base_lease existing previous a =
     (case existing of
        Some l \<Rightarrow> l
      | None \<Rightarrow> \<lparr> ls_action = a, ls_restore = (case previous of None \<Rightarrow> no_fault | Some f \<Rightarrow> f),
                 ls_had_restore = (previous \<noteq> None) \<rparr>)"

definition lease_expiry :: "int \<Rightarrow> enforcer_config \<Rightarrow> enforcement_kind \<Rightarrow> lease option \<Rightarrow> int" where
  "lease_expiry now config kind existing =
     (let expires = now + lease_for config kind in
      case existing of
        None \<Rightarrow> expires
      | Some l \<Rightarrow> if expires < ea_expires (ls_action l) then ea_expires (ls_action l) else expires)"

text \<open>The second half of the loop body of \<open>apply\<close>, for a port that exists and a decision that
  changes forwarding.\<close>

definition enforce_port ::
    "string \<Rightarrow> enforcement_action \<Rightarrow> int \<Rightarrow> enforcer \<Rightarrow> topology_controller
      \<Rightarrow> enforcement_action \<times> enforcer \<times> topology_controller" where
  "enforce_port p result now en c =
     (let existing = map_of (leases en) p;
          kind = effective_kind (ea_kind result) existing;
          bits = effective_bits (ea_kind result) (ea_bits result) existing;
          lease = base_lease existing (port_fault c p) result
      in case set_port_fault p (overlay (ls_restore lease) kind bits) c of
           Inl _ \<Rightarrow> (result\<lparr> ea_outcome := Rejected \<rparr>, en, c)
         | Inr c' \<Rightarrow>
             let result = result\<lparr> ea_kind := kind, ea_bits := bits,
                   ea_expires := lease_expiry now (en_config en) kind existing,
                   ea_outcome := (if existing = None then Applied else Extended) \<rparr>
             in (result, en\<lparr> leases := umap_assign p (lease\<lparr> ls_action := result \<rparr>) (leases en) \<rparr>, c'))"

text \<open>The body of the loop of \<open>apply\<close>.\<close>

definition apply_decision ::
    "policy_decision \<Rightarrow> int \<Rightarrow> enforcer \<Rightarrow> topology_controller
      \<Rightarrow> enforcement_action \<times> enforcer \<times> topology_controller" where
  "apply_decision d now en c =
     (let port = port_id_at c (ev_ingress (pd_anomaly d));
          result = initial_action d port
      in if ea_kind result = NoEnforcement then (result\<lparr> ea_outcome := Skipped \<rparr>, en, c)
         else
           (case port of
              None \<Rightarrow> (result\<lparr> ea_outcome := UnknownPortOutcome \<rparr>, en, c)
            | Some p \<Rightarrow>
                let result = result\<lparr> ea_bits :=
                      (if ea_kind result = RateLimitKind then rate_limit_bits (en_config en) d else 0) \<rparr>
                in if ea_kind result = RateLimitKind \<and> ea_bits result = 0
                   then (result\<lparr> ea_outcome := Rejected \<rparr>, en, c)
                   else enforce_port p result now en c))"

fun apply_decisions ::
    "policy_decision list \<Rightarrow> int \<Rightarrow> enforcer \<Rightarrow> topology_controller
      \<Rightarrow> enforcement_action list \<times> enforcer \<times> topology_controller" where
  "apply_decisions [] now en c = ([], en, c)"
| "apply_decisions (d # ds) now en c =
     (let (r, en, c) = apply_decision d now en c; (rs, en, c) = apply_decisions ds now en c
      in (r # rs, en, c))"

definition restore_port :: "lease \<Rightarrow> topology_controller \<Rightarrow> topology_controller" where
  "restore_port l c =
     (if ls_had_restore l
      then (case set_port_fault (ea_port (ls_action l)) (ls_restore l) c of Inl _ \<Rightarrow> c | Inr c' \<Rightarrow> c')
      else snd (clear_port_fault (ea_port (ls_action l)) c))"

text \<open>The loop of \<open>release_expired\<close>: the released actions, the leases that stay, the controller.\<close>

fun release_loop ::
    "(string \<times> lease) list \<Rightarrow> int \<Rightarrow> topology_controller
      \<Rightarrow> enforcement_action list \<times> (string \<times> lease) list \<times> topology_controller" where
  "release_loop [] now c = ([], [], c)"
| "release_loop ((p, l) # rest) now c =
     (if ea_expires (ls_action l) > now then
        let (released, kept, c) = release_loop rest now c in (released, (p, l) # kept, c)
      else
        let (released, kept, c) = release_loop rest now (restore_port l c)
        in ((ls_action l)\<lparr> ea_outcome := Released \<rparr> # released, kept, c))"

definition ea_port_less :: "enforcement_action \<Rightarrow> enforcement_action \<Rightarrow> bool" where
  "ea_port_less x y \<longleftrightarrow> ea_port x < ea_port y"

definition release_expired ::
    "int \<Rightarrow> enforcer \<Rightarrow> topology_controller \<Rightarrow> enforcement_action list \<times> enforcer \<times> topology_controller" where
  "release_expired now en c =
     (let (released, kept, c) = release_loop (leases en) now c
      in (std_sort ea_port_less released, en\<lparr> leases := kept \<rparr>, c))"

definition release_port :: "string \<Rightarrow> enforcer \<Rightarrow> topology_controller \<Rightarrow> bool \<times> enforcer \<times> topology_controller" where
  "release_port p en c =
     (case map_of (leases en) p of
        None \<Rightarrow> (False, en, c)
      | Some l \<Rightarrow> (True, en\<lparr> leases := umap_erase p (leases en) \<rparr>, restore_port l c))"

definition ea_less :: "enforcement_action \<Rightarrow> enforcement_action \<Rightarrow> bool" where
  "ea_less x y \<longleftrightarrow> ea_port x < ea_port y \<or> \<not> ea_port y < ea_port x \<and> ea_rule x < ea_rule y"

definition en_active :: "enforcer \<Rightarrow> enforcement_action list" where
  "en_active en = std_sort ea_less (map (\<lambda>(p, l). ls_action l) (leases en))"

definition is_enforced :: "enforcer \<Rightarrow> string \<Rightarrow> bool" where
  "is_enforced en p \<longleftrightarrow> map_of (leases en) p \<noteq> None"

definition en_forget :: "enforcer \<Rightarrow> enforcer" where
  "en_forget en = en\<lparr> leases := [] \<rparr>"

section \<open>The lease invariant\<close>

text \<open>Relative to the faults \<open>f0\<close> the ports had before any enforcement: an unleased port still has
  its fault; a leased port has its fault overlaid, and the lease remembers it.\<close>

definition lease_ok :: "(string \<Rightarrow> fault_configuration option) \<Rightarrow> topology_controller \<Rightarrow> string \<Rightarrow> lease \<Rightarrow> bool" where
  "lease_ok f0 c p l \<longleftrightarrow>
     ea_port (ls_action l) = p \<and> ea_kind (ls_action l) \<noteq> NoEnforcement \<and>
     (ea_kind (ls_action l) = RateLimitKind \<longrightarrow> ea_bits (ls_action l) \<noteq> 0) \<and>
     f0 p = (if ls_had_restore l then Some (ls_restore l) else None) \<and>
     tc_accepts c p (ls_restore l) \<and> fc_in_range (ls_restore l) \<and>
     port_fault c p = Some (overlay (ls_restore l) (ea_kind (ls_action l)) (ea_bits (ls_action l)))"

definition en_inv :: "(string \<Rightarrow> fault_configuration option) \<Rightarrow> enforcer \<Rightarrow> topology_controller \<Rightarrow> bool" where
  "en_inv f0 en c \<longleftrightarrow> umap_ok (leases en) \<and> tc_ok c \<and>
     (\<forall>p. case map_of (leases en) p of None \<Rightarrow> port_fault c p = f0 p | Some l \<Rightarrow> lease_ok f0 c p l)"

declare Some_eq_map_of_iff [simp del]

lemma en_inv_leased: "en_inv f0 en c \<Longrightarrow> map_of (leases en) p = Some l \<Longrightarrow> lease_ok f0 c p l"
  unfolding en_inv_def by (metis option.simps(5))

lemma en_inv_unleased: "en_inv f0 en c \<Longrightarrow> map_of (leases en) p = None \<Longrightarrow> port_fault c p = f0 p"
  unfolding en_inv_def by (metis option.simps(4))

lemma en_inv_ok: "en_inv f0 en c \<Longrightarrow> umap_ok (leases en) \<and> tc_ok c"
  by (simp add: en_inv_def)

lemma en_invI:
  assumes "umap_ok (leases en)" and "tc_ok c"
    and "\<And>p l. map_of (leases en) p = Some l \<Longrightarrow> lease_ok f0 c p l"
    and "\<And>p. map_of (leases en) p = None \<Longrightarrow> port_fault c p = f0 p"
  shows "en_inv f0 en c"
  using assms by (auto simp: en_inv_def split: option.splits)

lemma en_inv_new: "tc_ok c \<Longrightarrow> en_inv (port_fault c) (en_new config) c"
  by (simp add: en_inv_def en_new_def)

lemma accepts_overlay [simp]:
  "fc_validate t (overlay f kind bits) = Inr u \<longleftrightarrow> fc_validate t f = Inr u"
  by (cases kind) (simp_all add: overlay_def fc_validate_def)

lemma overlay_in_range [simp]: "fc_in_range (overlay f kind bits) = fc_in_range f"
  by (cases kind) (simp_all add: overlay_def fc_in_range_def)

text \<open>The effect of the two controller calls the enforcer makes, through the store interface.\<close>

lemma set_port_fault_effect:
  assumes "set_port_fault p f c = Inr c'"
  shows "port_fault c' = (port_fault c)(p \<mapsto> f)" and "tc_accepts c' = tc_accepts c"
    and "tc_ok c \<Longrightarrow> fc_in_range f \<Longrightarrow> tc_ok c'" and "port_ids c' = port_ids c" and "tc_accepts c p f"
proof -
  have put: "tc_put p f c = Some c'" using assms by (simp add: tc_put_def)
  show "port_fault c' = (port_fault c)(p \<mapsto> f)" by (rule tc_store.get_put [OF put])
  show "tc_accepts c' = tc_accepts c" by (rule tc_store.accepts_put [OF put])
  show "tc_accepts c p f" using tc_store.put_Some_iff [of p f c] put by blast
  show "port_ids c' = port_ids c" using assms by (auto simp: set_port_fault_Inr_iff port_ids_def)
  assume "tc_ok c" and "fc_in_range f"
  then show "tc_ok c'"
    using assms by (auto simp: set_port_fault_Inr_iff tc_ok_def intro: set_fault_ok)
qed

lemma set_port_fault_accepted: "tc_accepts c p f \<Longrightarrow> \<exists>c'. set_port_fault p f c = Inr c'"
  using tc_store.put_Some_iff [of p f c] by (auto simp: tc_put_def split: sum.splits)

lemma clear_port_fault_effect:
  "port_fault (snd (clear_port_fault p c)) = (port_fault c)(p := None)"
  "tc_accepts (snd (clear_port_fault p c)) = tc_accepts c"
  "tc_ok c \<Longrightarrow> tc_ok (snd (clear_port_fault p c))"
  "port_ids (snd (clear_port_fault p c)) = port_ids c"
  using tc_store.get_del [of p c] tc_store.accepts_del [of p c]
  by (auto simp: clear_port_fault_eq tc_ok_def clear_fault_ok port_ids_def)

lemma lease_ok_cong:
  "port_fault c' p = port_fault c p \<Longrightarrow> tc_accepts c' = tc_accepts c \<Longrightarrow> lease_ok f0 c' p l = lease_ok f0 c p l"
  by (simp add: lease_ok_def fun_eq_iff)

lemma restore_port_effect:
  assumes "lease_ok f0 c p l" and "tc_ok c"
  shows "port_fault (restore_port l c) = (port_fault c)(p := f0 p) \<and>
    tc_accepts (restore_port l c) = tc_accepts c \<and> tc_ok (restore_port l c) \<and>
    port_ids (restore_port l c) = port_ids c"
proof -
  have port: "ea_port (ls_action l) = p" using assms(1) by (simp add: lease_ok_def)
  show ?thesis
  proof (cases "ls_had_restore l")
    case True
    then have r: "f0 p = Some (ls_restore l)" "tc_accepts c p (ls_restore l)" "fc_in_range (ls_restore l)"
      using assms(1) by (auto simp: lease_ok_def)
    from r(2) obtain c' where c': "set_port_fault p (ls_restore l) c = Inr c'"
      using set_port_fault_accepted by blast
    with True have "restore_port l c = c'" by (simp add: restore_port_def port)
    then show ?thesis
      using set_port_fault_effect [OF c'] assms(2) r by metis
  next
    case False
    then have "f0 p = None" using assms(1) by (simp add: lease_ok_def)
    with False assms(2) show ?thesis
      by (simp add: restore_port_def port clear_port_fault_effect)
  qed
qed

text \<open>Leases only grow stronger and longer.\<close>

definition lease_keeps :: "lease option \<Rightarrow> lease option \<Rightarrow> bool" where
  "lease_keeps old new \<longleftrightarrow>
     (case old of None \<Rightarrow> True
      | Some l \<Rightarrow> (case new of None \<Rightarrow> False
          | Some l' \<Rightarrow> severity (ea_kind (ls_action l)) \<le> severity (ea_kind (ls_action l')) \<and>
                      ea_expires (ls_action l) \<le> ea_expires (ls_action l')))"

lemma lease_keeps_refl [simp]: "lease_keeps l l"
  by (simp add: lease_keeps_def split: option.splits)

lemma lease_keeps_trans: "lease_keeps l l' \<Longrightarrow> lease_keeps l' l'' \<Longrightarrow> lease_keeps l l''"
  by (auto simp: lease_keeps_def split: option.splits)

lemma effective_kind_severity:
  "existing = Some l \<Longrightarrow> severity (ea_kind (ls_action l)) \<le> severity (effective_kind k existing)"
  by (auto simp: effective_kind_def supersedes_def)

lemma lease_expiry_ge:
  "now + lease_for config kind \<le> lease_expiry now config kind existing"
  "existing = Some l \<Longrightarrow> ea_expires (ls_action l) \<le> lease_expiry now config kind existing"
  by (auto simp: lease_expiry_def Let_def split: option.splits)

lemma base_lease_ok:
  assumes "en_inv f0 en c" and "has_port c p" and "existing = map_of (leases en) p"
  shows "f0 p = (if ls_had_restore (base_lease existing (port_fault c p) a)
      then Some (ls_restore (base_lease existing (port_fault c p) a)) else None)"
    and "tc_accepts c p (ls_restore (base_lease existing (port_fault c p) a))"
    and "fc_in_range (ls_restore (base_lease existing (port_fault c p) a))"
proof -
  have ok: "tc_ok c" and p: "case existing of None \<Rightarrow> port_fault c p = f0 p | Some l \<Rightarrow> lease_ok f0 c p l"
    using assms(1,3) by (auto simp: en_inv_def)
  have stored: "tc_accepts c p f \<and> fc_in_range f" if "port_fault c p = Some f" for f
  proof -
    have "fc_in_range f"
      using ok that by (auto simp: port_fault_eq tc_ok_def fe_ok_def fault_for_def fc_valid_def split: if_splits)
    then show ?thesis using tc_store.accepts_stored [OF ok that] by simp
  qed
  have "port_fault_target p \<noteq> []" by (simp add: port_fault_target_def)
  then have none: "fc_validate (port_fault_target p) no_fault = Inr () \<and> fc_in_range no_fault"
    by (simp add: fc_validate_iff)
  show "f0 p = (if ls_had_restore (base_lease existing (port_fault c p) a)
      then Some (ls_restore (base_lease existing (port_fault c p) a)) else None)"
    using p by (auto simp: base_lease_def lease_ok_def split: option.splits)
  show "tc_accepts c p (ls_restore (base_lease existing (port_fault c p) a))"
    using p none stored assms(2) by (auto simp: base_lease_def lease_ok_def split: option.splits)
  show "fc_in_range (ls_restore (base_lease existing (port_fault c p) a))"
    using p none stored assms(2) by (auto simp: base_lease_def lease_ok_def split: option.splits)
qed

lemma enforce_port_ok:
  assumes inv: "en_inv f0 en c" and "has_port c p" and "enforce_port p result now en c = (r, en', c')"
    and "ea_port result = p" and "ea_kind result \<noteq> NoEnforcement"
    and "ea_kind result = RateLimitKind \<Longrightarrow> ea_bits result \<noteq> 0"
  shows "en_inv f0 en' c' \<and> lease_keeps (map_of (leases en) q) (map_of (leases en') q) \<and>
    port_ids c' = port_ids c \<and> en_config en' = en_config en \<and>
    (\<exists>l. map_of (leases en') p = Some l \<and> ls_action l = r \<and> ea_port r = p \<and>
       severity (ea_kind result) \<le> severity (ea_kind r) \<and>
       now + lease_for (en_config en) (ea_kind r) \<le> ea_expires r \<and> ea_outcome r \<in> {Applied, Extended})"
proof -
  define existing where "existing = map_of (leases en) p"
  define kind where "kind = effective_kind (ea_kind result) existing"
  define bits where "bits = effective_bits (ea_kind result) (ea_bits result) existing"
  define l where "l = base_lease existing (port_fault c p) result"
  note base = base_lease_ok [OF inv assms(2) existing_def, of result, folded l_def]
  have old: "lease_ok f0 c p old" if "existing = Some old" for old
    using inv that by (auto simp: en_inv_def existing_def split: option.splits dest!: spec [of _ p])
  have kind: "kind \<noteq> NoEnforcement" "kind = RateLimitKind \<longrightarrow> bits \<noteq> 0" "severity (ea_kind result) \<le> severity kind"
    using assms(5,6) old
    by (auto simp: kind_def bits_def effective_kind_def effective_bits_def supersedes_def lease_ok_def
        severity_def split: option.splits enforcement_kind.splits)
  have "tc_accepts c p (overlay (ls_restore l) kind bits)" using base(2) by simp
  then obtain c1 where c1: "set_port_fault p (overlay (ls_restore l) kind bits) c = Inr c1"
    using set_port_fault_accepted by blast
  define r1 where "r1 = result\<lparr> ea_kind := kind, ea_bits := bits,
    ea_expires := lease_expiry now (en_config en) kind existing,
    ea_outcome := (if existing = None then Applied else Extended) \<rparr>"
  have res: "r = r1" "c' = c1" "en' = en\<lparr> leases := umap_assign p (l\<lparr> ls_action := r1 \<rparr>) (leases en) \<rparr>"
    using assms(3) c1 unfolding enforce_port_def Let_def
    by (auto simp flip: existing_def kind_def bits_def l_def r1_def)
  note eff = set_port_fault_effect [OF c1]
  have fields: "ea_port r1 = p" "ea_kind r1 = kind" "ea_bits r1 = bits" "ea_outcome r1 \<in> {Applied, Extended}"
    "ea_expires r1 = lease_expiry now (en_config en) kind existing"
    using assms(4) by (simp_all add: r1_def)
  have here: "lease_ok f0 c1 p (l\<lparr> ls_action := r1 \<rparr>)"
  proof -
    have "tc_accepts c1 p (ls_restore l)"
      using base(2) fun_cong [OF fun_cong [OF eff(2)], of p "ls_restore l"] by blast
    then show ?thesis using base kind eff(1) fields by (simp add: lease_ok_def)
  qed
  have "case map_of (leases en') q of None \<Rightarrow> port_fault c1 q = f0 q | Some l \<Rightarrow> lease_ok f0 c1 q l" for q
  proof (cases "q = p")
    case True
    then show ?thesis using here by (simp add: res)
  next
    case False
    then have "port_fault c1 q = port_fault c q" by (simp add: eff(1))
    with False inv lease_ok_cong [OF this eff(2)] show ?thesis
      by (auto simp: res en_inv_def split: option.splits dest!: spec [of _ q])
  qed
  moreover have "tc_ok c1" using inv eff(3) base(3) by (simp add: en_inv_def)
  moreover have "umap_ok (leases en')" using inv by (simp add: res en_inv_def umap_assign_ok)
  ultimately have "en_inv f0 en' c1" by (simp add: en_inv_def)
  moreover have "lease_keeps (map_of (leases en) q) (map_of (leases en') q)"
    using lease_expiry_ge(2) [of existing] effective_kind_severity [of existing]
    by (auto simp: res lease_keeps_def fields kind_def simp flip: existing_def split: option.splits)
  moreover have "now + lease_for (en_config en) kind \<le> ea_expires r1"
    by (simp add: fields lease_expiry_ge)
  ultimately show ?thesis
    using eff(4) kind(3) fields by (simp add: res)
qed

text \<open>One decision: the invariant stays, leases are kept, and the result says what happened.\<close>

lemma apply_decision_ok:
  assumes inv: "en_inv f0 en c" and step: "apply_decision d now en c = (r, en', c')"
  shows "en_inv f0 en' c' \<and> lease_keeps (map_of (leases en) q) (map_of (leases en') q) \<and>
    port_ids c' = port_ids c \<and> en_config en' = en_config en \<and>
    (if ea_outcome r \<in> {Applied, Extended}
     then \<exists>l. map_of (leases en') (ea_port r) = Some l \<and> ls_action l = r \<and>
       port_id_at c (ev_ingress (pd_anomaly d)) = Some (ea_port r) \<and>
       severity (kind_for (pd_action d)) \<le> severity (ea_kind r) \<and>
       now + lease_for (en_config en) (ea_kind r) \<le> ea_expires r
     else en' = en \<and> c' = c)"
proof -
  let ?port = "port_id_at c (ev_ingress (pd_anomaly d))"
  let ?result = "initial_action d ?port"
  show ?thesis
  proof (cases "ea_kind ?result = NoEnforcement \<or> ?port = None")
    case True
    then have "en' = en \<and> c' = c \<and> ea_outcome r \<notin> {Applied, Extended}"
      using step by (auto simp: apply_decision_def Let_def split: if_splits)
    with inv show ?thesis by auto
  next
    case False
    then obtain p where p: "?port = Some p" by auto
    define result where "result = ?result\<lparr> ea_bits :=
      (if ea_kind ?result = RateLimitKind then rate_limit_bits (en_config en) d else 0) \<rparr>"
    have kind: "ea_kind result = kind_for (pd_action d)" "ea_kind result \<noteq> NoEnforcement" "ea_port result = p"
      using False p by (simp_all add: result_def initial_action_def)
    have eq: "apply_decision d now en c =
        (if ea_kind result = RateLimitKind \<and> ea_bits result = 0
         then (result\<lparr> ea_outcome := Rejected \<rparr>, en, c) else enforce_port p result now en c)"
      unfolding apply_decision_def Let_def result_def using False p by simp
    show ?thesis
    proof (cases "ea_kind result = RateLimitKind \<and> ea_bits result = 0")
      case True
      then have "en' = en \<and> c' = c \<and> ea_outcome r \<notin> {Applied, Extended}"
        using step eq by auto
      with inv show ?thesis by auto
    next
      case nonzero: False
      have "enforce_port p result now en c = (r, en', c')"
        using step unfolding eq if_not_P [OF nonzero] .
      from enforce_port_ok [OF inv port_id_at_has_port [OF p] this kind(3,2)] nonzero kind(1) p
      show ?thesis by auto
    qed
  qed
qed

lemma apply_decisions_ok:
  assumes "en_inv f0 en c" and "apply_decisions ds now en c = (rs, en', c')"
  shows "en_inv f0 en' c' \<and> lease_keeps (map_of (leases en) q) (map_of (leases en') q) \<and>
    port_ids c' = port_ids c \<and> en_config en' = en_config en \<and> length rs = length ds"
  using assms
proof (induction ds arbitrary: en c rs)
  case (Cons d ds)
  obtain r en1 c1 where one: "apply_decision d now en c = (r, en1, c1)" by (cases "apply_decision d now en c")
  obtain rs1 where rest: "apply_decisions ds now en1 c1 = (rs1, en', c')" and rs: "rs = r # rs1"
    using Cons.prems(2) one by (auto simp: Let_def split: prod.splits)
  note step = apply_decision_ok [OF Cons.prems(1) one, of q]
  from Cons.IH [OF _ rest] step rs show ?case by (auto intro: lease_keeps_trans)
qed simp

text \<open>The release loop restores the ports of the leases it drops, whatever their order.\<close>

lemma release_loop_ok:
  assumes "umap_ok m" and "\<forall>(p, l) \<in> set m. lease_ok f0 c p l" and "tc_ok c"
    and "release_loop m now c = (released, kept, c')"
  shows "kept = filter (\<lambda>(p, l). ea_expires (ls_action l) > now) m \<and>
    released = map (\<lambda>(p, l). (ls_action l)\<lparr> ea_outcome := Released \<rparr>)
      (filter (\<lambda>(p, l). ea_expires (ls_action l) \<le> now) m) \<and>
    tc_ok c' \<and> tc_accepts c' = tc_accepts c \<and> port_ids c' = port_ids c \<and>
    (\<forall>p. port_fault c' p =
      (if p \<in> fst ` set (filter (\<lambda>(p, l). ea_expires (ls_action l) \<le> now) m) then f0 p else port_fault c p))"
  using assms
proof (induction m arbitrary: c released kept)
  case (Cons pl m)
  obtain p l where pl: "pl = (p, l)" by (cases pl)
  show ?case
  proof (cases "ea_expires (ls_action l) > now")
    case True
    obtain kept1 where "release_loop m now c = (released, kept1, c')" and "kept = (p, l) # kept1"
      using Cons.prems(4) True by (auto simp: pl Let_def split: prod.splits)
    with Cons.IH [OF _ _ _ this(1)] Cons.prems(1-3) True show ?thesis by (simp add: pl)
  next
    case False
    have l: "lease_ok f0 c p l" using Cons.prems(2) by (simp add: pl)
    note eff = restore_port_effect [OF l Cons.prems(3)]
    obtain released1 where rest: "release_loop m now (restore_port l c) = (released1, kept, c')"
      and released: "released = (ls_action l)\<lparr> ea_outcome := Released \<rparr> # released1"
      using Cons.prems(4) False by (auto simp: pl Let_def split: prod.splits)
    have "lease_ok f0 (restore_port l c) q k" if "(q, k) \<in> set m" for q k
    proof -
      have "q \<noteq> p" using that Cons.prems(1) by (force simp: pl)
      then have "port_fault (restore_port l c) q = port_fault c q" using eff by simp
      then show ?thesis
        using that Cons.prems(2) eff lease_ok_cong [of "restore_port l c" q c f0 k] by (auto simp: pl)
    qed
    then have "\<forall>(q, k) \<in> set m. lease_ok f0 (restore_port l c) q k" by auto
    from Cons.IH [OF _ this _ rest] Cons.prems(1) eff False show ?thesis
      by (auto simp: pl released)
  qed
qed simp

lemma release_expired_ok:
  assumes inv: "en_inv f0 en c" and step: "release_expired now en c = (released, en', c')"
  shows "en_inv f0 en' c' \<and> port_ids c' = port_ids c \<and>
    leases en' = filter (\<lambda>(p, l). ea_expires (ls_action l) > now) (leases en) \<and>
    mset released = mset (map (\<lambda>(p, l). (ls_action l)\<lparr> ea_outcome := Released \<rparr>)
      (filter (\<lambda>(p, l). ea_expires (ls_action l) \<le> now) (leases en)))"
proof -
  obtain rel kept where loop: "release_loop (leases en) now c = (rel, kept, c')"
    and r: "released = std_sort ea_port_less rel" "en' = en\<lparr> leases := kept \<rparr>"
    using step by (auto simp: release_expired_def Let_def split: prod.splits)
  have ok: "umap_ok (leases en)" "tc_ok c" using inv by (simp_all add: en_inv_def)
  have all: "\<forall>(p, l) \<in> set (leases en). lease_ok f0 c p l"
    using en_inv_leased [OF inv] by (auto simp: umap_ok_mem_iff [OF ok(1)])
  note res = release_loop_ok [OF ok(1) all ok(2) loop]
  have gone: "p \<in> fst ` set (filter (\<lambda>(p, l). ea_expires (ls_action l) \<le> now) (leases en)) \<longleftrightarrow>
      (\<exists>l. map_of (leases en) p = Some l \<and> ea_expires (ls_action l) \<le> now)" for p
  proof -
    have "p \<in> fst ` set (filter (\<lambda>(p, l). ea_expires (ls_action l) \<le> now) (leases en)) \<longleftrightarrow>
        (\<exists>l. (p, l) \<in> set (leases en) \<and> ea_expires (ls_action l) \<le> now)" by force
    then show ?thesis unfolding umap_ok_mem_iff [OF ok(1)] .
  qed
  have kept_ok: "umap_ok kept"
    using res ok(1) by (simp add: distinct_map_filter)
  have stay: "map_of kept p = Some l \<longleftrightarrow> map_of (leases en) p = Some l \<and> ea_expires (ls_action l) > now" for p l
    unfolding umap_ok_mem_iff [OF kept_ok, symmetric] umap_ok_mem_iff [OF ok(1), symmetric] using res by simp
  have "en_inv f0 en' c'"
  proof (rule en_invI)
    show "umap_ok (leases en')" "tc_ok c'" using res kept_ok r by simp_all
  next
    fix p l assume "map_of (leases en') p = Some l"
    then have l: "map_of (leases en) p = Some l" "ea_expires (ls_action l) > now" using stay r by auto
    then have "port_fault c' p = port_fault c p" using res gone [of p] by auto
    then show "lease_ok f0 c' p l"
      using en_inv_leased [OF inv l(1)] res lease_ok_cong [of c' p c f0 l] by simp
  next
    fix p assume none: "map_of (leases en') p = None"
    show "port_fault c' p = f0 p"
    proof (cases "map_of (leases en) p")
      case None
      then show ?thesis using en_inv_unleased [OF inv None] res gone [of p] by auto
    next
      case (Some l)
      then have "ea_expires (ls_action l) \<le> now" using none stay [of p l] r by auto
      then show ?thesis using Some res gone [of p] by auto
    qed
  qed
  then show ?thesis using res r by simp
qed

lemma release_port_ok:
  assumes inv: "en_inv f0 en c" and step: "release_port p en c = (b, en', c')"
  shows "en_inv f0 en' c' \<and> port_ids c' = port_ids c"
proof (cases "map_of (leases en) p")
  case None
  with assms show ?thesis by (simp add: release_port_def)
next
  case (Some l)
  note l = en_inv_leased [OF inv Some]
  have ok: "tc_ok c" "umap_ok (leases en)" using inv by (simp_all add: en_inv_def)
  note eff = restore_port_effect [OF l ok(1)]
  have res: "en' = en\<lparr> leases := umap_erase p (leases en) \<rparr>" "c' = restore_port l c"
    using step Some by (auto simp: release_port_def)
  have other: "port_fault c' q = port_fault c q" if "q \<noteq> p" for q
    using that eff res by simp
  have "en_inv f0 en' c'"
  proof (rule en_invI)
    show "umap_ok (leases en')" "tc_ok c'" using ok eff res by (auto intro: umap_erase_ok)
  next
    fix q k assume "map_of (leases en') q = Some k"
    then have q: "q \<noteq> p" "map_of (leases en) q = Some k" by (auto simp: res split: if_splits)
    then show "lease_ok f0 c' q k"
      using en_inv_leased [OF inv q(2)] other [OF q(1)] lease_ok_cong [of c' q c f0 k] eff res by simp
  next
    fix q assume "map_of (leases en') q = None"
    then show "port_fault c' q = f0 q"
      using en_inv_unleased [OF inv, of q] other [of q] eff res by (cases "q = p") auto
  qed
  then show ?thesis using eff res by simp
qed

section \<open>Enforcement as a state machine\<close>

text \<open>What may happen between the enforcer and the controller while the operator leaves the port
  faults and the topology alone: decisions are applied, leases run out or are released, and
  frames are evaluated.\<close>

inductive en_step :: "enforcer \<times> topology_controller \<Rightarrow> enforcer \<times> topology_controller \<Rightarrow> bool" where
  en_apply: "apply_decisions ds now en c = (rs, en', c') \<Longrightarrow> en_step (en, c) (en', c')"
| en_expire: "release_expired now en c = (rs, en', c') \<Longrightarrow> en_step (en, c) (en', c')"
| en_release: "release_port p en c = (b, en', c') \<Longrightarrow> en_step (en, c) (en', c')"
| en_frame: "en_step (en, c) (en, snd (evaluate_port p n at c))"

inductive en_steps :: "enforcer \<times> topology_controller \<Rightarrow> enforcer \<times> topology_controller \<Rightarrow> bool" where
  en_refl: "en_steps s s"
| en_trans: "en_steps s t \<Longrightarrow> en_step t u \<Longrightarrow> en_steps s u"

lemma evaluate_port_tc_ok: "tc_ok c \<Longrightarrow> tc_ok (snd (evaluate_port p n at c))"
  by (auto simp: evaluate_port_def tc_ok_def evaluate_ok split: option.splits prod.splits)
    (metis evaluate_ok snd_conv)+

lemma evaluate_port_accepts: "tc_accepts (snd (evaluate_port p n at c)) = tc_accepts c"
proof -
  have "has_port (snd (evaluate_port p n at c)) = has_port c"
    by (rule ext) (simp add: has_port_iff)
  then show ?thesis by simp
qed

lemma en_step_inv: "en_step s t \<Longrightarrow> en_inv f0 (fst s) (snd s) \<Longrightarrow> en_inv f0 (fst t) (snd t)"
proof (induction rule: en_step.induct)
  case (en_frame en c p n at)
  then have inv: "en_inv f0 en c" by simp
  have "lease_ok f0 (snd (evaluate_port p n at c)) q l" if "map_of (leases en) q = Some l" for q l
    using en_inv_leased [OF inv that] lease_ok_cong [of "snd (evaluate_port p n at c)" q c f0 l]
      evaluate_port_accepts [of p n at c] by simp
  with en_inv_ok [OF inv] evaluate_port_tc_ok [of c p n at] en_inv_unleased [OF inv]
  show ?case by (auto intro!: en_invI)
next
  case (en_apply ds now en c rs en' c')
  with apply_decisions_ok [OF _ en_apply(1)] show ?case by simp
next
  case (en_expire now en c rs en' c')
  with release_expired_ok [OF _ en_expire(1)] show ?case by simp
next
  case (en_release p en c b en' c')
  with release_port_ok [OF _ en_release(1)] show ?case by simp
qed

lemma en_steps_inv: "en_steps s t \<Longrightarrow> en_inv f0 (fst s) (snd s) \<Longrightarrow> en_inv f0 (fst t) (snd t)"
  by (induction rule: en_steps.induct) (auto intro: en_step_inv)

lemma en_steps_new:
  assumes "tc_reachable c0" and "en_steps (en_new config, c0) (en, c)"
  shows "en_inv (port_fault c0) en c"
proof -
  have "tc_ok c0" using tc_reachable_inv [OF assms(1)] by (simp add: tc_inv_def)
  then show ?thesis using en_steps_inv [OF assms(2)] en_inv_new by simp
qed

lemma en_step_config: "en_step s t \<Longrightarrow> en_config (fst t) = en_config (fst s)"
proof (induction rule: en_step.induct)
  case (en_apply ds now en c rs en' c')
  have one: "apply_decision d now en c = (r, en', c') \<Longrightarrow> en_config en' = en_config en" for d en c r en' c'
    by (auto simp: apply_decision_def enforce_port_def Let_def split: if_splits option.splits sum.splits)
  from en_apply show ?case
  proof (induction ds arbitrary: en c rs)
    case (Cons d ds)
    obtain r en1 c1 where "apply_decision d now en c = (r, en1, c1)" by (cases "apply_decision d now en c")
    with Cons one show ?case by (fastforce simp: Let_def split: prod.splits)
  qed simp
qed (auto simp: release_expired_def release_port_def Let_def split: prod.splits option.splits)

lemma en_steps_config: "en_steps s t \<Longrightarrow> en_config (fst t) = en_config (fst s)"
  by (induction rule: en_steps.induct) (auto dest: en_step_config)

lemma apply_decisions_results:
  assumes "en_inv f0 en c" and "apply_decisions ds now en c = (rs, en', c')"
  shows "list_all2 (\<lambda>d r. ea_outcome r \<in> {Applied, Extended} \<longrightarrow>
    severity (kind_for (pd_action d)) \<le> severity (ea_kind r) \<and>
    now + lease_for (en_config en) (ea_kind r) \<le> ea_expires r) ds rs"
  using assms
proof (induction ds arbitrary: en c rs)
  case (Cons d ds)
  obtain r en1 c1 where one: "apply_decision d now en c = (r, en1, c1)" by (cases "apply_decision d now en c")
  obtain rs1 where rest: "apply_decisions ds now en1 c1 = (rs1, en', c')" and rs: "rs = r # rs1"
    using Cons.prems(2) one by (auto simp: Let_def split: prod.splits)
  note step = apply_decision_ok [OF Cons.prems(1) one, of "[]"]
  have "severity (kind_for (pd_action d)) \<le> severity (ea_kind r) \<and>
      now + lease_for (en_config en) (ea_kind r) \<le> ea_expires r"
    if "ea_outcome r \<in> {Applied, Extended}"
    using step [unfolded if_P [OF that]] by blast
  with Cons.IH [OF _ rest] step show ?case by (simp add: rs)
qed simp

text \<open>A quarantine decision on the first host of the example topology, for the witnesses.\<close>

definition example_decision :: policy_decision where
  "example_decision = \<lparr> pd_rule = ''runts'', pd_action = Quarantine, pd_anomaly = example_event,
     pd_hits = 1, pd_rate = 0 \<rparr>"

definition example_enforced :: "enforcement_action list \<times> enforcer \<times> topology_controller" where
  "example_enforced = apply_decisions [example_decision] 100 (en_new default_enforcer_config) example_controller"

lemma example_controller_reachable: "tc_reachable example_controller"
  unfolding example_controller_def
  by (rule tc_reachable.step [OF tc_reachable.start]) (rule tc_step.load [OF example_topology_create])

lemma example_controller_fault: "port_fault example_controller p = None"
  by (simp add: port_fault_eq example_controller_def tc_load_def Let_def fe_new_def fault_for_def)

lemma example_enforced_eq:
  "\<exists>r l. example_enforced = ([r], (en_new default_enforcer_config)\<lparr> leases := [(''h1'', l)] \<rparr>, example_isolated) \<and>
    ls_action l = r \<and> ea_kind r = Isolate \<and> ea_outcome r = Applied \<and> ea_expires r = 30000000100"
proof -
  have "port_id_at example_controller 0 = Some ''h1''"
    by (simp add: port_id_at_def example_controller_ports Let_def)
  then show ?thesis
    using example_isolated_step
    by (simp add: example_enforced_def apply_decision_def enforce_port_def Let_def initial_action_def
        example_decision_def example_event_def kind_for_def en_new_def effective_kind_def
        effective_bits_def supersedes_def base_lease_def example_controller_fault overlay_def
        lease_expiry_def lease_for_def default_enforcer_config_def)
qed

lemma example_steps:
  "en_steps (en_new default_enforcer_config, example_controller) (snd example_enforced)"
proof -
  obtain rs en c where e: "example_enforced = (rs, en, c)" by (cases example_enforced)
  then have "en_step (en_new default_enforcer_config, example_controller) (en, c)"
    by (intro en_apply [of "[example_decision]" 100 _ _ rs]) (simp add: example_enforced_def)
  then show ?thesis by (auto simp: e intro: en_trans [OF en_refl])
qed

lemma example_enforced_steps:
  obtains r l where "en_steps (en_new default_enforcer_config, example_controller)
      ((en_new default_enforcer_config)\<lparr> leases := [(''h1'', l)] \<rparr>, example_isolated)"
    and "apply_decisions [example_decision] 100 (en_new default_enforcer_config) example_controller =
      ([r], (en_new default_enforcer_config)\<lparr> leases := [(''h1'', l)] \<rparr>, example_isolated)"
    and "ls_action l = r" "ea_kind r = Isolate" "ea_outcome r = Applied" "ea_expires r = 30000000100"
proof -
  obtain r l where e: "example_enforced =
      ([r], (en_new default_enforcer_config)\<lparr> leases := [(''h1'', l)] \<rparr>, example_isolated)"
    and l: "ls_action l = r" "ea_kind r = Isolate" "ea_outcome r = Applied" "ea_expires r = 30000000100"
    using example_enforced_eq by blast
  show ?thesis
    using that [OF _ _ l] e example_steps by (simp add: example_enforced_def)
qed

text \<open>C9. Enforcement is reversible. Whatever decisions, expiries, releases and frames there have been, a
  port without a lease has the fault it had before enforcement began; and once every lease has
  run out, one release restores every port and leaves no lease.\<close>

theorem enforcement_reversible:
  assumes "tc_reachable c0" and "en_steps (en_new config, c0) (en, c)"
    and "\<forall>(p, l) \<in> set (leases en). ea_expires (ls_action l) \<le> now"
    and "release_expired now en c = (released, en', c')"
  shows "(\<forall>p. \<not> is_enforced en p \<longrightarrow> port_fault c p = port_fault c0 p) \<and>
    leases en' = [] \<and> port_fault c' = port_fault c0 \<and> length released = length (leases en)"
proof -
  have inv: "en_inv (port_fault c0) en c" by (rule en_steps_new [OF assms(1,2)])
  note res = release_expired_ok [OF inv assms(4)]
  have all: "filter (\<lambda>(p, l). ea_expires (ls_action l) \<le> now) (leases en) = leases en"
    using assms(3) by (auto intro: filter_True)
  have none: "leases en' = []"
    using res assms(3) by (auto simp: filter_empty_conv)
  have "length released = length (leases en)"
  proof -
    have "mset released = mset (map (\<lambda>(p, l). (ls_action l)\<lparr> ea_outcome := Released \<rparr>) (leases en))"
      using res by (simp add: all)
    then show ?thesis by (metis length_map size_mset)
  qed
  moreover have "port_fault c' = port_fault c0"
    using en_inv_unleased [of "port_fault c0" en' c'] res none by (auto simp: fun_eq_iff)
  ultimately show ?thesis
    using none en_inv_unleased [OF inv] by (simp add: is_enforced_def)
qed

theorem enforcement_reversible_witness:
  "\<exists>en c released en' c'.
    en_steps (en_new default_enforcer_config, example_controller) (en, c) \<and> is_enforced en ''h1'' \<and>
    release_expired 30000000100 en c = (released, en', c') \<and> leases en' = [] \<and>
    port_fault c' = port_fault example_controller"
proof -
  obtain r l where s: "en_steps (en_new default_enforcer_config, example_controller)
      ((en_new default_enforcer_config)\<lparr> leases := [(''h1'', l)] \<rparr>, example_isolated)"
    and l: "ls_action l = r" "ea_expires r = 30000000100"
    by (rule example_enforced_steps)
  let ?en = "(en_new default_enforcer_config)\<lparr> leases := [(''h1'', l)] \<rparr>"
  obtain released en' c' where r: "release_expired 30000000100 ?en example_isolated = (released, en', c')"
    by (cases "release_expired 30000000100 ?en example_isolated")
  have "\<forall>(p, l) \<in> set (leases ?en). ea_expires (ls_action l) \<le> 30000000100" using l by simp
  note rev = enforcement_reversible [OF example_controller_reachable s this r]
  have "is_enforced ?en ''h1''" by (simp add: is_enforced_def)
  with rev r s show ?thesis by (intro exI [of _ ?en] exI [of _ example_isolated]) auto
qed

text \<open>C10. Applying decisions answers each of them and never weakens a live lease: the kind on a leased
  port does not get less severe, and its expiry does not move back. A decision that took effect
  leaves the port under a kind at least as severe as its own, for at least the lease of that
  kind from now.\<close>

theorem enforcement_never_weakens:
  assumes "tc_reachable c0" and "en_steps (en_new config, c0) (en, c)"
    and "apply_decisions ds now en c = (rs, en', c')"
  shows "lease_keeps (map_of (leases en) p) (map_of (leases en') p) \<and>
    list_all2 (\<lambda>d r. ea_outcome r \<in> {Applied, Extended} \<longrightarrow>
      severity (kind_for (pd_action d)) \<le> severity (ea_kind r) \<and>
      now + lease_for config (ea_kind r) \<le> ea_expires r) ds rs"
proof -
  have inv: "en_inv (port_fault c0) en c" by (rule en_steps_new [OF assms(1,2)])
  have "en_config en = config"
    using en_steps_config [OF assms(2)] by (simp add: en_new_def)
  with apply_decisions_ok [OF inv assms(3)] apply_decisions_results [OF inv assms(3)]
  show ?thesis by simp
qed

theorem enforcement_never_weakens_witness:
  "\<exists>r en' c'. apply_decisions [example_decision] 100 (en_new default_enforcer_config) example_controller =
      ([r], en', c') \<and> severity (kind_for Quarantine) \<le> severity (ea_kind r)"
proof -
  obtain r l where a: "apply_decisions [example_decision] 100 (en_new default_enforcer_config) example_controller =
      ([r], (en_new default_enforcer_config)\<lparr> leases := [(''h1'', l)] \<rparr>, example_isolated)"
    and r: "ea_outcome r = Applied"
    by (rule example_enforced_steps)
  from enforcement_never_weakens [OF example_controller_reachable en_refl a] a r show ?thesis
    by (simp add: example_decision_def)
qed

text \<open>While a port is under a drop or a quarantine lease, every frame from it is dropped.\<close>

theorem quarantine_cuts_off:
  assumes "tc_reachable c0" and "en_steps (en_new config, c0) (en, c)"
    and "map_of (leases en) p = Some l" and "ea_kind (ls_action l) \<in> {Blackhole, Isolate}"
  shows "fst (evaluate_port p n at c) = Inr drop_decision"
proof -
  have inv: "en_inv (port_fault c0) en c" by (rule en_steps_new [OF assms(1,2)])
  have l: "lease_ok (port_fault c0) c p l" by (rule en_inv_leased [OF inv assms(3)])
  then have port: "has_port c p"
    and fault: "port_fault c p = Some (overlay (ls_restore l) (ea_kind (ls_action l)) (ea_bits (ls_action l)))"
    by (auto simp: lease_ok_def)
  then have "fault_for (tc_engine c) (port_fault_target p) =
      Some (overlay (ls_restore l) (ea_kind (ls_action l)) (ea_bits (ls_action l)))"
    by (simp add: port_fault_eq)
  then have "fst (evaluate (port_fault_target p) n at (tc_engine c)) = drop_decision"
    using assms(4)
    by (auto simp: fault_for_def evaluate_Some evaluate_state_blocked overlay_def)
  then show ?thesis by (simp add: evaluate_port_eq [OF port])
qed

theorem quarantine_cuts_off_witness:
  "\<exists>en c. en_steps (en_new default_enforcer_config, example_controller) (en, c) \<and>
    fst (evaluate_port ''h1'' 60 5 c) = Inr drop_decision"
proof -
  obtain r l where s: "en_steps (en_new default_enforcer_config, example_controller)
      ((en_new default_enforcer_config)\<lparr> leases := [(''h1'', l)] \<rparr>, example_isolated)"
    and l: "ls_action l = r" "ea_kind r = Isolate"
    by (rule example_enforced_steps)
  from quarantine_cuts_off [OF example_controller_reachable s, of "''h1''" l] l s show ?thesis by auto
qed

text \<open>A release pass takes exactly the leases that have run out: it reports each of them once, in the
  order of the ports, keeps every other lease unchanged, and gives back the fault of each port
  it releases.\<close>

theorem release_takes_expired:
  assumes "tc_reachable c0" and "en_steps (en_new config, c0) (en, c)"
    and "release_expired now en c = (released, en', c')"
  shows "(\<forall>p. map_of (leases en') p =
      (case map_of (leases en) p of None \<Rightarrow> None
       | Some l \<Rightarrow> if ea_expires (ls_action l) > now then Some l else None)) \<and>
    (\<forall>p l. map_of (leases en) p = Some l \<and> ea_expires (ls_action l) \<le> now \<longrightarrow>
      port_fault c' p = port_fault c0 p) \<and>
    sorted_by ea_port_less released \<and>
    mset released = mset (map (\<lambda>(p, l). (ls_action l)\<lparr> ea_outcome := Released \<rparr>)
      (filter (\<lambda>(p, l). ea_expires (ls_action l) \<le> now) (leases en)))"
proof -
  have inv: "en_inv (port_fault c0) en c" by (rule en_steps_new [OF assms(1,2)])
  note res = release_expired_ok [OF inv assms(3)]
  have ok: "umap_ok (leases en)" "umap_ok (leases en')"
    using en_inv_ok [OF inv] en_inv_ok [of "port_fault c0" en' c'] res by auto
  have mem: "map_of (leases en') p = Some l \<longleftrightarrow> map_of (leases en) p = Some l \<and> ea_expires (ls_action l) > now" for p l
    unfolding umap_ok_mem_iff [OF ok(1), symmetric] umap_ok_mem_iff [OF ok(2), symmetric] using res by auto
  have left: "map_of (leases en') p = (case map_of (leases en) p of None \<Rightarrow> None
       | Some l \<Rightarrow> if ea_expires (ls_action l) > now then Some l else None)" for p
  proof (cases "map_of (leases en) p")
    case None
    then have "map_of (leases en') p = None" using mem [of p] by (metis option.distinct(1) option.exhaust)
    with None show ?thesis by simp
  next
    case (Some l)
    then have "map_of (leases en') p = (if ea_expires (ls_action l) > now then Some l else None)"
      using mem [of p] by (metis option.exhaust option.inject)
    with Some show ?thesis by simp
  qed
  have "port_fault c' p = port_fault c0 p"
    if "map_of (leases en) p = Some l" "ea_expires (ls_action l) \<le> now" for p l
    using en_inv_unleased [of "port_fault c0" en' c' p] res left [of p] that by simp
  moreover have "strict_weak_order ea_port_less"
    unfolding ea_port_less_def by (rule strict_weak_order_key)
  then have "sorted_by ea_port_less released"
    using assms(3) strict_weak_order.std_sort_sorted [of ea_port_less]
    by (auto simp: release_expired_def Let_def split: prod.splits)
  ultimately show ?thesis using left res by blast
qed

theorem release_takes_expired_witness:
  "\<exists>en c released en' c'.
    en_steps (en_new default_enforcer_config, example_controller) (en, c) \<and>
    release_expired 99 en c = (released, en', c') \<and> map_of (leases en') ''h1'' = map_of (leases en) ''h1'' \<and>
    map_of (leases en) ''h1'' \<noteq> None"
proof -
  obtain r l where s: "en_steps (en_new default_enforcer_config, example_controller)
      ((en_new default_enforcer_config)\<lparr> leases := [(''h1'', l)] \<rparr>, example_isolated)"
    and l: "ls_action l = r" "ea_expires r = 30000000100"
    by (rule example_enforced_steps)
  let ?en = "(en_new default_enforcer_config)\<lparr> leases := [(''h1'', l)] \<rparr>"
  obtain released en' c' where r: "release_expired 99 ?en example_isolated = (released, en', c')"
    by (cases "release_expired 99 ?en example_isolated")
  have "map_of (leases en') ''h1'' = Some l"
    using release_takes_expired [OF example_controller_reachable s r] l by (simp split: if_splits)
  then show ?thesis using s r by (intro exI [of _ ?en] exI [of _ example_isolated]) auto
qed

end
