(* ===== verification/Analysis_Pipeline.thy ===== *)
theory Analysis_Pipeline
  imports Policy_Enforcer
begin

text \<open>
  The analysis pipeline, \<^verbatim>\<open>include/wirelab/analysis_pipeline.hpp\<close> and
  \<^verbatim>\<open>src/analysis_pipeline.cpp\<close>: detection, policy and enforcement in one place. The
  reference to the topology controller is the flag \<open>pl_attached\<close> with the controller passed
  and returned beside the pipeline. The theorems show that the clamped clock keeps the detector
  from throwing and that no lease outlives its expiry across an evaluation.
\<close>

section \<open>State and operations\<close>

record analysis_outcome =
  ao_anomalies :: "anomaly_event list"
  ao_decisions :: "policy_decision list"
  ao_released :: "enforcement_action list"
  ao_enforced :: "enforcement_action list"
  ao_timestamp :: u64

definition outcome_empty :: "analysis_outcome \<Rightarrow> bool" where
  "outcome_empty o' \<longleftrightarrow> ao_anomalies o' = [] \<and> ao_decisions o' = [] \<and> ao_released o' = [] \<and> ao_enforced o' = []"

record pipeline =
  pl_detector :: detector
  pl_policies :: policy_engine
  pl_enforcer :: enforcer
  pl_attached :: bool
  pl_last_timestamp :: u64

text \<open>The two constructors; the exception is the detector's.\<close>

definition pl_new :: "detector_config \<Rightarrow> enforcer_config \<Rightarrow> bool \<Rightarrow> detector_error + pipeline" where
  "pl_new dconfig econfig attached =
     (case ad_new dconfig of
        Inl e \<Rightarrow> Inl e
      | Inr d \<Rightarrow> Inr \<lparr> pl_detector = d, pl_policies = pe_new, pl_enforcer = en_new econfig,
                      pl_attached = attached, pl_last_timestamp = 0 \<rparr>)"

definition pl_evaluate ::
    "packet_analysis list \<Rightarrow> u64 \<Rightarrow> int \<Rightarrow> pipeline \<Rightarrow> topology_controller
      \<Rightarrow> detector_error + analysis_outcome \<times> pipeline \<times> topology_controller" where
  "pl_evaluate packets timestamp now p c =
     (let ts = max (pl_last_timestamp p) timestamp;
          p = p\<lparr> pl_last_timestamp := ts \<rparr>
      in case ad_evaluate packets ts (pl_detector p) of
           Inl e \<Rightarrow> Inl e
         | Inr (anomalies, d) \<Rightarrow>
             let (decisions, e) = pe_evaluate anomalies (pl_policies p);
                 p = p\<lparr> pl_detector := d, pl_policies := e \<rparr>
             in if \<not> pl_attached p
                then Inr (\<lparr> ao_anomalies = anomalies, ao_decisions = decisions, ao_released = [],
                            ao_enforced = [], ao_timestamp = ts \<rparr>, p, c)
                else
                  let (released, en, c) = release_expired now (pl_enforcer p) c;
                      (enforced, en, c) = apply_decisions decisions now en c
                  in Inr (\<lparr> ao_anomalies = anomalies, ao_decisions = decisions, ao_released = released,
                            ao_enforced = enforced, ao_timestamp = ts \<rparr>, p\<lparr> pl_enforcer := en \<rparr>, c))"

definition pl_attach :: "pipeline \<Rightarrow> pipeline" where
  "pl_attach p = p\<lparr> pl_attached := True \<rparr>"

definition pl_detach :: "pipeline \<Rightarrow> pipeline" where
  "pl_detach p = p\<lparr> pl_attached := False \<rparr>"

definition pl_enforces :: "pipeline \<Rightarrow> bool" where
  "pl_enforces p = pl_attached p"

definition pl_release :: "string \<Rightarrow> pipeline \<Rightarrow> topology_controller \<Rightarrow> bool \<times> pipeline \<times> topology_controller" where
  "pl_release port p c =
     (if \<not> pl_attached p then (False, p, c)
      else let (b, en, c) = release_port port (pl_enforcer p) c in (b, p\<lparr> pl_enforcer := en \<rparr>, c))"

definition pl_reset :: "pipeline \<Rightarrow> pipeline" where
  "pl_reset p =
     p\<lparr> pl_detector := ad_reset (pl_detector p), pl_policies := pe_reset (pl_policies p),
        pl_enforcer := en_forget (pl_enforcer p), pl_last_timestamp := 0 \<rparr>"

section \<open>Reachable pipelines\<close>

text \<open>Besides its own operations, clients reach the rules through \<open>policies()\<close>.\<close>

inductive pl_step :: "pipeline \<times> topology_controller \<Rightarrow> pipeline \<times> topology_controller \<Rightarrow> bool" where
  ps_evaluate: "pl_evaluate packets ts now p c = Inr (out, p', c') \<Longrightarrow> pl_step (p, c) (p', c')"
| ps_attach: "pl_step (p, c) (pl_attach p, c)"
| ps_detach: "pl_step (p, c) (pl_detach p, c)"
| ps_release: "pl_release port p c = (b, p', c') \<Longrightarrow> pl_step (p, c) (p', c')"
| ps_reset: "pl_step (p, c) (pl_reset p, c)"
| ps_policies: "pl_step (p, c) (p\<lparr> pl_policies := e \<rparr>, c)"
| ps_controller: "pl_step (p, c) (p, c')"

inductive pl_reachable :: "detector_config \<Rightarrow> enforcer_config \<Rightarrow> pipeline \<times> topology_controller \<Rightarrow> bool"
  for dconfig econfig where
  pl_start: "pl_new dconfig econfig attached = Inr p \<Longrightarrow> pl_reachable dconfig econfig (p, c)"
| pl_next: "pl_reachable dconfig econfig s \<Longrightarrow> pl_step s t \<Longrightarrow> pl_reachable dconfig econfig t"

text \<open>The clock of the detector never runs ahead of the clamped clock.\<close>

definition pl_clock :: "detector_config \<Rightarrow> pipeline \<Rightarrow> bool" where
  "pl_clock dconfig p \<longleftrightarrow> ad_inv (pl_detector p) \<and> ad_config (pl_detector p) = dconfig \<and>
     (has_timestamp (pl_detector p) \<longrightarrow> last_timestamp (pl_detector p) \<le> pl_last_timestamp p)"

lemma ad_evaluate_Inr_iff:
  "(\<exists>r. ad_evaluate ps ts d = Inr r) \<longleftrightarrow> \<not> (has_timestamp d \<and> ts < last_timestamp d)"
  by (auto simp: ad_evaluate_def Let_def)

lemma ad_evaluate_clamped:
  assumes "pl_clock dconfig p"
  shows "\<exists>r. ad_evaluate ps (max (pl_last_timestamp p) ts) (pl_detector p) = Inr r"
  using assms unfolding ad_evaluate_Inr_iff pl_clock_def
  by (meson leD le_max_iff_disj)

lemma pl_evaluate_detector:
  assumes "pl_evaluate packets ts now p c = Inr (out, p', c')"
  shows "\<exists>events. ad_evaluate packets (max (pl_last_timestamp p) ts) (pl_detector p) = Inr (events, pl_detector p') \<and>
    ao_anomalies out = events \<and> pl_last_timestamp p' = max (pl_last_timestamp p) ts \<and>
    ao_timestamp out = max (pl_last_timestamp p) ts"
  using assms
  by (auto simp: pl_evaluate_def Let_def split: sum.splits prod.splits if_splits)

lemma pl_clock_evaluate:
  assumes "pl_clock dconfig p" and "pl_evaluate packets ts now p c = Inr (out, p', c')"
  shows "pl_clock dconfig p'"
proof -
  obtain events where e: "ad_evaluate packets (max (pl_last_timestamp p) ts) (pl_detector p) = Inr (events, pl_detector p')"
    and t: "pl_last_timestamp p' = max (pl_last_timestamp p) ts"
    using pl_evaluate_detector [OF assms(2)] by blast
  have "ad_inv (pl_detector p)" using assms(1) by (simp add: pl_clock_def)
  note step = ad_evaluate_Inr [OF this e]
  show ?thesis using assms(1) step t by (simp add: pl_clock_def)
qed

lemma pl_step_clock: "pl_step s t \<Longrightarrow> pl_clock dconfig (fst s) \<Longrightarrow> pl_clock dconfig (fst t)"
proof (induction rule: pl_step.induct)
  case (ps_evaluate packets ts now p c out p' c')
  then show ?case using pl_clock_evaluate by simp
next
  case (ps_release port p c b p' c')
  then show ?case by (auto simp: pl_release_def pl_clock_def split: if_splits prod.splits)
qed (auto simp: pl_clock_def pl_attach_def pl_detach_def pl_reset_def ad_reset_def ad_inv_def split: if_splits)

lemma pl_reachable_clock: "pl_reachable dconfig econfig s \<Longrightarrow> pl_clock dconfig (fst s)"
proof (induction rule: pl_reachable.induct)
  case (pl_start attached p c)
  then show ?case
    using ad_new_inv by (auto simp: pl_new_def pl_clock_def split: sum.splits)
next
  case (pl_next s t)
  then show ?case using pl_step_clock by blast
qed

lemma pl_evaluate_total:
  assumes "pl_clock dconfig p"
  shows "\<exists>out p' c'. pl_evaluate packets ts now p c = Inr (out, p', c')"
proof -
  obtain events d where e: "ad_evaluate packets (max (pl_last_timestamp p) ts) (pl_detector p) = Inr (events, d)"
    using ad_evaluate_clamped [OF assms, of packets ts] by auto
  then show ?thesis
    by (cases "pl_attached p") (auto simp: pl_evaluate_def Let_def split: prod.splits)
qed

text \<open>However the batch clock jumps, an evaluation never throws: the detector is shown the latest
  time so far, which the outcome reports, and what comes out are the decisions of the policies on
  the anomalies. Without a controller nothing is released or enforced and no port changes.\<close>

theorem pipeline_never_throws:
  assumes "pl_reachable dconfig econfig (p, c)"
  shows "\<exists>out p' c'. pl_evaluate packets ts now p c = Inr (out, p', c') \<and>
    ao_timestamp out = max (pl_last_timestamp p) ts \<and> pl_last_timestamp p' = max (pl_last_timestamp p) ts \<and>
    ao_decisions out = fst (pe_evaluate (ao_anomalies out) (pl_policies p)) \<and>
    (\<not> pl_attached p \<longrightarrow> ao_released out = [] \<and> ao_enforced out = [] \<and> c' = c \<and> pl_enforcer p' = pl_enforcer p)"
proof -
  have clock: "pl_clock dconfig p" using pl_reachable_clock [OF assms] by simp
  obtain events d where e: "ad_evaluate packets (max (pl_last_timestamp p) ts) (pl_detector p) = Inr (events, d)"
    using ad_evaluate_clamped [OF clock, of packets ts] by auto
  obtain decisions en where d: "pe_evaluate events (pl_policies p) = (decisions, en)"
    by (cases "pe_evaluate events (pl_policies p)")
  show ?thesis
    by (cases "pl_attached p") (auto simp: pl_evaluate_def Let_def e d split: prod.splits)
qed

section \<open>Leases across an evaluation\<close>

definition leases_after :: "int \<Rightarrow> enforcer \<Rightarrow> bool" where
  "leases_after now en \<longleftrightarrow> (\<forall>p l. map_of (leases en) p = Some l \<longrightarrow> ea_expires (ls_action l) > now)"

lemma apply_decision_leases_after:
  assumes "en_inv f0 en c" and "apply_decision d now en c = (r, en', c')" and "leases_after now en"
    and "\<And>k. k \<noteq> NoEnforcement \<Longrightarrow> 0 < lease_for (en_config en) k"
  shows "leases_after now en'"
  unfolding leases_after_def
proof (intro allI impI)
  fix p l assume l: "map_of (leases en') p = Some l"
  note step = apply_decision_ok [OF assms(1,2)]
  show "ea_expires (ls_action l) > now"
  proof (cases "map_of (leases en) p")
    case (Some old)
    then have "ea_expires (ls_action old) \<le> ea_expires (ls_action l)"
      using step [of p] l by (auto simp: lease_keeps_def)
    then show ?thesis using assms(3) Some by (force simp: leases_after_def)
  next
    case None
    then have "en' \<noteq> en" using l by auto
    then have applied: "ea_outcome r \<in> {Applied, Extended}" using step by meson
    obtain k where k: "map_of (leases en') (ea_port r) = Some k" "ls_action k = r"
      "now + lease_for (en_config en) (ea_kind r) \<le> ea_expires r"
      using step [unfolded if_P [OF applied]] by blast
    have "ea_kind r \<noteq> NoEnforcement"
      using en_inv_leased [of f0 en' c' "ea_port r" k] step k by (auto simp: lease_ok_def)
    then have expires: "now < ea_expires r" using assms(4) [of "ea_kind r"] k(3) by linarith
    have "p = ea_port r"
    proof (rule ccontr)
      assume "p \<noteq> ea_port r"
      then have "map_of (leases en') p = map_of (leases en) p"
        using assms(2)
        by (auto simp: apply_decision_def enforce_port_def initial_action_def Let_def split: if_splits option.splits sum.splits)
      with None l show False by simp
    qed
    then show ?thesis using l k expires by simp
  qed
qed

lemma apply_decisions_leases_after:
  assumes "en_inv f0 en c" and "apply_decisions ds now en c = (rs, en', c')" and "leases_after now en"
    and "\<And>k. k \<noteq> NoEnforcement \<Longrightarrow> 0 < lease_for (en_config en) k"
  shows "leases_after now en'"
  using assms
proof (induction ds arbitrary: en c rs)
  case (Cons d ds)
  obtain r en1 c1 where one: "apply_decision d now en c = (r, en1, c1)" by (cases "apply_decision d now en c")
  obtain rs1 where rest: "apply_decisions ds now en1 c1 = (rs1, en', c')"
    using Cons.prems(2) one by (auto simp: Let_def split: prod.splits)
  note step = apply_decision_ok [OF Cons.prems(1) one]
  from Cons.IH [OF _ rest apply_decision_leases_after [OF Cons.prems(1) one Cons.prems(3,4)]] step Cons.prems(4)
  show ?case by simp
qed simp

text \<open>C8. After an evaluation of an attached pipeline with positive leases, no lease that is left has run out; every port
  without a lease has the fault the operator gave it, and every leased port still remembers that fault. The faults of the
  operator, \<open>f0\<close>, are those that \<open>en_inv\<close> relates to the controller before the evaluation: a port without a lease has
  that fault, and a leased port has the fault of its lease over it; so this is as long as the operator sets or clears no fault
  on a port while it is leased.\<close>

theorem no_stale_lease:
  assumes "en_inv f0 (pl_enforcer p) c" and "pl_attached p"
    and "pl_evaluate packets ts now p c = Inr (out, p', c')"
    and "\<And>k. k \<noteq> NoEnforcement \<Longrightarrow> 0 < lease_for (en_config (pl_enforcer p)) k"
  shows "(\<forall>q l. map_of (leases (pl_enforcer p')) q = Some l \<longrightarrow>
      ea_expires (ls_action l) > now \<and> f0 q = (if ls_had_restore l then Some (ls_restore l) else None)) \<and>
    (\<forall>q. \<not> is_enforced (pl_enforcer p') q \<longrightarrow> port_fault c' q = f0 q) \<and>
    length (ao_enforced out) = length (ao_decisions out)"
proof -
  obtain released en1 c1 where r: "release_expired now (pl_enforcer p) c = (released, en1, c1)"
    by (cases "release_expired now (pl_enforcer p) c")
  have "apply_decisions (ao_decisions out) now en1 c1 = (ao_enforced out, pl_enforcer p', c')"
    using assms(2,3) r
    by (auto simp: pl_evaluate_def Let_def split: sum.splits prod.splits if_splits)
  note a = this
  note rel = release_expired_ok [OF assms(1) r]
  have ok: "umap_ok (leases en1)" "umap_ok (leases (pl_enforcer p))"
    using en_inv_ok [of f0 en1 c1] en_inv_ok [OF assms(1)] rel by auto
  have "leases_after now en1"
    unfolding leases_after_def umap_ok_mem_iff [OF ok(1), symmetric] using rel by auto
  moreover have config: "en_config en1 = en_config (pl_enforcer p)"
    using r by (auto simp: release_expired_def Let_def split: prod.splits)
  ultimately have after: "leases_after now (pl_enforcer p')"
    using apply_decisions_leases_after [OF _ a, of f0] rel assms(4) by simp
  note app = apply_decisions_ok [OF _ a, of f0]
  have inv: "en_inv f0 (pl_enforcer p') c'" using app rel by simp
  show ?thesis
    using after en_inv_leased [OF inv] en_inv_unleased [OF inv] app rel
    by (auto simp: leases_after_def is_enforced_def lease_ok_def)
qed

section \<open>Witnesses\<close>

definition example_pipeline :: pipeline where
  "example_pipeline = \<lparr> pl_detector = example_detector, pl_policies = snd (set_rules example_rules pe_new),
     pl_enforcer = en_new default_enforcer_config, pl_attached = True, pl_last_timestamp = 0 \<rparr>"

lemma example_pipeline_reachable:
  "pl_reachable example_config default_enforcer_config (example_pipeline, example_controller)"
proof -
  have "pl_new example_config default_enforcer_config True = Inr (example_pipeline\<lparr> pl_policies := pe_new \<rparr>)"
    by (simp add: pl_new_def example_detector_new example_pipeline_def)
  from pl_start [OF this, of example_controller] ps_policies
  have "pl_reachable example_config default_enforcer_config
      (example_pipeline\<lparr> pl_policies := pe_new, pl_policies := snd (set_rules example_rules pe_new) \<rparr>, example_controller)"
    by (rule pl_next)
  then show ?thesis by (simp add: example_pipeline_def)
qed

theorem pipeline_never_throws_witness:
  "\<exists>out p' c'. pl_evaluate [runt, runt] 7 100 example_pipeline example_controller = Inr (out, p', c') \<and>
    ao_timestamp out = 7"
  using pipeline_never_throws [OF example_pipeline_reachable, of "[runt, runt]" 7 100]
  by (auto simp: example_pipeline_def)

text \<open>The first host is quarantined, and its lease has just run out.\<close>

theorem no_stale_lease_witness:
  "\<exists>p c out p' c'. is_enforced (pl_enforcer p) ''h1'' \<and>
    pl_evaluate [runt, runt] 7 30000000100 p c = Inr (out, p', c') \<and>
    ((\<exists>l. map_of (leases (pl_enforcer p')) ''h1'' = Some l \<and> 30000000100 < ea_expires (ls_action l)) \<or> port_fault c' ''h1'' = None)"
proof -
  obtain r l where s: "en_steps (en_new default_enforcer_config, example_controller)
      ((en_new default_enforcer_config)\<lparr> leases := [(''h1'', l)] \<rparr>, example_isolated)"
    by (rule example_enforced_steps)
  let ?p = "example_pipeline\<lparr> pl_enforcer := (en_new default_enforcer_config)\<lparr> leases := [(''h1'', l)] \<rparr> \<rparr>"
  have "pl_clock example_config example_pipeline" using pl_reachable_clock [OF example_pipeline_reachable] by simp
  then have clock: "pl_clock example_config ?p" by (simp add: pl_clock_def)
  obtain out p' c' where e: "pl_evaluate [runt, runt] 7 30000000100 ?p example_isolated = Inr (out, p', c')"
    using pl_evaluate_total [OF clock] by blast
  have inv: "en_inv (port_fault example_controller) (pl_enforcer ?p) example_isolated"
    using en_steps_new [OF example_controller_reachable s] by simp
  have "pl_attached ?p" by (simp add: example_pipeline_def)
  moreover have "0 < lease_for (en_config (pl_enforcer ?p)) k" if "k \<noteq> NoEnforcement" for k
    using that by (cases k) (simp_all add: en_new_def default_enforcer_config_def lease_for_def)
  ultimately have "(\<exists>l. map_of (leases (pl_enforcer p')) ''h1'' = Some l \<and> 30000000100 < ea_expires (ls_action l)) \<or> port_fault c' ''h1'' = None"
    using no_stale_lease [OF inv _ e] by (cases "map_of (leases (pl_enforcer p')) ''h1''") (auto simp: is_enforced_def example_controller_fault)
  moreover have "is_enforced (pl_enforcer ?p) ''h1''" by (simp add: is_enforced_def)
  ultimately show ?thesis using e by blast
qed

end
