(* ===== verification/Json_Scanner.thy ===== *)
theory Json_Scanner
  imports Prelude
begin

text \<open>
  The JSON layer of \<^verbatim>\<open>src/control_protocol.cpp\<close>: the scanner both parsers of the control
  protocol share, and the string writer. A reader takes the input from the current position on and
  returns an error or what it read with the rest of the input; every failing step of the code sets
  \<open>error_\<close> just before it returns, so the error is the value of the reader. The locale
  \<open>object_members\<close> holds what the three object loops of the protocol have in common: it reads
  back every object that is written as a list of members.
\<close>

section \<open>The scanner\<close>

datatype parse_error = MalformedJson | InvalidField | MissingRequiredField

type_synonym 'a reader = "string \<Rightarrow> parse_error + 'a \<times> string"

abbreviation quote_char :: char where "quote_char \<equiv> CHR 0x22"
abbreviation backslash :: char where "backslash \<equiv> CHR 0x5C"

definition is_whitespace :: "char \<Rightarrow> bool" where
  "is_whitespace c \<longleftrightarrow> c \<in> {CHR '' '', CHR 0x0A, CHR 0x0D, CHR 0x09}"

definition skip_whitespace :: "string \<Rightarrow> string" where
  "skip_whitespace s = dropWhile is_whitespace s"

definition consume :: "char \<Rightarrow> string \<Rightarrow> parse_error + string" where
  "consume c s =
     (case skip_whitespace s of
        [] \<Rightarrow> Inl MalformedJson
      | x # rest \<Rightarrow> if x \<noteq> c then Inl MalformedJson else Inr rest)"

definition hex_digit :: "char \<Rightarrow> nat option" where
  "hex_digit c =
     (let n = of_char c in
      if 48 \<le> n \<and> n \<le> 57 then Some (n - 48)
      else if 97 \<le> n \<and> n \<le> 102 then Some (n - 97 + 10)
      else if 65 \<le> n \<and> n \<le> 70 then Some (n - 65 + 10)
      else None)"

fun read_hex_digits :: "nat \<Rightarrow> u32 \<Rightarrow> u32 reader" where
  "read_hex_digits 0 v s = Inr (v, s)"
| "read_hex_digits (Suc n) v [] = Inl MalformedJson"
| "read_hex_digits (Suc n) v (c # s) =
     (case hex_digit c of
        None \<Rightarrow> Inl MalformedJson
      | Some d \<Rightarrow> read_hex_digits n (push_bit 4 v OR of_nat d) s)"

definition read_hex :: "u32 reader" where
  "read_hex s = read_hex_digits 4 0 s"

definition to_char :: "u32 \<Rightarrow> char" where
  "to_char w = char_of (unat w)"

definition append_utf8 :: "string \<Rightarrow> u32 \<Rightarrow> string" where
  "append_utf8 out code_point =
     (if code_point \<le> 0x7F then out @ [to_char code_point]
      else if code_point \<le> 0x7FF then
        out @ [to_char (0xC0 OR drop_bit 6 code_point), to_char (0x80 OR (code_point AND 0x3F))]
      else if code_point \<le> 0xFFFF then
        out @ [to_char (0xE0 OR drop_bit 12 code_point), to_char (0x80 OR (drop_bit 6 code_point AND 0x3F)),
          to_char (0x80 OR (code_point AND 0x3F))]
      else
        out @ [to_char (0xF0 OR drop_bit 18 code_point), to_char (0x80 OR (drop_bit 12 code_point AND 0x3F)),
          to_char (0x80 OR (drop_bit 6 code_point AND 0x3F)), to_char (0x80 OR (code_point AND 0x3F))])"

text \<open>The escape \<open>\u\<close>, with its surrogate pairs.\<close>

definition read_unicode :: "string \<Rightarrow> string reader" where
  "read_unicode out s =
     (case read_hex s of
        Inl e \<Rightarrow> Inl e
      | Inr (code_point, s) \<Rightarrow>
          if 0xD800 \<le> code_point \<and> code_point \<le> 0xDBFF then
            if take 2 s \<noteq> [backslash, CHR ''u''] then Inl MalformedJson
            else (case read_hex (drop 2 s) of
                    Inl e \<Rightarrow> Inl MalformedJson
                  | Inr (low, s) \<Rightarrow>
                      if low < 0xDC00 \<or> low > 0xDFFF then Inl MalformedJson
                      else Inr (append_utf8 out (0x10000 + push_bit 10 (code_point - 0xD800) + (low - 0xDC00)), s))
          else if 0xDC00 \<le> code_point \<and> code_point \<le> 0xDFFF then Inl MalformedJson
          else Inr (append_utf8 out code_point, s))"

definition read_escape :: "string \<Rightarrow> string reader" where
  "read_escape out s =
     (case s of
        [] \<Rightarrow> Inl MalformedJson
      | c # s \<Rightarrow>
          if c = quote_char then Inr (out @ [quote_char], s)
          else if c = backslash then Inr (out @ [backslash], s)
          else if c = CHR ''/'' then Inr (out @ ''/'', s)
          else if c = CHR ''b'' then Inr (out @ [CHR 0x08], s)
          else if c = CHR ''f'' then Inr (out @ [CHR 0x0C], s)
          else if c = CHR ''n'' then Inr (out @ [CHR 0x0A], s)
          else if c = CHR ''r'' then Inr (out @ [CHR 0x0D], s)
          else if c = CHR ''t'' then Inr (out @ [CHR 0x09], s)
          else if c = CHR ''u'' then read_unicode out s
          else Inl MalformedJson)"

lemma read_hex_digits_shorter: "read_hex_digits n v s = Inr (w, rest) \<Longrightarrow> length rest \<le> length s"
  by (induction n v s rule: read_hex_digits.induct) (auto split: option.splits)

lemma read_escape_shorter: "read_escape out s = Inr (t, rest) \<Longrightarrow> length rest < length s"
  by (auto simp: read_escape_def read_unicode_def read_hex_def dest!: read_hex_digits_shorter
      split: list.splits if_splits sum.splits)

function read_chars :: "string \<Rightarrow> string reader" where
  "read_chars out [] = Inl MalformedJson"
| "read_chars out (c # s) =
     (if c = quote_char then Inr (out, s)
      else if (of_char c :: nat) < 0x20 then Inl MalformedJson
      else if c \<noteq> backslash then read_chars (out @ [c]) s
      else (case read_escape out s of Inl e \<Rightarrow> Inl e | Inr (out, s) \<Rightarrow> read_chars out s))"
  by pat_completeness auto
termination
  by (relation "measure (\<lambda>(out, s). length s)") (auto dest: read_escape_shorter)

definition read_string :: "string reader" where
  "read_string s = (case consume quote_char s of Inl e \<Rightarrow> Inl e | Inr s \<Rightarrow> read_chars [] s)"

fun read_digits :: "nat \<Rightarrow> nat \<Rightarrow> nat reader" where
  "read_digits limit v [] = Inr (v, [])"
| "read_digits limit v (c # s) =
     (if is_digit c then
        if v > (limit - digit_value c) div 10 then Inl InvalidField
        else read_digits limit (v * 10 + digit_value c) s
      else Inr (v, c # s))"

definition read_uint :: "('w::len) word reader" where
  "read_uint s =
     (let s = skip_whitespace s in
      if s = [] \<or> \<not> is_digit (hd s) then Inl InvalidField
      else (case read_digits (2 ^ LENGTH('w) - 1) 0 s of
              Inl e \<Rightarrow> Inl e
            | Inr (v, s) \<Rightarrow> Inr (of_nat v, s)))"

definition read_bool :: "bool reader" where
  "read_bool s =
     (let s = skip_whitespace s in
      if take 4 s = ''true'' then Inr (True, drop 4 s)
      else if take 5 s = ''false'' then Inr (False, drop 5 s)
      else Inl InvalidField)"

text \<open>The key of a member and its colon; and what ends a member: a closing brace (\<open>True\<close>) or a
  comma.\<close>

definition member_key :: "string reader" where
  "member_key s =
     (case read_string s of
        Inl e \<Rightarrow> Inl e
      | Inr (key, s) \<Rightarrow> (case consume CHR '':'' s of Inl e \<Rightarrow> Inl e | Inr s \<Rightarrow> Inr (key, s)))"

definition member_end :: "bool reader" where
  "member_end s =
     (case consume CHR ''}'' (skip_whitespace s) of
        Inr rest \<Rightarrow> Inr (True, rest)
      | Inl e \<Rightarrow> (case consume CHR '','' (skip_whitespace s) of Inl e \<Rightarrow> Inl e | Inr rest \<Rightarrow> Inr (False, rest)))"

subsection \<open>Readers move forward\<close>

lemma skip_whitespace_shorter: "length (skip_whitespace s) \<le> length s"
  by (simp add: skip_whitespace_def length_dropWhile_le)

lemma consume_shorter: "consume c s = Inr rest \<Longrightarrow> length rest < length s"
  using skip_whitespace_shorter [of s] by (auto simp: consume_def split: list.splits if_splits)

lemma read_chars_shorter: "read_chars out s = Inr (t, rest) \<Longrightarrow> length rest < length s"
  by (induction out s rule: read_chars.induct)
    (force split: if_splits sum.splits dest!: read_escape_shorter)+

lemma read_string_shorter: "read_string s = Inr (t, rest) \<Longrightarrow> length rest < length s"
  by (auto simp: read_string_def dest!: consume_shorter read_chars_shorter split: sum.splits)

lemma read_digits_shorter: "read_digits limit v s = Inr (n, rest) \<Longrightarrow> length rest \<le> length s"
  by (induction limit v s rule: read_digits.induct) (auto split: if_splits)

lemma read_uint_shorter: "read_uint s = Inr (w, rest) \<Longrightarrow> length rest \<le> length s"
  using skip_whitespace_shorter [of s]
  by (force simp: read_uint_def Let_def dest!: read_digits_shorter split: if_splits sum.splits)

lemma read_bool_shorter: "read_bool s = Inr (b, rest) \<Longrightarrow> length rest \<le> length s"
  using skip_whitespace_shorter [of s] by (auto simp: read_bool_def Let_def split: if_splits)

lemma member_key_shorter: "member_key s = Inr (key, rest) \<Longrightarrow> length rest < length s"
  by (auto simp: member_key_def dest!: read_string_shorter consume_shorter split: sum.splits)

lemma member_end_shorter: "member_end s = Inr (closed, rest) \<Longrightarrow> length rest < length s"
  using skip_whitespace_shorter [of s]
  by (auto simp: member_end_def dest!: consume_shorter split: sum.splits)

lemmas readers_shorter =
  read_string_shorter read_uint_shorter read_bool_shorter member_key_shorter member_end_shorter

section \<open>The writer\<close>

definition hex_char :: "nat \<Rightarrow> char" where
  "hex_char d = (if d < 10 then char_of (48 + d) else char_of (87 + d))"

fun hex_of_nat :: "nat \<Rightarrow> string" where
  "hex_of_nat n = (if n < 16 then [hex_char n] else hex_of_nat (n div 16) @ [hex_char (n mod 16)])"

declare hex_of_nat.simps [simp del]

text \<open>\<open>std::setw\<close> with \<open>std::setfill('0')\<close>.\<close>

definition pad_zero :: "nat \<Rightarrow> string \<Rightarrow> string" where
  "pad_zero width s = replicate (width - length s) CHR ''0'' @ s"

definition json_char :: "char \<Rightarrow> string" where
  "json_char c =
     (if c = quote_char then [backslash, quote_char]
      else if c = backslash then [backslash, backslash]
      else if c = CHR 0x08 then [backslash, CHR ''b'']
      else if c = CHR 0x0C then [backslash, CHR ''f'']
      else if c = CHR 0x0A then [backslash, CHR ''n'']
      else if c = CHR 0x0D then [backslash, CHR ''r'']
      else if c = CHR 0x09 then [backslash, CHR ''t'']
      else if (of_char c :: nat) < 0x20 then [backslash, CHR ''u''] @ pad_zero 4 (hex_of_nat (of_char c))
      else [c])"

definition json_string :: "string \<Rightarrow> string" where
  "json_string v = [quote_char] @ concat (map json_char v) @ [quote_char]"

definition uint_text :: "('w::len) word \<Rightarrow> string" where
  "uint_text w = dec_of_nat (unat w)"

text \<open>Signed counts, as \<open>std::ostream\<close> prints them.\<close>

definition int_text :: "int \<Rightarrow> string" where
  "int_text n = (if n < 0 then CHR ''-'' # dec_of_nat (nat (- n)) else dec_of_nat (nat n))"

definition bool_text :: "bool \<Rightarrow> string" where
  "bool_text b = (if b then ''true'' else ''false'')"

subsection \<open>Strings are read back\<close>

lemma hex_digit_char: "d < 16 \<Longrightarrow> hex_digit (hex_char d) = Some d"
  by (auto simp: hex_digit_def hex_char_def Let_def)

lemma hex_two: "16 \<le> n \<Longrightarrow> n < 32 \<Longrightarrow> hex_of_nat n = [hex_char 1, hex_char (n - 16)]"
proof -
  assume n: "16 \<le> n" "n < 32"
  then have "n div 16 = 1" "n mod 16 = n - 16" by (simp_all add: mod_if div_nat_eqI)
  then show ?thesis using n by (subst hex_of_nat.simps, subst hex_of_nat.simps) simp
qed

lemma join_hex:
  assumes "d < 16"
  shows "(16 OR of_nat d :: u32) = 16 + of_nat d"
proof -
  have "(of_nat d :: u32) = take_bit 4 (of_nat d)"
    using assms by (simp add: take_bit_of_nat take_bit_nat_eq_self)
  moreover have "push_bit 4 y AND take_bit 4 x = 0" for x y :: u32
    by (rule bit_word_eqI) (auto simp: bit_simps)
  ultimately have "push_bit 4 1 AND (of_nat d :: u32) = 0" by metis
  from disjunctive_add_eq_or [OF this] show ?thesis by simp
qed

lemma read_hex_small:
  assumes "n < 32"
  shows "read_hex (pad_zero 4 (hex_of_nat n) @ s) = Inr (of_nat n, s)"
proof -
  have zero: "hex_digit (CHR ''0'') = Some 0" by (simp add: hex_digit_def)
  have numerals: "(4 :: nat) = Suc (Suc (Suc (Suc 0)))" by simp
  show ?thesis
  proof (cases "n < 16")
    case True
    then show ?thesis
      unfolding read_hex_def numerals
      by (simp add: hex_of_nat.simps [of n] pad_zero_def zero hex_digit_char numeral_eq_Suc)
  next
    case False
    then obtain d where n: "n = 16 + d" "d < 16" using assms by (metis add_diff_inverse_nat nat_add_left_cancel_less numeral_Bit0)
    show ?thesis
      using n False assms unfolding read_hex_def numerals
      by (simp add: join_hex hex_two pad_zero_def zero hex_digit_char numeral_eq_Suc)
  qed
qed

lemma read_unicode_control:
  assumes "(of_char c :: nat) < 0x20"
  shows "read_unicode out (pad_zero 4 (hex_of_nat (of_char c)) @ s) = Inr (out @ [c], s)"
proof -
  have small: "unat (of_nat (of_char c) :: u32) = of_char c"
    using assms by (simp only: unsigned_of_nat) (simp add: take_bit_nat_eq_self)
  then have bound: "(of_nat (of_char c) :: u32) \<le> 0x7F"
    using assms by (simp add: word_le_nat_alt)
  have not_surrogate: "\<not> (0xD800 :: u32) \<le> of_nat (of_char c)" "\<not> (0xDC00 :: u32) \<le> of_nat (of_char c)"
    using assms by (simp_all add: word_le_nat_alt small del: unsigned_of_nat)
  have char: "to_char (of_nat (of_char c)) = c" using small by (simp add: to_char_def)
  have hex: "read_hex (pad_zero 4 (hex_of_nat (of_char c)) @ s) = Inr (of_nat (of_char c), s)"
    by (rule read_hex_small) (use assms in simp)
  show ?thesis
    unfolding read_unicode_def hex
    by (simp only: append_utf8_def sum.case prod.case bound not_surrogate char if_True if_False simp_thms)
qed

lemma read_chars_control:
  "(of_char c :: nat) < 0x20 \<Longrightarrow>
    read_chars out ([backslash, CHR ''u''] @ pad_zero 4 (hex_of_nat (of_char c)) @ s) = read_chars (out @ [c]) s"
  by (simp add: read_escape_def read_unicode_control)

lemma read_chars_json_char: "read_chars out (json_char c @ s) = read_chars (out @ [c]) s"
proof (cases "(of_char c :: nat) < 0x20 \<and> c \<notin> {CHR 0x08, CHR 0x0C, CHR 0x0A, CHR 0x0D, CHR 0x09}")
  case True
  then have "c \<noteq> quote_char" "c \<noteq> backslash" by (intro notI, simp)+
  then have "json_char c = [backslash, CHR ''u''] @ pad_zero 4 (hex_of_nat (of_char c))"
    using True by (simp add: json_char_def)
  then show ?thesis using read_chars_control [of c out s] True by simp
next
  case False
  then show ?thesis by (auto simp: json_char_def read_escape_def)
qed

lemma read_chars_json_string: "read_chars out (concat (map json_char v) @ quote_char # s) = Inr (out @ v, s)"
  by (induction v arbitrary: out) (simp_all add: read_chars_json_char del: read_chars.simps(2), simp_all)

lemma read_string_json_string [codec_simps]: "read_string (json_string v @ s) = Inr (v, s)"
  by (simp add: read_string_def json_string_def consume_def skip_whitespace_def is_whitespace_def
      read_chars_json_string)

subsection \<open>Numbers and Booleans are read back\<close>

definition ends_value :: "string \<Rightarrow> bool" where
  "ends_value rest \<longleftrightarrow> rest \<noteq> [] \<and> hd rest \<in> {CHR '','', CHR ''}''}"

lemma ends_value_not_digit: "ends_value rest \<Longrightarrow> rest = [] \<or> \<not> is_digit (hd rest)"
  by (auto simp: ends_value_def is_digit_def)

lemma digits_grow: "v \<le> foldl (\<lambda>n c. 10 * n + digit_value c) v ds"
proof (induction ds arbitrary: v)
  case (Cons c ds)
  show ?case using Cons.IH [of "10 * v + digit_value c"] by simp
qed simp

lemma read_digits_append:
  assumes "\<forall>c \<in> set ds. is_digit c" and "rest = [] \<or> \<not> is_digit (hd rest)"
    and "foldl (\<lambda>n c. 10 * n + digit_value c) v ds \<le> limit"
  shows "read_digits limit v (ds @ rest) = Inr (foldl (\<lambda>n c. 10 * n + digit_value c) v ds, rest)"
  using assms
proof (induction ds arbitrary: v)
  case Nil
  then show ?case by (cases rest) auto
next
  case (Cons c ds)
  have "10 * v + digit_value c \<le> limit"
    using digits_grow [of "10 * v + digit_value c" ds] Cons.prems(3) by simp
  then have "\<not> v > (limit - digit_value c) div 10" by (simp add: less_eq_div_iff_mult_less_eq not_less)
  then show ?case using Cons by (simp add: mult.commute)
qed

lemma digit_not_whitespace: "is_digit c \<Longrightarrow> \<not> is_whitespace c"
  by (auto simp: is_digit_def is_whitespace_def)

lemma read_uint_text [codec_simps]:
  assumes "ends_value rest"
  shows "read_uint (uint_text (w :: 'w::len word) @ rest) = Inr (w, rest)"
proof -
  obtain c ds where split: "dec_of_nat (unat w) = c # ds" by (metis dec_of_nat_nonempty list.exhaust)
  have digits: "\<forall>c \<in> set (dec_of_nat (unat w)). is_digit c" by (rule dec_of_nat_digits)
  then have c: "is_digit c" by (simp add: split)
  have "unat w < 2 ^ LENGTH('w)" by (rule unsigned_less)
  then have "unat w \<le> 2 ^ LENGTH('w) - 1" by linarith
  then have "read_digits (2 ^ LENGTH('w) - 1) 0 (dec_of_nat (unat w) @ rest) = Inr (unat w, rest)"
    using read_digits_append [OF digits ends_value_not_digit [OF assms], of 0 "2 ^ LENGTH('w) - 1"]
    by (simp add: nat_of_dec_inverse flip: nat_of_dec_def)
  then show ?thesis
    using c by (simp add: read_uint_def uint_text_def split skip_whitespace_def digit_not_whitespace)
qed

lemma read_bool_text [codec_simps]: "read_bool (bool_text b @ rest) = Inr (b, rest)"
  by (simp add: read_bool_def bool_text_def skip_whitespace_def is_whitespace_def)

section \<open>Objects\<close>

text \<open>The text of the members of an object, up to its closing brace, and when a field reader takes
  each value to the next state.\<close>

fun members_text :: "(string \<times> string) list \<Rightarrow> string" where
  "members_text [] = ''}''"
| "members_text [(key, v)] = json_string key @ '':'' @ v @ ''}''"
| "members_text ((key, v) # kvs) = json_string key @ '':'' @ v @ '','' @ members_text kvs"

definition field_reads :: "(string \<Rightarrow> 'st \<Rightarrow> 'st reader) \<Rightarrow> string \<Rightarrow> string \<Rightarrow> 'st \<Rightarrow> 'st \<Rightarrow> bool" where
  "field_reads read_field key v st st' \<longleftrightarrow>
     (\<forall>rest. ends_value rest \<longrightarrow> read_field key st (v @ rest) = Inr (st', rest))"

fun feeds :: "(string \<Rightarrow> 'st \<Rightarrow> 'st reader) \<Rightarrow> (string \<times> string) list \<Rightarrow> 'st \<Rightarrow> 'st \<Rightarrow> bool" where
  "feeds read_field [] st st' \<longleftrightarrow> st = st'"
| "feeds read_field ((key, v) # kvs) st st' \<longleftrightarrow>
     (\<exists>st1. field_reads read_field key v st st1 \<and> feeds read_field kvs st1 st')"

lemma feeds_step:
  "field_reads read_field key v st st1 \<Longrightarrow> feeds read_field kvs st1 st' \<Longrightarrow>
    feeds read_field ((key, v) # kvs) st st'"
  by auto

lemma member_key_text: "member_key (json_string key @ CHR '':'' # rest) = Inr (key, rest)"
  by (simp add: member_key_def read_string_json_string consume_def skip_whitespace_def is_whitespace_def)

lemma member_end_text: "member_end (CHR ''}'' # rest) = Inr (True, rest)" "member_end (CHR '','' # rest) = Inr (False, rest)"
  by (simp_all add: member_end_def consume_def skip_whitespace_def is_whitespace_def)

locale object_members =
  fixes read_field :: "string \<Rightarrow> 'st \<Rightarrow> 'st reader"
    and members :: "'st \<Rightarrow> 'st reader"
  assumes members_eq: "members st s =
    (case member_key s of
       Inl e \<Rightarrow> Inl e
     | Inr (key, s) \<Rightarrow>
         (case read_field key st s of
            Inl e \<Rightarrow> Inl e
          | Inr (st, s) \<Rightarrow>
              (case member_end s of
                 Inl e \<Rightarrow> Inl e
               | Inr (closed, s) \<Rightarrow> if closed then Inr (st, s) else members st s)))"
begin

lemma members_last:
  "field_reads read_field key v st st' \<Longrightarrow>
    members st (json_string key @ CHR '':'' # v @ CHR ''}'' # rest) = Inr (st', rest)"
  by (subst members_eq) (simp add: member_key_text member_end_text field_reads_def ends_value_def)

lemma members_next:
  "field_reads read_field key v st st' \<Longrightarrow>
    members st (json_string key @ CHR '':'' # v @ CHR '','' # rest) = members st' rest"
  by (subst members_eq) (simp add: member_key_text member_end_text field_reads_def ends_value_def)

text \<open>An object written as a list of members is read member by member.\<close>

lemma members_text_read:
  "feeds read_field kvs st st' \<Longrightarrow> kvs \<noteq> [] \<Longrightarrow> members st (members_text kvs @ rest) = Inr (st', rest)"
  by (induction kvs arbitrary: st rule: members_text.induct) (auto simp: members_last members_next)

text \<open>A member the field reader refuses ends the object with its error.\<close>

lemma members_refused:
  "read_field key st s = Inl e \<Longrightarrow> members st (json_string key @ CHR '':'' # s) = Inl e"
  by (subst members_eq) (simp add: member_key_text)

end

end
