(* ===== verification/Pcap_Replay.thy ===== *)
theory Pcap_Replay
  imports Pcap Packet_Accounting Analysis_Pipeline Json_Scanner
begin

text \<open>
  The program that replays a capture, \<^verbatim>\<open>src/wirelab_pcap_main.cpp\<close>: its options, the batches it hands to the analyzer
  and to the pipeline, the comments it writes into the annotated capture, and its summary. The files, the state of the stream
  after each write and the clock are arguments. \<open>None\<close> is a read outside a buffer, which does not happen.
\<close>

section \<open>Options\<close>

record replay_options =
  ro_input :: string
  ro_output :: string
  ro_batch :: nat
  ro_window_ms :: u64
  ro_broadcast :: u64
  ro_unknown_unicast :: u64
  ro_udp :: u64
  ro_port_scan :: u64
  ro_hot_talker :: u64
  ro_malformed :: u64
  ro_mac_flap :: u64
  ro_only_flagged :: bool

definition default_replay_options :: "string \<Rightarrow> replay_options" where
  "default_replay_options input = \<lparr> ro_input = input, ro_output = [], ro_batch = 256, ro_window_ms = 1000, ro_broadcast = 100,
     ro_unknown_unicast = 100, ro_udp = 500, ro_port_scan = 20, ro_hot_talker = 1000, ro_malformed = 10, ro_mac_flap = 5,
     ro_only_flagged = False \<rparr>"

text \<open>\<open>std::stoull\<close> in base 10: blanks, a sign, digits. A minus negates modulo \<open>2 ^ 64\<close>; \<open>None\<close> is an exception.\<close>

definition is_space :: "char \<Rightarrow> bool" where
  "is_space c \<longleftrightarrow> c = CHR '' '' \<or> (9 \<le> (of_char c :: nat) \<and> (of_char c :: nat) \<le> 13)"

definition stoull :: "string \<Rightarrow> (u64 \<times> nat) option" where
  "stoull text =
     (let rest = dropWhile is_space text;
          sign = (rest \<noteq> [] \<and> (hd rest = CHR ''-'' \<or> hd rest = CHR ''+''));
          digits = takeWhile is_digit (if sign then tl rest else rest);
          n = nat_of_dec digits
      in if digits = [] \<or> n \<ge> 2 ^ 64 then None
         else Some (if sign \<and> hd rest = CHR ''-'' then - of_nat n else of_nat n,
                    length (takeWhile is_space text) + (if sign then 1 else 0) + length digits))"

definition parse_u64 :: "string \<Rightarrow> u64 option" where
  "parse_u64 text = (case stoull text of None \<Rightarrow> None | Some (v, consumed) \<Rightarrow> if consumed \<noteq> length text then None else Some v)"

definition numeric_option :: "string \<Rightarrow> (u64 \<Rightarrow> replay_options \<Rightarrow> replay_options) option" where
  "numeric_option flag = map_of
     [(''--window'', \<lambda>v o'. o'\<lparr> ro_window_ms := v \<rparr>), (''--broadcast'', \<lambda>v o'. o'\<lparr> ro_broadcast := v \<rparr>),
      (''--unknown-unicast'', \<lambda>v o'. o'\<lparr> ro_unknown_unicast := v \<rparr>), (''--udp'', \<lambda>v o'. o'\<lparr> ro_udp := v \<rparr>),
      (''--port-scan'', \<lambda>v o'. o'\<lparr> ro_port_scan := v \<rparr>), (''--hot-talker'', \<lambda>v o'. o'\<lparr> ro_hot_talker := v \<rparr>),
      (''--malformed'', \<lambda>v o'. o'\<lparr> ro_malformed := v \<rparr>), (''--mac-flap'', \<lambda>v o'. o'\<lparr> ro_mac_flap := v \<rparr>)] flag"

text \<open>The value that follows a flag; \<open>Inl\<close> is what is printed before the usage.\<close>

definition replay_option :: "string \<Rightarrow> string \<Rightarrow> replay_options \<Rightarrow> string + replay_options" where
  "replay_option flag value o' =
     (if flag = ''--out'' then Inr (o'\<lparr> ro_output := value \<rparr>)
      else if flag = ''--batch'' then
        (case parse_u64 value of
           None \<Rightarrow> Inl ''Batch size must be a positive integer''
         | Some n \<Rightarrow> if n = 0 then Inl ''Batch size must be a positive integer'' else Inr (o'\<lparr> ro_batch := unat n \<rparr>))
      else case numeric_option flag of
        None \<Rightarrow> Inl (''Unknown option '' @ flag)
      | Some store_it \<Rightarrow>
          (case parse_u64 value of None \<Rightarrow> Inl (''Value for '' @ flag @ '' must be an integer'') | Some n \<Rightarrow> Inr (store_it n o')))"

fun parse_flags :: "string list \<Rightarrow> replay_options \<Rightarrow> string + replay_options" where
  "parse_flags [] o' = Inr o'"
| "parse_flags [flag] o' =
     (if flag = ''--only-flagged'' then Inr (o'\<lparr> ro_only_flagged := True \<rparr>) else Inl (''Missing value for '' @ flag))"
| "parse_flags (flag # value # rest) o' =
     (if flag = ''--only-flagged'' then parse_flags (value # rest) (o'\<lparr> ro_only_flagged := True \<rparr>)
      else case replay_option flag value o' of Inl e \<Rightarrow> Inl e | Inr o' \<Rightarrow> parse_flags rest o')"

text \<open>The arguments without the name of the program.\<close>

definition parse_options :: "string list \<Rightarrow> string + replay_options" where
  "parse_options args = (case args of [] \<Rightarrow> Inl [] | input # rest \<Rightarrow> parse_flags rest (default_replay_options input))"

section \<open>Comments\<close>

definition address_text :: "u32 \<Rightarrow> string" where
  "address_text a = uint_text (drop_bit 24 a AND 0xff) @ ''.'' @ uint_text (drop_bit 16 a AND 0xff) @ ''.'' @
     uint_text (drop_bit 8 a AND 0xff) @ ''.'' @ uint_text (a AND 0xff)"

definition hex16 :: "u64 \<Rightarrow> string" where
  "hex16 v = map (\<lambda>i. hex_digit_char (unat (drop_bit (4 * (15 - i)) v AND 0xf))) [0..<16]"

definition packet_comment :: "packet_analysis \<Rightarrow> string" where
  "packet_comment a =
     ''WireLab: '' @ classification_text (pa_classification a) @ '', '' @ validity_text (pa_validity a) @
     (if pa_validity a = Valid \<and> pa_protocol a \<noteq> 0
      then '', proto='' @ uint_text (pa_protocol a) @
        (if pa_source_ipv4 a \<noteq> 0 \<or> pa_destination_ipv4 a \<noteq> 0
         then '', '' @ address_text (pa_source_ipv4 a) @ '':'' @ uint_text (pa_source_port a) @ '' -> '' @
           address_text (pa_destination_ipv4 a) @ '':'' @ uint_text (pa_destination_port a)
         else []) @ '', flow=0x'' @ hex16 (pa_flow_hash a)
      else [])"

definition anomaly_comment :: "anomaly_event \<Rightarrow> string" where
  "anomaly_comment e =
     CHR 0x0A # ''ANOMALY '' @ anomaly_type_text (ev_type e) @
     (if ev_destinations e \<noteq> 0 then '': '' @ uint_text (ev_destinations e) @ '' destinations > threshold '' @ uint_text (ev_threshold e)
      else '': '' @ uint_text (ev_packets e) @ '' packets > threshold '' @ uint_text (ev_threshold e)) @
     '' in '' @ uint_text (ev_window_ns e div 1000000) @ '' ms'' @
     (if \<not> is_zero (ev_source_mac e) then '', source '' @ mac_to_string (ev_source_mac e) else []) @
     (if ev_source_ipv4 e \<noteq> 0 then '', source '' @ address_text (ev_source_ipv4 e) else [])"

definition decision_comment :: "policy_decision \<Rightarrow> string" where
  "decision_comment d =
     CHR 0x0A # ''POLICY '' @ pd_rule d @ '' -> '' @ policy_action_text (pd_action d) @
     (if pd_action d = RateLimit \<and> pd_rate d \<noteq> 0 then '' at '' @ uint_text (pd_rate d) @ '' pps'' else [])"

definition build_comment :: "packet_analysis \<Rightarrow> anomaly_event list \<Rightarrow> policy_decision list \<Rightarrow> string" where
  "build_comment a anomalies decisions =
     packet_comment a @ concat (map anomaly_comment anomalies) @ concat (map decision_comment decisions)"

section \<open>The replay\<close>

record replay =
  rp_learned :: "mac_address set"
  rp_pipeline :: pipeline
  rp_writer :: "pcapng_writer option"
  rp_anomalies :: u64
  rp_decisions :: u64
  rp_annotated :: u64
  rp_exported :: u64
  rp_anomaly_counts :: "(string \<times> u64) list"
  rp_rule_hits :: "(string \<times> u64) list"
  rp_totals :: analysis_batch

datatype replay_failure = Uncaught detector_error | CannotWrite pcap_error

type_synonym 'a replaying = "(replay_failure + 'a) option"

definition replay_config :: "replay_options \<Rightarrow> detector_config" where
  "replay_config o' = \<lparr> window_duration_ns = ro_window_ms o' * 1000000, broadcast_threshold = ro_broadcast o',
     mac_flap_threshold = ro_mac_flap o', unknown_unicast_threshold = ro_unknown_unicast o', udp_threshold = ro_udp o',
     port_scan_threshold = ro_port_scan o', hot_talker_threshold = ro_hot_talker o', malformed_threshold = ro_malformed o' \<rparr>"

definition replay_rules :: "policy_rule list" where
  "replay_rules =
     [\<lparr> pr_name = ''quarantine-broadcast-storm'', pr_type = anomaly_type.BroadcastStorm, pr_action = Quarantine, pr_enabled = True, pr_rate = 0 \<rparr>,
      \<lparr> pr_name = ''drop-udp-flood'', pr_type = anomaly_type.UdpFlood, pr_action = Drop, pr_enabled = True, pr_rate = 0 \<rparr>,
      \<lparr> pr_name = ''mirror-port-scan'', pr_type = anomaly_type.PortScan, pr_action = Mirror, pr_enabled = True, pr_rate = 0 \<rparr>,
      \<lparr> pr_name = ''mirror-malformed'', pr_type = MalformedFrame, pr_action = Mirror, pr_enabled = True, pr_rate = 0 \<rparr>]"

definition add_totals :: "analysis_batch \<Rightarrow> analysis_batch \<Rightarrow> analysis_batch" where
  "add_totals a t = t\<lparr> ab_received_packets := ab_received_packets t + ab_received_packets a,
     ab_received_bytes := ab_received_bytes t + ab_received_bytes a, ab_malformed := ab_malformed t + ab_malformed a,
     ab_broadcast := ab_broadcast t + ab_broadcast a, ab_unknown_unicast := ab_unknown_unicast t + ab_unknown_unicast a,
     ab_known_unicast := ab_known_unicast t + ab_known_unicast a \<rparr>"

text \<open>Which anomalies of the batch indict a packet, and which decisions were taken on one of them.\<close>

definition indicts :: "anomaly_event \<Rightarrow> packet_analysis \<Rightarrow> bool" where
  "indicts e a \<longleftrightarrow> \<not> is_zero (ev_source_mac e) \<and> ev_source_mac e = pa_source_mac a \<or>
     ev_source_ipv4 e \<noteq> 0 \<and> ev_source_ipv4 e = pa_source_ipv4 a \<or>
     ev_type e = MalformedFrame \<and> pa_classification a = Malformed"

definition decides_on :: "anomaly_event \<Rightarrow> policy_decision \<Rightarrow> bool" where
  "decides_on e d \<longleftrightarrow> ev_type (pd_anomaly d) = ev_type e \<and> ev_source_mac (pd_anomaly d) = ev_source_mac e \<and>
     ev_source_ipv4 (pd_anomaly d) = ev_source_ipv4 e \<and> ev_ingress (pd_anomaly d) = ev_ingress e"

text \<open>One packet of a batch into the annotated capture; \<open>disk\<close> is the state of the stream by the number of the write.\<close>

definition replay_packet ::
    "replay_options \<Rightarrow> pcap_capture \<Rightarrow> (u64 \<Rightarrow> bool) \<Rightarrow> analysis_outcome \<Rightarrow> nat \<Rightarrow> packet_analysis \<Rightarrow> pcapng_writer \<Rightarrow> replay \<Rightarrow> replay replaying" where
  "replay_packet o' c disk out i a w s =
     (let matched = filter (\<lambda>e. indicts e a) (ao_anomalies out);
          decided = concat (map (\<lambda>e. filter (decides_on e) (ao_decisions out)) matched);
          s = (if matched \<noteq> [] then s\<lparr> rp_annotated := rp_annotated s + 1 \<rparr> else s)
      in if matched = [] \<and> ro_only_flagged o' then Some (Inr s)
         else if i \<ge> length (pc_packets c) then None
         else let r = pc_packets c ! i in
           (case writer_write (disk (wr_written w)) (pk_timestamp r) (pcap_frame c i) (pk_captured r) (pk_original r)
                   (build_comment a matched decided) w of
              None \<Rightarrow> None
            | Some (Inl e) \<Rightarrow> Some (Inl (CannotWrite e))
            | Some (Inr w) \<Rightarrow> Some (Inr (s\<lparr> rp_writer := Some w, rp_exported := rp_exported s + 1 \<rparr>))))"

fun replay_packets ::
    "replay_options \<Rightarrow> pcap_capture \<Rightarrow> (u64 \<Rightarrow> bool) \<Rightarrow> analysis_outcome \<Rightarrow> nat \<Rightarrow> packet_analysis list \<Rightarrow> replay \<Rightarrow> replay replaying" where
  "replay_packets o' c disk out i [] s = Some (Inr s)"
| "replay_packets o' c disk out i (a # rest) s =
     (case rp_writer s of
        None \<Rightarrow> Some (Inr s)
      | Some w \<Rightarrow>
          (case replay_packet o' c disk out i a w s of
             None \<Rightarrow> None
           | Some (Inl e) \<Rightarrow> Some (Inl e)
           | Some (Inr s) \<Rightarrow> replay_packets o' c disk out (i + 1) rest s))"

text \<open>What the batch adds to the counts.\<close>

definition count_outcome :: "analysis_batch \<Rightarrow> analysis_outcome \<Rightarrow> replay \<Rightarrow> replay" where
  "count_outcome analysis out s =
     s\<lparr> rp_totals := add_totals analysis (rp_totals s),
        rp_anomalies := rp_anomalies s + of_nat (length (ao_anomalies out)),
        rp_decisions := rp_decisions s + of_nat (length (ao_decisions out)),
        rp_anomaly_counts := fold (\<lambda>e. omap_update (anomaly_type_text (ev_type e)) (\<lambda>n. n + 1) 0) (ao_anomalies out) (rp_anomaly_counts s),
        rp_rule_hits := fold (\<lambda>d. omap_update (pd_rule d) (\<lambda>n. n + 1) 0) (ao_decisions out) (rp_rule_hits s) \<rparr>"

text \<open>The packets from \<open>start\<close> on, at most a batch of them. No controller is attached to the pipeline; the one that is passed is not
  looked at.\<close>

definition replay_batch ::
    "replay_options \<Rightarrow> pcap_capture \<Rightarrow> (u64 \<Rightarrow> bool) \<Rightarrow> int \<Rightarrow> nat \<Rightarrow> replay \<Rightarrow> replay replaying" where
  "replay_batch o' c disk now start s =
     (let cnt = min (ro_batch o') (length (pc_packets c) - start);
          views = map (\<lambda>i. pcap_view c i 0) [start..<start + cnt]
      in case analyze_views views (rp_learned s) of
           None \<Rightarrow> None
         | Some (analysis, learned) \<Rightarrow>
             (case pl_evaluate (ab_packets analysis) (pk_timestamp (pc_packets c ! (start + cnt - 1))) now (rp_pipeline s) (tc_new 0) of
                Inl e \<Rightarrow> Some (Inl (Uncaught e))
              | Inr (out, p, _) \<Rightarrow>
                  replay_packets o' c disk out start (ab_packets analysis)
                    (count_outcome analysis out (s\<lparr> rp_learned := learned, rp_pipeline := p \<rparr>))))"

text \<open>The size of a batch is not 0, which the options refuse.\<close>

function replay_loop ::
    "replay_options \<Rightarrow> pcap_capture \<Rightarrow> (u64 \<Rightarrow> bool) \<Rightarrow> int \<Rightarrow> nat \<Rightarrow> replay \<Rightarrow> replay replaying" where
  "replay_loop o' c disk now start s =
     (if start < length (pc_packets c) \<and> 0 < ro_batch o'
      then (case replay_batch o' c disk now start s of
              None \<Rightarrow> None
            | Some (Inl e) \<Rightarrow> Some (Inl e)
            | Some (Inr s) \<Rightarrow> replay_loop o' c disk now (start + ro_batch o') s)
      else Some (Inr s))"
  by pat_completeness auto
termination by (relation "measure (\<lambda>(o', c, disk, now, start, s). length (pc_packets c) - start)") auto

declare replay_loop.simps [simp del]

section \<open>The program\<close>

definition from_file :: "(string \<Rightarrow> bytes option) \<Rightarrow> string \<Rightarrow> pcap_capture reading" where
  "from_file files path = (case files path of None \<Rightarrow> Some (Inl FileRead) | Some bs \<Rightarrow> from_bytes bs)"

datatype replay_exit =
    BadUsage string | CannotRead pcap_error | CannotCreate pcap_error | ReplayFailed replay_failure | CannotFlush
  | Finished replay_options pcap_capture replay

definition replay_start :: "pipeline \<Rightarrow> pcapng_writer option \<Rightarrow> replay" where
  "replay_start p w = \<lparr> rp_learned = {}, rp_pipeline = p\<lparr> pl_policies := fold (\<lambda>r e. snd (add_rule r e)) replay_rules (pl_policies p) \<rparr>,
     rp_writer = w, rp_anomalies = 0, rp_decisions = 0, rp_annotated = 0, rp_exported = 0, rp_anomaly_counts = [], rp_rule_hits = [],
     rp_totals = empty_batch \<rparr>"

text \<open>\<open>out\<close> is the state of the output after opening it and after its header, \<open>flushed\<close> after the last flush.\<close>

definition replay_main ::
    "(string \<Rightarrow> bytes option) \<Rightarrow> bool \<times> bool \<Rightarrow> (u64 \<Rightarrow> bool) \<Rightarrow> bool \<Rightarrow> int \<Rightarrow> string list \<Rightarrow> replay_exit option" where
  "replay_main files out disk flushed now args =
     (case parse_options args of
        Inl e \<Rightarrow> Some (BadUsage e)
      | Inr o' \<Rightarrow>
          (case from_file files (ro_input o') of
             None \<Rightarrow> None
           | Some (Inl e) \<Rightarrow> Some (CannotRead e)
           | Some (Inr c) \<Rightarrow>
               (case pl_new (replay_config o') default_enforcer_config False of
                  Inl e \<Rightarrow> Some (ReplayFailed (Uncaught e))
                | Inr p \<Rightarrow>
                    (case (if ro_output o' = [] then Inr None
                           else map_sum id Some (writer_create (fst out) (snd out) ''wirelab'' MAXIMUM_SNAPLEN)) of
                       Inl e \<Rightarrow> Some (CannotCreate e)
                     | Inr w \<Rightarrow>
                         (case replay_loop o' c disk now 0 (replay_start p w) of
                            None \<Rightarrow> None
                          | Some (Inl e) \<Rightarrow> Some (ReplayFailed e)
                          | Some (Inr s) \<Rightarrow> if w \<noteq> None \<and> \<not> flushed then Some CannotFlush else Some (Finished o' c s))))))"

text \<open>What a finished replay prints behind its first line, and the exit status.\<close>

definition replay_summary :: "replay_options \<Rightarrow> replay \<Rightarrow> string" where
  "replay_summary o' s =
     (let nl = [CHR 0x0A]; t = rp_totals s in
      nl @ ''Analysis'' @ nl @
      ''  received       '' @ uint_text (ab_received_packets t) @ '' packets, '' @ uint_text (ab_received_bytes t) @ '' bytes'' @ nl @
      ''  broadcast      '' @ uint_text (ab_broadcast t) @ nl @
      ''  unknown unicast '' @ uint_text (ab_unknown_unicast t) @ nl @
      ''  known unicast  '' @ uint_text (ab_known_unicast t) @ nl @
      ''  malformed      '' @ uint_text (ab_malformed t) @ nl @
      nl @ ''Detection'' @ nl @ ''  '' @ uint_text (rp_anomalies s) @ '' anomaly events, '' @ uint_text (rp_decisions s) @ '' policy decisions'' @ nl @
      concat (map (\<lambda>(name, n). ''  '' @ name @ '' '' @ uint_text n @ nl) (rp_anomaly_counts s)) @
      concat (map (\<lambda>(name, n). ''  rule '' @ name @ '' '' @ uint_text n @ nl) (rp_rule_hits s)) @
      (if rp_writer s \<noteq> None
       then nl @ ''Wrote '' @ uint_text (rp_exported s) @ '' packets to '' @ ro_output o' @ '' ('' @ uint_text (rp_annotated s) @
         '' carry an anomaly verdict)'' @ nl
       else []))"

text \<open>An exception that nobody catches ends the program without a status.\<close>

definition exit_status :: "replay_exit \<Rightarrow> int option" where
  "exit_status e = (case e of Finished o' c s \<Rightarrow> Some 0 | ReplayFailed (Uncaught _) \<Rightarrow> None | _ \<Rightarrow> Some 1)"

section \<open>What is exported\<close>

definition frame_content :: "pcap_capture \<Rightarrow> nat \<Rightarrow> u64 \<times> bytes \<times> nat" where
  "frame_content c i = (let (t, data, original) = packet_content (pc_bytes c) (pc_packets c ! i) in (t, data, max original (length data)))"

text \<open>What a replay finds out about the packets from \<open>start\<close> on, without any export: each packet's analysis, with
  the outcome of the batch it was in. The state is what the analyzer has learned and the pipeline.\<close>

function replay_findings ::
    "replay_options \<Rightarrow> pcap_capture \<Rightarrow> int \<Rightarrow> nat \<Rightarrow> mac_address set \<Rightarrow> pipeline \<Rightarrow> (packet_analysis \<times> analysis_outcome) list" where
  "replay_findings o' c now start learned p =
     (if start < length (pc_packets c) \<and> 0 < ro_batch o'
      then (let cnt = min (ro_batch o') (length (pc_packets c) - start) in
        case analyze_views (map (\<lambda>i. pcap_view c i 0) [start..<start + cnt]) learned of
          None \<Rightarrow> []
        | Some (analysis, learned) \<Rightarrow>
            (case pl_evaluate (ab_packets analysis) (pk_timestamp (pc_packets c ! (start + cnt - 1))) now p (tc_new 0) of
               Inl e \<Rightarrow> []
             | Inr (out, p, _) \<Rightarrow>
                 map (\<lambda>a. (a, out)) (ab_packets analysis) @ replay_findings o' c now (start + ro_batch o') learned p))
      else [])"
  by pat_completeness auto
termination by (relation "measure (\<lambda>(o', c, now, start, learned, p). length (pc_packets c) - start)") auto

declare replay_findings.simps [simp del]

definition matched_by :: "packet_analysis \<times> analysis_outcome \<Rightarrow> anomaly_event list" where
  "matched_by f = filter (\<lambda>e. indicts e (fst f)) (ao_anomalies (snd f))"

definition decided_by :: "packet_analysis \<times> analysis_outcome \<Rightarrow> policy_decision list" where
  "decided_by f = concat (map (\<lambda>e. filter (decides_on e) (ao_decisions (snd f))) (matched_by f))"

text \<open>A packet as it is to be written, and the numbers of those of the first \<open>n\<close> that are.\<close>

definition export_of :: "pcap_capture \<Rightarrow> (packet_analysis \<times> analysis_outcome) list \<Rightarrow> nat \<Rightarrow> written_packet" where
  "export_of c fs i = (let r = pc_packets c ! i in
     \<lparr> wp_timestamp = pk_timestamp r, wp_data = take (pk_captured r) (drop (pk_offset r) (pc_bytes c)),
       wp_original = pk_original r, wp_comment = build_comment (fst (fs ! i)) (matched_by (fs ! i)) (decided_by (fs ! i)) \<rparr>)"

definition chosen :: "replay_options \<Rightarrow> (packet_analysis \<times> analysis_outcome) list \<Rightarrow> nat \<Rightarrow> nat list" where
  "chosen o' fs n = filter (\<lambda>i. matched_by (fs ! i) \<noteq> [] \<or> \<not> ro_only_flagged o') [0..<n]"

text \<open>The first \<open>n\<close> packets of the capture have gone through.\<close>

definition exported ::
    "replay_options \<Rightarrow> pcap_capture \<Rightarrow> (packet_analysis \<times> analysis_outcome) list \<Rightarrow> pcapng_writer \<Rightarrow> nat \<Rightarrow> replay \<Rightarrow> bool" where
  "exported o' c fs w0 n s \<longleftrightarrow>
     (\<exists>w. rp_writer s = Some w \<and> write_packets (map (export_of c fs) (chosen o' fs n)) w0 = Some (Inr w)) \<and>
     rp_exported s = of_nat (length (chosen o' fs n)) \<and>
     rp_annotated s = of_nat (length (filter (\<lambda>i. matched_by (fs ! i) \<noteq> []) [0..<n]))"

lemma write_packets_snoc:
  "write_packets (ps @ [p]) w = reading_bind (write_packets ps w) (\<lambda>w.
     writer_write True (wp_timestamp p) (Some (wp_data p)) (length (wp_data p)) (wp_original p) (wp_comment p) w)"
proof (induction ps arbitrary: w)
  case Nil
  have "reading_bind r (\<lambda>w. Some (Inr w)) = r" for r :: "pcapng_writer reading"
    by (cases r) (auto simp: reading_bind_def split: sum.split)
  moreover have "write_packets [] = (\<lambda>w. Some (Inr w))" by (rule ext) simp
  ultimately show ?case by simp
next
  case (Cons q ps)
  have assoc: "reading_bind (reading_bind r f) g = reading_bind r (\<lambda>x. reading_bind (f x) g)" for r :: "pcapng_writer reading" and f g
    by (cases r) (auto simp: reading_bind_def split: sum.split)
  have "write_packets (ps @ [p]) = (\<lambda>w. reading_bind (write_packets ps w)
      (writer_write True (wp_timestamp p) (Some (wp_data p)) (length (wp_data p)) (wp_original p) (wp_comment p)))"
    by (rule ext) (rule Cons.IH)
  then show ?case by (simp add: assoc)
qed

lemma writer_write_take:
  assumes "writer_write ok t (Some bs) n original comment w = Some (Inr w')"
  shows "writer_write True t (Some (take n bs)) (length (take n bs)) original comment w = Some (Inr w') \<and> n \<le> length bs \<and> n \<le> 262144"
  using assms by (auto simp: writer_write_def Let_def split: if_splits)

lemma replay_packet_ok:
  assumes "exported o' c fs w0 i s" and "rp_writer s = Some w" and "i < length (pc_packets c)" and "packets_in (pc_bytes c) (pc_packets c)"
    and "fs ! i = (a, out)"
  shows "\<exists>r. replay_packet o' c disk out i a w s = Some r \<and>
    (case r of Inl e \<Rightarrow> (\<exists>x. e = CannotWrite x) \<and> (\<exists>k. \<not> disk k)
     | Inr s' \<Rightarrow> exported o' c fs w0 (i + 1) s' \<and> rp_pipeline s' = rp_pipeline s \<and> rp_totals s' = rp_totals s \<and>
         rp_learned s' = rp_learned s)"
proof -
  let ?r = "pc_packets c ! i"
  define m where "m = filter (\<lambda>e. indicts e a) (ao_anomalies out)"
  define mark where "mark = build_comment a m (concat (map (\<lambda>e. filter (decides_on e) (ao_decisions out)) m))"
  have m: "matched_by (fs ! i) = m" "wp_comment (export_of c fs i) = mark"
    by (simp_all add: matched_by_def decided_by_def export_of_def Let_def assms(5) m_def mark_def)
  have ps: "write_packets (map (export_of c fs) (chosen o' fs i)) w0 = Some (Inr w)"
      "rp_exported s = of_nat (length (chosen o' fs i))"
      "rp_annotated s = of_nat (length (filter (\<lambda>i. matched_by (fs ! i) \<noteq> []) [0..<i]))"
    using assms(1,2) by (auto simp: exported_def)
  have "?r \<in> set (pc_packets c)" using assms(3) by simp
  then have inside: "pk_offset ?r + pk_captured ?r \<le> length (pc_bytes c)" "pk_captured ?r \<le> 262144" "pk_original ?r < 2 ^ 32"
    using assms(4) by (auto simp: packets_in_def packet_in_def)
  show ?thesis
  proof (cases "m = [] \<and> ro_only_flagged o'")
    case True
    then have "exported o' c fs w0 (i + 1) s" using assms(1) m(1) by (simp add: exported_def chosen_def)
    then show ?thesis using True by (simp add: replay_packet_def flip: m_def)
  next
    case False
    then have next': "chosen o' fs (Suc i) = chosen o' fs i @ [i]" using m(1) by (auto simp: chosen_def)
    let ?bs = "drop (pk_offset ?r) (pc_bytes c)"
    have frame: "pcap_frame c i = Some ?bs" using assms(3) by (simp add: pcap_frame_def)
    let ?attempt = "writer_write (disk (wr_written w)) (pk_timestamp ?r) (Some ?bs) (pk_captured ?r) (pk_original ?r) mark w"
    have run: "replay_packet o' c disk out i a w s = (case ?attempt of None \<Rightarrow> None
        | Some (Inl e) \<Rightarrow> Some (Inl (CannotWrite e))
        | Some (Inr w) \<Rightarrow> Some (Inr ((if m \<noteq> [] then s\<lparr> rp_annotated := rp_annotated s + 1 \<rparr> else s)
            \<lparr> rp_writer := Some w, rp_exported := rp_exported s + 1 \<rparr>)))"
      using False assms(3) frame by (simp add: replay_packet_def Let_def mark_def flip: m_def split: option.split sum.split)
    have "?attempt \<noteq> None" using inside by (auto simp: writer_write_def Let_def)
    then obtain x where x: "?attempt = Some x" by blast
    show ?thesis
    proof (cases x)
      case (Inl e)
      then have "\<not> disk (wr_written w)" using x inside
        by (auto simp: writer_write_def Let_def MAXIMUM_SNAPLEN_def split: if_splits)
      then show ?thesis using run x Inl by auto
    next
      case (Inr w')
      have "writer_write True (pk_timestamp ?r) (Some (take (pk_captured ?r) ?bs)) (length (take (pk_captured ?r) ?bs))
          (pk_original ?r) mark w = Some (Inr w')"
        using writer_write_take [OF x [unfolded Inr]] by blast
      then have "write_packets (map (export_of c fs) (chosen o' fs (i + 1))) w0 = Some (Inr w')"
        using ps(1) m(2) by (simp add: next' write_packets_snoc reading_bind_def) (simp add: export_of_def Let_def)
      then have "exported o' c fs w0 (i + 1)
          ((if m \<noteq> [] then s\<lparr> rp_annotated := rp_annotated s + 1 \<rparr> else s)\<lparr> rp_writer := Some w', rp_exported := rp_exported s + 1 \<rparr>)"
        using ps(2,3) m(1) by (simp add: exported_def next')
      then show ?thesis using run x Inr by simp
    qed
  qed
qed

lemma replay_packets_ok:
  assumes "exported o' c fs w0 i s" and "i + length as \<le> length (pc_packets c)" and "packets_in (pc_bytes c) (pc_packets c)"
    and "\<forall>j < length as. fs ! (i + j) = (as ! j, out)"
  shows "\<exists>r. replay_packets o' c disk out i as s = Some r \<and>
    (case r of Inl e \<Rightarrow> (\<exists>x. e = CannotWrite x) \<and> (\<exists>k. \<not> disk k)
     | Inr s' \<Rightarrow> exported o' c fs w0 (i + length as) s' \<and> rp_pipeline s' = rp_pipeline s \<and> rp_totals s' = rp_totals s \<and>
         rp_learned s' = rp_learned s)"
  using assms(1,2,4)
proof (induction as arbitrary: i s)
  case (Cons a as)
  obtain w where w: "rp_writer s = Some w" using Cons.prems(1) by (auto simp: exported_def)
  have here: "fs ! i = (a, out)" and later: "\<forall>j < length as. fs ! (i + 1 + j) = (as ! j, out)"
    using Cons.prems(3) by (force, force)
  obtain r where r: "replay_packet o' c disk out i a w s = Some r"
      "case r of Inl e \<Rightarrow> (\<exists>x. e = CannotWrite x) \<and> (\<exists>k. \<not> disk k)
       | Inr s' \<Rightarrow> exported o' c fs w0 (i + 1) s' \<and> rp_pipeline s' = rp_pipeline s \<and> rp_totals s' = rp_totals s \<and>
         rp_learned s' = rp_learned s"
    using replay_packet_ok [OF Cons.prems(1) w _ assms(3) here] Cons.prems(2) by fastforce
  show ?case
  proof (cases r)
    case (Inr s')
    then have "exported o' c fs w0 (i + 1) s'" using r(2) by simp
    from Cons.IH [OF this _ later] Cons.prems(2) show ?thesis using r Inr w by (auto split: sum.splits)
  qed (use r w in simp)
qed simp

lemma no_writer_packets: "rp_writer s = None \<Longrightarrow> replay_packets o' c disk out i as s = Some (Inr s)"
  by (cases as) simp_all

section \<open>The loop\<close>

text \<open>\<open>w0\<close> is the writer the replay started with, if it has one; \<open>fs\<close> is what it finds out about all packets.\<close>

definition replayed ::
    "replay_options \<Rightarrow> pcap_capture \<Rightarrow> int \<Rightarrow> (packet_analysis \<times> analysis_outcome) list \<Rightarrow> pcapng_writer option \<Rightarrow> nat \<Rightarrow> replay \<Rightarrow> bool" where
  "replayed o' c now fs w0 start s \<longleftrightarrow> (let n = min start (length (pc_packets c)) in
     pl_clock (replay_config o') (rp_pipeline s) \<and>
     ab_received_packets (rp_totals s) = of_nat n \<and>
     ab_received_bytes (rp_totals s) = sum_list (map (\<lambda>i. of_nat (pk_captured (pc_packets c ! i))) [0..<n]) \<and>
     n \<le> length fs \<and> drop n fs = replay_findings o' c now start (rp_learned s) (rp_pipeline s) \<and>
     (case w0 of None \<Rightarrow> rp_writer s = None | Some w \<Rightarrow> exported o' c fs w n s))"

lemma analyzed_packets:
  assumes "\<forall>v \<in> set views. view_ok v" and "analyze_views views learned = Some (b, learned')"
  shows "length (ab_packets b) = length views"
  using assms(2) unfolding analyze_views_eq [OF assms(1)]
  by (auto simp: Let_def finish_batch_keeps agg_packets map_fst_frames empty_batch_def split: if_splits)

lemma replay_batch_ok:
  assumes "replayed o' c now fs w0 start s" and "start < length (pc_packets c)" and "0 < ro_batch o'"
    and "packets_in (pc_bytes c) (pc_packets c)"
  shows "\<exists>r. replay_batch o' c disk now start s = Some r \<and>
    (case r of Inl e \<Rightarrow> (\<exists>x. e = CannotWrite x) \<and> (\<exists>k. \<not> disk k) | Inr s' \<Rightarrow> replayed o' c now fs w0 (start + ro_batch o') s')"
proof -
  define cnt where "cnt = min (ro_batch o') (length (pc_packets c) - start)"
  define views where "views = map (\<lambda>i. pcap_view c i 0) [start..<start + cnt]"
  have upto: "min (start + ro_batch o') (length (pc_packets c)) = start + cnt" using assms(2) by (auto simp: cnt_def min_def)
  have now': "min start (length (pc_packets c)) = start" using assms(2) by simp
  have ok: "\<forall>v \<in> set views. view_ok v" using view_in_bounds [OF assms(4)] by (auto simp: views_def)
  obtain b learned where b: "analyze_views views (rp_learned s) = Some (b, learned)"
    unfolding analyze_views_eq [OF ok] by fastforce
  have packets: "length (ab_packets b) = cnt" using analyzed_packets [OF ok b] by (simp add: views_def)
  have "start + cnt \<le> length (pc_packets c)" using assms(2) by (simp add: cnt_def)
  then have "view_lengths views = map (\<lambda>i. of_nat (pk_captured (pc_packets c ! i))) [start..<start + cnt]"
    by (auto simp: view_lengths_def views_def pcap_view_def)
  then have received: "ab_received_packets b = of_nat cnt"
      "ab_received_bytes b = sum_list (map (\<lambda>i. of_nat (pk_captured (pc_packets c ! i))) [start..<start + cnt])"
    using views_counters [OF ok b] by (simp_all add: views_def)
  have clock: "pl_clock (replay_config o') (rp_pipeline s)" using assms(1) by (simp add: replayed_def Let_def)
  obtain out p k where e: "pl_evaluate (ab_packets b) (pk_timestamp (pc_packets c ! (start + cnt - 1))) now (rp_pipeline s) (tc_new 0) =
      Inr (out, p, k)" using pl_evaluate_total [OF clock] by blast
  have clock': "pl_clock (replay_config o') p" by (rule pl_clock_evaluate [OF clock e])
  have finds: "drop start fs = map (\<lambda>a. (a, out)) (ab_packets b) @ replay_findings o' c now (start + ro_batch o') learned p"
    using assms(1-3) b e by (simp add: replayed_def now' Let_def replay_findings.simps [of o' c now start] flip: cnt_def views_def)
  have later: "drop (start + cnt) fs = replay_findings o' c now (start + ro_batch o') learned p"
    using arg_cong [OF finds, of "drop cnt"] packets by (simp add: add.commute)
  have fits: "start \<le> length fs" using assms(1) by (simp add: replayed_def now' Let_def)
  then have long: "start + cnt \<le> length fs" using arg_cong [OF finds, of length] packets by simp
  have here: "\<forall>j < length (ab_packets b). fs ! (start + j) = (ab_packets b ! j, out)"
  proof (intro allI impI)
    fix j assume "j < length (ab_packets b)"
    then have "drop start fs ! j = (ab_packets b ! j, out)" by (simp add: finds nth_append)
    then show "fs ! (start + j) = (ab_packets b ! j, out)" using fits by simp
  qed
  define s1 where "s1 = count_outcome b out (s\<lparr> rp_learned := learned, rp_pipeline := p \<rparr>)"
  have run: "replay_batch o' c disk now start s = replay_packets o' c disk out start (ab_packets b) s1"
    using b e by (simp add: replay_batch_def Let_def s1_def flip: cnt_def views_def)
  have s1: "rp_pipeline s1 = p" "rp_learned s1 = learned" "rp_writer s1 = rp_writer s" "ab_received_packets (rp_totals s1) = of_nat (start + cnt)"
      "ab_received_bytes (rp_totals s1) = sum_list (map (\<lambda>i. of_nat (pk_captured (pc_packets c ! i))) [0..<start + cnt])"
    using assms(1) received upt_add_eq_append [of 0 start cnt]
    by (simp_all add: s1_def count_outcome_def add_totals_def replayed_def now' Let_def add.commute)
  have done': "replayed o' c now fs w0 (start + ro_batch o') s'"
    if "rp_pipeline s' = p" "rp_learned s' = learned" "rp_totals s' = rp_totals s1"
      "case w0 of None \<Rightarrow> rp_writer s' = None | Some w \<Rightarrow> exported o' c fs w (start + cnt) s'" for s'
    unfolding replayed_def upto Let_def using that s1 clock' later long by simp
  show ?thesis
  proof (cases w0)
    case None
    then have "rp_writer s = None" using assms(1) by (simp add: replayed_def Let_def)
    then show ?thesis using None s1 run done' [of s1] by (simp add: no_writer_packets)
  next
    case (Some w)
    then have "exported o' c fs w start s1" using assms(1) by (simp add: replayed_def now' Let_def exported_def s1_def count_outcome_def)
    from replay_packets_ok [OF this _ assms(4) here, of disk] packets \<open>start + cnt \<le> length (pc_packets c)\<close>
    obtain r where "replay_packets o' c disk out start (ab_packets b) s1 = Some r"
      "case r of Inl e \<Rightarrow> (\<exists>x. e = CannotWrite x) \<and> (\<exists>k. \<not> disk k)
       | Inr s' \<Rightarrow> exported o' c fs w (start + cnt) s' \<and> rp_pipeline s' = rp_pipeline s1 \<and> rp_totals s' = rp_totals s1 \<and>
         rp_learned s' = rp_learned s1" by auto
    then show ?thesis using Some s1 run done' by (auto split: sum.splits)
  qed
qed

lemma replay_loop_ok:
  assumes "replayed o' c now fs w0 start s" and "0 < ro_batch o'" and "packets_in (pc_bytes c) (pc_packets c)"
  shows "\<exists>r. replay_loop o' c disk now start s = Some r \<and>
    (case r of Inl e \<Rightarrow> (\<exists>x. e = CannotWrite x) \<and> (\<exists>k. \<not> disk k) | Inr s' \<Rightarrow> replayed o' c now fs w0 (length (pc_packets c)) s')"
  using assms(1)
proof (induction "length (pc_packets c) - start" arbitrary: start s rule: less_induct)
  case less
  show ?case
  proof (cases "start < length (pc_packets c)")
    case True
    from replay_batch_ok [OF less.prems True assms(2,3)] obtain r where r: "replay_batch o' c disk now start s = Some r"
        "case r of Inl e \<Rightarrow> (\<exists>x. e = CannotWrite x) \<and> (\<exists>k. \<not> disk k) | Inr s' \<Rightarrow> replayed o' c now fs w0 (start + ro_batch o') s'"
      by blast
    show ?thesis
    proof (cases r)
      case (Inl e)
      then show ?thesis using r True assms(2) by (subst replay_loop.simps) simp
    next
      case (Inr s')
      have "length (pc_packets c) - (start + ro_batch o') < length (pc_packets c) - start" using True assms(2) by simp
      from less.hyps [OF this] r(2) Inr show ?thesis using r(1) True assms(2) by (subst replay_loop.simps) simp
    qed
  next
    case False
    have "replayed o' c now fs w0 (length (pc_packets c)) s"
      using less.prems False replay_findings.simps [of o' c now start] replay_findings.simps [of o' c now "length (pc_packets c)"]
      by (simp add: replayed_def Let_def)
    then show ?thesis using False by (subst replay_loop.simps) simp
  qed
qed

section \<open>Properties\<close>

lemma parsed_batch: "parse_flags flags o' = Inr q \<Longrightarrow> 0 < ro_batch o' \<Longrightarrow> 0 < ro_batch q"
proof (induction flags o' rule: parse_flags.induct)
  case (3 flag v rest o')
  have "0 < ro_batch o2" if "replay_option flag v o' = Inr o2" for o2
    using that "3.prems"(2)
    by (auto simp: replay_option_def numeric_option_def unat_gt_0 split: if_splits option.splits)
  then show ?case using 3 by (auto split: if_splits sum.splits)
qed (auto split: if_splits)

lemma options_batch: "parse_options args = Inr o' \<Longrightarrow> 0 < ro_batch o'"
  by (auto simp: parse_options_def default_replay_options_def dest: parsed_batch split: list.splits)

lemma read_file_ok: "\<exists>r. from_file files path = Some r \<and> (case r of Inl e \<Rightarrow> True | Inr c \<Rightarrow> packets_in (pc_bytes c) (pc_packets c))"
proof (cases "files path")
  case (Some bs)
  then show ?thesis using from_bytes_safe [of bs] by (auto simp: from_file_def safe_def split: sum.split)
qed (simp add: from_file_def)

lemma rules_clock: "pl_new (replay_config o') config False = Inr p \<Longrightarrow> pl_clock (replay_config o') (rp_pipeline (replay_start p w))"
  using ad_new_inv by (auto simp: pl_new_def pl_clock_def replay_start_def split: sum.splits)

text \<open>What a replay finds out about its capture: it starts with nothing learned and the built-in policies.\<close>

definition all_findings :: "replay_options \<Rightarrow> pcap_capture \<Rightarrow> int \<Rightarrow> pipeline \<Rightarrow> (packet_analysis \<times> analysis_outcome) list" where
  "all_findings o' c now p =
     replay_findings o' c now 0 {} (p\<lparr> pl_policies := fold (\<lambda>r e. snd (add_rule r e)) replay_rules (pl_policies p) \<rparr>)"

lemma replay_start_ok:
  assumes "pl_new (replay_config o') config False = Inr p"
  shows "replayed o' c now (all_findings o' c now p) w 0 (replay_start p w)"
proof -
  have "exported o' c fs w0 0 (replay_start p (Some w0))" for w0 fs
    by (auto simp: exported_def replay_start_def chosen_def)
  then show ?thesis using rules_clock [OF assms, of w]
    by (simp add: replayed_def replay_start_def empty_batch_def all_findings_def split: option.split)
qed

text \<open>How a replay that got its options and its capture ends.\<close>

lemma replay_main_cases:
  "\<exists>e. replay_main files out disk flushed now args = Some e \<and>
    (case e of
       Finished o' c s \<Rightarrow> parse_options args = Inr o' \<and> from_file files (ro_input o') = Some (Inr c) \<and> packets_in (pc_bytes c) (pc_packets c) \<and>
         (\<exists>p. pl_new (replay_config o') default_enforcer_config False = Inr p \<and>
           (if ro_output o' = [] then replayed o' c now (all_findings o' c now p) None (length (pc_packets c)) s
            else \<exists>w0. writer_create (fst out) (snd out) ''wirelab'' MAXIMUM_SNAPLEN = Inr w0 \<and>
              replayed o' c now (all_findings o' c now p) (Some w0) (length (pc_packets c)) s))
     | BadUsage e \<Rightarrow> parse_options args = Inl e
     | CannotRead e \<Rightarrow> \<exists>o'. parse_options args = Inr o' \<and> from_file files (ro_input o') = Some (Inl e)
     | CannotCreate e \<Rightarrow> \<not> (fst out \<and> snd out)
     | CannotFlush \<Rightarrow> \<not> flushed
     | ReplayFailed (CannotWrite x) \<Rightarrow> \<exists>k. \<not> disk k
     | ReplayFailed (Uncaught x) \<Rightarrow> \<exists>o'. parse_options args = Inr o' \<and> ro_window_ms o' * 1000000 = 0)"
proof (cases "parse_options args")
  case (Inr o')
  obtain r where r: "from_file files (ro_input o') = Some r" "case r of Inl e \<Rightarrow> True | Inr c \<Rightarrow> packets_in (pc_bytes c) (pc_packets c)"
    using read_file_ok by blast
  show ?thesis
  proof (cases r)
    case (Inl e)
    then show ?thesis using \<open>parse_options args = Inr o'\<close> r by (simp add: replay_main_def)
  next
    case c: (Inr c)
    then have inside: "packets_in (pc_bytes c) (pc_packets c)" using r(2) by simp
    show ?thesis
    proof (cases "pl_new (replay_config o') default_enforcer_config False")
      case (Inl e)
      then have "ro_window_ms o' * 1000000 = 0"
        by (auto simp: pl_new_def ad_new_def replay_config_def split: sum.splits if_splits)
      then show ?thesis using \<open>parse_options args = Inr o'\<close> r c Inl by (simp add: replay_main_def)
    next
      case p: (Inr p)
      define x where "x = (if ro_output o' = [] then Inr None else map_sum id Some (writer_create (fst out) (snd out) ''wirelab'' MAXIMUM_SNAPLEN))"
      show ?thesis
      proof (cases x)
        case (Inl e)
        then have "\<not> (fst out \<and> snd out)" by (auto simp: x_def writer_create_def split: if_splits)
        then show ?thesis using \<open>parse_options args = Inr o'\<close> r c p Inl by (simp add: replay_main_def flip: x_def)
      next
        case w: (Inr w)
        from replay_loop_ok [OF replay_start_ok [OF p, of c now w] options_batch [OF Inr] inside, of disk] obtain l where
          l: "replay_loop o' c disk now 0 (replay_start p w) = Some l"
            "case l of Inl e \<Rightarrow> (\<exists>x. e = CannotWrite x) \<and> (\<exists>k. \<not> disk k) | Inr s' \<Rightarrow> replayed o' c now (all_findings o' c now p) w (length (pc_packets c)) s'" by blast
        have run: "replay_main files out disk flushed now args = (case l of Inl e \<Rightarrow> Some (ReplayFailed e)
            | Inr s \<Rightarrow> if w \<noteq> None \<and> \<not> flushed then Some CannotFlush else Some (Finished o' c s))"
          using Inr r c p w l(1) by (simp add: replay_main_def flip: x_def split: sum.split)
        have started: "ro_output o' = [] \<and> w = None \<or>
            ro_output o' \<noteq> [] \<and> (\<exists>w0. writer_create (fst out) (snd out) ''wirelab'' MAXIMUM_SNAPLEN = Inr w0 \<and> w = Some w0)"
          using w by (cases "writer_create (fst out) (snd out) ''wirelab'' MAXIMUM_SNAPLEN") (auto simp: x_def split: if_splits)
        show ?thesis
        proof (cases l)
          case (Inl e)
          then show ?thesis using l(2) run by auto
        next
          case s: (Inr s)
          then show ?thesis using l(2) run Inr r c p inside started by (cases "w \<noteq> None \<and> \<not> flushed") auto
        qed
      qed
    qed
  qed
qed (simp add: replay_main_def)

text \<open>C28. A replay always ends and never reads outside a buffer, whatever the capture file holds, whatever the times in it, and whatever
  the disk does. When it finishes, its totals count every packet of the capture and every captured byte. It fails only for options it
  refuses, a file that is no capture, or a disk that fails, and crashes only with a window of 0 ns: by \<open>--window 0\<close>, or by a number of
  milliseconds that wraps.\<close>

theorem replay_ends:
  "\<exists>e. replay_main files out disk flushed now args = Some e \<and>
    (case e of
       Finished o' c s \<Rightarrow> from_file files (ro_input o') = Some (Inr c) \<and>
         ab_received_packets (rp_totals s) = of_nat (capture_count c) \<and>
         ab_received_bytes (rp_totals s) = sum_list (map (\<lambda>pk. of_nat (pk_captured pk)) (pc_packets c))
     | BadUsage e \<Rightarrow> parse_options args = Inl e
     | CannotRead e \<Rightarrow> \<exists>o'. parse_options args = Inr o' \<and> from_file files (ro_input o') = Some (Inl e)
     | CannotCreate e \<Rightarrow> \<not> (fst out \<and> snd out)
     | CannotFlush \<Rightarrow> \<not> flushed
     | ReplayFailed (CannotWrite x) \<Rightarrow> \<exists>k. \<not> disk k
     | ReplayFailed (Uncaught x) \<Rightarrow> \<exists>o'. parse_options args = Inr o' \<and> ro_window_ms o' * 1000000 = 0)"
proof -
  have all: "map (\<lambda>i. of_nat (pk_captured (pc_packets c ! i))) [0..<length (pc_packets c)] = map (\<lambda>pk. of_nat (pk_captured pk)) (pc_packets c)"
    for c :: pcap_capture by (intro nth_equalityI) auto
  obtain e where e: "replay_main files out disk flushed now args = Some e" and how: "case e of
       Finished o' c s \<Rightarrow> parse_options args = Inr o' \<and> from_file files (ro_input o') = Some (Inr c) \<and> packets_in (pc_bytes c) (pc_packets c) \<and>
         (\<exists>p. pl_new (replay_config o') default_enforcer_config False = Inr p \<and>
           (if ro_output o' = [] then replayed o' c now (all_findings o' c now p) None (length (pc_packets c)) s
            else \<exists>w0. writer_create (fst out) (snd out) ''wirelab'' MAXIMUM_SNAPLEN = Inr w0 \<and>
              replayed o' c now (all_findings o' c now p) (Some w0) (length (pc_packets c)) s))
     | BadUsage e \<Rightarrow> parse_options args = Inl e
     | CannotRead e \<Rightarrow> \<exists>o'. parse_options args = Inr o' \<and> from_file files (ro_input o') = Some (Inl e)
     | CannotCreate e \<Rightarrow> \<not> (fst out \<and> snd out)
     | CannotFlush \<Rightarrow> \<not> flushed
     | ReplayFailed (CannotWrite x) \<Rightarrow> \<exists>k. \<not> disk k
     | ReplayFailed (Uncaught x) \<Rightarrow> \<exists>o'. parse_options args = Inr o' \<and> ro_window_ms o' * 1000000 = 0" using replay_main_cases [of files out disk flushed now args] by blast
  show ?thesis
  proof (cases e)
    case (Finished o' c s)
    then obtain fs w0 where "replayed o' c now fs w0 (length (pc_packets c)) s" using how by (auto split: if_splits)
    then show ?thesis using e how Finished by (simp add: replayed_def Let_def capture_count_def all)
  qed (use e how in simp_all)
qed

text \<open>C29. What a replay exports. With an output, a replay that finished has written, in the order of the capture,
  every packet, or with \<open>--only-flagged\<close> exactly those that carry a verdict, each with its time, its captured
  bytes, its length on the wire and its comment. A packet carries a verdict when an anomaly that was found in its
  batch has its source MAC address, or its source IPv4 address, or is a malformed frame and so is the packet; the
  comment says what the packet is, then these anomalies, then the decisions that were taken on them. What was found
  (\<open>all_findings\<close>) does not depend on the export. The numbers it prints are exact; and when the comments are
  shorter than 65536 characters the file it wrote is read back as these packets.\<close>

theorem annotated_capture_exact:
  assumes "replay_main files out disk flushed now args = Some (Finished o' c s)" and "ro_output o' \<noteq> []"
  shows "\<exists>p fs matched decided ps w0 w.
    pl_new (replay_config o') default_enforcer_config False = Inr p \<and>
    fs = all_findings o' c now p \<and> length fs = capture_count c \<and>
    matched = (\<lambda>(a, out). filter (\<lambda>e.
      ev_source_mac e = pa_source_mac a \<and> \<not> is_zero (ev_source_mac e) \<or>
      ev_source_ipv4 e = pa_source_ipv4 a \<and> ev_source_ipv4 e \<noteq> 0 \<or>
      ev_type e = MalformedFrame \<and> pa_classification a = Malformed) (ao_anomalies out)) \<and>
    decided = (\<lambda>(a, out). concat (map (\<lambda>e. filter (\<lambda>d.
      ev_type (pd_anomaly d) = ev_type e \<and> ev_source_mac (pd_anomaly d) = ev_source_mac e \<and>
      ev_source_ipv4 (pd_anomaly d) = ev_source_ipv4 e \<and> ev_ingress (pd_anomaly d) = ev_ingress e)
      (ao_decisions out)) (matched (a, out)))) \<and>
    ps = map (\<lambda>i. \<lparr> wp_timestamp = pk_timestamp (pc_packets c ! i),
        wp_data = take (pk_captured (pc_packets c ! i)) (drop (pk_offset (pc_packets c ! i)) (pc_bytes c)),
        wp_original = pk_original (pc_packets c ! i),
        wp_comment = packet_comment (fst (fs ! i)) @ concat (map anomaly_comment (matched (fs ! i))) @
          concat (map decision_comment (decided (fs ! i))) \<rparr>)
      (filter (\<lambda>i. matched (fs ! i) \<noteq> [] \<or> \<not> ro_only_flagged o') [0..<capture_count c]) \<and>
    writer_create (fst out) (snd out) ''wirelab'' MAXIMUM_SNAPLEN = Inr w0 \<and> write_packets ps w0 = Some (Inr w) \<and>
    rp_writer s = Some w \<and> rp_exported s = of_nat (length ps) \<and>
    rp_annotated s = of_nat (length (filter (\<lambda>f. matched f \<noteq> []) fs)) \<and>
    ((\<forall>p \<in> set ps. length (wp_comment p) < 2 ^ 16) \<longrightarrow>
      (\<exists>c'. from_bytes (wr_stream w) = Some (Inr c') \<and> map (packet_content (wr_stream w)) (pc_packets c') = map written_content ps))"
proof -
  obtain p w0 where p: "pl_new (replay_config o') default_enforcer_config False = Inr p"
      "writer_create (fst out) (snd out) ''wirelab'' MAXIMUM_SNAPLEN = Inr w0"
      "replayed o' c now (all_findings o' c now p) (Some w0) (length (pc_packets c)) s" "packets_in (pc_bytes c) (pc_packets c)"
    using replay_main_cases [of files out disk flushed now args] assms by auto
  define fs where "fs = all_findings o' c now p"
  define ps where "ps = map (export_of c fs) (chosen o' fs (length (pc_packets c)))"
  have "drop (length (pc_packets c)) fs = []" "length (pc_packets c) \<le> length fs"
    using p(3) replay_findings.simps [of o' c now "length (pc_packets c)"] by (simp_all add: replayed_def Let_def flip: fs_def)
  then have len: "length fs = length (pc_packets c)" by simp
  obtain w where w: "rp_writer s = Some w" "write_packets ps w0 = Some (Inr w)" "rp_exported s = of_nat (length ps)"
      "rp_annotated s = of_nat (length (filter (\<lambda>i. matched_by (fs ! i) \<noteq> []) [0..<length fs]))"
    using p(3) len by (auto simp: replayed_def Let_def exported_def ps_def simp flip: fs_def)
  have annotated: "length (filter (\<lambda>i. matched_by (fs ! i) \<noteq> []) [0..<length fs]) = length (filter (\<lambda>f. matched_by f \<noteq> []) fs)"
  proof -
    have "map (\<lambda>i. fs ! i) (filter (\<lambda>i. matched_by (fs ! i) \<noteq> []) [0..<length fs]) = filter (\<lambda>f. matched_by f \<noteq> []) fs"
      using filter_map [of "\<lambda>f. matched_by f \<noteq> []" "\<lambda>i. fs ! i" "[0..<length fs]"] by (simp add: map_nth comp_def)
    then show ?thesis by (metis length_map)
  qed
  have "length (wp_data q) \<le> 262144 \<and> wp_original q < 2 ^ 32" if q: "q \<in> set ps" for q
  proof -
    obtain i where i: "i < length (pc_packets c)" "q = export_of c fs i" using q by (auto simp: ps_def chosen_def)
    then have "pc_packets c ! i \<in> set (pc_packets c)" by simp
    then show ?thesis using p(4) by (auto simp: i(2) export_of_def Let_def packets_in_def packet_in_def)
  qed
  then have again: "\<exists>c'. from_bytes (wr_stream w) = Some (Inr c') \<and> map (packet_content (wr_stream w)) (pc_packets c') = map written_content ps"
    if "\<forall>p \<in> set ps. length (wp_comment p) < 2 ^ 16"
  proof -
    have created: "writer_create True True ''wirelab'' MAXIMUM_SNAPLEN = Inr w0" using p(2) by (simp add: writer_create_def split: if_splits)
    have "length ''wirelab'' < (2::nat) ^ 16" by simp
    from written_packets_read [OF created this _ w(2)] that \<open>\<And>q. q \<in> set ps \<Longrightarrow> _\<close> show ?thesis by (auto simp: writable_def)
  qed
  have matched: "matched_by = (\<lambda>(a, out). filter (\<lambda>e.
      ev_source_mac e = pa_source_mac a \<and> \<not> is_zero (ev_source_mac e) \<or>
      ev_source_ipv4 e = pa_source_ipv4 a \<and> ev_source_ipv4 e \<noteq> 0 \<or>
      ev_type e = MalformedFrame \<and> pa_classification a = Malformed) (ao_anomalies out))"
    by (rule ext) (auto simp: matched_by_def indicts_def split_beta intro!: filter_cong)
  have decided: "decided_by = (\<lambda>(a, out). concat (map (\<lambda>e. filter (\<lambda>d.
      ev_type (pd_anomaly d) = ev_type e \<and> ev_source_mac (pd_anomaly d) = ev_source_mac e \<and>
      ev_source_ipv4 (pd_anomaly d) = ev_source_ipv4 e \<and> ev_ingress (pd_anomaly d) = ev_ingress e)
      (ao_decisions out)) (matched_by (a, out))))"
    by (rule ext) (auto simp: decided_by_def decides_on_def [abs_def] split_beta)
  have contents: "ps = map (\<lambda>i. \<lparr> wp_timestamp = pk_timestamp (pc_packets c ! i),
        wp_data = take (pk_captured (pc_packets c ! i)) (drop (pk_offset (pc_packets c ! i)) (pc_bytes c)),
        wp_original = pk_original (pc_packets c ! i),
        wp_comment = packet_comment (fst (fs ! i)) @ concat (map anomaly_comment (matched_by (fs ! i))) @
          concat (map decision_comment (decided_by (fs ! i))) \<rparr>)
      (filter (\<lambda>i. matched_by (fs ! i) \<noteq> [] \<or> \<not> ro_only_flagged o') [0..<capture_count c])"
    by (simp add: ps_def export_of_def Let_def chosen_def capture_count_def build_comment_def)
  show ?thesis
    by (rule exI [of _ p], rule exI [of _ fs], rule exI [of _ matched_by], rule exI [of _ decided_by], rule exI [of _ ps],
        rule exI [of _ w0], rule exI [of _ w], intro conjI)
      (rule p(1) fs_def matched decided contents p(2) w(1-3) | use len w(4) annotated again in \<open>simp add: capture_count_def; fail\<close>
        | use again in blast)+
qed

theorem annotated_capture_exact_witness:
  "\<exists>file o' c s w ps. replay_main (\<lambda>_. Some file) (True, True) (\<lambda>_. True) True 0 [''in.pcap'', ''--out'', ''out.pcapng''] = Some (Finished o' c s) \<and>
    capture_count c = 2 \<and> rp_writer s = Some w \<and> rp_exported s = 2 \<and> map wp_timestamp ps = map pk_timestamp (pc_packets c) \<and>
    (\<exists>w0. write_packets ps w0 = Some (Inr w))"
proof -
  obtain w0 where w0: "writer_create True True ''eth0'' 262144 = Inr w0" by (simp add: writer_create_def)
  have ps: "\<forall>p \<in> set example_written. writable p" by (simp add: example_written_def writable_def)
  obtain w1 where w1: "write_packets example_written w0 = Some (Inr w1)" using write_packets_stream [OF ps] by blast
  have "length ''eth0'' < (2::nat) ^ 16" by simp
  from written_packets_read [OF w0 this ps w1] obtain c where c: "from_bytes (wr_stream w1) = Some (Inr c)"
      "map (packet_content (wr_stream w1)) (pc_packets c) = map written_content example_written" by blast
  define args where "args = [''in.pcap'', ''--out'', ''out.pcapng'']"
  define o' where "o' = (default_replay_options ''in.pcap'')\<lparr> ro_output := ''out.pcapng'' \<rparr>"
  define run where "run = replay_main (\<lambda>_. Some (wr_stream w1)) (True, True) (\<lambda>_. True) True 0 args"
  have options: "parse_options args = Inr o'" by (simp add: parse_options_def args_def replay_option_def o'_def)
  have fields: "ro_output o' \<noteq> []" "\<not> ro_only_flagged o'" "ro_window_ms o' * 1000000 \<noteq> 0" "ro_input o' = ''in.pcap''"
    by (simp_all add: o'_def default_replay_options_def)
  have reads: "from_file (\<lambda>_. Some (wr_stream w1)) path = Some (Inr c)" for path by (simp add: from_file_def c(1))
  obtain e where e: "run = Some e" and how: "case e of
       Finished q d s \<Rightarrow> parse_options args = Inr q \<and> from_file (\<lambda>_. Some (wr_stream w1)) (ro_input q) = Some (Inr d)
     | BadUsage e \<Rightarrow> parse_options args = Inl e
     | CannotRead e \<Rightarrow> \<exists>o'. parse_options args = Inr o' \<and> from_file (\<lambda>_. Some (wr_stream w1)) (ro_input o') = Some (Inl e)
     | ReplayFailed (Uncaught x) \<Rightarrow> \<exists>o'. parse_options args = Inr o' \<and> ro_window_ms o' * 1000000 = 0
     | _ \<Rightarrow> False"
    using replay_main_cases [of "\<lambda>_. Some (wr_stream w1)" "(True, True)" "\<lambda>_. True" True 0 args]
    unfolding run_def [symmetric] by (elim exE conjE) (force split: replay_exit.splits replay_failure.splits)
  obtain s where s: "run = Some (Finished o' c s)"
  proof (cases e)
    case (ReplayFailed f)
    then show ?thesis using how options fields(3) by (cases f) simp_all
  qed (use e how options reads that in simp_all)
  have count: "capture_count c = 2" using arg_cong [OF c(2), of length] by (simp add: capture_count_def example_written_def)
  have times: "map (\<lambda>i. pk_timestamp (pc_packets c ! i)) [0..<2] = map pk_timestamp (pc_packets c)"
    using count by (intro nth_equalityI) (auto simp: capture_count_def)
  obtain ps w0 w where "write_packets ps w0 = Some (Inr w)" "rp_writer s = Some w" "rp_exported s = of_nat (length ps)"
      "length ps = 2" "map wp_timestamp ps = map pk_timestamp (pc_packets c)"
    using annotated_capture_exact [OF s [unfolded run_def] fields(1)]
    by (elim exE conjE) (simp add: fields(2) count times comp_def)
  then show ?thesis using s count unfolding run_def args_def
    by (intro exI [of _ "wr_stream w1"] exI [of _ o'] exI [of _ c] exI [of _ s] exI [of _ w] exI [of _ ps]) auto
qed

end
