(* ===== verification/Cuda_Parser.thy ===== *)
theory Cuda_Parser
  imports Packet_Accounting
begin

text \<open>
  The CUDA parser and analyzer, \<^verbatim>\<open>src/cuda_packet_parser.cu\<close>: the kernel with reads of the device buffer as
  \<open>option\<close>, its iterations in any order the device runs them, and the host code around it. The runtime is an argument:
  which of its calls fail, the order of the iterations, what fresh device memory holds, and the times. Whatever the order,
  the kernel stays inside the buffers of a valid batch and the analyzer returns what the one on the CPU returns.
\<close>

section \<open>The kernel\<close>

record device_packet_analysis =
  da_source_mac :: bytes
  da_destination_mac :: bytes
  da_source_ipv4 :: u32
  da_destination_ipv4 :: u32
  da_ingress :: u32
  da_source_port :: u16
  da_destination_port :: u16
  da_ethertype :: u16
  da_frame_length :: u16
  da_protocol :: u8
  da_tcp_flags :: u8
  da_validity :: u8
  da_flow_hash :: u64

text \<open>The enumerators of \<open>PacketValidity\<close> as the byte they are stored in, and the cast back; no other byte occurs.\<close>

primrec validity_byte :: "packet_validity \<Rightarrow> u8" where
  "validity_byte Valid = 0"
| "validity_byte MalformedEthernet = 1"
| "validity_byte MalformedIpv4 = 2"
| "validity_byte MalformedTransport = 3"

definition validity_of_byte :: "u8 \<Rightarrow> packet_validity" where
  "validity_of_byte n = (if n = 0 then Valid else if n = 1 then MalformedEthernet else if n = 2 then MalformedIpv4 else MalformedTransport)"

lemma validity_of_byte [simp]: "validity_of_byte (validity_byte v) = v"
  by (cases v) (simp_all add: validity_of_byte_def)

lemma validity_byte_inject [simp]: "validity_byte v = validity_byte w \<longleftrightarrow> v = w"
  by (metis validity_of_byte)

definition blank_device_analysis :: device_packet_analysis where
  "blank_device_analysis =
     \<lparr> da_source_mac = replicate 6 0, da_destination_mac = replicate 6 0, da_source_ipv4 = 0, da_destination_ipv4 = 0, da_ingress = 0,
       da_source_port = 0, da_destination_port = 0, da_ethertype = 0, da_frame_length = 0, da_protocol = 0, da_tcp_flags = 0,
       da_validity = validity_byte MalformedEthernet, da_flow_hash = 0 \<rparr>"

definition device_read_u16 :: "bytes \<Rightarrow> nat \<Rightarrow> u16 option" where
  "device_read_u16 bs i = do { a \<leftarrow> rd8 bs i; b \<leftarrow> rd8 bs (i + 1); Some (be16 a b) }"

definition device_read_u32 :: "bytes \<Rightarrow> nat \<Rightarrow> u32 option" where
  "device_read_u32 bs i = do { a \<leftarrow> rd8 bs i; b \<leftarrow> rd8 bs (i + 1); c \<leftarrow> rd8 bs (i + 2); d \<leftarrow> rd8 bs (i + 3); Some (be32 a b c d) }"

definition device_hash_byte :: "u64 \<Rightarrow> u8 \<Rightarrow> u64" where
  "device_hash_byte h b = (h XOR ucast b) * 1099511628211"

definition device_hash_u16 :: "u64 \<Rightarrow> u16 \<Rightarrow> u64" where
  "device_hash_u16 h v = device_hash_byte (device_hash_byte h (ucast (drop_bit 8 v))) (ucast v)"

definition device_hash_u32 :: "u64 \<Rightarrow> u32 \<Rightarrow> u64" where
  "device_hash_u32 h v = device_hash_byte (device_hash_byte (device_hash_byte (device_hash_byte h
     (ucast (drop_bit 24 v))) (ucast (drop_bit 16 v))) (ucast (drop_bit 8 v))) (ucast v)"

definition device_hash_flow_key :: "device_packet_analysis \<Rightarrow> u64" where
  "device_hash_flow_key a =
     (let h = 14695981039346656037; h = device_hash_u32 h (da_source_ipv4 a); h = device_hash_u32 h (da_destination_ipv4 a);
          h = device_hash_u16 h (da_source_port a); h = device_hash_u16 h (da_destination_port a)
      in device_hash_byte h (da_protocol a))"

text \<open>The transport header at \<open>base\<close>, of which the datagram has \<open>transport\<close> bytes.\<close>

definition device_transport :: "bytes \<Rightarrow> nat \<Rightarrow> nat \<Rightarrow> device_packet_analysis \<Rightarrow> device_packet_analysis option" where
  "device_transport bs base transport a =
     (let bad = a\<lparr> da_validity := validity_byte MalformedTransport \<rparr> in
      if da_protocol a = 17 then
        if transport < 8 then Some bad
        else do {
          len \<leftarrow> device_read_u16 bs (base + 4);
          if unat len < 8 \<or> unat len > transport then Some bad
          else do {
            sp \<leftarrow> device_read_u16 bs base;
            dp \<leftarrow> device_read_u16 bs (base + 2);
            Some (a\<lparr> da_source_port := sp, da_destination_port := dp \<rparr>) } }
      else if da_protocol a = 6 then
        if transport < 20 then Some bad
        else do {
          off \<leftarrow> rd8 bs (base + 12);
          let header = unat (drop_bit 4 off) * 4;
          if header < 20 \<or> header > transport then Some bad
          else do {
            sp \<leftarrow> device_read_u16 bs base;
            dp \<leftarrow> device_read_u16 bs (base + 2);
            flags \<leftarrow> rd8 bs (base + 13);
            Some (a\<lparr> da_source_port := sp, da_destination_port := dp, da_tcp_flags := flags \<rparr>) } }
      else if da_protocol a = 1 \<and> transport < 4 then Some bad
      else Some a)"

definition device_ipv4 :: "bytes \<Rightarrow> nat \<Rightarrow> device_packet_analysis \<Rightarrow> device_packet_analysis option" where
  "device_ipv4 bs sz a =
     (let payload = sz - ethernet_header_size; ip = ethernet_header_size; bad = a\<lparr> da_validity := validity_byte MalformedIpv4 \<rparr> in
      if payload < 20 then Some bad
      else do {
        first \<leftarrow> rd8 bs ip;
        total \<leftarrow> device_read_u16 bs (ip + 2);
        let header = unat (first AND 0x0F) * 4;
        if drop_bit 4 first \<noteq> 4 \<or> header < 20 \<or> header > payload \<or> unat total < header \<or> unat total > payload then Some bad
        else do {
          source \<leftarrow> device_read_u32 bs (ip + 12);
          destination \<leftarrow> device_read_u32 bs (ip + 16);
          protocol \<leftarrow> rd8 bs (ip + 9);
          fragment \<leftarrow> device_read_u16 bs (ip + 6);
          let a = a\<lparr> da_source_ipv4 := source, da_destination_ipv4 := destination, da_protocol := protocol \<rparr>;
          if fragment AND 0x1FFF \<noteq> 0 then Some (a\<lparr> da_flow_hash := device_hash_flow_key a \<rparr>)
          else do {
            a \<leftarrow> device_transport bs (ip + header) (unat total - header) a;
            Some (if da_validity a = validity_byte Valid then a\<lparr> da_flow_hash := device_hash_flow_key a \<rparr> else a) } } })"

text \<open>The body of the loop of \<open>parse_packets\<close>: what one iteration writes.\<close>

definition device_packet :: "bytes \<Rightarrow> u32 \<Rightarrow> u16 \<Rightarrow> u32 \<Rightarrow> device_packet_analysis option" where
  "device_packet buffer offset len sender =
     (let bs = drop (unat offset) buffer; sz = unat len; a = blank_device_analysis\<lparr> da_ingress := sender, da_frame_length := len \<rparr> in
      if sz < ethernet_header_size then Some a
      else do {
        destination \<leftarrow> those (map (rd8 bs) [0..<6]);
        source \<leftarrow> those (map (rd8 bs) [6..<12]);
        etype \<leftarrow> device_read_u16 bs 12;
        let a = a\<lparr> da_destination_mac := destination, da_source_mac := source, da_ethertype := etype, da_validity := validity_byte Valid \<rparr>;
        if etype \<noteq> ETHERTYPE_IPV4 then Some a else device_ipv4 bs sz a })"

text \<open>The iterations of one thread, which starts at its number. The stride is the number of threads, so it is not 0 in a thread.\<close>

function thread_iterations :: "nat \<Rightarrow> nat \<Rightarrow> nat \<Rightarrow> nat list" where
  "thread_iterations index stride n = (if index < n \<and> 0 < stride then index # thread_iterations (index + stride) stride n else [])"
  by pat_completeness auto
termination by (relation "measure (\<lambda>(index, stride, n). n - index)") auto

declare thread_iterations.simps [simp del]

definition grid_iterations :: "nat \<Rightarrow> nat \<Rightarrow> nat list" where
  "grid_iterations threads n = concat (map (\<lambda>t. thread_iterations t threads n) [0..<threads])"

definition device_iteration :: "packet_batch \<Rightarrow> nat \<Rightarrow> device_packet_analysis list \<Rightarrow> device_packet_analysis list option" where
  "device_iteration b i out =
     (if i < length (packet_offsets b) \<and> i < length (packet_lengths b) \<and> i < length (sender_ids b) \<and> i < length out
      then do { a \<leftarrow> device_packet (packet_bytes b) (packet_offsets b ! i) (packet_lengths b ! i) (sender_ids b ! i); Some (out[i := a]) }
      else None)"

fun device_run :: "packet_batch \<Rightarrow> nat list \<Rightarrow> device_packet_analysis list \<Rightarrow> device_packet_analysis list option" where
  "device_run b [] out = Some out"
| "device_run b (i # order) out = do { out \<leftarrow> device_iteration b i out; device_run b order out }"

section \<open>The host\<close>

definition validate_batch :: "packet_batch \<Rightarrow> string option" where
  "validate_batch b =
     (let n = packet_count b in
      if length (packet_offsets b) \<noteq> n + 1 \<or> length (packet_lengths b) \<noteq> n \<or> length (sender_ids b) \<noteq> n \<or> packet_offsets b = [] \<or>
         hd (packet_offsets b) \<noteq> 0 \<or> unat (last (packet_offsets b)) \<noteq> length (packet_bytes b)
      then Some ''invalid contiguous packet batch''
      else if list_ex (\<lambda>i. packet_offsets b ! i > packet_offsets b ! (i + 1) \<or>
             packet_offsets b ! (i + 1) - packet_offsets b ! i \<noteq> ucast (packet_lengths b ! i)) [0..<n]
      then Some ''invalid contiguous packet batch offsets''
      else None)"

record parse_timing =
  pt_host_to_device :: u64
  pt_kernel :: u64
  pt_device_to_host :: u64

record cuda_parse_result =
  cp_packets :: "packet_analysis list"
  cp_timing :: parse_timing

definition no_timing :: parse_timing where
  "no_timing = \<lparr> pt_host_to_device = 0, pt_kernel = 0, pt_device_to_host = 0 \<rparr>"

text \<open>The runtime: whether a device is there, which of the calls fails with which text, in which order the iterations run, what
  fresh memory holds, and the elapsed times.\<close>

record cuda_runtime =
  cr_devices :: "int option"
  cr_failure :: "nat \<Rightarrow> string option"
  cr_order :: "nat \<Rightarrow> nat \<Rightarrow> nat list"
  cr_memory :: "nat \<Rightarrow> device_packet_analysis list"
  cr_timing :: parse_timing

definition cuda_is_available :: "cuda_runtime \<Rightarrow> bool" where
  "cuda_is_available m = (case cr_devices m of None \<Rightarrow> False | Some n \<Rightarrow> 0 < n)"

text \<open>\<open>check_cuda\<close> of the calls with the numbers from \<open>k\<close> on.\<close>

fun check_cuda :: "cuda_runtime \<Rightarrow> nat \<Rightarrow> string list \<Rightarrow> string option" where
  "check_cuda m k [] = None"
| "check_cuda m k (operation # rest) =
     (case cr_failure m k of Some e \<Rightarrow> Some (operation @ '': '' @ e) | None \<Rightarrow> check_cuda m (k + 1) rest)"

definition calls_before :: "packet_batch \<Rightarrow> string list" where
  "calls_before b =
     (if packet_bytes b = [] then [] else [''cudaMalloc'']) @ replicate 4 ''cudaMalloc'' @ replicate 6 ''cudaEventCreate'' @
     [''cudaEventRecord host-to-device start'', ''cudaMemcpy packet bytes'', ''cudaMemcpy packet offsets'',
      ''cudaMemcpy packet lengths'', ''cudaMemcpy sender ids'', ''cudaEventRecord host-to-device finish'',
      ''cudaEventRecord kernel start'']"

definition calls_after :: "string list" where
  "calls_after =
     [''packet parser kernel launch'', ''cudaEventRecord kernel finish'', ''cudaEventRecord device-to-host start'',
      ''cudaMemcpy packet analyses'', ''cudaEventRecord device-to-host finish'', ''cudaEventSynchronize device-to-host finish'',
      ''cudaEventElapsedTime'', ''cudaEventElapsedTime'', ''cudaEventElapsedTime'']"

definition CUDA_BLOCK_SIZE :: nat where "CUDA_BLOCK_SIZE = 256"

text \<open>The number of threads of the launch; the number of blocks is cast to 32 bits.\<close>

definition launch_threads :: "nat \<Rightarrow> nat" where
  "launch_threads n = unat (of_nat ((n + CUDA_BLOCK_SIZE - 1) div CUDA_BLOCK_SIZE) :: u32) * CUDA_BLOCK_SIZE"

definition host_analysis :: "device_packet_analysis \<Rightarrow> packet_analysis option" where
  "host_analysis r = do {
     source \<leftarrow> mac_at (da_source_mac r) 0;
     destination \<leftarrow> mac_at (da_destination_mac r) 0;
     Some (empty_analysis\<lparr> pa_source_mac := source, pa_destination_mac := destination, pa_source_ipv4 := da_source_ipv4 r,
       pa_destination_ipv4 := da_destination_ipv4 r, pa_ingress := da_ingress r, pa_source_port := da_source_port r,
       pa_destination_port := da_destination_port r, pa_ethertype := da_ethertype r, pa_frame_length := da_frame_length r,
       pa_protocol := da_protocol r, pa_tcp_flags := da_tcp_flags r, pa_validity := validity_of_byte (da_validity r),
       pa_flow_hash := da_flow_hash r \<rparr>) }"

text \<open>\<open>Inl\<close> is what is thrown, \<open>None\<close> an access outside a buffer.\<close>

definition parse_with_timing :: "cuda_runtime \<Rightarrow> packet_batch \<Rightarrow> (string + cuda_parse_result) option" where
  "parse_with_timing m b =
     (case validate_batch b of
        Some e \<Rightarrow> Some (Inl e)
      | None \<Rightarrow>
          let n = packet_count b; before = calls_before b in
          if \<not> cuda_is_available m then Some (Inl ''no compatible CUDA device is available'')
          else if n = 0 then Some (Inr \<lparr> cp_packets = [], cp_timing = no_timing \<rparr>)
          else case check_cuda m 0 before of
            Some e \<Rightarrow> Some (Inl e)
          | None \<Rightarrow> do {
              out \<leftarrow> device_run b (cr_order m (launch_threads n) n) (cr_memory m n);
              case check_cuda m (length before) calls_after of
                Some e \<Rightarrow> Some (Inl e)
              | None \<Rightarrow> do {
                  packets \<leftarrow> those (map host_analysis out);
                  Some (Inr \<lparr> cp_packets = packets, cp_timing = cr_timing m \<rparr>) } })"

record cuda_analyzer =
  ca_learned :: "mac_address set"
  ca_timing :: parse_timing

definition cuda_analyze_batch :: "cuda_runtime \<Rightarrow> packet_batch \<Rightarrow> cuda_analyzer \<Rightarrow> (string + analysis_batch \<times> cuda_analyzer) option" where
  "cuda_analyze_batch m b s = do {
     parsed \<leftarrow> parse_with_timing m b;
     Some (case parsed of
       Inl e \<Rightarrow> Inl e
     | Inr r \<Rightarrow> (let (batch, learned) = agg_aggregate (cp_packets r) None (ca_learned s)
                 in Inr (batch, \<lparr> ca_learned = learned, ca_timing = cp_timing r \<rparr>))) }"

definition cuda_analyze_views ::
    "cuda_runtime \<Rightarrow> packet_view list \<Rightarrow> cuda_analyzer \<Rightarrow> (string + analysis_batch \<times> cuda_analyzer) option" where
  "cuda_analyze_views m vs s =
     (case batch_create (Some vs) (length vs) 0 of
        Inl e \<Rightarrow> Some (Inl (''cannot create CUDA packet batch: '' @ batch_error_text e))
      | Inr b \<Rightarrow> cuda_analyze_batch m b s)"

definition cuda_reset :: "cuda_analyzer \<Rightarrow> cuda_analyzer" where
  "cuda_reset s = \<lparr> ca_learned = {}, ca_timing = no_timing \<rparr>"

declare validity_byte.simps [simp del]

section \<open>The kernel parses as the CPU does\<close>

lemma device_reads [simp]: "device_read_u16 = read_network_u16" "device_read_u32 = read_network_u32"
  by (intro ext; simp add: device_read_u16_def read_network_u16_def device_read_u32_def read_network_u32_def)+

lemma host_updates [simp]:
  "host_analysis (a\<lparr> da_source_ipv4 := x \<rparr>) = map_option (pa_source_ipv4_update (\<lambda>_. x)) (host_analysis a)"
  "host_analysis (a\<lparr> da_destination_ipv4 := x \<rparr>) = map_option (pa_destination_ipv4_update (\<lambda>_. x)) (host_analysis a)"
  "host_analysis (a\<lparr> da_source_port := y \<rparr>) = map_option (pa_source_port_update (\<lambda>_. y)) (host_analysis a)"
  "host_analysis (a\<lparr> da_destination_port := y \<rparr>) = map_option (pa_destination_port_update (\<lambda>_. y)) (host_analysis a)"
  "host_analysis (a\<lparr> da_ethertype := y \<rparr>) = map_option (pa_ethertype_update (\<lambda>_. y)) (host_analysis a)"
  "host_analysis (a\<lparr> da_protocol := z \<rparr>) = map_option (pa_protocol_update (\<lambda>_. z)) (host_analysis a)"
  "host_analysis (a\<lparr> da_tcp_flags := z \<rparr>) = map_option (pa_tcp_flags_update (\<lambda>_. z)) (host_analysis a)"
  "host_analysis (a\<lparr> da_validity := validity_byte v \<rparr>) = map_option (pa_validity_update (\<lambda>_. v)) (host_analysis a)"
  "host_analysis (a\<lparr> da_flow_hash := h \<rparr>) = map_option (pa_flow_hash_update (\<lambda>_. h)) (host_analysis a)"
  by (cases "mac_at (da_source_mac a) 0"; cases "mac_at (da_destination_mac a) 0"; simp add: host_analysis_def)+

lemma host_fields:
  assumes "host_analysis a = Some p"
  shows "pa_protocol p = da_protocol a" "pa_validity p = validity_of_byte (da_validity a)" "pa_ethertype p = da_ethertype a"
    "device_hash_flow_key a = hash_flow_key (make_flow_key p)"
  using assms
  by (auto simp: host_analysis_def bind_eq_Some_conv device_hash_flow_key_def hash_flow_key_def make_flow_key_def hash_u32_def hash_u16_def
      hash_byte_def FNV1A_PRIME_def FNV1A_OFFSET_BASIS_def device_hash_u32_def device_hash_u16_def device_hash_byte_def Let_def)

text \<open>What the kernel has made of \<open>a\<close> when the CPU has made \<open>r\<close> of what the host reads from it.\<close>

definition same_parse :: "device_packet_analysis option \<Rightarrow> (packet_validity \<times> packet_analysis) option \<Rightarrow> bool" where
  "same_parse x r \<longleftrightarrow>
     (case r of
        None \<Rightarrow> x = None
      | Some (v, p) \<Rightarrow> \<exists>a. x = Some a \<and> da_validity a = validity_byte v \<and> host_analysis a = Some (p\<lparr> pa_validity := v \<rparr>))"

lemma same_parse_bind: "(\<And>y. same_parse (f y) (g y)) \<Longrightarrow> same_parse (Option.bind m f) (Option.bind m g)"
  by (cases m) (simp_all add: same_parse_def)

lemma same_parse_None [simp]: "same_parse None None"
  by (simp add: same_parse_def)

lemma same_parse_Some [simp]:
  "same_parse (Some a) (Some (v, p)) \<longleftrightarrow> da_validity a = validity_byte v \<and> host_analysis a = Some (p\<lparr> pa_validity := v \<rparr>)"
  by (simp add: same_parse_def)

lemma same_transport:
  assumes "host_analysis a = Some (p\<lparr> pa_validity := Valid \<rparr>)" and "da_validity a = validity_byte Valid"
  shows "same_parse (device_transport bs base n a) (parse_transport bs base n p)"
proof -
  have p: "pa_protocol p = da_protocol a" using host_fields(1) [OF assms(1)] by simp
  show ?thesis
    unfolding device_transport_def parse_transport_def Let_def p UDP_PROTOCOL_def TCP_PROTOCOL_def ICMP_PROTOCOL_def device_reads
    using assms by (auto intro!: same_parse_bind)
qed

text \<open>What the host reads of a result.\<close>

definition hosted :: "device_packet_analysis option \<Rightarrow> packet_analysis option" where
  "hosted x = Option.bind x host_analysis"

lemma hosted_Some: "hosted (Some a) = host_analysis a"
  by (simp add: hosted_def)

lemma hosted_bind: "(\<And>y. hosted (f y) = map_option conclude_analysis (g y)) \<Longrightarrow>
    hosted (Option.bind m f) = map_option conclude_analysis (Option.bind m g)"
  by (cases m) (simp_all add: hosted_def)

lemma flow_key_update [simp]: "make_flow_key (p\<lparr> pa_validity := v \<rparr>) = make_flow_key p"
  by (simp add: make_flow_key_def)

lemma same_conclude:
  assumes "same_parse x r" and "\<And>v p. r = Some (v, p) \<Longrightarrow> pa_ethertype p = ETHERTYPE_IPV4"
  shows "hosted (do { a \<leftarrow> x; Some (if da_validity a = validity_byte Valid then a\<lparr> da_flow_hash := device_hash_flow_key a \<rparr> else a) }) =
    map_option conclude_analysis r"
proof (cases r)
  case None
  then show ?thesis using assms(1) by (simp add: same_parse_def hosted_def)
next
  case (Some q)
  obtain v p where q: "q = (v, p)" by (cases q)
  then obtain a where a: "x = Some a" "da_validity a = validity_byte v" "host_analysis a = Some (p\<lparr> pa_validity := v \<rparr>)"
    using assms(1) Some by (auto simp: same_parse_def)
  have e: "pa_ethertype p = ETHERTYPE_IPV4" using assms(2) Some q by blast
  have "device_hash_flow_key a = hash_flow_key (make_flow_key p)" using host_fields(4) [OF a(3)] by simp
  then show ?thesis using a Some q e by (auto simp: hosted_def conclude_analysis_def Let_def)
qed

lemma same_ipv4:
  assumes "host_analysis a = Some (p\<lparr> pa_validity := Valid \<rparr>)" and "da_validity a = validity_byte Valid"
    and "pa_ethertype p = ETHERTYPE_IPV4"
  shows "hosted (device_ipv4 bs sz a) = map_option conclude_analysis (parse_ipv4 bs sz p)"
proof -
  have bad: "hosted (Some (a\<lparr> da_validity := validity_byte MalformedIpv4 \<rparr>)) = Some (conclude_analysis (MalformedIpv4, p))"
    using assms(1) by (simp add: hosted_def conclude_analysis_def)
  have inner: "hosted (let b = a\<lparr> da_source_ipv4 := x, da_destination_ipv4 := y, da_protocol := z \<rparr> in
        if f AND 0x1FFF \<noteq> 0 then Some (b\<lparr> da_flow_hash := device_hash_flow_key b \<rparr>)
        else do { c \<leftarrow> device_transport bs base n b;
             Some (if da_validity c = validity_byte Valid then c\<lparr> da_flow_hash := device_hash_flow_key c \<rparr> else c) }) =
      map_option conclude_analysis (let q = p\<lparr> pa_source_ipv4 := x, pa_destination_ipv4 := y, pa_protocol := z \<rparr> in
        if f AND 0x1FFF \<noteq> 0 then Some (Valid, q) else parse_transport bs base n q)" for x y z base n and f :: u16
  proof -
    define b where "b = a\<lparr> da_source_ipv4 := x, da_destination_ipv4 := y, da_protocol := z \<rparr>"
    define q where "q = p\<lparr> pa_source_ipv4 := x, pa_destination_ipv4 := y, pa_protocol := z \<rparr>"
    have b: "host_analysis b = Some (q\<lparr> pa_validity := Valid \<rparr>)" "da_validity b = validity_byte Valid" "pa_ethertype q = ETHERTYPE_IPV4"
      using assms by (simp_all add: b_def q_def)
    have "hosted (Some (b\<lparr> da_flow_hash := device_hash_flow_key b \<rparr>)) = Some (conclude_analysis (Valid, q))"
      using b host_fields(4) [OF b(1)] by (simp add: hosted_def conclude_analysis_def)
    moreover have "hosted (do { c \<leftarrow> device_transport bs base n b;
        Some (if da_validity c = validity_byte Valid then c\<lparr> da_flow_hash := device_hash_flow_key c \<rparr> else c) }) =
        map_option conclude_analysis (parse_transport bs base n q)"
      by (rule same_conclude [OF same_transport [OF b(1,2)]]) (use b(3) parse_transport_keeps in fastforce)
    ultimately show ?thesis by (simp add: Let_def flip: b_def q_def)
  qed
  have branch: "hosted (if c then Some (a\<lparr> da_validity := validity_byte MalformedIpv4 \<rparr>) else x) =
      map_option conclude_analysis (if c then Some (MalformedIpv4, p) else y)"
    if "hosted x = map_option conclude_analysis y" for c x y
    using bad that by simp
  show ?thesis
    unfolding device_ipv4_def parse_ipv4_def device_reads Let_def
    by (intro branch hosted_bind inner [unfolded Let_def])
qed

lemma six_bytes:
  "those (map (rd8 bs) [0..<6]) = (if 6 \<le> length bs then Some (take 6 bs) else None)"
  "those (map (rd8 bs) [6..<12]) = (if 12 \<le> length bs then Some (take 6 (drop 6 bs)) else None)"
proof -
  have those: "those (map (rd8 bs) [i..<j]) = (if j \<le> length bs then Some (take (j - i) (drop i bs)) else None)" if "i < j" for i j
  proof (cases "j \<le> length bs")
    case True
    then have "map (rd8 bs) [i..<j] = map Some (take (j - i) (drop i bs))" using that by (intro nth_equalityI) auto
    moreover have "those (map Some xs) = Some xs" for xs :: bytes by (induction xs) simp_all
    ultimately show ?thesis using True by simp
  next
    case False
    have none: "those xs = None" if "None \<in> set xs" for xs :: "u8 option list"
      using that by (induction xs) (auto split: option.split)
    have "rd8 bs (j - 1) = None" using False that by (simp add: rd8_def)
    moreover have "j - 1 \<in> set [i..<j]" using that by auto
    ultimately have "None \<in> set (map (rd8 bs) [i..<j])" by (metis (no_types, lifting) image_eqI list.set_map)
    then show ?thesis using False none by simp
  qed
  show "those (map (rd8 bs) [0..<6]) = (if 6 \<le> length bs then Some (take 6 bs) else None)"
    "those (map (rd8 bs) [6..<12]) = (if 12 \<le> length bs then Some (take 6 (drop 6 bs)) else None)"
    using those [of 0 6] those [of 6 12] by simp_all
qed

lemma mac_at_take: "6 \<le> length bs \<Longrightarrow> mac_at (take 6 bs) 0 = mac_at bs 0"
  "12 \<le> length bs \<Longrightarrow> mac_at (take 6 (drop 6 bs)) 0 = mac_at bs 6"
  by (simp_all add: mac_at_def)

lemma length_kept [simp]: "word_of_nat (min (unat len) 65535) = (len :: u16)"
proof -
  have "unat len \<le> 65535" using unsigned_less [of len, where ?'a = nat] by simp
  then show ?thesis by (simp add: min_def)
qed

lemma host_blank: "host_analysis (blank_device_analysis\<lparr> da_ingress := sender, da_frame_length := len \<rparr>) =
    Some (blank_analysis \<lparr> pv_bytes = bytes, pv_size = unat len, pv_ingress = sender \<rparr>)"
  by (simp add: host_analysis_def blank_device_analysis_def blank_analysis_def empty_analysis_def mac_at_def mac_zero_def)

lemma device_packet_host:
  "hosted (device_packet buffer offset len sender) =
    parse_packet \<lparr> pv_bytes = Some (drop (unat offset) buffer), pv_size = unat len, pv_ingress = sender \<rparr>" (is "_ = parse_packet ?v")
proof -
  define bs where "bs = drop (unat offset) buffer"
  show ?thesis
  proof (cases "unat len < ethernet_header_size")
    case True
    then show ?thesis by (simp add: device_packet_def parse_packet_def hosted_Some host_blank)
  next
    case no: False
    show ?thesis
    proof (cases "12 \<le> length bs")
      case True
      obtain dst src where macs: "mac_at bs 0 = Some dst" "mac_at bs 6 = Some src" using True by (simp add: mac_at_def)
      define a where "a e = blank_device_analysis\<lparr> da_ingress := sender, da_frame_length := len, da_destination_mac := take 6 bs,
        da_source_mac := take 6 (drop 6 bs), da_ethertype := e, da_validity := validity_byte Valid \<rparr>" for e
      define q where "q e = (blank_analysis ?v)\<lparr> pa_destination_mac := dst, pa_source_mac := src, pa_ethertype := e \<rparr>" for e
      have a: "host_analysis (a e) = Some (q e\<lparr> pa_validity := Valid \<rparr>)" "da_validity (a e) = validity_byte Valid"
          "pa_ethertype (q e) = e" for e
        using macs mac_at_take [of bs] True
        by (simp_all add: host_analysis_def a_def q_def blank_device_analysis_def blank_analysis_def empty_analysis_def)
      have step: "hosted (if e \<noteq> ETHERTYPE_IPV4 then Some (a e) else device_ipv4 bs (unat len) (a e)) =
          map_option conclude_analysis (if e = ETHERTYPE_IPV4 then parse_ipv4 bs (unat len) (q e) else Some (Valid, q e))" for e
        using a [of e] same_ipv4 [OF a(1,2), of e bs "unat len"] by (auto simp: hosted_Some conclude_analysis_def)
      have left: "device_packet buffer offset len sender = Option.bind (read_network_u16 bs 12)
          (\<lambda>e. if e \<noteq> ETHERTYPE_IPV4 then Some (a e) else device_ipv4 bs (unat len) (a e))"
        using no True unfolding device_packet_def Let_def a_def six_bytes device_reads bs_def [symmetric] by simp
      have bind: "do { r \<leftarrow> x; Some (conclude_analysis r) } = map_option conclude_analysis x" for x by (cases x) simp_all
      have right: "parse_packet ?v = map_option conclude_analysis (Option.bind (read_network_u16 bs 12)
          (\<lambda>e. if e = ETHERTYPE_IPV4 then parse_ipv4 bs (unat len) (q e) else Some (Valid, q e)))"
        using no macs by (simp add: parse_packet_def Let_def bind q_def map_option_bind comp_def cong: if_cong flip: bs_def)
      show ?thesis unfolding left right by (rule hosted_bind [OF step])
    next
      case False
      then have "device_packet buffer offset len sender = None"
        using no unfolding device_packet_def Let_def six_bytes bs_def [symmetric] by (simp split: bind_split)
      moreover have "parse_packet ?v = None"
        using no False by (simp add: parse_packet_def Let_def mac_at_def flip: bs_def split: bind_split)
      ultimately show ?thesis by (simp add: hosted_def)
    qed
  qed
qed

section \<open>Every packet is parsed once, in whatever order\<close>

lemma thread_iterations_set:
  assumes "0 < stride" and "t < stride"
  shows "set (thread_iterations (t + k * stride) stride n) = {j. t + k * stride \<le> j \<and> j < n \<and> j mod stride = t} \<and>
    distinct (thread_iterations (t + k * stride) stride n)"
proof (induction "n - (t + k * stride)" arbitrary: k rule: less_induct)
  case less
  let ?i = "t + k * stride"
  show ?case
  proof (cases "?i < n")
    case True
    have step: "thread_iterations ?i stride n = ?i # thread_iterations (t + (k + 1) * stride) stride n"
      using True assms(1) by (subst thread_iterations.simps) (simp add: algebra_simps)
    have IH: "set (thread_iterations (t + (k + 1) * stride) stride n) = {j. t + (k + 1) * stride \<le> j \<and> j < n \<and> j mod stride = t}"
        "distinct (thread_iterations (t + (k + 1) * stride) stride n)"
      using less [of "k + 1"] True assms(1) by auto
    have next_one: "t + (k + 1) * stride \<le> j" if "?i \<le> j" "j mod stride = t" "j \<noteq> ?i" for j
    proof -
      have "j = t + (j div stride) * stride" using that(2) by (metis add.commute div_mult_mod_eq)
      then have "k \<le> j div stride" "j div stride \<noteq> k"
        using that(1,3) assms by (metis add_le_cancel_left mult_le_cancel2, metis)
      then have "(k + 1) * stride \<le> (j div stride) * stride" by (intro mult_le_mono1) simp
      then show ?thesis using \<open>j = t + (j div stride) * stride\<close> by linarith
    qed
    have "?i mod stride = t" using assms(2) by simp
    then show ?thesis unfolding step using IH True assms(1) next_one by (auto dest: next_one)
  next
    case False
    then show ?thesis by (subst (1 2) thread_iterations.simps) auto
  qed
qed

lemma grid_iterations_all:
  assumes "0 < threads"
  shows "set (grid_iterations threads n) = {0..<n}" "distinct (grid_iterations threads n)"
proof -
  have thread: "set (thread_iterations t threads n) = {j. t \<le> j \<and> j < n \<and> j mod threads = t}" "distinct (thread_iterations t threads n)"
    if "t < threads" for t
    using thread_iterations_set [OF assms that, of 0] by simp_all
  show "set (grid_iterations threads n) = {0..<n}"
  proof
    show "set (grid_iterations threads n) \<subseteq> {0..<n}" using thread by (auto simp: grid_iterations_def)
    show "{0..<n} \<subseteq> set (grid_iterations threads n)"
    proof
      fix j assume "j \<in> {0..<n}"
      then have "j mod threads < threads" "j \<in> set (thread_iterations (j mod threads) threads n)"
        using assms thread [of "j mod threads"] by auto
      then show "j \<in> set (grid_iterations threads n)" by (auto simp: grid_iterations_def)
    qed
  qed
  have "distinct (concat (map (\<lambda>t. thread_iterations t threads n) ts))" if "distinct ts" "set ts \<subseteq> {0..<threads}" for ts
    using that
  proof (induction ts)
    case (Cons t ts)
    have "j mod threads \<notin> set ts" if "j \<in> set (thread_iterations t threads n)" for j
      using that Cons.prems thread(1) [of t] by auto
    moreover have "j mod threads = u" if "u \<in> set ts" "j \<in> set (thread_iterations u threads n)" for u j
      using that Cons.prems thread(1) [of u] by auto
    ultimately have "set (thread_iterations t threads n) \<inter> set (concat (map (\<lambda>t. thread_iterations t threads n) ts)) = {}"
      by (fastforce simp only: set_concat set_map)
    then show ?case using Cons thread(2) [of t] by simp
  qed simp
  then show "distinct (grid_iterations threads n)" by (simp add: grid_iterations_def)
qed

lemma device_run_writes:
  assumes "\<And>i. i \<in> set order \<Longrightarrow> i < packet_count b \<and>
      device_packet (packet_bytes b) (packet_offsets b ! i) (packet_lengths b ! i) (sender_ids b ! i) = Some (f i)"
    and "length out = packet_count b" and "length (packet_offsets b) = packet_count b + 1" and "length (sender_ids b) = packet_count b"
  shows "\<exists>out'. device_run b order out = Some out' \<and> length out' = packet_count b \<and>
    (\<forall>i < packet_count b. out' ! i = (if i \<in> set order then f i else out ! i))"
  using assms(1,2)
proof (induction order arbitrary: out)
  case (Cons i order)
  have "device_iteration b i out = Some (out[i := f i])"
    using Cons.prems(1) [of i] Cons.prems(2) assms(3,4) by (simp add: device_iteration_def packet_count_def)
  moreover have "\<exists>out'. device_run b order (out[i := f i]) = Some out' \<and> length out' = packet_count b \<and>
      (\<forall>j < packet_count b. out' ! j = (if j \<in> set order then f j else out[i := f i] ! j))"
    using Cons.prems by (intro Cons.IH) auto
  ultimately show ?case using Cons.prems(2) by (auto simp: nth_list_update)
qed simp

section \<open>The host accepts exactly the batches that are in order\<close>

lemma validate_batch_iff: "validate_batch b = None \<longleftrightarrow> batch_ok b"
proof -
  let ?n = "packet_count b"
  let ?o = "\<lambda>i. unat (packet_offsets b ! i)" and ?l = "\<lambda>i. unat (packet_lengths b ! i)"
  have diff: "\<not> (x > y \<or> y - x \<noteq> ucast l) \<longleftrightarrow> unat y = unat x + unat l" for x y :: u32 and l :: u16
  proof -
    have l: "unat (ucast l :: u32) = unat l"
      using unsigned_less [of l, where ?'a = nat] by (simp add: unsigned_ucast_eq take_bit_word_eq_self take_bit_nat_eq_self)
    show ?thesis
    proof (cases "x \<le> y")
      case True
      then have "unat (y - x) = unat y - unat x" by (simp add: unat_sub)
      moreover have "unat x \<le> unat y" using True by (simp add: word_le_nat_alt)
      ultimately show ?thesis using True l by (auto simp: word_unat_eq_iff not_less)
    next
      case False
      then show ?thesis by (auto simp: word_less_nat_alt word_le_nat_alt)
    qed
  qed
  have sums: "(\<forall>i \<le> m. ?o i = sum_list (map unat (take i (packet_lengths b)))) \<longleftrightarrow> ?o 0 = 0 \<and> (\<forall>i < m. ?o (i + 1) = ?o i + ?l i)"
    if "m \<le> length (packet_lengths b)" for m
    using that by (induction m) (auto simp: take_Suc_conv_app_nth le_Suc_eq less_Suc_eq)
  show ?thesis
  proof (cases "length (packet_offsets b) = ?n + 1")
    case True
    then have "packet_offsets b \<noteq> []" by auto
    moreover from this have "hd (packet_offsets b) = packet_offsets b ! 0" "last (packet_offsets b) = packet_offsets b ! ?n"
      using True by (simp_all add: hd_conv_nth last_conv_nth)
    moreover have "?o ?n < 2 ^ 32" using unsigned_less [of "packet_offsets b ! ?n", where ?'a = nat] by simp
    moreover have "packet_offsets b ! 0 = 0 \<longleftrightarrow> ?o 0 = 0" by (simp add: unat_eq_0)
    moreover have "list_ex (\<lambda>i. packet_offsets b ! i > packet_offsets b ! (i + 1) \<or>
        packet_offsets b ! (i + 1) - packet_offsets b ! i \<noteq> ucast (packet_lengths b ! i)) [0..<?n] \<longleftrightarrow>
        \<not> (\<forall>i < ?n. ?o (i + 1) = ?o i + ?l i)"
      unfolding diff [symmetric] list_ex_iff by auto
    moreover have "(\<forall>i \<le> ?n. ?o i = sum_list (map unat (take i (packet_lengths b)))) \<longleftrightarrow> ?o 0 = 0 \<and> (\<forall>i < ?n. ?o (i + 1) = ?o i + ?l i)"
      by (rule sums) (simp add: packet_count_def)
    ultimately show ?thesis using True unfolding validate_batch_def batch_ok_def Let_def
      by (simp add: packet_count_def, linarith)
  qed (simp add: validate_batch_def batch_ok_def)
qed

section \<open>The two analyzers agree\<close>

definition runtime_works :: "cuda_runtime \<Rightarrow> bool" where
  "runtime_works m \<longleftrightarrow> cuda_is_available m \<and> (\<forall>k. cr_failure m k = None) \<and> (\<forall>n. length (cr_memory m n) = n) \<and>
     (\<forall>threads n. mset (cr_order m threads n) = mset (grid_iterations threads n))"

lemma launch_threads_some: "0 < n \<Longrightarrow> n \<le> 2 ^ 39 \<Longrightarrow> 0 < launch_threads n"
proof -
  assume n: "0 < n" "n \<le> 2 ^ 39"
  let ?k = "(n + 255) div 256"
  have "0 < ?k" "?k < 2 ^ 32" using n by auto
  then have "unat (of_nat ?k :: u32) = ?k" by (simp add: unsigned_of_nat take_bit_nat_eq_self)
  then show ?thesis using \<open>0 < ?k\<close> by (simp add: launch_threads_def CUDA_BLOCK_SIZE_def add.commute)
qed

lemma check_cuda_works: "\<forall>k. cr_failure m k = None \<Longrightarrow> check_cuda m k calls = None"
  by (induction calls arbitrary: k) simp_all

text \<open>One packet of a batch in order, parsed on the device and read on the host.\<close>

lemma device_packet_view:
  assumes "batch_ok b" and "i < packet_count b"
  shows "\<exists>a v p. device_packet (packet_bytes b) (packet_offsets b ! i) (packet_lengths b ! i) (sender_ids b ! i) = Some a \<and>
    host_analysis a = Some p \<and> batch_view b i = Some v \<and> parse_packet v = Some p"
proof -
  obtain v where v: "batch_view b i = Some v" "view_ok v" using batch_view_Some [OF assms] by blast
  let ?w = "\<lparr> pv_bytes = Some (drop (unat (packet_offsets b ! i)) (packet_bytes b)), pv_size = unat (packet_lengths b ! i),
    pv_ingress = sender_ids b ! i \<rparr>"
  have "parse_packet ?w = parse_packet v"
    using v(1) by (auto simp: batch_view_def parse_packet_def ethernet_header_size_def blank_analysis_def split: if_splits)
  moreover obtain p where "parse_packet v = Some p" using parse_packet_total [OF v(2)] by blast
  ultimately have "hosted (device_packet (packet_bytes b) (packet_offsets b ! i) (packet_lengths b ! i) (sender_ids b ! i)) = Some p"
    by (simp add: device_packet_host)
  then show ?thesis using v(1) \<open>parse_packet v = Some p\<close> by (auto simp: hosted_def bind_eq_Some_conv)
qed

lemma those_Some: "those (map (\<lambda>x. Some (f x)) xs) = Some (map f xs)"
  by (induction xs) simp_all

lemma parse_with_timing_ok:
  assumes "runtime_works m" and "batch_ok b" and "packet_count b \<le> 2 ^ 39"
  shows "\<exists>views packets t. packet_views b = Some views \<and> those (map parse_packet views) = Some packets \<and>
    parse_with_timing m b = Some (Inr \<lparr> cp_packets = packets, cp_timing = t \<rparr>)"
proof -
  let ?n = "packet_count b"
  obtain a v p where one: "device_packet (packet_bytes b) (packet_offsets b ! i) (packet_lengths b ! i) (sender_ids b ! i) = Some (a i)"
      "host_analysis (a i) = Some (p i)" "batch_view b i = Some (v i)" "parse_packet (v i) = Some (p i)" if "i < ?n" for i
    using device_packet_view [OF assms(2)] by metis
  have "map (batch_view b) [0..<?n] = map (\<lambda>i. Some (v i)) [0..<?n]" using one(3) by simp
  then have views: "packet_views b = Some (map v [0..<?n])" by (simp only: packet_views_def those_Some)
  have "map parse_packet (map v [0..<?n]) = map (\<lambda>i. Some (p i)) [0..<?n]" using one(4) by simp
  then have packets: "those (map parse_packet (map v [0..<?n])) = Some (map p [0..<?n])" by (simp only: those_Some)
  have valid: "validate_batch b = None" using assms(2) by (simp add: validate_batch_iff)
  have works: "cuda_is_available m" "check_cuda m k calls = None" for k calls
    using assms(1) check_cuda_works by (auto simp: runtime_works_def)
  show ?thesis
  proof (cases "?n = 0")
    case True
    then show ?thesis using views packets valid works by (simp add: parse_with_timing_def)
  next
    case False
    let ?order = "cr_order m (launch_threads ?n) ?n"
    have "mset ?order = mset (grid_iterations (launch_threads ?n) ?n)" using assms(1) by (simp add: runtime_works_def)
    then have order: "set ?order = {0..<?n}"
      using grid_iterations_all(1) launch_threads_some False assms(3) by (metis mset_eq_setD neq0_conv)
    have "length (cr_memory m ?n) = ?n" "length (packet_offsets b) = ?n + 1" "length (sender_ids b) = ?n"
      using assms(1,2) by (simp_all add: runtime_works_def batch_ok_def)
    then obtain out where out: "device_run b ?order (cr_memory m ?n) = Some out" "length out = ?n" "\<forall>i < ?n. out ! i = a i"
      using device_run_writes [of ?order b a "cr_memory m ?n"] order one(1) by auto
    have "map host_analysis out = map (\<lambda>i. Some (p i)) [0..<?n]" using out(2,3) one(2) by (intro nth_equalityI) auto
    then have "those (map host_analysis out) = Some (map p [0..<?n])" by (simp only: those_Some)
    then show ?thesis using views packets valid works False out(1) by (auto simp: parse_with_timing_def Let_def)
  qed
qed

lemma length_batch_packets [simp]: "length (batch_packets b) = packet_count b"
  by (simp add: batch_packets_def)

lemma cuda_batch:
  assumes "runtime_works m" and "batch_ok b" and "packet_count b \<le> 2 ^ 39"
  shows "\<exists>batch t. cuda_analyze_batch m b s = Some (Inr (batch, t)) \<and> analyze_batch b (ca_learned s) = Some (batch, ca_learned t)"
  using parse_with_timing_ok [OF assms]
  by (auto simp: cuda_analyze_batch_def analyze_batch_def split_beta Let_def)

text \<open>C27. The GPU and the CPU agree. For every contiguous batch, also one that was not made by \<open>create\<close>, the CUDA analyzer either
  refuses it, exactly when its offsets and lengths are not in order, or reads nothing outside the buffers and returns the same rows,
  counters and classifications as the analyzer on the CPU, with the same addresses learned, in whatever order the device runs the
  iterations of its threads. From packet views it does the same, or refuses them with the error of the batch.\<close>

theorem cuda_agrees_with_cpu:
  assumes "runtime_works m" and "packet_count b \<le> 2 ^ 39" and "\<forall>v \<in> set vs. view_ok v" and "length vs \<le> 2 ^ 39"
  shows "(if batch_ok b
      then \<exists>batch t. cuda_analyze_batch m b s = Some (Inr (batch, t)) \<and> analyze_batch b (ca_learned s) = Some (batch, ca_learned t)
      else \<exists>e. cuda_analyze_batch m b s = Some (Inl e)) \<and>
    (case batch_create (Some vs) (length vs) 0 of
       Inl e \<Rightarrow> cuda_analyze_views m vs s = Some (Inl (''cannot create CUDA packet batch: '' @ batch_error_text e))
     | Inr _ \<Rightarrow> \<exists>batch t. cuda_analyze_views m vs s = Some (Inr (batch, t)) \<and>
         analyze_views vs (ca_learned s) = Some (batch, ca_learned t))"
proof (intro conjI)
  show "if batch_ok b
      then \<exists>batch t. cuda_analyze_batch m b s = Some (Inr (batch, t)) \<and> analyze_batch b (ca_learned s) = Some (batch, ca_learned t)
      else \<exists>e. cuda_analyze_batch m b s = Some (Inl e)"
  proof (cases "batch_ok b")
    case True
    then show ?thesis using cuda_batch [OF assms(1) True assms(2)] by simp
  next
    case False
    then obtain e where "validate_batch b = Some e" using validate_batch_iff [of b] by blast
    then show ?thesis using False by (simp add: cuda_analyze_batch_def parse_with_timing_def)
  qed
  show "case batch_create (Some vs) (length vs) 0 of
       Inl e \<Rightarrow> cuda_analyze_views m vs s = Some (Inl (''cannot create CUDA packet batch: '' @ batch_error_text e))
     | Inr _ \<Rightarrow> \<exists>batch t. cuda_analyze_views m vs s = Some (Inr (batch, t)) \<and>
         analyze_views vs (ca_learned s) = Some (batch, ca_learned t)"
  proof (cases "batch_create (Some vs) (length vs) 0")
    case (Inr b)
    have made: "batch_ok b" "batch_packets b = map view_packet vs" using batch_create_ok [OF Inr assms(3)] by simp_all
    have "packet_count b = length vs" using arg_cong [OF made(2), of length] by simp
    then have "packet_count b \<le> 2 ^ 39" using assms(4) by simp
    then obtain batch t where "cuda_analyze_batch m b s = Some (Inr (batch, t))" "analyze_batch b (ca_learned s) = Some (batch, ca_learned t)"
      using cuda_batch [OF assms(1) made(1)] by blast
    moreover from this obtain r where "analyze_batch b (ca_learned s) = Some r" "analyze_views vs (ca_learned s) = Some r"
      using batch_agrees [OF assms(3) Inr] by blast
    ultimately show ?thesis using Inr by (simp add: cuda_analyze_views_def)
  qed (simp add: cuda_analyze_views_def)
qed

text \<open>A runtime for the witness.\<close>

definition example_runtime :: cuda_runtime where
  "example_runtime = \<lparr> cr_devices = Some 1, cr_failure = (\<lambda>_. None), cr_order = grid_iterations,
     cr_memory = (\<lambda>n. replicate n blank_device_analysis), cr_timing = no_timing \<rparr>"

theorem cuda_agrees_with_cpu_witness:
  "\<exists>b. batch_create (Some example_views) 2 0 = Inr b \<and>
    (\<exists>batch t. cuda_analyze_views example_runtime example_views (cuda_reset undefined) = Some (Inr (batch, t)) \<and>
      analyze_views example_views {} = Some (batch, ca_learned t)) \<and>
    (\<exists>batch t. cuda_analyze_batch example_runtime b (cuda_reset undefined) = Some (Inr (batch, t)))"
proof -
  have works: "runtime_works example_runtime"
    by (simp add: runtime_works_def example_runtime_def cuda_is_available_def)
  obtain b where b: "batch_create (Some example_views) 2 0 = Inr b"
    by (simp add: batch_create_def example_views_def create_loop_Cons batch_append_def view_content_def)
  have made: "batch_ok b" "batch_packets b = map view_packet example_views"
    using batch_create_ok [OF _ example_views_ok, of 0 b] b by (simp_all add: example_views_length)
  have count: "packet_count b = 2" using arg_cong [OF made(2), of length] by (simp add: example_views_length)
  have small: "packet_count b \<le> 2 ^ 39" "length example_views \<le> 2 ^ 39" by (simp_all add: count example_views_length)
  have reset: "ca_learned (cuda_reset undefined) = {}" by (simp add: cuda_reset_def)
  have b': "batch_create (Some example_views) (length example_views) 0 = Inr b" using b by (simp add: example_views_length)
  show ?thesis
    using cuda_agrees_with_cpu [OF works small(1) example_views_ok small(2), of "cuda_reset undefined"]
    unfolding b' sum.case if_P [OF made(1)] reset using b by blast
qed

end
