(* ===== verification/Mac_Table.thy ===== *)
theory Mac_Table
  imports Ethernet
begin

text \<open>
  The learning table and the forwarding counters of the switch:
  \<^verbatim>\<open>src/mac_table.cpp\<close>, \<^verbatim>\<open>src/switch_metrics.cpp\<close> and class \<open>Endpoint\<close> of
  \<^verbatim>\<open>src/udp_socket.cpp\<close>. A table is an unordered map from addresses to endpoints.
  Every public operation of the C++ class runs under the table's mutex and the counters are
  atomics, so an execution is a sequence of the operations below.

  The locale \<open>learning_table\<close> is the interface the switch relies on; \<open>mac_tbl\<close> interprets it on
  the model.
\<close>

section \<open>Endpoints\<close>

record endpoint =
  ep_address :: string
  ep_port :: u16

definition endpoint_to_string :: "endpoint \<Rightarrow> string" where
  "endpoint_to_string e = ep_address e @ '':'' @ dec_of_nat (unat (ep_port e))"

definition endpoint_is_valid :: "endpoint \<Rightarrow> bool" where
  "endpoint_is_valid e \<longleftrightarrow> ep_address e \<noteq> [] \<and> ep_port e \<noteq> 0"

section \<open>The MAC table\<close>

type_synonym mac_table = "(mac_address \<times> endpoint) list"

definition mt_empty :: mac_table where
  "mt_empty = []"

text \<open>\<open>MacTable::insert\<close>: \<open>true\<close> when the address was not known.\<close>

definition mt_insert :: "mac_address \<Rightarrow> endpoint \<Rightarrow> mac_table \<Rightarrow> bool \<times> mac_table" where
  "mt_insert mac ep table = (map_of table mac = None, umap_assign mac ep table)"

definition mt_lookup :: "mac_table \<Rightarrow> mac_address \<Rightarrow> endpoint option" where
  "mt_lookup table mac = map_of table mac"

definition mt_remove :: "mac_address \<Rightarrow> mac_table \<Rightarrow> bool \<times> mac_table" where
  "mt_remove mac table =
     (case map_of table mac of None \<Rightarrow> (False, table) | Some _ \<Rightarrow> (True, umap_erase mac table))"

definition mt_contains :: "mac_table \<Rightarrow> mac_address \<Rightarrow> bool" where
  "mt_contains table mac \<longleftrightarrow> map_of table mac \<noteq> None"

definition mt_all_endpoints :: "mac_table \<Rightarrow> endpoint list" where
  "mt_all_endpoints table = map snd table"

definition mt_all_endpoints_except :: "mac_address \<Rightarrow> mac_table \<Rightarrow> endpoint list" where
  "mt_all_endpoints_except mac table = map snd (filter (\<lambda>p. fst p \<noteq> mac) table)"

abbreviation mt_ok :: "mac_table \<Rightarrow> bool" where
  "mt_ok table \<equiv> umap_ok table"

locale learning_table =
  fixes empty_table :: 't
    and learn :: "'k \<Rightarrow> 'e \<Rightarrow> 't \<Rightarrow> bool \<times> 't"
    and find_entry :: "'t \<Rightarrow> 'k \<Rightarrow> 'e option"
    and drop_entry :: "'k \<Rightarrow> 't \<Rightarrow> bool \<times> 't"
    and known :: "'t \<Rightarrow> 'k \<Rightarrow> bool"
    and invar :: "'t \<Rightarrow> bool"
  assumes invar_empty: "invar empty_table"
    and find_empty: "find_entry empty_table k = None"
    and invar_learn: "invar t \<Longrightarrow> invar (snd (learn k e t))"
    and find_learn: "invar t \<Longrightarrow> find_entry (snd (learn k e t)) = (find_entry t)(k \<mapsto> e)"
    and learn_new: "invar t \<Longrightarrow> fst (learn k e t) \<longleftrightarrow> find_entry t k = None"
    and invar_drop: "invar t \<Longrightarrow> invar (snd (drop_entry k t))"
    and find_drop: "invar t \<Longrightarrow> find_entry (snd (drop_entry k t)) = (find_entry t)(k := None)"
    and drop_known: "invar t \<Longrightarrow> fst (drop_entry k t) \<longleftrightarrow> find_entry t k \<noteq> None"
    and known_iff: "invar t \<Longrightarrow> known t k \<longleftrightarrow> find_entry t k \<noteq> None"
begin

lemma invar_learn_all: "invar t \<Longrightarrow> invar (fold (\<lambda>(k, e) t. snd (learn k e t)) kes t)"
  by (induction kes arbitrary: t) (auto simp: invar_learn)

lemma find_learn_all:
  "invar t \<Longrightarrow>
    find_entry (fold (\<lambda>(k, e) t. snd (learn k e t)) kes t) = find_entry t ++ map_of (rev kes)"
proof (induction kes arbitrary: t)
  case (Cons p kes)
  obtain k e where p: "p = (k, e)" by (cases p)
  show ?case
    using Cons by (auto simp: p invar_learn find_learn map_add_def fun_eq_iff split: option.splits)
qed simp

lemma learn_twice_known: "invar t \<Longrightarrow> \<not> fst (learn k e' (snd (learn k e t)))"
  by (simp add: learn_new invar_learn find_learn)

lemma learn_drop_absent:
  assumes "invar t"
  shows "find_entry (snd (drop_entry k (snd (learn k e t)))) k = None"
  using assms by (simp add: find_drop invar_learn)

end

interpretation mac_tbl: learning_table mt_empty mt_insert mt_lookup mt_remove mt_contains mt_ok
  by unfold_locales
    (auto simp: mt_empty_def mt_insert_def mt_lookup_def mt_remove_def mt_contains_def
      split: option.splits)

lemma mt_insert_lookup_same [simp]: "mt_lookup (snd (mt_insert m e t)) m = Some e"
  by (simp add: mt_insert_def mt_lookup_def)

lemma mt_insert_lookup_other [simp]: "m' \<noteq> m \<Longrightarrow> mt_lookup (snd (mt_insert m e t)) m' = mt_lookup t m'"
  by (simp add: mt_insert_def mt_lookup_def)

lemma length_mt_insert:
  "length (snd (mt_insert m e t)) = length t + (if fst (mt_insert m e t) then 1 else 0)"
  by (simp add: mt_insert_def length_umap_assign map_of_eq_None_iff)

lemma set_mt_all_endpoints_except:
  assumes "mt_ok t"
  shows "set (mt_all_endpoints_except m t) = {e. \<exists>m'. m' \<noteq> m \<and> mt_lookup t m' = Some e}"
proof -
  have "e \<in> set (mt_all_endpoints_except m t) \<longleftrightarrow> (\<exists>m'. m' \<noteq> m \<and> (m', e) \<in> set t)" for e
    by (force simp: mt_all_endpoints_except_def)
  then show ?thesis
    unfolding mt_lookup_def umap_ok_mem_iff [OF assms] by blast
qed

text \<open>After any history of learned pairs, a lookup answers with the endpoint the address was last
  learned on, and with nothing when it was never learned; removing the address forgets it.\<close>

theorem lookup_last_learned:
  "mt_lookup (fold (\<lambda>(m, e) t. snd (mt_insert m e t)) history mt_empty) mac = map_of (rev history) mac \<and>
   mt_lookup (snd (mt_remove mac (fold (\<lambda>(m, e) t. snd (mt_insert m e t)) history mt_empty))) mac = None"
proof -
  let ?t = "fold (\<lambda>(m, e) t. snd (mt_insert m e t)) history mt_empty"
  have "mt_lookup ?t = mt_lookup mt_empty ++ map_of (rev history)"
    by (rule mac_tbl.find_learn_all [OF mac_tbl.invar_empty])
  moreover have "mt_lookup mt_empty = Map.empty" by (rule ext) (rule mac_tbl.find_empty)
  ultimately have "mt_lookup ?t mac = map_of (rev history) mac" by simp
  moreover have "mt_lookup (snd (mt_remove mac ?t)) = (mt_lookup ?t)(mac := None)"
    by (rule mac_tbl.find_drop [OF mac_tbl.invar_learn_all [OF mac_tbl.invar_empty]])
  then have "mt_lookup (snd (mt_remove mac ?t)) mac = None" by (simp only: fun_upd_same)
  ultimately show ?thesis by blast
qed

section \<open>Switch metrics\<close>

record switch_metrics =
  received_packets :: u64
  received_bytes :: u64
  forwarded_packets :: u64
  forwarded_bytes :: u64
  broadcast_packets :: u64
  unknown_unicast_packets :: u64
  dropped_packets :: u64
  malformed_packets :: u64
  learned_macs :: u64

definition metrics_zero :: switch_metrics where
  "metrics_zero = \<lparr> received_packets = 0, received_bytes = 0, forwarded_packets = 0,
     forwarded_bytes = 0, broadcast_packets = 0, unknown_unicast_packets = 0,
     dropped_packets = 0, malformed_packets = 0, learned_macs = 0 \<rparr>"

definition record_received :: "u64 \<Rightarrow> switch_metrics \<Rightarrow> switch_metrics" where
  "record_received n m = m\<lparr> received_packets := received_packets m + 1,
     received_bytes := received_bytes m + n \<rparr>"

definition record_forwarded :: "u64 \<Rightarrow> switch_metrics \<Rightarrow> switch_metrics" where
  "record_forwarded n m = m\<lparr> forwarded_packets := forwarded_packets m + 1,
     forwarded_bytes := forwarded_bytes m + n \<rparr>"

definition record_broadcast :: "switch_metrics \<Rightarrow> switch_metrics" where
  "record_broadcast m = m\<lparr> broadcast_packets := broadcast_packets m + 1 \<rparr>"

definition record_unknown_unicast :: "switch_metrics \<Rightarrow> switch_metrics" where
  "record_unknown_unicast m = m\<lparr> unknown_unicast_packets := unknown_unicast_packets m + 1 \<rparr>"

definition record_drop :: "switch_metrics \<Rightarrow> switch_metrics" where
  "record_drop m = m\<lparr> dropped_packets := dropped_packets m + 1 \<rparr>"

definition record_malformed :: "switch_metrics \<Rightarrow> switch_metrics" where
  "record_malformed m = m\<lparr> malformed_packets := malformed_packets m + 1 \<rparr>"

definition record_mac_learned :: "switch_metrics \<Rightarrow> switch_metrics" where
  "record_mac_learned m = m\<lparr> learned_macs := learned_macs m + 1 \<rparr>"

lemmas record_defs = record_received_def record_forwarded_def record_broadcast_def
  record_unknown_unicast_def record_drop_def record_malformed_def record_mac_learned_def

end
