(* ===== verification/Traffic_Generator.thy ===== *)
theory Traffic_Generator
  imports Packet_Analyzer
begin

text \<open>
  The deterministic traffic generator, \<^verbatim>\<open>include/wirelab/traffic_generator.hpp\<close> and
  \<^verbatim>\<open>src/traffic_generator.cpp\<close>: a frame is a function of the configuration and its sequence
  number. \<open>generated_frame_parses\<close> shows what the analyzer makes of a generated frame, and
  \<open>generated_checksum_valid\<close> that its IPv4 header carries a valid checksum.
\<close>

section \<open>Configuration\<close>

datatype traffic_scenario = KnownUnicastTraffic | BroadcastTraffic | UnknownUnicastTraffic | Mixed | UdpFlood
  | PortScan | BroadcastStorm

record traffic_config =
  tg_scenario :: traffic_scenario
  tg_seed :: u64
  tg_frame_size :: nat
  tg_host_count :: u32

definition SPLITMIX_GAMMA :: u64 where "SPLITMIX_GAMMA = 0x9E3779B97F4A7C15"
definition IPV4_HEADER_SIZE :: nat where "IPV4_HEADER_SIZE = 20"
definition UDP_HEADER_SIZE :: nat where "UDP_HEADER_SIZE = 8"
definition NO_TRANSPORT_PROTOCOL :: u8 where "NO_TRANSPORT_PROTOCOL = 0"
definition IPV4_TIME_TO_LIVE :: u8 where "IPV4_TIME_TO_LIVE = 64"
definition FLOOD_SOURCE_HOST :: u32 where "FLOOD_SOURCE_HOST = 0"
definition FLOOD_DESTINATION_HOST :: u32 where "FLOOD_DESTINATION_HOST = 1"
definition UDP_FLOOD_DESTINATION_PORT :: u16 where "UDP_FLOOD_DESTINATION_PORT = 9000"
definition EPHEMERAL_PORT_BASE :: u16 where "EPHEMERAL_PORT_BASE = 0xC000"
definition EPHEMERAL_PORT_MASK :: u16 where "EPHEMERAL_PORT_MASK = 0x3FFF"
definition PORT_SCAN_SOURCE_PORT :: u16 where "PORT_SCAN_SOURCE_PORT = 44444"
definition PORT_SCAN_FIRST_PORT :: u16 where "PORT_SCAN_FIRST_PORT = 1"
definition PORT_SCAN_PORT_SPAN :: u64 where "PORT_SCAN_PORT_SPAN = 1024"
definition BROADCAST_STORM_PORT :: u16 where "BROADCAST_STORM_PORT = 137"
definition BROADCAST_STORM_SOURCE_LIMIT :: u32 where "BROADCAST_STORM_SOURCE_LIMIT = 3"
definition BROADCAST_STORM_DESTINATION_HOST :: u32 where "BROADCAST_STORM_DESTINATION_HOST = 0xffff"

section \<open>Random bytes and addresses\<close>

text \<open>The draw and the new state.\<close>

definition splitmix64 :: "u64 \<Rightarrow> u64 \<times> u64" where
  "splitmix64 state =
     (let state = state + SPLITMIX_GAMMA;
          v = (state XOR drop_bit 30 state) * 0xBF58476D1CE4E5B9;
          v = (v XOR drop_bit 27 v) * 0x94D049BB133111EB
      in (v XOR drop_bit 31 v, state))"

definition host_mac :: "u32 \<Rightarrow> mac_address" where
  "host_mac host = MacAddress 0x02 0x57 0x4c (ucast (drop_bit 16 host AND 0xff)) (ucast (drop_bit 8 host AND 0xff))
     (ucast (host AND 0xff))"

definition unknown_mac :: "u64 \<Rightarrow> mac_address" where
  "unknown_mac v = MacAddress 0x02 0xfe (ucast (drop_bit 24 v AND 0xff)) (ucast (drop_bit 16 v AND 0xff))
     (ucast (drop_bit 8 v AND 0xff)) (ucast (v AND 0xff))"

text \<open>The first \<open>n\<close> bytes of a draw, least significant first.\<close>

definition draw_bytes :: "nat \<Rightarrow> u64 \<Rightarrow> bytes" where
  "draw_bytes n v = map (\<lambda>i. ucast (drop_bit (8 * i) v)) [0..<n]"

function fill_random_payload :: "u64 \<Rightarrow> nat \<Rightarrow> bytes" where
  "fill_random_payload state n =
     (if 8 \<le> n then
        let (v, state) = splitmix64 state in draw_bytes 8 v @ fill_random_payload state (n - 8)
      else if 0 < n then draw_bytes n (fst (splitmix64 state))
      else [])"
  by pat_completeness auto
termination by (relation "measure snd") auto

declare fill_random_payload.simps [simp del]

section \<open>Headers\<close>

definition write_network_u16 :: "nat \<Rightarrow> u16 \<Rightarrow> bytes \<Rightarrow> bytes" where
  "write_network_u16 i v out = out[i := ucast (drop_bit 8 v), i + 1 := ucast v]"

function fold_carries :: "u32 \<Rightarrow> u32" where
  "fold_carries s = (if drop_bit 16 s \<noteq> 0 then fold_carries ((s AND 0xffff) + drop_bit 16 s) else s)"
  by pat_completeness auto

definition checksum_sum :: "bytes \<Rightarrow> u32" where
  "checksum_sum header =
     fold (\<lambda>i s. s + (push_bit 8 (ucast (header ! i)) OR ucast (header ! (i + 1)))) [0, 2, 4, 6, 8, 10, 12, 14, 16, 18] 0"

lemma split_u32: "unat (s AND 0xffff :: u32) = unat s mod 65536" "unat (drop_bit 16 s) = unat s div 65536"
proof -
  have "(0xffff :: u32) = mask 16" by (simp add: mask_eq_exp_minus_1)
  then show "unat (s AND 0xffff) = unat s mod 65536"
    by (simp only: flip: take_bit_eq_mask) (simp add: unsigned_take_bit_eq take_bit_eq_mod unat_mod_distrib)
  show "unat (drop_bit 16 s) = unat s div 65536"
    by (simp add: unsigned_drop_bit_eq drop_bit_eq_div unat_div_distrib)
qed

lemma carry_step: "unat ((s AND 0xffff) + drop_bit 16 s :: u32) = unat s mod 65536 + unat s div 65536"
proof -
  have "unat s < 2 ^ 32" using unsigned_less [of s] by simp
  then have "unat s mod 65536 + unat s div 65536 < 2 ^ 32"
    by (intro less_le_trans [OF add_less_le_mono [of _ 65536 _ 65536]]) (auto simp: less_mult_imp_div_less less_imp_le)
  then show ?thesis by (simp add: unat_word_ariths split_u32)
qed

termination fold_carries
proof (relation "measure unat")
  fix s :: u32
  assume "drop_bit 16 s \<noteq> 0"
  then have "unat s div 65536 \<noteq> 0" using split_u32(2) [of s] by (metis unat_eq_zero)
  moreover have "unat s = 65536 * (unat s div 65536) + unat s mod 65536" by simp
  ultimately have "unat s mod 65536 + unat s div 65536 < unat s" by linarith
  then show "((s AND 0xffff) + drop_bit 16 s, s) \<in> measure unat" by (simp add: carry_step)
qed simp

declare fold_carries.simps [simp del]

definition ipv4_checksum :: "bytes \<Rightarrow> u16" where
  "ipv4_checksum header = ucast (NOT (fold_carries (checksum_sum header)))"

definition write_ipv4_header :: "u16 \<Rightarrow> u8 \<Rightarrow> u32 \<Rightarrow> u32 \<Rightarrow> bytes \<Rightarrow> bytes" where
  "write_ipv4_header identification protocol source_host destination_host body =
     (let p = body[0 := 0x45, 1 := 0];
          p = write_network_u16 2 (of_nat (length body)) p;
          p = write_network_u16 4 identification p;
          p = write_network_u16 6 0 p;
          p = p[8 := IPV4_TIME_TO_LIVE, 9 := protocol];
          p = write_network_u16 10 0 p;
          p = p[12 := 10, 13 := 0];
          p = write_network_u16 14 (ucast source_host) p;
          p = p[16 := 10, 17 := 0];
          p = write_network_u16 18 (ucast destination_host) p
      in write_network_u16 10 (ipv4_checksum p) p)"

text \<open>\<open>base\<close> is where the transport header starts in the body.\<close>

definition write_udp_header :: "nat \<Rightarrow> nat \<Rightarrow> u16 \<Rightarrow> u16 \<Rightarrow> bytes \<Rightarrow> bytes" where
  "write_udp_header base len source_port destination_port body =
     write_network_u16 (base + 6) 0 (write_network_u16 (base + 4) (of_nat len)
       (write_network_u16 (base + 2) destination_port (write_network_u16 base source_port body)))"

section \<open>Shapes\<close>

record frame_shape_record =
  sh_destination_mac :: mac_address
  sh_source_mac :: mac_address
  sh_source_host :: u32
  sh_destination_host :: u32
  sh_udp :: bool
  sh_source_port :: u16
  sh_destination_port :: u16

definition frame_scenario :: "traffic_config \<Rightarrow> u64 \<Rightarrow> traffic_scenario" where
  "frame_scenario config sequence =
     (if tg_scenario config \<noteq> Mixed then tg_scenario config
      else if sequence mod 3 = 0 then KnownUnicastTraffic
      else if sequence mod 3 = 1 then BroadcastTraffic
      else UnknownUnicastTraffic)"

definition plain_shape :: "u32 \<Rightarrow> u32 \<Rightarrow> frame_shape_record" where
  "plain_shape source destination = \<lparr> sh_destination_mac = host_mac destination, sh_source_mac = host_mac source,
     sh_source_host = source, sh_destination_host = destination, sh_udp = False, sh_source_port = 0,
     sh_destination_port = 0 \<rparr>"

definition frame_shape :: "traffic_config \<Rightarrow> traffic_scenario \<Rightarrow> u64 \<Rightarrow> u64 \<Rightarrow> frame_shape_record" where
  "frame_shape config scenario sequence entropy =
     (case scenario of
        UdpFlood \<Rightarrow> (plain_shape FLOOD_SOURCE_HOST FLOOD_DESTINATION_HOST)
          \<lparr> sh_udp := True, sh_source_port := EPHEMERAL_PORT_BASE OR ucast (entropy AND ucast EPHEMERAL_PORT_MASK),
             sh_destination_port := UDP_FLOOD_DESTINATION_PORT \<rparr>
      | PortScan \<Rightarrow> (plain_shape FLOOD_SOURCE_HOST FLOOD_DESTINATION_HOST)
          \<lparr> sh_udp := True, sh_source_port := PORT_SCAN_SOURCE_PORT,
             sh_destination_port := ucast (ucast PORT_SCAN_FIRST_PORT + sequence mod PORT_SCAN_PORT_SPAN) \<rparr>
      | BroadcastStorm \<Rightarrow>
          (plain_shape (ucast (sequence mod ucast (min (tg_host_count config) BROADCAST_STORM_SOURCE_LIMIT)))
            BROADCAST_STORM_DESTINATION_HOST)
          \<lparr> sh_destination_mac := mac_broadcast, sh_udp := True, sh_source_port := BROADCAST_STORM_PORT,
             sh_destination_port := BROADCAST_STORM_PORT \<rparr>
      | _ \<Rightarrow>
          let source = ucast (sequence mod ucast (tg_host_count config));
              shape = plain_shape source ((source + 1) mod tg_host_count config)
          in if scenario = BroadcastTraffic then shape\<lparr> sh_destination_mac := mac_broadcast \<rparr>
             else if scenario = UnknownUnicastTraffic then shape\<lparr> sh_destination_mac := unknown_mac entropy \<rparr>
             else shape)"

section \<open>Frames\<close>

definition write_payload :: "traffic_config \<Rightarrow> u64 \<Rightarrow> frame_shape_record \<Rightarrow> bytes \<Rightarrow> bytes" where
  "write_payload config sequence shape body =
     (let len = length body in
      if len < IPV4_HEADER_SIZE \<or> len > 65535 then body
      else
        let with_udp = (sh_udp shape \<and> len \<ge> IPV4_HEADER_SIZE + UDP_HEADER_SIZE);
            body = write_ipv4_header (ucast sequence) (if with_udp then UDP_PROTOCOL else NO_TRANSPORT_PROTOCOL)
              (sh_source_host shape) (sh_destination_host shape) body
        in if with_udp
           then write_udp_header IPV4_HEADER_SIZE (len - IPV4_HEADER_SIZE) (sh_source_port shape)
             (sh_destination_port shape) body
           else body)"

text \<open>The bytes written: none for a configuration that cannot produce a frame.\<close>

definition write_traffic_frame :: "traffic_config \<Rightarrow> u64 \<Rightarrow> bytes" where
  "write_traffic_frame config sequence =
     (if tg_frame_size config < ethernet_header_size \<or> tg_host_count config < 2 then []
      else
        let (entropy, state) = splitmix64 (tg_seed config XOR (sequence * SPLITMIX_GAMMA));
            shape = frame_shape config (frame_scenario config sequence) sequence entropy
        in mac_bytes (sh_destination_mac shape) @ mac_bytes (sh_source_mac shape) @ be16_bytes ETHERTYPE_IPV4 @
           write_payload config sequence shape
             (fill_random_payload state (tg_frame_size config - ethernet_header_size)))"

definition traffic_frame :: "traffic_config \<Rightarrow> u64 \<Rightarrow> bytes" where
  "traffic_frame config sequence = write_traffic_frame config sequence"

record traffic_generator =
  gen_config :: traffic_config
  gen_sequence :: u64

datatype generator_error = FrameSizeTooSmall | TooFewHosts

definition generator_new :: "traffic_config \<Rightarrow> generator_error + traffic_generator" where
  "generator_new config =
     (if tg_frame_size config < ethernet_header_size then Inl FrameSizeTooSmall
      else if tg_host_count config < 2 then Inl TooFewHosts
      else Inr \<lparr> gen_config = config, gen_sequence = 0 \<rparr>)"

definition next_frame :: "traffic_generator \<Rightarrow> bytes \<times> traffic_generator" where
  "next_frame g = (traffic_frame (gen_config g) (gen_sequence g), g\<lparr> gen_sequence := gen_sequence g + 1 \<rparr>)"

fun generate :: "nat \<Rightarrow> traffic_generator \<Rightarrow> bytes list \<times> traffic_generator" where
  "generate 0 g = ([], g)"
| "generate (Suc n) g =
     (let (frame, g) = next_frame g; (frames, g) = generate n g in (frame # frames, g))"

section \<open>The header, byte by byte\<close>

lemma length_write_network_u16 [simp]: "length (write_network_u16 i v out) = length out"
  by (simp add: write_network_u16_def)

lemma length_write_ipv4_header [simp]: "length (write_ipv4_header i p s d body) = length body"
  by (simp add: write_ipv4_header_def Let_def)

lemma length_write_udp_header [simp]: "length (write_udp_header base n s d body) = length body"
  by (simp add: write_udp_header_def)

lemma length_write_payload [simp]: "length (write_payload config sequence shape body) = length body"
  by (simp add: write_payload_def Let_def)

lemma length_fill_random_payload [simp]: "length (fill_random_payload state n) = n"
proof (induction state n rule: fill_random_payload.induct)
  case (1 state n)
  then show ?case
    by (subst fill_random_payload.simps) (auto simp: draw_bytes_def split: prod.split)
qed

lemma length_traffic_frame:
  "ethernet_header_size \<le> tg_frame_size config \<Longrightarrow> 2 \<le> tg_host_count config \<Longrightarrow>
    length (traffic_frame config sequence) = tg_frame_size config"
  by (auto simp: traffic_frame_def write_traffic_frame_def Let_def be16_bytes_def ethernet_header_size_def not_less
      case_prod_unfold)

text \<open>The header without its checksum, and with it.\<close>

definition blank_header :: "u16 \<Rightarrow> u16 \<Rightarrow> u8 \<Rightarrow> u32 \<Rightarrow> u32 \<Rightarrow> bytes" where
  "blank_header len16 identification protocol source destination =
     [0x45, 0] @ be16_bytes len16 @ be16_bytes identification @ [0, 0, IPV4_TIME_TO_LIVE, protocol, 0, 0, 10, 0] @
     be16_bytes (ucast source) @ [10, 0] @ be16_bytes (ucast destination)"

definition full_header :: "u16 \<Rightarrow> u16 \<Rightarrow> u8 \<Rightarrow> u32 \<Rightarrow> u32 \<Rightarrow> bytes" where
  "full_header len16 identification protocol source destination =
     write_network_u16 10 (ipv4_checksum (blank_header len16 identification protocol source destination))
       (blank_header len16 identification protocol source destination)"

lemma split_20:
  assumes "20 \<le> length xs"
  obtains a0 a1 a2 a3 a4 a5 a6 a7 a8 a9 b0 b1 b2 b3 b4 b5 b6 b7 b8 b9 rest where
    "xs = [a0, a1, a2, a3, a4, a5, a6, a7, a8, a9, b0, b1, b2, b3, b4, b5, b6, b7, b8, b9] @ rest"
  using assms by (auto simp: numeral_eq_Suc Suc_le_length_iff)

lemma ipv4_checksum_prefix: "20 \<le> length xs \<Longrightarrow> ipv4_checksum (xs @ ys) = ipv4_checksum xs"
  by (erule split_20) (simp add: ipv4_checksum_def checksum_sum_def)

lemma write_ipv4_header_eq:
  assumes "20 \<le> length body"
  shows "write_ipv4_header identification protocol source destination body =
    full_header (of_nat (length body)) identification protocol source destination @ drop 20 body"
proof -
  obtain a0 a1 a2 a3 a4 a5 a6 a7 a8 a9 b0 b1 b2 b3 b4 b5 b6 b7 b8 b9 rest where body:
    "body = [a0, a1, a2, a3, a4, a5, a6, a7, a8, a9, b0, b1, b2, b3, b4, b5, b6, b7, b8, b9] @ rest"
    by (rule split_20 [OF assms])
  let ?h = "blank_header (of_nat (length body)) identification protocol source destination"
  have len: "length ?h = 20" by (simp add: blank_header_def be16_bytes_def)
  have "write_ipv4_header identification protocol source destination body =
      write_network_u16 10 (ipv4_checksum (?h @ rest)) (?h @ rest)"
    by (simp add: write_ipv4_header_def Let_def write_network_u16_def body blank_header_def be16_bytes_def)
  also have "\<dots> = full_header (of_nat (length body)) identification protocol source destination @ rest"
    using len by (simp add: ipv4_checksum_prefix full_header_def write_network_u16_def list_update_append)
  finally show ?thesis by (simp add: body)
qed

lemma length_full_header [simp]: "length (full_header t i p s d) = 20"
  by (simp add: full_header_def blank_header_def be16_bytes_def)

lemma nth_full_header:
  "full_header t i p s d ! 0 = 0x45" "full_header t i p s d ! 2 = ucast (drop_bit 8 t)" "full_header t i p s d ! 3 = ucast t"
  "full_header t i p s d ! 6 = 0" "full_header t i p s d ! 7 = 0" "full_header t i p s d ! 9 = p"
  "full_header t i p s d ! 12 = 10" "full_header t i p s d ! 13 = 0"
  "full_header t i p s d ! 14 = ucast (drop_bit 8 (ucast s :: u16))" "full_header t i p s d ! 15 = ucast (ucast s :: u16)"
  "full_header t i p s d ! 16 = 10" "full_header t i p s d ! 17 = 0"
  "full_header t i p s d ! 18 = ucast (drop_bit 8 (ucast d :: u16))" "full_header t i p s d ! 19 = ucast (ucast d :: u16)"
  by (simp_all add: full_header_def blank_header_def be16_bytes_def write_network_u16_def)

definition udp_header :: "u16 \<Rightarrow> u16 \<Rightarrow> u16 \<Rightarrow> bytes" where
  "udp_header source destination len = be16_bytes source @ be16_bytes destination @ be16_bytes len @ [0, 0]"

lemma write_udp_header_eq:
  assumes "length header = 20" and "8 \<le> length rest"
  shows "write_udp_header 20 n source destination (header @ rest) =
    header @ udp_header source destination (of_nat n) @ drop 8 rest"
proof -
  obtain a b c d e f g h tail where rest: "rest = [a, b, c, d, e, f, g, h] @ tail"
    using assms(2) by (auto simp: numeral_eq_Suc Suc_le_length_iff)
  show ?thesis
    using assms(1)
    by (simp add: write_udp_header_def write_network_u16_def list_update_append rest udp_header_def be16_bytes_def)
qed

text \<open>The payload of a frame that is large enough for the headers.\<close>

lemma write_payload_eq:
  assumes "20 \<le> length body" and "length body \<le> 65535"
  shows "write_payload config sequence shape body =
    (if sh_udp shape \<and> 28 \<le> length body
     then full_header (of_nat (length body)) (ucast sequence) UDP_PROTOCOL (sh_source_host shape) (sh_destination_host shape) @
       udp_header (sh_source_port shape) (sh_destination_port shape) (of_nat (length body - 20)) @ drop 28 body
     else full_header (of_nat (length body)) (ucast sequence) NO_TRANSPORT_PROTOCOL (sh_source_host shape)
       (sh_destination_host shape) @ drop 20 body)"
proof (cases "sh_udp shape \<and> 28 \<le> length body")
  case True
  then have "8 \<le> length (drop 20 body)" by auto
  note udp = write_udp_header_eq [OF length_full_header this]
  show ?thesis
    using assms True
    by (simp add: write_payload_def Let_def IPV4_HEADER_SIZE_def UDP_HEADER_SIZE_def write_ipv4_header_eq udp del: of_nat_diff)
next
  case False
  then show ?thesis
    using assms by (auto simp: write_payload_def Let_def IPV4_HEADER_SIZE_def UDP_HEADER_SIZE_def write_ipv4_header_eq)
qed

section \<open>The checksum\<close>

definition word16_at :: "bytes \<Rightarrow> nat \<Rightarrow> u32" where
  "word16_at header i = push_bit 8 (ucast (header ! i)) OR ucast (header ! (i + 1))"

lemma unat_u8_less: "unat (b :: u8) < 256"
proof -
  have "unat b < 2 ^ LENGTH(8)" by (rule unsigned_less)
  then show ?thesis by simp
qed

lemma unat_join: "unat (push_bit 8 (ucast (a :: u8)) OR ucast (b :: u8) :: u32) = 256 * unat a + unat b"
proof -
  have "push_bit 8 (ucast a) OR ucast b = (push_bit 8 (ucast a) + ucast b :: u32)"
    by (rule disjunctive_add_eq_or [symmetric]) (rule bit_word_eqI, auto simp: bit_simps dest: bit_imp_le_length)
  moreover have bounds: "unat a < 256" "unat b < 256" by (rule unat_u8_less)+
  moreover have "unat (ucast a :: u32) = unat a" "unat (ucast b :: u32) = unat b"
    using bounds by (simp_all add: unsigned_ucast_eq take_bit_nat_eq_self)
  ultimately show ?thesis
    by (simp add: push_bit_eq_mult unat_word_ariths)
qed

lemma unat_be16: "unat (be16 a b) = 256 * unat a + unat b"
proof -
  have "be16 a b = push_bit 8 (ucast a) + ucast b" unfolding be16_def
    by (rule disjunctive_add_eq_or [symmetric]) (rule bit_word_eqI, auto simp: bit_simps dest: bit_imp_le_length)
  moreover have bounds: "unat a < 256" "unat b < 256" by (rule unat_u8_less)+
  moreover have "unat (ucast a :: u16) = unat a" "unat (ucast b :: u16) = unat b"
    using bounds by (simp_all add: unsigned_ucast_eq take_bit_nat_eq_self)
  ultimately show ?thesis
    by (simp add: push_bit_eq_mult unat_word_ariths)
qed

lemma fold_carries_facts:
  "unat (fold_carries s) < 65536 \<and> unat (fold_carries s) mod 65535 = unat s mod 65535 \<and>
    (unat (fold_carries s) = 0 \<longleftrightarrow> unat s = 0)"
proof (induction s rule: fold_carries.induct)
  case (1 s)
  show ?case
  proof (cases "drop_bit 16 s \<noteq> 0")
    case True
    have s: "unat s = 65536 * (unat s div 65536) + unat s mod 65536" by simp
    have "unat s = (unat s mod 65536 + unat s div 65536) + 65535 * (unat s div 65536)" using s by linarith
    then have "unat s mod 65535 = (unat s mod 65536 + unat s div 65536) mod 65535"
      by (metis mod_mult_self2)
    then have "unat ((s AND 0xffff) + drop_bit 16 s) mod 65535 = unat s mod 65535"
      by (simp add: carry_step)
    moreover have "unat ((s AND 0xffff) + drop_bit 16 s) = 0 \<longleftrightarrow> unat s = 0"
      unfolding carry_step using s by linarith
    ultimately show ?thesis using "1.IH" [OF True] True by (subst (1 2 3) fold_carries.simps) simp
  next
    case False
    then have "unat s div 65536 = 0" using split_u32(2) [of s] by simp
    then show ?thesis using False by (subst (1 2 3) fold_carries.simps) simp
  qed
qed

text \<open>Adding a word to a sum of at most nine does not overflow.\<close>

lemma unat_word16_at [simp]: "unat (word16_at header i) = 256 * unat (header ! i) + unat (header ! (i + 1))"
  by (simp add: word16_at_def unat_join)

lemma word16_at_less: "unat (word16_at header i) < 65536"
  using unat_u8_less [of "header ! i"] unat_u8_less [of "header ! (i + 1)"] by simp

lemma unat_add_small: "unat (a :: u32) + unat b < 2 ^ 32 \<Longrightarrow> unat (a + b) = unat a + unat b"
  by (simp add: unat_word_ariths)

lemma unat_sum_words:
  "length is \<le> 10 \<Longrightarrow>
    unat (fold (\<lambda>i s. s + word16_at header i) is 0) = (\<Sum>i \<leftarrow> is. unat (word16_at header i)) \<and>
    (\<Sum>i \<leftarrow> is. unat (word16_at header i)) \<le> 65536 * length is"
proof (induction "is" rule: rev_induct)
  case (snoc i "is")
  let ?s = "fold (\<lambda>i s. s + word16_at header i) is 0"
  have s: "unat ?s = (\<Sum>i \<leftarrow> is. unat (word16_at header i))" "unat ?s \<le> 65536 * length is" "length is \<le> 9"
    using snoc by simp_all
  then have "unat ?s \<le> 65536 * 9" by linarith
  then have "unat ?s + unat (word16_at header i) < 2 ^ 32"
    using word16_at_less [of header i] by simp
  from unat_add_small [OF this] show ?case
    using s word16_at_less [of header i] by simp
qed simp

lemma unat_checksum_sum:
  "unat (checksum_sum header) = (\<Sum>i \<leftarrow> [0, 2, 4, 6, 8, 10, 12, 14, 16, 18]. unat (word16_at header i))"
  using unat_sum_words [of "[0, 2, 4, 6, 8, 10, 12, 14, 16, 18]" header]
  unfolding checksum_sum_def word16_at_def [symmetric] by simp

lemma unat_not_u32: "unat (NOT s :: u32) = 4294967295 - unat s"
proof -
  have all: "(- 1 :: u32) = 4294967295" by simp
  have "NOT s = - 1 - s" by (simp add: not_eq_complement)
  also have "unat \<dots> = unat (- 1 :: u32) - unat s" by (rule unat_sub) simp
  finally show ?thesis by (simp add: all)
qed

lemma only_multiple_below:
  assumes "n mod 65535 = 0" and "n \<noteq> 0" and "n < 65536"
  shows "n = (65535 :: nat)"
proof -
  have n: "n = 65535 * (n div 65535)" using assms(1) by (metis add.right_neutral div_mult_mod_eq mult.commute)
  then have "n div 65535 \<noteq> 0" and "n div 65535 < 2" using assms by (metis mult_0_right, linarith)
  then have "n div 65535 = 1" by linarith
  then show ?thesis using n by simp
qed

lemma unat_checksum:
  "unat (ipv4_checksum header) = 65535 - unat (fold_carries (checksum_sum header))"
proof -
  let ?f = "fold_carries (checksum_sum header)"
  have f: "unat ?f < 65536" using fold_carries_facts by blast
  have "unat (ipv4_checksum header) = unat (NOT ?f) mod 65536"
    by (simp add: ipv4_checksum_def unsigned_ucast_eq take_bit_eq_mod)
  also have "\<dots> = (65535 - unat ?f + 65536 * 65535) mod 65536"
  proof -
    have "4294967295 - unat ?f = 65535 - unat ?f + 65536 * 65535" using f by linarith
    then show ?thesis by (simp only: unat_not_u32)
  qed
  also have "\<dots> = (65535 - unat ?f) mod 65536" by (rule mod_mult_self2)
  also have "\<dots> = 65535 - unat ?f" by simp
  finally show ?thesis .
qed

lemma full_header_checksum:
  "fold_carries (checksum_sum (full_header t i p s d)) = 0xffff"
proof -
  let ?blank = "blank_header t i p s d" and ?full = "full_header t i p s d"
  let ?c = "ipv4_checksum ?blank" and ?f = "fold_carries (checksum_sum ?blank)"
  have len: "length ?blank = 20" by (simp add: blank_header_def be16_bytes_def)
  have c: "256 * unat (ucast (drop_bit 8 ?c) :: u8) + unat (ucast ?c :: u8) = unat ?c"
  proof -
    have "unat (be16 (ucast (drop_bit 8 ?c)) (ucast ?c)) = unat ?c" by simp
    then show ?thesis by (simp only: unat_be16)
  qed
  have "unat (checksum_sum ?full) = unat (checksum_sum ?blank) + unat ?c"
    using len c by (simp add: unat_checksum_sum full_header_def write_network_u16_def blank_header_def be16_bytes_def)
  then have sum: "unat (checksum_sum ?full) = unat (checksum_sum ?blank) + (65535 - unat ?f)"
    by (simp only: unat_checksum)
  have nonzero: "unat (checksum_sum ?blank) \<noteq> 0"
    by (simp add: unat_checksum_sum blank_header_def)
  have f: "unat ?f < 65536" "unat ?f mod 65535 = unat (checksum_sum ?blank) mod 65535"
    using fold_carries_facts by blast+
  have "unat (checksum_sum ?full) mod 65535 = (unat ?f + (65535 - unat ?f)) mod 65535"
    unfolding sum using f(2) by (metis mod_add_left_eq)
  also have "unat ?f + (65535 - unat ?f) = 65535" using f(1) by linarith
  finally have "unat (checksum_sum ?full) mod 65535 = 0" by simp
  moreover have "unat (checksum_sum ?full) \<noteq> 0" unfolding sum using nonzero by linarith
  ultimately have "unat (fold_carries (checksum_sum ?full)) mod 65535 = 0"
    "unat (fold_carries (checksum_sum ?full)) \<noteq> 0" "unat (fold_carries (checksum_sum ?full)) < 65536"
    using fold_carries_facts [of "checksum_sum ?full"] by metis+
  then have "unat (fold_carries (checksum_sum ?full)) = 65535" by (rule only_multiple_below)
  then show ?thesis by (simp add: word_unat_eq_iff)
qed

section \<open>What the analyzer makes of a generated frame\<close>

definition generated_shape :: "traffic_config \<Rightarrow> u64 \<Rightarrow> frame_shape_record" where
  "generated_shape config sequence =
     frame_shape config (frame_scenario config sequence) sequence
       (fst (splitmix64 (tg_seed config XOR (sequence * SPLITMIX_GAMMA))))"

lemma traffic_frame_eq:
  assumes "ethernet_header_size \<le> tg_frame_size config" and "2 \<le> tg_host_count config"
  obtains body where "length body = tg_frame_size config - 14" and
    "traffic_frame config sequence =
      mac_bytes (sh_destination_mac (generated_shape config sequence)) @
      mac_bytes (sh_source_mac (generated_shape config sequence)) @ be16_bytes ETHERTYPE_IPV4 @
      write_payload config sequence (generated_shape config sequence) body"
proof
  let ?state = "snd (splitmix64 (tg_seed config XOR (sequence * SPLITMIX_GAMMA)))"
  show "length (fill_random_payload ?state (tg_frame_size config - 14)) = tg_frame_size config - 14" by simp
  show "traffic_frame config sequence =
      mac_bytes (sh_destination_mac (generated_shape config sequence)) @
      mac_bytes (sh_source_mac (generated_shape config sequence)) @ be16_bytes ETHERTYPE_IPV4 @
      write_payload config sequence (generated_shape config sequence)
        (fill_random_payload ?state (tg_frame_size config - 14))"
    using assms(1) linorder_not_less [THEN iffD2, OF assms(2)]
    by (simp add: traffic_frame_def write_traffic_frame_def generated_shape_def Let_def
        ethernet_header_size_def case_prod_unfold)
qed

lemma checksum_sum_prefix: "20 \<le> length xs \<Longrightarrow> checksum_sum (xs @ ys) = checksum_sum xs"
  by (erule split_20) (simp add: checksum_sum_def)

text \<open>Every frame the traffic generator writes that has room for an IPv4 header carries a valid
  header checksum: the one's complement sum of the ten header words, the stored checksum
  included, is \<open>0xffff\<close>.\<close>

theorem generated_checksum_valid:
  assumes "34 \<le> tg_frame_size config" and "tg_frame_size config \<le> 65549" and "2 \<le> tg_host_count config"
  shows "fold_carries (checksum_sum (drop 14 (traffic_frame config sequence))) = 0xffff"
proof -
  have "ethernet_header_size \<le> tg_frame_size config" using assms by (simp add: ethernet_header_size_def)
  from traffic_frame_eq [OF this assms(3), of sequence] obtain body where
    body: "length body = tg_frame_size config - 14" and frame: "traffic_frame config sequence =
      mac_bytes (sh_destination_mac (generated_shape config sequence)) @
      mac_bytes (sh_source_mac (generated_shape config sequence)) @ be16_bytes ETHERTYPE_IPV4 @
      write_payload config sequence (generated_shape config sequence) body" by blast
  have "20 \<le> length body" "length body \<le> 65535" using assms body by simp_all
  from write_payload_eq [OF this] show ?thesis
    unfolding frame by (simp add: checksum_sum_prefix full_header_checksum be16_bytes_def del: of_nat_diff)
qed

theorem generated_checksum_valid_witness:
  "fold_carries (checksum_sum (drop 14 (traffic_frame
     \<lparr> tg_scenario = PortScan, tg_seed = 7, tg_frame_size = 60, tg_host_count = 4 \<rparr> 5))) = 0xffff"
  by (rule generated_checksum_valid) simp_all

definition host_ipv4 :: "u32 \<Rightarrow> u32" where
  "host_ipv4 host = 0x0A000000 OR (host AND 0xffff)"

lemma be32_host_ipv4: "be32 10 0 (ucast (drop_bit 8 (ucast h :: u16))) (ucast (ucast h :: u16)) = host_ipv4 h"
proof -
  have "(0xffff :: u32) = mask 16" by (simp add: mask_eq_exp_minus_1)
  moreover have "be32 10 0 (ucast (drop_bit 8 (ucast h :: u16))) (ucast (ucast h :: u16)) =
      push_bit 24 10 OR (take_bit 16 h :: u32)"
    by (rule bit_word_eqI) (auto simp: be32_def bit_simps)
  ultimately show ?thesis by (simp add: host_ipv4_def take_bit_eq_mask)
qed

lemma parse_transport_generated:
  assumes "pa_protocol a = UDP_PROTOCOL" and "34 + n \<le> length bs" and "8 \<le> n" and "n \<le> 65535"
    and "take 8 (drop 34 bs) = udp_header source destination (of_nat n)"
  shows "parse_transport bs 34 n a =
    Some (Valid, a\<lparr> pa_source_port := source, pa_destination_port := destination \<rparr>)"
proof -
  have at: "bs ! (34 + i) = udp_header source destination (of_nat n) ! i" if "i < 8" for i
    unfolding assms(5) [symmetric] using that assms(2,3) by simp
  note fields = at [of 0] at [of 1] at [of 2] at [of 3] at [of 4] at [of 5]
  have "unat (of_nat n :: u16) = n"
    using assms(4) by (simp only: unsigned_of_nat) (simp add: take_bit_nat_eq_self)
  then show ?thesis
    using assms(1-3) fields
    by (simp add: parse_transport_def read_network_u16_Some udp_header_def be16_bytes_def del: unsigned_of_nat)
qed

lemma parse_ipv4_generated:
  assumes "length eth = 14" and "n = 20 + length rest" and "n \<le> 65535"
    and bs_def: "bs = eth @ full_header (of_nat n) i p s d @ rest"
  shows "parse_ipv4 bs (14 + n) a = parse_transport bs 34 (length rest)
    (a\<lparr> pa_source_ipv4 := host_ipv4 s, pa_destination_ipv4 := host_ipv4 d, pa_protocol := p \<rparr>)"
proof -
  have len: "length bs = 14 + n" using assms by simp
  have at: "bs ! (14 + k) = full_header (of_nat n) i p s d ! k" if "k < 20" for k
    using assms(1) that by (simp add: bs_def nth_append)
  note fields = at [of 0] at [of 2] at [of 3] at [of 6] at [of 7] at [of 9] at [of 12] at [of 13] at [of 14]
    at [of 15] at [of 16] at [of 17] at [of 18] at [of 19]
  have total: "unat (of_nat n :: u16) = n"
    using assms(3) by (simp only: unsigned_of_nat) (simp add: take_bit_nat_eq_self)
  have size: "unat (of_nat (20 + length rest) :: u16) = 20 + length rest"
    using total unfolding assms(2) .
  have zero: "be16 0 0 = 0" by (simp add: be16_def)
  show ?thesis
    using len assms(2) fields
    by (simp add: parse_ipv4_def ethernet_header_size_def read_network_u16_Some read_network_u32_Some
        nth_full_header Let_def size zero be32_host_ipv4 del: unsigned_of_nat of_nat_add)
qed

lemma eth_fields:
  "mac_at (mac_bytes d @ mac_bytes s @ be16_bytes t @ rest) 0 = Some d"
  "mac_at (mac_bytes d @ mac_bytes s @ be16_bytes t @ rest) 6 = Some s"
  "read_network_u16 (mac_bytes d @ mac_bytes s @ be16_bytes t @ rest) 12 = Some t"
  by (cases d; cases s; simp add: mac_at_def read_network_u16_def be16_bytes_def)+

lemma write_payload_cases:
  assumes "20 \<le> length body" and "length body \<le> 65535"
  defines "udp \<equiv> \<lambda>shape. sh_udp shape \<and> 28 \<le> length body"
  shows "\<exists>i rest. write_payload config sequence shape body =
      full_header (of_nat (length body)) i (if udp shape then UDP_PROTOCOL else NO_TRANSPORT_PROTOCOL)
        (sh_source_host shape) (sh_destination_host shape) @ rest \<and>
    length body = 20 + length rest \<and>
    (udp shape \<longrightarrow> 8 \<le> length rest \<and>
      take 8 rest = udp_header (sh_source_port shape) (sh_destination_port shape) (of_nat (length rest)))"
proof (cases "udp shape")
  case True
  let ?rest = "udp_header (sh_source_port shape) (sh_destination_port shape) (of_nat (length body - 20)) @ drop 28 body"
  have "length ?rest = length body - 20"
    using True by (auto simp: udp_def udp_header_def be16_bytes_def)
  moreover have "take 8 ?rest = udp_header (sh_source_port shape) (sh_destination_port shape) (of_nat (length body - 20))"
    by (simp add: udp_header_def be16_bytes_def)
  moreover have "write_payload config sequence shape body =
      full_header (of_nat (length body)) (ucast sequence) UDP_PROTOCOL (sh_source_host shape) (sh_destination_host shape) @ ?rest"
    using write_payload_eq [OF assms(1,2)] True by (simp add: udp_def del: of_nat_diff)
  ultimately show ?thesis
    using True by (intro exI [of _ "ucast sequence"] exI [of _ ?rest]) (auto simp: udp_def simp del: of_nat_diff)
next
  case False
  then have "write_payload config sequence shape body =
      full_header (of_nat (length body)) (ucast sequence) NO_TRANSPORT_PROTOCOL (sh_source_host shape)
        (sh_destination_host shape) @ drop 20 body"
    using write_payload_eq [OF assms(1,2)] by (auto simp: udp_def)
  then show ?thesis
    using False assms(1) by (intro exI [of _ "ucast sequence"] exI [of _ "drop 20 body"]) simp
qed

text \<open>The analyzer reads a generated frame as the generator meant it: the MAC addresses of the shape, a
  valid IPv4 packet between the two hosts' 10.0 addresses, and the shape's UDP ports when the frame has
  room for them.\<close>

theorem generated_frame_parses:
  assumes "34 \<le> tg_frame_size config" and "tg_frame_size config \<le> 65549" and "2 \<le> tg_host_count config"
    and "pv_bytes v = Some (traffic_frame config sequence)" and "pv_size v = tg_frame_size config"
    and "shape = generated_shape config sequence" and "udp = (sh_udp shape \<and> 42 \<le> tg_frame_size config)"
  shows "\<exists>a. parse_packet v = Some a \<and> pa_validity a = Valid \<and>
    pa_source_mac a = sh_source_mac shape \<and> pa_destination_mac a = sh_destination_mac shape \<and>
    pa_ethertype a = ETHERTYPE_IPV4 \<and> pa_source_ipv4 a = host_ipv4 (sh_source_host shape) \<and>
    pa_destination_ipv4 a = host_ipv4 (sh_destination_host shape) \<and>
    pa_protocol a = (if udp then UDP_PROTOCOL else NO_TRANSPORT_PROTOCOL) \<and>
    (udp \<longrightarrow> pa_source_port a = sh_source_port shape \<and> pa_destination_port a = sh_destination_port shape)"
proof -
  have "ethernet_header_size \<le> tg_frame_size config" using assms by (simp add: ethernet_header_size_def)
  from traffic_frame_eq [OF this assms(3), of sequence] obtain body where
    body: "length body = tg_frame_size config - 14" and frame: "traffic_frame config sequence =
      mac_bytes (sh_destination_mac shape) @ mac_bytes (sh_source_mac shape) @ be16_bytes ETHERTYPE_IPV4 @
      write_payload config sequence shape body" unfolding assms(6) by blast
  define n where "n = length body"
  have n: "20 \<le> n" "n \<le> 65535" "tg_frame_size config = 14 + n" using assms body by (simp_all add: n_def)
  have udp: "udp \<longleftrightarrow> sh_udp shape \<and> 28 \<le> n" using assms(7) n(3) by auto
  define eth where "eth = mac_bytes (sh_destination_mac shape) @ mac_bytes (sh_source_mac shape) @ be16_bytes ETHERTYPE_IPV4"
  have eth: "length eth = 14" by (simp add: eth_def be16_bytes_def)
  define p where "p = (if udp then UDP_PROTOCOL else NO_TRANSPORT_PROTOCOL)"
  obtain i rest where payload: "write_payload config sequence shape body =
      full_header (of_nat n) i p (sh_source_host shape) (sh_destination_host shape) @ rest"
    and rest: "n = 20 + length rest"
    and ports: "udp \<longrightarrow> 8 \<le> length rest \<and>
      take 8 rest = udp_header (sh_source_port shape) (sh_destination_port shape) (of_nat (length rest))"
    using write_payload_cases [OF n(1,2) [unfolded n_def], of config sequence shape]
    unfolding n_def [symmetric] udp [symmetric] p_def by blast
  let ?bs = "traffic_frame config sequence"
  have bs: "?bs = eth @ full_header (of_nat n) i p (sh_source_host shape) (sh_destination_host shape) @ rest"
    by (simp add: frame payload eth_def)
  have len: "length ?bs = 14 + n" using eth rest by (simp add: bs)
  have macs: "mac_at ?bs 0 = Some (sh_destination_mac shape)" "mac_at ?bs 6 = Some (sh_source_mac shape)"
    "read_network_u16 ?bs 12 = Some ETHERTYPE_IPV4"
    using eth_fields [of "sh_destination_mac shape" "sh_source_mac shape"] by (simp_all add: bs eth_def)
  have ip: "parse_ipv4 ?bs (34 + length rest) a = parse_transport ?bs 34 (length rest)
      (a\<lparr> pa_source_ipv4 := host_ipv4 (sh_source_host shape),
         pa_destination_ipv4 := host_ipv4 (sh_destination_host shape), pa_protocol := p \<rparr>)" for a
    using parse_ipv4_generated [OF eth rest n(2) bs, of a] by (simp add: rest)
  have tail: "drop 34 ?bs = rest" using eth by (simp add: bs)
  show ?thesis
  proof (cases udp)
    case True
    then have "8 \<le> length rest" "take 8 (drop 34 ?bs) =
        udp_header (sh_source_port shape) (sh_destination_port shape) (of_nat (length rest))"
      using ports tail by simp_all
    from parse_transport_generated [OF _ _ this(1) _ this(2)] True n len rest p_def show ?thesis
      by (simp add: parse_packet_def assms(4,5) macs ip Let_def ethernet_header_size_def conclude_analysis_def)
  next
    case False
    then show ?thesis
      using n p_def rest by (simp add: parse_packet_def assms(4,5) macs ip Let_def ethernet_header_size_def
          conclude_analysis_def parse_transport_def NO_TRANSPORT_PROTOCOL_def UDP_PROTOCOL_def TCP_PROTOCOL_def
          ICMP_PROTOCOL_def)
  qed
qed

theorem generated_frame_parses_witness:
  "\<exists>a. parse_packet \<lparr> pv_bytes = Some (traffic_frame
       \<lparr> tg_scenario = UdpFlood, tg_seed = 7, tg_frame_size = 64, tg_host_count = 2 \<rparr> 3), pv_size = 64, pv_ingress = 1 \<rparr> = Some a \<and>
     pa_protocol a = UDP_PROTOCOL \<and> pa_destination_port a = UDP_FLOOD_DESTINATION_PORT"
proof -
  let ?config = "\<lparr> tg_scenario = UdpFlood, tg_seed = 7, tg_frame_size = 64, tg_host_count = 2 \<rparr>"
  have udp: "sh_udp (generated_shape ?config 3)" "sh_destination_port (generated_shape ?config 3) = UDP_FLOOD_DESTINATION_PORT"
    by (simp_all add: generated_shape_def frame_shape_def frame_scenario_def)
  show ?thesis
    using generated_frame_parses [of ?config "\<lparr> pv_bytes = Some (traffic_frame ?config 3), pv_size = 64, pv_ingress = 1 \<rparr>" 3
        "generated_shape ?config 3" True] udp
    by auto
qed

end
