(* ===== verification/Benchmark.thy ===== *)
theory Benchmark
  imports Traffic_Generator Packet_Accounting
begin

text \<open>
  Benchmark runs, \<^verbatim>\<open>include/wirelab/benchmark.hpp\<close>, \<^verbatim>\<open>src/benchmark.cpp\<close>,
  \<^verbatim>\<open>include/wirelab/traffic_source.hpp\<close> and \<^verbatim>\<open>src/traffic_source.cpp\<close>: a run generates its
  packets batch by batch and analyzes them in slices. The analyzer is an object behind the interface
  \<open>analyzer_operations\<close>, whose contract is the locale \<open>counting_analyzer\<close>; the CPU analyzer is the
  model of \<open>Packet_Aggregator\<close>. What the steady clock measured is an argument: \<open>spent\<close> gives the time
  of the analysis of the batch that starts at a packet, and a number the time of the slice. Floating
  point is an argument too (\<open>double_operations\<close>), so nothing below depends on its rounding.
\<close>

section \<open>Data\<close>

datatype benchmark_error = UnknownScenario | UnknownBackend | BackendUnavailable | InvalidConfiguration

definition benchmark_error_text :: "benchmark_error \<Rightarrow> string" where
  "benchmark_error_text e =
     (case e of
        UnknownScenario \<Rightarrow> ''unknown traffic scenario''
      | UnknownBackend \<Rightarrow> ''unknown benchmark backend''
      | BackendUnavailable \<Rightarrow> ''benchmark backend is unavailable''
      | InvalidConfiguration \<Rightarrow> ''invalid benchmark configuration'')"

definition MAX_BENCHMARK_FRAME_SIZE :: nat where "MAX_BENCHMARK_FRAME_SIZE = 9000"

record benchmark_config =
  bc_traffic :: traffic_config
  bc_packet_count :: nat
  bc_batch_size :: nat
  bc_backend :: string
  bc_generator :: string

record analyzer_timing =
  at_host_to_device :: u64
  at_kernel :: u64
  at_device_to_host :: u64
  at_transfer_inclusive :: u64
  at_queue_wait :: u64

definition timing_zero :: analyzer_timing where
  "timing_zero = \<lparr> at_host_to_device = 0, at_kernel = 0, at_device_to_host = 0, at_transfer_inclusive = 0,
     at_queue_wait = 0 \<rparr>"

record 'd benchmark_result =
  br_backend :: string
  br_scenario :: string
  br_seed :: u64
  br_frame_size :: u64
  br_batch_size :: u64
  br_total :: u64
  br_completed :: u64
  br_received_packets :: u64
  br_received_bytes :: u64
  br_malformed :: u64
  br_broadcast :: u64
  br_unknown_unicast :: u64
  br_known_unicast :: u64
  br_elapsed_ns :: u64
  br_packets_per_second :: 'd
  br_goodput :: 'd
  br_loss :: 'd
  br_p50 :: u64
  br_p95 :: u64
  br_p99 :: u64
  br_timing :: analyzer_timing

definition scenario_text :: "traffic_scenario \<Rightarrow> string" where
  "scenario_text s =
     (case s of
        KnownUnicastTraffic \<Rightarrow> ''known-unicast''
      | BroadcastTraffic \<Rightarrow> ''broadcast''
      | UnknownUnicastTraffic \<Rightarrow> ''unknown-unicast''
      | Mixed \<Rightarrow> ''mixed-traffic''
      | UdpFlood \<Rightarrow> ''udp-flood''
      | PortScan \<Rightarrow> ''port-scan''
      | BroadcastStorm \<Rightarrow> ''broadcast-storm'')"

definition scenario_from_text :: "string \<Rightarrow> benchmark_error + traffic_scenario" where
  "scenario_from_text name =
     (if name = ''known-unicast'' then Inr KnownUnicastTraffic
      else if name = ''broadcast'' then Inr BroadcastTraffic
      else if name = ''unknown-unicast'' then Inr UnknownUnicastTraffic
      else if name = ''mixed-traffic'' then Inr Mixed
      else if name = ''udp-flood'' then Inr UdpFlood
      else if name = ''port-scan'' then Inr PortScan
      else if name = ''broadcast-storm'' then Inr BroadcastStorm
      else Inl UnknownScenario)"

lemma scenario_text_inverse [codec_simps]: "scenario_from_text (scenario_text s) = Inr s"
  by (cases s) (simp_all add: scenario_text_def scenario_from_text_def)

section \<open>Backends and sources\<close>

text \<open>A streaming analyzer takes a batch and answers later; \<open>st_collect\<close> is the loop over
  \<open>try_collect\<close>, which ends when the oldest batch is still running. An answer comes with what the
  \<open>timing\<close> function said when it was accounted, if the backend has one. These are the calls that return: an
  accelerated analyzer may also throw, which passes through the run, and who holds the run says what is left
  of it (\<open>Session_Report\<close>, \<open>Control_Server\<close>).\<close>

type_synonym answer = "analysis_batch \<times> analyzer_timing option"

record 'a streaming_operations =
  st_submit :: "packet_batch \<Rightarrow> 'a \<Rightarrow> 'a"
  st_collect :: "'a \<Rightarrow> answer list \<times> 'a"
  st_drain :: "'a \<Rightarrow> answer list \<times> 'a"

record 'a analyzer_operations =
  an_analyze :: "packet_batch \<Rightarrow> 'a \<Rightarrow> answer \<times> 'a"
  an_streaming :: "'a streaming_operations option"

text \<open>The analyzer of a backend may be missing, as may a source.\<close>

record 'a benchmark_backend =
  bb_operations :: "'a analyzer_operations"
  bb_analyzer :: "'a option"

type_synonym 'a backend_factory = "benchmark_config \<Rightarrow> benchmark_error + 'a benchmark_backend"
type_synonym batch_source = "u64 \<Rightarrow> nat \<Rightarrow> bytes list"
type_synonym source_factory = "benchmark_config \<Rightarrow> benchmark_error + batch_source option"

text \<open>The CPU analyzer. A read outside the batch does not occur (\<open>batch_agrees\<close>).\<close>

definition cpu_operations :: "mac_address set analyzer_operations" where
  "cpu_operations = \<lparr>
     an_analyze = (\<lambda>b learned. case analyze_batch b learned of
         None \<Rightarrow> ((empty_batch, None), learned)
       | Some (analysis, learned) \<Rightarrow> ((analysis, None), learned)),
     an_streaming = None \<rparr>"

definition cpu_benchmark_backend_factory :: "mac_address set backend_factory" where
  "cpu_benchmark_backend_factory config =
     (if bc_backend config \<noteq> ''cpu'' then Inl UnknownBackend
      else Inr \<lparr> bb_operations = cpu_operations, bb_analyzer = Some {} \<rparr>)"

definition cpu_fill :: "traffic_config \<Rightarrow> batch_source" where
  "cpu_fill config first n = map (\<lambda>i. write_traffic_frame config (first + of_nat i)) [0..<n]"

definition cpu_traffic_source_factory :: source_factory where
  "cpu_traffic_source_factory config =
     (if bc_generator config \<noteq> ''cpu'' then Inl UnknownBackend else Inr (Some (cpu_fill (bc_traffic config))))"

section \<open>Runs\<close>

record 'a bench_run =
  rn_config :: benchmark_config
  rn_source :: batch_source
  rn_operations :: "'a analyzer_operations"
  rn_analyzer :: 'a
  rn_latencies :: "u64 list"
  rn_timing :: analyzer_timing
  rn_completed :: nat
  rn_received_packets :: u64
  rn_received_bytes :: u64
  rn_malformed :: u64
  rn_broadcast :: u64
  rn_unknown_unicast :: u64
  rn_known_unicast :: u64
  rn_elapsed_ns :: u64

definition bench_config_ok :: "benchmark_config \<Rightarrow> bool" where
  "bench_config_ok c \<longleftrightarrow>
     bc_packet_count c \<noteq> 0 \<and> bc_batch_size c \<noteq> 0 \<and>
     ethernet_header_size \<le> tg_frame_size (bc_traffic c) \<and> tg_frame_size (bc_traffic c) \<le> MAX_BENCHMARK_FRAME_SIZE \<and>
     2 \<le> tg_host_count (bc_traffic c) \<and>
     bc_batch_size c \<le> 4294967295 div tg_frame_size (bc_traffic c)"

definition bench_create ::
    "benchmark_config \<Rightarrow> 'a backend_factory option \<Rightarrow> source_factory option \<Rightarrow> benchmark_error + 'a bench_run" where
  "bench_create config factory traffic =
     (if \<not> bench_config_ok config then Inl InvalidConfiguration
      else case (factory, traffic) of
        (Some factory, Some traffic) \<Rightarrow>
          (case factory config of
             Inl e \<Rightarrow> Inl e
           | Inr backend \<Rightarrow>
               (case bb_analyzer backend of
                  None \<Rightarrow> Inl BackendUnavailable
                | Some analyzer \<Rightarrow>
                    (case traffic config of
                       Inl e \<Rightarrow> Inl e
                     | Inr None \<Rightarrow> Inl BackendUnavailable
                     | Inr (Some source) \<Rightarrow>
                         Inr \<lparr> rn_config = config, rn_source = source, rn_operations = bb_operations backend,
                           rn_analyzer = analyzer, rn_latencies = [], rn_timing = timing_zero, rn_completed = 0,
                           rn_received_packets = 0, rn_received_bytes = 0, rn_malformed = 0, rn_broadcast = 0,
                           rn_unknown_unicast = 0, rn_known_unicast = 0, rn_elapsed_ns = 0 \<rparr>)))
      | _ \<Rightarrow> Inl InvalidConfiguration)"

definition add_timing :: "analyzer_timing \<Rightarrow> analyzer_timing \<Rightarrow> analyzer_timing" where
  "add_timing t s = \<lparr> at_host_to_device = at_host_to_device s + at_host_to_device t, at_kernel = at_kernel s + at_kernel t,
     at_device_to_host = at_device_to_host s + at_device_to_host t,
     at_transfer_inclusive = at_transfer_inclusive s + at_transfer_inclusive t,
     at_queue_wait = at_queue_wait s + at_queue_wait t \<rparr>"

definition bench_account :: "answer \<Rightarrow> 'a bench_run \<Rightarrow> 'a bench_run" where
  "bench_account a r =
     (let (analysis, timing) = a;
          r = r\<lparr> rn_received_packets := rn_received_packets r + ab_received_packets analysis,
                 rn_received_bytes := rn_received_bytes r + ab_received_bytes analysis,
                 rn_malformed := rn_malformed r + ab_malformed analysis,
                 rn_broadcast := rn_broadcast r + ab_broadcast analysis,
                 rn_unknown_unicast := rn_unknown_unicast r + ab_unknown_unicast analysis,
                 rn_known_unicast := rn_known_unicast r + ab_known_unicast analysis \<rparr>
      in case timing of
           None \<Rightarrow> r
         | Some t \<Rightarrow>
             let r = r\<lparr> rn_timing := add_timing t (rn_timing r) \<rparr>
             in if an_streaming (rn_operations r) \<noteq> None
                then r\<lparr> rn_latencies := rn_latencies r @ [at_transfer_inclusive t] \<rparr> else r)"

definition frame_views :: "bytes list \<Rightarrow> packet_view list" where
  "frame_views frames = map (\<lambda>f. \<lparr> pv_bytes = Some f, pv_size = length f, pv_ingress = 0 \<rparr>) frames"

text \<open>One batch that could be built; then the body of the loop, which also says whether the loop was left by
  \<open>break\<close> and how many packets it completed.\<close>

definition bench_analyze :: "u64 \<Rightarrow> packet_batch \<Rightarrow> 'a bench_run \<Rightarrow> 'a bench_run" where
  "bench_analyze spent b r =
     (case an_streaming (rn_operations r) of
        Some ops \<Rightarrow>
          let (answers, analyzer) = st_collect ops (st_submit ops b (rn_analyzer r))
          in fold bench_account answers (r\<lparr> rn_analyzer := analyzer \<rparr>)
      | None \<Rightarrow>
          let (answer, analyzer) = an_analyze (rn_operations r) b (rn_analyzer r)
          in bench_account answer (r\<lparr> rn_analyzer := analyzer, rn_latencies := rn_latencies r @ [spent] \<rparr>))"

definition bench_batch :: "(nat \<Rightarrow> u64) \<Rightarrow> 'a bench_run \<Rightarrow> bool \<times> nat \<times> 'a bench_run" where
  "bench_batch spent r =
     (let remaining = bc_packet_count (rn_config r) - rn_completed r;
          n = min (bc_batch_size (rn_config r)) remaining;
          views = frame_views (rn_source r (of_nat (rn_completed r)) n)
      in case batch_create (Some views) (length views) 0 of
           Inl _ \<Rightarrow> (True, 0, r\<lparr> rn_completed := bc_packet_count (rn_config r) \<rparr>)
         | Inr b \<Rightarrow>
             let r = bench_analyze (spent (rn_completed r)) b r
             in (False, n, r\<lparr> rn_completed := rn_completed r + n \<rparr>))"

partial_function (option) bench_loop ::
    "(nat \<Rightarrow> u64) \<Rightarrow> nat \<Rightarrow> nat \<Rightarrow> 'a bench_run \<Rightarrow> (nat \<times> 'a bench_run) option" where
  "bench_loop spent budget here r =
     (case bench_batch spent r of
        (left, n, r) \<Rightarrow>
          if left then Some (here, r)
          else if here + n < budget \<and> rn_completed r < bc_packet_count (rn_config r)
          then bench_loop spent budget (here + n) r
          else Some (here + n, r))"

definition bench_drain :: "'a bench_run \<Rightarrow> 'a bench_run" where
  "bench_drain r =
     (case an_streaming (rn_operations r) of
        Some ops \<Rightarrow>
          if rn_completed r \<ge> bc_packet_count (rn_config r)
          then let (answers, analyzer) = st_drain ops (rn_analyzer r)
               in fold bench_account answers (r\<lparr> rn_analyzer := analyzer \<rparr>)
          else r
      | None \<Rightarrow> r)"

definition bench_advance ::
    "(nat \<Rightarrow> u64) \<Rightarrow> u64 \<Rightarrow> nat \<Rightarrow> 'a bench_run \<Rightarrow> (nat \<times> 'a bench_run) option" where
  "bench_advance spent slice_ns budget r =
     (if budget = 0 \<or> rn_completed r \<ge> bc_packet_count (rn_config r) then Some (0, r)
      else map_option (\<lambda>(here, r). let r = bench_drain r in (here, r\<lparr> rn_elapsed_ns := rn_elapsed_ns r + slice_ns \<rparr>))
             (bench_loop spent budget 0 r))"

definition bench_finished :: "'a bench_run \<Rightarrow> bool" where
  "bench_finished r \<longleftrightarrow> rn_completed r \<ge> bc_packet_count (rn_config r)"

section \<open>Results\<close>

record 'd double_operations =
  db_of :: "u64 \<Rightarrow> 'd"
  db_literal :: "nat \<Rightarrow> 'd"
  db_times :: "'d \<Rightarrow> 'd \<Rightarrow> 'd"
  db_divide :: "'d \<Rightarrow> 'd \<Rightarrow> 'd"
  db_equal :: "'d \<Rightarrow> 'd \<Rightarrow> bool"
  db_finite :: "'d \<Rightarrow> bool"
  db_fixed6 :: "'d \<Rightarrow> string"

definition percentile :: "u64 list \<Rightarrow> nat \<Rightarrow> nat \<Rightarrow> u64 option" where
  "percentile latencies numerator denominator =
     (if latencies = [] then Some 0
      else let i = (length latencies * numerator + denominator - 1) div denominator - 1
           in if i < length latencies then Some (latencies ! i) else None)"

definition bench_result :: "'d double_operations \<Rightarrow> 'a bench_run \<Rightarrow> 'd benchmark_result" where
  "bench_result d r =
     (let latencies = std_sort (<) (rn_latencies r);
          elapsed = db_divide d (db_of d (rn_elapsed_ns r)) (db_literal d 1000000000);
          zero = db_literal d 0;
          still = db_equal d elapsed zero
      in \<lparr> br_backend = bc_backend (rn_config r), br_scenario = scenario_text (tg_scenario (bc_traffic (rn_config r))),
           br_seed = tg_seed (bc_traffic (rn_config r)), br_frame_size = of_nat (tg_frame_size (bc_traffic (rn_config r))),
           br_batch_size = of_nat (bc_batch_size (rn_config r)), br_total = of_nat (bc_packet_count (rn_config r)),
           br_completed = of_nat (rn_completed r), br_received_packets = rn_received_packets r,
           br_received_bytes = rn_received_bytes r, br_malformed = rn_malformed r, br_broadcast = rn_broadcast r,
           br_unknown_unicast = rn_unknown_unicast r, br_known_unicast = rn_known_unicast r,
           br_elapsed_ns = rn_elapsed_ns r,
           br_packets_per_second = (if still then zero else db_divide d (db_of d (rn_received_packets r)) elapsed),
           br_goodput = (if still then zero
             else db_divide d (db_times d (db_of d (rn_received_bytes r)) (db_literal d 8)) elapsed),
           br_loss = (if rn_received_packets r = 0 then zero
             else db_divide d (db_times d (db_of d (rn_malformed r)) (db_literal d 100)) (db_of d (rn_received_packets r))),
           br_p50 = (case percentile latencies 50 100 of None \<Rightarrow> 0 | Some v \<Rightarrow> v),
           br_p95 = (case percentile latencies 95 100 of None \<Rightarrow> 0 | Some v \<Rightarrow> v),
           br_p99 = (case percentile latencies 99 100 of None \<Rightarrow> 0 | Some v \<Rightarrow> v),
           br_timing = rn_timing r \<rparr>)"

section \<open>Runs end, however they are sliced\<close>

lemma bench_account_keeps [simp]:
  "rn_config (bench_account a r) = rn_config r" "rn_completed (bench_account a r) = rn_completed r"
  "rn_source (bench_account a r) = rn_source r" "rn_operations (bench_account a r) = rn_operations r"
  "rn_elapsed_ns (bench_account a r) = rn_elapsed_ns r"
  by (simp_all add: bench_account_def Let_def split: prod.split option.split)

lemma fold_account_keeps [simp]:
  "rn_config (fold bench_account as r) = rn_config r" "rn_completed (fold bench_account as r) = rn_completed r"
  "rn_source (fold bench_account as r) = rn_source r" "rn_operations (fold bench_account as r) = rn_operations r"
  "rn_elapsed_ns (fold bench_account as r) = rn_elapsed_ns r"
  by (induction as arbitrary: r) simp_all

lemma bench_analyze_keeps [simp]:
  "rn_config (bench_analyze t b r) = rn_config r" "rn_completed (bench_analyze t b r) = rn_completed r"
  "rn_source (bench_analyze t b r) = rn_source r" "rn_operations (bench_analyze t b r) = rn_operations r"
  "rn_elapsed_ns (bench_analyze t b r) = rn_elapsed_ns r"
  by (simp_all add: bench_analyze_def Let_def split: prod.split option.split)

lemma bench_drain_keeps [simp]:
  "rn_config (bench_drain r) = rn_config r" "rn_completed (bench_drain r) = rn_completed r"
  "rn_source (bench_drain r) = rn_source r" "rn_operations (bench_drain r) = rn_operations r"
  by (simp_all add: bench_drain_def Let_def split: prod.split option.split)

text \<open>The next state of the loop, and the state at the end of a run.\<close>

abbreviation next_batch :: "(nat \<Rightarrow> u64) \<Rightarrow> 'a bench_run \<Rightarrow> 'a bench_run" where
  "next_batch spent r \<equiv> snd (snd (bench_batch spent r))"

lemma bench_batch_keeps [simp]:
  "rn_config (next_batch spent r) = rn_config r" "rn_source (next_batch spent r) = rn_source r"
  "rn_operations (next_batch spent r) = rn_operations r"
  by (simp_all add: bench_batch_def Let_def split: sum.split)

lemma bench_batch_progress:
  assumes "rn_completed r < bc_packet_count (rn_config r)" and "bc_batch_size (rn_config r) \<noteq> 0"
  shows "rn_completed r < rn_completed (next_batch spent r)"
    and "rn_completed (next_batch spent r) \<le> bc_packet_count (rn_config r)"
    and "fst (bench_batch spent r) \<Longrightarrow> bench_finished (next_batch spent r)"
    and "\<not> fst (bench_batch spent r) \<Longrightarrow>
      rn_completed (next_batch spent r) = rn_completed r + fst (snd (bench_batch spent r))"
  using assms by (auto simp: bench_batch_def Let_def bench_finished_def split: sum.split)

function run_out :: "(nat \<Rightarrow> u64) \<Rightarrow> 'a bench_run \<Rightarrow> 'a bench_run" where
  "run_out spent r =
     (if rn_completed r < bc_packet_count (rn_config r) \<and> bc_batch_size (rn_config r) \<noteq> 0
      then run_out spent (next_batch spent r) else r)"
  by pat_completeness auto
termination
proof (relation "measure (\<lambda>(spent, r). bc_packet_count (rn_config r) - rn_completed r)")
  fix spent and r :: "'b bench_run"
  assume "rn_completed r < bc_packet_count (rn_config r) \<and> bc_batch_size (rn_config r) \<noteq> 0"
  then show "((spent, next_batch spent r), spent, r) \<in> measure (\<lambda>(spent, r). bc_packet_count (rn_config r) - rn_completed r)"
    using bench_batch_progress(1) [of r spent] by (simp add: diff_less_mono2)
qed simp

declare run_out.simps [simp del]

lemma run_out_finished: "bench_finished r \<Longrightarrow> run_out spent r = r"
  by (subst run_out.simps) (simp add: bench_finished_def)

lemma bench_loop_returns:
  assumes "rn_completed r < bc_packet_count (rn_config r)" and "bc_batch_size (rn_config r) \<noteq> 0"
  shows "\<exists>h r'. bench_loop spent budget here r = Some (h, r') \<and> rn_config r' = rn_config r \<and>
    rn_operations r' = rn_operations r \<and> rn_source r' = rn_source r \<and>
    rn_completed r < rn_completed r' \<and> rn_completed r' \<le> bc_packet_count (rn_config r) \<and>
    run_out spent r' = run_out spent r \<and> (bench_finished r' \<or> budget \<le> h)"
  using assms
proof (induction spent r arbitrary: here rule: run_out.induct)
  case (1 spent r)
  obtain left n r1 where batch: "bench_batch spent r = (left, n, r1)" by (cases "bench_batch spent r")
  note progress = bench_batch_progress [OF "1.prems", of spent, unfolded batch]
  have same: "rn_config r1 = rn_config r" "rn_source r1 = rn_source r" "rn_operations r1 = rn_operations r"
    using bench_batch_keeps [of spent r] by (simp_all add: batch)
  have out: "run_out spent r = run_out spent r1"
    using "1.prems" by (subst run_out.simps) (simp add: batch)
  show ?case
  proof (cases "\<not> left \<and> here + n < budget \<and> rn_completed r1 < bc_packet_count (rn_config r1)")
    case True
    have "\<exists>h r'. bench_loop spent budget (here + n) r1 = Some (h, r') \<and> rn_config r' = rn_config r1 \<and>
        rn_operations r' = rn_operations r1 \<and> rn_source r' = rn_source r1 \<and>
        rn_completed r1 < rn_completed r' \<and> rn_completed r' \<le> bc_packet_count (rn_config r1) \<and>
        run_out spent r' = run_out spent r1 \<and> (bench_finished r' \<or> budget \<le> h)"
      using "1.IH" [of "here + n"] "1.prems" True same by (simp add: batch)
    moreover have "bench_loop spent budget here r = bench_loop spent budget (here + n) r1"
      using True by (subst bench_loop.simps) (simp add: batch)
    ultimately show ?thesis using progress same out by fastforce
  next
    case False
    then have "bench_loop spent budget here r = Some (if left then here else here + n, r1)"
      by (subst bench_loop.simps) (auto simp: batch)
    moreover have "bench_finished r1 \<or> budget \<le> here + n \<and> \<not> left"
      using False progress(3) by (auto simp: bench_finished_def)
    ultimately show ?thesis using progress same out by auto
  qed
qed

lemma bench_advance_returns:
  assumes "bc_batch_size (rn_config r) \<noteq> 0"
  shows "\<exists>h r'. bench_advance spent t budget r = Some (h, r') \<and> rn_config r' = rn_config r \<and>
    rn_operations r' = rn_operations r \<and> rn_source r' = rn_source r"
  using bench_loop_returns [OF _ assms, of spent budget 0]
  by (fastforce simp: bench_advance_def Let_def not_le)

text \<open>A caller that drives a run in slices of some budgets and lengths.\<close>

fun bench_slices :: "(nat \<Rightarrow> u64) \<Rightarrow> (nat \<times> u64) list \<Rightarrow> 'a bench_run \<Rightarrow> 'a bench_run option" where
  "bench_slices spent [] r = Some r"
| "bench_slices spent ((budget, t) # slices) r =
     Option.bind (bench_advance spent t budget r) (\<lambda>(_, r). bench_slices spent slices r)"

lemma bench_slices_config:
  "bc_batch_size (rn_config r) \<noteq> 0 \<Longrightarrow> bench_slices spent slices r = Some r' \<Longrightarrow> rn_config r' = rn_config r"
proof (induction slices arbitrary: r)
  case (Cons slice slices)
  obtain budget t where slice: "slice = (budget, t)" by (cases slice)
  from bench_advance_returns [OF Cons.prems(1), of spent t budget] obtain h r1 where
    "bench_advance spent t budget r = Some (h, r1)" "rn_config r1 = rn_config r" by blast
  then show ?case using Cons.IH [of r1] Cons.prems by (simp add: slice)
qed simp

text \<open>A configuration for the witnesses: two frames of 60 bytes, one by one.\<close>

definition example_config :: benchmark_config where
  "example_config = \<lparr> bc_traffic = \<lparr> tg_scenario = Mixed, tg_seed = 7, tg_frame_size = 60, tg_host_count = 4 \<rparr>,
     bc_packet_count = 2, bc_batch_size = 1, bc_backend = ''cpu'', bc_generator = ''cpu'' \<rparr>"

lemma example_create:
  "\<exists>r. bench_create example_config (Some cpu_benchmark_backend_factory) (Some cpu_traffic_source_factory) = Inr r \<and>
    rn_config r = example_config \<and> rn_completed r = 0"
  by (simp add: bench_create_def example_config_def bench_config_ok_def ethernet_header_size_def
      MAX_BENCHMARK_FRAME_SIZE_def cpu_benchmark_backend_factory_def cpu_traffic_source_factory_def)

lemma example_slices:
  assumes "rn_config r = example_config" and "rn_completed r = 0" and "0 < n" and "0 < m"
  shows "\<exists>r'. bench_slices spent [(n, t), (m, u)] r = Some r' \<and> bench_finished r'"
proof -
  have progress: "\<exists>h r'. bench_advance spent t k r = Some (h, r') \<and> rn_config r' = example_config \<and>
      (bench_finished r' \<or> rn_completed r < rn_completed r')" if "rn_config r = example_config" "0 < k"
    for k t and r :: "'a bench_run"
  proof (cases "bench_finished r")
    case True
    then show ?thesis using that by (auto simp: bench_advance_def bench_finished_def)
  next
    case False
    then have "rn_completed r < bc_packet_count (rn_config r)" by (simp add: bench_finished_def)
    moreover have "bc_batch_size (rn_config r) \<noteq> 0" using that by (simp add: example_config_def)
    ultimately obtain h r1 where "bench_loop spent k 0 r = Some (h, r1)" "rn_config r1 = rn_config r"
      "rn_completed r < rn_completed r1" using bench_loop_returns by blast
    then show ?thesis using that False by (auto simp: bench_advance_def bench_finished_def Let_def)
  qed
  obtain h1 r1 where 1: "bench_advance spent t n r = Some (h1, r1)" "rn_config r1 = example_config"
    "bench_finished r1 \<or> rn_completed r < rn_completed r1" using progress [OF assms(1,3)] by blast
  obtain h2 r2 where 2: "bench_advance spent u m r1 = Some (h2, r2)" "rn_config r2 = example_config"
    "bench_finished r2 \<or> rn_completed r1 < rn_completed r2" using progress [OF 1(2) assms(4)] by blast
  have "rn_completed r1 \<le> rn_completed r2"
    using 2(3) 2(1) by (cases "bench_finished r1") (auto simp: bench_advance_def bench_finished_def 1(2) 2(2))
  then have "bench_finished r2"
    using 1(3) 2(3) assms(2) by (auto simp: bench_finished_def 1(2) 2(2) example_config_def)
  then show ?thesis using 1(1) 2(1) by simp
qed

text \<open>A slice of a benchmark always returns, for every configuration \<open>create\<close> accepts, every analyzer and
  every packet source: it never runs past the packets of the run, and with a non-zero budget on an
  unfinished run it completes at least one more packet.\<close>

theorem benchmark_slice_returns:
  assumes "bench_create config factory traffic = Inr r0"
    and "rn_config r = rn_config r0"
  shows "\<exists>h r'. bench_advance spent t budget r = Some (h, r') \<and> rn_config r' = rn_config r \<and>
    (rn_completed r \<le> bc_packet_count config \<longrightarrow> rn_completed r' \<le> bc_packet_count config) \<and>
    (0 < budget \<and> \<not> bench_finished r \<longrightarrow> rn_completed r < rn_completed r')"
proof -
  have config: "rn_config r = config" "bc_batch_size (rn_config r) \<noteq> 0"
    using assms by (auto simp: bench_create_def bench_config_ok_def split: if_splits option.splits sum.splits)
  show ?thesis
  proof (cases "budget = 0 \<or> bench_finished r")
    case True
    then show ?thesis by (auto simp: bench_advance_def bench_finished_def)
  next
    case False
    then have "rn_completed r < bc_packet_count (rn_config r)" by (simp add: bench_finished_def)
    from bench_loop_returns [OF this config(2), of spent budget 0] obtain h r1 where
      loop: "bench_loop spent budget 0 r = Some (h, r1)" "rn_config r1 = rn_config r"
      "rn_completed r < rn_completed r1" "rn_completed r1 \<le> bc_packet_count (rn_config r)"
      by blast
    have "bench_advance spent t budget r =
        Some (h, (bench_drain r1)\<lparr> rn_elapsed_ns := rn_elapsed_ns (bench_drain r1) + t \<rparr>)"
      using False by (simp add: bench_advance_def Let_def loop(1) bench_finished_def)
    then show ?thesis using loop(2-4) by (simp add: config(1))
  qed
qed

theorem benchmark_slice_returns_witness:
  "\<exists>r0 h r'. bench_create example_config (Some cpu_benchmark_backend_factory) (Some cpu_traffic_source_factory) = Inr r0 \<and>
    bench_advance (\<lambda>_. 3) 5 1 r0 = Some (h, r') \<and> 0 < rn_completed r'"
proof -
  from example_create obtain r0 where
    r0: "bench_create example_config (Some cpu_benchmark_backend_factory) (Some cpu_traffic_source_factory) = Inr r0"
    "rn_config r0 = example_config" "rn_completed r0 = 0" by blast
  from benchmark_slice_returns [OF r0(1) refl, of "\<lambda>_. 3" 5 1] r0 show ?thesis
    by (auto simp: bench_finished_def example_config_def)
qed

subsection \<open>Slicing\<close>

text \<open>The result of a run as it will be: the run itself once finished, and otherwise what is left to do done,
  the time spent aside.\<close>

definition untimed :: "'a bench_run \<Rightarrow> 'a bench_run" where
  "untimed r = r\<lparr> rn_elapsed_ns := 0 \<rparr>"

definition settled :: "(nat \<Rightarrow> u64) \<Rightarrow> 'a bench_run \<Rightarrow> 'a bench_run" where
  "settled spent r = untimed (if bench_finished r then r else bench_drain (run_out spent r))"

lemma account_elapsed: "bench_account a (r\<lparr> rn_elapsed_ns := e \<rparr>) = (bench_account a r)\<lparr> rn_elapsed_ns := e \<rparr>"
  by (simp add: bench_account_def Let_def split: prod.split option.split)

lemma fold_account_elapsed:
  "fold bench_account as (r\<lparr> rn_elapsed_ns := e \<rparr>) = (fold bench_account as r)\<lparr> rn_elapsed_ns := e \<rparr>"
  by (induction as arbitrary: r) (simp_all add: account_elapsed)

lemma analyze_elapsed:
  "bench_analyze t b (r\<lparr> rn_elapsed_ns := e \<rparr>) = (bench_analyze t b r)\<lparr> rn_elapsed_ns := e \<rparr>"
proof -
  have swap: "s\<lparr> rn_elapsed_ns := e, rn_analyzer := a \<rparr> = s\<lparr> rn_analyzer := a \<rparr>\<lparr> rn_elapsed_ns := e \<rparr>"
    "s\<lparr> rn_elapsed_ns := e, rn_latencies := l \<rparr> = s\<lparr> rn_latencies := l \<rparr>\<lparr> rn_elapsed_ns := e \<rparr>"
    for a l and s :: "'a bench_run" by simp_all
  show ?thesis
    by (simp add: bench_analyze_def Let_def swap fold_account_elapsed account_elapsed del: bench_run.update_convs
        split: prod.split option.split)
qed

lemma next_batch_elapsed:
  "next_batch spent (r\<lparr> rn_elapsed_ns := e \<rparr>) = (next_batch spent r)\<lparr> rn_elapsed_ns := e \<rparr>"
  by (simp add: bench_batch_def Let_def analyze_elapsed split: sum.split)

lemma run_out_elapsed: "run_out spent (r\<lparr> rn_elapsed_ns := e \<rparr>) = (run_out spent r)\<lparr> rn_elapsed_ns := e \<rparr>"
proof (induction spent r rule: run_out.induct)
  case (1 spent r)
  then show ?case
    by (subst (1 2) run_out.simps) (simp add: next_batch_elapsed)
qed

lemma drain_elapsed: "bench_drain (r\<lparr> rn_elapsed_ns := e \<rparr>) = (bench_drain r)\<lparr> rn_elapsed_ns := e \<rparr>"
proof -
  have swap: "r\<lparr> rn_elapsed_ns := e, rn_analyzer := a \<rparr> = r\<lparr> rn_analyzer := a \<rparr>\<lparr> rn_elapsed_ns := e \<rparr>" for a by simp
  show ?thesis
    by (simp add: bench_drain_def Let_def swap fold_account_elapsed del: bench_run.update_convs
        split: prod.split option.split)
qed

lemma settled_advance:
  assumes "bc_batch_size (rn_config r) \<noteq> 0" and "bench_advance spent t budget r = Some (h, r')"
  shows "settled spent r' = settled spent r"
proof (cases "budget = 0 \<or> bench_finished r")
  case True
  then show ?thesis using assms(2) by (auto simp: bench_advance_def bench_finished_def)
next
  case False
  then have unfinished: "rn_completed r < bc_packet_count (rn_config r)" by (simp add: bench_finished_def)
  from bench_loop_returns [OF this assms(1), of spent budget 0] obtain h1 r1 where
    loop: "bench_loop spent budget 0 r = Some (h1, r1)" "rn_config r1 = rn_config r" "run_out spent r1 = run_out spent r"
    by blast
  have r': "r' = (bench_drain r1)\<lparr> rn_elapsed_ns := rn_elapsed_ns (bench_drain r1) + t \<rparr>"
    using assms(2) False by (auto simp: bench_advance_def Let_def loop(1) bench_finished_def)
  show ?thesis
  proof (cases "bench_finished r1")
    case True
    then have "bench_finished r'" by (simp add: r' bench_finished_def)
    then show ?thesis
      using True loop(3) False by (simp add: settled_def untimed_def r' run_out_finished)
  next
    case unfinished1: False
    then have "bench_drain r1 = r1" by (auto simp: bench_drain_def bench_finished_def split: option.split)
    then show ?thesis
      using unfinished1 False loop(3)
      by (simp add: settled_def untimed_def r' bench_finished_def run_out_elapsed drain_elapsed)
  qed
qed

lemma settled_slices:
  assumes "bc_batch_size (rn_config r) \<noteq> 0" and "bench_slices spent slices r = Some r'"
  shows "settled spent r' = settled spent r"
  using assms
proof (induction slices arbitrary: r)
  case (Cons slice slices)
  obtain budget t where slice: "slice = (budget, t)" by (cases slice)
  from bench_advance_returns [OF Cons.prems(1), of spent t budget] obtain h r1 where
    step: "bench_advance spent t budget r = Some (h, r1)" "rn_config r1 = rn_config r" by blast
  then have "settled spent r' = settled spent r1"
    using Cons by (simp add: slice)
  then show ?case using settled_advance [OF Cons.prems(1) step(1)] by simp
qed simp

text \<open>C34. How a benchmark is sliced does not change what it measures: two ways of driving the same run to its
  end, with any budgets, leave the same counters, latencies, timing and analyzer state. Only the
  total elapsed time differs.\<close>

theorem slicing_changes_nothing:
  assumes "bench_create config factory traffic = Inr r"
    and "bench_slices spent slices1 r = Some r1" and "bench_finished r1"
    and "bench_slices spent slices2 r = Some r2" and "bench_finished r2"
  shows "r1\<lparr> rn_elapsed_ns := 0 \<rparr> = r2\<lparr> rn_elapsed_ns := 0 \<rparr>"
proof -
  have "bc_batch_size (rn_config r) \<noteq> 0"
    using assms(1) by (auto simp: bench_create_def bench_config_ok_def split: if_splits option.splits sum.splits)
  from settled_slices [OF this assms(2)] settled_slices [OF this assms(4)] show ?thesis
    using assms(3,5) by (simp add: settled_def untimed_def)
qed

theorem slicing_changes_nothing_witness:
  "\<exists>r r1 r2. bench_create example_config (Some cpu_benchmark_backend_factory) (Some cpu_traffic_source_factory) = Inr r \<and>
    bench_slices (\<lambda>_. 3) [(1, 5), (1, 6)] r = Some r1 \<and> bench_slices (\<lambda>_. 3) [(2, 9), (4, 0)] r = Some r2 \<and>
    r1\<lparr> rn_elapsed_ns := 0 \<rparr> = r2\<lparr> rn_elapsed_ns := 0 \<rparr>"
proof -
  from example_create obtain r where
    r: "bench_create example_config (Some cpu_benchmark_backend_factory) (Some cpu_traffic_source_factory) = Inr r"
    "rn_config r = example_config" "rn_completed r = 0" by blast
  obtain r1 where r1: "bench_slices (\<lambda>_. 3) [(1, 5), (1, 6)] r = Some r1" "bench_finished r1"
    using example_slices [OF r(2,3), of 1 1 "\<lambda>_. 3" 5 6] by auto
  obtain r2 where r2: "bench_slices (\<lambda>_. 3) [(2, 9), (4, 0)] r = Some r2" "bench_finished r2"
    using example_slices [OF r(2,3), of 2 4 "\<lambda>_. 3" 9 0] by auto
  from slicing_changes_nothing [OF r(1) r1 r2] r(1) r1(1) r2(1) show ?thesis by blast
qed

section \<open>What a run counts\<close>

text \<open>The contract of a synchronous analyzer: it counts the packets and the bytes of the batch it was given.\<close>

locale counting_analyzer =
  fixes ops :: "'a analyzer_operations"
  assumes synchronous: "an_streaming ops = None"
    and counts: "\<forall>v \<in> set vs. view_ok v \<Longrightarrow> batch_create (Some vs) (length vs) ts = Inr b \<Longrightarrow>
      an_analyze ops b a = ((analysis, t), a') \<Longrightarrow>
      ab_received_packets analysis = of_nat (length vs) \<and> ab_received_bytes analysis = sum_list (view_lengths vs)"
begin

definition counted :: "benchmark_config \<Rightarrow> 'a bench_run \<Rightarrow> bool" where
  "counted config r \<longleftrightarrow> rn_config r = config \<and> rn_operations r = ops \<and> rn_source r = cpu_fill (bc_traffic config) \<and>
     rn_completed r \<le> bc_packet_count config \<and> rn_received_packets r = of_nat (rn_completed r) \<and>
     rn_received_bytes r = of_nat (rn_completed r * tg_frame_size (bc_traffic config))"

lemma counted_batch:
  assumes config: "bench_config_ok config" and r: "counted config r"
  shows "counted config (next_batch spent r) \<and> \<not> fst (bench_batch spent r)"
proof -
  let ?size = "tg_frame_size (bc_traffic config)"
  define n where "n = min (bc_batch_size config) (bc_packet_count config - rn_completed r)"
  define vs where "vs = frame_views (cpu_fill (bc_traffic config) (of_nat (rn_completed r)) n)"
  have sizes: "\<forall>v \<in> set vs. view_ok v \<and> pv_size v = ?size \<and> pv_bytes v \<noteq> None" and len: "length vs = n"
    using length_traffic_frame [of "bc_traffic config"] config
    by (auto simp: vs_def frame_views_def cpu_fill_def view_ok_def bench_config_ok_def traffic_frame_def)
  have small: "?size \<le> 65535" using config by (simp add: bench_config_ok_def MAX_BENCHMARK_FRAME_SIZE_def)
  have "map pv_size vs = replicate n ?size" using sizes len by (intro nth_equalityI) simp_all
  then have total: "sum_list (map pv_size vs) = n * ?size" by (simp add: sum_list_replicate)
  have "n \<le> 4294967295 div ?size" 
    using config by (auto simp: n_def bench_config_ok_def intro: min.coboundedI1)
  then have "n * ?size \<le> 4294967295 div ?size * ?size" by (rule mult_le_mono1)
  also have "\<dots> \<le> 4294967295" by simp
  finally have fits: "sum_list (map pv_size vs) \<le> 4294967295" by (simp add: total)
  have ok: "\<forall>v \<in> set vs. view_ok v" using sizes by blast
  obtain b where b: "batch_create (Some vs) (length vs) 0 = Inr b"
    using create_loop_accepts [OF batch_ok_empty ok, of 0] sizes small fits by (auto simp: batch_create_def)
  obtain analysis t a' where a: "an_analyze ops b (rn_analyzer r) = ((analysis, t), a')" by (metis prod.collapse)
  have "view_lengths vs = replicate n (of_nat ?size)"
    using sizes len by (intro nth_equalityI) (simp_all add: view_lengths_def)
  then have bytes: "sum_list (view_lengths vs) = of_nat (n * ?size)" by (simp add: sum_list_replicate)
  have "\<not> fst (bench_batch spent r)" and
    "rn_completed (next_batch spent r) = rn_completed r + n" and
    "rn_received_packets (next_batch spent r) = rn_received_packets r + of_nat n" and
    "rn_received_bytes (next_batch spent r) = rn_received_bytes r + of_nat (n * ?size)"
    using r b a counts [OF ok b a] synchronous bytes len
    by (auto simp: bench_batch_def Let_def counted_def n_def [symmetric] vs_def [symmetric] bench_analyze_def
        bench_account_def simp del: of_nat_mult split: option.split)
  then show ?thesis
    using r by (auto simp: counted_def algebra_simps n_def)
qed

lemma counted_loop:
  assumes "bench_config_ok config" and "counted config r" and "bench_loop spent budget here r = Some (h, r')"
    and "rn_completed r < bc_packet_count config"
  shows "counted config r' \<and> h = here + (rn_completed r' - rn_completed r)"
  using assms(2-)
proof (induction spent r arbitrary: here h rule: run_out.induct)
  case (1 spent r)
  obtain left n r1 where batch: "bench_batch spent r = (left, n, r1)" by (cases "bench_batch spent r")
  have r1: "counted config r1" "\<not> left"
    using counted_batch [OF assms(1) "1.prems"(1), of spent] by (simp_all add: batch)
  have config: "rn_config r = config" "rn_config r1 = config" "bc_batch_size config \<noteq> 0"
    using "1.prems"(1) r1 assms(1) by (simp_all add: counted_def bench_config_ok_def)
  have n: "rn_completed r1 = rn_completed r + n"
    using bench_batch_progress(4) [of r spent] "1.prems"(3) r1(2) config by (simp add: batch)
  show ?case
  proof (cases "here + n < budget \<and> rn_completed r1 < bc_packet_count config")
    case True
    then have "bench_loop spent budget (here + n) r1 = Some (h, r')"
      using "1.prems"(2) r1(2) by (subst (asm) bench_loop.simps) (simp add: batch config)
    then have "counted config r' \<and> h = here + n + (rn_completed r' - rn_completed r1)"
      using "1.IH" [of "here + n" h] r1(1) True "1.prems"(3) config by (simp add: batch)
    moreover have "rn_completed r1 \<le> rn_completed r'"
      using bench_loop_returns [of r1 spent budget "here + n"] True config
        \<open>bench_loop spent budget (here + n) r1 = Some (h, r')\<close> by auto
    ultimately show ?thesis using n by auto
  next
    case False
    then have "r' = r1" "h = here + n"
      using "1.prems"(2) r1(2) by (subst (asm) bench_loop.simps, auto simp: batch config)+
    then show ?thesis using r1 n by simp
  qed
qed

lemma counted_advance:
  assumes "bench_config_ok config" and "counted config r" and "bench_advance spent t budget r = Some (h, r')"
  shows "counted config r' \<and> h = rn_completed r' - rn_completed r"
proof (cases "budget = 0 \<or> bc_packet_count config \<le> rn_completed r")
  case True
  then show ?thesis using assms by (auto simp: bench_advance_def counted_def)
next
  case False
  then obtain r1 where loop: "bench_loop spent budget 0 r = Some (h, r1)"
    and r': "r' = (bench_drain r1)\<lparr> rn_elapsed_ns := rn_elapsed_ns (bench_drain r1) + t \<rparr>"
    using assms(2,3) by (auto simp: bench_advance_def counted_def Let_def)
  have "counted config r1 \<and> h = rn_completed r1 - rn_completed r"
    using counted_loop [OF assms(1,2) loop] False by simp
  then show ?thesis using synchronous by (simp add: r' counted_def bench_drain_def)
qed

lemma counted_slices:
  assumes "bench_config_ok config"
  shows "counted config r \<Longrightarrow> bench_slices spent slices r = Some r' \<Longrightarrow> counted config r'"
proof (induction slices arbitrary: r)
  case (Cons slice slices)
  then show ?case
    using counted_advance [OF assms Cons.prems(1)] by (cases slice) (fastforce simp: bind_eq_Some_conv)
qed simp

end

interpretation cpu: counting_analyzer cpu_operations
proof
  show "an_streaming cpu_operations = None" by (simp add: cpu_operations_def)
next
  fix vs ts b a analysis t a'
  assume ok: "\<forall>v \<in> set vs. view_ok v" and b: "batch_create (Some vs) (length vs) ts = Inr b"
    and a: "an_analyze cpu_operations b a = ((analysis, t), a')"
  from batch_agrees [OF ok b, of a] have "analyze_views vs a = Some (analysis, a')"
    using a by (auto simp: cpu_operations_def)
  then show "ab_received_packets analysis = of_nat (length vs) \<and> ab_received_bytes analysis = sum_list (view_lengths vs)"
    using views_counters [OF ok] by simp
qed

text \<open>A CPU benchmark accounts for every packet it says it completed, at any point of the run and for any
  slicing: packets and bytes received are exactly the packets completed.\<close>

theorem benchmark_counts_exact:
  assumes "bench_create config (Some cpu_benchmark_backend_factory) (Some cpu_traffic_source_factory) = Inr r"
    and "bench_slices spent slices r = Some r'"
  shows "rn_received_packets r' = of_nat (rn_completed r') \<and>
    rn_received_bytes r' = of_nat (rn_completed r' * tg_frame_size (bc_traffic config)) \<and>
    rn_completed r' \<le> bc_packet_count config"
proof -
  have "bench_config_ok config" "cpu.counted config r"
    using assms(1)
    by (auto simp: bench_create_def cpu_benchmark_backend_factory_def cpu_traffic_source_factory_def
        cpu.counted_def split: if_splits)
  from cpu.counted_slices [OF this assms(2)] show ?thesis by (simp add: cpu.counted_def)
qed

theorem benchmark_counts_exact_witness:
  "\<exists>r r'. bench_create example_config (Some cpu_benchmark_backend_factory) (Some cpu_traffic_source_factory) = Inr r \<and>
    bench_slices (\<lambda>_. 3) [(1, 5), (1, 6)] r = Some r' \<and> bench_finished r' \<and> rn_received_bytes r' = 120"
proof -
  from example_create obtain r where
    r: "bench_create example_config (Some cpu_benchmark_backend_factory) (Some cpu_traffic_source_factory) = Inr r"
    "rn_config r = example_config" "rn_completed r = 0" by blast
  obtain r' where r': "bench_slices (\<lambda>_. 3) [(1, 5), (1, 6)] r = Some r'" "bench_finished r'"
    using example_slices [OF r(2,3), of 1 1 "\<lambda>_. 3" 5 6] by auto
  have "rn_config r' = example_config"
    using bench_slices_config [OF _ r'(1)] r(2) by (simp add: example_config_def)
  then have "rn_completed r' = 2"
    using benchmark_counts_exact [OF r(1) r'(1)] r'(2) by (simp add: bench_finished_def example_config_def)
  with benchmark_counts_exact [OF r(1) r'(1)] r(1) r' show ?thesis
    by (auto simp: example_config_def)
qed

section \<open>Percentiles\<close>

lemma length_filter_std_sort: "length (filter P (std_sort lt xs)) = length (filter P xs)"
  by (metis mset_filter mset_std_sort size_mset)

lemma ceiling_index:
  assumes "0 < (n :: nat)" and "0 < num" and "num \<le> den"
  defines "i \<equiv> (n * num + den - 1) div den - 1"
  shows "i < n" and "n * num \<le> den * (i + 1)" and "den * i < n * num"
proof -
  define q where "q = (n * num + den - 1) div den"
  have pos: "0 < den" "0 < n * num" using assms(1-3) by simp_all
  have split: "n * num + den - 1 = den * q + (n * num + den - 1) mod den" by (simp add: q_def)
  have rest: "(n * num + den - 1) mod den < den" using pos by simp
  have low: "n * num \<le> den * q" using split rest pos by linarith
  have high: "den * q \<le> n * num + den - 1" using split by linarith
  have "q \<noteq> 0" using low pos by (metis leD mult_0_right)
  then have q: "q = i + 1" unfolding i_def q_def [symmetric] by simp
  show "n * num \<le> den * (i + 1)" using low by (simp add: q)
  show "den * i < n * num" using high pos by (simp add: q)
  have "n * num \<le> n * den" using assms(3) by simp
  with \<open>den * i < n * num\<close> have "den * i < n * den" by (rule less_le_trans)
  then have "den * i < den * n" by (simp only: mult.commute [of n])
  then show "i < n" by simp
qed

text \<open>The latency percentiles are nearest-rank percentiles and their index never leaves the vector: for a
  non-empty list of measurements the value is one of them, at least the wanted share of the
  measurements is no larger, and less than that share is smaller.\<close>

theorem percentile_nearest_rank:
  assumes "xs \<noteq> []" and "0 < num" and "num \<le> den"
  shows "\<exists>v \<in> set xs. percentile (std_sort (<) xs) num den = Some v \<and>
    num * length xs \<le> den * length (filter (\<lambda>x. x \<le> v) xs) \<and>
    den * length (filter (\<lambda>x. x < v) xs) < num * length xs"
proof -
  have order: "strict_weak_order ((<) :: u64 \<Rightarrow> u64 \<Rightarrow> bool)" by (rule strict_weak_order_key)
  let ?ys = "std_sort (<) xs"
  define i where "i = (length xs * num + den - 1) div den - 1"
  have "0 < length xs" using assms(1) by simp
  note index = ceiling_index [OF this assms(2,3), folded i_def]
  have sorted: "?ys ! j \<le> ?ys ! k" if "j \<le> k" "k < length xs" for j k
    using strict_weak_order.std_sort_sorted [OF order, of xs] that
    by (cases "j = k") (auto simp: sorted_wrt_iff_nth_less not_less)
  have card_filter: "length (filter P xs) = card {j. j < length ?ys \<and> P (?ys ! j)}" for P
    by (metis length_filter_conv_card length_filter_std_sort)
  have "{j. j < length ?ys \<and> ?ys ! j < ?ys ! i} \<subseteq> {..<i}"
    using sorted [of i] by (force simp: not_le)
  then have "card {j. j < length ?ys \<and> ?ys ! j < ?ys ! i} \<le> i"
    using card_mono [of "{..<i}"] by fastforce
  then have less: "length (filter (\<lambda>x. x < ?ys ! i) xs) \<le> i"
    by (simp only: card_filter)
  have "{..i} \<subseteq> {j. j < length ?ys \<and> ?ys ! j \<le> ?ys ! i}"
    using sorted [of _ i] index(1) by auto
  then have "card {..i} \<le> card {j. j < length ?ys \<and> ?ys ! j \<le> ?ys ! i}"
    by (rule card_mono [rotated]) simp
  then have upto: "i + 1 \<le> length (filter (\<lambda>x. x \<le> ?ys ! i) xs)"
    unfolding card_filter by simp
  have "percentile ?ys num den = Some (?ys ! i)"
    using assms(1) index(1) by (simp add: percentile_def i_def)
  moreover have "?ys ! i \<in> set xs" using index(1) by (metis length_std_sort nth_mem set_std_sort)
  moreover have "num * length xs \<le> den * length (filter (\<lambda>x. x \<le> ?ys ! i) xs)"
    using index(2) mult_le_mono2 [OF upto, of den] by (simp add: mult.commute)
  moreover have "den * length (filter (\<lambda>x. x < ?ys ! i) xs) < num * length xs"
    using le_less_trans [OF mult_le_mono2 [OF less, of den] index(3)] by (simp only: mult.commute [of num])
  ultimately show ?thesis by blast
qed

theorem percentile_nearest_rank_witness:
  "\<exists>v. percentile (std_sort (<) [30, 10, 20 :: u64]) 50 100 = Some v"
  using percentile_nearest_rank [of "[30, 10, 20]" 50 100] by auto

end
