(* ===== verification/Control_Protocol.thy ===== *)
theory Control_Protocol
  imports Json_Scanner Mac_Table Policy_Engine Fault_Engine Topology Benchmark
begin

text \<open>
  The control protocol, \<^verbatim>\<open>include/wirelab/control_protocol.hpp\<close> and
  \<^verbatim>\<open>src/control_protocol.cpp\<close>: requests, replies and events, the two parsers, the validation
  and the writers. The flags a parser keeps (\<open>has_api_version\<close>, \<open>parameters_.scenario\<close> and so on) are
  the set of the keys it has read. The three object loops are recursive functions that end because
  every reader moves forward, and each interprets the locale \<open>object_members\<close>.
\<close>

section \<open>Data\<close>

definition WIRELAB_CONTROL_API_VERSION :: u32 where "WIRELAB_CONTROL_API_VERSION = 1"

datatype analyzer_backend = CpuBackend | CudaBackend

datatype control_command = LoadTopology | GetSwitchState | GetActiveFaults | GetSupervisionState | StartBenchmark
  | StopRun | SetPortFault | ClearPortFault | SetLinkFault | ClearLinkFault

datatype control_validation_error = UnsupportedApiVersion | MissingRequestId | InvalidBenchmarkParameters

record benchmark_parameters =
  bp_scenario :: string
  bp_backend :: analyzer_backend
  bp_generator :: string
  bp_packet_count :: u64
  bp_frame_size :: u32
  bp_batch_size :: u32
  bp_duration_seconds :: u32
  bp_seed :: u64

record fault_parameters =
  fp_port_id :: string
  fp_first :: string
  fp_second :: string
  fp_configuration :: fault_configuration

record control_request =
  rq_api_version :: u32
  rq_id :: string
  rq_command :: control_command
  rq_revision :: u64
  rq_benchmark :: benchmark_parameters
  rq_path :: string
  rq_fault :: fault_parameters

record control_reply =
  rp_api_version :: u32
  rp_id :: string
  rp_accepted :: bool
  rp_revision :: u64
  rp_operation :: string
  rp_error :: string

definition default_benchmark :: benchmark_parameters where
  "default_benchmark = \<lparr> bp_scenario = [], bp_backend = CpuBackend, bp_generator = ''cpu'', bp_packet_count = 0,
     bp_frame_size = 64, bp_batch_size = 1, bp_duration_seconds = 0, bp_seed = 1 \<rparr>"

definition default_fault :: fault_parameters where
  "default_fault = \<lparr> fp_port_id = [], fp_first = [], fp_second = [], fp_configuration = no_fault \<rparr>"

definition default_request :: control_request where
  "default_request = \<lparr> rq_api_version = WIRELAB_CONTROL_API_VERSION, rq_id = [], rq_command = GetSwitchState,
     rq_revision = 0, rq_benchmark = default_benchmark, rq_path = [], rq_fault = default_fault \<rparr>"

definition default_reply :: control_reply where
  "default_reply = \<lparr> rp_api_version = WIRELAB_CONTROL_API_VERSION, rp_id = [], rp_accepted = False,
     rp_revision = 0, rp_operation = [], rp_error = [] \<rparr>"

definition backend_text :: "analyzer_backend \<Rightarrow> string" where
  "backend_text b = (if b = CpuBackend then ''cpu'' else ''cuda'')"

definition command_text :: "control_command \<Rightarrow> string" where
  "command_text c =
     (case c of
        LoadTopology \<Rightarrow> ''load_topology''
      | GetSwitchState \<Rightarrow> ''get_switch_state''
      | GetActiveFaults \<Rightarrow> ''get_active_faults''
      | GetSupervisionState \<Rightarrow> ''get_supervision_state''
      | StartBenchmark \<Rightarrow> ''start_benchmark''
      | StopRun \<Rightarrow> ''stop_run''
      | SetPortFault \<Rightarrow> ''set_port_fault''
      | ClearPortFault \<Rightarrow> ''clear_port_fault''
      | SetLinkFault \<Rightarrow> ''set_link_fault''
      | ClearLinkFault \<Rightarrow> ''clear_link_fault'')"

definition control_validation_error_text :: "control_validation_error \<Rightarrow> string" where
  "control_validation_error_text e =
     (case e of
        UnsupportedApiVersion \<Rightarrow> ''unsupported API version''
      | MissingRequestId \<Rightarrow> ''request_id is required''
      | InvalidBenchmarkParameters \<Rightarrow> ''invalid benchmark configuration'')"

definition parse_error_text :: "parse_error \<Rightarrow> string" where
  "parse_error_text e =
     (case e of
        MalformedJson \<Rightarrow> ''malformed JSON''
      | InvalidField \<Rightarrow> ''invalid control request field''
      | MissingRequiredField \<Rightarrow> ''missing required control request field'')"

section \<open>Reading requests\<close>

text \<open>Reading a value and storing it.\<close>

definition store :: "'a reader \<Rightarrow> ('a \<Rightarrow> 'st) \<Rightarrow> 'st reader" where
  "store read f s = (case read s of Inl e \<Rightarrow> Inl e | Inr (v, s) \<Rightarrow> Inr (f v, s))"

definition read_command :: "control_command reader" where
  "read_command s =
     (case read_string s of
        Inl e \<Rightarrow> Inl e
      | Inr (v, s) \<Rightarrow>
          if v = ''load_topology'' then Inr (LoadTopology, s)
          else if v = ''get_switch_state'' then Inr (GetSwitchState, s)
          else if v = ''get_active_faults'' then Inr (GetActiveFaults, s)
          else if v = ''get_supervision_state'' then Inr (GetSupervisionState, s)
          else if v = ''start_benchmark'' then Inr (StartBenchmark, s)
          else if v = ''stop_run'' then Inr (StopRun, s)
          else if v = ''set_port_fault'' then Inr (SetPortFault, s)
          else if v = ''clear_port_fault'' then Inr (ClearPortFault, s)
          else if v = ''set_link_fault'' then Inr (SetLinkFault, s)
          else if v = ''clear_link_fault'' then Inr (ClearLinkFault, s)
          else Inl InvalidField)"

definition read_backend :: "analyzer_backend reader" where
  "read_backend s =
     (case read_string s of
        Inl e \<Rightarrow> Inl e
      | Inr (v, s) \<Rightarrow>
          if v = ''cpu'' then Inr (CpuBackend, s)
          else if v = ''cuda'' then Inr (CudaBackend, s)
          else Inl InvalidField)"

text \<open>Milliseconds become nanoseconds in a signed 64-bit count. The product is undefined in C++ when it
  overflows; the model wraps it.\<close>

definition milliseconds :: "u64 \<Rightarrow> int" where
  "milliseconds ms = sint (ms * 1000000)"

definition read_milliseconds :: "int reader" where
  "read_milliseconds s =
     (case read_uint s of
        Inl e \<Rightarrow> Inl InvalidField
      | Inr (ms, s) \<Rightarrow> if ms > 9223372036854775807 then Inl InvalidField else Inr (milliseconds ms, s))"

abbreviation in_benchmark :: "(benchmark_parameters \<Rightarrow> benchmark_parameters) \<Rightarrow> control_request \<Rightarrow> control_request" where
  "in_benchmark f rq \<equiv> rq\<lparr> rq_benchmark := f (rq_benchmark rq) \<rparr>"

abbreviation in_fault :: "(fault_parameters \<Rightarrow> fault_parameters) \<Rightarrow> control_request \<Rightarrow> control_request" where
  "in_fault f rq \<equiv> rq\<lparr> rq_fault := f (rq_fault rq) \<rparr>"

abbreviation in_configuration :: "(fault_configuration \<Rightarrow> fault_configuration) \<Rightarrow> control_request \<Rightarrow> control_request" where
  "in_configuration f rq \<equiv> in_fault (\<lambda>p. p\<lparr> fp_configuration := f (fp_configuration p) \<rparr>) rq"

definition parameter_value :: "string \<Rightarrow> control_request \<Rightarrow> control_request reader" where
  "parameter_value key rq =
     (if key = ''topology_path'' then store read_string (\<lambda>v. rq\<lparr> rq_path := v \<rparr>)
      else if key = ''scenario'' then store read_string (\<lambda>v. in_benchmark (\<lambda>b. b\<lparr> bp_scenario := v \<rparr>) rq)
      else if key = ''backend'' then store read_backend (\<lambda>v. in_benchmark (\<lambda>b. b\<lparr> bp_backend := v \<rparr>) rq)
      else if key = ''generator'' then store read_string (\<lambda>v. in_benchmark (\<lambda>b. b\<lparr> bp_generator := v \<rparr>) rq)
      else if key = ''batch_size'' then store read_uint (\<lambda>v. in_benchmark (\<lambda>b. b\<lparr> bp_batch_size := v \<rparr>) rq)
      else if key = ''duration_seconds'' then store read_uint (\<lambda>v. in_benchmark (\<lambda>b. b\<lparr> bp_duration_seconds := v \<rparr>) rq)
      else if key = ''seed'' then store read_uint (\<lambda>v. in_benchmark (\<lambda>b. b\<lparr> bp_seed := v \<rparr>) rq)
      else if key = ''packets'' then store read_uint (\<lambda>v. in_benchmark (\<lambda>b. b\<lparr> bp_packet_count := v \<rparr>) rq)
      else if key = ''frame_size'' then store read_uint (\<lambda>v. in_benchmark (\<lambda>b. b\<lparr> bp_frame_size := v \<rparr>) rq)
      else if key = ''port_id'' then store read_string (\<lambda>v. in_fault (\<lambda>f. f\<lparr> fp_port_id := v \<rparr>) rq)
      else if key = ''first_endpoint'' then store read_string (\<lambda>v. in_fault (\<lambda>f. f\<lparr> fp_first := v \<rparr>) rq)
      else if key = ''second_endpoint'' then store read_string (\<lambda>v. in_fault (\<lambda>f. f\<lparr> fp_second := v \<rparr>) rq)
      else if key = ''latency_ms'' then store read_milliseconds (\<lambda>v. in_configuration (\<lambda>c. c\<lparr> latency := v \<rparr>) rq)
      else if key = ''jitter_ms'' then store read_milliseconds (\<lambda>v. in_configuration (\<lambda>c. c\<lparr> jitter := v \<rparr>) rq)
      else if key = ''loss_basis_points'' then
        store read_uint (\<lambda>v. in_configuration (\<lambda>c. c\<lparr> loss_basis_points := v \<rparr>) rq)
      else if key = ''duplication_basis_points'' then
        store read_uint (\<lambda>v. in_configuration (\<lambda>c. c\<lparr> duplication_basis_points := v \<rparr>) rq)
      else if key = ''bandwidth_bits_per_second'' then
        store read_uint (\<lambda>v. in_configuration (\<lambda>c. c\<lparr> bandwidth_bits_per_second := v \<rparr>) rq)
      else if key = ''blackhole'' then store read_bool (\<lambda>v. in_configuration (\<lambda>c. c\<lparr> blackhole := v \<rparr>) rq)
      else if key = ''isolated'' then store read_bool (\<lambda>v. in_configuration (\<lambda>c. c\<lparr> isolated := v \<rparr>) rq)
      else (\<lambda>s. Inl InvalidField))"

text \<open>A parameter the flags say was read already is refused.\<close>

definition parameter_field ::
    "string \<Rightarrow> string set \<times> control_request \<Rightarrow> (string set \<times> control_request) reader" where
  "parameter_field key st s =
     (let (seen, rq) = st in
      if key \<in> seen then Inl InvalidField
      else store (parameter_value key rq) (\<lambda>rq. (insert key seen, rq)) s)"

lemma store_shorter:
  assumes "store read f s = Inr (v, rest)" and "\<And>s v rest. read s = Inr (v, rest) \<Longrightarrow> length rest \<le> length s"
  shows "length rest \<le> length s"
  using assms by (auto simp: store_def split: sum.splits)

lemma read_text_shorter:
  "read_string s = Inr (v, rest) \<Longrightarrow> length rest \<le> length s"
  "read_command s = Inr (c, rest) \<Longrightarrow> length rest \<le> length s"
  "read_backend s = Inr (b, rest) \<Longrightarrow> length rest \<le> length s"
  "read_milliseconds s = Inr (n, rest) \<Longrightarrow> length rest \<le> length s"
  by (auto simp: read_command_def read_backend_def read_milliseconds_def split: sum.splits if_splits
      dest!: read_string_shorter read_uint_shorter)

lemma parameter_value_shorter:
  assumes "parameter_value key rq s = Inr (rq', rest)"
  shows "length rest \<le> length s"
  using assms unfolding parameter_value_def
  by (auto split: if_splits dest!: store_shorter intro: read_text_shorter read_uint_shorter read_bool_shorter)

lemma parameter_field_shorter: "parameter_field key st s = Inr (st', rest) \<Longrightarrow> length rest \<le> length s"
  by (auto simp: parameter_field_def split: prod.splits if_splits dest!: store_shorter intro: parameter_value_shorter)

function parameter_members :: "string set \<times> control_request \<Rightarrow> (string set \<times> control_request) reader" where
  "parameter_members st s =
     (case member_key s of
        Inl e \<Rightarrow> Inl e
      | Inr (key, s) \<Rightarrow>
          (case parameter_field key st s of
             Inl e \<Rightarrow> Inl e
           | Inr (st, s) \<Rightarrow>
               (case member_end s of
                  Inl e \<Rightarrow> Inl e
                | Inr (closed, s) \<Rightarrow> if closed then Inr (st, s) else parameter_members st s)))"
  by pat_completeness auto
termination
  by (relation "measure (\<lambda>(st, s). length s)")
    (auto dest!: member_key_shorter parameter_field_shorter member_end_shorter)

declare parameter_members.simps [simp del]

definition read_parameters :: "string set \<times> control_request \<Rightarrow> (string set \<times> control_request) reader" where
  "read_parameters st s =
     (case consume CHR ''{'' s of
        Inl e \<Rightarrow> Inl e
      | Inr s \<Rightarrow>
          (case consume CHR ''}'' (skip_whitespace s) of
             Inr rest \<Rightarrow> Inr (st, rest)
           | Inl e \<Rightarrow> parameter_members st (skip_whitespace s)))"

text \<open>What the request parser keeps: its own flags, the flags of the parameters, and the request.\<close>

type_synonym request_state = "string set \<times> string set \<times> control_request"

definition request_value :: "string \<Rightarrow> string set \<times> control_request \<Rightarrow> (string set \<times> control_request) reader" where
  "request_value key st =
     (let (seen, rq) = st in
      if key = ''api_version'' then store read_uint (\<lambda>v. (seen, rq\<lparr> rq_api_version := v \<rparr>))
      else if key = ''request_id'' then store read_string (\<lambda>v. (seen, rq\<lparr> rq_id := v \<rparr>))
      else if key = ''command'' then store read_command (\<lambda>v. (seen, rq\<lparr> rq_command := v \<rparr>))
      else if key = ''topology_revision'' then store read_uint (\<lambda>v. (seen, rq\<lparr> rq_revision := v \<rparr>))
      else if key = ''parameters'' then read_parameters st
      else (\<lambda>s. Inl InvalidField))"

definition request_field :: "string \<Rightarrow> request_state \<Rightarrow> request_state reader" where
  "request_field key st s =
     (let (has, seen, rq) = st in
      if key \<in> has then Inl InvalidField
      else store (request_value key (seen, rq)) (\<lambda>st. (insert key has, st)) s)"

lemma parameter_members_shorter: "parameter_members st s = Inr (st', rest) \<Longrightarrow> length rest < length s"
proof (induction st s rule: parameter_members.induct)
  case (1 st s)
  from "1.prems" obtain key s1 st1 s2 closed s3 where
    1: "member_key s = Inr (key, s1)" "parameter_field key st s1 = Inr (st1, s2)" "member_end s2 = Inr (closed, s3)"
    and 2: "if closed then Inr (st', rest) = Inr (st1, s3) else parameter_members st1 s3 = Inr (st', rest)"
    by (subst (asm) parameter_members.simps) (fastforce split: sum.splits if_splits)
  have "length s3 < length s"
    using member_key_shorter [OF 1(1)] parameter_field_shorter [OF 1(2)] member_end_shorter [OF 1(3)] by linarith
  moreover have "length rest \<le> length s3"
    using 2 "1.IH" [OF 1(1) refl 1(2) refl 1(3) refl] by (cases closed) (auto simp: less_imp_le)
  ultimately show ?case by linarith
qed

lemma read_parameters_shorter: "read_parameters st s = Inr (st', rest) \<Longrightarrow> length rest \<le> length s"
proof -
  have skip: "length (skip_whitespace x) \<le> length x" for x by (rule skip_whitespace_shorter)
  assume "read_parameters st s = Inr (st', rest)"
  then obtain s1 where s1: "consume CHR ''{'' s = Inr s1"
    and rest: "consume CHR ''}'' (skip_whitespace s1) = Inr rest \<or> parameter_members st (skip_whitespace s1) = Inr (st', rest)"
    by (auto simp: read_parameters_def split: sum.splits)
  from rest have "length rest < length (skip_whitespace s1)"
    by (auto dest: consume_shorter parameter_members_shorter)
  then show ?thesis using consume_shorter [OF s1] skip [of s1] by linarith
qed

lemma request_field_shorter: "request_field key st s = Inr (st', rest) \<Longrightarrow> length rest \<le> length s"
proof -
  have "request_value key st s = Inr (st', rest) \<Longrightarrow> length rest \<le> length s" for st st' s rest
    unfolding request_value_def
    by (auto split: prod.splits if_splits dest!: store_shorter intro: read_text_shorter read_uint_shorter read_parameters_shorter)
  then show "request_field key st s = Inr (st', rest) \<Longrightarrow> length rest \<le> length s"
    by (auto simp: request_field_def split: prod.splits if_splits dest!: store_shorter)
qed

function request_members :: "request_state \<Rightarrow> request_state reader" where
  "request_members st s =
     (case member_key s of
        Inl e \<Rightarrow> Inl e
      | Inr (key, s) \<Rightarrow>
          (case request_field key st s of
             Inl e \<Rightarrow> Inl e
           | Inr (st, s) \<Rightarrow>
               (case member_end s of
                  Inl e \<Rightarrow> Inl e
                | Inr (closed, s) \<Rightarrow> if closed then Inr (st, s) else request_members st s)))"
  by pat_completeness auto
termination
  by (relation "measure (\<lambda>(st, s). length s)")
    (auto dest!: member_key_shorter request_field_shorter member_end_shorter)

declare request_members.simps [simp del]

interpretation parameters: object_members parameter_field parameter_members
  by unfold_locales (rule parameter_members.simps)

interpretation requests: object_members request_field request_members
  by unfold_locales (rule request_members.simps)

subsection \<open>Which parameters a command takes\<close>

definition benchmark_keys :: "string set" where
  "benchmark_keys = {''scenario'', ''backend'', ''generator'', ''batch_size'', ''duration_seconds'', ''seed'',
     ''packets'', ''frame_size''}"

definition required_benchmark_keys :: "string set" where
  "required_benchmark_keys = {''scenario'', ''backend'', ''batch_size'', ''duration_seconds'', ''seed''}"

definition fault_keys :: "string set" where
  "fault_keys = {''latency_ms'', ''jitter_ms'', ''loss_basis_points'', ''duplication_basis_points'',
     ''bandwidth_bits_per_second'', ''blackhole'', ''isolated''}"

definition parameters_valid_for :: "string set \<Rightarrow> control_command \<Rightarrow> bool" where
  "parameters_valid_for seen command =
     (let benchmark = required_benchmark_keys \<subseteq> seen; fault = fault_keys \<subseteq> seen;
          has_benchmark = benchmark_keys \<inter> seen \<noteq> {}; has_fault = fault_keys \<inter> seen \<noteq> {};
          path = ''topology_path'' \<in> seen; port = ''port_id'' \<in> seen;
          first = ''first_endpoint'' \<in> seen; second = ''second_endpoint'' \<in> seen
      in case command of
           LoadTopology \<Rightarrow> path \<and> \<not> has_benchmark \<and> \<not> port \<and> \<not> first \<and> \<not> second \<and> \<not> has_fault
         | StartBenchmark \<Rightarrow> benchmark \<and> \<not> path \<and> \<not> port \<and> \<not> first \<and> \<not> second \<and> \<not> has_fault
         | SetPortFault \<Rightarrow> port \<and> \<not> path \<and> fault \<and> \<not> first \<and> \<not> second \<and> \<not> has_benchmark
         | ClearPortFault \<Rightarrow> port \<and> \<not> path \<and> \<not> first \<and> \<not> second \<and> \<not> has_benchmark \<and> \<not> has_fault
         | SetLinkFault \<Rightarrow> first \<and> second \<and> \<not> path \<and> fault \<and> \<not> port \<and> \<not> has_benchmark
         | ClearLinkFault \<Rightarrow> first \<and> second \<and> \<not> path \<and> \<not> port \<and> \<not> has_benchmark \<and> \<not> has_fault
         | GetSwitchState \<Rightarrow> False
         | GetActiveFaults \<Rightarrow> False
         | GetSupervisionState \<Rightarrow> False
         | StopRun \<Rightarrow> False)"

definition parameters_missing_required_for :: "string set \<Rightarrow> control_command \<Rightarrow> bool" where
  "parameters_missing_required_for seen command =
     (let has_benchmark = benchmark_keys \<inter> seen \<noteq> {}; has_fault = fault_keys \<inter> seen \<noteq> {};
          path = ''topology_path'' \<in> seen; port = ''port_id'' \<in> seen;
          first = ''first_endpoint'' \<in> seen; second = ''second_endpoint'' \<in> seen
      in case command of
           LoadTopology \<Rightarrow> \<not> has_benchmark \<and> \<not> has_fault \<and> \<not> port \<and> \<not> first \<and> \<not> second
         | StartBenchmark \<Rightarrow> \<not> path \<and> \<not> port \<and> \<not> first \<and> \<not> second \<and> \<not> has_fault
         | SetPortFault \<Rightarrow> port \<and> \<not> path \<and> \<not> first \<and> \<not> second \<and> \<not> has_benchmark
         | ClearPortFault \<Rightarrow> \<not> path \<and> \<not> has_benchmark \<and> \<not> has_fault \<and> \<not> first \<and> \<not> second
         | SetLinkFault \<Rightarrow> \<not> path \<and> \<not> port \<and> \<not> has_benchmark
         | ClearLinkFault \<Rightarrow> \<not> path \<and> \<not> port \<and> \<not> has_benchmark \<and> \<not> has_fault
         | GetSwitchState \<Rightarrow> False
         | GetActiveFaults \<Rightarrow> False
         | GetSupervisionState \<Rightarrow> False
         | StopRun \<Rightarrow> False)"

definition requires_parameters :: "control_command \<Rightarrow> bool" where
  "requires_parameters command \<longleftrightarrow>
     command \<in> {LoadTopology, StartBenchmark, SetPortFault, ClearPortFault, SetLinkFault, ClearLinkFault}"

definition parse_request :: "string \<Rightarrow> parse_error + control_request" where
  "parse_request s =
     (case consume CHR ''{'' s of
        Inl e \<Rightarrow> Inl e
      | Inr s \<Rightarrow>
          (case consume CHR ''}'' (skip_whitespace s) of
             Inr _ \<Rightarrow> Inl MissingRequiredField
           | Inl _ \<Rightarrow>
               (case request_members ({}, {}, default_request) (skip_whitespace s) of
                  Inl e \<Rightarrow> Inl e
                | Inr ((has, seen, rq), s) \<Rightarrow>
                    if skip_whitespace s \<noteq> [] then Inl MalformedJson
                    else if \<not> {''api_version'', ''request_id'', ''command'', ''topology_revision''} \<subseteq> has
                    then Inl MissingRequiredField
                    else if ''parameters'' \<notin> has \<and> requires_parameters (rq_command rq) then Inl MissingRequiredField
                    else if ''parameters'' \<in> has \<and> \<not> parameters_valid_for seen (rq_command rq)
                    then Inl (if parameters_missing_required_for seen (rq_command rq) then MissingRequiredField
                              else InvalidField)
                    else Inr rq)))"

definition control_request_from_json :: "string \<Rightarrow> parse_error + control_request" where
  "control_request_from_json json = parse_request json"

section \<open>Reading replies\<close>

type_synonym reply_state = "string set \<times> control_reply"

definition reply_value :: "string \<Rightarrow> control_reply \<Rightarrow> control_reply reader" where
  "reply_value key rp =
     (if key = ''api_version'' then store read_uint (\<lambda>v. rp\<lparr> rp_api_version := v \<rparr>)
      else if key = ''request_id'' then store read_string (\<lambda>v. rp\<lparr> rp_id := v \<rparr>)
      else if key = ''accepted'' then store read_bool (\<lambda>v. rp\<lparr> rp_accepted := v \<rparr>)
      else if key = ''topology_revision'' then store read_uint (\<lambda>v. rp\<lparr> rp_revision := v \<rparr>)
      else if key = ''operation_id'' then store read_string (\<lambda>v. rp\<lparr> rp_operation := v \<rparr>)
      else if key = ''error'' then store read_string (\<lambda>v. rp\<lparr> rp_error := v \<rparr>)
      else (\<lambda>s. Inl InvalidField))"

definition reply_field :: "string \<Rightarrow> reply_state \<Rightarrow> reply_state reader" where
  "reply_field key st s =
     (let (has, rp) = st in
      if key \<in> has then Inl InvalidField else store (reply_value key rp) (\<lambda>rp. (insert key has, rp)) s)"

lemma reply_field_shorter: "reply_field key st s = Inr (st', rest) \<Longrightarrow> length rest \<le> length s"
proof -
  have "reply_value key rp s = Inr (rp', rest) \<Longrightarrow> length rest \<le> length s" for rp rp' s rest
    unfolding reply_value_def
    by (auto split: if_splits dest!: store_shorter intro: read_text_shorter read_uint_shorter read_bool_shorter)
  then show "reply_field key st s = Inr (st', rest) \<Longrightarrow> length rest \<le> length s"
    by (auto simp: reply_field_def split: prod.splits if_splits dest!: store_shorter)
qed

function reply_members :: "reply_state \<Rightarrow> reply_state reader" where
  "reply_members st s =
     (case member_key s of
        Inl e \<Rightarrow> Inl e
      | Inr (key, s) \<Rightarrow>
          (case reply_field key st s of
             Inl e \<Rightarrow> Inl e
           | Inr (st, s) \<Rightarrow>
               (case member_end s of
                  Inl e \<Rightarrow> Inl e
                | Inr (closed, s) \<Rightarrow> if closed then Inr (st, s) else reply_members st s)))"
  by pat_completeness auto
termination
  by (relation "measure (\<lambda>(st, s). length s)")
    (auto dest!: member_key_shorter reply_field_shorter member_end_shorter)

declare reply_members.simps [simp del]

interpretation replies: object_members reply_field reply_members
  by unfold_locales (rule reply_members.simps)

definition parse_reply :: "string \<Rightarrow> parse_error + control_reply" where
  "parse_reply s =
     (case consume CHR ''{'' s of
        Inl e \<Rightarrow> Inl e
      | Inr s \<Rightarrow>
          (case consume CHR ''}'' (skip_whitespace s) of
             Inr _ \<Rightarrow> Inl MissingRequiredField
           | Inl _ \<Rightarrow>
               (case reply_members ({}, default_reply) (skip_whitespace s) of
                  Inl e \<Rightarrow> Inl e
                | Inr ((has, rp), s) \<Rightarrow>
                    if skip_whitespace s \<noteq> [] then Inl MalformedJson
                    else if \<not> {''api_version'', ''request_id'', ''accepted'', ''topology_revision''} \<subseteq> has
                    then Inl MissingRequiredField
                    else Inr rp)))"

definition control_reply_from_json :: "string \<Rightarrow> parse_error + control_reply" where
  "control_reply_from_json json = parse_reply json"

section \<open>Validation\<close>

definition is_valid_benchmark :: "benchmark_parameters \<Rightarrow> bool" where
  "is_valid_benchmark b \<longleftrightarrow>
     bp_scenario b \<noteq> [] \<and> bp_batch_size b > 0 \<and> bp_batch_size b \<le> 8192 \<and> bp_duration_seconds b > 0 \<and>
     bp_packet_count b > 0 \<and> bp_frame_size b \<ge> 14 \<and> bp_frame_size b \<le> 9000"

definition validate_request :: "control_request \<Rightarrow> control_validation_error + unit" where
  "validate_request rq =
     (if rq_api_version rq \<noteq> WIRELAB_CONTROL_API_VERSION then Inl UnsupportedApiVersion
      else if rq_id rq = [] then Inl MissingRequestId
      else if rq_command rq = StartBenchmark \<and> \<not> is_valid_benchmark (rq_benchmark rq) then Inl InvalidBenchmarkParameters
      else Inr ())"

section \<open>Writing\<close>

text \<open>\<open>duration_cast\<close> to milliseconds truncates towards zero.\<close>

definition ms_count :: "int \<Rightarrow> int" where
  "ms_count ns = sgn ns * (\<bar>ns\<bar> div 1000000)"

text \<open>The configuration of a fault, as a request and an event print it.\<close>

definition configuration_text :: "fault_configuration \<Rightarrow> string" where
  "configuration_text c =
     ''\"latency_ms\":'' @ int_text (ms_count (latency c)) @
     '',\"jitter_ms\":'' @ int_text (ms_count (jitter c)) @
     '',\"loss_basis_points\":'' @ uint_text (loss_basis_points c) @
     '',\"duplication_basis_points\":'' @ uint_text (duplication_basis_points c) @
     '',\"bandwidth_bits_per_second\":'' @ uint_text (bandwidth_bits_per_second c) @
     '',\"blackhole\":'' @ bool_text (blackhole c) @
     '',\"isolated\":'' @ bool_text (isolated c) @ ''}''"

definition request_to_json :: "control_request \<Rightarrow> string" where
  "request_to_json rq =
     ''{\"api_version\":'' @ uint_text (rq_api_version rq) @ '',\"request_id\":'' @ json_string (rq_id rq) @
     '',\"command\":'' @ json_string (command_text (rq_command rq)) @
     '',\"topology_revision\":'' @ uint_text (rq_revision rq) @
     (let b = rq_benchmark rq; f = rq_fault rq in
      if rq_command rq = LoadTopology then
        '',\"parameters\":{\"topology_path\":'' @ json_string (rq_path rq) @ ''}''
      else if rq_command rq = StartBenchmark then
        '',\"parameters\":{\"scenario\":'' @ json_string (bp_scenario b) @
        '',\"backend\":'' @ json_string (backend_text (bp_backend b)) @
        '',\"generator\":'' @ json_string (bp_generator b) @
        '',\"batch_size\":'' @ uint_text (bp_batch_size b) @
        '',\"duration_seconds\":'' @ uint_text (bp_duration_seconds b) @ '',\"seed\":'' @ uint_text (bp_seed b) @
        '',\"packets\":'' @ uint_text (bp_packet_count b) @ '',\"frame_size\":'' @ uint_text (bp_frame_size b) @ ''}''
      else if rq_command rq = SetPortFault \<or> rq_command rq = SetLinkFault then
        '',\"parameters\":{'' @
        (if rq_command rq = SetPortFault then ''\"port_id\":'' @ json_string (fp_port_id f)
         else ''\"first_endpoint\":'' @ json_string (fp_first f) @ '',\"second_endpoint\":'' @ json_string (fp_second f)) @
        '','' @ configuration_text (fp_configuration f)
      else if rq_command rq = ClearPortFault then
        '',\"parameters\":{\"port_id\":'' @ json_string (fp_port_id f) @ ''}''
      else if rq_command rq = ClearLinkFault then
        '',\"parameters\":{\"first_endpoint\":'' @ json_string (fp_first f) @
        '',\"second_endpoint\":'' @ json_string (fp_second f) @ ''}''
      else []) @ ''}''"

definition reply_to_json :: "control_reply \<Rightarrow> string" where
  "reply_to_json rp =
     ''{\"api_version\":'' @ uint_text (rp_api_version rp) @ '',\"request_id\":'' @ json_string (rp_id rp) @
     '',\"accepted\":'' @ bool_text (rp_accepted rp) @ '',\"topology_revision\":'' @ uint_text (rp_revision rp) @
     (if rp_accepted rp then '',\"operation_id\":'' @ json_string (rp_operation rp)
      else '',\"error\":'' @ json_string (rp_error rp)) @ ''}''"

subsection \<open>Events\<close>

record event_header =
  eh_api_version :: u32
  eh_sequence :: u64
  eh_revision :: u64

record metrics_event = event_header +
  me_metrics :: switch_metrics

record fault_event = event_header +
  fv_first :: string
  fv_second :: string
  fv_configuration :: fault_configuration
  fv_active :: bool

record topology_event = event_header +
  te_name :: string
  te_nodes :: "topology_node list"
  te_links :: "topology_link list"

record anomaly_detected_event = event_header +
  ae_anomaly :: anomaly_event

record policy_action_event = event_header +
  pv_decision :: policy_decision

record benchmark_progress_event = event_header +
  pe_operation :: string
  pe_completed :: u64
  pe_total :: u64

record 'd benchmark_result_event = event_header +
  re_operation :: string
  re_completed :: bool
  re_result :: "'d benchmark_result"

text \<open>A port binding is the port and the endpoint.\<close>

record supervision_event = event_header +
  se_analysed :: u64
  se_blocked :: u64
  se_bindings :: "(string \<times> string) list"

text \<open>Every event starts with the version, the sequence number and the revision.\<close>

definition header_text :: "'z event_header_scheme \<Rightarrow> string" where
  "header_text e =
     ''{\"api_version\":'' @ uint_text (eh_api_version e) @ '',\"event_sequence\":'' @ uint_text (eh_sequence e) @
     '',\"topology_revision\":'' @ uint_text (eh_revision e)"

definition anomaly_type_name :: "anomaly_type \<Rightarrow> string" where
  "anomaly_type_name t =
     (case t of
        anomaly_type.BroadcastStorm \<Rightarrow> ''broadcast_storm''
      | MacFlap \<Rightarrow> ''mac_flap''
      | UnknownUnicastFlood \<Rightarrow> ''unknown_unicast_flood''
      | anomaly_type.UdpFlood \<Rightarrow> ''udp_flood''
      | anomaly_type.PortScan \<Rightarrow> ''port_scan''
      | HotTalker \<Rightarrow> ''hot_talker''
      | MalformedFrame \<Rightarrow> ''malformed_frame'')"

definition anomaly_json :: "anomaly_event \<Rightarrow> string" where
  "anomaly_json a =
     ''{\"type\":'' @ json_string (anomaly_type_name (ev_type a)) @
     '',\"source_mac\":'' @ json_string (mac_to_string (ev_source_mac a)) @
     '',\"source_ipv4\":'' @ uint_text (ev_source_ipv4 a) @ '',\"ingress_port\":'' @ uint_text (ev_ingress a) @
     '',\"observed_packets\":'' @ uint_text (ev_packets a) @ '',\"observed_bytes\":'' @ uint_text (ev_bytes a) @
     '',\"observed_distinct_destinations\":'' @ uint_text (ev_destinations a) @
     '',\"threshold\":'' @ uint_text (ev_threshold a) @ '',\"window_duration_ns\":'' @ uint_text (ev_window_ns a) @ ''}''"

definition json_number :: "'d double_operations \<Rightarrow> 'd \<Rightarrow> string" where
  "json_number d v = db_fixed6 d (if db_finite d v then v else db_literal d 0)"

definition metrics_to_json :: "metrics_event \<Rightarrow> string" where
  "metrics_to_json e =
     (let m = me_metrics e in
      header_text e @ '',\"event\":\"switch_metrics\",\"metrics\":{'' @
      ''\"received_packets\":'' @ uint_text (received_packets m) @ '',\"received_bytes\":'' @ uint_text (received_bytes m) @
      '',\"forwarded_packets\":'' @ uint_text (forwarded_packets m) @
      '',\"forwarded_bytes\":'' @ uint_text (forwarded_bytes m) @
      '',\"broadcast_packets\":'' @ uint_text (broadcast_packets m) @
      '',\"unknown_unicast_packets\":'' @ uint_text (unknown_unicast_packets m) @
      '',\"dropped_packets\":'' @ uint_text (dropped_packets m) @
      '',\"malformed_packets\":'' @ uint_text (malformed_packets m) @
      '',\"learned_macs\":'' @ uint_text (learned_macs m) @ ''}}'')"

definition fault_to_json :: "fault_event \<Rightarrow> string" where
  "fault_to_json e =
     header_text e @ '',\"event\":\"fault_state_changed\"'' @ '',\"active\":'' @ bool_text (fv_active e) @
     '',\"first_endpoint\":'' @ json_string (fv_first e) @
     (if fv_second e \<noteq> [] then '',\"second_endpoint\":'' @ json_string (fv_second e) else []) @
     (if fv_active e then '',\"configuration\":{'' @ configuration_text (fv_configuration e) else []) @ ''}''"

text \<open>The elements of an array, with commas between them.\<close>

fun json_elements :: "string list \<Rightarrow> string" where
  "json_elements [] = []"
| "json_elements [x] = x"
| "json_elements (x # xs) = x @ '','' @ json_elements xs"

definition topology_to_json :: "topology_event \<Rightarrow> string" where
  "topology_to_json e =
     header_text e @ '',\"event\":\"topology_loaded\"'' @ '',\"name\":'' @ json_string (te_name e) @ '',\"nodes\":['' @
     json_elements (map (\<lambda>n. ''{\"id\":'' @ json_string (node_id n) @ '',\"type\":'' @
       json_string (node_type_text (node_type n)) @ ''}'') (te_nodes e)) @
     ''],\"links\":['' @
     json_elements (map (\<lambda>l. ''{\"from\":'' @ json_string (link_from l) @ '',\"to\":'' @ json_string (link_to l) @
       '',\"latency_ms\":'' @ int_text (link_latency_ms l) @ ''}'') (te_links e)) @ '']}''"

definition anomaly_to_json :: "anomaly_detected_event \<Rightarrow> string" where
  "anomaly_to_json e = header_text e @ '',\"event\":\"anomaly_detected\",\"anomaly\":'' @ anomaly_json (ae_anomaly e) @ ''}''"

definition policy_to_json :: "policy_action_event \<Rightarrow> string" where
  "policy_to_json e =
     (let d = pv_decision e in
      header_text e @ '',\"event\":\"policy_action\",\"rule_name\":'' @ json_string (pd_rule d) @
      '',\"action\":'' @ json_string (policy_action_text (pd_action d)) @ '',\"hit_count\":'' @ uint_text (pd_hits d) @
      '',\"rate_limit_packets_per_second\":'' @ uint_text (pd_rate d) @ '',\"anomaly\":'' @
      anomaly_json (pd_anomaly d) @ ''}'')"

definition supervision_to_json :: "supervision_event \<Rightarrow> string" where
  "supervision_to_json e =
     header_text e @ '',\"event\":\"supervision_state\"'' @ '',\"analysed_frames\":'' @ uint_text (se_analysed e) @
     '',\"blocked_frames\":'' @ uint_text (se_blocked e) @ '',\"bindings\":['' @
     json_elements (map (\<lambda>(port, ep). ''{\"port_id\":'' @ json_string port @ '',\"endpoint\":'' @ json_string ep @ ''}'')
       (se_bindings e)) @ '']}''"

definition progress_to_json :: "benchmark_progress_event \<Rightarrow> string" where
  "progress_to_json e =
     header_text e @ '',\"event\":\"benchmark_progress\"'' @ '',\"operation_id\":'' @ json_string (pe_operation e) @
     '',\"completed_packets\":'' @ uint_text (pe_completed e) @ '',\"total_packets\":'' @ uint_text (pe_total e) @ ''}''"

definition result_to_json :: "'d double_operations \<Rightarrow> 'd benchmark_result_event \<Rightarrow> string" where
  "result_to_json d e =
     (let b = re_result e; t = br_timing b in
      header_text e @ '',\"event\":\"benchmark_result\"'' @ '',\"operation_id\":'' @ json_string (re_operation e) @
      '',\"completed\":'' @ bool_text (re_completed e) @
      '',\"result\":{\"backend\":'' @ json_string (br_backend b) @ '',\"scenario\":'' @ json_string (br_scenario b) @
      '',\"seed\":'' @ uint_text (br_seed b) @ '',\"frame_size\":'' @ uint_text (br_frame_size b) @
      '',\"batch_size\":'' @ uint_text (br_batch_size b) @ '',\"total_packets\":'' @ uint_text (br_total b) @
      '',\"completed_packets\":'' @ uint_text (br_completed b) @
      '',\"received_packets\":'' @ uint_text (br_received_packets b) @
      '',\"received_bytes\":'' @ uint_text (br_received_bytes b) @
      '',\"malformed_packets\":'' @ uint_text (br_malformed b) @
      '',\"broadcast_packets\":'' @ uint_text (br_broadcast b) @
      '',\"unknown_unicast_packets\":'' @ uint_text (br_unknown_unicast b) @
      '',\"known_unicast_packets\":'' @ uint_text (br_known_unicast b) @
      '',\"elapsed_ns\":'' @ uint_text (br_elapsed_ns b) @
      '',\"packets_per_second\":'' @ json_number d (br_packets_per_second b) @
      '',\"goodput_bits_per_second\":'' @ json_number d (br_goodput b) @
      '',\"loss_percentage\":'' @ json_number d (br_loss b) @
      '',\"batch_analysis_latency_p50_ns\":'' @ uint_text (br_p50 b) @
      '',\"batch_analysis_latency_p95_ns\":'' @ uint_text (br_p95 b) @
      '',\"batch_analysis_latency_p99_ns\":'' @ uint_text (br_p99 b) @
      '',\"timing\":{\"host_to_device_ns\":'' @ uint_text (at_host_to_device t) @
      '',\"kernel_ns\":'' @ uint_text (at_kernel t) @
      '',\"device_to_host_ns\":'' @ uint_text (at_device_to_host t) @ ''}}}'')"

end
