(* ===== verification/Topology_Yaml.thy ===== *)
theory Topology_Yaml
  imports Topology
begin

text \<open>
  The reader of topology files, \<^verbatim>\<open>src/topology_yaml.cpp\<close>: a line-based reader of the YAML subset that
  describes a topology. The private entries of \<open>TopologyYamlParser\<close> are a record, one iteration of its
  loop is \<open>yaml_line\<close>, and an error is a value. The last section writes a topology the way the scenario
  files are written and shows that the reader gives it back.
\<close>

section \<open>Text\<close>

datatype yaml_error = FileRead | MalformedDocument | MissingNetwork | MissingNetworkName | MissingNodesKey | MissingLinksKey
  | InvalidTopLevelKey | InvalidNetworkField | InvalidNodeField | InvalidLinkField | InvalidNodeType | InvalidLatency

definition yaml_error_text :: "yaml_error \<Rightarrow> string" where
  "yaml_error_text e =
     (case e of
        FileRead \<Rightarrow> ''file_read''
      | MalformedDocument \<Rightarrow> ''malformed_document''
      | MissingNetwork \<Rightarrow> ''missing_network''
      | MissingNetworkName \<Rightarrow> ''missing_network_name''
      | MissingNodesKey \<Rightarrow> ''missing_nodes''
      | MissingLinksKey \<Rightarrow> ''missing_links''
      | InvalidTopLevelKey \<Rightarrow> ''invalid_top_level_key''
      | InvalidNetworkField \<Rightarrow> ''invalid_network_field''
      | InvalidNodeField \<Rightarrow> ''invalid_node_field''
      | InvalidLinkField \<Rightarrow> ''invalid_link_field''
      | InvalidNodeType \<Rightarrow> ''invalid_node_type''
      | InvalidLatency \<Rightarrow> ''invalid_latency'')"

definition is_blank :: "char \<Rightarrow> bool" where
  "is_blank c \<longleftrightarrow> c = CHR '' '' \<or> c = CHR 0x09"

definition is_trimmed :: "char \<Rightarrow> bool" where
  "is_trimmed c \<longleftrightarrow> is_blank c \<or> c = CHR 0x0D"

definition trim :: "string \<Rightarrow> string" where
  "trim s = rev (dropWhile is_trimmed (rev (dropWhile is_trimmed s)))"

abbreviation is_quote :: "char \<Rightarrow> bool" where
  "is_quote c \<equiv> c = CHR 0x27 \<or> c = CHR 0x22"

text \<open>\<open>before\<close> is the character before the rest of the line, \<open>quote\<close> the open quote.\<close>

fun uncommented :: "char option \<Rightarrow> char option \<Rightarrow> string \<Rightarrow> string" where
  "uncommented before quote [] = []"
| "uncommented before quote (c # s) =
     (if is_quote c \<and> before \<noteq> Some (CHR 0x5C)
      then c # uncommented (Some c) (case quote of None \<Rightarrow> Some c | Some q \<Rightarrow> if q = c then None else Some q) s
      else if c = CHR ''#'' \<and> quote = None then []
      else c # uncommented (Some c) quote s)"

definition without_comment :: "string \<Rightarrow> string" where
  "without_comment line = uncommented None None line"

definition split_field :: "string \<Rightarrow> (string \<times> string) option" where
  "split_field s =
     (if CHR '':'' \<notin> set s then None
      else
        let key = trim (takeWhile (\<lambda>c. c \<noteq> CHR '':'') s);
            v = trim (tl (dropWhile (\<lambda>c. c \<noteq> CHR '':'') s))
        in if key = [] \<or> v = [] then None
           else if is_quote (hd v) then
             if length v < 2 \<or> last v \<noteq> hd v then None
             else if butlast (tl v) = [] then None else Some (key, butlast (tl v))
           else Some (key, v))"

text \<open>\<open>std::getline\<close> until the stream is at its end.\<close>

function get_lines :: "char \<Rightarrow> string \<Rightarrow> string list" where
  "get_lines delim s =
     (if s = [] then []
      else takeWhile (\<lambda>c. c \<noteq> delim) s # get_lines delim (tl (dropWhile (\<lambda>c. c \<noteq> delim) s)))"
  by pat_completeness auto
termination
proof (relation "measure (\<lambda>(_, s). length s)")
  fix delim :: char and s :: string
  assume "s \<noteq> []"
  then have "0 < length s" by simp
  then have "length (tl (dropWhile (\<lambda>c. c \<noteq> delim) s)) < length s"
    using length_dropWhile_le [of "\<lambda>c. c \<noteq> delim" s] length_tl [of "dropWhile (\<lambda>c. c \<noteq> delim) s"] by linarith
  then show "((delim, tl (dropWhile (\<lambda>c. c \<noteq> delim) s)), delim, s) \<in> measure (\<lambda>(_, s). length s)" by simp
qed simp

declare get_lines.simps [simp del]

text \<open>\<open>emplace\<close> of a key that is there already fails.\<close>

definition emplace_field :: "string \<times> string \<Rightarrow> (string \<times> string) list \<Rightarrow> (string \<times> string) list option" where
  "emplace_field kv entries = (if map_of entries (fst kv) = None then Some (entries @ [kv]) else None)"

fun flow_fields :: "string list \<Rightarrow> (string \<times> string) list \<Rightarrow> (string \<times> string) list option" where
  "flow_fields [] entries = Some entries"
| "flow_fields (f # fs) entries =
     Option.bind (split_field f) (\<lambda>kv. Option.bind (emplace_field kv entries) (flow_fields fs))"

definition parse_flow_mapping :: "string \<Rightarrow> (string \<times> string) list \<Rightarrow> (string \<times> string) list option" where
  "parse_flow_mapping input entries =
     (if length input < 2 \<or> hd input \<noteq> CHR ''{'' \<or> last input \<noteq> CHR ''}'' then None
      else case flow_fields (get_lines CHR '','' (butlast (tl input))) entries of
        None \<Rightarrow> None
      | Some entries \<Rightarrow> if entries = [] then None else Some entries)"

text \<open>\<open>std::from_chars\<close> of the whole text, and the conversion of the unsigned count to \<open>std::chrono\<close>'s
  signed one.\<close>

definition parse_latency :: "string \<Rightarrow> int option" where
  "parse_latency s =
     (if s = [] \<or> \<not> list_all is_digit s \<or> 2 ^ 64 \<le> nat_of_dec s then None
      else Some (sint (of_nat (nat_of_dec s) :: u64)))"

section \<open>The parser\<close>

datatype yaml_section = NoSection | NetworkSection | NodesSection | LinksSection

record yaml_state =
  ys_configuration :: topology_configuration
  ys_section :: yaml_section
  ys_entry_section :: yaml_section
  ys_fields :: "(string \<times> string) list"
  ys_has_network :: bool
  ys_has_name :: bool
  ys_has_nodes :: bool
  ys_has_links :: bool
  ys_has_entry :: bool

definition yaml_start :: yaml_state where
  "yaml_start = \<lparr> ys_configuration = \<lparr> topo_name = [], topo_nodes = [], topo_links = [] \<rparr>, ys_section = NoSection,
     ys_entry_section = NoSection, ys_fields = [], ys_has_network = False, ys_has_name = False,
     ys_has_nodes = False, ys_has_links = False, ys_has_entry = False \<rparr>"

definition node_of_fields :: "(string \<times> string) list \<Rightarrow> yaml_error + topology_node" where
  "node_of_fields entries =
     (case (map_of entries ''id'', map_of entries ''type'') of
        (Some i, Some t) \<Rightarrow>
          if length entries \<noteq> 2 then Inl InvalidNodeField
          else if t = ''host'' then Inr \<lparr> node_id = i, node_type = Host \<rparr>
          else if t = ''switch'' then Inr \<lparr> node_id = i, node_type = Switch \<rparr>
          else Inl InvalidNodeType
      | _ \<Rightarrow> Inl InvalidNodeField)"

definition link_of_fields :: "(string \<times> string) list \<Rightarrow> yaml_error + topology_link" where
  "link_of_fields entries =
     (case (map_of entries ''from'', map_of entries ''to'') of
        (Some f, Some t) \<Rightarrow>
          if length entries > 3 then Inl InvalidLinkField
          else (case map_of entries ''latency_ms'' of
                  None \<Rightarrow> Inr \<lparr> link_from = f, link_to = t, link_latency_ms = 0 \<rparr>
                | Some digits \<Rightarrow>
                    (case parse_latency digits of
                       None \<Rightarrow> Inl InvalidLatency
                     | Some l \<Rightarrow> Inr \<lparr> link_from = f, link_to = t, link_latency_ms = l \<rparr>))
      | _ \<Rightarrow> Inl InvalidLinkField)"

definition flush_entry :: "yaml_state \<Rightarrow> yaml_error + yaml_state" where
  "flush_entry y =
     (if \<not> ys_has_entry y then Inr y
      else
        let c = ys_configuration y; y = y\<lparr> ys_has_entry := False \<rparr> in
        if ys_entry_section y = NodesSection then
          (case node_of_fields (ys_fields y) of
             Inl e \<Rightarrow> Inl e
           | Inr n \<Rightarrow> Inr (y\<lparr> ys_configuration := c\<lparr> topo_nodes := topo_nodes c @ [n] \<rparr>, ys_fields := [] \<rparr>))
        else
          (case link_of_fields (ys_fields y) of
             Inl e \<Rightarrow> Inl e
           | Inr l \<Rightarrow> Inr (y\<lparr> ys_configuration := c\<lparr> topo_links := topo_links c @ [l] \<rparr>, ys_fields := [] \<rparr>)))"

definition top_level_line :: "string \<Rightarrow> yaml_state \<Rightarrow> yaml_error + yaml_state" where
  "top_level_line content y =
     (case flush_entry y of
        Inl e \<Rightarrow> Inl e
      | Inr y \<Rightarrow>
          if content = ''network:'' then
            if ys_has_network y then Inl MalformedDocument
            else Inr (y\<lparr> ys_section := NetworkSection, ys_has_network := True \<rparr>)
          else if content = ''nodes:'' then
            if ys_has_nodes y then Inl MalformedDocument
            else Inr (y\<lparr> ys_section := NodesSection, ys_has_nodes := True \<rparr>)
          else if content = ''links:'' then
            if ys_has_links y then Inl MalformedDocument
            else Inr (y\<lparr> ys_section := LinksSection, ys_has_links := True \<rparr>)
          else Inl InvalidTopLevelKey)"

definition network_line :: "nat \<Rightarrow> string \<Rightarrow> yaml_state \<Rightarrow> yaml_error + yaml_state" where
  "network_line indent content y =
     (case split_field content of
        None \<Rightarrow> Inl InvalidNetworkField
      | Some (key, v) \<Rightarrow>
          if indent \<noteq> 2 \<or> key \<noteq> ''name'' \<or> ys_has_name y then Inl InvalidNetworkField
          else Inr (y\<lparr> ys_configuration := (ys_configuration y)\<lparr> topo_name := v \<rparr>, ys_has_name := True \<rparr>))"

definition field_error :: "yaml_state \<Rightarrow> yaml_error" where
  "field_error y = (if ys_section y = NodesSection then InvalidNodeField else InvalidLinkField)"

definition entry_line :: "string \<Rightarrow> yaml_state \<Rightarrow> yaml_error + yaml_state" where
  "entry_line content y =
     (case flush_entry y of
        Inl e \<Rightarrow> Inl e
      | Inr y \<Rightarrow>
          let y = y\<lparr> ys_entry_section := ys_section y \<rparr>; entry = trim (tl content) in
          if entry = [] then Inr (y\<lparr> ys_has_entry := True \<rparr>)
          else (case parse_flow_mapping entry (ys_fields y) of
                  None \<Rightarrow> Inl (field_error y)
                | Some entries \<Rightarrow> Inr (y\<lparr> ys_fields := entries, ys_has_entry := True \<rparr>)))"

definition field_line :: "nat \<Rightarrow> string \<Rightarrow> yaml_state \<Rightarrow> yaml_error + yaml_state" where
  "field_line indent content y =
     (if indent \<noteq> 4 \<or> \<not> ys_has_entry y then Inl (field_error y)
      else (case Option.bind (split_field content) (\<lambda>kv. emplace_field kv (ys_fields y)) of
              None \<Rightarrow> Inl (field_error y)
            | Some entries \<Rightarrow> Inr (y\<lparr> ys_fields := entries \<rparr>)))"

definition yaml_line :: "string \<Rightarrow> yaml_state \<Rightarrow> yaml_error + yaml_state" where
  "yaml_line raw_line y =
     (let line = without_comment raw_line in
      if trim line = [] then Inr y
      else
        let indent = length (takeWhile is_blank line); content = drop indent line in
        if CHR 0x09 \<in> set (take indent line) then Inl MalformedDocument
        else if indent = 0 then top_level_line content y
        else if ys_section y = NetworkSection then network_line indent content y
        else if ys_section y = NoSection then Inl MalformedDocument
        else if indent = 2 \<and> hd content = CHR ''-'' then entry_line content y
        else field_line indent content y)"

fun yaml_lines :: "string list \<Rightarrow> yaml_state \<Rightarrow> yaml_error + yaml_state" where
  "yaml_lines [] y = Inr y"
| "yaml_lines (l # ls) y = (case yaml_line l y of Inl e \<Rightarrow> Inl e | Inr y \<Rightarrow> yaml_lines ls y)"

definition topology_configuration_from_yaml :: "string \<Rightarrow> yaml_error + topology_configuration" where
  "topology_configuration_from_yaml yaml =
     (case yaml_lines (get_lines CHR 0x0A yaml) yaml_start of
        Inl e \<Rightarrow> Inl e
      | Inr y \<Rightarrow>
          (case flush_entry y of
             Inl e \<Rightarrow> Inl e
           | Inr y \<Rightarrow>
               if \<not> ys_has_network y then Inl MissingNetwork
               else if \<not> ys_has_name y then Inl MissingNetworkName
               else if \<not> ys_has_nodes y then Inl MissingNodesKey
               else if \<not> ys_has_links y then Inl MissingLinksKey
               else Inr (ys_configuration y)))"

text \<open>What the file holds is an argument: \<open>None\<close> for a file that cannot be read.\<close>

definition topology_configuration_from_yaml_file :: "string option \<Rightarrow> yaml_error + topology_configuration" where
  "topology_configuration_from_yaml_file contents =
     (case contents of None \<Rightarrow> Inl FileRead | Some yaml \<Rightarrow> topology_configuration_from_yaml yaml)"

section \<open>What is written is read back\<close>

text \<open>A topology as the scenario files write it, one line for each node and link; \<open>sp\<close> spells a name.\<close>

definition spelled_node :: "(string \<Rightarrow> string) \<Rightarrow> topology_node \<Rightarrow> string" where
  "spelled_node sp n = ''  - { id: '' @ sp (node_id n) @ '', type: '' @ node_type_text (node_type n) @ '' }''"

definition spelled_link :: "(string \<Rightarrow> string) \<Rightarrow> topology_link \<Rightarrow> string" where
  "spelled_link sp l = ''  - { from: '' @ sp (link_from l) @ '', to: '' @ sp (link_to l) @ '', latency_ms: '' @
     dec_of_nat (nat (link_latency_ms l)) @ '' }''"

definition spelled_lines :: "(string \<Rightarrow> string) \<Rightarrow> topology_configuration \<Rightarrow> string list" where
  "spelled_lines sp c = [''network:'', ''  name: '' @ sp (topo_name c), [], ''nodes:''] @ map (spelled_node sp) (topo_nodes c) @
     [[], ''links:''] @ map (spelled_link sp) (topo_links c)"

definition spelled_document :: "(string \<Rightarrow> string) \<Rightarrow> topology_configuration \<Rightarrow> string" where
  "spelled_document sp c = concat (map (\<lambda>l. l @ [CHR 0x0A]) (spelled_lines sp c))"

definition document_text :: "topology_configuration \<Rightarrow> string" where
  "document_text c = spelled_document (\<lambda>name. name) c"

text \<open>Names that need no quotes, and configurations that can be written.\<close>

definition clean_char :: "char \<Rightarrow> bool" where
  "clean_char c \<longleftrightarrow> \<not> is_trimmed c \<and> \<not> is_quote c \<and> c \<notin> {CHR ''#'', CHR '':'', CHR '','', CHR 0x0A}"

definition clean :: "string \<Rightarrow> bool" where
  "clean s \<longleftrightarrow> s \<noteq> [] \<and> list_all clean_char s"

definition writable :: "topology_configuration \<Rightarrow> bool" where
  "writable c \<longleftrightarrow> clean (topo_name c) \<and> list_all (\<lambda>n. clean (node_id n)) (topo_nodes c) \<and>
     list_all (\<lambda>l. clean (link_from l) \<and> clean (link_to l) \<and> 0 \<le> link_latency_ms l \<and> link_latency_ms l < 2 ^ 63)
       (topo_links c)"

text \<open>A text that is read as the value \<open>v\<close> of a field, and one that may also stand in braces.\<close>

definition unquoted :: "string \<Rightarrow> string option" where
  "unquoted t =
     (if is_quote (hd t) then
        if length t < 2 \<or> last t \<noteq> hd t then None
        else if butlast (tl t) = [] then None else Some (butlast (tl t))
      else Some t)"

definition field_value :: "string \<Rightarrow> string \<Rightarrow> bool" where
  "field_value t v \<longleftrightarrow> t \<noteq> [] \<and> \<not> is_trimmed (hd t) \<and> \<not> is_trimmed (last t) \<and> unquoted t = Some v \<and> CHR 0x0A \<notin> set t \<and>
     (\<forall>rest. \<exists>b. uncommented (Some CHR '' '') None (t @ rest) = t @ uncommented b None rest)"

definition entry_value :: "string \<Rightarrow> string \<Rightarrow> bool" where
  "entry_value t v \<longleftrightarrow> field_value t v \<and> CHR '','' \<notin> set t"

definition spelled_configuration :: "(string \<Rightarrow> string) \<Rightarrow> topology_configuration \<Rightarrow> bool" where
  "spelled_configuration sp c \<longleftrightarrow> field_value (sp (topo_name c)) (topo_name c) \<and>
     (\<forall>n \<in> set (topo_nodes c). entry_value (sp (node_id n)) (node_id n)) \<and>
     (\<forall>l \<in> set (topo_links c). entry_value (sp (link_from l)) (link_from l) \<and> entry_value (sp (link_to l)) (link_to l) \<and>
        0 \<le> link_latency_ms l \<and> link_latency_ms l < 2 ^ 63)"

lemma before_delim:
  "d \<notin> set l \<Longrightarrow> takeWhile (\<lambda>c. c \<noteq> d) (l @ d # s) = l"
  "d \<notin> set l \<Longrightarrow> dropWhile (\<lambda>c. c \<noteq> d) (l @ d # s) = d # s"
  by (induction l) auto

lemma get_lines_Nil [simp]: "get_lines delim [] = []"
  by (simp add: get_lines.simps)

lemma get_lines_split:
  "delim \<notin> set l \<Longrightarrow> get_lines delim (l @ delim # s) = l # get_lines delim s"
  by (subst get_lines.simps) (simp add: before_delim)

lemma get_lines_document:
  assumes "\<forall>l \<in> set ls. delim \<notin> set l"
  shows "get_lines delim (concat (map (\<lambda>l. l @ [delim]) ls)) = ls"
  using assms by (induction ls) (simp_all add: get_lines_split)

lemma get_lines_last: "delim \<notin> set l \<Longrightarrow> l \<noteq> [] \<Longrightarrow> get_lines delim l = [l]"
proof -
  assume "delim \<notin> set l" "l \<noteq> []"
  then have all: "takeWhile (\<lambda>c. c \<noteq> delim) l = l" "dropWhile (\<lambda>c. c \<noteq> delim) l = []"
    by (auto simp: takeWhile_eq_all_conv)
  have "get_lines delim l =
      takeWhile (\<lambda>c. c \<noteq> delim) l # get_lines delim (tl (dropWhile (\<lambda>c. c \<noteq> delim) l))"
    using \<open>l \<noteq> []\<close> by (subst get_lines.simps) simp
  then show ?thesis unfolding all by simp
qed

text \<open>Comments: a piece without quotes leaves the scan as it was, wherever it starts.\<close>

definition plain_piece :: "string \<Rightarrow> bool" where
  "plain_piece s \<longleftrightarrow> s \<noteq> [] \<and> list_all (\<lambda>c. \<not> is_quote c \<and> c \<noteq> CHR ''#'') s"

lemma uncommented_piece:
  "plain_piece p \<Longrightarrow> uncommented b None (p @ rest) = p @ uncommented (Some (last p)) None rest"
proof (induction p arbitrary: b)
  case (Cons c p)
  then show ?case by (cases "p = []") (auto simp: plain_piece_def)
qed (simp add: plain_piece_def)

lemma without_comment_plain: "plain_piece p \<Longrightarrow> without_comment p = p"
  using uncommented_piece [of p None "[]"] by (simp add: without_comment_def)

lemma without_comment_value:
  assumes "plain_piece p" and "last p = CHR '' ''" and "field_value t v"
  shows "\<exists>b. without_comment (p @ t @ rest) = p @ t @ uncommented b None rest"
  using assms uncommented_piece [of p None "t @ rest"] by (auto simp: without_comment_def field_value_def)

lemma without_comment_values:
  assumes "plain_piece p" "last p = CHR '' ''" "field_value t v" "plain_piece q" "last q = CHR '' ''" "field_value u w" "plain_piece r"
  shows "without_comment (p @ t @ q @ u @ r) = p @ t @ q @ u @ r"
proof -
  obtain b where b: "without_comment (p @ t @ q @ u @ r) = p @ t @ uncommented b None (q @ u @ r)"
    using without_comment_value [OF assms(1-3)] by blast
  obtain b' where "uncommented (Some CHR '' '') None (u @ r) = u @ uncommented b' None r"
    using assms(6) by (auto simp: field_value_def)
  then show ?thesis
    using b uncommented_piece [OF assms(4)] assms(5) uncommented_piece [OF assms(7), of b' "[]"] by simp
qed

lemma trim_core:
  assumes "core \<noteq> []" and "\<not> is_trimmed (hd core)" and "\<not> is_trimmed (last core)"
    and "list_all is_trimmed before" and "list_all is_trimmed after"
  shows "trim (before @ core @ after) = core"
proof -
  have front: "dropWhile is_trimmed (before @ core @ after) = core @ after"
    using assms by (cases core) (auto simp: list_all_iff dropWhile_append)
  have "dropWhile is_trimmed (rev after @ rev core) = rev core"
    using assms by (cases core rule: rev_cases) (auto simp: list_all_iff dropWhile_append)
  then show ?thesis by (simp add: trim_def front)
qed

lemma is_trimmed_space: "is_trimmed CHR '' ''"
  by (simp add: is_trimmed_def is_blank_def)

lemma clean_facts:
  assumes "clean s"
  shows "s \<noteq> []" "\<not> is_trimmed (hd s)" "\<not> is_trimmed (last s)" "\<not> is_quote (hd s)" "CHR '':'' \<notin> set s"
    "CHR '','' \<notin> set s" "CHR 0x0A \<notin> set s" "plain_piece s"
  using assms by (auto simp: clean_def clean_char_def list_all_iff plain_piece_def)

lemma clean_value: "clean s \<Longrightarrow> entry_value s s"
  using clean_facts [of s] uncommented_piece [of s] by (auto simp: entry_value_def field_value_def unquoted_def)

text \<open>A field \<open>key: value\<close>, with blanks around it.\<close>

lemma split_field_value:
  assumes "clean key" and "field_value t v" and "list_all is_trimmed before" and "list_all is_trimmed after"
    and "CHR '':'' \<notin> set before"
  shows "split_field (before @ key @ CHR '':'' # CHR '' '' # t @ after) = Some (key, v)"
proof -
  note k = clean_facts [OF assms(1)]
  have t: "t \<noteq> []" "\<not> is_trimmed (hd t)" "\<not> is_trimmed (last t)" "unquoted t = Some v"
    using assms(2) by (auto simp: field_value_def)
  let ?s = "before @ key @ CHR '':'' # CHR '' '' # t @ after"
  have "takeWhile (\<lambda>c. c \<noteq> CHR '':'') ?s = before @ key" "dropWhile (\<lambda>c. c \<noteq> CHR '':'') ?s = CHR '':'' # CHR '' '' # t @ after"
    using before_delim [of "CHR '':''" "before @ key" "CHR '' '' # t @ after"] k(5) assms(5) by simp_all
  moreover have "trim (before @ key) = key"
    using trim_core [OF k(1-3) assms(3), of "[]"] by simp
  moreover have "trim (CHR '' '' # t @ after) = t"
    using trim_core [OF t(1-3) _ assms(4), of "[CHR '' '']"] is_trimmed_space by simp
  ultimately show ?thesis using k(1) t(1,4) by (auto simp: split_field_def unquoted_def split: if_splits)
qed

lemma clean_digits: "clean (dec_of_nat n)"
proof -
  have "clean_char c" if "is_digit c" for c
    using that by (auto simp: clean_char_def is_trimmed_def is_blank_def is_digit_def)
  then show ?thesis using dec_of_nat_digits [of n] by (auto simp: clean_def list_all_iff)
qed

lemma parse_latency_text:
  assumes "0 \<le> l" and "l < 2 ^ 63"
  shows "parse_latency (dec_of_nat (nat l)) = Some l"
proof -
  have n: "nat l < 2 ^ 63" using assms by (simp add: nat_less_iff)
  have "sint (of_nat (nat l) :: u64) = l"
    using assms by (simp add: signed_of_int signed_take_bit_int_eq_self)
  then show ?thesis
    using n dec_of_nat_digits [of "nat l"] by (simp add: parse_latency_def nat_of_dec_inverse list_all_iff)
qed

text \<open>The lines of the document, one by one: what is flushed is settled.\<close>

definition settled_yaml ::
    "yaml_state \<Rightarrow> yaml_section \<Rightarrow> topology_configuration \<Rightarrow> bool \<times> bool \<times> bool \<times> bool \<Rightarrow> bool" where
  "settled_yaml y s c fl \<longleftrightarrow> ys_section y = s \<and>
     (\<exists>y0. flush_entry y = Inr y0 \<and> ys_configuration y0 = c \<and> ys_fields y0 = [] \<and> ys_section y0 = s \<and>
        \<not> ys_has_entry y0 \<and> (ys_has_network y0, ys_has_name y0, ys_has_nodes y0, ys_has_links y0) = fl)"

lemma settled_resting:
  "\<not> ys_has_entry y \<Longrightarrow> ys_fields y = [] \<Longrightarrow>
    settled_yaml y (ys_section y) (ys_configuration y) (ys_has_network y, ys_has_name y, ys_has_nodes y, ys_has_links y)"
  by (simp add: settled_yaml_def flush_entry_def)

lemma yaml_line_empty: "yaml_line [] y = Inr y"
  by (simp add: yaml_line_def without_comment_def trim_def)

lemma yaml_line_top:
  "yaml_line ''network:'' y = top_level_line ''network:'' y"
  "yaml_line ''nodes:'' y = top_level_line ''nodes:'' y"
  "yaml_line ''links:'' y = top_level_line ''links:'' y"
  by (simp_all add: yaml_line_def without_comment_def trim_def is_trimmed_def is_blank_def)

lemma top_level_steps:
  "settled_yaml y s c (False, n, d, l) \<Longrightarrow>
    \<exists>y1. yaml_line ''network:'' y = Inr y1 \<and> settled_yaml y1 NetworkSection c (True, n, d, l)"
  "settled_yaml y s c (w, n, False, l) \<Longrightarrow>
    \<exists>y1. yaml_line ''nodes:'' y = Inr y1 \<and> settled_yaml y1 NodesSection c (w, n, True, l)"
  "settled_yaml y s c (w, n, d, False) \<Longrightarrow>
    \<exists>y1. yaml_line ''links:'' y = Inr y1 \<and> settled_yaml y1 LinksSection c (w, n, d, True)"
  unfolding yaml_line_top top_level_line_def settled_yaml_def
  by (elim conjE exE; simp add: flush_entry_def)+

text \<open>An indented line without comment.\<close>

lemma yaml_line_indented:
  assumes same: "without_comment (CHR '' '' # CHR '' '' # c # rest) = CHR '' '' # CHR '' '' # c # rest" and "\<not> is_trimmed c"
    and "ys_section y \<noteq> NoSection"
  shows "yaml_line (CHR '' '' # CHR '' '' # c # rest) y =
    (if ys_section y = NetworkSection then network_line 2 (c # rest) y
     else if c = CHR ''-'' then entry_line (c # rest) y else field_line 2 (c # rest) y)"
proof -
  let ?line = "CHR '' '' # CHR '' '' # c # rest"
  have front: "dropWhile is_trimmed ?line = c # rest"
    using assms(2) is_trimmed_space by simp
  have "trim ?line \<noteq> []"
    using assms(2) unfolding trim_def front by (simp add: dropWhile_eq_Nil_conv)
  moreover have "is_blank CHR '' ''" "\<not> is_blank CHR ''-''" "\<not> is_blank c"
    using assms(2) by (simp_all add: is_blank_def is_trimmed_def)
  ultimately show ?thesis
    using assms(3) unfolding yaml_line_def same Let_def by (simp add: numeral_2_eq_2)
qed

lemma name_step:
  assumes "settled_yaml y NetworkSection c (w, False, d, l)" and "field_value t name"
  shows "\<exists>y1. yaml_line (''  name: '' @ t) y = Inr y1 \<and>
    settled_yaml y1 NetworkSection (c\<lparr> topo_name := name \<rparr>) (w, True, d, l)"
proof -
  have key: "clean ''name''" by (simp add: clean_def clean_char_def is_trimmed_def is_blank_def)
  have split: "split_field (''name: '' @ t) = Some (''name'', name)"
    using split_field_value [OF key assms(2), of "[]" "[]"] by simp
  have at_name: "ys_section y = NetworkSection" using assms(1) by (simp add: settled_yaml_def)
  have "without_comment (''  name: '' @ t) = ''  name: '' @ t"
    using without_comment_value [OF _ _ assms(2), of "''  name: ''" "[]"] by (auto simp: plain_piece_def)
  then have "yaml_line (CHR '' '' # CHR '' '' # CHR ''n'' # ''ame: '' @ t) y = network_line 2 (CHR ''n'' # ''ame: '' @ t) y"
    using at_name by (subst yaml_line_indented) (simp_all add: is_trimmed_def is_blank_def)
  then have line: "yaml_line (''  name: '' @ t) y = network_line 2 (''name: '' @ t) y" by simp
  show ?thesis
    using assms(1) unfolding line network_line_def split settled_yaml_def
    by (auto simp: flush_entry_def Let_def split: if_splits sum.splits)
qed

text \<open>Two or three fields in braces.\<close>

lemma trim_braces: "trim (CHR '' '' # CHR ''{'' # s @ ''}'') = CHR ''{'' # s @ ''}''"
  using trim_core [of "CHR ''{'' # s @ ''}''" "'' ''" "[]"]
  by (simp add: is_trimmed_def is_blank_def)

lemma get_lines_fields:
  assumes "\<forall>l \<in> set (ls @ [l]). delim \<notin> set l" and "l \<noteq> []"
  shows "get_lines delim (concat (map (\<lambda>l. l @ [delim]) ls) @ l) = ls @ [l]"
  using assms by (induction ls) (simp_all add: get_lines_split get_lines_last)

lemma parse_flow_mapping_entries:
  assumes "\<forall>f \<in> set (fs @ [f]). CHR '','' \<notin> set f" and "f \<noteq> []"
    and "flow_fields (fs @ [f]) [] = Some entries" and "entries \<noteq> []"
  shows "parse_flow_mapping (CHR ''{'' # (concat (map (\<lambda>l. l @ [CHR '','']) fs) @ f) @ ''}'') [] = Some entries"
  using get_lines_fields [OF assms(1,2)] assms(3,4) by (simp add: parse_flow_mapping_def butlast_append)

definition spaced_field :: "string \<Rightarrow> string \<Rightarrow> string" where
  "spaced_field k v = CHR '' '' # k @ CHR '':'' # CHR '' '' # v"

lemma spaced_field_facts:
  assumes "clean k" and "entry_value t v"
  shows "split_field (spaced_field k t) = Some (k, v)" "split_field (spaced_field k t @ '' '') = Some (k, v)"
    "CHR '','' \<notin> set (spaced_field k t)"
proof -
  have t: "field_value t v" "CHR '','' \<notin> set t" using assms(2) by (simp_all add: entry_value_def)
  show "split_field (spaced_field k t) = Some (k, v)" "split_field (spaced_field k t @ '' '') = Some (k, v)"
    using split_field_value [OF assms(1) t(1), of "'' ''" "[]"] split_field_value [OF assms(1) t(1), of "'' ''" "'' ''"]
      is_trimmed_space by (simp_all add: spaced_field_def)
  show "CHR '','' \<notin> set (spaced_field k t)"
    using clean_facts(6) [OF assms(1)] t(2) by (simp add: spaced_field_def)
qed

lemma flow_two:
  assumes "clean k1" "entry_value t1 v1" "clean k2" "entry_value t2 v2" "k1 \<noteq> k2"
  shows "parse_flow_mapping (CHR ''{'' # (spaced_field k1 t1 @ CHR '','' # spaced_field k2 t2 @ '' '') @ ''}'') [] =
    Some [(k1, v1), (k2, v2)]"
  using parse_flow_mapping_entries [of "[spaced_field k1 t1]" "spaced_field k2 t2 @ '' ''" "[(k1, v1), (k2, v2)]"]
    spaced_field_facts [OF assms(1,2)] spaced_field_facts [OF assms(3,4)] assms(5)
  by (simp add: emplace_field_def)

lemma flow_three:
  assumes "clean k1" "entry_value t1 v1" "clean k2" "entry_value t2 v2" "clean k3" "entry_value t3 v3" "distinct [k1, k2, k3]"
  shows "parse_flow_mapping (CHR ''{'' # (spaced_field k1 t1 @ CHR '','' # spaced_field k2 t2 @ CHR '','' #
      spaced_field k3 t3 @ '' '') @ ''}'') [] = Some [(k1, v1), (k2, v2), (k3, v3)]"
  using parse_flow_mapping_entries [of "[spaced_field k1 t1, spaced_field k2 t2]" "spaced_field k3 t3 @ '' ''"
      "[(k1, v1), (k2, v2), (k3, v3)]"]
    spaced_field_facts [OF assms(1,2)] spaced_field_facts [OF assms(3,4)] spaced_field_facts [OF assms(5,6)] assms(7) not_sym
  by (auto simp: emplace_field_def)

text \<open>A line that opens an entry in braces, after which the entry waits to be flushed.\<close>

lemma entry_step:
  assumes "settled_yaml y s c (w, n, d, l)" and "s \<in> {NodesSection, LinksSection}"
    and same: "without_comment (''  - {'' @ body @ ''}'') = ''  - {'' @ body @ ''}''"
    and "parse_flow_mapping (CHR ''{'' # body @ ''}'') [] = Some entries"
  shows "\<exists>y1. yaml_line (''  - {'' @ body @ ''}'') y = Inr y1 \<and> ys_section y1 = s \<and> ys_entry_section y1 = s \<and>
    ys_has_entry y1 \<and> ys_fields y1 = entries \<and> ys_configuration y1 = c \<and>
    (ys_has_network y1, ys_has_name y1, ys_has_nodes y1, ys_has_links y1) = (w, n, d, l)"
proof -
  obtain y0 where y0: "ys_section y = s" "flush_entry y = Inr y0" "ys_configuration y0 = c" "ys_fields y0 = []"
      "ys_section y0 = s" "(ys_has_network y0, ys_has_name y0, ys_has_nodes y0, ys_has_links y0) = (w, n, d, l)"
    using assms(1) by (auto simp: settled_yaml_def)
  let ?rest = "CHR '' '' # CHR ''{'' # body @ ''}''"
  have "yaml_line (CHR '' '' # CHR '' '' # CHR ''-'' # ?rest) y = entry_line (CHR ''-'' # ?rest) y"
  proof (subst yaml_line_indented)
    show "\<not> is_trimmed CHR ''-''" by (simp add: is_trimmed_def is_blank_def)
  qed (use assms(2) y0(1) same in auto)
  then show ?thesis
    using y0 assms(4) trim_braces [of body] by (simp add: entry_line_def Let_def)
qed

lemma plain_keys:
  "clean ''id''" "clean ''type''" "clean ''from''" "clean ''to''" "clean ''latency_ms''" "clean ''host''" "clean ''switch''"
  by (simp_all add: clean_def clean_char_def is_trimmed_def is_blank_def)

lemma plain_text: "clean (node_type_text t)"
  using plain_keys(6,7) by (cases t) (simp_all add: node_type_text_def)

lemma node_step:
  assumes "settled_yaml y NodesSection c (w, n, d, l)" and "entry_value (sp (node_id node)) (node_id node)"
  shows "\<exists>y1. yaml_line (spelled_node sp node) y = Inr y1 \<and>
    settled_yaml y1 NodesSection (c\<lparr> topo_nodes := topo_nodes c @ [node] \<rparr>) (w, n, d, l)"
proof -
  let ?t = "node_type_text (node_type node)" and ?i = "sp (node_id node)"
  let ?body = "spaced_field ''id'' ?i @ CHR '','' # spaced_field ''type'' ?t @ '' ''"
  have flow: "parse_flow_mapping (CHR ''{'' # ?body @ ''}'') [] = Some [(''id'', node_id node), (''type'', ?t)]"
    using flow_two plain_keys(1,2) assms(2) clean_value [OF plain_text] by simp
  have written: "spelled_node sp node = ''  - {'' @ ?body @ ''}''" by (simp add: spelled_node_def spaced_field_def)
  have same: "without_comment (''  - {'' @ ?body @ ''}'') = ''  - {'' @ ?body @ ''}''"
    using without_comment_values [of "''  - { id: ''" ?i "node_id node" "'', type: ''" ?t ?t "'' }''"] assms(2)
      clean_value [OF plain_text, of "node_type node"]
    by (simp add: entry_value_def plain_piece_def spaced_field_def)
  obtain y1 where "yaml_line (spelled_node sp node) y = Inr y1" "ys_section y1 = NodesSection"
      "ys_entry_section y1 = NodesSection" "ys_has_entry y1" "ys_fields y1 = [(''id'', node_id node), (''type'', ?t)]"
      "ys_configuration y1 = c" "(ys_has_network y1, ys_has_name y1, ys_has_nodes y1, ys_has_links y1) = (w, n, d, l)"
    using entry_step [OF assms(1) _ same flow] unfolding written by auto
  then show ?thesis
    by (cases node; cases "node_type node") (simp_all add: settled_yaml_def flush_entry_def node_of_fields_def node_type_text_def)
qed

lemma link_step:
  assumes "settled_yaml y LinksSection c (w, n, d, l)" and "entry_value (sp (link_from link)) (link_from link)"
    and "entry_value (sp (link_to link)) (link_to link)" and "0 \<le> link_latency_ms link" and "link_latency_ms link < 2 ^ 63"
  shows "\<exists>y1. yaml_line (spelled_link sp link) y = Inr y1 \<and>
    settled_yaml y1 LinksSection (c\<lparr> topo_links := topo_links c @ [link] \<rparr>) (w, n, d, l)"
proof -
  let ?t = "dec_of_nat (nat (link_latency_ms link))" and ?f = "sp (link_from link)" and ?g = "sp (link_to link)"
  let ?body = "spaced_field ''from'' ?f @ CHR '','' # spaced_field ''to'' ?g @ CHR '','' # spaced_field ''latency_ms'' ?t @ '' ''"
  let ?entries = "[(''from'', link_from link), (''to'', link_to link), (''latency_ms'', ?t)]"
  have flow: "parse_flow_mapping (CHR ''{'' # ?body @ ''}'') [] = Some ?entries"
    using flow_three [OF plain_keys(3) assms(2) plain_keys(4) assms(3) plain_keys(5) clean_value [OF clean_digits]] by simp
  have written: "spelled_link sp link = ''  - {'' @ ?body @ ''}''" by (simp add: spelled_link_def spaced_field_def)
  have "plain_piece ('', latency_ms: '' @ ?t @ '' }'')"
    using clean_facts(8) [OF clean_digits] by (simp add: plain_piece_def)
  then have same: "without_comment (''  - {'' @ ?body @ ''}'') = ''  - {'' @ ?body @ ''}''"
    using without_comment_values [of "''  - { from: ''" ?f "link_from link" "'', to: ''" ?g "link_to link"
        "'', latency_ms: '' @ ?t @ '' }''"] assms(2,3)
    by (simp add: entry_value_def plain_piece_def spaced_field_def)
  obtain y1 where "yaml_line (spelled_link sp link) y = Inr y1" "ys_section y1 = LinksSection"
      "ys_entry_section y1 = LinksSection" "ys_has_entry y1" "ys_fields y1 = ?entries"
      "ys_configuration y1 = c" "(ys_has_network y1, ys_has_name y1, ys_has_nodes y1, ys_has_links y1) = (w, n, d, l)"
    using entry_step [OF assms(1) _ same flow] unfolding written by auto
  then show ?thesis
    using parse_latency_text [OF assms(4,5)]
    by (cases link) (simp add: settled_yaml_def flush_entry_def link_of_fields_def)
qed

text \<open>All the lines.\<close>

lemma yaml_lines_append:
  "yaml_lines (ls @ ms) y = (case yaml_lines ls y of Inl e \<Rightarrow> Inl e | Inr y \<Rightarrow> yaml_lines ms y)"
  by (induction ls arbitrary: y) (simp_all split: sum.splits)

lemma nodes_lines:
  assumes "settled_yaml y NodesSection c (w, n, d, l)" and "\<forall>n \<in> set ns. entry_value (sp (node_id n)) (node_id n)"
  shows "\<exists>y1. yaml_lines (map (spelled_node sp) ns) y = Inr y1 \<and>
    settled_yaml y1 NodesSection (c\<lparr> topo_nodes := topo_nodes c @ ns \<rparr>) (w, n, d, l)"
  using assms
proof (induction ns arbitrary: y c)
  case (Cons node ns)
  from Cons.prems(2) have node: "entry_value (sp (node_id node)) (node_id node)" by simp
  from node_step [where sp = sp, OF Cons.prems(1) node] obtain y1 where "yaml_line (spelled_node sp node) y = Inr y1"
      "settled_yaml y1 NodesSection (c\<lparr> topo_nodes := topo_nodes c @ [node] \<rparr>) (w, n, d, l)" by blast
  with Cons.IH [of y1 "c\<lparr> topo_nodes := topo_nodes c @ [node] \<rparr>"] Cons.prems show ?case by simp
qed simp

lemma links_lines:
  assumes "settled_yaml y LinksSection c (w, n, d, l)"
    and "\<forall>l \<in> set ls. entry_value (sp (link_from l)) (link_from l) \<and> entry_value (sp (link_to l)) (link_to l) \<and>
      0 \<le> link_latency_ms l \<and> link_latency_ms l < 2 ^ 63"
  shows "\<exists>y1. yaml_lines (map (spelled_link sp) ls) y = Inr y1 \<and>
    settled_yaml y1 LinksSection (c\<lparr> topo_links := topo_links c @ ls \<rparr>) (w, n, d, l)"
  using assms
proof (induction ls arbitrary: y c)
  case (Cons link ls)
  from Cons.prems(2) have link: "entry_value (sp (link_from link)) (link_from link)" "entry_value (sp (link_to link)) (link_to link)"
      "0 \<le> link_latency_ms link" "link_latency_ms link < 2 ^ 63" by simp_all
  from link_step [where sp = sp, OF Cons.prems(1) link] obtain y1 where "yaml_line (spelled_link sp link) y = Inr y1"
      "settled_yaml y1 LinksSection (c\<lparr> topo_links := topo_links c @ [link] \<rparr>) (w, n, d, l)" by blast
  with Cons.IH [of y1 "c\<lparr> topo_links := topo_links c @ [link] \<rparr>"] Cons.prems(2) show ?case by simp
qed simp

lemma spelled_lines_without_newline: "spelled_configuration sp c \<Longrightarrow> \<forall>l \<in> set (spelled_lines sp c). CHR 0x0A \<notin> set l"
proof -
  assume w: "spelled_configuration sp c"
  have digits: "CHR 0x0A \<notin> set (dec_of_nat n)" for n using clean_facts(7) [OF clean_digits] .
  have "CHR 0x0A \<notin> set (spelled_node sp n)" if "n \<in> set (topo_nodes c)" for n
    using w that clean_facts(7) [OF plain_text, of "node_type n"]
    by (simp add: spelled_node_def spelled_configuration_def entry_value_def field_value_def)
  moreover have "CHR 0x0A \<notin> set (spelled_link sp l)" if "l \<in> set (topo_links c)" for l
    using w that digits by (simp add: spelled_link_def spelled_configuration_def entry_value_def field_value_def)
  moreover have "CHR 0x0A \<notin> set (sp (topo_name c))" using w by (simp add: spelled_configuration_def field_value_def)
  ultimately show ?thesis by (simp add: spelled_lines_def ball_Un)
qed

lemma spelled_lines_parsed:
  assumes "spelled_configuration sp c"
  shows "\<exists>y. yaml_lines (spelled_lines sp c) yaml_start = Inr y \<and> settled_yaml y LinksSection c (True, True, True, True)"
proof -
  let ?c0 = "\<lparr> topo_name = [], topo_nodes = [], topo_links = [] \<rparr>"
  let ?c1 = "?c0\<lparr> topo_name := topo_name c \<rparr>" and ?c2 = "?c0\<lparr> topo_name := topo_name c, topo_nodes := topo_nodes c \<rparr>"
  have w: "field_value (sp (topo_name c)) (topo_name c)" "\<forall>n \<in> set (topo_nodes c). entry_value (sp (node_id n)) (node_id n)"
      "\<forall>l \<in> set (topo_links c). entry_value (sp (link_from l)) (link_from l) \<and> entry_value (sp (link_to l)) (link_to l) \<and>
        0 \<le> link_latency_ms l \<and> link_latency_ms l < 2 ^ 63"
    using assms by (simp_all add: spelled_configuration_def)
  have "settled_yaml yaml_start NoSection ?c0 (False, False, False, False)"
    using settled_resting [of yaml_start] by (simp add: yaml_start_def)
  from top_level_steps(1) [OF this] obtain y1 where y1: "yaml_line ''network:'' yaml_start = Inr y1"
      "settled_yaml y1 NetworkSection ?c0 (True, False, False, False)" by blast
  from name_step [OF y1(2) w(1)] obtain y2 where y2: "yaml_line (''  name: '' @ sp (topo_name c)) y1 = Inr y2"
      "settled_yaml y2 NetworkSection ?c1 (True, True, False, False)" by blast
  from top_level_steps(2) [OF y2(2)] obtain y3 where y3: "yaml_line ''nodes:'' y2 = Inr y3"
      "settled_yaml y3 NodesSection ?c1 (True, True, True, False)" by blast
  from nodes_lines [where sp = sp, OF y3(2) w(2)] obtain y4 where y4: "yaml_lines (map (spelled_node sp) (topo_nodes c)) y3 = Inr y4"
      "settled_yaml y4 NodesSection ?c2 (True, True, True, False)" by auto
  from top_level_steps(3) [OF y4(2)] obtain y5 where y5: "yaml_line ''links:'' y4 = Inr y5"
      "settled_yaml y5 LinksSection ?c2 (True, True, True, True)" by blast
  from links_lines [where sp = sp, OF y5(2) w(3)] obtain y6 where y6: "yaml_lines (map (spelled_link sp) (topo_links c)) y5 = Inr y6"
      "settled_yaml y6 LinksSection c (True, True, True, True)" by (cases c) auto
  have "yaml_lines (spelled_lines sp c) yaml_start = Inr y6"
    unfolding spelled_lines_def
    using y1(1) y2(1) y3(1) y4(1) y5(1) y6(1) by (simp add: yaml_line_empty yaml_lines_append)
  with y6(2) show ?thesis by blast
qed

lemma spelled_read_back:
  assumes "spelled_configuration sp c"
  shows "topology_configuration_from_yaml (spelled_document sp c) = Inr c"
proof -
  obtain y where y: "yaml_lines (spelled_lines sp c) yaml_start = Inr y"
      "settled_yaml y LinksSection c (True, True, True, True)"
    using spelled_lines_parsed [OF assms] by blast
  have "get_lines CHR 0x0A (spelled_document sp c) = spelled_lines sp c"
    unfolding spelled_document_def by (rule get_lines_document) (rule spelled_lines_without_newline [OF assms])
  with y show ?thesis by (auto simp: topology_configuration_from_yaml_def settled_yaml_def)
qed

lemma document_read_back: "writable c \<Longrightarrow> topology_configuration_from_yaml (document_text c) = Inr c"
  unfolding document_text_def
  by (rule spelled_read_back)
    (auto simp: spelled_configuration_def writable_def list_all_iff intro: clean_value clean_value [unfolded entry_value_def, THEN conjunct1])

text \<open>A topology file gives back the topology it describes: for every configuration whose names need no
  quoting and whose latencies are representable, the document with one line for the name, each node
  and each link is read as exactly that configuration, nodes and links in their order.\<close>

theorem yaml_document_read_back:
  assumes "writable c"
  shows "topology_configuration_from_yaml (document_text c) = Inr c"
  by (rule document_read_back [OF assms])

definition sample_network :: topology_configuration where
  "sample_network = \<lparr> topo_name = ''lab'',
     topo_nodes = [\<lparr> node_id = ''h1'', node_type = Host \<rparr>, \<lparr> node_id = ''s1'', node_type = Switch \<rparr>],
     topo_links = [\<lparr> link_from = ''h1'', link_to = ''s1'', link_latency_ms = 5 \<rparr>] \<rparr>"

lemma sample_network_writable: "writable sample_network"
  by (simp add: writable_def sample_network_def clean_def clean_char_def is_trimmed_def is_blank_def)

theorem yaml_document_read_back_witness:
  "topology_configuration_from_yaml (document_text sample_network) = Inr sample_network"
  by (rule yaml_document_read_back [OF sample_network_writable])

end
