(* ===== verification/VSwitch.thy ===== *)
theory VSwitch
  imports Mac_Table Fault_Engine
begin

text \<open>
  The switch, \<^verbatim>\<open>include/wirelab/vswitch.hpp\<close> and \<^verbatim>\<open>src/vswitch.cpp\<close>: learning and
  forwarding in \<open>process_frame\<close>, the deferred deliveries of a fault decision, and the
  receive loop one iteration at a time. The frame gate is the C++ interface \<open>FrameGate\<close>: its
  two calls are arguments of the definitions (\<open>None\<close> is the null gate), and the locale
  \<open>frame_gate\<close> states what the switch relies on. Whether the socket accepts a datagram is an
  argument too; every attempt is recorded in \<open>vs_sent\<close> with the clock reading it was made at.
  Logging is not modelled.
\<close>

section \<open>State\<close>

datatype vswitch_error = SocketCreationFailed | BindFailed | AlreadyRunning | NotRunning

definition vswitch_error_text :: "vswitch_error \<Rightarrow> string" where
  "vswitch_error_text e =
     (case e of SocketCreationFailed \<Rightarrow> ''Failed to create socket'' | BindFailed \<Rightarrow> ''Failed to bind socket''
      | AlreadyRunning \<Rightarrow> ''VSwitch is already running'' | NotRunning \<Rightarrow> ''VSwitch is not running'')"

record scheduled_delivery =
  sd_due :: int
  sd_frame :: bytes
  sd_destination :: endpoint

record send_attempt =
  sa_time :: int
  sa_frame :: bytes
  sa_destination :: endpoint
  sa_accepted :: bool

record 'g vswitch =
  vs_table :: mac_table
  vs_metrics :: switch_metrics
  vs_pending :: "scheduled_delivery list"
  vs_running :: bool
  vs_sent :: "send_attempt list"
  vs_gate :: 'g

text \<open>The result of the \<open>n\<close>-th call of \<open>send_to\<close>: up to the operating system.\<close>

type_synonym socket_oracle = "nat \<Rightarrow> bytes \<Rightarrow> endpoint \<Rightarrow> bool"

text \<open>\<open>FrameGate\<close>: \<open>inspect(frame, sender, arrival)\<close>, \<open>tick(now)\<close> and \<open>tick_interval()\<close> in
  milliseconds, on a gate state \<open>'g\<close>.\<close>

record 'g gate_operations =
  gate_inspect :: "bytes \<Rightarrow> endpoint \<Rightarrow> int \<Rightarrow> 'g \<Rightarrow> fault_decision \<times> 'g"
  gate_tick :: "int \<Rightarrow> 'g \<Rightarrow> 'g"
  gate_interval :: "'g \<Rightarrow> int"

definition vs_new :: "'g \<Rightarrow> 'g vswitch" where
  "vs_new g = \<lparr> vs_table = mt_empty, vs_metrics = metrics_zero, vs_pending = [], vs_running = False,
     vs_sent = [], vs_gate = g \<rparr>"

section \<open>Delivery\<close>

definition deliver :: "socket_oracle \<Rightarrow> int \<Rightarrow> bytes \<Rightarrow> endpoint \<Rightarrow> 'g vswitch \<Rightarrow> 'g vswitch" where
  "deliver send now frame dst s =
     (let ok = send (length (vs_sent s)) frame dst
      in s\<lparr> vs_sent := vs_sent s @ [\<lparr> sa_time = now, sa_frame = frame, sa_destination = dst, sa_accepted = ok \<rparr>],
            vs_metrics := (if ok then record_forwarded (of_nat (length frame)) (vs_metrics s)
                           else record_drop (vs_metrics s)) \<rparr>)"

text \<open>The loop of \<open>schedule\<close> over the copies of a decision.\<close>

fun schedule_copies_at ::
    "socket_oracle \<Rightarrow> bytes \<Rightarrow> endpoint \<Rightarrow> int \<Rightarrow> int list \<Rightarrow> 'g vswitch \<Rightarrow> 'g vswitch" where
  "schedule_copies_at send frame dst now [] s = s"
| "schedule_copies_at send frame dst now (due # dues) s =
     schedule_copies_at send frame dst now dues
       (if due \<le> now then deliver send now frame dst s
        else s\<lparr> vs_pending := vs_pending s @ [\<lparr> sd_due = due, sd_frame = frame, sd_destination = dst \<rparr>] \<rparr>)"

definition decision_dues :: "fault_decision \<Rightarrow> int list" where
  "decision_dues d = take (min (delivery_count d) (length (delivery_times d))) (delivery_times d)"

definition schedule ::
    "socket_oracle \<Rightarrow> bytes \<Rightarrow> endpoint \<Rightarrow> fault_decision \<Rightarrow> int \<Rightarrow> 'g vswitch \<Rightarrow> 'g vswitch" where
  "schedule send frame dst d now s = schedule_copies_at send frame dst now (decision_dues d) s"

definition deliver_all :: "socket_oracle \<Rightarrow> int \<Rightarrow> scheduled_delivery list \<Rightarrow> 'g vswitch \<Rightarrow> 'g vswitch" where
  "deliver_all send now ds s = fold (\<lambda>d s. deliver send now (sd_frame d) (sd_destination d) s) ds s"

text \<open>\<open>std::stable_partition\<close> moves the due deliveries to the front and keeps both orders.\<close>

definition drain_due :: "socket_oracle \<Rightarrow> int \<Rightarrow> 'g vswitch \<Rightarrow> 'g vswitch" where
  "drain_due send now s =
     (if vs_pending s = [] then s
      else
        let due = filter (\<lambda>d. sd_due d \<le> now) (vs_pending s);
            late = filter (\<lambda>d. \<not> sd_due d \<le> now) (vs_pending s)
        in (deliver_all send now due s)\<lparr> vs_pending := late \<rparr>)"

text \<open>\<open>duration_cast<milliseconds>\<close> rounds towards zero.\<close>

definition to_milliseconds :: "int \<Rightarrow> int" where
  "to_milliseconds ns = (if ns \<ge> 0 then ns div 1000000 else - ((- ns) div 1000000))"

definition wait_budget :: "'g gate_operations option \<Rightarrow> int \<Rightarrow> 'g vswitch \<Rightarrow> int" where
  "wait_budget gate now s =
     (let budget = (case gate of None \<Rightarrow> 250 | Some g \<Rightarrow> gate_interval g (vs_gate s));
          budget = fold (\<lambda>d b. min b (to_milliseconds (sd_due d - now))) (vs_pending s) budget
      in if budget < 0 then 0 else budget)"

section \<open>One frame\<close>

definition open_decision :: "int \<Rightarrow> fault_decision" where
  "open_decision now = \<lparr> dropped = False, delivery_count = 1, delivery_times = [now, 0] \<rparr>"

definition with_metrics :: "(switch_metrics \<Rightarrow> switch_metrics) \<Rightarrow> 'g vswitch \<Rightarrow> 'g vswitch" where
  "with_metrics f s = s\<lparr> vs_metrics := f (vs_metrics s) \<rparr>"

text \<open>The part of \<open>process_frame\<close> behind the gate: learn, look up, forward, flood or discard.\<close>

definition switch_frame ::
    "socket_oracle \<Rightarrow> bytes \<Rightarrow> ethernet_frame \<Rightarrow> endpoint \<Rightarrow> fault_decision \<Rightarrow> int \<Rightarrow> 'g vswitch \<Rightarrow> 'g vswitch" where
  "switch_frame send data f sender d now s =
     (let (is_new, table) = mt_insert (src_mac f) sender (vs_table s);
          s = s\<lparr> vs_table := table \<rparr>;
          s = (if is_new then with_metrics record_mac_learned s else s)
      in case mt_lookup (vs_table s) (dst_mac f) of
           Some dst \<Rightarrow> schedule send data dst d now s
         | None \<Rightarrow>
             if is_broadcast (dst_mac f)
             then fold (\<lambda>dst s. schedule send data dst d now s)
                    (mt_all_endpoints_except (src_mac f) (vs_table s)) (with_metrics record_broadcast s)
             else with_metrics record_drop (with_metrics record_unknown_unicast s))"

definition gate_decision ::
    "'g gate_operations option \<Rightarrow> bytes \<Rightarrow> endpoint \<Rightarrow> int \<Rightarrow> 'g \<Rightarrow> fault_decision \<times> 'g" where
  "gate_decision gate data sender now g =
     (case gate of None \<Rightarrow> (open_decision now, g) | Some ops \<Rightarrow> gate_inspect ops data sender now g)"

definition process_frame ::
    "socket_oracle \<Rightarrow> 'g gate_operations option \<Rightarrow> bytes \<Rightarrow> endpoint \<Rightarrow> int \<Rightarrow> 'g vswitch \<Rightarrow> 'g vswitch" where
  "process_frame send gate data sender now s =
     (let s = with_metrics (record_received (of_nat (length data))) s
      in case try_parse data of
           Inl _ \<Rightarrow> with_metrics record_drop (with_metrics record_malformed s)
         | Inr f \<Rightarrow>
             let (d, g) = gate_decision gate data sender now (vs_gate s);
                 s = s\<lparr> vs_gate := g \<rparr>
             in if dropped d \<or> delivery_count d = 0 then with_metrics record_drop s
                else switch_frame send data f sender d now s)"

section \<open>The receive loop\<close>

text \<open>What one wait ends with: the socket failed, nothing came, the receive failed, or a frame.\<close>

datatype loop_input = WaitFailed | Idle | ReceiveFailed | Received bytes endpoint

record loop_clock =
  lc_drain :: int
  lc_frame :: int
  lc_tick :: int

definition loop_step ::
    "socket_oracle \<Rightarrow> 'g gate_operations option \<Rightarrow> loop_input \<Rightarrow> loop_clock \<Rightarrow> 'g vswitch \<Rightarrow> 'g vswitch" where
  "loop_step send gate input clock s =
     (if \<not> vs_running s then s\<lparr> vs_pending := [] \<rparr>
      else
        let s = drain_due send (lc_drain clock) s
        in case input of
             WaitFailed \<Rightarrow> s\<lparr> vs_running := False, vs_pending := [] \<rparr>
           | _ \<Rightarrow>
               let s = (case input of
                          Received data sender \<Rightarrow> process_frame send gate data sender (lc_frame clock) s
                        | _ \<Rightarrow> s)
               in case gate of
                    None \<Rightarrow> s
                  | Some ops \<Rightarrow> s\<lparr> vs_gate := gate_tick ops (lc_tick clock) (vs_gate s) \<rparr>)"

definition vs_start :: "'g vswitch \<Rightarrow> vswitch_error + 'g vswitch" where
  "vs_start s = (if vs_running s then Inl AlreadyRunning else Inr (s\<lparr> vs_running := True \<rparr>))"

definition vs_stop :: "'g vswitch \<Rightarrow> 'g vswitch" where
  "vs_stop s = s\<lparr> vs_running := False \<rparr>"

section \<open>What an operation adds to the trace\<close>

definition copy_of :: "bytes \<Rightarrow> endpoint \<Rightarrow> int \<Rightarrow> scheduled_delivery" where
  "copy_of frame dst due = \<lparr> sd_due = due, sd_frame = frame, sd_destination = dst \<rparr>"

lemma schedule_copies_at_frame [frame_simps]:
  "vs_table (schedule_copies_at send frame dst now dues s) = vs_table s"
  "vs_running (schedule_copies_at send frame dst now dues s) = vs_running s"
  "vs_gate (schedule_copies_at send frame dst now dues s) = vs_gate s"
  by (induction send frame dst now dues s rule: schedule_copies_at.induct)
    (simp_all add: deliver_def Let_def)

lemma schedule_frame [frame_simps]:
  "vs_table (schedule send frame dst d now s) = vs_table s"
  "vs_running (schedule send frame dst d now s) = vs_running s"
  "vs_gate (schedule send frame dst d now s) = vs_gate s"
  by (simp_all add: schedule_def frame_simps)

lemma flood_frame [frame_simps]:
  "vs_table (fold (\<lambda>dst s. schedule send data dst d now s) dsts s) = vs_table s"
  "vs_running (fold (\<lambda>dst s. schedule send data dst d now s) dsts s) = vs_running s"
  "vs_gate (fold (\<lambda>dst s. schedule send data dst d now s) dsts s) = vs_gate s"
  by (induction dsts arbitrary: s) (simp_all add: frame_simps)

lemma deliver_all_frame [frame_simps]:
  "vs_table (deliver_all send now ds s) = vs_table s"
  "vs_running (deliver_all send now ds s) = vs_running s"
  "vs_gate (deliver_all send now ds s) = vs_gate s"
  "vs_pending (deliver_all send now ds s) = vs_pending s"
  by (induction ds arbitrary: s) (simp_all add: deliver_all_def deliver_def Let_def)

section \<open>The fate of a frame\<close>

text \<open>What the switch is meant to do with a frame, and the copies that fate schedules.\<close>

datatype frame_fate = MalformedFate | BlockedFate | UnknownFate | Forwarded endpoint | Flooded "endpoint list"

definition frame_fate ::
    "'g gate_operations option \<Rightarrow> bytes \<Rightarrow> endpoint \<Rightarrow> int \<Rightarrow> 'g vswitch \<Rightarrow> frame_fate" where
  "frame_fate gate data sender now s =
     (case try_parse data of
        Inl _ \<Rightarrow> MalformedFate
      | Inr f \<Rightarrow>
          let d = fst (gate_decision gate data sender now (vs_gate s));
              table = snd (mt_insert (src_mac f) sender (vs_table s))
          in if dropped d \<or> delivery_count d = 0 then BlockedFate
             else (case mt_lookup table (dst_mac f) of
                     Some dst \<Rightarrow> Forwarded dst
                   | None \<Rightarrow> if is_broadcast (dst_mac f) then Flooded (mt_all_endpoints_except (src_mac f) table)
                            else UnknownFate))"

definition fate_destinations :: "frame_fate \<Rightarrow> endpoint list" where
  "fate_destinations fate = (case fate of Forwarded dst \<Rightarrow> [dst] | Flooded dsts \<Rightarrow> dsts | _ \<Rightarrow> [])"

definition copies_to :: "bytes \<Rightarrow> int list \<Rightarrow> endpoint list \<Rightarrow> scheduled_delivery list" where
  "copies_to data dues dsts = concat (map (\<lambda>dst. map (copy_of data dst) dues) dsts)"

definition frame_copies ::
    "'g gate_operations option \<Rightarrow> bytes \<Rightarrow> endpoint \<Rightarrow> int \<Rightarrow> 'g vswitch \<Rightarrow> scheduled_delivery list" where
  "frame_copies gate data sender now s =
     copies_to data (decision_dues (fst (gate_decision gate data sender now (vs_gate s))))
       (fate_destinations (frame_fate gate data sender now s))"

section \<open>Every copy once, none early\<close>

text \<open>The attempts so far, each with a due time it did not come before, and the copies \<open>waiting\<close>
  are together the copies that were scheduled.\<close>

definition trace_ok :: "scheduled_delivery list \<Rightarrow> scheduled_delivery list \<Rightarrow> 'g vswitch \<Rightarrow> bool" where
  "trace_ok waiting copies s \<longleftrightarrow>
     (\<exists>dues. list_all2 (\<lambda>a due. due \<le> sa_time a) (vs_sent s) dues \<and>
        mset (map2 (\<lambda>a due. copy_of (sa_frame a) (sa_destination a) due) (vs_sent s) dues) + mset waiting = mset copies)"

lemma trace_ok_deliver:
  assumes "trace_ok (copy_of frame dst due # waiting) copies s" and "due \<le> now"
  shows "trace_ok waiting copies (deliver send now frame dst s)"
proof -
  from assms(1) obtain dues where d: "list_all2 (\<lambda>a due. due \<le> sa_time a) (vs_sent s) dues"
    and m: "mset (map2 (\<lambda>a due. copy_of (sa_frame a) (sa_destination a) due) (vs_sent s) dues) +
      mset (copy_of frame dst due # waiting) = mset copies"
    unfolding trace_ok_def by blast
  have "length (vs_sent s) = length dues" using d by (rule list_all2_lengthD)
  with d m assms(2) show ?thesis
    unfolding trace_ok_def
    by (intro exI [of _ "dues @ [due]"]) (simp add: deliver_def Let_def list_all2_appendI)
qed

lemma trace_ok_weaken:
  "trace_ok waiting copies s \<Longrightarrow> mset waiting' = mset waiting + mset new \<Longrightarrow> mset copies' = mset copies + mset new \<Longrightarrow>
    trace_ok waiting' copies' s"
  unfolding trace_ok_def by (metis union_assoc)

lemma trace_ok_cong: "vs_sent s' = vs_sent s \<Longrightarrow> trace_ok waiting copies s' = trace_ok waiting copies s"
  by (simp add: trace_ok_def)

lemma trace_ok_deliver_all:
  "trace_ok (ds @ waiting) copies s \<Longrightarrow> \<forall>d \<in> set ds. sd_due d \<le> now \<Longrightarrow>
    trace_ok waiting copies (deliver_all send now ds s)"
proof (induction ds arbitrary: s)
  case (Cons d ds)
  have "d = copy_of (sd_frame d) (sd_destination d) (sd_due d)" by (simp add: copy_of_def)
  then have "trace_ok (copy_of (sd_frame d) (sd_destination d) (sd_due d) # (ds @ waiting)) copies s"
    using Cons.prems(1) by simp
  then have "trace_ok (ds @ waiting) copies (deliver send now (sd_frame d) (sd_destination d) s)"
    by (rule trace_ok_deliver) (use Cons.prems(2) in simp)
  with Cons.IH [OF this] Cons.prems(2) show ?case by (simp add: deliver_all_def)
qed (simp add: deliver_all_def)

lemma trace_ok_drain:
  assumes "trace_ok (vs_pending s) copies s"
  shows "trace_ok (vs_pending (drain_due send now s)) copies (drain_due send now s)"
proof (cases "vs_pending s = []")
  case True
  with assms show ?thesis by (simp add: drain_due_def)
next
  case False
  let ?due = "filter (\<lambda>d. sd_due d \<le> now) (vs_pending s)"
  let ?late = "filter (\<lambda>d. \<not> sd_due d \<le> now) (vs_pending s)"
  have "trace_ok (?due @ ?late) copies s"
    using trace_ok_weaken [OF assms, of "?due @ ?late" "[]" copies] by (simp add: multiset_partition)
  then have "trace_ok ?late copies (deliver_all send now ?due s)"
    by (rule trace_ok_deliver_all) simp
  then show ?thesis using False by (simp add: drain_due_def Let_def trace_ok_def)
qed

lemma trace_ok_schedule_copies_at:
  "trace_ok (vs_pending s) copies s \<Longrightarrow>
    trace_ok (vs_pending (schedule_copies_at send data dst now dues s)) (copies @ map (copy_of data dst) dues)
      (schedule_copies_at send data dst now dues s)"
proof (induction dues arbitrary: s copies)
  case (Cons due dues)
  let ?s = "if due \<le> now then deliver send now data dst s
    else s\<lparr> vs_pending := vs_pending s @ [\<lparr> sd_due = due, sd_frame = data, sd_destination = dst \<rparr>] \<rparr>"
  have one: "trace_ok (copy_of data dst due # vs_pending s) (copies @ [copy_of data dst due]) s"
    by (rule trace_ok_weaken [OF Cons.prems, of _ "[copy_of data dst due]"]) simp_all
  have "trace_ok (vs_pending ?s) (copies @ [copy_of data dst due]) ?s"
  proof (cases "due \<le> now")
    case True
    then have "vs_pending ?s = vs_pending s" by (simp add: deliver_def Let_def)
    then show ?thesis using True trace_ok_deliver [OF one True] by simp
  next
    case False
    then show ?thesis
      using trace_ok_weaken [OF one, of "vs_pending s @ [copy_of data dst due]" "[]" "copies @ [copy_of data dst due]"]
      by (simp add: copy_of_def trace_ok_def)
  qed
  from Cons.IH [OF this] show ?case by simp
qed simp

lemma trace_ok_flood:
  "trace_ok (vs_pending s) copies s \<Longrightarrow>
    trace_ok (vs_pending (fold (\<lambda>dst s. schedule send data dst d now s) dsts s))
      (copies @ copies_to data (decision_dues d) dsts)
      (fold (\<lambda>dst s. schedule send data dst d now s) dsts s)"
proof (induction dsts arbitrary: s copies)
  case (Cons dst dsts)
  from Cons.IH [OF trace_ok_schedule_copies_at [OF Cons.prems, of send data dst now "decision_dues d"]]
  show ?case by (simp add: schedule_def copies_to_def)
qed (simp add: copies_to_def)

lemma with_metrics_keeps [simp]:
  "vs_pending (with_metrics f s) = vs_pending s" "vs_sent (with_metrics f s) = vs_sent s"
  "vs_table (with_metrics f s) = vs_table s" "vs_gate (with_metrics f s) = vs_gate s"
  "vs_running (with_metrics f s) = vs_running s" "vs_metrics (with_metrics f s) = f (vs_metrics s)"
  by (simp_all add: with_metrics_def)

text \<open>The fate behind the gate, from the table after learning.\<close>

definition table_fate :: "ethernet_frame \<Rightarrow> mac_table \<Rightarrow> frame_fate" where
  "table_fate f table =
     (case mt_lookup table (dst_mac f) of
        Some dst \<Rightarrow> Forwarded dst
      | None \<Rightarrow> if is_broadcast (dst_mac f) then Flooded (mt_all_endpoints_except (src_mac f) table)
               else UnknownFate)"

lemma trace_ok_switch_frame:
  assumes "trace_ok (vs_pending s) copies s"
  shows "trace_ok (vs_pending (switch_frame send data f sender d now s))
    (copies @ copies_to data (decision_dues d)
      (fate_destinations (table_fate f (snd (mt_insert (src_mac f) sender (vs_table s))))))
    (switch_frame send data f sender d now s)"
proof -
  obtain n t where t: "mt_insert (src_mac f) sender (vs_table s) = (n, t)"
    by (cases "mt_insert (src_mac f) sender (vs_table s)")
  define s1 where "s1 = (if n then with_metrics record_mac_learned (s\<lparr> vs_table := t \<rparr>) else s\<lparr> vs_table := t \<rparr>)"
  have s1: "vs_table s1 = t" "trace_ok (vs_pending s1) copies s1"
    using assms by (simp_all add: s1_def trace_ok_def)
  have flat: "switch_frame send data f sender d now s =
      (case mt_lookup t (dst_mac f) of
         Some dst \<Rightarrow> schedule send data dst d now s1
       | None \<Rightarrow>
           if is_broadcast (dst_mac f)
           then fold (\<lambda>dst s. schedule send data dst d now s) (mt_all_endpoints_except (src_mac f) t)
                  (with_metrics record_broadcast s1)
           else with_metrics record_drop (with_metrics record_unknown_unicast s1))"
    unfolding switch_frame_def Let_def t prod.case s1_def [symmetric] s1(1) by (rule refl)
  have bc: "trace_ok (vs_pending (with_metrics record_broadcast s1)) copies (with_metrics record_broadcast s1)"
    using s1(2) by (simp add: trace_ok_def)
  show ?thesis
  proof (cases "mt_lookup t (dst_mac f)")
    case (Some dst)
    then show ?thesis
      using trace_ok_flood [OF s1(2), of send data d now "[dst]"]
      by (simp add: flat t table_fate_def fate_destinations_def)
  next
    case None
    then show ?thesis
      using trace_ok_flood [OF bc, of send data d now "mt_all_endpoints_except (src_mac f) t"] s1(2)
      by (simp add: flat t table_fate_def fate_destinations_def copies_to_def trace_ok_def)
  qed
qed

lemma frame_fate_eq:
  "try_parse data = Inr f \<Longrightarrow>
    frame_fate gate data sender now s =
      (let d = fst (gate_decision gate data sender now (vs_gate s))
       in if dropped d \<or> delivery_count d = 0 then BlockedFate
          else table_fate f (snd (mt_insert (src_mac f) sender (vs_table s))))"
  by (simp add: frame_fate_def table_fate_def Let_def)

lemma trace_ok_process:
  assumes "trace_ok (vs_pending s) copies s"
  shows "trace_ok (vs_pending (process_frame send gate data sender now s))
    (copies @ frame_copies gate data sender now s) (process_frame send gate data sender now s)"
proof (cases "try_parse data")
  case (Inl e)
  then show ?thesis
    using assms by (simp add: process_frame_def Let_def frame_copies_def frame_fate_def fate_destinations_def
        copies_to_def trace_ok_def)
next
  case (Inr f)
  obtain d g where d: "gate_decision gate data sender now (vs_gate s) = (d, g)"
    by (cases "gate_decision gate data sender now (vs_gate s)")
  define s1 where "s1 = (with_metrics (record_received (of_nat (length data))) s)\<lparr> vs_gate := g \<rparr>"
  have s1: "trace_ok (vs_pending s1) copies s1" "vs_table s1 = vs_table s"
    using assms by (simp_all add: s1_def trace_ok_def)
  have flat: "process_frame send gate data sender now s =
      (if dropped d \<or> delivery_count d = 0 then with_metrics record_drop s1
       else switch_frame send data f sender d now s1)"
    by (simp add: process_frame_def Inr d s1_def Let_def)
  show ?thesis
    using trace_ok_switch_frame [OF s1(1), of send data f sender d now] s1
    by (simp add: flat frame_copies_def frame_fate_eq [OF Inr] d Let_def fate_destinations_def
        copies_to_def trace_ok_def)
qed

section \<open>What the counters count\<close>

definition is_flood :: "frame_fate \<Rightarrow> bool" where
  "is_flood fate = (case fate of Flooded _ \<Rightarrow> True | _ \<Rightarrow> False)"

definition is_discard :: "frame_fate \<Rightarrow> bool" where
  "is_discard fate \<longleftrightarrow> fate = MalformedFate \<or> fate = BlockedFate \<or> fate = UnknownFate"

definition expected_metrics :: "frame_fate list \<Rightarrow> bytes list \<Rightarrow> nat \<Rightarrow> send_attempt list \<Rightarrow> switch_metrics" where
  "expected_metrics fates frames known sent =
     \<lparr> received_packets = of_nat (length fates),
       received_bytes = (\<Sum>data \<leftarrow> frames. of_nat (length data)),
       forwarded_packets = of_nat (length (filter sa_accepted sent)),
       forwarded_bytes = (\<Sum>a \<leftarrow> filter sa_accepted sent. of_nat (length (sa_frame a))),
       broadcast_packets = of_nat (length (filter is_flood fates)),
       unknown_unicast_packets = of_nat (length (filter (\<lambda>x. x = UnknownFate) fates)),
       dropped_packets = of_nat (length (filter is_discard fates)) + of_nat (length (filter (\<lambda>a. \<not> sa_accepted a) sent)),
       malformed_packets = of_nat (length (filter (\<lambda>x. x = MalformedFate) fates)),
       learned_macs = of_nat known \<rparr>"

definition counts_ok :: "frame_fate list \<Rightarrow> bytes list \<Rightarrow> nat \<Rightarrow> 'g vswitch \<Rightarrow> bool" where
  "counts_ok fates frames known s \<longleftrightarrow> vs_metrics s = expected_metrics fates frames known (vs_sent s)"

lemma counts_ok_deliver: "counts_ok F B n s \<Longrightarrow> counts_ok F B n (deliver send now frame dst s)"
  by (simp add: counts_ok_def deliver_def Let_def expected_metrics_def record_defs)

lemma counts_ok_schedule_at:
  "counts_ok F B n s \<Longrightarrow> counts_ok F B n (schedule_copies_at send frame dst now dues s)"
proof (induction dues arbitrary: s)
  case (Cons due dues)
  have "counts_ok F B n (s\<lparr> vs_pending := ps \<rparr>)" for ps using Cons.prems by (simp add: counts_ok_def)
  with Cons show ?case by (simp add: counts_ok_deliver)
qed simp

lemma counts_ok_flood:
  "counts_ok F B n s \<Longrightarrow> counts_ok F B n (fold (\<lambda>dst s. schedule send data dst d now s) dsts s)"
  by (induction dsts arbitrary: s) (simp_all add: schedule_def counts_ok_schedule_at)

lemma counts_ok_drain:
  assumes "counts_ok F B n s"
  shows "counts_ok F B n (drain_due send now s)"
proof -
  have "counts_ok F B n (deliver_all send now ds s)" for ds
    using assms by (induction ds arbitrary: s) (simp_all add: deliver_all_def counts_ok_deliver)
  with assms show ?thesis by (simp add: drain_due_def Let_def counts_ok_def)
qed

lemma expected_metrics_fate:
  "expected_metrics (F @ [MalformedFate]) B n sent =
     record_drop (record_malformed (expected_metrics F B n sent)) \<lparr> received_packets := of_nat (length F) + 1 \<rparr>"
  "expected_metrics (F @ [BlockedFate]) B n sent =
     record_drop (expected_metrics F B n sent) \<lparr> received_packets := of_nat (length F) + 1 \<rparr>"
  "expected_metrics (F @ [UnknownFate]) B n sent =
     record_drop (record_unknown_unicast (expected_metrics F B n sent)) \<lparr> received_packets := of_nat (length F) + 1 \<rparr>"
  "expected_metrics (F @ [Forwarded dst]) B n sent =
     expected_metrics F B n sent \<lparr> received_packets := of_nat (length F) + 1 \<rparr>"
  "expected_metrics (F @ [Flooded dsts]) B n sent =
     record_broadcast (expected_metrics F B n sent) \<lparr> received_packets := of_nat (length F) + 1 \<rparr>"
  by (simp_all add: expected_metrics_def record_defs is_discard_def is_flood_def)

lemma counts_ok_process:
  assumes "counts_ok F B (length (vs_table s)) s"
  shows "counts_ok (F @ [frame_fate gate data sender now s]) (B @ [data])
    (length (vs_table (process_frame send gate data sender now s))) (process_frame send gate data sender now s)"
proof -
  let ?s0 = "with_metrics (record_received (of_nat (length data))) s"
  have m0: "vs_metrics ?s0 = expected_metrics F (B @ [data]) (length (vs_table s)) (vs_sent s)
      \<lparr> received_packets := of_nat (length F) + 1 \<rparr>"
    using assms by (simp add: counts_ok_def expected_metrics_def record_defs)
  show ?thesis
  proof (cases "try_parse data")
    case (Inl e)
    then show ?thesis
      using m0 by (simp add: process_frame_def Let_def frame_fate_def counts_ok_def expected_metrics_fate record_defs)
  next
    case (Inr f)
    obtain d g where d: "gate_decision gate data sender now (vs_gate s) = (d, g)"
      by (cases "gate_decision gate data sender now (vs_gate s)")
    define s1 where "s1 = ?s0\<lparr> vs_gate := g \<rparr>"
    have s1: "vs_metrics s1 = vs_metrics ?s0" "vs_sent s1 = vs_sent s" "vs_table s1 = vs_table s"
      by (simp_all add: s1_def)
    have flat: "process_frame send gate data sender now s =
        (if dropped d \<or> delivery_count d = 0 then with_metrics record_drop s1
         else switch_frame send data f sender d now s1)"
      by (simp add: process_frame_def Inr d s1_def Let_def)
    show ?thesis
    proof (cases "dropped d \<or> delivery_count d = 0")
      case True
      then show ?thesis
        using m0 s1
        by (auto simp: flat frame_fate_eq [OF Inr] d Let_def counts_ok_def expected_metrics_fate record_defs)
    next
      case False
      obtain n t where t: "mt_insert (src_mac f) sender (vs_table s) = (n, t)"
        by (cases "mt_insert (src_mac f) sender (vs_table s)")
      have len: "length t = length (vs_table s) + (if n then 1 else 0)"
        using length_mt_insert [of "src_mac f" sender "vs_table s"] by (simp add: t)
      define s2 where "s2 = (if n then with_metrics record_mac_learned (s1\<lparr> vs_table := t \<rparr>) else s1\<lparr> vs_table := t \<rparr>)"
      have m1: "vs_metrics s1 = expected_metrics F (B @ [data]) (length (vs_table s)) (vs_sent s)
          \<lparr> received_packets := of_nat (length F) + 1 \<rparr>"
        unfolding s1(1) by (rule m0)
      have s2: "vs_table s2 = t" "vs_sent s2 = vs_sent s"
        by (simp_all add: s2_def s1)
      have m2: "vs_metrics s2 = expected_metrics F (B @ [data]) (length t) (vs_sent s) \<lparr> received_packets := of_nat (length F) + 1 \<rparr>"
        unfolding s2_def by (cases n) (simp_all add: m1 len expected_metrics_def record_defs)
      note s2 = s2 m2
      have flat2: "switch_frame send data f sender d now s1 =
          (case mt_lookup t (dst_mac f) of
             Some dst \<Rightarrow> schedule send data dst d now s2
           | None \<Rightarrow>
               if is_broadcast (dst_mac f)
               then fold (\<lambda>dst s. schedule send data dst d now s) (mt_all_endpoints_except (src_mac f) t)
                      (with_metrics record_broadcast s2)
               else with_metrics record_drop (with_metrics record_unknown_unicast s2))"
        unfolding switch_frame_def Let_def s1(3) t prod.case s2_def [symmetric] s2(1) by (rule refl)
      have fate: "frame_fate gate data sender now s = table_fate f t"
        using False by (simp add: frame_fate_eq [OF Inr] d Let_def t)
      have forward: "counts_ok (F @ [Forwarded dst]) (B @ [data]) (length t) s2" for dst
        using s2 by (simp add: counts_ok_def expected_metrics_fate)
      have flood: "counts_ok (F @ [Flooded dsts]) (B @ [data]) (length t) (with_metrics record_broadcast s2)" for dsts
        using s2 by (simp add: counts_ok_def expected_metrics_fate record_defs)
      have unknown: "counts_ok (F @ [UnknownFate]) (B @ [data]) (length t)
          (with_metrics record_drop (with_metrics record_unknown_unicast s2))"
        using s2 by (simp add: counts_ok_def expected_metrics_fate record_defs)
      show ?thesis
        using False forward flood unknown s2(1)
        by (simp add: flat flat2 fate table_fate_def frame_simps counts_ok_flood
            counts_ok_schedule_at schedule_def split: option.split)
    qed
  qed
qed

section \<open>Runs of the loop\<close>

definition vs_run ::
    "socket_oracle \<Rightarrow> 'g gate_operations option \<Rightarrow> (loop_input \<times> loop_clock) list \<Rightarrow> 'g vswitch \<Rightarrow> 'g vswitch" where
  "vs_run send gate events s = fold (\<lambda>(input, clock). loop_step send gate input clock) events s"

text \<open>What a frame reaches \<open>process_frame\<close> with in one iteration, if one does.\<close>

definition processed :: "socket_oracle \<Rightarrow> loop_input \<Rightarrow> loop_clock \<Rightarrow> 'g vswitch \<Rightarrow> (bytes \<times> endpoint \<times> 'g vswitch) list" where
  "processed send input clock s =
     (if vs_running s
      then (case input of Received data sender \<Rightarrow> [(data, sender, drain_due send (lc_drain clock) s)] | _ \<Rightarrow> [])
      else [])"

text \<open>The arrivals of a run, each with the switch it found and the clock reading.\<close>

fun arrivals ::
    "socket_oracle \<Rightarrow> 'g gate_operations option \<Rightarrow> (loop_input \<times> loop_clock) list \<Rightarrow> 'g vswitch
      \<Rightarrow> (bytes \<times> endpoint \<times> int \<times> 'g vswitch) list" where
  "arrivals send gate [] s = []"
| "arrivals send gate ((input, clock) # events) s =
     map (\<lambda>(data, sender, s). (data, sender, lc_frame clock, s)) (processed send input clock s) @
     arrivals send gate events (loop_step send gate input clock s)"

definition run_fates ::
    "socket_oracle \<Rightarrow> 'g gate_operations option \<Rightarrow> (loop_input \<times> loop_clock) list \<Rightarrow> 'g vswitch \<Rightarrow> frame_fate list" where
  "run_fates send gate events s =
     map (\<lambda>(data, sender, now, s). frame_fate gate data sender now s) (arrivals send gate events s)"

definition run_frames ::
    "socket_oracle \<Rightarrow> 'g gate_operations option \<Rightarrow> (loop_input \<times> loop_clock) list \<Rightarrow> 'g vswitch \<Rightarrow> bytes list" where
  "run_frames send gate events s = map fst (arrivals send gate events s)"

definition run_copies ::
    "socket_oracle \<Rightarrow> 'g gate_operations option \<Rightarrow> (loop_input \<times> loop_clock) list \<Rightarrow> 'g vswitch \<Rightarrow> scheduled_delivery list" where
  "run_copies send gate events s =
     concat (map (\<lambda>(data, sender, now, s). frame_copies gate data sender now s) (arrivals send gate events s))"

text \<open>The addresses a frame teaches: none when it is malformed or blocked.\<close>

definition frame_lesson ::
    "'g gate_operations option \<Rightarrow> bytes \<Rightarrow> endpoint \<Rightarrow> int \<Rightarrow> 'g vswitch \<Rightarrow> (mac_address \<times> endpoint) list" where
  "frame_lesson gate data sender now s =
     (case try_parse data of
        Inl _ \<Rightarrow> []
      | Inr f \<Rightarrow> if frame_fate gate data sender now s = BlockedFate then [] else [(src_mac f, sender)])"

definition run_lessons ::
    "socket_oracle \<Rightarrow> 'g gate_operations option \<Rightarrow> (loop_input \<times> loop_clock) list \<Rightarrow> 'g vswitch
      \<Rightarrow> (mac_address \<times> endpoint) list" where
  "run_lessons send gate events s =
     concat (map (\<lambda>(data, sender, now, s). frame_lesson gate data sender now s) (arrivals send gate events s))"

lemmas run_defs = run_fates_def run_frames_def run_copies_def run_lessons_def

text \<open>An iteration is a drain, then the frame, then state the properties do not look at.\<close>

lemma drain_due_frame [frame_simps]:
  "vs_table (drain_due send now s) = vs_table s" "vs_running (drain_due send now s) = vs_running s"
  "vs_gate (drain_due send now s) = vs_gate s"
  by (simp_all add: drain_due_def Let_def frame_simps)

lemma switch_frame_running [frame_simps]: "vs_running (switch_frame send data f sender d now s) = vs_running s"
  by (simp add: switch_frame_def Let_def frame_simps split: option.split prod.split)

lemma process_frame_running [frame_simps]: "vs_running (process_frame send gate data sender now s) = vs_running s"
  by (simp add: process_frame_def Let_def frame_simps split: sum.split prod.split)

lemma loop_step_running:
  assumes "vs_running (loop_step send gate input clock s)"
  shows "vs_running s \<and> input \<noteq> WaitFailed"
  using assms by (auto simp: loop_step_def Let_def split: if_splits)

text \<open>The state an iteration reaches before the gate's tick, which changes only the gate.\<close>

definition after_input :: "socket_oracle \<Rightarrow> 'g gate_operations option \<Rightarrow> loop_input \<Rightarrow> loop_clock \<Rightarrow> 'g vswitch \<Rightarrow> 'g vswitch" where
  "after_input send gate input clock s =
     (case input of
        Received data sender \<Rightarrow> process_frame send gate data sender (lc_frame clock) (drain_due send (lc_drain clock) s)
      | _ \<Rightarrow> drain_due send (lc_drain clock) s)"

lemma loop_step_after_input:
  assumes "vs_running s"
  shows "vs_sent (loop_step send gate input clock s) = vs_sent (after_input send gate input clock s)"
    and "vs_table (loop_step send gate input clock s) = vs_table (after_input send gate input clock s)"
    and "vs_metrics (loop_step send gate input clock s) = vs_metrics (after_input send gate input clock s)"
    and "input \<noteq> WaitFailed \<Longrightarrow>
      vs_pending (loop_step send gate input clock s) = vs_pending (after_input send gate input clock s)"
  using assms by (cases input; cases gate; simp add: loop_step_def after_input_def Let_def)+

lemma loop_step_stopped: "\<not> vs_running s \<Longrightarrow> loop_step send gate input clock s = s\<lparr> vs_pending := [] \<rparr>"
  by (simp add: loop_step_def)

lemma vs_run_Cons [simp]:
  "vs_run send gate [] s = s"
  "vs_run send gate ((input, clock) # events) s = vs_run send gate events (loop_step send gate input clock s)"
  by (simp_all add: vs_run_def)

lemma vs_run_running: "vs_running (vs_run send gate events s) \<Longrightarrow> vs_running s"
proof (induction events arbitrary: s)
  case (Cons ev events)
  then have "vs_running (loop_step send gate (fst ev) (snd ev) s)" by (cases ev) simp
  then show ?case by (simp add: loop_step_running)
qed simp

text \<open>The three facts about a run are inductions over its events, one iteration at a time.\<close>

lemma trace_ok_run:
  assumes "vs_running (vs_run send gate events s)" and "trace_ok (vs_pending s) copies s"
  shows "trace_ok (vs_pending (vs_run send gate events s)) (copies @ run_copies send gate events s)
    (vs_run send gate events s)"
  using assms
proof (induction events arbitrary: s copies)
  case (Cons ev events)
  obtain input clock where ev: "ev = (input, clock)" by (cases ev)
  let ?t = "loop_step send gate input clock s" and ?u = "after_input send gate input clock s"
  let ?new = "case input of Received data sender \<Rightarrow>
      frame_copies gate data sender (lc_frame clock) (drain_due send (lc_drain clock) s) | _ \<Rightarrow> []"
  have "vs_running ?t" using Cons.prems(1) vs_run_running [of send gate events ?t] by (simp add: ev)
  then have run: "vs_running s" "input \<noteq> WaitFailed" by (simp_all add: loop_step_running)
  note drained = trace_ok_drain [OF Cons.prems(2), of send "lc_drain clock"]
  have "trace_ok (vs_pending ?u) (copies @ ?new) ?u"
    by (cases input) (simp_all add: after_input_def drained trace_ok_process [OF drained])
  then have "trace_ok (vs_pending ?t) (copies @ ?new) ?t"
    using run by (simp add: trace_ok_def loop_step_after_input)
  from Cons.IH [OF _ this] Cons.prems(1)
  have "trace_ok (vs_pending (vs_run send gate events ?t)) ((copies @ ?new) @ run_copies send gate events ?t)
      (vs_run send gate events ?t)"
    by (simp add: ev)
  moreover have "run_copies send gate (ev # events) s = ?new @ run_copies send gate events ?t"
    using run by (cases input) (simp_all add: ev run_copies_def processed_def)
  ultimately show ?case by (simp add: ev)
qed (simp add: run_copies_def)

lemma counts_ok_run:
  assumes "counts_ok F B (length (vs_table s)) s"
  shows "counts_ok (F @ run_fates send gate events s) (B @ run_frames send gate events s)
    (length (vs_table (vs_run send gate events s))) (vs_run send gate events s)"
  using assms
proof (induction events arbitrary: s F B)
  case (Cons ev events)
  obtain input clock where ev: "ev = (input, clock)" by (cases ev)
  let ?t = "loop_step send gate input clock s" and ?u = "after_input send gate input clock s"
  let ?p = "processed send input clock s"
  let ?F = "map (\<lambda>(data, sender, s). frame_fate gate data sender (lc_frame clock) s) ?p" and ?B = "map fst ?p"
  have "counts_ok (F @ ?F) (B @ ?B) (length (vs_table ?t)) ?t"
  proof (cases "vs_running s")
    case True
    have drained: "counts_ok F B (length (vs_table (drain_due send (lc_drain clock) s))) (drain_due send (lc_drain clock) s)"
      using counts_ok_drain [OF Cons.prems] by (simp add: frame_simps)
    have "counts_ok (F @ ?F) (B @ ?B) (length (vs_table ?u)) ?u"
      using True by (cases input) (simp_all add: after_input_def processed_def drained counts_ok_process [OF drained])
    then show ?thesis using True by (simp add: counts_ok_def loop_step_after_input)
  next
    case False
    then show ?thesis using Cons.prems by (simp add: loop_step_stopped processed_def counts_ok_def)
  qed
  from Cons.IH [OF this] show ?case
    by (simp add: ev run_fates_def run_frames_def case_prod_unfold comp_def)
qed (simp add: run_fates_def run_frames_def)

text \<open>The table after a run is the fold of the lessons.\<close>

abbreviation learn_pairs :: "(mac_address \<times> endpoint) list \<Rightarrow> mac_table \<Rightarrow> mac_table" where
  "learn_pairs pairs t \<equiv> fold (\<lambda>(m, e) t. snd (mt_insert m e t)) pairs t"

lemma switch_frame_table:
  "vs_table (switch_frame send data f sender d now s) = snd (mt_insert (src_mac f) sender (vs_table s))"
  by (simp add: switch_frame_def Let_def frame_simps case_prod_unfold split: option.split)

lemma process_frame_table:
  "vs_table (process_frame send gate data sender now s) = learn_pairs (frame_lesson gate data sender now s) (vs_table s)"
proof (cases "try_parse data")
  case (Inr f)
  then show ?thesis
    by (simp add: process_frame_def frame_lesson_def frame_fate_eq Let_def case_prod_unfold switch_frame_table
        table_fate_def split: option.split)
qed (simp add: process_frame_def frame_lesson_def Let_def)

lemma vs_run_table:
  "vs_table (vs_run send gate events s) = learn_pairs (run_lessons send gate events s) (vs_table s)"
proof (induction events arbitrary: s)
  case (Cons ev events)
  obtain input clock where ev: "ev = (input, clock)" by (cases ev)
  let ?t = "loop_step send gate input clock s"
  let ?new = "concat (map (\<lambda>(data, sender, s). frame_lesson gate data sender (lc_frame clock) s)
      (processed send input clock s))"
  have "vs_table ?t = learn_pairs ?new (vs_table s)"
  proof (cases "vs_running s")
    case True
    then have "vs_table ?t = vs_table (after_input send gate input clock s)" by (rule loop_step_after_input)
    also have "\<dots> = learn_pairs ?new (vs_table s)"
      using True by (cases input) (simp_all add: after_input_def processed_def process_frame_table frame_simps)
    finally show ?thesis .
  qed (simp add: loop_step_stopped processed_def)
  with Cons.IH [of ?t] show ?case
    by (simp add: ev run_lessons_def case_prod_unfold comp_def)
qed (simp add: run_lessons_def)

lemma learned_lookup: "mt_lookup (learn_pairs pairs mt_empty) = map_of (rev pairs)"
proof -
  have "mt_lookup (learn_pairs pairs mt_empty) = mt_lookup mt_empty ++ map_of (rev pairs)"
    by (rule mac_tbl.find_learn_all [OF mac_tbl.invar_empty])
  moreover have "mt_lookup mt_empty = Map.empty" by (rule ext) (rule mac_tbl.find_empty)
  ultimately show ?thesis by simp
qed

lemma learned_ok: "mt_ok (learn_pairs pairs mt_empty)"
  by (rule mac_tbl.invar_learn_all [OF mac_tbl.invar_empty])

section \<open>The contract of the gate\<close>

text \<open>What the switch relies on, of a gate in a state the gate keeps: a frame that passes is sent once or
  twice to each destination, and no copy before it arrived.\<close>

locale frame_gate =
  fixes ops :: "'g gate_operations"
    and gate_ok :: "'g \<Rightarrow> bool"
  assumes inspect_slots: "gate_ok g \<Longrightarrow> length (delivery_times (fst (gate_inspect ops data sender arrival g))) = 2"
    and inspect_count: "gate_ok g \<Longrightarrow> dropped (fst (gate_inspect ops data sender arrival g)) \<or>
      delivery_count (fst (gate_inspect ops data sender arrival g)) \<in> {1, 2}"
    and inspect_later: "gate_ok g \<Longrightarrow> \<not> dropped (fst (gate_inspect ops data sender arrival g)) \<Longrightarrow>
      t \<in> set (decision_dues (fst (gate_inspect ops data sender arrival g))) \<Longrightarrow> arrival \<le> t"
    and inspect_keeps: "gate_ok g \<Longrightarrow> gate_ok (snd (gate_inspect ops data sender arrival g))"
    and tick_keeps: "gate_ok g \<Longrightarrow> gate_ok (gate_tick ops now g)"
begin

lemma sent_not_dropped:
  assumes "fate_destinations (frame_fate (Some ops) data sender now s) \<noteq> []"
  shows "\<not> dropped (fst (gate_inspect ops data sender now (vs_gate s)))"
  using assms
  by (auto simp: frame_fate_def gate_decision_def fate_destinations_def Let_def split: sum.splits if_splits)

lemma copies_per_destination:
  assumes "gate_ok (vs_gate s)"
  shows "length (frame_copies (Some ops) data sender now s) =
     length (fate_destinations (frame_fate (Some ops) data sender now s)) *
     delivery_count (fst (gate_inspect ops data sender now (vs_gate s)))"
proof (cases "fate_destinations (frame_fate (Some ops) data sender now s) = []")
  case False
  have "length (copies_to data dues dsts) = length dsts * length dues" for dues dsts
    by (induction dsts) (simp_all add: copies_to_def)
  then show ?thesis
    using sent_not_dropped [OF False] inspect_slots [OF assms] inspect_count [OF assms, of data sender now]
    by (auto simp: frame_copies_def gate_decision_def decision_dues_def)
qed (simp add: frame_copies_def copies_to_def)

lemma copies_later:
  assumes "gate_ok (vs_gate s)" and "c \<in> set (frame_copies (Some ops) data sender now s)"
  shows "now \<le> sd_due c"
proof -
  have "fate_destinations (frame_fate (Some ops) data sender now s) \<noteq> []"
    using assms(2) by (auto simp: frame_copies_def copies_to_def)
  from sent_not_dropped [OF this] show ?thesis
    using assms(2) inspect_later [OF assms(1), of data sender now]
    by (auto simp: frame_copies_def copies_to_def copy_of_def gate_decision_def)
qed

lemma copies_bounded:
  assumes "gate_ok (vs_gate s)"
  shows "length (fate_destinations (frame_fate (Some ops) data sender now s)) \<le>
      length (frame_copies (Some ops) data sender now s) \<and>
    length (frame_copies (Some ops) data sender now s) \<le>
      2 * length (fate_destinations (frame_fate (Some ops) data sender now s))"
proof (cases "fate_destinations (frame_fate (Some ops) data sender now s) = []")
  case False
  then show ?thesis
    using sent_not_dropped [OF False] inspect_count [OF assms, of data sender now]
    unfolding copies_per_destination [OF assms] by auto
qed (simp add: frame_copies_def copies_to_def)

lemma process_keeps:
  "gate_ok (vs_gate s) \<Longrightarrow> gate_ok (vs_gate (process_frame send (Some ops) data sender now s))"
  by (simp add: process_frame_def switch_frame_def gate_decision_def Let_def frame_simps inspect_keeps case_prod_unfold
      split: sum.split option.split)

lemma step_keeps:
  assumes "gate_ok (vs_gate s)"
  shows "gate_ok (vs_gate (loop_step send (Some ops) input clock s))"
  using assms
  by (cases input) (simp_all add: loop_step_def Let_def frame_simps tick_keeps process_keeps)

lemma run_keeps: "gate_ok (vs_gate s) \<Longrightarrow> gate_ok (vs_gate (vs_run send (Some ops) events s))"
proof (induction events arbitrary: s)
  case (Cons ev events)
  then show ?case by (cases ev) (simp add: step_keeps)
qed simp

lemma arrivals_keep:
  "gate_ok (vs_gate s) \<Longrightarrow> (data, sender, now, s') \<in> set (arrivals send (Some ops) events s) \<Longrightarrow> gate_ok (vs_gate s')"
proof (induction events arbitrary: s)
  case (Cons ev events)
  obtain input clock where ev: "ev = (input, clock)" by (cases ev)
  from Cons.prems(2) consider
    "(data, sender, s') \<in> set (processed send input clock s)"
    | "(data, sender, now, s') \<in> set (arrivals send (Some ops) events (loop_step send (Some ops) input clock s))"
    by (auto simp: ev)
  then show ?case
  proof cases
    case 1
    then have "vs_gate s' = vs_gate s"
      by (cases "vs_running s"; cases input) (simp_all add: processed_def frame_simps)
    then show ?thesis using Cons.prems(1) by simp
  next
    case 2
    show ?thesis by (rule Cons.IH [OF step_keeps [OF Cons.prems(1)] 2])
  qed
qed simp

lemma run_copies_later:
  assumes "gate_ok (vs_gate s)" and "c \<in> set (run_copies send (Some ops) events s)"
  shows "\<exists>(data, sender, now, s') \<in> set (arrivals send (Some ops) events s).
    sd_frame c = data \<and> now \<le> sd_due c \<and> c \<in> set (frame_copies (Some ops) data sender now s')"
proof -
  obtain data sender now s' where a: "(data, sender, now, s') \<in> set (arrivals send (Some ops) events s)"
    and c: "c \<in> set (frame_copies (Some ops) data sender now s')"
    using assms(2) by (auto simp: run_copies_def)
  have "sd_frame c = data" using c by (auto simp: frame_copies_def copies_to_def copy_of_def)
  moreover have "now \<le> sd_due c" by (rule copies_later [OF arrivals_keep [OF assms(1) a] c])
  ultimately show ?thesis using a c by blast
qed

end

text \<open>The endpoints that the addresses \<open>known\<close> so far call for: one for an address that is known, one for each other known
  address for a broadcast, and none otherwise.\<close>

definition learned_destinations :: "(mac_address \<Rightarrow> endpoint option) \<Rightarrow> ethernet_frame \<Rightarrow> endpoint list \<Rightarrow> bool" where
  "learned_destinations known f dsts \<longleftrightarrow>
     (case known (dst_mac f) of
        Some dst \<Rightarrow> dsts = [dst]
      | None \<Rightarrow>
          if is_broadcast (dst_mac f)
          then \<exists>macs. distinct macs \<and> set macs = {m. m \<noteq> src_mac f \<and> known m \<noteq> None} \<and> map known macs = map Some dsts
          else dsts = [])"

lemma learned_destinations_table:
  assumes "mt_ok t"
  shows "learned_destinations (mt_lookup t) f (fate_destinations (table_fate f t))"
proof -
  let ?others = "filter (\<lambda>p. fst p \<noteq> src_mac f) t"
  have "mt_lookup t (fst p) = Some (snd p)" if "p \<in> set t" for p
    using that assms by (simp add: mt_lookup_def umap_ok_mem_iff [OF assms, symmetric])
  then have "map (mt_lookup t) (map fst ?others) = map Some (map snd ?others)" by simp
  moreover have "distinct (map fst ?others)" using assms by (rule distinct_map_filter)
  moreover have "set (map fst ?others) = {m. m \<noteq> src_mac f \<and> mt_lookup t m \<noteq> None}"
    by (auto simp: mt_lookup_def map_of_eq_None_iff image_iff)
  ultimately have "\<exists>macs. distinct macs \<and> set macs = {m. m \<noteq> src_mac f \<and> mt_lookup t m \<noteq> None} \<and>
      map (mt_lookup t) macs = map Some (mt_all_endpoints_except (src_mac f) t)"
    unfolding mt_all_endpoints_except_def by blast
  then show ?thesis
    by (simp add: learned_destinations_def table_fate_def fate_destinations_def split: option.split)
qed

text \<open>What is sent at once and what is left waiting, by a schedule and by a flood.\<close>

definition attempt_key :: "send_attempt \<Rightarrow> int \<times> bytes \<times> endpoint" where
  "attempt_key a = (sa_time a, sa_frame a, sa_destination a)"

lemma schedule_copies_at_effect:
  "map attempt_key (vs_sent (schedule_copies_at send frame dst now dues s)) =
     map attempt_key (vs_sent s) @ map (\<lambda>_. (now, frame, dst)) (filter (\<lambda>due. due \<le> now) dues)"
  "vs_pending (schedule_copies_at send frame dst now dues s) =
     vs_pending s @ map (copy_of frame dst) (filter (\<lambda>due. \<not> due \<le> now) dues)"
  by (induction send frame dst now dues s rule: schedule_copies_at.induct)
    (simp_all add: deliver_def Let_def attempt_key_def copy_of_def)

lemma flood_effect:
  "map attempt_key (vs_sent (fold (\<lambda>dst s. schedule send data dst d now s) dsts s)) =
     map attempt_key (vs_sent s) @
     concat (map (\<lambda>dst. map (\<lambda>_. (now, data, dst)) (filter (\<lambda>due. due \<le> now) (decision_dues d))) dsts)"
  "vs_pending (fold (\<lambda>dst s. schedule send data dst d now s) dsts s) =
     vs_pending s @ concat (map (\<lambda>dst. map (copy_of data dst) (filter (\<lambda>due. \<not> due \<le> now) (decision_dues d))) dsts)"
  by (induction dsts arbitrary: s) (simp_all add: schedule_def schedule_copies_at_effect)

lemma switch_frame_effect:
  assumes t_def: "t = snd (mt_insert (src_mac f) sender (vs_table s))" and dsts_def: "dsts = fate_destinations (table_fate f t)"
    and u_def: "u = switch_frame send data f sender d now s"
  shows "map attempt_key (vs_sent u) = map attempt_key (vs_sent s) @
      concat (map (\<lambda>dst. map (\<lambda>_. (now, data, dst)) (filter (\<lambda>due. due \<le> now) (decision_dues d))) dsts)"
    and "vs_pending u = vs_pending s @
      concat (map (\<lambda>dst. map (copy_of data dst) (filter (\<lambda>due. \<not> due \<le> now) (decision_dues d))) dsts)"
    and "vs_table u = t"
  unfolding u_def dsts_def t_def
  by (auto simp: switch_frame_def table_fate_def fate_destinations_def split_beta Let_def flood_effect frame_simps
      schedule_def schedule_copies_at_effect split: option.split)

section \<open>A small run\<close>

text \<open>Two hosts: the first broadcasts, the second answers it.\<close>

definition example_mac :: "u8 \<Rightarrow> mac_address" where
  "example_mac n = MacAddress 2 0 0 0 0 n"

definition example_frame :: "mac_address \<Rightarrow> mac_address \<Rightarrow> bytes" where
  "example_frame dst src = mac_bytes dst @ mac_bytes src @ [8, 0, 1, 2, 3]"

definition example_hello :: bytes where
  "example_hello = example_frame mac_broadcast (example_mac 1)"

definition example_answer :: bytes where
  "example_answer = example_frame (example_mac 1) (example_mac 2)"

definition example_clock :: "int \<Rightarrow> loop_clock" where
  "example_clock n = \<lparr> lc_drain = n, lc_frame = n, lc_tick = n \<rparr>"

definition example_host :: "u16 \<Rightarrow> endpoint" where
  "example_host n = \<lparr> ep_address = ''10.0.0.1'', ep_port = n \<rparr>"

definition example_events :: "(loop_input \<times> loop_clock) list" where
  "example_events = [(Received example_hello (example_host 1), example_clock 10), (Idle, example_clock 20),
     (Received example_answer (example_host 2), example_clock 30)]"

definition always_sends :: socket_oracle where
  "always_sends n data dst = True"

lemma example_run_running: "vs_running (vs_run always_sends None example_events ((vs_new ())\<lparr> vs_running := True \<rparr>))"
  by (simp add: example_events_def loop_step_def Let_def frame_simps)

lemma vs_start_new: "vs_start (vs_new g) = Inr s \<longleftrightarrow> s = (vs_new g)\<lparr> vs_running := True \<rparr>"
  by (auto simp: vs_start_def vs_new_def)

section \<open>Properties\<close>

text \<open>C1. Every copy of a frame that a run of the switch schedules is sent exactly once and never before it is
  due, or is still waiting: the attempts made so far, each matched with a due time no later than the
  clock it was made at, together with the pending deliveries are exactly the scheduled copies.\<close>

theorem deliveries_exactly_once:
  assumes "vs_start (vs_new g) = Inr s0" and "vs_running (vs_run send gate events s0)"
  shows "\<exists>dues. list_all2 (\<lambda>a due. due \<le> sa_time a) (vs_sent (vs_run send gate events s0)) dues \<and>
    mset (map2 (\<lambda>a due. copy_of (sa_frame a) (sa_destination a) due) (vs_sent (vs_run send gate events s0)) dues) +
      mset (vs_pending (vs_run send gate events s0)) = mset (run_copies send gate events s0)"
proof -
  have "trace_ok (vs_pending s0) [] s0"
    using assms(1) [unfolded vs_start_new] by (simp add: trace_ok_def vs_new_def)
  from trace_ok_run [OF assms(2) this] show ?thesis by (simp add: trace_ok_def)
qed

theorem deliveries_exactly_once_witness:
  "\<exists>dues. list_all2 (\<lambda>a due. due \<le> sa_time a)
     (vs_sent (vs_run always_sends None example_events ((vs_new ())\<lparr> vs_running := True \<rparr>))) dues \<and>
    mset (map2 (\<lambda>a due. copy_of (sa_frame a) (sa_destination a) due)
        (vs_sent (vs_run always_sends None example_events ((vs_new ())\<lparr> vs_running := True \<rparr>))) dues) +
      mset (vs_pending (vs_run always_sends None example_events ((vs_new ())\<lparr> vs_running := True \<rparr>))) =
      mset (run_copies always_sends None example_events ((vs_new ())\<lparr> vs_running := True \<rparr>))"
  by (rule deliveries_exactly_once [OF _ example_run_running, of "()"]) (simp add: vs_start_new)

text \<open>C5. After any run of a started switch, stopped or not, the nine counters are exactly what the fates of the
  frames and the results of the sends add up to: received frames and bytes, accepted and refused
  sends, broadcasts, unknown unicasts, malformed frames, discards, and one learned address per entry
  of the table (all modulo 2^64).\<close>

theorem switch_counters_exact:
  assumes "vs_start (vs_new g) = Inr s0"
  shows "vs_metrics (vs_run send gate events s0) =
    expected_metrics (run_fates send gate events s0) (run_frames send gate events s0)
      (length (vs_table (vs_run send gate events s0))) (vs_sent (vs_run send gate events s0))"
proof -
  have "counts_ok [] [] (length (vs_table s0)) s0"
    using assms [unfolded vs_start_new]
    by (simp add: counts_ok_def vs_new_def expected_metrics_def metrics_zero_def mt_empty_def)
  from counts_ok_run [OF this, of send gate events] show ?thesis by (simp add: counts_ok_def)
qed

theorem switch_counters_exact_witness:
  "vs_metrics (vs_run always_sends None example_events ((vs_new ())\<lparr> vs_running := True \<rparr>)) =
    expected_metrics (run_fates always_sends None example_events ((vs_new ())\<lparr> vs_running := True \<rparr>))
      (run_frames always_sends None example_events ((vs_new ())\<lparr> vs_running := True \<rparr>))
      (length (vs_table (vs_run always_sends None example_events ((vs_new ())\<lparr> vs_running := True \<rparr>))))
      (vs_sent (vs_run always_sends None example_events ((vs_new ())\<lparr> vs_running := True \<rparr>)))"
  by (rule switch_counters_exact [of "()"]) (simp add: vs_start_new)

text \<open>C6. After any run the table answers an address with the endpoint of the last frame from it that was
  neither malformed nor blocked by the gate: a blocked port teaches the switch nothing.\<close>

theorem blocked_frames_teach_nothing:
  assumes "vs_start (vs_new g) = Inr s0"
  shows "mt_lookup (vs_table (vs_run send gate events s0)) mac = map_of (rev (run_lessons send gate events s0)) mac"
  using assms [unfolded vs_start_new] by (simp add: vs_run_table learned_lookup vs_new_def)

theorem blocked_frames_teach_nothing_witness:
  "mt_lookup (vs_table (vs_run always_sends None example_events ((vs_new ())\<lparr> vs_running := True \<rparr>))) (example_mac 1) =
    map_of (rev (run_lessons always_sends None example_events ((vs_new ())\<lparr> vs_running := True \<rparr>))) (example_mac 1)"
  by (rule blocked_frames_teach_nothing [of "()"]) (simp add: vs_start_new)

text \<open>C4. What the switch does with the next frame follows from what it was taught before. A frame that passes the gate, with
  the copies the gate decided on, goes to the endpoint its destination was last seen at, counting the frame itself as a
  lesson; failing that, a broadcast goes to the endpoint of every other known address, once each, and anything else goes
  nowhere. To each of these endpoints every copy that is due is sent at once, in order, the others are added to the
  pending deliveries, and nothing else is sent or scheduled; afterwards the table answers with what was learned.\<close>

theorem forwarding_follows_learning:
  assumes "vs_start (vs_new g) = Inr s0" and "s = vs_run send gate events s0"
    and "try_parse data = Inr f" and "gate_decision gate data sender now (vs_gate s) = (d, g')"
    and "\<not> dropped d" and "delivery_count d \<noteq> 0" and "t = process_frame send gate data sender now s"
    and "known = map_of (rev (run_lessons send gate events s0 @ [(src_mac f, sender)]))"
  shows "\<exists>dsts. learned_destinations known f dsts \<and>
    map attempt_key (vs_sent t) = map attempt_key (vs_sent s) @
      concat (map (\<lambda>dst. map (\<lambda>_. (now, data, dst)) (filter (\<lambda>due. due \<le> now) (decision_dues d))) dsts) \<and>
    vs_pending t = vs_pending s @
      concat (map (\<lambda>dst. map (copy_of data dst) (filter (\<lambda>due. \<not> due \<le> now) (decision_dues d))) dsts) \<and>
    mt_lookup (vs_table t) = known"
proof -
  let ?pairs = "run_lessons send gate events s0 @ [(src_mac f, sender)]"
  let ?s = "(with_metrics (record_received (of_nat (length data))) s)\<lparr> vs_gate := g' \<rparr>"
  have table: "snd (mt_insert (src_mac f) sender (vs_table ?s)) = learn_pairs ?pairs mt_empty"
    using assms(1) [unfolded vs_start_new] assms(2) by (simp add: vs_run_table vs_new_def)
  have known: "mt_lookup (learn_pairs ?pairs mt_empty) = known"
    unfolding assms(8) by (rule learned_lookup)
  have t: "t = switch_frame send data f sender d now ?s"
    using assms(3-7) by (simp add: process_frame_def)
  show ?thesis
    using switch_frame_effect [OF table [symmetric] refl t] learned_destinations_table [OF learned_ok, of ?pairs f, unfolded known] known
    by (intro exI [of _ "fate_destinations (table_fate f (learn_pairs ?pairs mt_empty))"]) simp
qed

theorem forwarding_follows_learning_witness:
  "map attempt_key (vs_sent (process_frame always_sends None example_answer (example_host 2) 40
       (vs_run always_sends None example_events ((vs_new ())\<lparr> vs_running := True \<rparr>)))) =
     map attempt_key (vs_sent (vs_run always_sends None example_events ((vs_new ())\<lparr> vs_running := True \<rparr>))) @
     [(40, example_answer, example_host 1)]"
proof -
  let ?s0 = "(vs_new ())\<lparr> vs_running := True \<rparr>"
  let ?f = "\<lparr> dst_mac = example_mac 1, src_mac = example_mac 2, ethertype = 2048, payload = [1, 2, 3] \<rparr>"
  have answer: "try_parse example_answer = Inr ?f"
    by (simp add: example_answer_def example_frame_def example_mac_def try_parse_def try_parse_raw_def mac_at_def
        ethernet_header_size_def be16_def)
  have hello: "try_parse example_hello =
      Inr \<lparr> dst_mac = mac_broadcast, src_mac = example_mac 1, ethertype = 2048, payload = [1, 2, 3] \<rparr>"
    by (simp add: example_hello_def example_frame_def example_mac_def try_parse_def try_parse_raw_def mac_at_def
        ethernet_header_size_def be16_def mac_broadcast_def)
  let ?lessons = "run_lessons always_sends None example_events ?s0 @ [(src_mac ?f, example_host 2)]"
  have taught: "frame_lesson None data sender now s = [(src_mac f, sender)]" if "try_parse data = Inr f" for data sender now f
    and s :: "unit vswitch"
    using that by (simp add: frame_lesson_def frame_fate_eq gate_decision_def open_decision_def table_fate_def split: option.split)
  have "run_lessons always_sends None example_events ?s0 = [(example_mac 1, example_host 1), (example_mac 2, example_host 2)]"
    by (simp add: run_lessons_def example_events_def processed_def taught [OF hello] taught [OF answer] loop_step_def Let_def frame_simps)
  then have "map_of (rev ?lessons) (example_mac 1) = Some (example_host 1)" by (simp add: example_mac_def)
  then have only: "learned_destinations (map_of (rev ?lessons)) ?f dsts \<Longrightarrow> dsts = [example_host 1]" for dsts
    by (simp add: learned_destinations_def del: rev_append map_of_append)
  have start: "vs_start (vs_new ()) = Inr ?s0" by (simp add: vs_start_new)
  have gate: "gate_decision None example_answer (example_host 2) 40 (vs_gate (vs_run always_sends None example_events ?s0)) =
      (open_decision 40, vs_gate (vs_run always_sends None example_events ?s0))" by (simp add: gate_decision_def)
  have "decision_dues (open_decision 40) = [40]" by (simp add: decision_dues_def open_decision_def)
  moreover obtain dsts where "learned_destinations (map_of (rev ?lessons)) ?f dsts"
    "map attempt_key (vs_sent (process_frame always_sends None example_answer (example_host 2) 40 (vs_run always_sends None example_events ?s0))) =
      map attempt_key (vs_sent (vs_run always_sends None example_events ?s0)) @
      concat (map (\<lambda>dst. map (\<lambda>_. (40, example_answer, dst)) (filter (\<lambda>due. due \<le> 40) (decision_dues (open_decision 40)))) dsts)"
    using forwarding_follows_learning [OF start refl answer gate _ _ refl refl]
    by (auto simp: open_decision_def simp del: rev_append map_of_append)
  moreover from this(1) have "dsts = [example_host 1]" by (rule only)
  ultimately show ?thesis by simp
qed

text \<open>The loop never sleeps past a delivery: after the drain every pending delivery lies in the future, and
  the wait that follows is non-negative and ends no later than the earliest of them, or than the
  gate's own interval.\<close>

theorem wait_never_oversleeps:
  assumes "d \<in> set (vs_pending (drain_due send now s))"
  shows "now < sd_due d \<and> 0 \<le> wait_budget gate now (drain_due send now s) \<and>
    now + 1000000 * wait_budget gate now (drain_due send now s) \<le> sd_due d"
proof -
  have fold_le: "fold (\<lambda>d b. min b (f d)) ds b \<le> b \<and> (\<forall>d \<in> set ds. fold (\<lambda>d b. min b (f d)) ds b \<le> f d)"
    for f :: "scheduled_delivery \<Rightarrow> int" and ds b
  proof (induction ds arbitrary: b)
    case (Cons e ds)
    from Cons.IH [of "min b (f e)"] show ?case by auto
  qed simp
  have late: "now < sd_due d"
    using assms by (auto simp: drain_due_def Let_def frame_simps split: if_splits)
  let ?s = "drain_due send now s" and ?left = "\<lambda>d. to_milliseconds (sd_due d - now)"
  define b where "b = (case gate of None \<Rightarrow> 250 | Some g \<Rightarrow> gate_interval g (vs_gate ?s))"
  define B where "B = fold (\<lambda>d b. min b (?left d)) (vs_pending ?s) b"
  have "B \<le> ?left d" unfolding B_def using fold_le [of ?left "vs_pending ?s" b] assms by blast
  moreover have "wait_budget gate now ?s = (if B < 0 then 0 else B)"
    by (simp add: wait_budget_def B_def b_def)
  moreover have "0 \<le> to_milliseconds (sd_due d - now)" "1000000 * to_milliseconds (sd_due d - now) \<le> sd_due d - now"
    using late by (auto simp: to_milliseconds_def)
  ultimately show ?thesis using late by auto
qed

theorem wait_never_oversleeps_witness:
  "10 < sd_due (copy_of [] (example_host 1) 3000010) \<and>
    0 \<le> wait_budget None 10
      (drain_due always_sends 10 ((vs_new ())\<lparr> vs_pending := [copy_of [] (example_host 1) 3000010] \<rparr>)) \<and>
    10 + 1000000 * wait_budget None 10
      (drain_due always_sends 10 ((vs_new ())\<lparr> vs_pending := [copy_of [] (example_host 1) 3000010] \<rparr>)) \<le>
    sd_due (copy_of [] (example_host 1) 3000010)"
  by (rule wait_never_oversleeps) (simp add: drain_due_def copy_of_def Let_def)

end
