(* ===== verification/Switch_Supervisor.thy ===== *)
theory Switch_Supervisor
  imports VSwitch Analysis_Pipeline Packet_Accounting
begin

text \<open>
  The switch supervisor, \<^verbatim>\<open>include/wirelab/switch_supervisor.hpp\<close> and
  \<^verbatim>\<open>src/switch_supervisor.cpp\<close>: the frame gate that binds senders to topology ports, records
  every frame for the analyzer before it is judged, runs the analysis pipeline on a clock and
  answers with the fault of the port. It owns the pipeline, the controller and the analyzer's
  memory; the control server is an interface \<open>control_operations\<close> on a state of its own, whose
  contract is the locale \<open>control_plane\<close>. The analyzer is the CPU one. An exception of the
  pipeline, or a read outside a frame, is an error value, and \<open>supervisor_never_fails\<close> shows that
  there is none.
\<close>

section \<open>State\<close>

record supervisor_config =
  sc_tick_interval :: int
  sc_max_batch_frames :: nat

definition default_supervisor_config :: supervisor_config where
  "default_supervisor_config = \<lparr> sc_tick_interval = 200, sc_max_batch_frames = 512 \<rparr>"

record binding =
  bd_ingress_port :: u32
  bd_port_id :: string

record batched_frame =
  bf_bytes :: bytes
  bf_ingress_port :: u32

record supervision_snapshot =
  ss_analysed_frames :: u64
  ss_blocked_frames :: u64
  ss_bindings :: "(string \<times> string) list"

record 'k supervisor =
  sv_config :: supervisor_config
  sv_pipeline :: pipeline
  sv_controller :: topology_controller
  sv_control :: 'k
  sv_learned :: "mac_address set"
  sv_bindings :: "(string \<times> binding) list"
  sv_batch :: "batched_frame list"
  sv_last_tick :: int
  sv_analysed :: u64
  sv_blocked :: u64
  sv_published_analysed :: u64
  sv_published_blocked :: u64
  sv_published_bindings :: nat

text \<open>What the supervisor calls on the control server: \<open>poll\<close>, which may ask the supervisor for its snapshot and
  change the pipeline and the controller, and the two publications, which read the controller.\<close>

record 'k control_operations =
  ctl_poll :: "supervision_snapshot \<Rightarrow> 'k \<Rightarrow> pipeline \<Rightarrow> topology_controller \<Rightarrow> 'k \<times> pipeline \<times> topology_controller"
  ctl_publish_analysis :: "analysis_outcome \<Rightarrow> topology_controller \<Rightarrow> 'k \<Rightarrow> 'k"
  ctl_publish_supervision :: "supervision_snapshot \<Rightarrow> topology_controller \<Rightarrow> 'k \<Rightarrow> 'k"

datatype supervisor_failure = ReadOutOfBounds | PipelineThrew detector_error

definition sv_new :: "supervisor_config \<Rightarrow> pipeline \<Rightarrow> topology_controller \<Rightarrow> 'k \<Rightarrow> 'k supervisor" where
  "sv_new config p c k = \<lparr> sv_config = config, sv_pipeline = pl_attach p, sv_controller = c, sv_control = k,
     sv_learned = {}, sv_bindings = [], sv_batch = [], sv_last_tick = 0, sv_analysed = 0, sv_blocked = 0,
     sv_published_analysed = 0, sv_published_blocked = 0, sv_published_bindings = 0 \<rparr>"

section \<open>Bindings\<close>

definition sv_bind :: "endpoint \<Rightarrow> 'k supervisor \<Rightarrow> binding \<times> 'k supervisor" where
  "sv_bind sender s =
     (let key = endpoint_to_string sender in
      case map_of (sv_bindings s) key of
        Some b \<Rightarrow> (b, s)
      | None \<Rightarrow>
          let ingress = of_nat (length (sv_bindings s));
              b = \<lparr> bd_ingress_port = ingress,
                    bd_port_id = (case port_id_at (sv_controller s) ingress of None \<Rightarrow> [] | Some p \<Rightarrow> p) \<rparr>
          in (b, s\<lparr> sv_bindings := umap_assign key b (sv_bindings s) \<rparr>))"

text \<open>\<open>rfind(':')\<close> and the two \<open>substr\<close> around it.\<close>

definition split_last_colon :: "string \<Rightarrow> (string \<times> string) option" where
  "split_last_colon s =
     (if CHR '':'' \<in> set s
      then let tail = rev (takeWhile (\<lambda>c. c \<noteq> CHR '':'') (rev s))
           in Some (take (length s - length tail - 1) s, tail)
      else None)"

text \<open>\<open>std::stoul\<close> of a text that starts with a digit; anything else throws (\<open>None\<close>).\<close>

definition stoul10 :: "string \<Rightarrow> nat option" where
  "stoul10 s =
     (let digits = takeWhile is_digit s in
      if digits = [] \<or> 2 ^ 64 \<le> nat_of_dec digits then None else Some (nat_of_dec digits))"

definition endpoint_of_key :: "string \<Rightarrow> endpoint option" where
  "endpoint_of_key key =
     (case split_last_colon key of
        None \<Rightarrow> Some \<lparr> ep_address = key, ep_port = 0 \<rparr>
      | Some (addr, digits) \<Rightarrow> map_option (\<lambda>n. \<lparr> ep_address = addr, ep_port = of_nat n \<rparr>) (stoul10 digits))"

fun bound_endpoints :: "(string \<times> binding) list \<Rightarrow> (string \<times> endpoint) list option" where
  "bound_endpoints [] = Some []"
| "bound_endpoints ((key, b) # rest) =
     (if bd_port_id b = [] then bound_endpoints rest
      else Option.bind (endpoint_of_key key) (\<lambda>e.
           map_option (\<lambda>bound. (bd_port_id b, e) # bound) (bound_endpoints rest)))"

definition binding_less :: "string \<times> endpoint \<Rightarrow> string \<times> endpoint \<Rightarrow> bool" where
  "binding_less l r \<longleftrightarrow> fst l < fst r"

definition sv_bound :: "'k supervisor \<Rightarrow> (string \<times> endpoint) list option" where
  "sv_bound s = map_option (std_sort binding_less) (bound_endpoints (sv_bindings s))"

text \<open>The snapshot uses \<open>bindings()\<close>, which does not throw on the keys \<open>bind\<close> makes
  (\<open>bindings_recovered\<close>).\<close>

definition sv_snapshot :: "'k supervisor \<Rightarrow> supervision_snapshot" where
  "sv_snapshot s = \<lparr> ss_analysed_frames = sv_analysed s, ss_blocked_frames = sv_blocked s,
     ss_bindings = (case sv_bound s of None \<Rightarrow> []
                    | Some bound \<Rightarrow> map (\<lambda>(p, e). (p, endpoint_to_string e)) bound) \<rparr>"

section \<open>The clock\<close>

definition sv_publish :: "'k control_operations \<Rightarrow> 'k supervisor \<Rightarrow> 'k supervisor" where
  "sv_publish ops s =
     (if sv_analysed s \<noteq> sv_published_analysed s \<or> sv_blocked s \<noteq> sv_published_blocked s \<or>
         length (sv_bindings s) \<noteq> sv_published_bindings s
      then s\<lparr> sv_published_analysed := sv_analysed s, sv_published_blocked := sv_blocked s,
              sv_published_bindings := length (sv_bindings s),
              sv_control := ctl_publish_supervision ops (sv_snapshot s) (sv_controller s) (sv_control s) \<rparr>
      else s)"

definition batch_views :: "batched_frame list \<Rightarrow> packet_view list" where
  "batch_views batch =
     map (\<lambda>f. \<lparr> pv_bytes = Some (bf_bytes f), pv_size = length (bf_bytes f), pv_ingress = bf_ingress_port f \<rparr>) batch"

definition sv_poll :: "'k control_operations option \<Rightarrow> 'k supervisor \<Rightarrow> 'k supervisor" where
  "sv_poll control s =
     (case control of
        None \<Rightarrow> s
      | Some ops \<Rightarrow>
          let (k, p, c) = ctl_poll ops (sv_snapshot s) (sv_control s) (sv_pipeline s) (sv_controller s)
          in s\<lparr> sv_control := k, sv_pipeline := p, sv_controller := c \<rparr>)"

definition sv_due :: "int \<Rightarrow> 'k supervisor \<Rightarrow> bool" where
  "sv_due now s \<longleftrightarrow> sv_last_tick s = 0 \<or> now - sv_last_tick s \<ge> sc_tick_interval (sv_config s) * 1000000"

text \<open>\<open>tick\<close> behind the poll and the check of the clock: analyze the batch, evaluate, publish.\<close>

definition sv_flush ::
    "'k control_operations option \<Rightarrow> int \<Rightarrow> 'k supervisor \<Rightarrow> supervisor_failure + 'k supervisor" where
  "sv_flush control now s =
     (case analyze_views (batch_views (sv_batch s)) (sv_learned s) of
        None \<Rightarrow> Inl ReadOutOfBounds
      | Some (analysis, learned) \<Rightarrow>
          let s = s\<lparr> sv_last_tick := now, sv_learned := learned,
                     sv_analysed := sv_analysed s + ab_received_packets analysis, sv_batch := [] \<rparr>
          in case pl_evaluate (ab_packets analysis) (word_of_int now) now (sv_pipeline s) (sv_controller s) of
               Inl e \<Rightarrow> Inl (PipelineThrew e)
             | Inr (out, p, c) \<Rightarrow>
                 let s = s\<lparr> sv_pipeline := p, sv_controller := c \<rparr>
                 in case control of
                      None \<Rightarrow> Inr s
                    | Some ops \<Rightarrow>
                        Inr (sv_publish ops (s\<lparr> sv_control := ctl_publish_analysis ops out (sv_controller s) (sv_control s) \<rparr>)))"

definition sv_tick ::
    "'k control_operations option \<Rightarrow> int \<Rightarrow> 'k supervisor \<Rightarrow> supervisor_failure + 'k supervisor" where
  "sv_tick control now s =
     (let s = sv_poll control s in
      if \<not> sv_due now s \<and> length (sv_batch s) < sc_max_batch_frames (sv_config s) then Inr s
      else sv_flush control now s)"

section \<open>One frame\<close>

definition sv_record :: "bytes \<Rightarrow> u32 \<Rightarrow> 'k supervisor \<Rightarrow> 'k supervisor" where
  "sv_record data ingress s =
     (if length (sv_batch s) < sc_max_batch_frames (sv_config s)
      then s\<lparr> sv_batch := sv_batch s @ [\<lparr> bf_bytes = data, bf_ingress_port = ingress \<rparr>] \<rparr> else s)"

definition sv_judge :: "bytes \<Rightarrow> binding \<Rightarrow> int \<Rightarrow> 'k supervisor \<Rightarrow> fault_decision \<times> 'k supervisor" where
  "sv_judge data b arrival s =
     (if bd_port_id b = [] then (open_decision arrival, s)
      else
        let (r, c) = evaluate_port (bd_port_id b) (length data) arrival (sv_controller s);
            s = s\<lparr> sv_controller := c \<rparr>
        in case r of
             Inl _ \<Rightarrow> (open_decision arrival, s)
           | Inr d \<Rightarrow> (d, if dropped d \<or> delivery_count d = 0 then s\<lparr> sv_blocked := sv_blocked s + 1 \<rparr> else s))"

definition sv_inspect ::
    "'k control_operations option \<Rightarrow> bytes \<Rightarrow> endpoint \<Rightarrow> int \<Rightarrow> 'k supervisor
      \<Rightarrow> supervisor_failure + fault_decision \<times> 'k supervisor" where
  "sv_inspect control data sender arrival s =
     (let (b, s) = sv_bind sender s;
          s = sv_record data (bd_ingress_port b) s
      in case (if length (sv_batch s) \<ge> sc_max_batch_frames (sv_config s) then sv_tick control arrival s else Inr s) of
           Inl e \<Rightarrow> Inl e
         | Inr s \<Rightarrow> Inr (sv_judge data b arrival s))"

text \<open>The gate the switch holds. The failures would end the process; they do not occur: the analyzer is that of the
  CPU, and the control server one whose polls come back.\<close>

definition supervisor_gate :: "'k control_operations option \<Rightarrow> 'k supervisor gate_operations" where
  "supervisor_gate control = \<lparr>
     gate_inspect = (\<lambda>data sender arrival s.
       case sv_inspect control data sender arrival s of Inl _ \<Rightarrow> (open_decision arrival, s) | Inr r \<Rightarrow> r),
     gate_tick = (\<lambda>now s. case sv_tick control now s of Inl _ \<Rightarrow> s | Inr s' \<Rightarrow> s'),
     gate_interval = (\<lambda>s. sc_tick_interval (sv_config s)) \<rparr>"

section \<open>The contract of the control plane\<close>

text \<open>An invariant of the pipeline and the controller that evaluations, frames and the control server keep.\<close>

locale control_plane =
  fixes control :: "'k control_operations option"
    and plane_ok :: "pipeline \<Rightarrow> topology_controller \<Rightarrow> bool"
  assumes plane_controller: "plane_ok p c \<Longrightarrow> tc_ok c"
    and plane_clock: "plane_ok p c \<Longrightarrow> pl_clock (ad_config (pl_detector p)) p"
    and poll_keeps: "plane_ok p c \<Longrightarrow> control = Some ops \<Longrightarrow> ctl_poll ops v k p c = (k', p', c') \<Longrightarrow> plane_ok p' c'"
    and evaluate_keeps: "plane_ok p c \<Longrightarrow> pl_evaluate packets ts now p c = Inr (out, p', c') \<Longrightarrow> plane_ok p' c'"
    and frame_keeps: "plane_ok p c \<Longrightarrow> plane_ok p (snd (evaluate_port q n arrival c))"
begin

definition sv_ok :: "'k supervisor \<Rightarrow> bool" where
  "sv_ok s \<longleftrightarrow> plane_ok (sv_pipeline s) (sv_controller s)"

lemma sv_poll_ok: "sv_ok s \<Longrightarrow> sv_ok (sv_poll control s)"
  by (auto simp: sv_ok_def sv_poll_def split: option.split prod.split intro: poll_keeps)

lemma sv_publish_ok [simp]: "sv_ok (sv_publish ops s) = sv_ok s"
  by (simp add: sv_ok_def sv_publish_def)

lemma sv_flush_ok:
  assumes "sv_ok s"
  obtains s' where "sv_flush control now s = Inr s'" and "sv_ok s'" and "sv_batch s' = []"
    and "sv_analysed s' = sv_analysed s + of_nat (length (sv_batch s))"
    and "sv_config s' = sv_config s" and "sv_bindings s' = sv_bindings s"
proof -
  let ?views = "batch_views (sv_batch s)"
  have views: "\<forall>v \<in> set ?views. view_ok v" by (auto simp: batch_views_def view_ok_def)
  obtain b learned where a: "analyze_views ?views (sv_learned s) = Some (b, learned)"
    and n: "ab_received_packets b = of_nat (length (sv_batch s))"
    using analyze_views_eq [OF views, of "sv_learned s"]
    by (cases "?views = []")
      (auto simp: Let_def finish_batch_keeps agg_counters batch_views_def view_lengths_def empty_batch_def)
  obtain out p c where e: "pl_evaluate (ab_packets b) (word_of_int now) now (sv_pipeline s) (sv_controller s) = Inr (out, p, c)"
    using pl_evaluate_total [OF plane_clock] assms unfolding sv_ok_def by blast
  have ok: "plane_ok p c" using evaluate_keeps [OF _ e] assms by (simp add: sv_ok_def)
  let ?s = "s\<lparr> sv_last_tick := now, sv_learned := learned, sv_analysed := sv_analysed s + ab_received_packets b,
    sv_batch := [], sv_pipeline := p, sv_controller := c \<rparr>"
  define t where "t = (case control of None \<Rightarrow> ?s
    | Some ops \<Rightarrow> sv_publish ops (?s\<lparr> sv_control := ctl_publish_analysis ops out (sv_controller ?s) (sv_control ?s) \<rparr>))"
  show ?thesis
  proof (rule that)
    show "sv_flush control now s = Inr t"
      by (simp add: sv_flush_def a e Let_def t_def split: option.split)
    show "sv_ok t" using ok by (simp add: t_def sv_ok_def sv_publish_def split: option.split)
  qed (simp_all add: t_def n sv_publish_def split: option.split)
qed

lemma sv_tick_ok:
  assumes "sv_ok s"
  obtains s' where "sv_tick control now s = Inr s'" and "sv_ok s'" and "sv_config s' = sv_config s"
    and "sv_bindings s' = sv_bindings s"
    and "sv_analysed s' + of_nat (length (sv_batch s')) = sv_analysed s + of_nat (length (sv_batch s))"
    and "sv_batch s' = [] \<or> length (sv_batch s') < sc_max_batch_frames (sv_config s)"
proof -
  let ?s = "sv_poll control s"
  have same: "sv_config ?s = sv_config s" "sv_bindings ?s = sv_bindings s" "sv_batch ?s = sv_batch s"
    "sv_analysed ?s = sv_analysed s"
    by (auto simp: sv_poll_def split: option.split prod.split)
  show ?thesis
  proof (cases "\<not> sv_due now ?s \<and> length (sv_batch ?s) < sc_max_batch_frames (sv_config ?s)")
    case True
    then show ?thesis
      using that [of ?s] sv_poll_ok [OF assms] by (simp add: sv_tick_def same)
  next
    case False
    obtain s' where f: "sv_flush control now ?s = Inr s'" "sv_ok s'" "sv_batch s' = []"
      "sv_analysed s' = sv_analysed ?s + of_nat (length (sv_batch ?s))" "sv_config s' = sv_config ?s"
      "sv_bindings s' = sv_bindings ?s"
      by (rule sv_flush_ok [OF sv_poll_ok [OF assms], of now])
    show ?thesis
    proof (rule that)
      show "sv_tick control now s = Inr s'" using f(1) unfolding sv_tick_def Let_def if_not_P [OF False] .
    qed (use f same in simp_all)
  qed
qed

lemma sv_bind_keeps:
  "sv_config (snd (sv_bind sender s)) = sv_config s" "sv_batch (snd (sv_bind sender s)) = sv_batch s"
  "sv_analysed (snd (sv_bind sender s)) = sv_analysed s" "sv_ok (snd (sv_bind sender s)) = sv_ok s"
  by (simp_all add: sv_bind_def sv_ok_def Let_def split: option.split)

lemma sv_record_keeps [simp]:
  "sv_config (sv_record data i s) = sv_config s" "sv_analysed (sv_record data i s) = sv_analysed s"
  "sv_bindings (sv_record data i s) = sv_bindings s" "sv_ok (sv_record data i s) = sv_ok s"
  "sv_pipeline (sv_record data i s) = sv_pipeline s" "sv_controller (sv_record data i s) = sv_controller s"
  by (simp_all add: sv_record_def sv_ok_def)

lemma sv_judge_keeps [simp]:
  "sv_config (snd (sv_judge data b arrival s)) = sv_config s" "sv_batch (snd (sv_judge data b arrival s)) = sv_batch s"
  "sv_analysed (snd (sv_judge data b arrival s)) = sv_analysed s"
  "sv_bindings (snd (sv_judge data b arrival s)) = sv_bindings s"
  by (simp_all add: sv_judge_def Let_def split: prod.split sum.split)

lemma sv_judge_ok: "sv_ok s \<Longrightarrow> sv_ok (snd (sv_judge data b arrival s))"
  by (auto simp: sv_judge_def sv_ok_def Let_def split: prod.split sum.split)
    (metis frame_keeps snd_conv)+

text \<open>The state \<open>inspect\<close> judges the frame in: bound, recorded, and flushed when the batch is full.\<close>

lemma sv_inspect_ok:
  assumes "sv_ok s"
  obtains s' where "sv_inspect control data sender arrival s = Inr (sv_judge data (fst (sv_bind sender s)) arrival s')"
    and "sv_ok s'" and "sv_config s' = sv_config s" and "sv_bindings s' = sv_bindings (snd (sv_bind sender s))"
    and "0 < sc_max_batch_frames (sv_config s) \<Longrightarrow> length (sv_batch s) < sc_max_batch_frames (sv_config s) \<Longrightarrow>
      sv_analysed s' + of_nat (length (sv_batch s')) = sv_analysed s + of_nat (Suc (length (sv_batch s))) \<and>
      length (sv_batch s') < sc_max_batch_frames (sv_config s)"
proof -
  obtain b s0 where b: "sv_bind sender s = (b, s0)" by (cases "sv_bind sender s")
  have s0: "sv_config s0 = sv_config s" "sv_batch s0 = sv_batch s" "sv_analysed s0 = sv_analysed s" "sv_ok s0"
    using sv_bind_keeps [of sender s] assms by (simp_all add: b)
  let ?s1 = "sv_record data (bd_ingress_port b) s0"
  show ?thesis
  proof (cases "length (sv_batch ?s1) \<ge> sc_max_batch_frames (sv_config ?s1)")
    case True
    obtain s' where tick: "sv_tick control arrival ?s1 = Inr s'" "sv_ok s'" "sv_config s' = sv_config ?s1"
      "sv_bindings s' = sv_bindings ?s1"
      "sv_analysed s' + of_nat (length (sv_batch s')) = sv_analysed ?s1 + of_nat (length (sv_batch ?s1))"
      "sv_batch s' = [] \<or> length (sv_batch s') < sc_max_batch_frames (sv_config ?s1)"
      by (rule sv_tick_ok [of ?s1 arrival]) (use s0 in simp_all)
    show ?thesis
      by (rule that [of s']) (use True tick s0 in \<open>auto simp: sv_inspect_def b sv_record_def split: if_splits\<close>)
  next
    case False
    show ?thesis
      by (rule that [of ?s1]) (use False s0 in \<open>auto simp: sv_inspect_def b sv_record_def sv_ok_def\<close>)
  qed
qed

text \<open>What a judgement can be: the port's engine decides, or the frame passes at once.\<close>

lemma evaluate_decision:
  assumes "fe_ok e" and d_def: "d = fst (evaluate target n arrival e)"
  shows "length (delivery_times d) = 2 \<and> (dropped d \<or> delivery_count d \<in> {1, 2}) \<and>
    (\<not> dropped d \<longrightarrow> (\<forall>x \<in> set (decision_dues d). arrival \<le> x))"
proof (cases "map_of (states e) target")
  case None
  then show ?thesis by (simp add: d_def evaluate_def decision_dues_def)
next
  case (Some st)
  then have valid: "fc_valid (configuration st)" using assms by (simp add: fe_ok_def)
  obtain d' st' where ev: "evaluate_state n arrival st = (d', st')" by (cases "evaluate_state n arrival st")
  have d: "d = d'" using evaluate_Some [OF Some, of n arrival] ev by (simp add: d_def)
  show ?thesis
  proof (cases "dropped d'")
    case True
    then have "length (delivery_times d') = 2"
      using ev by (auto simp: evaluate_state_def Let_def drop_decision_def split: if_splits prod.splits)
    then show ?thesis using True by (simp add: d)
  next
    case False
    from ev False obtain r j where facts: "delivery_count d' = 1 \<or> delivery_count d' = 2"
      "j = sint (fst (bounded_random r (word_of_int (jitter (configuration st)))))"
      "schedule_copies n (arrival + latency (configuration st) + j) (bandwidth_bits_per_second (configuration st))
        (delivery_count d') (next_transmit_time st) = (take (delivery_count d') (delivery_times d'), next_transmit_time st')"
      "length (delivery_times d') = 2"
      by (rule evaluate_state_delivered)
    have "0 \<le> j" "0 \<le> latency (configuration st)"
      using valid jitter_draw_bounds [of "jitter (configuration st)" r] by (auto simp: facts(2) fc_valid_def fc_in_range_def)
    moreover have "arrival + latency (configuration st) + j \<le> x"
      if "x \<in> set (take (delivery_count d') (delivery_times d'))" for x
      using that facts(3) by (metis fst_conv schedule_copies_ge)
    moreover have "decision_dues d' = take (delivery_count d') (delivery_times d')"
      using facts(1,4) by (auto simp: decision_dues_def)
    ultimately show ?thesis using facts(1,4) by (fastforce simp: d)
  qed
qed

lemma sv_judge_decision:
  assumes "sv_ok s" and d_def: "d = fst (sv_judge data b arrival s)"
  shows "length (delivery_times d) = 2 \<and> (dropped d \<or> delivery_count d \<in> {1, 2}) \<and>
    (\<not> dropped d \<longrightarrow> (\<forall>x \<in> set (decision_dues d). arrival \<le> x))"
proof -
  have ok: "fe_ok (tc_engine (sv_controller s))"
    using assms(1) plane_controller by (simp add: sv_ok_def tc_ok_def)
  obtain r c where e: "evaluate_port (bd_port_id b) (length data) arrival (sv_controller s) = (r, c)"
    by (cases "evaluate_port (bd_port_id b) (length data) arrival (sv_controller s)")
  have passes: "length (delivery_times (open_decision arrival)) = 2 \<and> delivery_count (open_decision arrival) = 1 \<and>
      decision_dues (open_decision arrival) = [arrival]"
    by (simp add: open_decision_def decision_dues_def)
  show ?thesis
  proof (cases "bd_port_id b = [] \<or> (\<exists>e. r = Inl e)")
    case True
    then have "d = open_decision arrival" by (auto simp: d_def sv_judge_def e)
    then show ?thesis using passes by simp
  next
    case False
    then obtain d' where r: "r = Inr d'" by (cases r) auto
    then have "d' = fst (evaluate (port_fault_target (bd_port_id b)) (length data) arrival (tc_engine (sv_controller s)))"
      using e by (auto simp: evaluate_port_def split: option.splits if_splits prod.splits)
    moreover have "d = d'" using False by (simp add: d_def sv_judge_def e r Let_def)
    ultimately show ?thesis using evaluate_decision [OF ok, of d] by blast
  qed
qed

end

text \<open>A supervisor with such a control plane is a gate the switch can rely on.\<close>

sublocale control_plane \<subseteq> frame_gate "supervisor_gate control" sv_ok
proof unfold_locales
  fix s :: "'k supervisor" and data sender arrival t
  assume ok: "sv_ok s"
  obtain s' where i: "sv_inspect control data sender arrival s = Inr (sv_judge data (fst (sv_bind sender s)) arrival s')"
    "sv_ok s'"
    by (rule sv_inspect_ok [OF ok])
  have eq: "gate_inspect (supervisor_gate control) data sender arrival s = sv_judge data (fst (sv_bind sender s)) arrival s'"
    by (simp add: supervisor_gate_def i)
  note d = sv_judge_decision [OF i(2) refl, of data "fst (sv_bind sender s)" arrival]
  show "length (delivery_times (fst (gate_inspect (supervisor_gate control) data sender arrival s))) = 2"
    and "dropped (fst (gate_inspect (supervisor_gate control) data sender arrival s)) \<or>
      delivery_count (fst (gate_inspect (supervisor_gate control) data sender arrival s)) \<in> {1, 2}"
    and "sv_ok (snd (gate_inspect (supervisor_gate control) data sender arrival s))"
    unfolding eq using d sv_judge_ok [OF i(2)] by blast+
  show "\<not> dropped (fst (gate_inspect (supervisor_gate control) data sender arrival s)) \<Longrightarrow>
      t \<in> set (decision_dues (fst (gate_inspect (supervisor_gate control) data sender arrival s))) \<Longrightarrow> arrival \<le> t"
    unfolding eq using d by blast
next
  fix s :: "'k supervisor" and now
  assume ok: "sv_ok s"
  obtain s' where "sv_tick control now s = Inr s'" "sv_ok s'" by (rule sv_tick_ok [OF ok, of now])
  then show "sv_ok (gate_tick (supervisor_gate control) now s)" by (simp add: supervisor_gate_def)
qed

section \<open>Without an operator\<close>

text \<open>While nobody polls a control server, the topology stays, and the ports keep the faults \<open>f0\<close> they had
  before any enforcement, or those faults overlaid by a lease that remembers them.\<close>

definition unattended_ok ::
    "(string \<Rightarrow> fault_configuration option) \<Rightarrow> string list \<Rightarrow> pipeline \<Rightarrow> topology_controller \<Rightarrow> bool" where
  "unattended_ok f0 ports p c \<longleftrightarrow> pl_clock (ad_config (pl_detector p)) p \<and> pl_attached p \<and>
     en_inv f0 (pl_enforcer p) c \<and> port_ids c = ports"

lemma evaluate_leases:
  assumes "en_inv f0 (pl_enforcer p) c" and "pl_attached p" and "pl_evaluate packets ts now p c = Inr (out, p', c')"
  shows "en_inv f0 (pl_enforcer p') c' \<and> port_ids c' = port_ids c \<and> pl_attached p' \<and>
    (\<forall>q l. map_of (leases (pl_enforcer p)) q = Some l \<and> now < ea_expires (ls_action l) \<longrightarrow>
      lease_keeps (Some l) (map_of (leases (pl_enforcer p')) q))"
proof -
  obtain released en1 c1 where r: "release_expired now (pl_enforcer p) c = (released, en1, c1)"
    by (cases "release_expired now (pl_enforcer p) c")
  have a: "apply_decisions (ao_decisions out) now en1 c1 = (ao_enforced out, pl_enforcer p', c')" "pl_attached p'"
    using assms(2,3) r by (auto simp: pl_evaluate_def Let_def split: sum.splits prod.splits if_splits)
  note rel = release_expired_ok [OF assms(1) r]
  have ok: "umap_ok (leases en1)" "umap_ok (leases (pl_enforcer p))"
    using en_inv_ok [of f0 en1 c1] en_inv_ok [OF assms(1)] rel by auto
  note app = apply_decisions_ok [OF _ a(1), of f0]
  have "map_of (leases en1) q = Some l"
    if "map_of (leases (pl_enforcer p)) q = Some l" and "now < ea_expires (ls_action l)" for q l
    using that rel unfolding umap_ok_mem_iff [OF ok(1), symmetric] umap_ok_mem_iff [OF ok(2), symmetric] by simp
  then show ?thesis using app rel a(2) by metis
qed

lemma unattended_evaluate:
  assumes "unattended_ok f0 ports p c" and "pl_evaluate packets ts now p c = Inr (out, p', c')"
  shows "unattended_ok f0 ports p' c'"
proof -
  have "pl_clock (ad_config (pl_detector p)) p'"
    using pl_clock_evaluate [OF _ assms(2)] assms(1) by (simp add: unattended_ok_def)
  then show ?thesis
    using evaluate_leases [OF _ _ assms(2), of f0] assms(1) by (simp add: unattended_ok_def pl_clock_def)
qed

lemma unattended_frame:
  "unattended_ok f0 ports p c \<Longrightarrow> unattended_ok f0 ports p (snd (evaluate_port q n arrival c))"
  using en_step_inv [OF en_frame [of "pl_enforcer p" c q n arrival], of f0] by (simp add: unattended_ok_def)

interpretation unattended: control_plane "None :: 'k control_operations option" "unattended_ok f0 ports" for f0 ports
  by unfold_locales (auto simp: unattended_frame intro: unattended_evaluate,
      auto simp: unattended_ok_def dest: en_inv_ok)

lemma sv_new_ok:
  assumes "pl_reachable dconfig econfig (p, c)" and "leases (pl_enforcer p) = []" and "tc_reachable c"
  shows "unattended.sv_ok (port_fault c) (port_ids c) (sv_new config p c k)"
proof -
  have "pl_clock dconfig p" using pl_reachable_clock [OF assms(1)] by simp
  moreover have "tc_ok c" using tc_reachable_inv [OF assms(3)] by (simp add: tc_inv_def)
  then have "en_inv (port_fault c) (pl_enforcer p) c" using assms(2) by (simp add: en_inv_def)
  ultimately show ?thesis
    by (simp add: unattended.sv_ok_def unattended_ok_def sv_new_def pl_attach_def pl_clock_def)
qed

section \<open>Runs of the supervisor\<close>

datatype gate_event = InspectFrame bytes endpoint int | TickAt int

fun sv_run ::
    "'k control_operations option \<Rightarrow> gate_event list \<Rightarrow> 'k supervisor \<Rightarrow> supervisor_failure + 'k supervisor" where
  "sv_run control [] s = Inr s"
| "sv_run control (InspectFrame data sender arrival # events) s =
     (case sv_inspect control data sender arrival s of
        Inl e \<Rightarrow> Inl e | Inr (d, s') \<Rightarrow> sv_run control events s')"
| "sv_run control (TickAt now # events) s =
     (case sv_tick control now s of Inl e \<Rightarrow> Inl e | Inr s' \<Rightarrow> sv_run control events s')"

definition inspected :: "gate_event list \<Rightarrow> endpoint list" where
  "inspected events = concat (map (\<lambda>ev. case ev of InspectFrame data sender arrival \<Rightarrow> [sender] | TickAt now \<Rightarrow> []) events)"

lemma inspected_simps [simp]:
  "inspected [] = []" "inspected (InspectFrame data sender arrival # events) = sender # inspected events"
  "inspected (TickAt now # events) = inspected events"
  by (simp_all add: inspected_def)

text \<open>An induction over the events of a run: the run does not fail, and a fact that both calls establish for
  the senders seen so far holds at its end.\<close>

lemma unattended_run_induct:
  assumes "unattended.sv_ok f0 ports s" and "P senders s"
    and "\<And>seen s now s'. P seen s \<Longrightarrow> sv_tick None now s = Inr s' \<Longrightarrow> unattended.sv_ok f0 ports s \<Longrightarrow> P seen s'"
    and "\<And>seen s data sender arrival d s'. P seen s \<Longrightarrow> sv_inspect None data sender arrival s = Inr (d, s') \<Longrightarrow>
      unattended.sv_ok f0 ports s \<Longrightarrow> P (seen @ [sender]) s'"
  shows "\<exists>s'. sv_run None events s = Inr s' \<and> unattended.sv_ok f0 ports s' \<and> P (senders @ inspected events) s'"
  using assms(1,2)
proof (induction events arbitrary: s senders)
  case (Cons ev events)
  show ?case
  proof (cases ev)
    case (InspectFrame data sender arrival)
    obtain s1 where i: "sv_inspect None data sender arrival s = Inr (sv_judge data (fst (sv_bind sender s)) arrival s1)"
      "unattended.sv_ok f0 ports s1"
      by (rule unattended.sv_inspect_ok [OF Cons.prems(1)])
    obtain d s2 where j: "sv_judge data (fst (sv_bind sender s)) arrival s1 = (d, s2)"
      by (cases "sv_judge data (fst (sv_bind sender s)) arrival s1")
    have "unattended.sv_ok f0 ports s2" using unattended.sv_judge_ok [OF i(2)] j by (metis snd_conv)
    from Cons.IH [OF this assms(4) [OF Cons.prems(2) i(1) [unfolded j] Cons.prems(1)]]
    show ?thesis by (simp add: InspectFrame i j)
  next
    case (TickAt now)
    obtain s1 where t: "sv_tick None now s = Inr s1" "unattended.sv_ok f0 ports s1"
      by (rule unattended.sv_tick_ok [OF Cons.prems(1), of now])
    from Cons.IH [OF t(2) assms(3) [OF Cons.prems(2) t(1) Cons.prems(1)]] show ?thesis by (simp add: TickAt t)
  qed
qed simp

text \<open>Every frame is analyzed or waits in the batch.\<close>

definition batch_accounts :: "supervisor_config \<Rightarrow> endpoint list \<Rightarrow> 'k supervisor \<Rightarrow> bool" where
  "batch_accounts config seen s \<longleftrightarrow> sv_config s = config \<and> length (sv_batch s) < sc_max_batch_frames config \<and>
     sv_analysed s + of_nat (length (sv_batch s)) = of_nat (length seen)"

lemma batch_accounts_tick:
  assumes "batch_accounts config seen s" and "sv_tick None now s = Inr s'" and "unattended.sv_ok f0 ports s"
  shows "batch_accounts config seen s'"
proof (rule unattended.sv_tick_ok [OF assms(3), of now])
  fix t
  assume "sv_tick None now s = Inr t" "sv_config t = sv_config s"
    "sv_analysed t + of_nat (length (sv_batch t)) = sv_analysed s + of_nat (length (sv_batch s))"
    "sv_batch t = [] \<or> length (sv_batch t) < sc_max_batch_frames (sv_config s)"
  with assms(1,2) show ?thesis by (auto simp: batch_accounts_def)
qed

lemma batch_accounts_inspect:
  assumes "batch_accounts config seen s" and "sv_inspect None data sender arrival s = Inr (d, s')"
    and "unattended.sv_ok f0 ports s"
  shows "batch_accounts config (seen @ [sender]) s'"
proof (rule unattended.sv_inspect_ok [OF assms(3), of data sender arrival])
  fix t
  assume t: "sv_inspect None data sender arrival s = Inr (sv_judge data (fst (sv_bind sender s)) arrival t)"
    "sv_config t = sv_config s"
    "0 < sc_max_batch_frames (sv_config s) \<Longrightarrow> length (sv_batch s) < sc_max_batch_frames (sv_config s) \<Longrightarrow>
      sv_analysed t + of_nat (length (sv_batch t)) = sv_analysed s + of_nat (Suc (length (sv_batch s))) \<and>
      length (sv_batch t) < sc_max_batch_frames (sv_config s)"
  have "s' = snd (sv_judge data (fst (sv_bind sender s)) arrival t)" using t(1) assms(2) by (metis Inr_inject snd_conv)
  then show ?thesis using assms(1) t(2,3) by (simp add: batch_accounts_def algebra_simps)
qed

text \<open>The keys in the order they were first seen, with their index and port.\<close>

abbreviation first_seen :: "'a list \<Rightarrow> 'a list" where
  "first_seen xs \<equiv> rev (remdups (rev xs))"

definition binding_for :: "topology_controller \<Rightarrow> nat \<Rightarrow> binding" where
  "binding_for c i = \<lparr> bd_ingress_port = of_nat i,
     bd_port_id = (case port_id_at c (of_nat i) of None \<Rightarrow> [] | Some p \<Rightarrow> p) \<rparr>"

definition bindings_for :: "topology_controller \<Rightarrow> endpoint list \<Rightarrow> (string \<times> binding) list" where
  "bindings_for c senders =
     map (\<lambda>(i, key). (key, binding_for c i)) (enumerate 0 (first_seen (map endpoint_to_string senders)))"

lemma keys_bindings_for: "map fst (bindings_for c senders) = first_seen (map endpoint_to_string senders)"
  by (simp add: bindings_for_def case_prod_unfold comp_def)

lemma umap_assign_new: "k \<notin> fst ` set m \<Longrightarrow> umap_assign k v m = m @ [(k, v)]"
  by (induction m) auto

lemma bindings_for_snoc:
  assumes "port_ids c' = port_ids c" and "sv_controller s = c'" and "sv_bindings s = bindings_for c senders"
  shows "sv_bindings (snd (sv_bind sender s)) = bindings_for c (senders @ [sender])"
proof -
  let ?key = "endpoint_to_string sender"
  have keys: "fst ` set (bindings_for c senders) = endpoint_to_string ` set senders"
    using arg_cong [OF keys_bindings_for [of c senders], of set] by simp
  show ?thesis
  proof (cases "map_of (sv_bindings s) ?key")
    case None
    then have new: "?key \<notin> fst ` set (bindings_for c senders)" using assms(3) by (simp add: map_of_eq_None_iff)
    have "port_id_at c' = port_id_at c" by (simp add: fun_eq_iff port_id_at_def assms(1))
    then have "sv_bindings (snd (sv_bind sender s)) =
        bindings_for c senders @ [(?key, binding_for c (length (bindings_for c senders)))]"
      using None assms(2,3) by (simp add: sv_bind_def Let_def binding_for_def umap_assign_new [OF new])
    then show ?thesis using new keys by (simp add: bindings_for_def enumerate_append_eq)
  next
    case (Some b)
    then have "?key \<in> fst ` set (bindings_for c senders)" using assms(3) by (metis domI dom_map_of_conv_image_fst)
    then have "?key \<in> endpoint_to_string ` set senders" using keys by simp
    then show ?thesis using Some assms(3) by (auto simp: sv_bind_def bindings_for_def)
  qed
qed

lemma bindings_run_tick:
  assumes "sv_bindings s = bindings_for c seen" and "sv_tick None now s = Inr s'" and "unattended.sv_ok f0 ports s"
  shows "sv_bindings s' = bindings_for c seen"
  by (rule unattended.sv_tick_ok [OF assms(3), of now]) (use assms in auto)

lemma bindings_run_inspect:
  assumes "sv_bindings s = bindings_for c seen" and "sv_inspect None data sender arrival s = Inr (d, s')"
    and "unattended.sv_ok f0 (port_ids c) s"
  shows "sv_bindings s' = bindings_for c (seen @ [sender])"
proof (rule unattended.sv_inspect_ok [OF assms(3), of data sender arrival])
  fix t
  assume t: "sv_inspect None data sender arrival s = Inr (sv_judge data (fst (sv_bind sender s)) arrival t)"
    "sv_bindings t = sv_bindings (snd (sv_bind sender s))"
  have "s' = snd (sv_judge data (fst (sv_bind sender s)) arrival t)" using t(1) assms(2) by (metis Inr_inject snd_conv)
  moreover have "port_ids (sv_controller s) = port_ids c"
    using assms(3) by (simp add: unattended.sv_ok_def unattended_ok_def)
  ultimately show ?thesis using bindings_for_snoc [OF _ refl assms(1)] t(2) by simp
qed

text \<open>A key gives back the endpoint it was made of, whatever its address holds.\<close>

lemma split_last_colon_join: "CHR '':'' \<notin> set digits \<Longrightarrow> split_last_colon (addr @ CHR '':'' # digits) = Some (addr, digits)"
proof -
  assume digits: "CHR '':'' \<notin> set digits"
  have "takeWhile (\<lambda>c. c \<noteq> CHR '':'') (rev digits @ CHR '':'' # rev addr) = rev digits"
    using digits by (subst takeWhile_append2) auto
  then show ?thesis by (simp add: split_last_colon_def)
qed

lemma stoul10_dec: "n < 2 ^ 64 \<Longrightarrow> stoul10 (dec_of_nat n) = Some n"
proof -
  assume n: "n < 2 ^ 64"
  have digits: "takeWhile is_digit (dec_of_nat n) = dec_of_nat n"
    unfolding takeWhile_eq_all_conv by (rule dec_of_nat_digits)
  show ?thesis unfolding stoul10_def Let_def digits using n by (simp add: nat_of_dec_inverse)
qed

lemma endpoint_of_key_inverse [simp]: "endpoint_of_key (endpoint_to_string e) = Some e"
proof -
  have "unat (ep_port e) < 2 ^ 16" using unsigned_less [of "ep_port e"] by simp
  then have "stoul10 (dec_of_nat (unat (ep_port e))) = Some (unat (ep_port e))" by (intro stoul10_dec) simp
  then show ?thesis
    by (simp add: endpoint_of_key_def endpoint_to_string_def split_last_colon_join colon_not_digit)
qed

lemma endpoint_to_string_inject: "endpoint_to_string e = endpoint_to_string e' \<longleftrightarrow> e = e'"
  by (metis endpoint_of_key_inverse option.inject)

lemma bound_endpoints_made:
  "\<forall>(key, b) \<in> set m. \<exists>e. key = endpoint_to_string e \<Longrightarrow>
    \<exists>bound. bound_endpoints m = Some bound \<and>
      set bound = {(q, e). q \<noteq> [] \<and> (\<exists>b. (endpoint_to_string e, b) \<in> set m \<and> bd_port_id b = q)}"
proof (induction m)
  case (Cons kb m)
  then obtain e b where kb: "kb = (endpoint_to_string e, b)" by auto
  from Cons obtain bound where "bound_endpoints m = Some bound"
    "set bound = {(q, e). q \<noteq> [] \<and> (\<exists>b. (endpoint_to_string e, b) \<in> set m \<and> bd_port_id b = q)}"
    by auto
  then show ?case by (auto simp: kb endpoint_to_string_inject)
qed simp

section \<open>Containment\<close>

lemma judge_contained:
  assumes "en_inv f0 en (sv_controller s)" and "map_of (leases en) (bd_port_id b) = Some l"
    and "ea_kind (ls_action l) \<in> {Blackhole, Isolate}" and "bd_port_id b \<noteq> []"
  shows "fst (sv_judge data b arrival s) = drop_decision"
proof -
  let ?p = "bd_port_id b"
  have l: "lease_ok f0 (sv_controller s) ?p l" by (rule en_inv_leased [OF assms(1,2)])
  then have port: "has_port (sv_controller s) ?p"
    and "fault_for (tc_engine (sv_controller s)) (port_fault_target ?p) =
      Some (overlay (ls_restore l) (ea_kind (ls_action l)) (ea_bits (ls_action l)))"
    by (auto simp: lease_ok_def port_fault_eq)
  then have "fst (evaluate (port_fault_target ?p) (length data) arrival (tc_engine (sv_controller s))) = drop_decision"
    using assms(3) by (intro evaluate_blocked) (auto simp: overlay_def)
  then show ?thesis using assms(4) by (simp add: sv_judge_def evaluate_port_eq [OF port] Let_def)
qed

lemma severe_kinds: "severity Blackhole \<le> severity k \<Longrightarrow> k \<in> {Blackhole, Isolate}"
  by (cases k) (simp_all add: severity_def)

text \<open>The leases around an unattended tick.\<close>

lemma tick_lease:
  assumes "unattended.sv_ok f0 ports s" and "sv_tick None now s = Inr s'"
    and "map_of (leases (pl_enforcer (sv_pipeline s))) q = Some l" and "now < ea_expires (ls_action l)"
  shows "lease_keeps (Some l) (map_of (leases (pl_enforcer (sv_pipeline s'))) q)"
proof (cases "\<not> sv_due now s \<and> length (sv_batch s) < sc_max_batch_frames (sv_config s)")
  case True
  then have "s' = s" using assms(2) by (simp add: sv_tick_def sv_poll_def)
  then show ?thesis using assms(3) by simp
next
  case False
  then have "sv_flush None now s = Inr s'" using assms(2) by (auto simp: sv_tick_def sv_poll_def Let_def)
  then have "\<exists>packets out c.
      pl_evaluate packets (word_of_int now) now (sv_pipeline s) (sv_controller s) = Inr (out, sv_pipeline s', c)"
    by (auto simp: sv_flush_def Let_def split: option.splits sum.splits prod.splits) blast+
  then obtain packets out c where
    e: "pl_evaluate packets (word_of_int now) now (sv_pipeline s) (sv_controller s) = Inr (out, sv_pipeline s', c)"
    by blast
  show ?thesis
    using evaluate_leases [OF _ _ e, of f0] assms(1,3,4) by (simp add: unattended.sv_ok_def unattended_ok_def)
qed

section \<open>A small run\<close>

lemma arrivals_Received:
  "vs_running s \<Longrightarrow> arrivals send gate ((Received data sender, clock) # events) s =
    (data, sender, lc_frame clock, drain_due send (lc_drain clock) s) #
      arrivals send gate events (loop_step send gate (Received data sender) clock s)"
  by (simp add: processed_def)

lemma example_pipeline_leases: "leases (pl_enforcer example_pipeline) = []"
  by (simp add: example_pipeline_def en_new_def)

definition example_gate_events :: "gate_event list" where
  "example_gate_events = [InspectFrame example_hello (example_host 1) 10, TickAt 20,
     InspectFrame example_answer (example_host 2) 30, InspectFrame example_hello (example_host 1) 40]"

lemmas example_start = example_pipeline_reachable example_pipeline_leases example_controller_reachable

lemma example_gate_run:
  "\<exists>s. sv_run None events (sv_new default_supervisor_config example_pipeline example_controller k) = Inr s"
  using unattended_run_induct [OF sv_new_ok [OF example_start, of default_supervisor_config k], of "\<lambda>_ _. True"]
  by auto

section \<open>Properties\<close>



text \<open>Senders are bound to the ports of the topology in the order they are first seen, once and for all: after
  any run the bindings are the distinct senders in that order, the i-th with ingress port i and
  the id of the i-th port, or none when the topology has no such port.\<close>

theorem bindings_first_seen:
  assumes "pl_reachable dconfig econfig (p, c)" and "leases (pl_enforcer p) = []" and "tc_reachable c"
    and "sv_run None events (sv_new config p c k) = Inr s"
  shows "sv_bindings s = bindings_for c (inspected events)"
proof -
  have start: "sv_bindings (sv_new config p c k) = bindings_for c []"
    by (simp add: sv_new_def bindings_for_def)
  have "\<exists>s. sv_run None events (sv_new config p c k) = Inr s \<and>
      unattended.sv_ok (port_fault c) (port_ids c) s \<and> sv_bindings s = bindings_for c ([] @ inspected events)"
    by (rule unattended_run_induct [OF sv_new_ok [OF assms(1-3)], of "\<lambda>seen s. sv_bindings s = bindings_for c seen"])
      (auto intro: start bindings_run_tick bindings_run_inspect)
  then show ?thesis using assms(4) by auto
qed

theorem bindings_first_seen_witness:
  "\<exists>s. sv_run None example_gate_events (sv_new default_supervisor_config example_pipeline example_controller ()) = Inr s \<and>
    map (\<lambda>(key, b). (key, bd_port_id b)) (sv_bindings s) = [(''10.0.0.1:1'', ''h1''), (''10.0.0.1:2'', ''h2'')]"
proof -
  obtain s where s: "sv_run None example_gate_events
      (sv_new default_supervisor_config example_pipeline example_controller ()) = Inr s"
    using example_gate_run [of example_gate_events "()"] by (elim exE)
  from bindings_first_seen [OF example_start s]
  have b: "sv_bindings s = bindings_for example_controller [example_host 1, example_host 2, example_host 1]"
    by (simp add: example_gate_events_def)
  have "map (\<lambda>(key, b). (key, bd_port_id b)) (sv_bindings s) = [(''10.0.0.1:1'', ''h1''), (''10.0.0.1:2'', ''h2'')]"
    unfolding b
    by (simp add: bindings_for_def binding_for_def example_host_def endpoint_to_string_def dec_of_nat.simps
        digit_char_def char_of_eq_iff take_bit_eq_mod port_id_at_def example_controller_ports Let_def)
  then show ?thesis using s by (intro exI conjI)
qed

text \<open>The textual keys lose nothing: when every key of the binding table was made from an endpoint, the
  listing of the bindings does not throw and consists of exactly the port and the original endpoint
  of every binding that has a port, ordered by port.\<close>

theorem bindings_recovered:
  assumes "\<forall>(key, b) \<in> set (sv_bindings s). \<exists>e. key = endpoint_to_string e"
  shows "\<exists>bound. sv_bound s = Some bound \<and> sorted_by binding_less bound \<and>
    set bound = {(q, e). q \<noteq> [] \<and> (\<exists>b. (endpoint_to_string e, b) \<in> set (sv_bindings s) \<and> bd_port_id b = q)}"
proof -
  obtain bound where "bound_endpoints (sv_bindings s) = Some bound"
    "set bound = {(q, e). q \<noteq> [] \<and> (\<exists>b. (endpoint_to_string e, b) \<in> set (sv_bindings s) \<and> bd_port_id b = q)}"
    using bound_endpoints_made [OF assms] by blast
  moreover have "sorted_by binding_less (std_sort binding_less bound)"
    using strict_weak_order.std_sort_sorted [OF strict_weak_order_key [of fst]] unfolding binding_less_def [abs_def] by blast
  ultimately show ?thesis by (simp add: sv_bound_def)
qed

theorem bindings_recovered_witness:
  "\<exists>bound. sv_bound ((sv_new default_supervisor_config example_pipeline example_controller ())
      \<lparr> sv_bindings := bindings_for example_controller [example_host 1] \<rparr>) = Some bound \<and>
    (''h1'', example_host 1) \<in> set bound"
proof -
  let ?s = "(sv_new default_supervisor_config example_pipeline example_controller ())
      \<lparr> sv_bindings := bindings_for example_controller [example_host 1] \<rparr>"
  have b: "sv_bindings ?s = [(endpoint_to_string (example_host 1), binding_for example_controller 0)]"
    by (simp add: bindings_for_def)
  have "bd_port_id (binding_for example_controller 0) = ''h1''"
    by (simp add: binding_for_def port_id_at_def example_controller_ports Let_def)
  moreover obtain bound where "sv_bound ?s = Some bound"
    "set bound = {(q, e). q \<noteq> [] \<and> (\<exists>b. (endpoint_to_string e, b) \<in> set (sv_bindings ?s) \<and> bd_port_id b = q)}"
    using bindings_recovered [of ?s] unfolding b by auto
  ultimately show ?thesis unfolding b by auto
qed

text \<open>C3. As long as no operator intervenes, supervision is reversible: after any run the topology has the same
  ports, every port without a lease has the fault it started with, and every leased port is
  overlaid by a lease that remembers that fault.\<close>

theorem supervision_reversible:
  assumes "pl_reachable dconfig econfig (p, c)" and "leases (pl_enforcer p) = []" and "tc_reachable c"
    and "sv_run None events (sv_new config p c k) = Inr s"
  shows "unattended_ok (port_fault c) (port_ids c) (sv_pipeline s) (sv_controller s)"
proof -
  have "\<exists>s. sv_run None events (sv_new config p c k) = Inr s \<and>
      unattended.sv_ok (port_fault c) (port_ids c) s \<and> True"
    by (rule unattended_run_induct [OF sv_new_ok [OF assms(1-3)], of "\<lambda>seen s. True"]) simp_all
  then show ?thesis using assms(4) by (auto simp: unattended.sv_ok_def)
qed

theorem supervision_reversible_witness:
  "\<exists>s. sv_run None example_gate_events (sv_new default_supervisor_config example_pipeline example_controller ()) = Inr s \<and>
    unattended_ok (port_fault example_controller) (port_ids example_controller) (sv_pipeline s) (sv_controller s)"
proof -
  obtain s where s: "sv_run None example_gate_events
      (sv_new default_supervisor_config example_pipeline example_controller ()) = Inr s"
    using example_gate_run [of example_gate_events "()"] by (elim exE)
  from supervision_reversible [OF example_start s] s show ?thesis by blast
qed

text \<open>C2. A contained port of an unattended switch is silent: without a control server, and with the faults that
  the enforcer's leases put on the ports (\<open>unattended_ok\<close>, which a fresh supervisor has and every frame
  and tick keeps), while the lease of a port blackholes or isolates it and has not run out, every frame of a
  sender bound to it is blocked, even when the frame itself sets off an evaluation. With a control server an
  operator can clear or replace the fault of a leased port, and the port then speaks again.\<close>

theorem contained_sender_blocked:
  assumes "unattended_ok f0 ports (sv_pipeline s) (sv_controller s)"
    and "map_of (sv_bindings s) (endpoint_to_string sender) = Some b" and "bd_port_id b \<noteq> []"
    and "map_of (leases (pl_enforcer (sv_pipeline s))) (bd_port_id b) = Some l"
    and "ea_kind (ls_action l) \<in> {Blackhole, Isolate}" and "now < ea_expires (ls_action l)"
  shows "\<exists>s'. sv_inspect None data sender now s = Inr (drop_decision, s')"
proof -
  let ?ok = "unattended.sv_ok f0 ports"
  have bind: "sv_bind sender s = (b, s)" using assms(2) by (simp add: sv_bind_def)
  let ?s1 = "sv_record data (bd_ingress_port b) s"
  have ok1: "?ok ?s1" using assms(1) by (simp add: unattended.sv_ok_def)
  have "\<exists>t. sv_inspect None data sender now s = Inr (sv_judge data b now t) \<and> ?ok t \<and>
      lease_keeps (Some l) (map_of (leases (pl_enforcer (sv_pipeline t))) (bd_port_id b))"
  proof (cases "length (sv_batch ?s1) \<ge> sc_max_batch_frames (sv_config ?s1)")
    case True
    obtain t where t: "sv_tick None now ?s1 = Inr t" "?ok t" by (rule unattended.sv_tick_ok [OF ok1, of now])
    then show ?thesis
      using True tick_lease [OF ok1 t(1) _ assms(6)] assms(4) by (auto simp: sv_inspect_def bind Let_def)
  next
    case False
    then show ?thesis using ok1 assms(4) by (auto simp: sv_inspect_def bind Let_def)
  qed
  then obtain t where t: "sv_inspect None data sender now s = Inr (sv_judge data b now t)" "?ok t"
    "lease_keeps (Some l) (map_of (leases (pl_enforcer (sv_pipeline t))) (bd_port_id b))" by blast
  then obtain l' where l': "map_of (leases (pl_enforcer (sv_pipeline t))) (bd_port_id b) = Some l'"
    "severity (ea_kind (ls_action l)) \<le> severity (ea_kind (ls_action l'))"
    by (auto simp: lease_keeps_def split: option.splits)
  have "ea_kind (ls_action l') \<in> {Blackhole, Isolate}"
    using assms(5) l'(2) by (intro severe_kinds) (auto simp: severity_def)
  then have "fst (sv_judge data b now t) = drop_decision"
    using judge_contained [OF _ l'(1) _ assms(3), of f0 t] t(2)
    by (simp add: unattended.sv_ok_def unattended_ok_def)
  then show ?thesis using t(1) by (metis prod.collapse)
qed

theorem contained_sender_blocked_witness:
  "\<exists>s l. map_of (leases (pl_enforcer (sv_pipeline s))) ''h1'' = Some l \<and>
    (\<exists>s'. sv_inspect None example_hello (example_host 1) 200 (s :: unit supervisor) = Inr (drop_decision, s'))"
proof -
  obtain r l where e: "example_enforced =
      ([r], (en_new default_enforcer_config)\<lparr> leases := [(''h1'', l)] \<rparr>, example_isolated)"
    and l: "ls_action l = r" "ea_kind r = Isolate" "ea_expires r = 30000000100"
    using example_enforced_eq by blast
  define p where "p = example_pipeline\<lparr> pl_enforcer := (en_new default_enforcer_config)\<lparr> leases := [(''h1'', l)] \<rparr> \<rparr>"
  define s where "s = (sv_new default_supervisor_config p example_isolated ())
    \<lparr> sv_bindings := [(endpoint_to_string (example_host 1), \<lparr> bd_ingress_port = 0, bd_port_id = ''h1'' \<rparr>)] \<rparr>"
  have inv: "en_inv (port_fault example_controller) (pl_enforcer p) example_isolated"
    using en_steps_new [OF example_controller_reachable example_steps [unfolded e snd_conv]] by (simp add: p_def)
  have "pl_clock (ad_config (pl_detector p)) p"
    using pl_reachable_clock [OF example_pipeline_reachable] by (simp add: p_def pl_clock_def)
  then have "unattended_ok (port_fault example_controller) (port_ids example_isolated) (sv_pipeline s) (sv_controller s)"
    using inv by (simp add: unattended_ok_def s_def sv_new_def pl_attach_def pl_clock_def)
  note inv = this
  have bound: "map_of (sv_bindings s) (endpoint_to_string (example_host 1)) = Some \<lparr> bd_ingress_port = 0, bd_port_id = ''h1'' \<rparr>"
    by (simp add: s_def)
  have lease: "map_of (leases (pl_enforcer (sv_pipeline s))) ''h1'' = Some l"
    by (simp add: s_def sv_new_def pl_attach_def p_def)
  have "\<exists>s'. sv_inspect None example_hello (example_host 1) 200 s = Inr (drop_decision, s')"
    by (rule contained_sender_blocked [OF inv bound, of l]) (use l lease in simp_all)
  then show ?thesis using lease by blast
qed

text \<open>Supervision never multiplies or advances traffic: in any run of a switch behind a supervisor, each frame
  is copied at least once and at most twice to each destination of its fate, and no copy is due
  before the frame arrived.\<close>

theorem supervised_copies_bounded:
  assumes "pl_reachable dconfig econfig (p, c)" and "leases (pl_enforcer p) = []" and "tc_reachable c"
    and "vs_start (vs_new (sv_new config p c k)) = Inr s0"
    and "(data, sender, now, s) \<in> set (arrivals send (Some (supervisor_gate None)) events s0)"
  shows "(\<forall>x \<in> set (frame_copies (Some (supervisor_gate None)) data sender now s). now \<le> sd_due x) \<and>
    length (fate_destinations (frame_fate (Some (supervisor_gate None)) data sender now s)) \<le>
      length (frame_copies (Some (supervisor_gate None)) data sender now s) \<and>
    length (frame_copies (Some (supervisor_gate None)) data sender now s) \<le>
      2 * length (fate_destinations (frame_fate (Some (supervisor_gate None)) data sender now s))"
proof -
  have "unattended.sv_ok (port_fault c) (port_ids c) (vs_gate s0)"
    using assms(4) [unfolded vs_start_new] sv_new_ok [OF assms(1-3)] by (simp add: vs_new_def)
  from unattended.arrivals_keep [OF this assms(5)] show ?thesis
    using unattended.copies_bounded unattended.copies_later by blast
qed

theorem supervised_copies_bounded_witness:
  "\<exists>s. (example_hello, example_host 1, 10, s) \<in> set (arrivals always_sends (Some (supervisor_gate None)) example_events
      ((vs_new (sv_new default_supervisor_config example_pipeline example_controller ()))\<lparr> vs_running := True \<rparr>)) \<and>
    (\<forall>x \<in> set (frame_copies (Some (supervisor_gate None)) example_hello (example_host 1) 10 s). 10 \<le> sd_due x)"
proof -
  let ?s0 = "(vs_new (sv_new default_supervisor_config example_pipeline example_controller ()))\<lparr> vs_running := True \<rparr>"
  have running: "vs_running ?s0" by simp
  have a: "(example_hello, example_host 1, 10, drain_due always_sends 10 ?s0) \<in>
      set (arrivals always_sends (Some (supervisor_gate None)) example_events ?s0)"
    by (simp only: example_events_def arrivals_Received [OF running] list.set insert_iff example_clock_def
        loop_clock.simps simp_thms)
  have "vs_start (vs_new (sv_new default_supervisor_config example_pipeline example_controller ())) = Inr ?s0"
    by (simp add: vs_start_new)
  from supervised_copies_bounded [OF example_start this a] a show ?thesis by blast
qed

end
