(* ===== verification/Control_Service.thy ===== *)
theory Control_Service
  imports Control_Protocol Topology_Yaml Switch_Supervisor
begin

text \<open>
  The control service, \<^verbatim>\<open>include/wirelab/control_service.hpp\<close> and \<^verbatim>\<open>src/control_service.cpp\<close>: it
  answers the requests of the control protocol and stamps events with a sequence number and the
  revision of the topology. The topology controller it refers to is passed beside it, and what else a
  request makes it read is \<open>surroundings\<close>: the metrics of the switch, the files, and what the supplier
  of supervision snapshots reads. Events are collected in the order in which the control server sends
  them (\<open>dispatch_events\<close>, \<open>analysis_event_list\<close>, \<open>advance_events\<close>).
\<close>

section \<open>State\<close>

text \<open>An analyzer is the CPU's table or the state of a backend that the host supplied.\<close>

type_synonym 'g any_analyzer = "mac_address set + 'g"

record ('w, 'g) control_service =
  cs_topology_revision :: u64
  cs_has_controller :: bool
  cs_supervision :: "('w \<Rightarrow> supervision_snapshot) option"
  cs_backends :: "'g any_analyzer backend_factory option"
  cs_sources :: "source_factory option"
  cs_run :: "'g any_analyzer bench_run option"
  cs_operation :: string
  cs_deadline_ns :: u64
  cs_next_benchmark :: u64
  cs_next_sequence :: u64

record 'w surroundings =
  su_metrics :: switch_metrics
  su_files :: "string \<Rightarrow> string option"
  su_supervised :: 'w

record 'd control_dispatch =
  dp_reply :: control_reply
  dp_metrics :: "metrics_event option"
  dp_faults :: "fault_event list"
  dp_topology :: "topology_event option"
  dp_supervision :: "supervision_event option"
  dp_progress :: "benchmark_progress_event option"
  dp_result :: "'d benchmark_result_event option"

record analysis_dispatch =
  ad_anomalies :: "anomaly_detected_event list"
  ad_policies :: "policy_action_event list"
  ad_faults :: "fault_event list"
  ad_actions :: "enforcement_action list"

record 'd advance_dispatch =
  bd_progress :: "benchmark_progress_event option"
  bd_result :: "'d benchmark_result_event option"

type_synonym ('d, 'w, 'g) served = "'d control_dispatch \<times> topology_controller \<times> ('w, 'g) control_service"

definition cs_detached :: "u64 \<Rightarrow> ('w, 'g) control_service" where
  "cs_detached revision = \<lparr> cs_topology_revision = revision, cs_has_controller = False, cs_supervision = None,
     cs_backends = None, cs_sources = None, cs_run = None, cs_operation = [], cs_deadline_ns = 0,
     cs_next_benchmark = 1, cs_next_sequence = 1 \<rparr>"

definition cs_new :: "('w, 'g) control_service" where
  "cs_new = (cs_detached 0)\<lparr> cs_has_controller := True \<rparr>"

definition set_supervision_source ::
    "('w \<Rightarrow> supervision_snapshot) option \<Rightarrow> ('w, 'g) control_service \<Rightarrow> ('w, 'g) control_service" where
  "set_supervision_source f s = s\<lparr> cs_supervision := f \<rparr>"

definition set_benchmark_backends ::
    "'g any_analyzer backend_factory option \<Rightarrow> ('w, 'g) control_service \<Rightarrow> ('w, 'g) control_service" where
  "set_benchmark_backends f s = s\<lparr> cs_backends := f \<rparr>"

definition set_traffic_sources :: "source_factory option \<Rightarrow> ('w, 'g) control_service \<Rightarrow> ('w, 'g) control_service" where
  "set_traffic_sources f s = s\<lparr> cs_sources := f \<rparr>"

text \<open>The CPU backend, for a host that supplies none.\<close>

definition any_cpu_operations :: "'g any_analyzer analyzer_operations" where
  "any_cpu_operations = \<lparr>
     an_analyze = (\<lambda>b a. case a of
         Inl learned \<Rightarrow> (let (answer, learned) = an_analyze cpu_operations b learned in (answer, Inl learned))
       | Inr g \<Rightarrow> ((empty_batch, None), Inr g)),
     an_streaming = None \<rparr>"

definition any_cpu_factory :: "'g any_analyzer backend_factory" where
  "any_cpu_factory config =
     (case cpu_benchmark_backend_factory config of
        Inl e \<Rightarrow> Inl e
      | Inr b \<Rightarrow> Inr \<lparr> bb_operations = any_cpu_operations, bb_analyzer = map_option Inl (bb_analyzer b) \<rparr>)"

section \<open>Replies and stamps\<close>

definition current_revision :: "topology_controller \<Rightarrow> ('w, 'g) control_service \<Rightarrow> u64" where
  "current_revision c s = (if cs_has_controller s then topology_revision c else cs_topology_revision s)"

definition accept_reply :: "string \<Rightarrow> string \<Rightarrow> topology_controller \<Rightarrow> ('w, 'g) control_service \<Rightarrow> control_reply" where
  "accept_reply request_id operation_id c s =
     default_reply\<lparr> rp_id := request_id, rp_accepted := True, rp_revision := current_revision c s,
       rp_operation := operation_id \<rparr>"

definition dispatch_of :: "control_reply \<Rightarrow> 'd control_dispatch" where
  "dispatch_of r = \<lparr> dp_reply = r, dp_metrics = None, dp_faults = [], dp_topology = None, dp_supervision = None,
     dp_progress = None, dp_result = None \<rparr>"

definition cs_reject :: "string \<Rightarrow> string \<Rightarrow> topology_controller \<Rightarrow> ('w, 'g) control_service \<Rightarrow> ('d, 'w, 'g) served" where
  "cs_reject request_id error c s =
     (dispatch_of (default_reply\<lparr> rp_id := request_id, rp_revision := current_revision c s, rp_error := error \<rparr>), c, s)"

text \<open>\<open>next_event_sequence_++\<close>\<close>

definition next_sequence :: "('w, 'g) control_service \<Rightarrow> u64 \<times> ('w, 'g) control_service" where
  "next_sequence s = (cs_next_sequence s, s\<lparr> cs_next_sequence := cs_next_sequence s + 1 \<rparr>)"

definition fault_stamp ::
    "string \<Rightarrow> string \<Rightarrow> fault_configuration \<Rightarrow> bool \<Rightarrow> topology_controller \<Rightarrow> ('w, 'g) control_service
      \<Rightarrow> fault_event \<times> ('w, 'g) control_service" where
  "fault_stamp first second conf active c s =
     (let (n, s) = next_sequence s in
      (\<lparr> eh_api_version = WIRELAB_CONTROL_API_VERSION, eh_sequence = n, eh_revision = current_revision c s,
         fv_first = first, fv_second = second, fv_configuration = conf, fv_active = active \<rparr>, s))"

definition supervision_stamp ::
    "supervision_snapshot \<Rightarrow> topology_controller \<Rightarrow> ('w, 'g) control_service
      \<Rightarrow> supervision_event \<times> ('w, 'g) control_service" where
  "supervision_stamp snapshot c s =
     (let (n, s) = next_sequence s in
      (\<lparr> eh_api_version = WIRELAB_CONTROL_API_VERSION, eh_sequence = n, eh_revision = current_revision c s,
         se_analysed = ss_analysed_frames snapshot, se_blocked = ss_blocked_frames snapshot,
         se_bindings = ss_bindings snapshot \<rparr>, s))"

definition progress_stamp ::
    "'g any_analyzer bench_run \<Rightarrow> topology_controller \<Rightarrow> ('w, 'g) control_service
      \<Rightarrow> benchmark_progress_event \<times> ('w, 'g) control_service" where
  "progress_stamp r c s =
     (let (n, s) = next_sequence s in
      (\<lparr> eh_api_version = WIRELAB_CONTROL_API_VERSION, eh_sequence = n, eh_revision = current_revision c s,
         pe_operation = cs_operation s, pe_completed = of_nat (rn_completed r),
         pe_total = of_nat (bc_packet_count (rn_config r)) \<rparr>, s))"

definition result_stamp ::
    "'d double_operations \<Rightarrow> bool \<Rightarrow> 'g any_analyzer bench_run \<Rightarrow> topology_controller \<Rightarrow> ('w, 'g) control_service
      \<Rightarrow> 'd benchmark_result_event \<times> ('w, 'g) control_service" where
  "result_stamp d completed r c s =
     (let (n, s) = next_sequence s in
      (\<lparr> eh_api_version = WIRELAB_CONTROL_API_VERSION, eh_sequence = n, eh_revision = current_revision c s,
         re_operation = cs_operation s, re_completed = completed, re_result = bench_result d r \<rparr>, s))"

section \<open>Requests\<close>

definition switch_state :: "switch_metrics \<Rightarrow> control_request \<Rightarrow> topology_controller \<Rightarrow> ('w, 'g) control_service \<Rightarrow> ('d, 'w, 'g) served" where
  "switch_state m rq c s =
     (let (n, s) = next_sequence s;
          e = \<lparr> eh_api_version = WIRELAB_CONTROL_API_VERSION, eh_sequence = n, eh_revision = current_revision c s,
                me_metrics = m \<rparr>
      in ((dispatch_of (accept_reply (rq_id rq) (''switch-state-'' @ uint_text n) c s))\<lparr> dp_metrics := Some e \<rparr>, c, s))"

definition supervision_state :: "'w \<Rightarrow> control_request \<Rightarrow> topology_controller \<Rightarrow> ('w, 'g) control_service \<Rightarrow> ('d, 'w, 'g) served" where
  "supervision_state w rq c s =
     (case cs_supervision s of
        None \<Rightarrow> cs_reject (rq_id rq) ''supervision state is unavailable'' c s
      | Some source \<Rightarrow>
          let (e, s) = supervision_stamp (source w) c s in
          ((dispatch_of (accept_reply (rq_id rq) (''supervision-state-'' @ uint_text (eh_sequence e)) c s))
             \<lparr> dp_supervision := Some e \<rparr>, c, s))"

definition load_topology ::
    "(string \<Rightarrow> string option) \<Rightarrow> control_request \<Rightarrow> topology_controller \<Rightarrow> ('w, 'g) control_service \<Rightarrow> ('d, 'w, 'g) served" where
  "load_topology files rq c s =
     (if \<not> cs_has_controller s then cs_reject (rq_id rq) ''topology loading is unavailable'' c s
      else case topology_configuration_from_yaml_file (files (rq_path rq)) of
        Inl e \<Rightarrow> cs_reject (rq_id rq) (yaml_error_text e) c s
      | Inr conf \<Rightarrow>
          (case topology_create conf of
             Inl e \<Rightarrow> cs_reject (rq_id rq) (validation_error_text e) c s
           | Inr t \<Rightarrow>
               let c = tc_load t c; (n, s) = next_sequence s;
                   e = \<lparr> eh_api_version = WIRELAB_CONTROL_API_VERSION, eh_sequence = n,
                         eh_revision = topology_revision c, te_name = topo_name (topo_configuration t),
                         te_nodes = nodes t, te_links = links t \<rparr>
               in ((dispatch_of (accept_reply (rq_id rq) (''topology-loaded-'' @ uint_text n) c s))
                     \<lparr> dp_topology := Some e \<rparr>, c, s)))"

text \<open>The configuration of a run; the number of hosts is \<open>TrafficConfig\<close>'s default.\<close>

definition requested_config :: "traffic_scenario \<Rightarrow> benchmark_parameters \<Rightarrow> benchmark_config" where
  "requested_config scenario b = \<lparr>
     bc_traffic = \<lparr> tg_scenario = scenario, tg_seed = bp_seed b, tg_frame_size = unat (bp_frame_size b), tg_host_count = 16 \<rparr>,
     bc_packet_count = unat (bp_packet_count b), bc_batch_size = unat (bp_batch_size b),
     bc_backend = backend_text (bp_backend b), bc_generator = bp_generator b \<rparr>"

definition start_benchmark :: "control_request \<Rightarrow> topology_controller \<Rightarrow> ('w, 'g) control_service \<Rightarrow> ('d, 'w, 'g) served" where
  "start_benchmark rq c s =
     (if cs_run s \<noteq> None then cs_reject (rq_id rq) ''a benchmark run is already active'' c s
      else case scenario_from_text (bp_scenario (rq_benchmark rq)) of
        Inl e \<Rightarrow> cs_reject (rq_id rq) (benchmark_error_text e) c s
      | Inr scenario \<Rightarrow>
          (case bench_create (requested_config scenario (rq_benchmark rq))
                  (Some (case cs_backends s of Some f \<Rightarrow> f | None \<Rightarrow> any_cpu_factory))
                  (Some (case cs_sources s of Some f \<Rightarrow> f | None \<Rightarrow> cpu_traffic_source_factory)) of
             Inl e \<Rightarrow> cs_reject (rq_id rq) (benchmark_error_text e) c s
           | Inr r \<Rightarrow>
               let s = s\<lparr> cs_run := Some r, cs_operation := ''benchmark-'' @ uint_text (cs_next_benchmark s),
                          cs_next_benchmark := cs_next_benchmark s + 1,
                          cs_deadline_ns := ucast (bp_duration_seconds (rq_benchmark rq)) * 1000000000 \<rparr>;
                   reply = accept_reply (rq_id rq) (cs_operation s) c s;
                   (e, s) = progress_stamp r c s
               in ((dispatch_of reply)\<lparr> dp_progress := Some e \<rparr>, c, s)))"

definition stop_run ::
    "'d double_operations \<Rightarrow> control_request \<Rightarrow> topology_controller \<Rightarrow> ('w, 'g) control_service \<Rightarrow> ('d, 'w, 'g) served" where
  "stop_run d rq c s =
     (case cs_run s of
        None \<Rightarrow> cs_reject (rq_id rq) ''no run is active'' c s
      | Some r \<Rightarrow>
          let reply = accept_reply (rq_id rq) (cs_operation s) c s; (e, s) = result_stamp d False r c s
          in ((dispatch_of reply)\<lparr> dp_result := Some e \<rparr>, c, s\<lparr> cs_run := None \<rparr>))"

fun active_fault_events ::
    "topology_fault list \<Rightarrow> topology_controller \<Rightarrow> ('w, 'g) control_service \<Rightarrow> fault_event list \<times> ('w, 'g) control_service" where
  "active_fault_events [] c s = ([], s)"
| "active_fault_events (f # fs) c s =
     (let (e, s) = fault_stamp (tf_first f) (tf_second f) (tf_configuration f) True c s;
          (es, s) = active_fault_events fs c s
      in (e # es, s))"

definition active_faults_state :: "control_request \<Rightarrow> topology_controller \<Rightarrow> ('w, 'g) control_service \<Rightarrow> ('d, 'w, 'g) served" where
  "active_faults_state rq c s =
     (case tc_active_faults c of
        Inl e \<Rightarrow> cs_reject (rq_id rq) (controller_error_text e) c s
      | Inr faults \<Rightarrow>
          let reply = accept_reply (rq_id rq) (''active-faults-'' @ uint_text (cs_next_sequence s)) c s;
              (es, s) = active_fault_events faults c s
          in ((dispatch_of reply)\<lparr> dp_faults := es \<rparr>, c, s))"

text \<open>The four commands on one fault: the change to the controller, or the text of the refusal.\<close>

definition change_fault :: "control_request \<Rightarrow> topology_controller \<Rightarrow> string + topology_controller" where
  "change_fault rq c =
     (let f = rq_fault rq in
      case rq_command rq of
        SetPortFault \<Rightarrow> (case set_port_fault (fp_port_id f) (fp_configuration f) c of
            Inl e \<Rightarrow> Inl (controller_error_text e) | Inr c \<Rightarrow> Inr c)
      | SetLinkFault \<Rightarrow> (case set_link_fault (fp_first f) (fp_second f) (fp_configuration f) c of
            Inl e \<Rightarrow> Inl (controller_error_text e) | Inr c \<Rightarrow> Inr c)
      | ClearPortFault \<Rightarrow> (case clear_port_fault (fp_port_id f) c of
            (False, _) \<Rightarrow> Inl ''fault target has no active configuration'' | (True, c) \<Rightarrow> Inr c)
      | ClearLinkFault \<Rightarrow> (case clear_link_fault (fp_first f) (fp_second f) c of
            (False, _) \<Rightarrow> Inl ''fault target has no active configuration'' | (True, c) \<Rightarrow> Inr c)
      | _ \<Rightarrow> Inr c)"

definition fault_command :: "control_request \<Rightarrow> topology_controller \<Rightarrow> ('w, 'g) control_service \<Rightarrow> ('d, 'w, 'g) served" where
  "fault_command rq c s =
     (case change_fault rq c of
        Inl error \<Rightarrow> cs_reject (rq_id rq) error c s
      | Inr c \<Rightarrow>
          let f = rq_fault rq; active = rq_command rq \<in> {SetPortFault, SetLinkFault};
              port = rq_command rq \<in> {SetPortFault, ClearPortFault};
              (e, s) = fault_stamp (if port then fp_port_id f else fp_first f) (if port then [] else fp_second f)
                (fp_configuration f) active c s
          in ((dispatch_of (accept_reply (rq_id rq)
                 ((if active then ''fault-set-'' else ''fault-cleared-'') @ uint_text (eh_sequence e)) c s))
               \<lparr> dp_faults := [e] \<rparr>, c, s))"

definition handle_request ::
    "'d double_operations \<Rightarrow> 'w surroundings \<Rightarrow> control_request \<Rightarrow> topology_controller \<Rightarrow> ('w, 'g) control_service
      \<Rightarrow> ('d, 'w, 'g) served" where
  "handle_request d w rq c s =
     (case rq_command rq of
        GetSwitchState \<Rightarrow> switch_state (su_metrics w) rq c s
      | GetSupervisionState \<Rightarrow> supervision_state (su_supervised w) rq c s
      | LoadTopology \<Rightarrow> load_topology (su_files w) rq c s
      | StartBenchmark \<Rightarrow> start_benchmark rq c s
      | StopRun \<Rightarrow> stop_run d rq c s
      | command \<Rightarrow>
          if \<not> cs_has_controller s then cs_reject (rq_id rq) ''topology fault control is unavailable'' c s
          else if command = GetActiveFaults then active_faults_state rq c s
          else fault_command rq c s)"

definition cs_dispatch ::
    "'d double_operations \<Rightarrow> 'w surroundings \<Rightarrow> string \<Rightarrow> topology_controller \<Rightarrow> ('w, 'g) control_service
      \<Rightarrow> ('d, 'w, 'g) served" where
  "cs_dispatch d w json c s =
     (case control_request_from_json json of
        Inl e \<Rightarrow> cs_reject [] (parse_error_text e) c s
      | Inr rq \<Rightarrow>
          (case validate_request rq of
             Inl e \<Rightarrow> cs_reject (rq_id rq) (control_validation_error_text e) c s
           | Inr _ \<Rightarrow>
               if rq_revision rq \<noteq> current_revision c s then cs_reject (rq_id rq) ''stale topology revision'' c s
               else handle_request d w rq c s))"

section \<open>Analyses and benchmarks\<close>

fun anomaly_events :: "u64 \<Rightarrow> anomaly_event list \<Rightarrow> ('w, 'g) control_service \<Rightarrow> anomaly_detected_event list \<times> ('w, 'g) control_service" where
  "anomaly_events revision [] s = ([], s)"
| "anomaly_events revision (a # as) s =
     (let (n, s) = next_sequence s; (es, s) = anomaly_events revision as s
      in (\<lparr> eh_api_version = WIRELAB_CONTROL_API_VERSION, eh_sequence = n, eh_revision = revision, ae_anomaly = a \<rparr> # es, s))"

fun policy_events :: "u64 \<Rightarrow> policy_decision list \<Rightarrow> ('w, 'g) control_service \<Rightarrow> policy_action_event list \<times> ('w, 'g) control_service" where
  "policy_events revision [] s = ([], s)"
| "policy_events revision (p # ps) s =
     (let (n, s) = next_sequence s; (es, s) = policy_events revision ps s
      in (\<lparr> eh_api_version = WIRELAB_CONTROL_API_VERSION, eh_sequence = n, eh_revision = revision, pv_decision = p \<rparr> # es, s))"

text \<open>The lambda \<open>publish\<close> for an action that names a port, and the actions it is called for.\<close>

fun enforcement_events ::
    "(enforcement_action \<times> bool) list \<Rightarrow> topology_controller \<Rightarrow> ('w, 'g) control_service \<Rightarrow> fault_event list \<times> ('w, 'g) control_service" where
  "enforcement_events [] c s = ([], s)"
| "enforcement_events ((a, active) # as) c s =
     (if ea_port a = [] then enforcement_events as c s
      else
        let (e, s) = fault_stamp (ea_port a) [] (case port_fault c (ea_port a) of Some f \<Rightarrow> f | None \<Rightarrow> no_fault) active c s;
            (es, s) = enforcement_events as c s
        in (e # es, s))"

definition published_actions :: "topology_controller \<Rightarrow> analysis_outcome \<Rightarrow> (enforcement_action \<times> bool) list" where
  "published_actions c out =
     map (\<lambda>a. (a, port_fault c (ea_port a) \<noteq> None)) (ao_released out) @
     map (\<lambda>a. (a, True)) (filter (\<lambda>a. ea_outcome a \<in> {Applied, Extended}) (ao_enforced out))"

definition analysis_events ::
    "analysis_outcome \<Rightarrow> topology_controller \<Rightarrow> ('w, 'g) control_service \<Rightarrow> analysis_dispatch \<times> ('w, 'g) control_service" where
  "analysis_events out c s =
     (let revision = current_revision c s;
          (anomalies, s) = anomaly_events revision (ao_anomalies out) s;
          (policies, s) = policy_events revision (ao_decisions out) s
      in if \<not> cs_has_controller s
         then (\<lparr> ad_anomalies = anomalies, ad_policies = policies, ad_faults = [], ad_actions = [] \<rparr>, s)
         else
           let (faults, s) = enforcement_events (published_actions c out) c s
           in (\<lparr> ad_anomalies = anomalies, ad_policies = policies, ad_faults = faults,
                 ad_actions = ao_released out @ ao_enforced out \<rparr>, s))"

text \<open>The result is \<open>None\<close> if the slice of the run does not return. Its analyzer answers here; a poll in which an
  accelerated one throws is in \<open>Control_Server\<close>.\<close>

definition advance_benchmark ::
    "'d double_operations \<Rightarrow> (nat \<Rightarrow> u64) \<Rightarrow> u64 \<Rightarrow> nat \<Rightarrow> topology_controller \<Rightarrow> ('w, 'g) control_service
      \<Rightarrow> ('d advance_dispatch \<times> ('w, 'g) control_service) option" where
  "advance_benchmark d spent slice_ns max_packets c s =
     (case cs_run s of
        None \<Rightarrow> Some (\<lparr> bd_progress = None, bd_result = None \<rparr>, s)
      | Some r \<Rightarrow>
          map_option (\<lambda>(advanced, r).
            let s = s\<lparr> cs_run := Some r \<rparr> in
            if advanced = 0 \<and> \<not> bench_finished r then (\<lparr> bd_progress = None, bd_result = None \<rparr>, s)
            else
              let (p, s) = progress_stamp r c s;
                  out_of_time = (cs_deadline_ns s \<noteq> 0 \<and> br_elapsed_ns (bench_result d r) \<ge> cs_deadline_ns s)
              in if bench_finished r \<or> out_of_time
                 then let (e, s) = result_stamp d True r c s
                      in (\<lparr> bd_progress = Some p, bd_result = Some e \<rparr>, s\<lparr> cs_run := None \<rparr>)
                 else (\<lparr> bd_progress = Some p, bd_result = None \<rparr>, s))
          (bench_advance spent slice_ns max_packets r))"

definition benchmark_active :: "('w, 'g) control_service \<Rightarrow> bool" where
  "benchmark_active s \<longleftrightarrow> cs_run s \<noteq> None"

end
