(* ===== verification/Control_Roundtrip.thy ===== *)
theory Control_Roundtrip
  imports Control_Protocol
begin

text \<open>
  What the parsers of the control protocol make of what its writers print: requests and replies come
  back, events are not replies, and what a parsed request is allowed to carry.
\<close>

section \<open>Values\<close>

definition plain :: "char \<Rightarrow> bool" where
  "plain c \<longleftrightarrow> c \<noteq> quote_char \<and> c \<noteq> backslash \<and> 32 \<le> (of_char c :: nat)"

lemma json_char_plain: "plain c \<Longrightarrow> json_char c = [c]"
  by (auto simp: plain_def json_char_def)

lemma json_string_plain: "list_all plain s \<Longrightarrow> json_string s = quote_char # s @ [quote_char]"
  by (induction s) (simp_all add: json_string_def json_char_plain)

definition reads :: "'a reader \<Rightarrow> string \<Rightarrow> 'a \<Rightarrow> bool" where
  "reads r v x \<longleftrightarrow> (\<forall>rest. ends_value rest \<longrightarrow> r (v @ rest) = Inr (x, rest))"

named_theorems reads_intros \<open>what the readers make of printed values\<close>

lemma reads_string [reads_intros]: "reads read_string (json_string t) t"
  by (simp add: reads_def read_string_json_string)

lemma reads_uint [reads_intros]: "reads read_uint (uint_text w) w"
  by (simp add: reads_def read_uint_text)

lemma reads_bool [reads_intros]: "reads read_bool (bool_text b) b"
  by (simp add: reads_def read_bool_text)

lemma reads_command [reads_intros]: "reads read_command (json_string (command_text c)) c"
  by (cases c) (simp_all add: reads_def read_command_def read_string_json_string command_text_def)

lemma reads_backend [reads_intros]: "reads read_backend (json_string (backend_text b)) b"
  by (cases b) (simp_all add: reads_def read_backend_def read_string_json_string backend_text_def)

text \<open>A duration comes back truncated to milliseconds.\<close>

definition whole_ms :: "int \<Rightarrow> int" where
  "whole_ms ns = ns div 1000000 * 1000000"

definition duration_ok :: "int \<Rightarrow> bool" where
  "duration_ok ns \<longleftrightarrow> 0 \<le> ns \<and> ns < 2 ^ 63"

lemma milliseconds_small:
  assumes "n * 1000000 < 2 ^ 63"
  shows "milliseconds (of_nat n) = int n * 1000000"
proof -
  have small: "int n * 1000000 < 2 ^ 63" using assms by (simp flip: of_nat_mult)
  have "uint (of_nat n * 1000000 :: u64) = int n * 1000000"
    using small by (simp add: uint_word_ariths unsigned_of_nat take_bit_eq_mod mod_mult_left_eq of_nat_mod)
  then show ?thesis
    using sint_eq_uint_small [of "of_nat n * 1000000"] small by (simp add: milliseconds_def)
qed

lemma reads_milliseconds [reads_intros]:
  assumes "duration_ok ns"
  shows "reads read_milliseconds (int_text (ms_count ns)) (whole_ms ns)"
proof -
  define n where "n = nat (ns div 1000000)"
  have ns: "ns div 1000000 = int n" using assms by (simp add: n_def duration_ok_def pos_imp_zdiv_nonneg_iff)
  have le: "int n * 1000000 \<le> ns" unfolding ns [symmetric] by linarith
  then have small: "n * 1000000 < 2 ^ 63" using assms by (simp add: duration_ok_def flip: of_nat_less_iff)
  have "ms_count ns = int n" using assms ns by (auto simp: ms_count_def duration_ok_def sgn_if)
  moreover have word: "unat (of_nat n :: u64) = n"
    using small by (simp only: unsigned_of_nat) (simp add: take_bit_nat_eq_self)
  ultimately have "int_text (ms_count ns) = uint_text (of_nat n :: u64)"
    by (simp add: int_text_def uint_text_def)
  moreover have "\<not> (of_nat n :: u64) > 9223372036854775807"
    using small by (simp add: word_less_nat_alt word del: unsigned_of_nat)
  ultimately show ?thesis
    using reads_uint [of "of_nat n :: u64"] milliseconds_small [OF small] ns
    by (simp add: reads_def read_milliseconds_def whole_ms_def)
qed

lemma reads_store: "reads r v x \<Longrightarrow> y = f x \<Longrightarrow> reads (store r f) v y"
  by (simp add: reads_def store_def)

lemma parameter_read:
  "reads (parameter_value key rq) v rq' \<Longrightarrow> key \<notin> seen \<Longrightarrow>
    field_reads parameter_field key v (seen, rq) (insert key seen, rq')"
  by (simp add: field_reads_def reads_def parameter_field_def store_def)

lemma request_read:
  "reads (request_value key (seen, rq)) v st' \<Longrightarrow> key \<notin> has \<Longrightarrow>
    field_reads request_field key v (has, seen, rq) (insert key has, st')"
  by (simp add: field_reads_def reads_def request_field_def store_def)

lemma reply_read:
  "reads (reply_value key rp) v rp' \<Longrightarrow> key \<notin> has \<Longrightarrow>
    field_reads reply_field key v (has, rp) (insert key has, rp')"
  by (simp add: field_reads_def reads_def reply_field_def store_def)

section \<open>Replies\<close>

definition reply_kvs :: "control_reply \<Rightarrow> (string \<times> string) list" where
  "reply_kvs rp = [(''api_version'', uint_text (rp_api_version rp)), (''request_id'', json_string (rp_id rp)),
     (''accepted'', bool_text (rp_accepted rp)), (''topology_revision'', uint_text (rp_revision rp)),
     (if rp_accepted rp then (''operation_id'', json_string (rp_operation rp)) else (''error'', json_string (rp_error rp)))]"

text \<open>What a reply carries over the wire: the operation when it was accepted, the error otherwise.\<close>

definition sent_reply :: "control_reply \<Rightarrow> control_reply" where
  "sent_reply rp = (if rp_accepted rp then rp\<lparr> rp_error := [] \<rparr> else rp\<lparr> rp_operation := [] \<rparr>)"

lemma reply_text: "reply_to_json rp = CHR ''{'' # members_text (reply_kvs rp)"
  by (simp add: reply_to_json_def reply_kvs_def json_string_plain plain_def)

lemma reply_feeds:
  "feeds reply_field (reply_kvs rp) ({}, default_reply)
    (insert (if rp_accepted rp then ''operation_id'' else ''error'')
      {''topology_revision'', ''accepted'', ''request_id'', ''api_version''}, sent_reply rp)"
proof (cases "rp_accepted rp")
  case True
  show ?thesis
    unfolding reply_kvs_def if_P [OF True]
    by ((rule feeds_step, rule reply_read, simp add: reply_value_def, rule reads_store, rule reads_intros, rule refl,
        simp)+, simp add: sent_reply_def default_reply_def True)
next
  case False
  show ?thesis
    unfolding reply_kvs_def if_not_P [OF False]
    by ((rule feeds_step, rule reply_read, simp add: reply_value_def, rule reads_store, rule reads_intros, rule refl,
        simp)+, simp add: sent_reply_def default_reply_def False)
qed

text \<open>An object's text after its opening brace.\<close>

lemma members_text_start: "kvs \<noteq> [] \<Longrightarrow> \<exists>t. members_text kvs = quote_char # t"
  by (induction kvs rule: members_text.induct) (auto simp: json_string_def)

lemma consume_brace: "consume CHR ''{'' (CHR ''{'' # s) = Inr s"
  by (simp add: consume_def skip_whitespace_def is_whitespace_def)

lemma consume_members:
  assumes "kvs \<noteq> []"
  shows "skip_whitespace (members_text kvs @ s) = members_text kvs @ s"
    and "consume CHR ''}'' (members_text kvs @ s) = Inl MalformedJson"
  using members_text_start [OF assms] by (auto simp: consume_def skip_whitespace_def is_whitespace_def)

lemma skip_nothing: "skip_whitespace [] = []"
  by (simp add: skip_whitespace_def)

lemmas parse_object = skip_nothing consume_brace consume_members consume_members [of _ "[]", simplified]

lemma reply_read_back: "control_reply_from_json (reply_to_json rp) = Inr (sent_reply rp)"
proof -
  have kvs: "reply_kvs rp \<noteq> []" by (simp add: reply_kvs_def)
  from replies.members_text_read [OF reply_feeds kvs, of "[]"] kvs show ?thesis
    by (simp add: control_reply_from_json_def parse_reply_def reply_text parse_object)
qed

text \<open>Whatever strings and numbers it holds, a reply that was written is read back: the version, the
  request, the verdict, the revision, and the operation or the error that goes with the verdict.\<close>

theorem reply_roundtrip: "control_reply_from_json (reply_to_json rp) = Inr (sent_reply rp)"
  by (rule reply_read_back)

section \<open>Requests\<close>

definition configuration_kvs :: "fault_configuration \<Rightarrow> (string \<times> string) list" where
  "configuration_kvs c = [(''latency_ms'', int_text (ms_count (latency c))), (''jitter_ms'', int_text (ms_count (jitter c))),
     (''loss_basis_points'', uint_text (loss_basis_points c)),
     (''duplication_basis_points'', uint_text (duplication_basis_points c)),
     (''bandwidth_bits_per_second'', uint_text (bandwidth_bits_per_second c)),
     (''blackhole'', bool_text (blackhole c)), (''isolated'', bool_text (isolated c))]"

definition parameter_kvs :: "control_request \<Rightarrow> (string \<times> string) list" where
  "parameter_kvs rq =
     (let b = rq_benchmark rq; f = rq_fault rq in
      case rq_command rq of
        LoadTopology \<Rightarrow> [(''topology_path'', json_string (rq_path rq))]
      | StartBenchmark \<Rightarrow>
          [(''scenario'', json_string (bp_scenario b)), (''backend'', json_string (backend_text (bp_backend b))),
           (''generator'', json_string (bp_generator b)), (''batch_size'', uint_text (bp_batch_size b)),
           (''duration_seconds'', uint_text (bp_duration_seconds b)), (''seed'', uint_text (bp_seed b)),
           (''packets'', uint_text (bp_packet_count b)), (''frame_size'', uint_text (bp_frame_size b))]
      | SetPortFault \<Rightarrow> (''port_id'', json_string (fp_port_id f)) # configuration_kvs (fp_configuration f)
      | SetLinkFault \<Rightarrow> (''first_endpoint'', json_string (fp_first f)) #
          (''second_endpoint'', json_string (fp_second f)) # configuration_kvs (fp_configuration f)
      | ClearPortFault \<Rightarrow> [(''port_id'', json_string (fp_port_id f))]
      | ClearLinkFault \<Rightarrow> [(''first_endpoint'', json_string (fp_first f)), (''second_endpoint'', json_string (fp_second f))]
      | _ \<Rightarrow> [])"

definition request_kvs :: "control_request \<Rightarrow> (string \<times> string) list" where
  "request_kvs rq = [(''api_version'', uint_text (rq_api_version rq)), (''request_id'', json_string (rq_id rq)),
     (''command'', json_string (command_text (rq_command rq))), (''topology_revision'', uint_text (rq_revision rq))] @
     (if parameter_kvs rq = [] then [] else [(''parameters'', CHR ''{'' # members_text (parameter_kvs rq))])"

text \<open>What a request carries over the wire: the parameters of its command, durations in whole milliseconds,
  and the defaults for everything else.\<close>

definition sent_configuration :: "fault_configuration \<Rightarrow> fault_configuration" where
  "sent_configuration c = \<lparr> latency = whole_ms (latency c), jitter = whole_ms (jitter c),
     loss_basis_points = loss_basis_points c, duplication_basis_points = duplication_basis_points c,
     bandwidth_bits_per_second = bandwidth_bits_per_second c, blackhole = blackhole c, isolated = isolated c \<rparr>"

definition sent_header :: "control_request \<Rightarrow> control_request" where
  "sent_header rq = default_request\<lparr> rq_api_version := rq_api_version rq, rq_id := rq_id rq,
     rq_command := rq_command rq, rq_revision := rq_revision rq \<rparr>"

definition sent_request :: "control_request \<Rightarrow> control_request" where
  "sent_request rq =
     (let f = rq_fault rq; h = sent_header rq in
      case rq_command rq of
        LoadTopology \<Rightarrow> h\<lparr> rq_path := rq_path rq \<rparr>
      | StartBenchmark \<Rightarrow> h\<lparr> rq_benchmark := rq_benchmark rq \<rparr>
      | SetPortFault \<Rightarrow> h\<lparr> rq_fault := default_fault\<lparr> fp_port_id := fp_port_id f,
          fp_configuration := sent_configuration (fp_configuration f) \<rparr> \<rparr>
      | SetLinkFault \<Rightarrow> h\<lparr> rq_fault := default_fault\<lparr> fp_first := fp_first f, fp_second := fp_second f,
          fp_configuration := sent_configuration (fp_configuration f) \<rparr> \<rparr>
      | ClearPortFault \<Rightarrow> h\<lparr> rq_fault := default_fault\<lparr> fp_port_id := fp_port_id f \<rparr> \<rparr>
      | ClearLinkFault \<Rightarrow> h\<lparr> rq_fault := default_fault\<lparr> fp_first := fp_first f, fp_second := fp_second f \<rparr> \<rparr>
      | _ \<Rightarrow> h)"

definition sendable :: "control_request \<Rightarrow> bool" where
  "sendable rq \<longleftrightarrow> rq_command rq \<in> {SetPortFault, SetLinkFault} \<longrightarrow>
     duration_ok (latency (fp_configuration (rq_fault rq))) \<and> duration_ok (jitter (fp_configuration (rq_fault rq)))"

lemma request_text: "request_to_json rq = CHR ''{'' # members_text (request_kvs rq)"
  by (cases "rq_command rq")
    (simp_all add: request_to_json_def request_kvs_def parameter_kvs_def configuration_kvs_def configuration_text_def
      Let_def json_string_plain plain_def)

lemma parameter_feeds:
  assumes "sendable rq" and "parameter_kvs rq \<noteq> []"
  shows "\<exists>seen. feeds parameter_field (parameter_kvs rq) ({}, sent_header rq) (seen, sent_request rq) \<and>
    parameters_valid_for seen (rq_command rq)"
proof (cases "rq_command rq")
  case LoadTopology
  show ?thesis
    unfolding parameter_kvs_def LoadTopology Let_def control_command.case
    by (rule exI, rule conjI, ((rule feeds_step, rule parameter_read, simp add: parameter_value_def, rule reads_store, rule reads_intros,
      rule refl, simp)+, simp add: sent_request_def sent_header_def default_request_def default_fault_def default_benchmark_def
      no_fault_def sent_configuration_def Let_def LoadTopology),
        simp add: parameters_valid_for_def benchmark_keys_def required_benchmark_keys_def fault_keys_def)
next
  case StartBenchmark
  show ?thesis
    unfolding parameter_kvs_def StartBenchmark Let_def control_command.case
    by (rule exI, rule conjI, ((rule feeds_step, rule parameter_read, simp add: parameter_value_def, rule reads_store, rule reads_intros,
      rule refl, simp)+, simp add: sent_request_def sent_header_def default_request_def default_fault_def default_benchmark_def
      no_fault_def sent_configuration_def Let_def StartBenchmark),
        simp add: parameters_valid_for_def benchmark_keys_def required_benchmark_keys_def fault_keys_def)
next
  case SetPortFault
  note ms1 = reads_milliseconds [of "latency (fp_configuration (rq_fault rq))"]
    and ms2 = reads_milliseconds [of "jitter (fp_configuration (rq_fault rq))"]
  have ms: "duration_ok (latency (fp_configuration (rq_fault rq)))" "duration_ok (jitter (fp_configuration (rq_fault rq)))"
    using assms(1) by (simp_all add: sendable_def SetPortFault)
  show ?thesis
    unfolding parameter_kvs_def SetPortFault Let_def control_command.case configuration_kvs_def
    by (rule exI, rule conjI, ((rule feeds_step, rule parameter_read, simp add: parameter_value_def, rule reads_store, rule ms1 [OF ms(1)] ms2 [OF ms(2)] reads_intros,
      rule refl, simp)+, simp add: sent_request_def sent_header_def default_request_def default_fault_def default_benchmark_def
      no_fault_def sent_configuration_def Let_def SetPortFault),
        simp add: parameters_valid_for_def benchmark_keys_def required_benchmark_keys_def fault_keys_def)
next
  case SetLinkFault
  note ms1 = reads_milliseconds [of "latency (fp_configuration (rq_fault rq))"]
    and ms2 = reads_milliseconds [of "jitter (fp_configuration (rq_fault rq))"]
  have ms: "duration_ok (latency (fp_configuration (rq_fault rq)))" "duration_ok (jitter (fp_configuration (rq_fault rq)))"
    using assms(1) by (simp_all add: sendable_def SetLinkFault)
  show ?thesis
    unfolding parameter_kvs_def SetLinkFault Let_def control_command.case configuration_kvs_def
    by (rule exI, rule conjI, ((rule feeds_step, rule parameter_read, simp add: parameter_value_def, rule reads_store, rule ms1 [OF ms(1)] ms2 [OF ms(2)] reads_intros,
      rule refl, simp)+, simp add: sent_request_def sent_header_def default_request_def default_fault_def default_benchmark_def
      no_fault_def sent_configuration_def Let_def SetLinkFault),
        simp add: parameters_valid_for_def benchmark_keys_def required_benchmark_keys_def fault_keys_def)
next
  case ClearPortFault
  show ?thesis
    unfolding parameter_kvs_def ClearPortFault Let_def control_command.case
    by (rule exI, rule conjI, ((rule feeds_step, rule parameter_read, simp add: parameter_value_def, rule reads_store, rule reads_intros,
      rule refl, simp)+, simp add: sent_request_def sent_header_def default_request_def default_fault_def default_benchmark_def
      no_fault_def sent_configuration_def Let_def ClearPortFault),
        simp add: parameters_valid_for_def benchmark_keys_def required_benchmark_keys_def fault_keys_def)
next
  case ClearLinkFault
  show ?thesis
    unfolding parameter_kvs_def ClearLinkFault Let_def control_command.case
    by (rule exI, rule conjI, ((rule feeds_step, rule parameter_read, simp add: parameter_value_def, rule reads_store, rule reads_intros,
      rule refl, simp)+, simp add: sent_request_def sent_header_def default_request_def default_fault_def default_benchmark_def
      no_fault_def sent_configuration_def Let_def ClearLinkFault),
        simp add: parameters_valid_for_def benchmark_keys_def required_benchmark_keys_def fault_keys_def)
qed (use assms in \<open>simp_all add: parameter_kvs_def\<close>)

lemma parameter_kvs_empty_iff: "parameter_kvs rq = [] \<longleftrightarrow> \<not> requires_parameters (rq_command rq)"
  by (cases "rq_command rq") (simp_all add: parameter_kvs_def requires_parameters_def Let_def)

lemma reads_parameters:
  assumes "feeds parameter_field kvs st st'" and "kvs \<noteq> []"
  shows "reads (read_parameters st) (CHR ''{'' # members_text kvs) st'"
  using parameters.members_text_read [OF assms] assms(2) by (simp add: reads_def read_parameters_def parse_object)

lemma header_feeds:
  assumes "feeds request_field kvs ({''topology_revision'', ''command'', ''request_id'', ''api_version''}, {}, sent_header rq) st"
  shows "feeds request_field ([(''api_version'', uint_text (rq_api_version rq)), (''request_id'', json_string (rq_id rq)),
     (''command'', json_string (command_text (rq_command rq))), (''topology_revision'', uint_text (rq_revision rq))] @ kvs)
     ({}, {}, default_request) st"
  unfolding append_Cons append_Nil
  by ((rule feeds_step, rule request_read, simp add: request_value_def, rule reads_store, rule reads_intros, rule refl,
      simp)+, use assms in \<open>simp add: sent_header_def\<close>)

lemma request_feeds:
  assumes "sendable rq"
  shows "\<exists>has seen. feeds request_field (request_kvs rq) ({}, {}, default_request) (has, seen, sent_request rq) \<and>
    {''api_version'', ''request_id'', ''command'', ''topology_revision''} \<subseteq> has \<and>
    (''parameters'' \<in> has \<longleftrightarrow> requires_parameters (rq_command rq)) \<and>
    (requires_parameters (rq_command rq) \<longrightarrow> parameters_valid_for seen (rq_command rq))"
proof (cases "parameter_kvs rq = []")
  case True
  then have none: "\<not> requires_parameters (rq_command rq)" "sent_request rq = sent_header rq"
    by (auto simp: parameter_kvs_empty_iff sent_request_def requires_parameters_def Let_def split: control_command.split)
  show ?thesis
    unfolding request_kvs_def if_P [OF True]
    by (intro exI conjI, rule header_feeds) (use none in auto)
next
  case False
  then have needs: "requires_parameters (rq_command rq)" by (simp add: parameter_kvs_empty_iff)
  from parameter_feeds [OF assms False] obtain seen where
    feeds: "feeds parameter_field (parameter_kvs rq) ({}, sent_header rq) (seen, sent_request rq)"
    and valid: "parameters_valid_for seen (rq_command rq)" by blast
  have read: "field_reads request_field ''parameters'' (CHR ''{'' # members_text (parameter_kvs rq))
      ({''topology_revision'', ''command'', ''request_id'', ''api_version''}, {}, sent_header rq)
      (insert ''parameters'' {''topology_revision'', ''command'', ''request_id'', ''api_version''}, seen, sent_request rq)"
    by (rule request_read) (simp_all add: request_value_def reads_parameters [OF feeds False])
  show ?thesis
    unfolding request_kvs_def if_not_P [OF False]
    by (intro exI conjI, rule header_feeds, rule feeds_step [OF read]) (use needs valid in auto)
qed

lemma sent_request_command: "rq_command (sent_request rq) = rq_command rq"
  by (simp add: sent_request_def sent_header_def Let_def split: control_command.split)

lemma request_read_back:
  assumes "sendable rq"
  shows "control_request_from_json (request_to_json rq) = Inr (sent_request rq)"
proof -
  have kvs: "request_kvs rq \<noteq> []" by (simp add: request_kvs_def)
  from request_feeds [OF assms] obtain has seen where
    feeds: "feeds request_field (request_kvs rq) ({}, {}, default_request) (has, seen, sent_request rq)"
    and has: "{''api_version'', ''request_id'', ''command'', ''topology_revision''} \<subseteq> has"
      "''parameters'' \<in> has \<longleftrightarrow> requires_parameters (rq_command rq)"
      "requires_parameters (rq_command rq) \<longrightarrow> parameters_valid_for seen (rq_command rq)" by blast
  from requests.members_text_read [OF feeds kvs, of "[]"] kvs has show ?thesis
    by (simp add: control_request_from_json_def parse_request_def request_text parse_object sent_request_command)
qed

text \<open>C32. Every request that can be sent is read back as it was written, whatever strings and other numbers it
  holds: the header, the parameters of its command and the defaults for all others; durations come back in
  whole milliseconds. A request can be sent if it sets no fault, or if the latency and the jitter of its
  fault are not negative and below 2^63 nanoseconds (\<open>sendable\<close>): minus a millisecond
  and less is written with its sign, which the reader refuses.\<close>

theorem request_roundtrip:
  assumes "sendable rq"
  shows "control_request_from_json (request_to_json rq) = Inr (sent_request rq)"
  by (rule request_read_back [OF assms])

theorem request_roundtrip_witness:
  "\<exists>rq. rq_command rq = SetPortFault \<and> latency (fp_configuration (rq_fault rq)) = 1500000 \<and>
    control_request_from_json (request_to_json rq) = Inr (sent_request rq) \<and>
    latency (fp_configuration (rq_fault (sent_request rq))) = 1000000"
proof -
  let ?rq = "default_request\<lparr> rq_id := ''r'', rq_command := SetPortFault,
    rq_fault := default_fault\<lparr> fp_port_id := ''a'', fp_configuration := no_fault\<lparr> latency := 1500000 \<rparr> \<rparr> \<rparr>"
  have "sendable ?rq" by (simp add: sendable_def duration_ok_def no_fault_def)
  from request_roundtrip [OF this] show ?thesis
    by (intro exI [of _ ?rq]) (simp add: sent_request_def sent_header_def sent_configuration_def whole_ms_def Let_def)
qed

section \<open>Events are neither\<close>

lemma starts_object:
  "control_reply_from_json (CHR ''{'' # quote_char # s) =
    (case reply_members ({}, default_reply) (quote_char # s) of
       Inl e \<Rightarrow> Inl e
     | Inr ((has, rp), s) \<Rightarrow>
         if skip_whitespace s \<noteq> [] then Inl MalformedJson
         else if \<not> {''api_version'', ''request_id'', ''accepted'', ''topology_revision''} \<subseteq> has
         then Inl MissingRequiredField
         else Inr rp)"
  by (simp add: control_reply_from_json_def parse_reply_def consume_def skip_whitespace_def is_whitespace_def
      split: sum.split)

lemma header_not_reply: "control_reply_from_json (header_text e @ s) = Inl InvalidField"
proof -
  let ?v = "uint_text (eh_api_version e)"
  have read: "field_reads reply_field ''api_version'' ?v ({}, default_reply)
      (insert ''api_version'' {}, default_reply\<lparr> rp_api_version := eh_api_version e \<rparr>)"
    by (rule reply_read, simp add: reply_value_def, rule reads_store, rule reads_intros) simp_all
  obtain s' where s': "header_text e @ s = CHR ''{'' # json_string ''api_version'' @ CHR '':'' # ?v @ CHR '','' #
      json_string ''event_sequence'' @ CHR '':'' # s'"
    by (simp add: header_text_def json_string_plain plain_def)
  have "reply_members ({}, default_reply) (json_string ''api_version'' @ CHR '':'' # ?v @ CHR '','' #
      json_string ''event_sequence'' @ CHR '':'' # s') = Inl InvalidField"
    unfolding replies.members_next [OF read]
    by (rule replies.members_refused) (simp add: reply_field_def store_def reply_value_def)
  then show ?thesis unfolding s' by (simp add: json_string_plain plain_def starts_object)
qed

text \<open>No event is taken for a reply: the reply parser refuses everything the switch publishes on its own,
  which is how a client tells the two apart.\<close>

theorem events_are_not_replies:
  "control_reply_from_json (metrics_to_json e1) = Inl InvalidField \<and>
   control_reply_from_json (fault_to_json e2) = Inl InvalidField \<and>
   control_reply_from_json (topology_to_json e3) = Inl InvalidField \<and>
   control_reply_from_json (anomaly_to_json e4) = Inl InvalidField \<and>
   control_reply_from_json (policy_to_json e5) = Inl InvalidField \<and>
   control_reply_from_json (supervision_to_json e6) = Inl InvalidField \<and>
   control_reply_from_json (progress_to_json e7) = Inl InvalidField \<and>
   control_reply_from_json (result_to_json d e8) = Inl InvalidField"
  by (simp only: metrics_to_json_def fault_to_json_def topology_to_json_def anomaly_to_json_def policy_to_json_def
      supervision_to_json_def progress_to_json_def result_to_json_def Let_def header_not_reply simp_thms)

text \<open>The product of \<open>read_milliseconds\<close> wraps: some six hundred years of latency become half a millisecond.\<close>

lemma milliseconds_wrap: "milliseconds 18446744073710 = 448384"
  by (simp add: milliseconds_def)

section \<open>What a parsed request carries\<close>

text \<open>Parameters that were not read keep their defaults.\<close>

definition unread_default :: "string set \<Rightarrow> control_request \<Rightarrow> bool" where
  "unread_default seen rq \<longleftrightarrow>
     (benchmark_keys \<inter> seen = {} \<longrightarrow> rq_benchmark rq = default_benchmark) \<and>
     (''topology_path'' \<notin> seen \<longrightarrow> rq_path rq = []) \<and>
     (''port_id'' \<notin> seen \<longrightarrow> fp_port_id (rq_fault rq) = []) \<and>
     (''first_endpoint'' \<notin> seen \<longrightarrow> fp_first (rq_fault rq) = []) \<and>
     (''second_endpoint'' \<notin> seen \<longrightarrow> fp_second (rq_fault rq) = []) \<and>
     (fault_keys \<inter> seen = {} \<longrightarrow> fp_configuration (rq_fault rq) = no_fault)"

lemma store_Inr: "store r f s = Inr (y, rest) \<longleftrightarrow> (\<exists>v. r s = Inr (v, rest) \<and> y = f v)"
  by (auto simp: store_def split: sum.splits)


lemma if_reader_elim:
  assumes "(if b then r1 else r2) s = z" and "b \<Longrightarrow> r1 s = z \<Longrightarrow> P" and "r2 s = z \<Longrightarrow> P"
  shows P
  using assms by (cases b) simp_all

lemma store_elim:
  assumes "store r f s = Inr (y, rest)" and "\<And>v. y = f v \<Longrightarrow> P"
  shows P
  using assms by (auto simp: store_Inr)

definition changes_only :: "string \<Rightarrow> control_request \<Rightarrow> control_request \<Rightarrow> bool" where
  "changes_only key rq rq' \<longleftrightarrow>
     rq_command rq' = rq_command rq \<and>
     (key \<in> benchmark_keys \<or> rq_benchmark rq' = rq_benchmark rq) \<and>
     (key = ''topology_path'' \<or> rq_path rq' = rq_path rq) \<and>
     (key = ''port_id'' \<or> fp_port_id (rq_fault rq') = fp_port_id (rq_fault rq)) \<and>
     (key = ''first_endpoint'' \<or> fp_first (rq_fault rq') = fp_first (rq_fault rq)) \<and>
     (key = ''second_endpoint'' \<or> fp_second (rq_fault rq') = fp_second (rq_fault rq)) \<and>
     (key \<in> fault_keys \<or> fp_configuration (rq_fault rq') = fp_configuration (rq_fault rq))"

lemma parameter_value_changes:
  assumes "parameter_value key rq s = Inr (rq', rest)"
  shows "changes_only key rq rq'"
  by (insert assms [unfolded parameter_value_def], (erule if_reader_elim, erule store_elim, simp add: changes_only_def benchmark_keys_def fault_keys_def)+, simp)

lemma parameter_value_unread:
  assumes "parameter_value key rq s = Inr (rq', rest)" and "unread_default seen rq"
  shows "unread_default (insert key seen) rq' \<and> rq_command rq' = rq_command rq"
proof -
  note changes = parameter_value_changes [OF assms(1), unfolded changes_only_def]
  have fresh: "K \<inter> insert key seen = {} \<longleftrightarrow> key \<notin> K \<and> K \<inter> seen = {}" for K by auto
  show ?thesis
    using changes assms(2) unfolding unread_default_def fresh insert_iff de_Morgan_disj
    by (elim conjE, intro conjI impI; (elim conjE)?; simp)
qed

lemma parameter_field_unread:
  assumes "parameter_field key (seen, rq) s = Inr ((seen', rq'), rest)" and "unread_default seen rq"
  shows "unread_default seen' rq' \<and> rq_command rq' = rq_command rq"
  using assms(1) parameter_value_unread [OF _ assms(2)]
  by (auto simp: parameter_field_def store_Inr split: if_splits)

lemma parameter_members_unread:
  assumes "parameter_members st s = Inr (st', rest)" and "unread_default (fst st) (snd st)"
  shows "unread_default (fst st') (snd st') \<and> rq_command (snd st') = rq_command (snd st)"
  using assms
proof (induction st s rule: parameter_members.induct)
  case (1 st s)
  from "1.prems"(1) obtain key s1 st1 s2 closed s3 where
    1: "member_key s = Inr (key, s1)" "parameter_field key st s1 = Inr (st1, s2)" "member_end s2 = Inr (closed, s3)"
    and 2: "if closed then Inr (st', rest) = Inr (st1, s3) else parameter_members st1 s3 = Inr (st', rest)"
    by (subst (asm) parameter_members.simps) (fastforce split: sum.splits if_splits)
  have step: "unread_default (fst st1) (snd st1) \<and> rq_command (snd st1) = rq_command (snd st)"
    using parameter_field_unread [of key "fst st" "snd st" s1 "fst st1" "snd st1" s2] 1(2) "1.prems"(2) by simp
  then show ?case
    using 2 "1.IH" [OF 1(1) refl 1(2) refl 1(3) refl] by (cases closed) auto
qed

lemma read_parameters_unread:
  assumes "read_parameters st s = Inr (st', rest)" and "unread_default (fst st) (snd st)"
  shows "unread_default (fst st') (snd st') \<and> rq_command (snd st') = rq_command (snd st)"
  using assms parameter_members_unread by (auto simp: read_parameters_def split: sum.splits)

text \<open>The parser's state: no parameters before their key, and defaults for what was not read.\<close>

definition request_state_ok :: "request_state \<Rightarrow> bool" where
  "request_state_ok st \<longleftrightarrow> (let (has, seen, rq) = st in
     unread_default seen rq \<and> (''parameters'' \<notin> has \<longrightarrow> seen = {}))"

lemma request_field_ok:
  assumes "request_field key st s = Inr (st', rest)" and "request_state_ok st"
  shows "request_state_ok st'"
proof -
  obtain has seen rq where st: "st = (has, seen, rq)" by (cases st)
  have head: "unread_default seen (rq\<lparr> rq_api_version := v \<rparr>) = unread_default seen rq"
    "unread_default seen (rq\<lparr> rq_id := i \<rparr>) = unread_default seen rq"
    "unread_default seen (rq\<lparr> rq_command := c \<rparr>) = unread_default seen rq"
    "unread_default seen (rq\<lparr> rq_revision := w \<rparr>) = unread_default seen rq" for v i c w seen rq
    by (simp_all add: unread_default_def)
  show ?thesis
    using assms read_parameters_unread [of "(seen, rq)"]
    by (auto simp: st request_state_ok_def request_field_def request_value_def store_Inr head split: if_splits)
qed

lemma request_members_ok:
  assumes "request_members st s = Inr (st', rest)" and "request_state_ok st"
  shows "request_state_ok st'"
  using assms
proof (induction st s rule: request_members.induct)
  case (1 st s)
  from "1.prems"(1) obtain key s1 st1 s2 closed s3 where
    1: "member_key s = Inr (key, s1)" "request_field key st s1 = Inr (st1, s2)" "member_end s2 = Inr (closed, s3)"
    and 2: "if closed then Inr (st', rest) = Inr (st1, s3) else request_members st1 s3 = Inr (st', rest)"
    by (subst (asm) request_members.simps) (fastforce split: sum.splits if_splits)
  then show ?case
    using request_field_ok [OF 1(2) "1.prems"(2)] "1.IH" [OF 1(1) refl 1(2) refl 1(3) refl] by (cases closed) auto
qed

definition well_formed_request :: "control_request \<Rightarrow> bool" where
  "well_formed_request rq \<longleftrightarrow>
     (rq_command rq \<noteq> StartBenchmark \<longrightarrow> rq_benchmark rq = default_benchmark) \<and>
     (rq_command rq \<noteq> LoadTopology \<longrightarrow> rq_path rq = []) \<and>
     (rq_command rq \<notin> {SetPortFault, ClearPortFault} \<longrightarrow> fp_port_id (rq_fault rq) = []) \<and>
     (rq_command rq \<notin> {SetLinkFault, ClearLinkFault} \<longrightarrow> fp_first (rq_fault rq) = [] \<and> fp_second (rq_fault rq) = []) \<and>
     (rq_command rq \<notin> {SetPortFault, SetLinkFault} \<longrightarrow> fp_configuration (rq_fault rq) = no_fault)"

lemma well_formed_valid:
  "unread_default seen rq \<Longrightarrow> parameters_valid_for seen (rq_command rq) \<Longrightarrow> well_formed_request rq"
  by (cases "rq_command rq") (auto simp: parameters_valid_for_def unread_default_def well_formed_request_def Let_def)

lemma well_formed_none: "unread_default {} rq \<Longrightarrow> well_formed_request rq"
  by (simp add: unread_default_def well_formed_request_def)

text \<open>C33. A request that parses is well-formed for its command, whatever text it came from: it carries the
  parameters of that command only, and every other field has its default.\<close>

theorem parsed_request_well_formed:
  assumes "control_request_from_json json = Inr rq"
  shows "well_formed_request rq"
proof -
  from assms obtain s has seen rest where
    members: "request_members ({}, {}, default_request) s = Inr ((has, seen, rq), rest)"
    and valid: "''parameters'' \<in> has \<longrightarrow> parameters_valid_for seen (rq_command rq)"
    by (auto simp: control_request_from_json_def parse_request_def split: sum.splits if_splits)
  have "request_state_ok ({}, {}, default_request)"
    by (simp add: request_state_ok_def unread_default_def default_request_def default_fault_def)
  from request_members_ok [OF members this] have "unread_default seen rq" "''parameters'' \<notin> has \<longrightarrow> seen = {}"
    by (simp_all add: request_state_ok_def)
  then show ?thesis using valid well_formed_valid well_formed_none by blast
qed

theorem parsed_request_well_formed_witness:
  "\<exists>rq. control_request_from_json (request_to_json default_request) = Inr rq \<and> well_formed_request rq"
proof -
  have "sendable default_request" by (simp add: sendable_def default_request_def)
  from request_read_back [OF this] show ?thesis using parsed_request_well_formed by blast
qed

end
