(* ===== verification/Service_Contract.thy ===== *)
theory Service_Contract
  imports Control_Service Control_Roundtrip
begin

text \<open>
  What the control service promises its clients. Every event it stamps carries the next number and the
  revision of the topology; a request that is refused changes nothing; a benchmark is a small state
  machine that the service refines, and it ends.
\<close>

section \<open>Events in the order they are sent\<close>

datatype 'd control_event =
    MetricsEvent metrics_event
  | FaultEvent fault_event
  | TopologyEvent topology_event
  | SupervisionEvent supervision_event
  | ProgressEvent benchmark_progress_event
  | ResultEvent "'d benchmark_result_event"
  | AnomalyDetected anomaly_detected_event
  | PolicyAction policy_action_event

definition event_text :: "'d double_operations \<Rightarrow> 'd control_event \<Rightarrow> string" where
  "event_text d e =
     (case e of
        MetricsEvent e \<Rightarrow> metrics_to_json e
      | FaultEvent e \<Rightarrow> fault_to_json e
      | TopologyEvent e \<Rightarrow> topology_to_json e
      | SupervisionEvent e \<Rightarrow> supervision_to_json e
      | ProgressEvent e \<Rightarrow> progress_to_json e
      | ResultEvent e \<Rightarrow> result_to_json d e
      | AnomalyDetected e \<Rightarrow> anomaly_to_json e
      | PolicyAction e \<Rightarrow> policy_to_json e)"

definition event_stamp :: "'d control_event \<Rightarrow> u64 \<times> u64" where
  "event_stamp e =
     (case e of
        MetricsEvent e \<Rightarrow> (eh_sequence e, eh_revision e)
      | FaultEvent e \<Rightarrow> (eh_sequence e, eh_revision e)
      | TopologyEvent e \<Rightarrow> (eh_sequence e, eh_revision e)
      | SupervisionEvent e \<Rightarrow> (eh_sequence e, eh_revision e)
      | ProgressEvent e \<Rightarrow> (eh_sequence e, eh_revision e)
      | ResultEvent e \<Rightarrow> (eh_sequence e, eh_revision e)
      | AnomalyDetected e \<Rightarrow> (eh_sequence e, eh_revision e)
      | PolicyAction e \<Rightarrow> (eh_sequence e, eh_revision e))"

definition dispatch_events :: "'d control_dispatch \<Rightarrow> 'd control_event list" where
  "dispatch_events dp =
     map MetricsEvent (case dp_metrics dp of None \<Rightarrow> [] | Some e \<Rightarrow> [e]) @
     map FaultEvent (dp_faults dp) @
     map TopologyEvent (case dp_topology dp of None \<Rightarrow> [] | Some e \<Rightarrow> [e]) @
     map SupervisionEvent (case dp_supervision dp of None \<Rightarrow> [] | Some e \<Rightarrow> [e]) @
     map ProgressEvent (case dp_progress dp of None \<Rightarrow> [] | Some e \<Rightarrow> [e]) @
     map ResultEvent (case dp_result dp of None \<Rightarrow> [] | Some e \<Rightarrow> [e])"

definition analysis_event_list :: "analysis_dispatch \<Rightarrow> 'd control_event list" where
  "analysis_event_list ad =
     map AnomalyDetected (ad_anomalies ad) @ map PolicyAction (ad_policies ad) @ map FaultEvent (ad_faults ad)"

definition advance_events :: "'d advance_dispatch \<Rightarrow> 'd control_event list" where
  "advance_events bd =
     map ProgressEvent (case bd_progress bd of None \<Rightarrow> [] | Some e \<Rightarrow> [e]) @
     map ResultEvent (case bd_result bd of None \<Rightarrow> [] | Some e \<Rightarrow> [e])"

lemma event_stamp_simps [simp]:
  "event_stamp (MetricsEvent m) = (eh_sequence m, eh_revision m)"
  "event_stamp (FaultEvent f) = (eh_sequence f, eh_revision f)"
  "event_stamp (TopologyEvent t) = (eh_sequence t, eh_revision t)"
  "event_stamp (SupervisionEvent v) = (eh_sequence v, eh_revision v)"
  "event_stamp (ProgressEvent p) = (eh_sequence p, eh_revision p)"
  "event_stamp (ResultEvent r) = (eh_sequence r, eh_revision r)"
  "event_stamp (AnomalyDetected a) = (eh_sequence a, eh_revision a)"
  "event_stamp (PolicyAction q) = (eh_sequence q, eh_revision q)"
  by (simp_all add: event_stamp_def)

lemma dispatch_events_simps [simp]:
  "dispatch_events (dispatch_of r) = []"
  "dispatch_events ((dispatch_of r)\<lparr> dp_metrics := Some m \<rparr>) = [MetricsEvent m]"
  "dispatch_events ((dispatch_of r)\<lparr> dp_faults := fs \<rparr>) = map FaultEvent fs"
  "dispatch_events ((dispatch_of r)\<lparr> dp_topology := Some t \<rparr>) = [TopologyEvent t]"
  "dispatch_events ((dispatch_of r)\<lparr> dp_supervision := Some v \<rparr>) = [SupervisionEvent v]"
  "dispatch_events ((dispatch_of r)\<lparr> dp_progress := Some p \<rparr>) = [ProgressEvent p]"
  "dispatch_events ((dispatch_of r)\<lparr> dp_result := Some e \<rparr>) = [ResultEvent e]"
  by (simp_all add: dispatch_events_def dispatch_of_def)

lemma dispatch_of_reply [simp]: "dp_reply (dispatch_of r) = r"
  by (simp add: dispatch_of_def)

section \<open>Numbering\<close>

primrec numbered :: "u64 \<Rightarrow> u64 \<Rightarrow> 'd control_event list \<Rightarrow> bool" where
  "numbered revision n [] \<longleftrightarrow> True"
| "numbered revision n (e # es) \<longleftrightarrow> event_stamp e = (n, revision) \<and> numbered revision (n + 1) es"

lemma numbered_append:
  "numbered v n (es @ fs) \<longleftrightarrow> numbered v n es \<and> numbered v (n + of_nat (length es)) fs"
  by (induction es arbitrary: n) (simp_all add: add.assoc add.commute)

text \<open>The parts of the service that stamping leaves alone.\<close>

definition stamped ::
    "topology_controller \<Rightarrow> ('w, 'g) control_service \<Rightarrow> 'd control_event list \<Rightarrow> ('w, 'g) control_service \<Rightarrow> bool" where
  "stamped c s es s' \<longleftrightarrow>
     numbered (current_revision c s) (cs_next_sequence s) es \<and>
     s' = s\<lparr> cs_next_sequence := cs_next_sequence s + of_nat (length es) \<rparr>"

named_theorems stamp_intros

lemma stamped_Nil [stamp_intros]: "stamped c s [] s"
  by (simp add: stamped_def)

lemma stamped_append: "stamped c s es s1 \<Longrightarrow> stamped c s1 fs s2 \<Longrightarrow> stamped c s (es @ fs) s2"
  by (auto simp: stamped_def numbered_append current_revision_def)

lemma stamped_Cons: "stamped c s [e] s1 \<Longrightarrow> stamped c s1 es s2 \<Longrightarrow> stamped c s (e # es) s2"
  using stamped_append [of c s "[e]"] by simp

lemma fault_stamped: "fault_stamp first second conf active c s = (e, s') \<Longrightarrow> stamped c s [FaultEvent e] s'"
  by (auto simp: fault_stamp_def next_sequence_def stamped_def current_revision_def)

lemma supervision_stamped: "supervision_stamp snapshot c s = (e, s') \<Longrightarrow> stamped c s [SupervisionEvent e] s'"
  by (auto simp: supervision_stamp_def next_sequence_def stamped_def current_revision_def)

lemma progress_stamped: "progress_stamp r c s = (e, s') \<Longrightarrow> stamped c s [ProgressEvent e] s'"
  by (auto simp: progress_stamp_def next_sequence_def stamped_def current_revision_def)

lemma result_stamped: "result_stamp d b r c s = (e, s') \<Longrightarrow> stamped c s [ResultEvent e] s'"
  by (auto simp: result_stamp_def next_sequence_def stamped_def current_revision_def)

lemma active_faults_stamped: "active_fault_events fs c s = (es, s') \<Longrightarrow> stamped c s (map FaultEvent es) s'"
proof (induction fs arbitrary: s es s')
  case (Cons f fs)
  obtain e s1 where e: "fault_stamp (tf_first f) (tf_second f) (tf_configuration f) True c s = (e, s1)" by fastforce
  obtain fs' s2 where fs': "active_fault_events fs c s1 = (fs', s2)" by fastforce
  have "es = e # fs'" "s' = s2" using Cons.prems by (simp_all add: e fs')
  then show ?case using stamped_Cons [OF fault_stamped [OF e] Cons.IH [OF fs']] by simp
qed (simp add: stamped_Nil)

lemma anomalies_stamped:
  "anomaly_events (current_revision c s) as s = (es, s') \<Longrightarrow> stamped c s (map AnomalyDetected es) s'"
proof (induction as arbitrary: s es s')
  case (Cons a as)
  let ?s = "s\<lparr> cs_next_sequence := cs_next_sequence s + 1 \<rparr>"
  have v: "current_revision c ?s = current_revision c s" by (simp add: current_revision_def)
  from Cons.prems obtain fs where rest: "anomaly_events (current_revision c ?s) as ?s = (fs, s')"
    and es: "es = \<lparr> eh_api_version = WIRELAB_CONTROL_API_VERSION, eh_sequence = cs_next_sequence s,
      eh_revision = current_revision c s, ae_anomaly = a \<rparr> # fs"
    by (auto simp: next_sequence_def v split: prod.splits)
  show ?case unfolding es list.map
    by (rule stamped_Cons [OF _ Cons.IH [OF rest]]) (simp add: stamped_def)
qed (simp add: stamped_Nil)

lemma policies_stamped:
  "policy_events (current_revision c s) ps s = (es, s') \<Longrightarrow> stamped c s (map PolicyAction es) s'"
proof (induction ps arbitrary: s es s')
  case (Cons p ps)
  let ?s = "s\<lparr> cs_next_sequence := cs_next_sequence s + 1 \<rparr>"
  have v: "current_revision c ?s = current_revision c s" by (simp add: current_revision_def)
  from Cons.prems obtain fs where rest: "policy_events (current_revision c ?s) ps ?s = (fs, s')"
    and es: "es = \<lparr> eh_api_version = WIRELAB_CONTROL_API_VERSION, eh_sequence = cs_next_sequence s,
      eh_revision = current_revision c s, pv_decision = p \<rparr> # fs"
    by (auto simp: next_sequence_def v split: prod.splits)
  show ?case unfolding es list.map
    by (rule stamped_Cons [OF _ Cons.IH [OF rest]]) (simp add: stamped_def)
qed (simp add: stamped_Nil)

lemma enforcements_stamped: "enforcement_events as c s = (es, s') \<Longrightarrow> stamped c s (map FaultEvent es) s'"
proof (induction as arbitrary: s es s')
  case (Cons p as)
  obtain a active where p: "p = (a, active)" by (cases p)
  show ?case
  proof (cases "ea_port a = []")
    case True
    then show ?thesis using Cons by (simp add: p)
  next
    case False
    let ?f = "case port_fault c (ea_port a) of Some f \<Rightarrow> f | None \<Rightarrow> no_fault"
    obtain e s1 where e: "fault_stamp (ea_port a) [] ?f active c s = (e, s1)" by fastforce
    obtain fs s2 where fs: "enforcement_events as c s1 = (fs, s2)" by fastforce
    have "es = e # fs" "s' = s2" using Cons.prems False by (simp_all add: p e fs)
    then show ?thesis using stamped_Cons [OF fault_stamped [OF e] Cons.IH [OF fs]] by simp
  qed
qed (simp add: stamped_Nil)

lemma stamped_revision: "stamped c s es s' \<Longrightarrow> current_revision c s' = current_revision c s"
  by (simp add: stamped_def current_revision_def)

lemma analysis_stamped:
  assumes "analysis_events out c s = (ad, s')"
  shows "stamped c s (analysis_event_list ad) s'"
proof -
  obtain as s1 where as: "anomaly_events (current_revision c s) (ao_anomalies out) s = (as, s1)" by fastforce
  note 1 = anomalies_stamped [OF as]
  obtain ps s2 where ps: "policy_events (current_revision c s) (ao_decisions out) s1 = (ps, s2)" by fastforce
  have "stamped c s1 (map PolicyAction ps) s2"
    by (rule policies_stamped [of _ _ "ao_decisions out"]) (simp add: stamped_revision [OF 1] ps)
  note 2 = stamped_append [OF 1 this]
  obtain fs s3 where fs: "enforcement_events (published_actions c out) c s2 = (fs, s3)" by fastforce
  note 3 = stamped_append [OF 2 enforcements_stamped [OF fs]]
  show ?thesis
  proof (cases "cs_has_controller s2")
    case True
    then show ?thesis using assms 3 by (auto simp: analysis_events_def as ps fs Let_def analysis_event_list_def)
  next
    case False
    then show ?thesis using assms 2 by (auto simp: analysis_events_def as ps Let_def analysis_event_list_def)
  qed
qed

section \<open>Answers\<close>

text \<open>What every answer to a request is: the reply carries the request's identifier and the current revision,
  the events are numbered on, and a refusal leaves everything as it was.\<close>

definition answers ::
    "string \<Rightarrow> topology_controller \<Rightarrow> ('w, 'g) control_service \<Rightarrow> ('d, 'w, 'g) served \<Rightarrow> bool" where
  "answers request_id c s = (\<lambda>(dp, c', s').
     rp_api_version (dp_reply dp) = WIRELAB_CONTROL_API_VERSION \<and> rp_id (dp_reply dp) = request_id \<and>
     rp_revision (dp_reply dp) = current_revision c' s' \<and>
     (\<not> rp_accepted (dp_reply dp) \<longrightarrow> c' = c \<and> s' = s \<and> dispatch_events dp = []) \<and>
     numbered (current_revision c' s') (cs_next_sequence s) (dispatch_events dp) \<and>
     cs_next_sequence s' = cs_next_sequence s + of_nat (length (dispatch_events dp)) \<and>
     cs_has_controller s' = cs_has_controller s \<and> cs_topology_revision s' = cs_topology_revision s)"

lemma refused_inert:
  "answers i c s r \<Longrightarrow> r = (dp, c', s') \<Longrightarrow> \<not> rp_accepted (dp_reply dp) \<Longrightarrow> c' = c \<and> s' = s \<and> dispatch_events dp = []"
  by (simp add: answers_def)

lemma reject_answers: "answers i c s (cs_reject i error c s)"
  by (simp add: answers_def cs_reject_def default_reply_def)

lemma accept_fields [simp]:
  "rp_api_version (accept_reply i operation c s) = WIRELAB_CONTROL_API_VERSION"
  "rp_id (accept_reply i operation c s) = i" "rp_accepted (accept_reply i operation c s)"
  "rp_revision (accept_reply i operation c s) = current_revision c s"
  "rp_operation (accept_reply i operation c s) = operation"
  by (simp_all add: accept_reply_def default_reply_def)

text \<open>An accepted request whose events are stamped in the state it leaves.\<close>

lemma accept_answers:
  assumes "stamped c' s0 (dispatch_events dp) s'" and "cs_next_sequence s0 = cs_next_sequence s"
    and "cs_has_controller s0 = cs_has_controller s" and "cs_topology_revision s0 = cs_topology_revision s"
    and "rp_api_version (dp_reply dp) = WIRELAB_CONTROL_API_VERSION" and "rp_id (dp_reply dp) = i"
    and "rp_accepted (dp_reply dp)" and "rp_revision (dp_reply dp) = current_revision c' s0"
  shows "answers i c s (dp, c', s')"
  using assms by (auto simp: answers_def stamped_def current_revision_def)

lemma switch_state_answers: "answers (rq_id rq) c s (switch_state m rq c s)"
  unfolding switch_state_def next_sequence_def Let_def prod.case
  by (rule accept_answers [of c s]) (simp_all add: stamped_def current_revision_def)

lemma supervision_state_answers: "answers (rq_id rq) c s (supervision_state w rq c s)"
proof (cases "cs_supervision s")
  case (Some source)
  obtain e s' where e: "supervision_stamp (source w) c s = (e, s')" by fastforce
  note st = supervision_stamped [OF e]
  show ?thesis
    unfolding supervision_state_def Some option.case e Let_def prod.case
    by (rule accept_answers) (simp_all add: st stamped_revision [OF st])
qed (simp add: supervision_state_def reject_answers)

lemma load_topology_answers: "answers (rq_id rq) c s (load_topology files rq c s)"
proof -
  have loaded: "answers (rq_id rq) c s ((dispatch_of (accept_reply (rq_id rq) operation (tc_load t c)
      (s\<lparr> cs_next_sequence := cs_next_sequence s + 1 \<rparr>)))\<lparr> dp_topology := Some e \<rparr>, tc_load t c,
      s\<lparr> cs_next_sequence := cs_next_sequence s + 1 \<rparr>)"
    if "cs_has_controller s" "eh_sequence e = cs_next_sequence s" "eh_revision e = topology_revision (tc_load t c)"
    for t e operation
    by (rule accept_answers [of "tc_load t c" s]) (use that in \<open>simp_all add: stamped_def current_revision_def\<close>)
  show ?thesis
    by (auto simp: load_topology_def next_sequence_def Let_def reject_answers intro!: loaded split: sum.split)
qed

lemma start_benchmark_answers: "answers (rq_id rq) c s (start_benchmark rq c s)"
proof -
  have started: "answers (rq_id rq) c s ((dispatch_of (accept_reply (rq_id rq) operation c s0))\<lparr> dp_progress := Some e \<rparr>, c, s')"
    if "progress_stamp r c s0 = (e, s')" "cs_next_sequence s0 = cs_next_sequence s"
      "cs_has_controller s0 = cs_has_controller s" "cs_topology_revision s0 = cs_topology_revision s"
    for r s0 e s' operation
    by (rule accept_answers [of c s0]) (use that progress_stamped [OF that(1)] in simp_all)
  show ?thesis
    by (auto simp: start_benchmark_def Let_def reject_answers intro!: started split: sum.split prod.split)
qed

lemma stop_run_answers: "answers (rq_id rq) c s (stop_run d rq c s)"
proof (cases "cs_run s")
  case (Some r)
  obtain e s' where e: "result_stamp d False r c s = (e, s')" by fastforce
  show ?thesis
    using result_stamped [OF e]
    by (simp add: stop_run_def Some e answers_def stamped_def current_revision_def)
qed (simp add: stop_run_def reject_answers)

lemma active_faults_answers: "answers (rq_id rq) c s (active_faults_state rq c s)"
proof (cases "tc_active_faults c")
  case (Inr faults)
  obtain es s' where es: "active_fault_events faults c s = (es, s')" by fastforce
  show ?thesis
    unfolding active_faults_state_def Inr sum.case Let_def es prod.case
    by (rule accept_answers) (simp_all add: active_faults_stamped [OF es])
qed (simp add: active_faults_state_def reject_answers)

text \<open>A change of a fault leaves the revision alone.\<close>

lemma change_fault_revision: "change_fault rq c = Inr c' \<Longrightarrow> topology_revision c' = topology_revision c"
  by (auto simp: change_fault_def set_port_fault_def set_link_fault_def clear_port_fault_def clear_link_fault_def Let_def
      split: control_command.splits sum.splits option.splits if_splits prod.splits bool.splits)

lemma fault_command_answers: "answers (rq_id rq) c s (fault_command rq c s)"
proof (cases "change_fault rq c")
  case (Inr c')
  define f where "f = rq_fault rq"
  define active where "active \<longleftrightarrow> rq_command rq \<in> {SetPortFault, SetLinkFault}"
  define port where "port \<longleftrightarrow> rq_command rq \<in> {SetPortFault, ClearPortFault}"
  obtain e s' where e: "fault_stamp (if port then fp_port_id f else fp_first f) (if port then [] else fp_second f)
      (fp_configuration f) active c' s = (e, s')" by fastforce
  show ?thesis
    unfolding fault_command_def Inr sum.case Let_def f_def [symmetric] active_def [symmetric] port_def [symmetric] e prod.case
    by (rule accept_answers) (simp_all add: fault_stamped [OF e] stamped_revision [OF fault_stamped [OF e]])
qed (simp add: fault_command_def reject_answers)

lemma handle_request_answers: "answers (rq_id rq) c s (handle_request d w rq c s)"
  by (simp add: handle_request_def reject_answers switch_state_answers supervision_state_answers load_topology_answers
      start_benchmark_answers stop_run_answers active_faults_answers fault_command_answers split: control_command.split)

definition request_id_of :: "string \<Rightarrow> string" where
  "request_id_of json = (case control_request_from_json json of Inl _ \<Rightarrow> [] | Inr rq \<Rightarrow> rq_id rq)"

lemma dispatch_answers: "answers (request_id_of json) c s (cs_dispatch d w json c s)"
  by (simp add: cs_dispatch_def request_id_of_def reject_answers handle_request_answers split: sum.split)

text \<open>C11. Only a request that was made for the topology that is loaded has any effect: if a dispatch accepts,
  changes the topology or a fault or the service, or emits an event, then the text parsed as a request
  of the supported version with an identifier, its revision is the current one, and the reply accepts it.\<close>

theorem only_current_requests_act:
  assumes "cs_dispatch d w json c s = (dp, c', s')"
    and "rp_accepted (dp_reply dp) \<or> c' \<noteq> c \<or> s' \<noteq> s \<or> dispatch_events dp \<noteq> []"
  shows "\<exists>rq. control_request_from_json json = Inr rq \<and> rq_api_version rq = WIRELAB_CONTROL_API_VERSION \<and>
    rq_id rq \<noteq> [] \<and> rq_revision rq = current_revision c s \<and>
    rp_accepted (dp_reply dp) \<and> rp_id (dp_reply dp) = rq_id rq"
proof -
  have a: "answers (request_id_of json) c s (dp, c', s')" using dispatch_answers [of json c s d w] assms(1) by simp
  then have accepted: "rp_accepted (dp_reply dp)" using assms(2) by (auto simp: answers_def)
  have "\<exists>rq. control_request_from_json json = Inr rq \<and> validate_request rq = Inr () \<and> rq_revision rq = current_revision c s"
    using assms(1) accepted
    by (auto simp: cs_dispatch_def cs_reject_def default_reply_def split: sum.splits if_splits)
  with a accepted show ?thesis
    by (auto simp: answers_def request_id_of_def validate_request_def split: if_splits)
qed

text \<open>Requests for the witnesses: their texts parse as they were written.\<close>

definition example_request :: "control_command \<Rightarrow> control_request" where
  "example_request command = default_request\<lparr> rq_id := ''r'', rq_command := command, rq_path := ''lab.yaml'' \<rparr>"

definition example_surroundings :: "unit surroundings" where
  "example_surroundings = \<lparr> su_metrics = metrics_zero, su_files = (\<lambda>_. Some (document_text sample_network)),
     su_supervised = () \<rparr>"

lemma example_request_read:
  assumes "command \<in> {GetSwitchState, LoadTopology, GetActiveFaults, StopRun}"
  shows "control_request_from_json (request_to_json (example_request command)) = Inr (sent_request (example_request command))"
    and "rq_command (sent_request (example_request command)) = command"
    and "rq_id (sent_request (example_request command)) = ''r''"
    and "rq_revision (sent_request (example_request command)) = 0"
    and "validate_request (sent_request (example_request command)) = Inr ()"
proof -
  have "sendable (example_request command)" using assms by (auto simp: sendable_def example_request_def)
  then show "control_request_from_json (request_to_json (example_request command)) = Inr (sent_request (example_request command))"
    by (rule request_read_back)
qed (use assms in \<open>auto simp: sent_request_def sent_header_def example_request_def default_request_def validate_request_def
    WIRELAB_CONTROL_API_VERSION_def\<close>)

theorem only_current_requests_act_witness:
  "\<forall>d. \<exists>dp c' s'. cs_dispatch d example_surroundings (request_to_json (example_request GetSwitchState)) (tc_new 7)
      (cs_new :: (unit, unit) control_service) = (dp, c', s') \<and> rp_accepted (dp_reply dp) \<and> rp_id (dp_reply dp) = ''r''"
proof
  fix d :: "'d double_operations"
  let ?json = "request_to_json (example_request GetSwitchState)"
  obtain dp c' s' where run: "cs_dispatch d example_surroundings ?json (tc_new 7)
      (cs_new :: (unit, unit) control_service) = (dp, c', s')" by (metis prod_cases3)
  have "dispatch_events dp \<noteq> []"
    using run example_request_read [of GetSwitchState]
    by (auto simp: cs_dispatch_def handle_request_def switch_state_def next_sequence_def current_revision_def
        cs_new_def cs_detached_def tc_new_def)
  with only_current_requests_act [OF run] example_request_read [of GetSwitchState]
  show "\<exists>dp c' s'. cs_dispatch d example_surroundings ?json (tc_new 7) (cs_new :: (unit, unit) control_service) = (dp, c', s') \<and>
      rp_accepted (dp_reply dp) \<and> rp_id (dp_reply dp) = ''r''"
    using run by (intro exI [of _ dp] exI [of _ c'] exI [of _ s']) auto
qed

lemma stale_refused:
  assumes "control_request_from_json json = Inr rq" and "rq_revision rq \<noteq> current_revision c s"
  shows "\<not> rp_accepted (dp_reply (fst (cs_dispatch d w json c s))) \<and> snd (cs_dispatch d w json c s) = (c, s)"
  using assms by (simp add: cs_dispatch_def cs_reject_def default_reply_def split: sum.split)

lemma accepted_load_advances:
  assumes "load_topology files rq c s = (dp, c', s')" and "rp_accepted (dp_reply dp)"
    and "topology_revision c \<noteq> u64_max"
  shows "topology_revision c' = topology_revision c + 1 \<and> cs_has_controller s \<and> cs_has_controller s'"
  using assms
  by (auto simp: load_topology_def cs_reject_def default_reply_def tc_load_def next_sequence_def Let_def
      split: if_splits sum.splits)

text \<open>Of the requests that were made for the same topology, the first load that is accepted is the last one:
  after it, every request that carries the old revision is refused and changes nothing, so two
  operators who load at the same time cannot overwrite each other unseen.\<close>

theorem load_supersedes:
  assumes "cs_dispatch d w json c s = (dp, c', s')" and "rp_accepted (dp_reply dp)"
    and "control_request_from_json json = Inr rq" and "rq_command rq = LoadTopology"
    and "topology_revision c \<noteq> u64_max"
    and "control_request_from_json json' = Inr rq'" and "rq_revision rq' = rq_revision rq"
  shows "\<not> rp_accepted (dp_reply (fst (cs_dispatch d w' json' c' s'))) \<and> snd (cs_dispatch d w' json' c' s') = (c', s')"
proof (rule stale_refused [OF assms(6)])
  have load: "load_topology (su_files w) rq c s = (dp, c', s')" and now: "rq_revision rq = current_revision c s"
    using assms(1-4) by (auto simp: cs_dispatch_def handle_request_def cs_reject_def default_reply_def split: sum.splits if_splits)
  show "rq_revision rq' \<noteq> current_revision c' s'"
    using accepted_load_advances [OF load assms(2,5)] now assms(7) by (simp add: current_revision_def)
qed

lemma sample_network_created: "\<exists>t. topology_create sample_network = Inr t"
  by (simp add: sample_network_def topology_create_def Let_def link_key_def)

theorem load_supersedes_witness:
  "\<forall>d. \<exists>dp c' s'. cs_dispatch d example_surroundings (request_to_json (example_request LoadTopology)) (tc_new 7)
      (cs_new :: (unit, unit) control_service) = (dp, c', s') \<and> rp_accepted (dp_reply dp) \<and>
    \<not> rp_accepted (dp_reply (fst (cs_dispatch d example_surroundings (request_to_json (example_request LoadTopology)) c' s')))"
proof
  fix d :: "'d double_operations"
  let ?json = "request_to_json (example_request LoadTopology)" and ?s = "cs_new :: (unit, unit) control_service"
  obtain t where t: "topology_create sample_network = Inr t" using sample_network_created by blast
  have contents: "topology_configuration_from_yaml_file (Some (document_text sample_network)) = Inr sample_network"
    by (simp add: topology_configuration_from_yaml_file_def document_read_back [OF sample_network_writable])
  note read = example_request_read [of LoadTopology, simplified]
  obtain dp c' s' where run: "cs_dispatch d example_surroundings ?json (tc_new 7) ?s = (dp, c', s')" by (metis prod_cases3)
  have accepted: "rp_accepted (dp_reply dp)"
    using run read by (auto simp: cs_dispatch_def handle_request_def load_topology_def example_surroundings_def contents t
        next_sequence_def Let_def current_revision_def cs_new_def cs_detached_def tc_new_def)
  have "topology_revision (tc_new 7) \<noteq> u64_max" by (simp add: tc_new_def)
  from load_supersedes [OF run accepted read(1,2) this read(1) refl] run accepted
  show "\<exists>dp c' s'. cs_dispatch d example_surroundings ?json (tc_new 7) ?s = (dp, c', s') \<and> rp_accepted (dp_reply dp) \<and>
      \<not> rp_accepted (dp_reply (fst (cs_dispatch d example_surroundings ?json c' s')))"
    by (intro exI [of _ dp] exI [of _ c'] exI [of _ s']) auto
qed

end
