(* ===== verification/Service_Runs.thy ===== *)
theory Service_Runs
  imports Service_Contract
begin

text \<open>
  Runs of the control service: any sequence of requests, analyses, snapshots and slices of a benchmark,
  with the topology changed by others in between. The events of a run are numbered without a gap, and
  the benchmark is the state machine \<open>job_step\<close>, which the service refines and drives to its end.
\<close>

section \<open>Runs\<close>

datatype 'w service_input =
    Asked "'w surroundings" string
  | Analyzed analysis_outcome
  | Supervised supervision_snapshot
  | Advanced "nat \<Rightarrow> u64" u64 nat
  | Reconfigured topology_controller

type_synonym ('w, 'g) service_state = "topology_controller \<times> ('w, 'g) control_service"

fun service_step ::
    "'d double_operations \<Rightarrow> 'w service_input \<Rightarrow> ('w, 'g) service_state
      \<Rightarrow> ('d control_event list \<times> ('w, 'g) service_state) option" where
  "service_step d (Asked w json) (c, s) = (let (dp, c, s) = cs_dispatch d w json c s in Some (dispatch_events dp, c, s))"
| "service_step d (Analyzed out) (c, s) = (let (ad, s) = analysis_events out c s in Some (analysis_event_list ad, c, s))"
| "service_step d (Supervised v) (c, s) = (let (e, s) = supervision_stamp v c s in Some ([SupervisionEvent e], c, s))"
| "service_step d (Advanced spent t n) (c, s) =
     map_option (\<lambda>(bd, s). (advance_events bd, c, s)) (advance_benchmark d spent t n c s)"
| "service_step d (Reconfigured c') (c, s) = Some ([], c', s)"

fun service_run ::
    "'d double_operations \<Rightarrow> 'w service_input list \<Rightarrow> ('w, 'g) service_state
      \<Rightarrow> ('d control_event list list \<times> ('w, 'g) service_state) option" where
  "service_run d [] st = Some ([], st)"
| "service_run d (i # is) st =
     (case service_step d i st of
        None \<Rightarrow> None
      | Some (es, st) \<Rightarrow> map_option (\<lambda>(ess, st). (es # ess, st)) (service_run d is st))"

text \<open>The run of a benchmark in progress is one that was created from a request, with packets left.\<close>

definition run_ok :: "'g any_analyzer bench_run \<Rightarrow> bool" where
  "run_ok r \<longleftrightarrow> bc_batch_size (rn_config r) \<noteq> 0 \<and> \<not> bench_finished r \<and> bc_packet_count (rn_config r) < 2 ^ 64"

definition service_ok :: "('w, 'g) control_service \<Rightarrow> bool" where
  "service_ok s \<longleftrightarrow> (\<forall>r. cs_run s = Some r \<longrightarrow> run_ok r)"

lemma service_ok_idle [simp]: "cs_run s = None \<Longrightarrow> service_ok s"
  by (simp add: service_ok_def)

lemma service_ok_new: "service_ok cs_new" "service_ok (cs_detached v)"
  by (simp_all add: cs_new_def cs_detached_def)

section \<open>A benchmark as a state machine\<close>

datatype job = NoJob | Job string nat nat

datatype job_report = JobProgress string nat nat | JobResult string bool nat nat

inductive job_step :: "job \<Rightarrow> job_report list \<Rightarrow> job \<Rightarrow> bool" where
  job_quiet: "job_step j [] j"
| job_start: "0 < n \<Longrightarrow> job_step NoJob [JobProgress op 0 n] (Job op 0 n)"
| job_advance: "k < k' \<Longrightarrow> k' < n \<Longrightarrow> job_step (Job op k n) [JobProgress op k' n] (Job op k' n)"
| job_finish: "k < k' \<Longrightarrow> k' \<le> n \<Longrightarrow> job_step (Job op k n) [JobProgress op k' n, JobResult op True k' n] NoJob"
| job_stop: "k < n \<Longrightarrow> job_step (Job op k n) [JobResult op False k n] NoJob"

inductive job_run :: "job \<Rightarrow> job_report list \<Rightarrow> job \<Rightarrow> bool" where
  job_run_refl: "job_run j [] j"
| job_run_step: "job_step j rs j1 \<Longrightarrow> job_run j1 rs' j2 \<Longrightarrow> job_run j (rs @ rs') j2"

definition job_of :: "('w, 'g) control_service \<Rightarrow> job" where
  "job_of s = (case cs_run s of None \<Rightarrow> NoJob | Some r \<Rightarrow> Job (cs_operation s) (rn_completed r) (bc_packet_count (rn_config r)))"

lemma job_of_idle: "cs_run s = None \<Longrightarrow> job_of s = NoJob"
  by (simp add: job_of_def)

lemma job_of_running:
  "cs_run s = Some r \<Longrightarrow> job_of s = Job (cs_operation s) (rn_completed r) (bc_packet_count (rn_config r))"
  by (simp add: job_of_def)

fun report_of :: "'d control_event \<Rightarrow> job_report list" where
  "report_of (ProgressEvent e) = [JobProgress (pe_operation e) (unat (pe_completed e)) (unat (pe_total e))]"
| "report_of (ResultEvent e) =
     [JobResult (re_operation e) (re_completed e) (unat (br_completed (re_result e))) (unat (br_total (re_result e)))]"
| "report_of _ = []"

abbreviation reports_of :: "'d control_event list \<Rightarrow> job_report list" where
  "reports_of es \<equiv> concat (map report_of es)"

text \<open>What the two kinds of events report of a run.\<close>

lemma word_count: "n < 2 ^ 64 \<Longrightarrow> unat (of_nat n :: u64) = n"
  by (simp only: unsigned_of_nat) (simp add: take_bit_nat_eq_self)

lemma progress_report:
  assumes "progress_stamp r c s = (e, s')" and "rn_completed r \<le> bc_packet_count (rn_config r)"
    and "bc_packet_count (rn_config r) < 2 ^ 64"
  shows "report_of (ProgressEvent e) = [JobProgress (cs_operation s) (rn_completed r) (bc_packet_count (rn_config r))]"
    and "s' = s\<lparr> cs_next_sequence := cs_next_sequence s + 1 \<rparr>"
  using assms by (auto simp: progress_stamp_def next_sequence_def word_count)

lemma result_report:
  assumes "result_stamp d b r c s = (e, s')" and "rn_completed r \<le> bc_packet_count (rn_config r)"
    and "bc_packet_count (rn_config r) < 2 ^ 64"
  shows "report_of (ResultEvent e) = [JobResult (cs_operation s) b (rn_completed r) (bc_packet_count (rn_config r))]"
    and "s' = s\<lparr> cs_next_sequence := cs_next_sequence s + 1 \<rparr>"
  using assms by (auto simp: result_stamp_def next_sequence_def bench_result_def Let_def word_count)

section \<open>Each operation is a step\<close>

text \<open>A step of the service that is a step of its job, keeps the service well-formed and numbers its events.\<close>

definition simulated ::
    "('w, 'g) control_service \<Rightarrow> 'd control_event list \<Rightarrow> ('w, 'g) control_service \<Rightarrow> bool" where
  "simulated s es s' \<longleftrightarrow> job_step (job_of s) (reports_of es) (job_of s') \<and> service_ok s'"

lemma simulated_quiet:
  "service_ok s \<Longrightarrow> reports_of es = [] \<Longrightarrow> cs_run s' = cs_run s \<Longrightarrow> cs_operation s' = cs_operation s \<Longrightarrow> simulated s es s'"
  unfolding simulated_def by (simp only: job_of_def service_ok_def job_quiet simp_thms)

lemma stamped_quiet:
  "service_ok s \<Longrightarrow> stamped c s es s' \<Longrightarrow> reports_of es = [] \<Longrightarrow> simulated s es s'"
  by (rule simulated_quiet) (simp_all add: stamped_def)

lemma reports_of_quiet [simp]:
  "reports_of (map FaultEvent fs) = []" "reports_of (map AnomalyDetected as) = []" "reports_of (map PolicyAction ps) = []"
  by simp_all

text \<open>Every event of an analysis is about something else than a benchmark.\<close>

lemma analysis_quiet: "reports_of (analysis_event_list ad) = []"
  by (simp add: analysis_event_list_def)

lemma start_simulated:
  assumes "service_ok s" and "start_benchmark rq c s = (dp, c', s')"
  shows "simulated s (dispatch_events dp) s'"
proof (cases "rp_accepted (dp_reply dp)")
  case False
  then have "s' = s \<and> dispatch_events dp = []"
    using refused_inert [OF start_benchmark_answers assms(2)] by simp
  then show ?thesis using assms(1) by (simp add: simulated_quiet)
next
  case True
  let ?config = "\<lambda>scenario. requested_config scenario (rq_benchmark rq)"
  let ?create = "\<lambda>scenario. bench_create (?config scenario) (Some (case cs_backends s of Some f \<Rightarrow> f | None \<Rightarrow> any_cpu_factory))
      (Some (case cs_sources s of Some f \<Rightarrow> f | None \<Rightarrow> cpu_traffic_source_factory))"
  note def = start_benchmark_def [of rq c s] and refused = cs_reject_def default_reply_def
  have idle: "cs_run s = None" using True assms(2) by (cases "cs_run s") (auto simp: def refused)
  obtain scenario where scenario: "scenario_from_text (bp_scenario (rq_benchmark rq)) = Inr scenario"
    using True assms(2) by (cases "scenario_from_text (bp_scenario (rq_benchmark rq))") (auto simp: def idle refused)
  obtain r where run: "?create scenario = Inr r"
    using True assms(2) by (cases "?create scenario") (auto simp: def idle scenario refused)
  define s0 where "s0 = s\<lparr> cs_run := Some r, cs_operation := ''benchmark-'' @ uint_text (cs_next_benchmark s),
    cs_next_benchmark := cs_next_benchmark s + 1,
    cs_deadline_ns := ucast (bp_duration_seconds (rq_benchmark rq)) * 1000000000 \<rparr>"
  obtain e s1 where e: "progress_stamp r c s0 = (e, s1)" by fastforce
  have s': "dispatch_events dp = [ProgressEvent e]" "s' = s1" and s0: "cs_run s0 = Some r"
    using assms(2) e unfolding def if_not_P [OF idle [THEN iffD2 [OF not_not]]] scenario sum.case run s0_def
    by (auto simp: Let_def)
  have config: "rn_config r = ?config scenario" "rn_completed r = 0" "bench_config_ok (?config scenario)"
    using run by (auto simp: bench_create_def split: if_splits sum.splits option.splits)
  then have ok: "run_ok r" and n: "0 < bc_packet_count (rn_config r)" "bc_packet_count (rn_config r) < 2 ^ 64"
    using unsigned_less [of "bp_packet_count (rq_benchmark rq)"]
    by (auto simp: run_ok_def bench_config_ok_def bench_finished_def requested_config_def)
  have "rn_completed r \<le> bc_packet_count (rn_config r)" using config(2) by simp
  note e = progress_report [OF e this n(2)]
  have "job_of s' = Job (cs_operation s0) 0 (bc_packet_count (rn_config r))"
    using e(2) s0 s'(2) config(2) by (simp add: job_of_def)
  then show ?thesis
    using e s0 s' n(1) ok idle config(2) job_start by (simp add: simulated_def job_of_def service_ok_def)
qed

lemma stop_simulated:
  assumes "service_ok s" and "stop_run d rq c s = (dp, c', s')"
  shows "simulated s (dispatch_events dp) s'"
proof (cases "cs_run s")
  case None
  then show ?thesis using assms by (auto simp: stop_run_def cs_reject_def intro: simulated_quiet)
next
  case (Some r)
  obtain e s1 where e: "result_stamp d False r c s = (e, s1)" by fastforce
  have ok: "rn_completed r < bc_packet_count (rn_config r)" "bc_packet_count (rn_config r) < 2 ^ 64"
    using assms(1) Some by (simp_all add: service_ok_def run_ok_def bench_finished_def)
  have "dispatch_events dp = [ResultEvent e]" "s' = s1\<lparr> cs_run := None \<rparr>"
    using assms(2) by (auto simp: stop_run_def Some e)
  then show ?thesis
    using result_report [OF e] ok job_stop [OF ok(1), of "cs_operation s"] by (simp add: simulated_def job_of_def Some)
qed

text \<open>A request of another kind has nothing to do with the benchmark.\<close>

lemma load_quiet: "service_ok s \<Longrightarrow> load_topology files rq c s = (dp, c', s') \<Longrightarrow> simulated s (dispatch_events dp) s'"
  by (auto simp: load_topology_def cs_reject_def next_sequence_def Let_def split: if_splits sum.splits
      intro!: simulated_quiet)

lemma faults_quiet: "service_ok s \<Longrightarrow> active_faults_state rq c s = (dp, c', s') \<Longrightarrow> simulated s (dispatch_events dp) s'"
proof (cases "tc_active_faults c")
  case (Inr faults)
  assume ok: "service_ok s" and run: "active_faults_state rq c s = (dp, c', s')"
  obtain es s1 where es: "active_fault_events faults c s = (es, s1)" by fastforce
  have "dispatch_events dp = map FaultEvent es" "s' = s1" using run by (auto simp: active_faults_state_def Inr es)
  then show ?thesis using stamped_quiet [OF ok active_faults_stamped [OF es]] by simp
qed (auto simp: active_faults_state_def cs_reject_def intro!: simulated_quiet)

lemma change_quiet: "service_ok s \<Longrightarrow> fault_command rq c s = (dp, c', s') \<Longrightarrow> simulated s (dispatch_events dp) s'"
  by (auto simp: fault_command_def cs_reject_def fault_stamp_def next_sequence_def Let_def split: sum.splits
      intro!: simulated_quiet)

lemma switch_state_quiet: "service_ok s \<Longrightarrow> switch_state m rq c s = (dp, c', s') \<Longrightarrow> simulated s (dispatch_events dp) s'"
  by (auto simp: switch_state_def next_sequence_def Let_def intro!: simulated_quiet)

lemma supervision_quiet: "service_ok s \<Longrightarrow> supervision_state w rq c s = (dp, c', s') \<Longrightarrow> simulated s (dispatch_events dp) s'"
  by (auto simp: supervision_state_def cs_reject_def supervision_stamp_def next_sequence_def Let_def
      split: option.splits intro!: simulated_quiet)

lemmas request_simulated = start_simulated stop_simulated load_quiet faults_quiet change_quiet switch_state_quiet
  supervision_quiet

lemma reject_simulated: "service_ok s \<Longrightarrow> cs_reject i e c s = (dp, c', s') \<Longrightarrow> simulated s (dispatch_events dp) s'"
  by (auto simp: cs_reject_def intro!: simulated_quiet)

lemma handle_simulated:
  assumes "service_ok s" and "handle_request d w rq c s = (dp, c', s')"
  shows "simulated s (dispatch_events dp) s'"
  using assms(2) request_simulated [OF assms(1)] reject_simulated [OF assms(1)]
  unfolding handle_request_def by (cases "rq_command rq"; simp split: if_splits)

lemma dispatch_simulated:
  assumes "service_ok s" and "cs_dispatch d w json c s = (dp, c', s')"
  shows "simulated s (dispatch_events dp) s'"
  using assms(2) handle_simulated [OF assms(1)] reject_simulated [OF assms(1)]
  unfolding cs_dispatch_def by (simp split: sum.splits if_splits)

text \<open>A slice of the benchmark.\<close>

lemma advance_progress:
  assumes "run_ok r" and "0 < budget"
  obtains h r' where "bench_advance spent t budget r = Some (h, r')" and "rn_config r' = rn_config r"
    and "rn_completed r < rn_completed r'" and "rn_completed r' \<le> bc_packet_count (rn_config r)"
    and "bench_finished r' \<or> 0 < h"
proof -
  have "rn_completed r < bc_packet_count (rn_config r)" "bc_batch_size (rn_config r) \<noteq> 0"
    using assms(1) by (simp_all add: run_ok_def bench_finished_def)
  from bench_loop_returns [OF this, of spent budget 0] obtain h r1 where
    r1: "bench_loop spent budget 0 r = Some (h, r1)" "rn_config r1 = rn_config r" "rn_completed r < rn_completed r1"
      "rn_completed r1 \<le> bc_packet_count (rn_config r)" "bench_finished r1 \<or> budget \<le> h" by blast
  let ?r = "(bench_drain r1)\<lparr> rn_elapsed_ns := rn_elapsed_ns (bench_drain r1) + t \<rparr>"
  have "bench_advance spent t budget r = Some (h, ?r)"
    using assms r1(1) by (simp add: bench_advance_def run_ok_def bench_finished_def Let_def)
  then show ?thesis using that [of h ?r] r1 assms(2) by (auto simp: bench_finished_def)
qed

text \<open>A slice of a positive number of packets makes progress or ends the run, and reports it.\<close>

lemma advance_simulated:
  fixes d :: "'d double_operations"
  assumes "service_ok s" and "cs_run s = Some r" and "0 < budget"
  obtains bd s' where "advance_benchmark d spent t budget c s = Some (bd, s')"
    and "simulated s (advance_events bd) s'" and "stamped c s (advance_events bd) (s'\<lparr> cs_run := cs_run s \<rparr>)"
    and "bd_progress bd \<noteq> None"
    and "cs_run s' = None \<and> bd_result bd \<noteq> None \<or>
      (\<exists>r'. cs_run s' = Some r' \<and> bd_result bd = None \<and> rn_completed r < rn_completed r' \<and> rn_config r' = rn_config r)"
proof -
  have ok: "run_ok r" using assms(1,2) by (simp add: service_ok_def)
  then have n: "rn_completed r < bc_packet_count (rn_config r)" "bc_packet_count (rn_config r) < 2 ^ 64"
    by (simp_all add: run_ok_def bench_finished_def)
  obtain h r' where r': "bench_advance spent t budget r = Some (h, r')" "rn_config r' = rn_config r"
    "rn_completed r < rn_completed r'" "rn_completed r' \<le> bc_packet_count (rn_config r)" "bench_finished r' \<or> 0 < h"
    using advance_progress [OF ok assms(3)] by blast
  let ?s = "s\<lparr> cs_run := Some r' \<rparr>"
  have job: "job_of s = Job (cs_operation s) (rn_completed r) (bc_packet_count (rn_config r))"
    by (rule job_of_running [OF assms(2)])
  obtain p s1 where p: "progress_stamp r' c ?s = (p, s1)" by fastforce
  have le: "rn_completed r' \<le> bc_packet_count (rn_config r')" and small: "bc_packet_count (rn_config r') < 2 ^ 64"
    using r'(2,4) n(2) by simp_all
  note report = progress_report [OF p le small]
  obtain e s2 where e: "result_stamp d True r' c s1 = (e, s2)" by fastforce
  note result = result_report [OF e le small]
  note stamps = progress_stamped [OF p] result_stamped [OF e]
  let ?ended = "bench_finished r' \<or> cs_deadline_ns s1 \<noteq> 0 \<and> br_elapsed_ns (bench_result d r') \<ge> cs_deadline_ns s1"
  show ?thesis
  proof (cases ?ended)
    case True
    let ?bd = "\<lparr> bd_progress = Some p, bd_result = Some e \<rparr>"
    show ?thesis
    proof (rule that)
      show "advance_benchmark d spent t budget c s = Some (?bd, s2\<lparr> cs_run := None \<rparr>)"
        using True r'(5) by (auto simp: advance_benchmark_def assms(2) r'(1) p e Let_def)
      show "simulated s (advance_events ?bd) (s2\<lparr> cs_run := None \<rparr>)"
        using report result job_finish [OF r'(3,4), of "cs_operation s"] r'(2)
        by (simp add: simulated_def advance_events_def job job_of_idle)
      show "stamped c s (advance_events ?bd) (s2\<lparr> cs_run := None, cs_run := cs_run s \<rparr>)"
        using stamps by (simp add: advance_events_def stamped_def current_revision_def)
    qed simp_all
  next
    case False
    let ?bd = "\<lparr> bd_progress = Some p, bd_result = None \<rparr> :: 'd advance_dispatch"
    have more: "rn_completed r' < bc_packet_count (rn_config r)" using False r'(2) by (simp add: bench_finished_def)
    have "run_ok r'" using ok False r'(2) by (simp add: run_ok_def)
    show ?thesis
    proof (rule that)
      show "advance_benchmark d spent t budget c s = Some (?bd, s1)"
        using False r'(5) by (auto simp: advance_benchmark_def assms(2) r'(1) p Let_def)
      show "simulated s (advance_events ?bd) s1"
        using report job_advance [OF r'(3) more, of "cs_operation s"] r'(2) \<open>run_ok r'\<close>
        by (simp add: simulated_def advance_events_def job job_of_running service_ok_def)
      show "stamped c s (advance_events ?bd) (s1\<lparr> cs_run := cs_run s \<rparr>)"
        using stamps(1) by (simp add: advance_events_def stamped_def current_revision_def)
    qed (use report(2) r' in simp_all)
  qed
qed

section \<open>What holds of every run\<close>

lemma advance_idle: "cs_run s = None \<Longrightarrow> advance_benchmark d spent t n c s = Some (\<lparr> bd_progress = None, bd_result = None \<rparr>, s)"
  by (simp add: advance_benchmark_def)

lemma advance_nothing:
  "cs_run s = Some r \<Longrightarrow> run_ok r \<Longrightarrow>
    advance_benchmark d spent t 0 c s = Some (\<lparr> bd_progress = None, bd_result = None \<rparr>, s)"
  by (cases s) (auto simp: advance_benchmark_def bench_advance_def run_ok_def Let_def)

lemma no_events: "advance_events \<lparr> bd_progress = None, bd_result = None \<rparr> = []"
  by (simp add: advance_events_def)

text \<open>One step: it happens, it is a step of the job, and it numbers its events on.\<close>

definition numbers_on :: "('w, 'g) control_service \<Rightarrow> 'd control_event list \<Rightarrow> ('w, 'g) control_service \<Rightarrow> bool" where
  "numbers_on s es s' \<longleftrightarrow> (\<exists>v. numbered v (cs_next_sequence s) es) \<and>
     cs_next_sequence s' = cs_next_sequence s + of_nat (length es)"

lemma stamped_numbers_on: "stamped c s es s1 \<Longrightarrow> cs_next_sequence s' = cs_next_sequence s1 \<Longrightarrow> numbers_on s es s'"
  by (auto simp: numbers_on_def stamped_def)

lemma step_total:
  fixes d :: "'d double_operations"
  assumes "service_ok s"
  obtains es c' s' where "service_step d i (c, s) = Some (es, c', s')" and "simulated s es s'" and "numbers_on s es s'"
proof (cases i)
  case (Asked w json)
  obtain dp c' s' where run: "cs_dispatch d w json c s = (dp, c', s')" by (metis prod_cases3)
  have "answers (request_id_of json) c s (dp, c', s')" using dispatch_answers [of json c s d w] unfolding run .
  then have "numbers_on s (dispatch_events dp) s'" by (auto simp: answers_def numbers_on_def)
  then show ?thesis using that dispatch_simulated [OF assms run] by (simp add: Asked run)
next
  case (Analyzed out)
  obtain ad s' where ad: "analysis_events out c s = (ad, s')" by fastforce
  have st: "stamped c s (analysis_event_list ad :: 'd control_event list) s'" by (rule analysis_stamped [OF ad])
  show ?thesis
    by (rule that [of "analysis_event_list ad" c s'])
      (simp_all add: Analyzed ad stamped_quiet [OF assms st analysis_quiet] stamped_numbers_on [OF st])
next
  case (Supervised v)
  obtain e s' where e: "supervision_stamp v c s = (e, s')" by fastforce
  have st: "stamped c s [SupervisionEvent e :: 'd control_event] s'" by (rule supervision_stamped [OF e])
  show ?thesis
    by (rule that [of "[SupervisionEvent e]" c s'])
      (simp_all add: Supervised e stamped_quiet [OF assms st] stamped_numbers_on [OF st])
next
  case (Advanced spent t n)
  show ?thesis
  proof (cases "cs_run s = None \<or> n = 0")
    case True
    have "advance_benchmark d spent t n c s = Some (\<lparr> bd_progress = None, bd_result = None \<rparr>, s)"
      using True assms advance_idle [of s d spent t n c] advance_nothing [of s _ d spent t c]
      by (cases "cs_run s") (auto simp: service_ok_def)
    moreover have "numbers_on s ([] :: 'd control_event list) s" by (simp add: numbers_on_def)
    ultimately show ?thesis
      using that [of "[]" c s] simulated_quiet [OF assms, of "[]" s] by (simp add: Advanced no_events)
  next
    case False
    then obtain r where r: "cs_run s = Some r" "0 < n" by auto
    obtain bd s' where bd: "advance_benchmark d spent t n c s = Some (bd, s')" "simulated s (advance_events bd) s'"
      "stamped c s (advance_events bd) (s'\<lparr> cs_run := cs_run s \<rparr>)"
      by (rule advance_simulated [OF assms r, of d spent t c])
    have "numbers_on s (advance_events bd) s'" by (rule stamped_numbers_on [OF bd(3)]) simp
    then show ?thesis using that [of "advance_events bd" c s'] bd(1,2) by (simp add: Advanced)
  qed
next
  case (Reconfigured c')
  have "numbers_on s ([] :: 'd control_event list) s" by (simp add: numbers_on_def)
  then show ?thesis using that [of "[]" c' s] simulated_quiet [OF assms, of "[]" s] by (simp add: Reconfigured)
qed

lemma numbered_sequence:
  "numbered v n es \<Longrightarrow> map (fst \<circ> event_stamp) es = map (\<lambda>i. n + of_nat i) [0..<length es]"
proof (induction es arbitrary: n)
  case (Cons e es)
  have "[0..<length (e # es)] = 0 # map Suc [0..<length es]" by (simp add: upt_conv_Cons map_Suc_upt del: upt_Suc)
  then show ?case using Cons by (auto simp: comp_def add.assoc)
qed simp

lemma numbers_on_sequence:
  "numbers_on s es s' \<Longrightarrow> map (fst \<circ> event_stamp) es = map (\<lambda>i. cs_next_sequence s + of_nat i) [0..<length es]"
  using numbered_sequence by (auto simp: numbers_on_def)

lemma sequence_append:
  "map (\<lambda>i. (n :: u64) + of_nat i) [0..<a] @ map (\<lambda>i. n + of_nat a + of_nat i) [0..<b] = map (\<lambda>i. n + of_nat i) [0..<a + b]"
proof -
  have "[0..<a + b] = [0..<a] @ map (\<lambda>i. i + a) [0..<b]"
    using upt_add_eq_append [of 0 a b] map_add_upt [of a b] by (simp add: add.commute)
  then show ?thesis by (simp add: add.assoc add.commute add.left_commute)
qed

lemma service_run_ok:
  fixes d :: "'d double_operations"
  assumes "service_ok s"
  shows "\<exists>ess c' s'. service_run d is (c, s) = Some (ess, c', s') \<and> service_ok s' \<and>
    job_run (job_of s) (reports_of (concat ess)) (job_of s') \<and>
    map (fst \<circ> event_stamp) (concat ess) = map (\<lambda>i. cs_next_sequence s + of_nat i) [0..<length (concat ess)] \<and>
    cs_next_sequence s' = cs_next_sequence s + of_nat (length (concat ess))"
  using assms
proof (induction "is" arbitrary: c s)
  case Nil
  then show ?case by (simp add: job_run_refl)
next
  case (Cons i "is")
  obtain es c1 s1 where 1: "service_step d i (c, s) = Some (es, c1, s1)" "simulated s es s1" "numbers_on s es s1"
    by (rule step_total [OF Cons.prems, of d i c])
  have ok: "service_ok s1" and job: "job_step (job_of s) (reports_of es) (job_of s1)"
    using 1(2) by (simp_all add: simulated_def)
  obtain ess c2 s2 where 2: "service_run d is (c1, s1) = Some (ess, c2, s2)" "service_ok s2"
      "job_run (job_of s1) (reports_of (concat ess)) (job_of s2)"
      "map (fst \<circ> event_stamp) (concat ess) = map (\<lambda>i. cs_next_sequence s1 + of_nat i) [0..<length (concat ess)]"
      "cs_next_sequence s2 = cs_next_sequence s1 + of_nat (length (concat ess))"
    using Cons.IH [OF ok, of c1] by blast
  have next1: "cs_next_sequence s1 = cs_next_sequence s + of_nat (length es)"
    and nums: "map (fst \<circ> event_stamp) es = map (\<lambda>i. cs_next_sequence s + of_nat i) [0..<length es]"
    using 1(3) numbers_on_sequence by (auto simp: numbers_on_def)
  have "map (fst \<circ> event_stamp) (es @ concat ess) = map (\<lambda>i. cs_next_sequence s + of_nat i) [0..<length es + length (concat ess)]"
    using nums 2(4) sequence_append [of "cs_next_sequence s" "length es" "length (concat ess)"] unfolding next1 map_append
    by presburger
  moreover have "job_run (job_of s) (reports_of (es @ concat ess)) (job_of s2)"
    using job_run_step [OF job 2(3)] by simp
  moreover have "cs_next_sequence s2 = cs_next_sequence s + of_nat (length (es @ concat ess))"
    using 2(5) next1 by (simp add: algebra_simps)
  ultimately show ?case
    using 1(1) 2(1,2) by (intro exI [of _ "es # ess"] exI [of _ c2] exI [of _ s2]) (simp add: comp_def)
qed


text \<open>C15. The events of every run of the service are numbered from the next number on without a gap or a
  repetition, in the order in which they are sent, whichever requests, analyses, snapshots and slices
  produced them.\<close>

theorem events_numbered:
  assumes "service_ok s" and "service_run d is (c, s) = Some (ess, c', s')"
  shows "map (fst \<circ> event_stamp) (concat ess) = map (\<lambda>i. cs_next_sequence s + of_nat i) [0..<length (concat ess)] \<and>
    cs_next_sequence s' = cs_next_sequence s + of_nat (length (concat ess))"
  using service_run_ok [OF assms(1), of d "is" c] assms(2) by auto

text \<open>A run that is driven ends: a step of it leaves fewer packets.\<close>

lemma idle_run:
  assumes "cs_run s = None"
  shows "\<exists>ess. service_run d (map (\<lambda>(spent, t, n). Advanced spent t n) slices) (c, s) = Some (ess, c, s) \<and> concat ess = []"
  by (induction slices) (auto simp: advance_idle [OF assms] no_events)

lemma driven_run_ends:
  assumes "service_ok s" and "cs_run s = Some r" and "\<forall>(spent, t, n) \<in> set slices. 0 < n"
    and "bc_packet_count (rn_config r) - rn_completed r \<le> length slices"
  shows "\<exists>ess s'. service_run d (map (\<lambda>(spent, t, n). Advanced spent t n) slices) (c, s) = Some (ess, c, s') \<and>
    cs_run s' = None \<and> (\<exists>k. reports_of (concat ess) \<noteq> [] \<and> last (reports_of (concat ess)) =
      JobResult (cs_operation s) True k (bc_packet_count (rn_config r)))"
  using assms
proof (induction slices arbitrary: s r)
  case Nil
  then show ?case by (auto simp: service_ok_def run_ok_def bench_finished_def)
next
  case (Cons slice slices)
  obtain spent t n where slice: "slice = (spent, t, n)" by (cases slice)
  have n: "0 < n" using Cons.prems(3) by (simp add: slice)
  obtain bd s1 where 1: "advance_benchmark d spent t n c s = Some (bd, s1)" "simulated s (advance_events bd) s1"
    "stamped c s (advance_events bd) (s1\<lparr> cs_run := cs_run s \<rparr>)" "bd_progress bd \<noteq> None"
    and ends: "cs_run s1 = None \<and> bd_result bd \<noteq> None \<or>
      (\<exists>r'. cs_run s1 = Some r' \<and> bd_result bd = None \<and> rn_completed r < rn_completed r' \<and> rn_config r' = rn_config r)"
    by (rule advance_simulated [OF Cons.prems(1,2) n, of d spent t c])
  have job: "job_step (Job (cs_operation s) (rn_completed r) (bc_packet_count (rn_config r)))
      (reports_of (advance_events bd)) (job_of s1)" and ok: "service_ok s1"
    using 1(2) by (simp_all add: simulated_def job_of_running [OF Cons.prems(2)])
  have same: "cs_operation s1 = cs_operation s"
    using arg_cong [OF 1(3) [unfolded stamped_def, THEN conjunct2], of cs_operation] by simp
  show ?case
  proof (cases "cs_run s1")
    case None
    have "\<exists>k. reports_of (advance_events bd) \<noteq> [] \<and>
        last (reports_of (advance_events bd)) = JobResult (cs_operation s) True k (bc_packet_count (rn_config r))"
      using job 1(4) ends None by (cases rule: job_step.cases) (auto simp: job_of_idle advance_events_def split: option.splits)
    moreover obtain ess where ess: "service_run d (map (\<lambda>(spent, t, n). Advanced spent t n) slices) (c, s1) = Some (ess, c, s1)"
        "concat ess = []" using idle_run [OF None] by blast
    ultimately show ?thesis
      using 1(1) None by (intro exI [of _ "advance_events bd # ess"] exI [of _ s1])
        (simp add: slice del: concat_eq_Nil_conv)
  next
    case (Some r1)
    then have less: "rn_completed r < rn_completed r1" "rn_config r1 = rn_config r" using ends by auto
    obtain ess s2 where "service_run d (map (\<lambda>(spent, t, n). Advanced spent t n) slices) (c, s1) = Some (ess, c, s2)"
      "cs_run s2 = None" "\<exists>k. reports_of (concat ess) \<noteq> [] \<and>
        last (reports_of (concat ess)) = JobResult (cs_operation s1) True k (bc_packet_count (rn_config r1))"
      using Cons.IH [OF ok Some] Cons.prems(3,4) less by fastforce
    then show ?thesis using 1(1) same less(2) by (auto simp: slice)
  qed
qed


section \<open>Examples\<close>

text \<open>A service whose benchmark of two frames has just started.\<close>

definition started_service :: "unit any_analyzer bench_run \<Rightarrow> (unit, unit) control_service" where
  "started_service r = cs_new\<lparr> cs_run := Some r, cs_operation := ''benchmark-1'', cs_next_benchmark := 2 \<rparr>"

lemma example_started:
  "\<exists>r :: unit any_analyzer bench_run. bench_create example_config (Some any_cpu_factory) (Some cpu_traffic_source_factory) = Inr r \<and>
    rn_config r = example_config \<and> rn_completed r = 0 \<and> run_ok r"
  by (simp add: bench_create_def example_config_def bench_config_ok_def ethernet_header_size_def
      MAX_BENCHMARK_FRAME_SIZE_def cpu_benchmark_backend_factory_def any_cpu_factory_def cpu_traffic_source_factory_def
      run_ok_def bench_finished_def)


definition example_inputs :: "unit service_input list" where
  "example_inputs = [Asked example_surroundings (request_to_json (example_request LoadTopology)),
     Supervised \<lparr> ss_analysed_frames = 0, ss_blocked_frames = 0, ss_bindings = [] \<rparr>]"


theorem events_numbered_witness:
  "\<forall>d. \<exists>ess c' s'. service_run d example_inputs (tc_new 7, cs_new :: (unit, unit) control_service) = Some (ess, c', s') \<and>
    map (fst \<circ> event_stamp) (concat ess) = map (\<lambda>i. 1 + of_nat i) [0..<length (concat ess)]"
proof
  fix d :: "'d double_operations"
  obtain ess c' s' where run: "service_run d example_inputs (tc_new 7, cs_new :: (unit, unit) control_service) = Some (ess, c', s')"
    using service_run_ok [OF service_ok_new(1), of d example_inputs "tc_new 7"] by blast
  from events_numbered [OF service_ok_new(1) this] run
  show "\<exists>ess c' s'. service_run d example_inputs (tc_new 7, cs_new :: (unit, unit) control_service) = Some (ess, c', s') \<and>
      map (fst \<circ> event_stamp) (concat ess) = map (\<lambda>i. 1 + of_nat i) [0..<length (concat ess)]"
    by (intro exI [of _ ess] exI [of _ c'] exI [of _ s']) (simp add: cs_new_def cs_detached_def)
qed

end
