(* ===== verification/Control_Server.thy ===== *)
theory Control_Server
  imports Service_Runs
begin

text \<open>
  The control server, \<^verbatim>\<open>include/wirelab/control_server.hpp\<close> and \<^verbatim>\<open>src/control_server.cpp\<close>: lines of
  JSON over sockets that never block. Each client has an inbox, from which complete lines are taken, and
  an outbox, which is flushed as far as its socket takes it. The sockets are the operating system's and
  are a parameter, \<open>network_operations\<close> on a state of its own. The service and the controller it refers
  to are kept beside the server in one record.
\<close>

section \<open>The network\<close>

datatype transport_error = TransportSocketFailed | TransportBindFailed | ListenFailed | ConnectFailed | SendFailed
  | TransportReceiveFailed | AddressResolutionFailed | InvalidSocket | Disconnected | Timeout

definition transport_error_text :: "transport_error \<Rightarrow> string" where
  "transport_error_text e =
     (case e of
        TransportSocketFailed \<Rightarrow> ''Failed to create control socket''
      | TransportBindFailed \<Rightarrow> ''Failed to bind control socket''
      | ListenFailed \<Rightarrow> ''Failed to listen on control socket''
      | ConnectFailed \<Rightarrow> ''Failed to connect to control socket''
      | SendFailed \<Rightarrow> ''Failed to send control message''
      | TransportReceiveFailed \<Rightarrow> ''Failed to receive control message''
      | AddressResolutionFailed \<Rightarrow> ''Failed to resolve control address''
      | InvalidSocket \<Rightarrow> ''Invalid control socket''
      | Disconnected \<Rightarrow> ''Control connection closed''
      | Timeout \<Rightarrow> ''Control operation timed out'')"

text \<open>What the system answers. Data that was received is empty when the peer has closed, and a receive that
  failed says whether it would have blocked. A send answers how many bytes it took, none when it failed, and
  whether it would have blocked. \<open>net_accept\<close> is one accept:
  a connection, with whether it can be made non-blocking, or none when it failed. The events of \<open>net_poll\<close> are those
  of the listener and, by position, of the clients; \<open>None\<close> is a wait that ended without any.\<close>

datatype poll_flag = PollRead | PollWrite | PollError | PollInvalid | PollHangup

record 'n network_operations =
  net_receive :: "nat \<Rightarrow> 'n \<Rightarrow> (bool + string) \<times> 'n"
  net_send :: "nat \<Rightarrow> string \<Rightarrow> 'n \<Rightarrow> (nat \<times> bool) \<times> 'n"
  net_accept :: "'n \<Rightarrow> (nat \<times> bool) option \<times> 'n"
  net_poll :: "(nat \<times> bool) list \<Rightarrow> int \<Rightarrow> 'n \<Rightarrow> (poll_flag set \<times> (nat \<Rightarrow> poll_flag set)) option \<times> 'n"

definition poll_deadline :: "int \<Rightarrow> int" where
  "poll_deadline timeout = min (max 0 timeout) (2 ^ 31 - 1)"

text \<open>\<open>drain\<close>: append what a socket has to the buffer, until it has no more or the buffer is over its cap.\<close>

function drain :: "'n network_operations \<Rightarrow> nat \<Rightarrow> nat \<Rightarrow> string \<Rightarrow> 'n \<Rightarrow> bool \<times> string \<times> 'n" where
  "drain net cap sock buffer n =
     (case net_receive net sock n of
        (Inl blocked, n) \<Rightarrow> (blocked, buffer, n)
      | (Inr chunk, n) \<Rightarrow>
          if chunk = [] then (False, buffer, n)
          else if length (buffer @ chunk) > cap then (False, buffer @ chunk, n)
          else drain net cap sock (buffer @ chunk) n)"
  by pat_completeness auto
termination
proof (relation "measure (\<lambda>(net, cap, sock, buffer, n). cap - length buffer)")
  fix net :: "'c network_operations" and cap sock :: nat and buffer :: string
    and n n' :: 'c and r :: "(bool + string) \<times> 'c" and result chunk
  assume "\<not> cap < length (buffer @ chunk)" and "chunk \<noteq> []"
  then have "cap - length (buffer @ chunk) < cap - length buffer" by (cases chunk) auto
  then show "((net, cap, sock, buffer @ chunk, n'), net, cap, sock, buffer, n) \<in>
      measure (\<lambda>(net, cap, sock, buffer, n). cap - length buffer)" by simp
qed simp

declare drain.simps [simp del]

text \<open>The complete lines of a buffer without their ends, empty ones left out, and the rest.\<close>

definition without_return :: "string \<Rightarrow> string" where
  "without_return line = (if line \<noteq> [] \<and> last line = CHR 0x0D then butlast line else line)"

abbreviation newline :: char where
  "newline \<equiv> CHR 0x0A"

function take_messages :: "string \<Rightarrow> string list \<times> string" where
  "take_messages buffer =
     (if newline \<notin> set buffer then ([], buffer)
      else
        let line = without_return (takeWhile (\<lambda>c. c \<noteq> newline) buffer);
            (messages, rest) = take_messages (tl (dropWhile (\<lambda>c. c \<noteq> newline) buffer))
        in (if line \<noteq> [] then line # messages else messages, rest))"
  by pat_completeness auto
termination
proof (relation "measure length")
  fix buffer :: string
  assume "\<not> newline \<notin> set buffer"
  then have "dropWhile (\<lambda>c. c \<noteq> newline) buffer \<noteq> []" by (simp add: dropWhile_eq_Nil_conv)
  then have "length (tl (dropWhile (\<lambda>c. c \<noteq> newline) buffer)) < length (dropWhile (\<lambda>c. c \<noteq> newline) buffer)" by simp
  then show "(tl (dropWhile (\<lambda>c. c \<noteq> newline) buffer), buffer) \<in> measure length"
    using length_dropWhile_le [of "\<lambda>c. c \<noteq> newline" buffer] by simp
qed simp

declare take_messages.simps [simp del]

text \<open>The first of them, with everything behind it left in the buffer.\<close>

function take_message :: "string \<Rightarrow> string option \<times> string" where
  "take_message buffer =
     (if newline \<notin> set buffer then (None, buffer)
      else
        let line = without_return (takeWhile (\<lambda>c. c \<noteq> newline) buffer);
            rest = tl (dropWhile (\<lambda>c. c \<noteq> newline) buffer)
        in if line \<noteq> [] then (Some line, rest) else take_message rest)"
  by pat_completeness auto
termination
proof (relation "measure length")
  fix buffer :: string and line rest
  assume "\<not> newline \<notin> set buffer" and rest: "rest = tl (dropWhile (\<lambda>c. c \<noteq> newline) buffer)"
  then have "dropWhile (\<lambda>c. c \<noteq> newline) buffer \<noteq> []" by (simp add: dropWhile_eq_Nil_conv)
  then have "length (tl (dropWhile (\<lambda>c. c \<noteq> newline) buffer)) < length (dropWhile (\<lambda>c. c \<noteq> newline) buffer)" by simp
  then show "(rest, buffer) \<in> measure length"
    using length_dropWhile_le [of "\<lambda>c. c \<noteq> newline" buffer] by (simp add: rest)
qed simp

declare take_message.simps [simp del]

section \<open>State\<close>

record client =
  cl_socket :: nat
  cl_inbox :: string
  cl_outbox :: string
  cl_congested :: bool

record control_server_config =
  vc_max_clients :: nat
  vc_max_request_bytes :: nat
  vc_max_pending_bytes :: nat
  vc_packets_per_poll :: nat

definition default_server_config :: control_server_config where
  "default_server_config = \<lparr> vc_max_clients = 8, vc_max_request_bytes = 65536, vc_max_pending_bytes = 1048576,
     vc_packets_per_poll = 4096 \<rparr>"

record ('w, 'g, 'n) control_server =
  vr_service :: "('w, 'g) control_service"
  vr_listening :: bool
  vr_port :: u16
  vr_config :: control_server_config
  vr_clients :: "client list"
  vr_network :: 'n

definition vr_new :: "('w, 'g) control_service \<Rightarrow> u16 \<Rightarrow> control_server_config \<Rightarrow> 'n \<Rightarrow> ('w, 'g, 'n) control_server" where
  "vr_new service port config n = \<lparr> vr_service = service, vr_listening = True, vr_port = port, vr_config = config,
     vr_clients = [], vr_network = n \<rparr>"

section \<open>Sending\<close>

text \<open>\<open>flush\<close>: \<open>sent\<close> bytes of the outbox are gone; the result is false when the connection failed.\<close>

function flush_from :: "'n network_operations \<Rightarrow> nat \<Rightarrow> client \<Rightarrow> 'n \<Rightarrow> bool \<times> client \<times> 'n" where
  "flush_from net sent c n =
     (if sent < length (cl_outbox c) then
        (case net_send net (cl_socket c) (drop sent (cl_outbox c)) n of
           ((k, blocked), n) \<Rightarrow>
             if k = 0 then (blocked, c\<lparr> cl_outbox := drop sent (cl_outbox c) \<rparr>, n)
             else flush_from net (sent + k) c n)
      else (True, c\<lparr> cl_outbox := [] \<rparr>, n))"
  by pat_completeness auto
termination
  by (relation "measure (\<lambda>(net, sent, c, n). length (cl_outbox c) - sent)") auto

declare flush_from.simps [simp del]

definition flush_client :: "'n network_operations \<Rightarrow> client \<Rightarrow> 'n \<Rightarrow> bool \<times> client \<times> 'n" where
  "flush_client net c n = flush_from net 0 c n"

definition enqueue :: "control_server_config \<Rightarrow> string \<Rightarrow> client \<Rightarrow> client" where
  "enqueue config message c =
     (if cl_congested c then c
      else if length (cl_outbox c) + length message + 1 > vc_max_pending_bytes config
      then c\<lparr> cl_congested := True, cl_outbox := [] \<rparr>
      else c\<lparr> cl_outbox := cl_outbox c @ message @ [newline] \<rparr>)"

fun broadcast_to ::
    "'n network_operations \<Rightarrow> control_server_config \<Rightarrow> string \<Rightarrow> client list \<Rightarrow> 'n \<Rightarrow> client list \<times> 'n" where
  "broadcast_to net config message [] n = ([], n)"
| "broadcast_to net config message (c # cs) n =
     (let c = enqueue config message c;
          (c, n) = (if cl_outbox c \<noteq> [] then snd (flush_client net c n) else (c, n));
          (cs, n) = broadcast_to net config message cs n
      in (c # cs, n))"

definition broadcast :: "'n network_operations \<Rightarrow> string \<Rightarrow> ('w, 'g, 'n) control_server \<Rightarrow> ('w, 'g, 'n) control_server" where
  "broadcast net message v =
     (let (cs, n) = broadcast_to net (vr_config v) message (vr_clients v) (vr_network v)
      in v\<lparr> vr_clients := cs, vr_network := n \<rparr>)"

definition broadcast_events ::
    "'n network_operations \<Rightarrow> 'd double_operations \<Rightarrow> 'd control_event list \<Rightarrow> ('w, 'g, 'n) control_server
      \<Rightarrow> ('w, 'g, 'n) control_server" where
  "broadcast_events net d es v = fold (\<lambda>e. broadcast net (event_text d e)) es v"

section \<open>Serving\<close>

text \<open>What a poll reads beside its sockets: the surroundings of the requests, and what the steady clock
  measured of the slice of a benchmark, and whether an accelerated analyzer throws in that slice.\<close>

record 'w poll_surroundings =
  po_requests :: "'w surroundings"
  po_spent :: "nat \<Rightarrow> u64"
  po_slice_ns :: u64
  po_device_fails :: bool

type_synonym ('w, 'g, 'n) server_state = "topology_controller \<times> ('w, 'g, 'n) control_server"

text \<open>A request of client \<open>i\<close>: the reply is for it, the events are for everyone.\<close>

definition server_handle ::
    "'n network_operations \<Rightarrow> 'd double_operations \<Rightarrow> 'w surroundings \<Rightarrow> nat \<Rightarrow> string \<Rightarrow> ('w, 'g, 'n) server_state
      \<Rightarrow> ('w, 'g, 'n) server_state" where
  "server_handle net d w i request st =
     (let (c, v) = st;
          (dp, c, s) = cs_dispatch d w request c (vr_service v);
          reply = enqueue (vr_config v) (reply_to_json (dp_reply dp)) (vr_clients v ! i);
          v = v\<lparr> vr_service := s, vr_clients := (vr_clients v)[i := reply] \<rparr>
      in (c, broadcast_events net d (dispatch_events dp) v))"

text \<open>\<open>serve\<close>: whether the client is still there, how many requests it sent, and the state after them.\<close>

definition server_serve ::
    "'n network_operations \<Rightarrow> 'd double_operations \<Rightarrow> 'w surroundings \<Rightarrow> nat \<Rightarrow> ('w, 'g, 'n) server_state
      \<Rightarrow> bool \<times> nat \<times> ('w, 'g, 'n) server_state" where
  "server_serve net d w i st =
     (let (c, v) = st; cl = vr_clients v ! i;
          (alive, inbox, n) = drain net (vc_max_request_bytes (vr_config v)) (cl_socket cl) (cl_inbox cl) (vr_network v);
          (messages, rest) = take_messages inbox;
          v = v\<lparr> vr_network := n \<rparr>;
          (c, v) = fold (server_handle net d w i) messages (c, v);
          v = v\<lparr> vr_clients := (vr_clients v)[i := (vr_clients v ! i)\<lparr> cl_inbox := rest \<rparr>] \<rparr>
      in (alive, length messages, c, v))"

text \<open>One client after a poll: serve what it sent, flush what it is owed, drop it if it is gone. An index that is
  erased is the last that was looked at, so the clients before it keep theirs.\<close>

definition poll_client ::
    "'n network_operations \<Rightarrow> 'd double_operations \<Rightarrow> 'w surroundings \<Rightarrow> poll_flag set \<Rightarrow> nat
      \<Rightarrow> nat \<times> ('w, 'g, 'n) server_state \<Rightarrow> nat \<times> ('w, 'g, 'n) server_state" where
  "poll_client net d w events i x =
     (if events = {} then x
      else
        let (served, st) = x;
            alive = (events \<inter> {PollError, PollInvalid} = {});
            (alive, k, c, v) = (if alive \<and> PollRead \<in> events then server_serve net d w i st else (alive, 0, st));
            cl = vr_clients v ! i;
            (alive, cl, n) = (if alive \<and> cl_outbox cl \<noteq> [] then flush_client net cl (vr_network v)
              else (alive, cl, vr_network v));
            alive = (alive \<and> \<not> (PollHangup \<in> events \<and> cl_inbox cl = []));
            cs = (if \<not> alive \<or> cl_congested cl then take i (vr_clients v) @ drop (Suc i) (vr_clients v)
              else (vr_clients v)[i := cl])
        in (served + k, c, v\<lparr> vr_clients := cs, vr_network := n \<rparr>))"

text \<open>\<open>accept_pending\<close>: a loop without a bound of its own, which ends when an accept fails; the result is
  \<open>None\<close> if none ever does.\<close>

definition accepted :: "nat \<Rightarrow> bool \<Rightarrow> ('w, 'g, 'n) control_server \<Rightarrow> ('w, 'g, 'n) control_server" where
  "accepted sock ready v =
     (if length (vr_clients v) \<ge> vc_max_clients (vr_config v) then v
      else if \<not> ready then v
      else v\<lparr> vr_clients := vr_clients v @
             [\<lparr> cl_socket = sock, cl_inbox = [], cl_outbox = [], cl_congested = False \<rparr>] \<rparr>)"

partial_function (option) accept_pending ::
    "'n network_operations \<Rightarrow> ('w, 'g, 'n) control_server \<Rightarrow> ('w, 'g, 'n) control_server option" where
  "accept_pending net v =
     (case net_accept net (vr_network v) of
        (connection, n) \<Rightarrow>
          (case connection of
             None \<Rightarrow> Some (v\<lparr> vr_network := n \<rparr>)
           | Some (sock, ready) \<Rightarrow> accept_pending net (accepted sock ready (v\<lparr> vr_network := n \<rparr>))))"

text \<open>A slice of the active benchmark. The run may be accelerated, and its analyzer may throw; nothing between
  here and \<open>main\<close> catches that, so it ends the switch. The result is \<open>None\<close> then, and if the slice
  does not return.\<close>

definition benchmark_throws :: "'w poll_surroundings \<Rightarrow> ('w, 'g) control_service \<Rightarrow> bool" where
  "benchmark_throws w s \<longleftrightarrow> po_device_fails w \<and> (case cs_run s of None \<Rightarrow> False | Some r \<Rightarrow> \<not> isl (rn_analyzer r))"

definition server_advance ::
    "'n network_operations \<Rightarrow> 'd double_operations \<Rightarrow> 'w poll_surroundings \<Rightarrow> ('w, 'g, 'n) server_state
      \<Rightarrow> ('w, 'g, 'n) server_state option" where
  "server_advance net d w st =
     (let (c, v) = st in
      if \<not> benchmark_active (vr_service v) then Some (c, v)
      else if benchmark_throws w (vr_service v) then None
      else map_option (\<lambda>(bd, s). (c, broadcast_events net d (advance_events bd) (v\<lparr> vr_service := s \<rparr>)))
             (advance_benchmark d (po_spent w) (po_slice_ns w) (vc_packets_per_poll (vr_config v)) c (vr_service v)))"

text \<open>A poll; \<open>None\<close> if it does not come back to its caller.\<close>

definition server_poll ::
    "'n network_operations \<Rightarrow> 'd double_operations \<Rightarrow> 'w poll_surroundings \<Rightarrow> int \<Rightarrow> ('w, 'g, 'n) server_state
      \<Rightarrow> (nat \<times> ('w, 'g, 'n) server_state) option" where
  "server_poll net d w timeout st =
     (if \<not> vr_listening (snd st) then Some (0, st)
      else Option.bind (server_advance net d w st) (\<lambda>(c, v).
        let v = v\<lparr> vr_clients := filter (\<lambda>cl. \<not> cl_congested cl) (vr_clients v) \<rparr>;
            watched = map (\<lambda>cl. (cl_socket cl, cl_outbox cl \<noteq> [])) (vr_clients v);
            (ready, n) = net_poll net watched (poll_deadline timeout) (vr_network v);
            v = v\<lparr> vr_network := n \<rparr>
        in case ready of
             None \<Rightarrow> Some (0, c, v)
           | Some (listener, events) \<Rightarrow>
               let polled = length (vr_clients v)
               in map_option (\<lambda>v. fold (\<lambda>i. poll_client net d (po_requests w) (events i) i) (rev [0..<polled]) (0, c, v))
                    (if listener \<noteq> {} then accept_pending net v else Some v)))"

definition server_publish_analysis ::
    "'n network_operations \<Rightarrow> 'd double_operations \<Rightarrow> analysis_outcome \<Rightarrow> topology_controller
      \<Rightarrow> ('w, 'g, 'n) control_server \<Rightarrow> ('w, 'g, 'n) control_server" where
  "server_publish_analysis net d out c v =
     (if vr_clients v = [] then v
      else let (ad, s) = analysis_events out c (vr_service v)
           in broadcast_events net d (analysis_event_list ad) (v\<lparr> vr_service := s \<rparr>))"

definition server_publish_supervision ::
    "'n network_operations \<Rightarrow> 'd double_operations \<Rightarrow> supervision_snapshot \<Rightarrow> topology_controller
      \<Rightarrow> ('w, 'g, 'n) control_server \<Rightarrow> ('w, 'g, 'n) control_server" where
  "server_publish_supervision net d snapshot c v =
     (if vr_clients v = [] then v
      else let (e, s) = supervision_stamp snapshot c (vr_service v)
           in broadcast_events net d [SupervisionEvent e] (v\<lparr> vr_service := s \<rparr>))"

definition server_close :: "('w, 'g, 'n) control_server \<Rightarrow> ('w, 'g, 'n) control_server" where
  "server_close v = v\<lparr> vr_clients := [], vr_listening := False, vr_port := 0 \<rparr>"

section \<open>Framing\<close>

lemma without_newline: "newline \<notin> set buffer \<Longrightarrow> take_messages buffer = ([], buffer)"
  by (subst take_messages.simps) simp

text \<open>A line at a time.\<close>

definition line_messages :: "string \<Rightarrow> string list" where
  "line_messages line = (let m = without_return line in if m \<noteq> [] then [m] else [])"

lemma take_messages_line:
  assumes "newline \<notin> set line"
  shows "take_messages (line @ newline # s) = (line_messages line @ fst (take_messages s), snd (take_messages s))"
  using before_delim [OF assms, of s]
  by (subst take_messages.simps) (simp add: line_messages_def Let_def split: prod.split)

lemma split_newline:
  assumes "newline \<in> set buffer"
  obtains line s where "buffer = line @ newline # s" and "newline \<notin> set line"
  using split_list_first [OF assms] by blast

text \<open>What is left is the end of the buffer, without a newline.\<close>

lemma take_messages_rest: "newline \<notin> set (snd (take_messages b)) \<and> (\<exists>p. b = p @ snd (take_messages b))"
proof (induction b rule: measure_induct_rule [of length])
  case (less b)
  show ?case
  proof (cases "newline \<in> set b")
    case True
    then obtain line s where b: "b = line @ newline # s" "newline \<notin> set line" by (rule split_newline)
    have "newline \<notin> set (snd (take_messages s)) \<and> (\<exists>p. s = p @ snd (take_messages s))" by (rule less) (simp add: b)
    then show ?thesis by (auto simp: b(1) take_messages_line [OF b(2)] intro: exI [of _ "line @ newline # _"])
  qed (simp add: without_newline)
qed

lemma take_messages_shorter: "length (snd (take_messages b)) \<le> length b"
proof -
  obtain p where "b = p @ snd (take_messages b)" using take_messages_rest by blast
  then have "length b = length p + length (snd (take_messages b))" by (metis length_append)
  then show ?thesis by simp
qed

lemma take_messages_append:
  "take_messages (b @ s) =
    (fst (take_messages b) @ fst (take_messages (snd (take_messages b) @ s)),
     snd (take_messages (snd (take_messages b) @ s)))"
proof (induction b rule: measure_induct_rule [of length])
  case (less b)
  show ?case
  proof (cases "newline \<in> set b")
    case True
    then obtain line t where b: "b = line @ newline # t" "newline \<notin> set line" by (rule split_newline)
    have "take_messages (t @ s) = (fst (take_messages t) @ fst (take_messages (snd (take_messages t) @ s)),
        snd (take_messages (snd (take_messages t) @ s)))" by (rule less) (simp add: b)
    then show ?thesis using take_messages_line [OF b(2)] by (simp add: b(1))
  qed (simp add: without_newline)
qed

text \<open>A reader that takes one message at a time takes the same ones.\<close>

lemma take_message_messages:
  "case take_messages b of
     ([], rest) \<Rightarrow> take_message b = (None, rest)
   | (m # ms, rest) \<Rightarrow> \<exists>b'. take_message b = (Some m, b') \<and> take_messages b' = (ms, rest)"
proof (induction b rule: measure_induct_rule [of length])
  case (less b)
  show ?case
  proof (cases "newline \<in> set b")
    case True
    then obtain line s where b: "b = line @ newline # s" "newline \<notin> set line" by (rule split_newline)
    have one: "take_message b = (if without_return line \<noteq> [] then (Some (without_return line), s) else take_message s)"
      unfolding b(1) using before_delim [OF b(2), of s] by (subst take_message.simps) (simp add: Let_def)
    have many: "take_messages b = (line_messages line @ fst (take_messages s), snd (take_messages s))"
      using take_messages_line [OF b(2)] by (simp add: b(1))
    show ?thesis
    proof (cases "without_return line = []")
      case True
      then have same: "take_message b = take_message s" "take_messages b = take_messages s"
        by (simp_all add: one many line_messages_def)
      show ?thesis unfolding same by (rule less) (simp add: b(1))
    qed (simp add: one many line_messages_def Let_def)
  next
    case False
    then have "take_message b = (None, b)" by (subst take_message.simps) simp
    then show ?thesis using False by (simp add: without_newline)
  qed
qed

section \<open>Bounds\<close>

text \<open>What sending may do to a client: its outbox stays within the cap, and is empty once it is congested.\<close>

definition client_ok :: "control_server_config \<Rightarrow> client \<Rightarrow> bool" where
  "client_ok config c \<longleftrightarrow> length (cl_outbox c) \<le> vc_max_pending_bytes config \<and> (cl_congested c \<longrightarrow> cl_outbox c = [])"

definition client_later :: "control_server_config \<Rightarrow> client \<Rightarrow> client \<Rightarrow> bool" where
  "client_later config c c' \<longleftrightarrow> cl_socket c' = cl_socket c \<and> cl_inbox c' = cl_inbox c \<and>
     (client_ok config c \<longrightarrow> client_ok config c')"

lemma client_later_refl [simp]: "client_later config c c"
  by (simp add: client_later_def)

lemma client_later_trans: "client_later config c c' \<Longrightarrow> client_later config c' c'' \<Longrightarrow> client_later config c c''"
  by (simp add: client_later_def)

lemma enqueue_later: "client_later config c (enqueue config message c)"
  by (auto simp: client_later_def enqueue_def client_ok_def)

text \<open>Flushing sends the beginning of the outbox and keeps the rest.\<close>

lemma flush_from_outbox:
  "\<exists>ok k n'. flush_from net sent c n = (ok, c\<lparr> cl_outbox := drop k (cl_outbox c) \<rparr>, n') \<and> sent \<le> k"
proof (induction net sent c n rule: flush_from.induct)
  case (1 net sent c n)
  show ?case
  proof (cases "sent < length (cl_outbox c)")
    case True
    obtain k blocked n1 where r: "net_send net (cl_socket c) (drop sent (cl_outbox c)) n = ((k, blocked), n1)"
      by (metis surj_pair)
    show ?thesis
    proof (cases "k = 0")
      case True
      with \<open>sent < length (cl_outbox c)\<close> show ?thesis by (subst flush_from.simps) (auto simp: r)
    next
      case False
      then have "flush_from net sent c n = flush_from net (sent + k) c n1"
        using True by (subst flush_from.simps) (simp add: r)
      then show ?thesis using "1.IH" [OF True r [symmetric] refl False] by fastforce
    qed
  next
    case False
    then have "flush_from net sent c n = (True, c\<lparr> cl_outbox := drop (max sent (length (cl_outbox c))) (cl_outbox c) \<rparr>, n)"
      by (subst flush_from.simps) simp
    then show ?thesis by (intro exI [of _ True] exI [of _ "max sent (length (cl_outbox c))"] exI [of _ n]) simp
  qed
qed

lemma flush_later:
  assumes "flush_client net c n = (ok, c', n')"
  shows "client_later config c c'" and "cl_congested c' = cl_congested c"
  using flush_from_outbox [of net 0 c n] assms by (auto simp: flush_client_def client_later_def client_ok_def)

lemma broadcast_to_later:
  "list_all2 (client_later config) cs (fst (broadcast_to net config message cs n))"
proof (induction cs arbitrary: n)
  case (Cons c cs)
  let ?c = "enqueue config message c"
  obtain c1 n1 where f: "(if cl_outbox ?c \<noteq> [] then snd (flush_client net ?c n) else (?c, n)) = (c1, n1)" by fastforce
  have "client_later config ?c c1"
    using f flush_later(1) [of net ?c n] by (cases "flush_client net ?c n") (auto split: if_splits)
  then have "client_later config c c1" by (rule client_later_trans [OF enqueue_later])
  moreover have "fst (broadcast_to net config message (c # cs) n) = c1 # fst (broadcast_to net config message cs n1)"
    using f by (simp add: Let_def split_beta)
  ultimately show ?case using Cons.IH [of n1] by simp
qed simp

text \<open>What sending leaves alone of the server.\<close>

definition server_later :: "('w, 'g, 'n) control_server \<Rightarrow> ('w, 'g, 'n) control_server \<Rightarrow> bool" where
  "server_later v v' \<longleftrightarrow> vr_config v' = vr_config v \<and> vr_listening v' = vr_listening v \<and>
     list_all2 (client_later (vr_config v)) (vr_clients v) (vr_clients v')"

lemma server_later_refl [simp]: "server_later v v"
  by (simp add: server_later_def list.rel_refl)

lemma server_later_trans: "server_later v v' \<Longrightarrow> server_later v' v'' \<Longrightarrow> server_later v v''"
  unfolding server_later_def
  using list_all2_trans [of "client_later (vr_config v)" "client_later (vr_config v)" "client_later (vr_config v)"
      "vr_clients v" "vr_clients v'" "vr_clients v''"] client_later_trans by auto

lemma broadcast_later: "server_later v (broadcast net message v)"
  using broadcast_to_later [of "vr_config v" "vr_clients v" net message "vr_network v"]
  by (simp add: broadcast_def server_later_def split_beta)

lemma broadcast_service [simp]: "vr_service (broadcast net message v) = vr_service v"
  by (simp add: broadcast_def split: prod.split)

lemma broadcast_events_later: "server_later v (broadcast_events net d es v)"
proof (induction es arbitrary: v)
  case (Cons e es)
  have "broadcast_events net d (e # es) v = broadcast_events net d es (broadcast net (event_text d e) v)"
    by (simp add: broadcast_events_def)
  then show ?case using server_later_trans [OF broadcast_later Cons.IH] by simp
qed (simp add: broadcast_events_def)

lemma broadcast_events_service [simp]: "vr_service (broadcast_events net d es v) = vr_service v"
  by (induction es arbitrary: v) (simp_all add: broadcast_events_def)

lemma handle_server_later:
  assumes "server_handle net d w i request (c, v) = (c', v')"
  shows "server_later v v'"
proof -
  obtain dp c1 s1 where run: "cs_dispatch d w request c (vr_service v) = (dp, c1, s1)" by (metis prod_cases3)
  let ?v = "v\<lparr> vr_service := s1,
    vr_clients := (vr_clients v)[i := enqueue (vr_config v) (reply_to_json (dp_reply dp)) (vr_clients v ! i)] \<rparr>"
  have "server_later v ?v"
    unfolding server_later_def list_all2_conv_all_nth
    by (cases "i < length (vr_clients v)") (simp_all add: nth_list_update enqueue_later)
  moreover have "v' = broadcast_events net d (dispatch_events dp) ?v" using assms by (simp add: server_handle_def run)
  ultimately show ?thesis
    using server_later_trans broadcast_events_later [of ?v net d "dispatch_events dp"] by simp
qed

lemma handles_server_later:
  "fold (server_handle net d w i) messages (c, v) = (c', v') \<Longrightarrow> server_later v v'"
proof (induction messages arbitrary: c v)
  case (Cons m messages)
  obtain c1 v1 where 1: "server_handle net d w i m (c, v) = (c1, v1)" by fastforce
  have "server_later v1 v'" using Cons 1 by simp
  with handle_server_later [OF 1] show ?case by (rule server_later_trans)
qed simp

lemma handle_later:
  assumes "server_handle net d w i request (c, v) = (c', v')" and "service_ok (vr_service v)"
  shows "server_later v v' \<and> service_ok (vr_service v')"
proof -
  obtain dp c1 s1 where run: "cs_dispatch d w request c (vr_service v) = (dp, c1, s1)" by (metis prod_cases3)
  have "vr_service v' = s1" using assms(1) by (auto simp: server_handle_def run)
  moreover have "service_ok s1" using dispatch_simulated [OF assms(2) run] by (simp add: simulated_def)
  ultimately show ?thesis using handle_server_later [OF assms(1)] by simp
qed

lemma handles_later:
  assumes "fold (server_handle net d w i) messages (c, v) = (c', v')" and "service_ok (vr_service v)"
  shows "server_later v v' \<and> service_ok (vr_service v')"
  using assms
proof (induction messages arbitrary: c v)
  case (Cons m messages)
  obtain c1 v1 where 1: "server_handle net d w i m (c, v) = (c1, v1)" by fastforce
  note later = handle_later [OF 1 Cons.prems(2)]
  have "server_later v1 v' \<and> service_ok (vr_service v')" using Cons.IH [of c1 v1] Cons.prems(1) 1 later by simp
  then show ?case using later server_later_trans by blast
qed simp

text \<open>A buffer that drained with the connection open is within its cap.\<close>

lemma drain_capped:
  "drain net cap sock b n = (ok, b', n') \<Longrightarrow> length b \<le> cap \<Longrightarrow> ok \<Longrightarrow> length b' \<le> cap"
proof (induction net cap sock b n rule: drain.induct)
  case (1 net cap sock b n)
  obtain res n1 where res: "net_receive net sock n = (res, n1)" by fastforce
  show ?case
  proof (cases res)
    case (Inl blocked)
    then show ?thesis using "1.prems" by (subst (asm) drain.simps) (simp add: res)
  next
    case (Inr chunk)
    have "chunk \<noteq> [] \<and> length (b @ chunk) \<le> cap \<and> drain net cap sock (b @ chunk) n1 = (ok, b', n')"
      using "1.prems" by (subst (asm) drain.simps) (auto simp: res Inr split: if_splits)
    then show ?thesis using "1.IH" [OF res [symmetric] Inr] "1.prems"(3) by simp
  qed
qed

section \<open>Requests as a stream\<close>

text \<open>\<open>rd\<close> says which bytes of a socket were read so far: a receive adds what it answers, and
  sending reads nothing.\<close>

definition receives_stream :: "'n network_operations \<Rightarrow> (nat \<Rightarrow> 'n \<Rightarrow> string) \<Rightarrow> bool" where
  "receives_stream net rd \<longleftrightarrow>
     (\<forall>sock n. rd sock (snd (net_receive net sock n)) =
       rd sock n @ (case fst (net_receive net sock n) of Inl _ \<Rightarrow> [] | Inr chunk \<Rightarrow> chunk)) \<and>
     (\<forall>sock sock' data n. rd sock (snd (net_send net sock' data n)) = rd sock n)"

text \<open>What sending leaves alone of the network, serving a request leaves alone.\<close>

lemma flush_network:
  assumes "\<And>sock data n. f (snd (net_send net sock data n)) = f n"
  shows "f (snd (snd (flush_from net sent c n))) = f n"
  using assms
proof (induction net sent c n rule: flush_from.induct)
  case (1 net sent c n)
  obtain k blocked n1 where r: "net_send net (cl_socket c) (drop sent (cl_outbox c)) n = ((k, blocked), n1)"
    by (metis surj_pair)
  have n1: "f n1 = f n" using "1.prems" [of "cl_socket c" "drop sent (cl_outbox c)" n] by (simp add: r)
  show ?case
  proof (cases "sent < length (cl_outbox c) \<and> k \<noteq> 0")
    case True
    then have "flush_from net sent c n = flush_from net (sent + k) c n1" by (subst flush_from.simps) (simp add: r)
    then show ?thesis using "1.IH" [OF _ r [symmetric] refl] True "1.prems" n1 by simp
  next
    case False
    then show ?thesis using n1 by (subst flush_from.simps) (auto simp: r)
  qed
qed

lemma broadcast_to_network:
  assumes "\<And>sock data n. f (snd (net_send net sock data n)) = f n"
  shows "f (snd (broadcast_to net config message cs n)) = f n"
proof (induction cs arbitrary: n)
  case (Cons c cs)
  then show ?case using flush_network [of f net 0 "enqueue config message c" n, OF assms]
    by (simp add: Let_def split_beta flush_client_def)
qed simp

lemma broadcast_events_network:
  assumes "\<And>sock data n. f (snd (net_send net sock data n)) = f n"
  shows "f (vr_network (broadcast_events net d es v)) = f (vr_network v)"
proof (induction es arbitrary: v)
  case (Cons e es)
  have "broadcast_events net d (e # es) v = broadcast_events net d es (broadcast net (event_text d e) v)"
    by (simp add: broadcast_events_def)
  moreover have "f (vr_network (broadcast net (event_text d e) v)) = f (vr_network v)"
    using broadcast_to_network [of f net, OF assms] by (simp add: broadcast_def split_beta)
  ultimately show ?case using Cons.IH by simp
qed (simp add: broadcast_events_def)

lemma handles_network:
  assumes "\<And>sock data n. f (snd (net_send net sock data n)) = f n"
  shows "f (vr_network (snd (fold (server_handle net d w i) messages st))) = f (vr_network (snd st))"
proof (induction messages arbitrary: st)
  case (Cons m messages)
  have "f (vr_network (snd (server_handle net d w i m st))) = f (vr_network (snd st))"
    by (simp add: server_handle_def split_beta Let_def broadcast_events_network [of f net, OF assms])
  then show ?case using Cons.IH by simp
qed simp

lemma drain_receives:
  assumes "receives_stream net rd"
  shows "drain net cap sock b n = (ok, b', n') \<Longrightarrow> \<exists>bytes. b' = b @ bytes \<and> rd sock n' = rd sock n @ bytes"
  using assms
proof (induction net cap sock b n rule: drain.induct)
  case (1 net cap sock b n)
  obtain res n1 where res: "net_receive net sock n = (res, n1)" by fastforce
  have r: "rd sock n1 = rd sock n @ (case res of Inl _ \<Rightarrow> [] | Inr chunk \<Rightarrow> chunk)"
    using "1.prems"(2) res unfolding receives_stream_def by (metis fst_conv snd_conv)
  show ?case
  proof (cases res)
    case (Inl blocked)
    then show ?thesis using "1.prems"(1) r by (subst (asm) drain.simps) (simp add: res)
  next
    case (Inr chunk)
    show ?thesis
    proof (cases "chunk = [] \<or> length (b @ chunk) > cap")
      case True
      then have "b' = b @ chunk \<and> n' = n1" using "1.prems"(1) by (subst (asm) drain.simps) (auto simp: res Inr split: if_splits)
      then show ?thesis using r by (simp add: Inr)
    next
      case False
      then have "drain net cap sock (b @ chunk) n1 = (ok, b', n')"
        using "1.prems"(1) by (subst (asm) drain.simps) (simp add: res Inr)
      with "1.IH" [OF res [symmetric] Inr] False "1.prems"(2) show ?thesis using r by (auto simp: Inr)
    qed
  qed
qed

text \<open>The life of a connection between two looks at it: it is served, or the server does something else, which
  leaves its socket, its inbox and its unread bytes alone (its index may change when others go). \<open>N\<close>
  counts the requests that were served.\<close>

inductive serves ::
    "'n network_operations \<Rightarrow> 'd double_operations \<Rightarrow> (nat \<Rightarrow> 'n \<Rightarrow> string) \<Rightarrow> ('w, 'g, 'n) server_state \<times> nat
      \<Rightarrow> nat \<Rightarrow> ('w, 'g, 'n) server_state \<times> nat \<Rightarrow> bool"
  for net d rd x where
  serves_refl: "serves net d rd x 0 x"
| serves_serve: "serves net d rd x N ((c, v), i) \<Longrightarrow> i < length (vr_clients v) \<Longrightarrow>
    server_serve net d w i (c, v) = (alive, k, c', v') \<Longrightarrow> serves net d rd x (N + k) ((c', v'), i)"
| serves_else: "serves net d rd x N ((c, v), i) \<Longrightarrow>
    cl_socket (vr_clients v' ! i') = cl_socket (vr_clients v ! i) \<Longrightarrow>
    cl_inbox (vr_clients v' ! i') = cl_inbox (vr_clients v ! i) \<Longrightarrow>
    rd (cl_socket (vr_clients v ! i)) (vr_network v') = rd (cl_socket (vr_clients v ! i)) (vr_network v) \<Longrightarrow>
    serves net d rd x N ((c', v'), i')"

text \<open>Telling events to everyone is such a step, and so is a benchmark's slice, which does nothing else to the clients.\<close>

lemma serves_events:
  assumes "serves net d rd x N ((c, v), i)" and "receives_stream net rd" and "i < length (vr_clients v)"
  shows "serves net d rd x N ((c', broadcast_events net d es v), i)"
proof (rule serves_else [OF assms(1)])
  have "client_later (vr_config v) (vr_clients v ! i) (vr_clients (broadcast_events net d es v) ! i)"
    using broadcast_events_later [of v net d es] assms(3) by (simp add: server_later_def list_all2_conv_all_nth)
  then show "cl_socket (vr_clients (broadcast_events net d es v) ! i) = cl_socket (vr_clients v ! i)"
      "cl_inbox (vr_clients (broadcast_events net d es v) ! i) = cl_inbox (vr_clients v ! i)"
    by (simp_all add: client_later_def)
  show "rd (cl_socket (vr_clients v ! i)) (vr_network (broadcast_events net d es v)) = rd (cl_socket (vr_clients v ! i)) (vr_network v)"
    using assms(2) by (intro broadcast_events_network) (simp add: receives_stream_def)
qed

lemma serves_advance:
  assumes "serves net d rd x N ((c, v), i)" and "receives_stream net rd" and "i < length (vr_clients v)"
    and "server_advance net d w (c, v) = Some (c', v')"
  shows "serves net d rd x N ((c', v'), i)"
proof (cases "benchmark_active (vr_service v)")
  case True
  then obtain bd s where "v' = broadcast_events net d (advance_events bd) (v\<lparr> vr_service := s \<rparr>)"
    using assms(4) by (auto simp: server_advance_def split: if_splits)
  moreover have "serves net d rd x N ((c, v\<lparr> vr_service := s \<rparr>), i)" by (rule serves_else [OF assms(1)]) simp_all
  ultimately show ?thesis using serves_events [of net d rd x N c "v\<lparr> vr_service := s \<rparr>" i] assms(2,3) by simp
next
  case False
  then show ?thesis using assms(1,4) by (simp add: server_advance_def)
qed

lemma serve_reads:
  assumes "receives_stream net rd" and "i < length (vr_clients v)"
    and "server_serve net d w i (c, v) = (alive, k, c', v')"
  obtains bytes n v1 messages rest where
    "drain net (vc_max_request_bytes (vr_config v)) (cl_socket (vr_clients v ! i)) (cl_inbox (vr_clients v ! i)) (vr_network v)
      = (alive, cl_inbox (vr_clients v ! i) @ bytes, n)"
    and "take_messages (cl_inbox (vr_clients v ! i) @ bytes) = (messages, rest)" and "k = length messages"
    and "fold (server_handle net d w i) messages (c, v\<lparr> vr_network := n \<rparr>) = (c', v1)"
    and "v' = v1\<lparr> vr_clients := (vr_clients v1)[i := (vr_clients v1 ! i)\<lparr> cl_inbox := rest \<rparr>] \<rparr>"
    and "rd (cl_socket (vr_clients v ! i)) (vr_network v') = rd (cl_socket (vr_clients v ! i)) (vr_network v) @ bytes"
    and "cl_socket (vr_clients v' ! i) = cl_socket (vr_clients v ! i)" and "cl_inbox (vr_clients v' ! i) = rest"
proof -
  let ?cl = "vr_clients v ! i"
  obtain open' inbox n where drained:
      "drain net (vc_max_request_bytes (vr_config v)) (cl_socket ?cl) (cl_inbox ?cl) (vr_network v) = (open', inbox, n)"
    by (metis prod_cases3)
  obtain messages rest where taken: "take_messages inbox = (messages, rest)" by fastforce
  obtain c1 v1 where v1: "fold (server_handle net d w i) messages (c, v\<lparr> vr_network := n \<rparr>) = (c1, v1)" by fastforce
  have now: "alive = open'" "k = length messages" "c' = c1"
      "v' = v1\<lparr> vr_clients := (vr_clients v1)[i := (vr_clients v1 ! i)\<lparr> cl_inbox := rest \<rparr>] \<rparr>"
    using assms(3) by (simp_all add: server_serve_def Let_def drained taken v1)
  obtain bytes where bytes: "inbox = cl_inbox ?cl @ bytes" "rd (cl_socket ?cl) n = rd (cl_socket ?cl) (vr_network v) @ bytes"
    using drain_receives [OF assms(1) drained] by blast
  have "rd (cl_socket ?cl) (vr_network v1) = rd (cl_socket ?cl) n"
    using handles_network [of "rd (cl_socket ?cl)" net d w i messages "(c, v\<lparr> vr_network := n \<rparr>)"] assms(1) v1
    by (simp add: receives_stream_def)
  moreover have "i < length (vr_clients v1)" "cl_socket (vr_clients v1 ! i) = cl_socket ?cl"
    using handles_server_later [OF v1] assms(2)
    by (auto simp: server_later_def client_later_def list_all2_conv_all_nth)
  ultimately show thesis
    using drained taken v1 now bytes by (intro that [of bytes n messages rest v1]) simp_all
qed

lemma serves_stream:
  assumes "receives_stream net rd" and "newline \<notin> set (cl_inbox (vr_clients v0 ! i0))"
  shows "serves net d rd ((c0, v0), i0) N st \<Longrightarrow>
    cl_socket (vr_clients (snd (fst st)) ! snd st) = cl_socket (vr_clients v0 ! i0) \<and>
    (\<exists>bytes. rd (cl_socket (vr_clients v0 ! i0)) (vr_network (snd (fst st))) =
        rd (cl_socket (vr_clients v0 ! i0)) (vr_network v0) @ bytes \<and>
      length (fst (take_messages (cl_inbox (vr_clients v0 ! i0) @ bytes))) = N \<and>
      cl_inbox (vr_clients (snd (fst st)) ! snd st) = snd (take_messages (cl_inbox (vr_clients v0 ! i0) @ bytes)))"
proof (induction rule: serves.induct)
  case serves_refl
  show ?case using without_newline [OF assms(2)] by simp
next
  case (serves_serve N c v i w alive k c' v')
  from serves_serve.IH obtain bytes where b:
      "cl_socket (vr_clients v ! i) = cl_socket (vr_clients v0 ! i0)"
      "rd (cl_socket (vr_clients v0 ! i0)) (vr_network v) = rd (cl_socket (vr_clients v0 ! i0)) (vr_network v0) @ bytes"
      "length (fst (take_messages (cl_inbox (vr_clients v0 ! i0) @ bytes))) = N"
      "cl_inbox (vr_clients v ! i) = snd (take_messages (cl_inbox (vr_clients v0 ! i0) @ bytes))"
    by auto
  show ?case
  proof (rule serve_reads [OF assms(1) serves_serve.hyps(2,3)], goal_cases)
    case (1 more n v1 messages rest)
    then show ?case
      using take_messages_append [of "cl_inbox (vr_clients v0 ! i0) @ bytes" more] b
      by (intro conjI exI [of _ "bytes @ more"]) simp_all
  qed
qed auto


text \<open>A connection whose bytes come in two polls, the second request cut in two. Sending takes everything.\<close>

definition split_network :: "(string option list \<times> string) network_operations" where
  "split_network = \<lparr>
     net_receive = (\<lambda>sock n. case fst n of
         Some s # xs \<Rightarrow> (Inr s, xs, snd n @ s)
       | None # xs \<Rightarrow> (Inl True, xs, snd n)
       | [] \<Rightarrow> (Inl True, n)),
     net_send = (\<lambda>sock data n. ((length data, True), n)),
     net_accept = (\<lambda>n. (None, n)),
     net_poll = (\<lambda>watched timeout n. (None, n)) \<rparr>"

definition split_server :: "(unit, unit, string option list \<times> string) control_server" where
  "split_server = (vr_new cs_new 9000 default_server_config
      ([Some (''ab'' @ newline # ''c''), None, Some (''d'' @ newline # ''e''), None], []))
     \<lparr> vr_clients := [\<lparr> cl_socket = 3, cl_inbox = [], cl_outbox = [], cl_congested = False \<rparr>] \<rparr>"

lemma split_stream: "receives_stream split_network (\<lambda>sock n. snd n)"
  by (auto simp: receives_stream_def split_network_def split: list.split option.split)

lemma split_serve:
  assumes "server_serve split_network d w 0 (c, v) = (alive, k, c', v')" and "vr_clients v \<noteq> []"
    and "vr_network v = (Some s # None # xs, seen)" and "s \<noteq> []" and "length (cl_inbox (vr_clients v ! 0) @ s) \<le> vc_max_request_bytes (vr_config v)"
  shows "vr_network v' = (xs, seen @ s)" and "vr_clients v' \<noteq> []" and "vr_config v' = vr_config v"
    and "cl_inbox (vr_clients v' ! 0) = snd (take_messages (cl_inbox (vr_clients v ! 0) @ s))"
proof -
  let ?cl = "vr_clients v ! 0"
  have drained: "drain split_network (vc_max_request_bytes (vr_config v)) (cl_socket ?cl) (cl_inbox ?cl) (vr_network v)
      = (True, cl_inbox ?cl @ s, xs, seen @ s)"
    using assms(3-5) by (subst drain.simps, simp add: split_network_def) (subst drain.simps, simp)
  obtain c1 v1 where v1: "fold (server_handle split_network d w 0) (fst (take_messages (cl_inbox ?cl @ s)))
      (c, v\<lparr> vr_network := (xs, seen @ s) \<rparr>) = (c1, v1)" by fastforce
  have v': "v' = v1\<lparr> vr_clients := (vr_clients v1)[0 := (vr_clients v1 ! 0)\<lparr> cl_inbox := snd (take_messages (cl_inbox ?cl @ s)) \<rparr>] \<rparr>"
    using assms(1) by (simp add: server_serve_def Let_def drained v1 split_beta)
  have "vr_network v1 = (xs, seen @ s)"
    using handles_network [of "\<lambda>n. n" split_network d w 0 "fst (take_messages (cl_inbox ?cl @ s))" "(c, v\<lparr> vr_network := (xs, seen @ s) \<rparr>)"] v1
    by (simp add: split_network_def)
  then show "vr_network v' = (xs, seen @ s)" by (simp add: v')
  have "length (vr_clients v1) = length (vr_clients v) \<and> vr_config v1 = vr_config v"
    using handles_server_later [OF v1] by (auto simp: server_later_def dest: list_all2_lengthD)
  with assms(2) show "vr_clients v' \<noteq> []" "vr_config v' = vr_config v"
      "cl_inbox (vr_clients v' ! 0) = snd (take_messages (cl_inbox ?cl @ s))"
    by (auto simp: v')
qed


text \<open>The server within its bounds.\<close>

definition server_bounded :: "('w, 'g, 'n) control_server \<Rightarrow> bool" where
  "server_bounded v \<longleftrightarrow> length (vr_clients v) \<le> vc_max_clients (vr_config v) \<and>
     (\<forall>cl \<in> set (vr_clients v). client_ok (vr_config v) cl \<and> length (cl_inbox cl) \<le> vc_max_request_bytes (vr_config v))"

definition server_ok :: "('w, 'g, 'n) control_server \<Rightarrow> bool" where
  "server_ok v \<longleftrightarrow> server_bounded v \<and> service_ok (vr_service v)"

lemma server_later_bounded: "server_later v v' \<Longrightarrow> server_bounded v \<Longrightarrow> server_bounded v'"
  by (auto simp: server_later_def server_bounded_def list_all2_conv_all_nth client_later_def all_set_conv_all_nth)

lemma server_later_ok:
  "server_later v v' \<Longrightarrow> server_ok v \<Longrightarrow> service_ok (vr_service v') \<Longrightarrow> server_ok v'"
  using server_later_bounded by (auto simp: server_ok_def)

text \<open>Serving a client: only its own inbox changes, and stays within the cap if it is still there.\<close>

lemma serve_bounded:
  assumes "server_serve net d w i (c, v) = (alive, k, c', v')" and "server_ok v" and "i < length (vr_clients v)"
  shows "service_ok (vr_service v')" and "vr_config v' = vr_config v" and "vr_listening v' = vr_listening v"
    and "length (vr_clients v') = length (vr_clients v)"
    and "\<forall>j < length (vr_clients v). client_ok (vr_config v) (vr_clients v' ! j) \<and>
      ((j \<noteq> i \<or> alive) \<longrightarrow> length (cl_inbox (vr_clients v' ! j)) \<le> vc_max_request_bytes (vr_config v))"
proof -
  let ?cl = "vr_clients v ! i" and ?cap = "vc_max_request_bytes (vr_config v)"
  obtain open' inbox n1 where drained: "drain net ?cap (cl_socket ?cl) (cl_inbox ?cl) (vr_network v) = (open', inbox, n1)"
    by (metis prod_cases3)
  obtain messages rest where taken: "take_messages inbox = (messages, rest)" by fastforce
  obtain c1 v1 where v1: "fold (server_handle net d w i) messages (c, v\<lparr> vr_network := n1 \<rparr>) = (c1, v1)" by fastforce
  have alive: "alive = open'" and v': "v' = v1\<lparr> vr_clients := (vr_clients v1)[i := (vr_clients v1 ! i)\<lparr> cl_inbox := rest \<rparr>] \<rparr>"
    using assms(1) by (simp_all add: server_serve_def Let_def drained taken v1)
  have later: "server_later v v1" "service_ok (vr_service v1)"
    using handles_later [OF v1] assms(2) by (simp_all add: server_ok_def server_later_def)
  then show "service_ok (vr_service v')" "vr_config v' = vr_config v" "vr_listening v' = vr_listening v"
    by (simp_all add: v' server_later_def)
  have cs: "vr_clients v' = (vr_clients v1)[i := (vr_clients v1 ! i)\<lparr> cl_inbox := rest \<rparr>]" by (simp add: v')
  have len: "length (vr_clients v1) = length (vr_clients v)" using later(1)
    by (auto simp: server_later_def dest: list_all2_lengthD)
  then show "length (vr_clients v') = length (vr_clients v)" by (simp add: cs)
  have inbox: "length rest \<le> ?cap" if alive
    using drain_capped [OF drained] take_messages_shorter [of inbox] assms(2,3) that
    by (auto simp: alive taken server_ok_def server_bounded_def intro: order_trans)
  have old: "client_ok (vr_config v) (vr_clients v1 ! j) \<and> length (cl_inbox (vr_clients v1 ! j)) \<le> ?cap"
    if "j < length (vr_clients v)" for j
    using later(1) assms(2) that
    by (auto simp: server_later_def server_ok_def server_bounded_def list_all2_conv_all_nth client_later_def)
  show "\<forall>j < length (vr_clients v). client_ok (vr_config v) (vr_clients v' ! j) \<and>
      ((j \<noteq> i \<or> alive) \<longrightarrow> length (cl_inbox (vr_clients v' ! j)) \<le> ?cap)"
    using old inbox assms(3) len by (auto simp: cs nth_list_update client_ok_def)
qed

text \<open>A client after a poll: it is kept within its bounds or dropped.\<close>

definition polled ::
    "nat \<Rightarrow> ('w, 'g, 'n) control_server \<Rightarrow> ('w, 'g, 'n) control_server \<Rightarrow> bool" where
  "polled i v v' \<longleftrightarrow> server_ok v' \<and> i \<le> length (vr_clients v') \<and> vr_config v' = vr_config v \<and> vr_listening v' = vr_listening v"

lemma set_without: "set (take i xs @ drop (Suc i) xs) \<subseteq> {xs ! j |j. j < length xs \<and> j \<noteq> i}"
proof -
  have "\<exists>j. x = xs ! j \<and> j < length xs \<and> j \<noteq> i" if "x \<in> set (take i xs)" for x
  proof -
    from that obtain k where "k < length xs" "k < i" "x = xs ! k" by (auto simp: in_set_conv_nth)
    then show ?thesis by (intro exI [of _ k]) simp
  qed
  moreover have "\<exists>j. x = xs ! j \<and> j < length xs \<and> j \<noteq> i" if "x \<in> set (drop (Suc i) xs)" for x
  proof -
    from that obtain k where "k < length xs - Suc i" "x = xs ! Suc (i + k)" by (auto simp: in_set_conv_nth)
    then show ?thesis by (intro exI [of _ "Suc (i + k)"]) simp
  qed
  ultimately show ?thesis by auto
qed

lemma keep_or_drop:
  assumes "i < length cs" and "length cs \<le> m" and "\<forall>j < length cs. j \<noteq> i \<longrightarrow> P (cs ! j)" and "keep \<Longrightarrow> P cl"
    and "cs' = (if \<not> keep then take i cs @ drop (Suc i) cs else cs[i := cl])"
  shows "length cs' \<le> m \<and> (\<forall>x \<in> set cs'. P x) \<and> i \<le> length cs'"
proof (cases keep)
  case True
  then show ?thesis using assms by (auto simp: set_conv_nth nth_list_update)
next
  case False
  then show ?thesis using assms set_without [of i cs] by auto
qed

lemma poll_client_bounded:
  assumes "poll_client net d w events i (k, c, v) = (k', c', v')" and "server_ok v" and "i < length (vr_clients v)"
  shows "polled i v v'"
proof (cases "events = {}")
  case True
  then show ?thesis using assms by (simp add: poll_client_def polled_def)
next
  case False
  define alive0 where "alive0 \<longleftrightarrow> events \<inter> {PollError, PollInvalid} = {}"
  let ?cap = "vc_max_request_bytes (vr_config v)"
  obtain alive1 k1 c1 v1 where serve: "(if alive0 \<and> PollRead \<in> events then server_serve net d w i (c, v) else (alive0, 0, c, v)) =
      (alive1, k1, c1, v1)" by (metis prod_cases4)
  have served: "service_ok (vr_service v1)" "vr_config v1 = vr_config v" "vr_listening v1 = vr_listening v"
    "length (vr_clients v1) = length (vr_clients v)"
    "\<forall>j < length (vr_clients v). client_ok (vr_config v) (vr_clients v1 ! j) \<and>
      ((j \<noteq> i \<or> alive1) \<longrightarrow> length (cl_inbox (vr_clients v1 ! j)) \<le> ?cap)"
    using serve serve_bounded [OF _ assms(2,3), of net d w c alive1 k1 c1 v1] assms(2)
    by (auto simp: server_ok_def server_bounded_def split: if_splits)
  let ?cl = "vr_clients v1 ! i"
  obtain alive2 cl n where flush: "(if alive1 \<and> cl_outbox ?cl \<noteq> [] then flush_client net ?cl (vr_network v1)
      else (alive1, ?cl, vr_network v1)) = (alive2, cl, n)" by (metis prod_cases3)
  have later: "client_later (vr_config v) ?cl cl" "alive2 \<longrightarrow> alive1"
    using flush flush_later(1) [of net ?cl "vr_network v1"] by (auto split: if_splits)
  define keep where "keep \<longleftrightarrow> (alive2 \<and> \<not> (PollHangup \<in> events \<and> cl_inbox cl = [])) \<and> \<not> cl_congested cl"
  define cs where "cs = (if \<not> keep then take i (vr_clients v1) @ drop (Suc i) (vr_clients v1) else (vr_clients v1)[i := cl])"
  have "poll_client net d w events i (k, c, v) = (k + k1, c1, v1\<lparr> vr_clients := cs, vr_network := n \<rparr>)"
    unfolding poll_client_def if_not_P [OF False] Let_def prod.case alive0_def [symmetric] serve flush cs_def keep_def
      de_Morgan_conj not_not ..
  then have v': "v' = v1\<lparr> vr_clients := cs, vr_network := n \<rparr>" using assms(1) by simp
  have "length cs \<le> vc_max_clients (vr_config v) \<and>
      (\<forall>x \<in> set cs. client_ok (vr_config v) x \<and> length (cl_inbox x) \<le> ?cap) \<and> i \<le> length cs"
  proof (rule keep_or_drop [OF _ _ _ _ cs_def])
    show "i < length (vr_clients v1)" "length (vr_clients v1) \<le> vc_max_clients (vr_config v)"
      using assms(2,3) served(4) by (simp_all add: server_ok_def server_bounded_def)
    show "\<forall>j < length (vr_clients v1). j \<noteq> i \<longrightarrow>
        client_ok (vr_config v) (vr_clients v1 ! j) \<and> length (cl_inbox (vr_clients v1 ! j)) \<le> ?cap"
      using served(4,5) by simp
    assume keep
    then have "alive1" using later(2) by (simp add: keep_def)
    then show "client_ok (vr_config v) cl \<and> length (cl_inbox cl) \<le> ?cap"
      using later(1) served(5) assms(3) by (simp add: client_later_def)
  qed
  then show ?thesis using served(1-3) by (simp add: polled_def v' server_ok_def server_bounded_def)
qed

lemma poll_clients_bounded:
  assumes "fold (\<lambda>i. poll_client net d w (events i) i) (rev [0..<n]) (k, c, v) = (k', c', v')" and "server_ok v"
    and "n \<le> length (vr_clients v)"
  shows "polled 0 v v'"
  using assms
proof (induction n arbitrary: k c v)
  case (Suc n)
  obtain k1 c1 v1 where 1: "poll_client net d w (events n) n (k, c, v) = (k1, c1, v1)" by (metis prod_cases3)
  have "polled n v v1" by (rule poll_client_bounded [OF 1]) (use Suc.prems in simp_all)
  moreover from this have "polled 0 v1 v'"
    by (intro Suc.IH [of k1 c1 v1]) (use Suc.prems(1) 1 in \<open>simp_all add: polled_def\<close>)
  ultimately show ?case by (simp add: polled_def)
qed (simp add: polled_def)

lemma accept_bounded:
  fixes v :: "('w, 'g, 'n) control_server"
  assumes "accept_pending net v = Some v'" and "server_ok v"
  shows "polled (length (vr_clients v)) v v'"
proof (rule accept_pending.raw_induct [where P = "\<lambda>net v v'. server_ok v \<longrightarrow> polled (length (vr_clients v)) v v'",
      OF _ assms(1), THEN mp, OF _ assms(2)], rule impI)
  fix accept net and v v' :: "('w, 'g, 'n) control_server"
  assume hyp: "\<And>net v v'. accept net v = Some v' \<Longrightarrow> server_ok v \<longrightarrow> polled (length (vr_clients v)) v v'"
    and run: "(case net_accept net (vr_network v) of (connection, n) \<Rightarrow> (case connection of
        None \<Rightarrow> Some (v\<lparr> vr_network := n \<rparr>)
      | Some (sock, ready) \<Rightarrow> accept net (accepted sock ready (v\<lparr> vr_network := n \<rparr>)))) = Some v'"
    and v: "server_ok v"
  obtain connection n where accept: "net_accept net (vr_network v) = (connection, n)" by fastforce
  have ok: "server_ok (v\<lparr> vr_network := n \<rparr>)" using v by (simp add: server_ok_def server_bounded_def)
  show "polled (length (vr_clients v)) v v'"
  proof (cases connection)
    case None
    then have "v' = v\<lparr> vr_network := n \<rparr>" using run by (simp add: accept)
    then show ?thesis using ok by (simp add: polled_def)
  next
    case (Some p)
    obtain sock ready where p: "p = (sock, ready)" by fastforce
    let ?v = "accepted sock ready (v\<lparr> vr_network := n \<rparr>)"
    have one: "polled (length (vr_clients v)) v ?v"
      using ok by (auto simp: accepted_def polled_def server_ok_def server_bounded_def client_ok_def)
    have "accept net ?v = Some v'" using run by (simp add: accept Some p)
    then have "polled (length (vr_clients ?v)) ?v v'" by (rule hyp [THEN mp]) (use one in \<open>simp add: polled_def\<close>)
    with one show ?thesis by (auto simp: polled_def)
  qed
qed

text \<open>The loop ends if, from every state of the network, an accept fails at last.\<close>

definition accepts_end :: "'n network_operations \<Rightarrow> bool" where
  "accepts_end net \<longleftrightarrow> (\<forall>n. \<exists>k. fst (net_accept net (((\<lambda>n. snd (net_accept net n)) ^^ k) n)) = None)"

lemma accept_returns:
  fixes v :: "('w, 'g, 'n) control_server"
  assumes "accepts_end net"
  shows "\<exists>v'. accept_pending net v = Some v'"
proof -
  have "fst (net_accept net (((\<lambda>n. snd (net_accept net n)) ^^ k) (vr_network v))) = None \<Longrightarrow>
      \<exists>v'. accept_pending net v = Some v'" for k and v :: "('w, 'g, 'n) control_server"
  proof (induction k arbitrary: v)
    case 0
    then show ?case by (subst accept_pending.simps) (simp add: split_beta)
  next
    case (Suc k)
    obtain connection n where accept: "net_accept net (vr_network v) = (connection, n)" by fastforce
    show ?case
    proof (cases connection)
      case None
      then show ?thesis by (subst accept_pending.simps) (simp add: accept)
    next
      case (Some p)
      obtain sock ready where p: "p = (sock, ready)" by fastforce
      have "vr_network (accepted sock ready (v\<lparr> vr_network := n \<rparr>)) = n" by (simp add: accepted_def)
      then have "\<exists>v'. accept_pending net (accepted sock ready (v\<lparr> vr_network := n \<rparr>)) = Some v'"
        using Suc by (simp add: funpow_Suc_right accept del: funpow.simps(2))
      then show ?thesis by (subst accept_pending.simps) (simp add: accept Some p)
    qed
  qed
  then show ?thesis using assms unfolding accepts_end_def by blast
qed

lemma advance_bounded:
  assumes "server_ok v"
  shows "server_advance net d w (c, v) = Some (c', v') \<Longrightarrow> c' = c \<and> polled 0 v v'"
    and "\<not> benchmark_throws w (vr_service v) \<Longrightarrow> \<exists>v'. server_advance net d w (c, v) = Some (c, v')"
proof -
  have "(c' = c \<and> polled 0 v v') \<and> (\<exists>v'. server_advance net d w (c, v) = Some (c, v'))"
    if active: "benchmark_active (vr_service v)" "\<not> benchmark_throws w (vr_service v)"
      and run: "\<And>x. server_advance net d w (c, v) = Some x \<Longrightarrow> x = (c', v')" for c' v'
  proof -
    obtain es c1 s where step: "service_step d (Advanced (po_spent w) (po_slice_ns w) (vc_packets_per_poll (vr_config v)))
        (c, vr_service v) = Some (es, c1, s)" "simulated (vr_service v) es s"
      using step_total [of "vr_service v" d] assms by (metis server_ok_def)
    then obtain bd where bd: "advance_benchmark d (po_spent w) (po_slice_ns w) (vc_packets_per_poll (vr_config v)) c
        (vr_service v) = Some (bd, s)" by auto
    let ?v = "broadcast_events net d (advance_events bd) (v\<lparr> vr_service := s \<rparr>)"
    have "server_later v ?v"
      using server_later_trans [OF _ broadcast_events_later, of v "v\<lparr> vr_service := s \<rparr>"]
      by (simp add: server_later_def list.rel_refl)
    moreover have "service_ok (vr_service ?v)" using step(2) by (simp add: simulated_def)
    ultimately have "polled 0 v ?v"
      using server_later_ok [OF _ assms] by (simp add: polled_def server_later_def)
    moreover have "server_advance net d w (c, v) = Some (c, ?v)" using active by (simp add: server_advance_def bd)
    ultimately show ?thesis using run by fastforce
  qed
  note active = this
  have idle: "server_advance net d w (c, v) = Some (c, v) \<and> polled 0 v v" if "\<not> benchmark_active (vr_service v)"
    using that assms by (simp add: server_advance_def polled_def)
  have threw: "server_advance net d w (c, v) = None" if "benchmark_active (vr_service v)" "benchmark_throws w (vr_service v)"
    using that by (simp add: server_advance_def)
  show "server_advance net d w (c, v) = Some (c', v') \<Longrightarrow> c' = c \<and> polled 0 v v'"
    using active [of c' v'] idle threw by fastforce
  assume "\<not> benchmark_throws w (vr_service v)"
  then show "\<exists>v'. server_advance net d w (c, v) = Some (c, v')"
    using active idle by (metis option.exhaust option.inject surj_pair)
qed

text \<open>A poll that comes back leaves the server within its bounds; it does come back if no benchmark throws and
  the accepts end.\<close>

lemma poll_bounded:
  assumes "server_ok v"
  shows "server_poll net d w timeout (c, v) = Some (k, c', v') \<Longrightarrow>
      server_ok v' \<and> vr_config v' = vr_config v \<and> vr_listening v' = vr_listening v"
    and "accepts_end net \<Longrightarrow> \<not> benchmark_throws w (vr_service v) \<Longrightarrow> server_poll net d w timeout (c, v) \<noteq> None"
proof -
  have "(server_poll net d w timeout (c, v) = Some (k, c', v') \<longrightarrow>
      server_ok v' \<and> vr_config v' = vr_config v \<and> vr_listening v' = vr_listening v) \<and>
    (accepts_end net \<longrightarrow> server_poll net d w timeout (c, v) \<noteq> None)"
    if v1: "vr_listening v" "server_advance net d w (c, v) = Some (c, v1)" "polled 0 v v1" for v1 c' v' k
  proof -
    define v2 where "v2 = v1\<lparr> vr_clients := filter (\<lambda>cl. \<not> cl_congested cl) (vr_clients v1) \<rparr>"
    obtain ready n where ready: "net_poll net (map (\<lambda>cl. (cl_socket cl, cl_outbox cl \<noteq> [])) (vr_clients v2)) (poll_deadline timeout)
        (vr_network v2) = (ready, n)" by fastforce
    define v3 where "v3 = v2\<lparr> vr_network := n \<rparr>"
    define accept where "accept listener = (if listener \<noteq> {} then accept_pending net v3 else Some v3)" for listener :: "poll_flag set"
    have p3: "polled 0 v v3"
      using v1(3) by (auto simp: polled_def v3_def v2_def server_ok_def server_bounded_def
          intro: order_trans [OF length_filter_le])
    have poll: "server_poll net d w timeout (c, v) = (case ready of
         None \<Rightarrow> Some (0, c, v3)
       | Some (listener, events) \<Rightarrow> map_option (\<lambda>v. fold (\<lambda>i. poll_client net d (po_requests w) (events i) i)
           (rev [0..<length (vr_clients v3)]) (0, c, v)) (accept listener))"
      unfolding server_poll_def snd_conv v1(2) Option.bind.bind_lunit prod.case Let_def v2_def [symmetric] ready
        v3_def [symmetric] accept_def
      using v1(1) by simp
    show ?thesis
    proof (cases ready)
      case None
      then show ?thesis using poll p3 by (auto simp: polled_def)
    next
      case (Some r)
      obtain listener events where r: "r = (listener, events)" by (cases r)
      have comes: "accept listener \<noteq> None" if "accepts_end net"
        using accept_returns [OF that, of v3] by (auto simp: accept_def)
      have "server_ok v' \<and> vr_config v' = vr_config v \<and> vr_listening v' = vr_listening v"
        if v4: "accept listener = Some v4" and fold: "fold (\<lambda>i. poll_client net d (po_requests w) (events i) i)
          (rev [0..<length (vr_clients v3)]) (0, c, v4) = (k, c', v')" for v4
      proof -
        have p4: "polled (length (vr_clients v3)) v3 v4"
          using accept_bounded [of net v3 v4] v4 p3 by (auto simp: accept_def polled_def split: if_splits)
        have "polled 0 v4 v'"
          by (rule poll_clients_bounded [OF fold]) (use p4 in \<open>unfold polled_def, blast+\<close>)
        then show ?thesis using p3 p4 unfolding polled_def by argo
      qed
      then show ?thesis using comes by (auto simp: poll Some r)
    qed
  qed
  note listening = this
  have silent: "server_poll net d w timeout (c, v) = Some (0, c, v)" if "\<not> vr_listening v"
    using that by (simp add: server_poll_def)
  show "server_poll net d w timeout (c, v) = Some (k, c', v') \<Longrightarrow>
      server_ok v' \<and> vr_config v' = vr_config v \<and> vr_listening v' = vr_listening v"
  proof (cases "vr_listening v \<and> server_advance net d w (c, v) \<noteq> None")
    case True
    then obtain c1 v1 where 1: "server_advance net d w (c, v) = Some (c1, v1)" by auto
    from advance_bounded(1) [OF assms 1] 1 True listening [of v1 k c' v']
    show "server_poll net d w timeout (c, v) = Some (k, c', v') \<Longrightarrow>
      server_ok v' \<and> vr_config v' = vr_config v \<and> vr_listening v' = vr_listening v" by blast
  next
    case False
    have "server_poll net d w timeout (c, v) = None" if "vr_listening v" "server_advance net d w (c, v) = None"
      using that by (simp add: server_poll_def)
    with False show "server_poll net d w timeout (c, v) = Some (k, c', v') \<Longrightarrow>
      server_ok v' \<and> vr_config v' = vr_config v \<and> vr_listening v' = vr_listening v"
      using silent assms by (cases "vr_listening v"; cases "server_advance net d w (c, v)") auto
  qed
  assume "accepts_end net" "\<not> benchmark_throws w (vr_service v)"
  then show "server_poll net d w timeout (c, v) \<noteq> None"
    using silent advance_bounded [OF assms, where net = net and d = d and w = w and c = c] listening
    by (cases "vr_listening v") blast+
qed

end
