(* ===== verification/Control_Wire.thy ===== *)
theory Control_Wire
  imports Control_Server
begin

text \<open>
  What the control server puts on the wire. Its memory stays within its bounds whatever the network does;
  a message never contains the end of a line, so a reader finds the messages that were sent; and what a
  client receives is the messages of its outbox, whole and in order.
\<close>

section \<open>Runs of the server\<close>

datatype 'w server_input =
    Polled "'w poll_surroundings" int
  | PublishedAnalysis analysis_outcome
  | PublishedSupervision supervision_snapshot
  | ControllerChanged topology_controller

fun server_step ::
    "'n network_operations \<Rightarrow> 'd double_operations \<Rightarrow> 'w server_input \<Rightarrow> ('w, 'g, 'n) server_state
      \<Rightarrow> ('w, 'g, 'n) server_state option" where
  "server_step net d (Polled w timeout) (c, v) = map_option snd (server_poll net d w timeout (c, v))"
| "server_step net d (PublishedAnalysis out) (c, v) = Some (c, server_publish_analysis net d out c v)"
| "server_step net d (PublishedSupervision snapshot) (c, v) = Some (c, server_publish_supervision net d snapshot c v)"
| "server_step net d (ControllerChanged c') (c, v) = Some (c', v)"

fun server_run ::
    "'n network_operations \<Rightarrow> 'd double_operations \<Rightarrow> 'w server_input list \<Rightarrow> ('w, 'g, 'n) server_state
      \<Rightarrow> ('w, 'g, 'n) server_state option" where
  "server_run net d [] st = Some st"
| "server_run net d (i # is) st = Option.bind (server_step net d i st) (server_run net d is)"

lemma events_ok:
  assumes "server_ok v" and "service_ok s"
  shows "server_ok (broadcast_events net d es (v\<lparr> vr_service := s \<rparr>)) \<and>
    vr_config (broadcast_events net d es (v\<lparr> vr_service := s \<rparr>)) = vr_config v"
proof -
  have "server_ok (v\<lparr> vr_service := s \<rparr>)" using assms by (simp add: server_ok_def server_bounded_def)
  with broadcast_events_later [of "v\<lparr> vr_service := s \<rparr>" net d es] assms(2) show ?thesis
    using server_later_ok [of "v\<lparr> vr_service := s \<rparr>"] by (simp add: server_later_def)
qed

lemma publish_analysis_ok:
  fixes d :: "'d double_operations"
  assumes "server_ok v"
  shows "server_ok (server_publish_analysis net d out c v) \<and> vr_config (server_publish_analysis net d out c v) = vr_config v"
proof -
  obtain ad s where ad: "analysis_events out c (vr_service v) = (ad, s)" by fastforce
  have st: "stamped c (vr_service v) (analysis_event_list ad :: 'd control_event list) s" by (rule analysis_stamped [OF ad])
  have "service_ok s" using assms stamped_quiet [OF _ st analysis_quiet] by (simp add: server_ok_def simulated_def)
  from events_ok [OF assms this, of net d "analysis_event_list ad"] assms show ?thesis
    by (simp add: server_publish_analysis_def ad)
qed

lemma publish_supervision_ok:
  fixes d :: "'d double_operations"
  assumes "server_ok v"
  shows "server_ok (server_publish_supervision net d snapshot c v) \<and>
    vr_config (server_publish_supervision net d snapshot c v) = vr_config v"
proof -
  obtain e s where e: "supervision_stamp snapshot c (vr_service v) = (e, s)" by fastforce
  have st: "stamped c (vr_service v) [SupervisionEvent e :: 'd control_event] s" by (rule supervision_stamped [OF e])
  have "service_ok s" using assms stamped_quiet [OF _ st] by (simp add: server_ok_def simulated_def)
  from events_ok [OF assms this, of net d "[SupervisionEvent e]"] assms show ?thesis
    by (simp add: server_publish_supervision_def e)
qed

text \<open>No poll of the run has a benchmark's analyzer that throws.\<close>

definition devices_hold :: "'w server_input list \<Rightarrow> bool" where
  "devices_hold is \<longleftrightarrow> (\<forall>w timeout. Polled w timeout \<in> set is \<longrightarrow> \<not> po_device_fails w)"

lemma server_step_ok:
  assumes "server_ok v"
  shows "server_step net d i (c, v) = Some (c', v') \<Longrightarrow> server_ok v' \<and> vr_config v' = vr_config v"
    and "accepts_end net \<Longrightarrow> devices_hold [i] \<Longrightarrow> server_step net d i (c, v) \<noteq> None"
proof -
  show "server_step net d i (c, v) = Some (c', v') \<Longrightarrow> server_ok v' \<and> vr_config v' = vr_config v"
    using assms publish_analysis_ok [OF assms, of net d _ c] publish_supervision_ok [OF assms, of net d _ c]
      poll_bounded(1) [OF assms, of net d _ _ c]
    by (cases i) auto
  assume "accepts_end net" "devices_hold [i]"
  then show "server_step net d i (c, v) \<noteq> None"
    using poll_bounded(2) [OF assms, of net _ d _ c]
    by (cases i) (auto simp: devices_hold_def benchmark_throws_def)
qed

lemma server_run_ok:
  assumes "server_ok v"
  shows "server_run net d is (c, v) = Some (c', v') \<Longrightarrow> server_ok v' \<and> vr_config v' = vr_config v"
    and "accepts_end net \<Longrightarrow> devices_hold is \<Longrightarrow> server_run net d is (c, v) \<noteq> None"
  using assms
proof (induction "is" arbitrary: c v)
  case (Cons i "is")
  {
    case 1
    then obtain c1 v1 where step: "server_step net d i (c, v) = Some (c1, v1)" "server_run net d is (c1, v1) = Some (c', v')"
      by (auto split: bind_splits)
    with server_step_ok(1) [OF 1(2) step(1)] Cons.IH(1) [of c1 v1] show ?case by simp
  next
    case 2
    then have holds: "devices_hold [i]" "devices_hold is" by (auto simp: devices_hold_def)
    from server_step_ok(2) [OF 2(3) 2(1) holds(1)] obtain c1 v1 where step: "server_step net d i (c, v) = Some (c1, v1)"
      by fastforce
    with server_step_ok(1) [OF 2(3) step] Cons.IH(2) [of v1 c1] 2(1) holds(2) show ?case by simp
  }
qed simp_all


text \<open>A network for the witnesses: it delivers a request, takes what is sent three bytes at a time, and keeps it.\<close>

record example_network =
  xn_pending :: "string list"
  xn_connecting :: "nat list"
  xn_sent :: "nat \<Rightarrow> string"

definition example_operations :: "example_network network_operations" where
  "example_operations = \<lparr>
     net_receive = (\<lambda>sock n. case xn_pending n of [] \<Rightarrow> (Inl True, n) | s # ss \<Rightarrow> (Inr s, n\<lparr> xn_pending := ss \<rparr>)),
     net_send = (\<lambda>sock data n. ((min 3 (length data), True),
       n\<lparr> xn_sent := (xn_sent n)(sock := xn_sent n sock @ take 3 data) \<rparr>)),
     net_accept = (\<lambda>n. case xn_connecting n of [] \<Rightarrow> (None, n) | sock # socks \<Rightarrow> (Some (sock, True), n\<lparr> xn_connecting := socks \<rparr>)),
     net_poll = (\<lambda>watched timeout n. (Some ({PollRead}, \<lambda>i. {PollRead}), n)) \<rparr>"

definition example_server :: "(unit, unit, example_network) control_server" where
  "example_server = vr_new cs_new 9000 default_server_config
     \<lparr> xn_pending = [request_to_json (example_request GetSwitchState) @ [newline]], xn_connecting = [4], xn_sent = (\<lambda>_. []) \<rparr>"

definition example_poll :: "unit server_input" where
  "example_poll = Polled \<lparr> po_requests = example_surroundings, po_spent = (\<lambda>_. 0), po_slice_ns = 0, po_device_fails = False \<rparr> 0"

lemma example_server_ok: "server_ok example_server"
  by (simp add: server_ok_def server_bounded_def example_server_def vr_new_def service_ok_new)

lemma example_accepts_end: "accepts_end example_operations"
proof -
  let ?next = "\<lambda>n. snd (net_accept example_operations n)"
  have "\<exists>k. fst (net_accept example_operations ((?next ^^ k) n)) = None" for n
  proof (induction "xn_connecting n" arbitrary: n)
    case Nil
    then show ?case by (intro exI [of _ 0]) (simp add: example_operations_def)
  next
    case (Cons sock socks)
    from Cons(2) have "xn_connecting (?next n) = socks" by (simp add: example_operations_def Cons(2) [symmetric])
    then obtain k where "fst (net_accept example_operations ((?next ^^ k) (?next n))) = None" using Cons(1) by blast
    then show ?case by (intro exI [of _ "Suc k"]) (simp add: funpow_Suc_right del: funpow.simps(2))
  qed
  then show ?thesis by (simp add: accepts_end_def)
qed


section \<open>Lines\<close>

text \<open>A text that is a line of its own: it has an end, and none inside.\<close>

definition line_safe :: "string \<Rightarrow> bool" where
  "line_safe s \<longleftrightarrow> s \<noteq> [] \<and> newline \<notin> set s \<and> last s \<noteq> CHR 0x0D"

lemma line_safe_message: "line_safe s \<Longrightarrow> line_messages s = [s]"
  by (simp add: line_safe_def line_messages_def without_return_def)

lemma take_lines:
  assumes "list_all line_safe ms"
  shows "take_messages (concat (map (\<lambda>m. m @ [newline]) ms)) = (ms, [])"
  using assms
proof (induction ms)
  case (Cons m ms)
  then show ?case
    using take_messages_line [of m "concat (map (\<lambda>m. m @ [newline]) ms)"] line_safe_message [of m]
    by (simp add: line_safe_def)
qed (simp add: without_newline)

lemma hex_char_no_newline: "d < 16 \<Longrightarrow> hex_char d \<noteq> newline"
  using hex_digit_char [of d] by (auto simp: hex_digit_def)

lemma hex_no_newline: "newline \<notin> set (hex_of_nat n)"
proof (induction n rule: hex_of_nat.induct)
  case (1 n)
  then show ?case using hex_char_no_newline [of n] hex_char_no_newline [of "n mod 16"]
    by (subst hex_of_nat.simps) auto
qed

lemma json_char_no_newline: "newline \<notin> set (json_char c)"
  using hex_no_newline by (auto simp: json_char_def pad_zero_def)

lemma json_string_no_newline [simp]: "newline \<notin> set (json_string s)"
  using json_char_no_newline by (auto simp: json_string_def)

lemma dec_no_newline [simp]: "newline \<notin> set (dec_of_nat n)"
  using clean_facts(7) [OF clean_digits] .

lemma uint_no_newline [simp]: "newline \<notin> set (uint_text w)"
  by (simp add: uint_text_def)

lemma int_no_newline [simp]: "newline \<notin> set (int_text n)"
  by (simp add: int_text_def)

lemma bool_no_newline [simp]: "newline \<notin> set (bool_text b)"
  by (simp add: bool_text_def)

lemma reply_line: "line_safe (reply_to_json rp)"
  by (simp add: line_safe_def reply_to_json_def)

lemma elements_no_newline: "\<forall>x \<in> set xs. newline \<notin> set x \<Longrightarrow> newline \<notin> set (json_elements xs)"
  by (induction xs rule: json_elements.induct) auto

text \<open>Every event but a result is a line; a result is one if its floating-point numbers are.\<close>

lemma header_no_newline [simp]: "newline \<notin> set (header_text e)"
  by (simp add: header_text_def)

lemma anomaly_no_newline [simp]: "newline \<notin> set (anomaly_json a)"
  by (simp add: anomaly_json_def)

lemma configuration_no_newline [simp]: "newline \<notin> set (configuration_text c)"
  by (simp add: configuration_text_def)

lemma ending_line: "newline \<notin> set s \<Longrightarrow> line_safe (s @ ''}}}'')"
  by (simp add: line_safe_def)

lemma result_line:
  assumes "\<forall>v. newline \<notin> set (db_fixed6 d v)"
  shows "line_safe (result_to_json d r)"
proof -
  have [simp]: "newline \<notin> set (json_number d v)" for v using assms by (simp add: json_number_def)
  show ?thesis
    unfolding result_to_json_def Let_def append_assoc [symmetric]
    by (rule ending_line) (unfold set_append Un_iff de_Morgan_disj, intro conjI, simp_all)
qed

lemma event_line:
  assumes "\<forall>v. newline \<notin> set (db_fixed6 d v)"
  shows "line_safe (event_text d e)"
proof (cases e)
  case (TopologyEvent t)
  have "newline \<notin> set (json_elements (map (\<lambda>n. ''{\"id\":'' @ json_string (node_id n) @ '',\"type\":'' @
      json_string (node_type_text (node_type n)) @ ''}'') (te_nodes t)))"
    by (rule elements_no_newline) auto
  moreover have "newline \<notin> set (json_elements (map (\<lambda>l. ''{\"from\":'' @ json_string (link_from l) @ '',\"to\":'' @
      json_string (link_to l) @ '',\"latency_ms\":'' @ int_text (link_latency_ms l) @ ''}'') (te_links t)))"
    by (rule elements_no_newline) auto
  ultimately show ?thesis by (simp add: TopologyEvent event_text_def line_safe_def topology_to_json_def)
next
  case (SupervisionEvent v)
  have "newline \<notin> set (json_elements (map (\<lambda>(port, ep). ''{\"port_id\":'' @ json_string port @ '',\"endpoint\":'' @
      json_string ep @ ''}'') (se_bindings v)))"
    by (rule elements_no_newline) auto
  then show ?thesis by (simp add: SupervisionEvent event_text_def line_safe_def supervision_to_json_def)
next
  case (MetricsEvent m)
  show ?thesis by (simp add: MetricsEvent event_text_def line_safe_def metrics_to_json_def Let_def)
next
  case (FaultEvent f)
  show ?thesis by (simp add: FaultEvent event_text_def line_safe_def fault_to_json_def)
next
  case (ProgressEvent p)
  show ?thesis by (simp add: ProgressEvent event_text_def line_safe_def progress_to_json_def)
next
  case (ResultEvent r)
  show ?thesis using result_line [OF assms] by (simp add: ResultEvent event_text_def)
next
  case (AnomalyDetected a)
  show ?thesis by (simp add: AnomalyDetected event_text_def line_safe_def anomaly_to_json_def)
next
  case (PolicyAction q)
  show ?thesis by (simp add: PolicyAction event_text_def line_safe_def policy_to_json_def Let_def)
qed

section \<open>What clients receive\<close>

text \<open>The documented behaviour of \<open>send\<close> on a connected stream: it takes a beginning of the data, which the peer
  of that socket gets behind what it got before, and no one else gets anything.\<close>

definition delivers :: "'n network_operations \<Rightarrow> (nat \<Rightarrow> 'n \<Rightarrow> string) \<Rightarrow> bool" where
  "delivers net got \<longleftrightarrow> (\<forall>sock data n k blocked n'. net_send net sock data n = ((k, blocked), n') \<longrightarrow>
     k \<le> length data \<and> got sock n' = got sock n @ take k data \<and> (\<forall>s. s \<noteq> sock \<longrightarrow> got s n' = got s n))"

text \<open>What a client got and what it is still owed.\<close>

definition stream :: "(nat \<Rightarrow> 'n \<Rightarrow> string) \<Rightarrow> client \<Rightarrow> 'n \<Rightarrow> string" where
  "stream got c n = got (cl_socket c) n @ cl_outbox c"

lemma flush_from_stream:
  assumes "delivers net got" and "flush_from net sent c n = (ok, c', n')" and "sent \<le> length (cl_outbox c)"
  shows "got (cl_socket c) n' @ cl_outbox c' = got (cl_socket c) n @ drop sent (cl_outbox c) \<and>
    cl_socket c' = cl_socket c \<and> (\<forall>s. s \<noteq> cl_socket c \<longrightarrow> got s n' = got s n)"
  using assms
proof (induction net sent c n rule: flush_from.induct)
  case (1 net sent c n)
  show ?case
  proof (cases "sent < length (cl_outbox c)")
    case True
    obtain k blocked n1 where r: "net_send net (cl_socket c) (drop sent (cl_outbox c)) n = ((k, blocked), n1)"
      by (metis surj_pair)
    have d: "k \<le> length (cl_outbox c) - sent" "got (cl_socket c) n1 = got (cl_socket c) n @ take k (drop sent (cl_outbox c))"
      "\<forall>s. s \<noteq> cl_socket c \<longrightarrow> got s n1 = got s n"
      using "1.prems"(1) [unfolded delivers_def, rule_format, OF r] by simp_all
    show ?thesis
    proof (cases "k = 0")
      case True
      with \<open>sent < length (cl_outbox c)\<close> "1.prems"(2) d show ?thesis
        by (subst (asm) flush_from.simps) (auto simp: r)
    next
      case False
      then have "flush_from net (sent + k) c n1 = (ok, c', n')"
        using "1.prems"(2) True by (subst (asm) flush_from.simps) (simp add: r)
      moreover have "sent + k \<le> length (cl_outbox c)" using d(1) True by simp
      ultimately have "got (cl_socket c) n' @ cl_outbox c' = got (cl_socket c) n1 @ drop (sent + k) (cl_outbox c) \<and>
          cl_socket c' = cl_socket c \<and> (\<forall>s. s \<noteq> cl_socket c \<longrightarrow> got s n' = got s n1)"
        using "1.IH" [OF True r [symmetric] refl False "1.prems"(1)] by blast
      moreover have "take k (drop sent (cl_outbox c)) @ drop (sent + k) (cl_outbox c) = drop sent (cl_outbox c)"
        using append_take_drop_id [of k "drop sent (cl_outbox c)"] by (simp add: add.commute)
      ultimately show ?thesis using d(2,3) by simp
    qed
  next
    case False
    then show ?thesis using "1.prems" by (subst (asm) flush_from.simps) auto
  qed
qed

lemma flush_stream:
  assumes "delivers net got" and "flush_client net c n = (ok, c', n')"
  shows "stream got c' n' = stream got c n" and "cl_socket c' = cl_socket c" and "s \<noteq> cl_socket c \<Longrightarrow> got s n' = got s n"
  using flush_from_stream [OF assms(1) assms(2) [unfolded flush_client_def]] by (simp_all add: stream_def)

lemma enqueue_stream:
  "\<not> cl_congested (enqueue config m c) \<Longrightarrow> \<not> cl_congested c \<and> stream got (enqueue config m c) n = stream got c n @ m @ [newline]"
  by (auto simp: enqueue_def stream_def split: if_splits)

lemma enqueue_socket [simp]: "cl_socket (enqueue config m c) = cl_socket c"
  by (simp add: enqueue_def)

text \<open>A message to everyone: who can take it has it behind everything else, and everyone else has what it had.\<close>

definition got_message :: "(nat \<Rightarrow> 'n \<Rightarrow> string) \<Rightarrow> string \<Rightarrow> 'n \<Rightarrow> 'n \<Rightarrow> client \<Rightarrow> client \<Rightarrow> bool" where
  "got_message got bytes n n' c c' \<longleftrightarrow> cl_socket c' = cl_socket c \<and>
     (\<not> cl_congested c' \<longrightarrow> \<not> cl_congested c \<and> stream got c' n' = stream got c n @ bytes)"

lemma got_message_trans:
  "got_message got b1 n n1 c c1 \<Longrightarrow> got_message got b2 n1 n2 c1 c2 \<Longrightarrow> got_message got (b1 @ b2) n n2 c c2"
  by (auto simp: got_message_def)

lemma broadcast_to_stream:
  assumes "delivers net got" and "distinct (map cl_socket cs)" and "broadcast_to net config m cs n = (cs', n')"
  shows "list_all2 (got_message got (m @ [newline]) n n') cs cs' \<and> (\<forall>s. s \<notin> cl_socket ` set cs \<longrightarrow> got s n' = got s n)"
  using assms(2,3)
proof (induction cs arbitrary: n cs' n')
  case (Cons c cs)
  let ?c = "enqueue config m c"
  obtain c1 n1 where 1: "(if cl_outbox ?c \<noteq> [] then snd (flush_client net ?c n) else (?c, n)) = (c1, n1)" by fastforce
  obtain cs1 n2 where 2: "broadcast_to net config m cs n1 = (cs1, n2)" by fastforce
  have out: "cs' = c1 # cs1" "n' = n2" using Cons.prems(2) 1 2 by (simp_all add: Let_def)
  obtain ok fc fn where f: "flush_client net ?c n = (ok, fc, fn)" by (metis prod_cases3)
  have c1: "stream got c1 n1 = stream got ?c n" "cl_socket c1 = cl_socket c" "cl_congested c1 = cl_congested ?c"
    and others: "\<forall>s. s \<noteq> cl_socket c \<longrightarrow> got s n1 = got s n"
    using 1 f flush_stream [OF assms(1) f] flush_later(2) [OF f] by (auto split: if_splits)
  have "list_all2 (got_message got (m @ [newline]) n1 n2) cs cs1"
    and rest: "\<forall>s. s \<notin> cl_socket ` set cs \<longrightarrow> got s n2 = got s n1"
    using Cons.IH [OF _ 2] Cons.prems(1) by simp_all
  moreover have "got s n1 = got s n" if "s \<in> cl_socket ` set cs" for s
  proof -
    have "s \<noteq> cl_socket c" using that Cons.prems(1) by (intro notI) simp
    then show ?thesis using others by blast
  qed
  ultimately have "list_all2 (got_message got (m @ [newline]) n n') cs cs1"
    unfolding out by (auto simp: list_all2_conv_all_nth got_message_def stream_def)
  moreover have "got (cl_socket c) n2 = got (cl_socket c) n1" using rest Cons.prems(1) by auto
  then have "got_message got (m @ [newline]) n n' c c1"
    using c1 enqueue_stream [of config m c got n] by (auto simp: got_message_def out stream_def)
  ultimately show ?case using rest others by (simp add: out)
qed simp

definition server_got :: "(nat \<Rightarrow> 'n \<Rightarrow> string) \<Rightarrow> string \<Rightarrow> ('w, 'g, 'n) control_server \<Rightarrow> ('w, 'g, 'n) control_server \<Rightarrow> bool" where
  "server_got got bytes v v' \<longleftrightarrow> list_all2 (got_message got bytes (vr_network v) (vr_network v')) (vr_clients v) (vr_clients v')"

lemma server_got_sockets: "server_got got bytes v v' \<Longrightarrow> map cl_socket (vr_clients v') = map cl_socket (vr_clients v)"
  by (auto simp: server_got_def list_all2_conv_all_nth got_message_def intro: nth_equalityI)

lemma server_got_refl: "server_got got [] v v"
  by (simp add: server_got_def got_message_def list.rel_refl)

lemma server_got_trans:
  assumes "server_got got b1 v v1" and "server_got got b2 v1 v2"
  shows "server_got got (b1 @ b2) v v2"
proof -
  have len: "length (vr_clients v) = length (vr_clients v1)" "length (vr_clients v1) = length (vr_clients v2)"
    using assms by (simp_all add: server_got_def list_all2_lengthD)
  have "got_message got (b1 @ b2) (vr_network v) (vr_network v2) (vr_clients v ! i) (vr_clients v2 ! i)"
    if "i < length (vr_clients v)" for i
    by (rule got_message_trans) (use assms that len in \<open>auto simp: server_got_def list_all2_conv_all_nth\<close>)
  then show ?thesis using len by (simp add: server_got_def list_all2_conv_all_nth)
qed

lemma broadcast_stream:
  assumes "delivers net got" and "distinct (map cl_socket (vr_clients v))"
  shows "server_got got (m @ [newline]) v (broadcast net m v)"
proof -
  obtain cs n where b: "broadcast_to net (vr_config v) m (vr_clients v) (vr_network v) = (cs, n)" by fastforce
  show ?thesis using broadcast_to_stream [OF assms b] by (simp add: broadcast_def b server_got_def)
qed

lemma broadcast_events_stream:
  assumes "delivers net got" and "distinct (map cl_socket (vr_clients v))"
  shows "server_got got (concat (map (\<lambda>e. event_text d e @ [newline]) es)) v (broadcast_events net d es v)"
  using assms(2)
proof (induction es arbitrary: v)
  case (Cons e es)
  let ?v = "broadcast net (event_text d e) v"
  have 1: "server_got got (event_text d e @ [newline]) v ?v" by (rule broadcast_stream [OF assms(1) Cons.prems])
  have "distinct (map cl_socket (vr_clients ?v))" using server_got_sockets [OF 1] Cons.prems by simp
  from server_got_trans [OF 1 Cons.IH [OF this]] show ?case by (simp add: broadcast_events_def)
qed (simp add: broadcast_events_def server_got_refl)

text \<open>C12. A request is answered to the client that made it and its events are told to all clients: every client
  that keeps reading gets, behind everything it was sent before, nothing but these messages, whole and in
  order, the one that asked its reply first; and what was added is read back line by line as exactly
  the reply and the events. The network is assumed to be a stream, and numbers to print on one line.\<close>

theorem request_is_answered:
  assumes "delivers net got" and "distinct (map cl_socket (vr_clients v))" and "\<forall>x. newline \<notin> set (db_fixed6 d x)"
    and "cs_dispatch d w request c (vr_service v) = (dp, c', s')"
    and "server_handle net d w i request (c, v) = (c', v')"
    and "j < length (vr_clients v)" and "\<not> cl_congested (vr_clients v' ! j)"
  shows "\<exists>bytes. stream got (vr_clients v' ! j) (vr_network v') = stream got (vr_clients v ! j) (vr_network v) @ bytes \<and>
    take_messages bytes =
      ((if j = i then [reply_to_json (dp_reply dp)] else []) @ map (event_text d) (dispatch_events dp), [])"
proof -
  let ?reply = "reply_to_json (dp_reply dp)" and ?es = "map (event_text d) (dispatch_events dp)"
  let ?v = "v\<lparr> vr_service := s', vr_clients := (vr_clients v)[i := enqueue (vr_config v) ?reply (vr_clients v ! i)] \<rparr>"
  have v': "v' = broadcast_events net d (dispatch_events dp) ?v" using assms(5) by (simp add: server_handle_def assms(4))
  have "map cl_socket (vr_clients ?v) = map cl_socket (vr_clients v)"
    by (cases "i < length (vr_clients v)") (simp_all add: map_update list_update_same_conv list_update_beyond)
  then have "distinct (map cl_socket (vr_clients ?v))" using assms(2) by simp
  from broadcast_events_stream [OF assms(1) this, of d "dispatch_events dp"]
  have b: "got_message got (concat (map (\<lambda>m. m @ [newline]) ?es)) (vr_network v) (vr_network v')
      (vr_clients ?v ! j) (vr_clients v' ! j)"
    using assms(6) by (simp add: v' server_got_def list_all2_conv_all_nth comp_def)
  let ?ms = "(if j = i then [?reply] else []) @ ?es"
  have "stream got (vr_clients ?v ! j) (vr_network v) =
      stream got (vr_clients v ! j) (vr_network v) @ concat (map (\<lambda>m. m @ [newline]) (if j = i then [?reply] else []))"
    using b assms(6,7) enqueue_stream [of "vr_config v" ?reply "vr_clients v ! i" got "vr_network v"]
    by (auto simp: got_message_def nth_list_update)
  then have "stream got (vr_clients v' ! j) (vr_network v') =
      stream got (vr_clients v ! j) (vr_network v) @ concat (map (\<lambda>m. m @ [newline]) ?ms)"
    using b assms(7) by (simp add: got_message_def)
  moreover have "list_all line_safe ?ms"
    by (auto simp: list_all_iff intro: event_line [OF assms(3)] reply_line)
  ultimately show ?thesis using take_lines by blast
qed

lemma example_delivers: "delivers example_operations (\<lambda>sock n. xn_sent n sock)"
  by (auto simp: delivers_def example_operations_def min_def)

definition example_doubles :: "unit double_operations" where
  "example_doubles = \<lparr> db_of = (\<lambda>_. ()), db_literal = (\<lambda>_. ()), db_times = (\<lambda>_ _. ()), db_divide = (\<lambda>_ _. ()),
     db_equal = (\<lambda>_ _. True), db_finite = (\<lambda>_. True), db_fixed6 = (\<lambda>_. ''0.000000'') \<rparr>"

text \<open>A server with one client and room for the two messages.\<close>

definition example_connected :: "nat \<Rightarrow> (unit, unit, example_network) control_server" where
  "example_connected room = example_server\<lparr> vr_config := default_server_config\<lparr> vc_max_pending_bytes := room \<rparr>,
     vr_clients := [\<lparr> cl_socket = 4, cl_inbox = [], cl_outbox = [], cl_congested = False \<rparr>] \<rparr>"

theorem request_is_answered_witness:
  "\<exists>room c' v' reply event. server_handle example_operations example_doubles example_surroundings 0
      (request_to_json (example_request GetSwitchState)) (tc_new 7, example_connected room) = (c', v') \<and>
    (\<exists>bytes. stream (\<lambda>sock n. xn_sent n sock) (vr_clients v' ! 0) (vr_network v') = bytes \<and>
      take_messages bytes = ([reply, event], []))"
proof -
  let ?json = "request_to_json (example_request GetSwitchState)"
  obtain rp m s' where run: "cs_dispatch example_doubles example_surroundings ?json (tc_new 7) (vr_service example_server) =
      ((dispatch_of rp)\<lparr> dp_metrics := Some m \<rparr>, tc_new 7, s')"
    using example_request_read [of GetSwitchState]
    by (auto simp: cs_dispatch_def handle_request_def switch_state_def next_sequence_def current_revision_def
        example_server_def vr_new_def cs_new_def cs_detached_def tc_new_def)
  define reply where "reply = reply_to_json rp"
  define event where "event = event_text example_doubles (MetricsEvent m)"
  define v where "v = example_connected (length reply + length event + 2)"
  have service: "vr_service v = vr_service example_server" by (simp add: v_def example_connected_def)
  have run': "cs_dispatch example_doubles example_surroundings ?json (tc_new 7) (vr_service v) =
      ((dispatch_of rp)\<lparr> dp_metrics := Some m \<rparr>, tc_new 7, s')" unfolding service by (rule run)
  obtain v' where handle: "server_handle example_operations example_doubles example_surroundings 0 ?json (tc_new 7, v) = (tc_new 7, v')"
    by (simp add: server_handle_def run')
  let ?c = "\<lparr> cl_socket = 4, cl_inbox = [], cl_outbox = [], cl_congested = False \<rparr>"
  let ?c2 = "enqueue (vr_config v) event (enqueue (vr_config v) reply ?c)"
  obtain ok c3 n3 where flush: "flush_client example_operations ?c2 (vr_network v) = (ok, c3, n3)" by (metis prod_cases3)
  have fits: "\<not> cl_congested ?c2" "cl_outbox ?c2 \<noteq> []"
    by (simp_all add: enqueue_def v_def example_connected_def)
  have "vr_clients v' = [c3]"
    using handle run flush fits(2)
    by (auto simp: server_handle_def service broadcast_events_def broadcast_def reply_def [symmetric] event_def [symmetric]
        v_def example_connected_def)
  then have free: "\<not> cl_congested (vr_clients v' ! 0)" using flush_later(2) [OF flush] fits(1) by simp
  have "distinct (map cl_socket (vr_clients v))" "0 < length (vr_clients v)" "\<forall>x. newline \<notin> set (db_fixed6 example_doubles x)"
    by (simp_all add: v_def example_connected_def example_doubles_def)
  from request_is_answered [OF example_delivers this(1,3) run' handle this(2) free]
  have "\<exists>bytes. stream (\<lambda>sock n. xn_sent n sock) (vr_clients v' ! 0) (vr_network v') = bytes \<and>
      take_messages bytes = ([reply, event], [])"
    by (simp add: reply_def event_def stream_def v_def example_connected_def example_server_def vr_new_def)
  with handle show ?thesis unfolding v_def by blast
qed

end
