(* ===== verification/Control_Client.thy ===== *)
theory Control_Client
  imports Control_Wire
begin

text \<open>
  The other end of the control channel, \<open>ControlClient\<close> of \<^verbatim>\<open>src/control_server.cpp\<close>: it sends a request,
  waits for its reply and keeps every other message as an event. Waiting, the steady clock and connecting
  are the system's, \<open>client_operations\<close>. A loop that waits for the network need not end, so the loops
  are partial functions, and their result is \<open>None\<close> when they do not return.
\<close>

section \<open>Model\<close>

record 'n client_operations =
  co_wait :: "nat \<Rightarrow> poll_flag \<Rightarrow> int \<Rightarrow> 'n \<Rightarrow> int \<times> 'n"
  co_now :: "'n \<Rightarrow> int \<times> 'n"
  co_connect :: "string \<Rightarrow> u16 \<Rightarrow> 'n \<Rightarrow> (transport_error + nat) \<times> 'n"

record control_client =
  cc_socket :: "nat option"
  cc_address :: string
  cc_port :: u16
  cc_revision :: u64
  cc_inbox :: string

definition cc_connect ::
    "'n client_operations \<Rightarrow> string \<Rightarrow> u16 \<Rightarrow> 'n \<Rightarrow> (transport_error + control_client) \<times> 'n" where
  "cc_connect os address port n =
     (case co_connect os address port n of
        (Inl e, n) \<Rightarrow> (Inl e, n)
      | (Inr sock, n) \<Rightarrow>
          (Inr \<lparr> cc_socket = Some sock, cc_address = address, cc_port = port, cc_revision = 0, cc_inbox = [] \<rparr>, n))"

definition cc_close :: "control_client \<Rightarrow> control_client" where
  "cc_close cl = cl\<lparr> cc_socket := None, cc_inbox := [] \<rparr>"

definition cc_reconnect ::
    "'n client_operations \<Rightarrow> control_client \<Rightarrow> 'n \<Rightarrow> (transport_error + unit) \<times> control_client \<times> 'n" where
  "cc_reconnect os cl n =
     (let cl = cc_close cl in
      case cc_connect os (cc_address cl) (cc_port cl) n of
        (Inl e, n) \<Rightarrow> (Inl e, cl, n)
      | (Inr fresh, n) \<Rightarrow> (Inr (), cl\<lparr> cc_socket := cc_socket fresh \<rparr>, n))"

text \<open>The loop of \<open>send\<close>, with a wait of at most a second when the socket takes nothing.\<close>

partial_function (option) cc_send_loop ::
    "'n network_operations \<Rightarrow> 'n client_operations \<Rightarrow> nat \<Rightarrow> string \<Rightarrow> 'n \<Rightarrow> ((transport_error + unit) \<times> 'n) option" where
  "cc_send_loop net os sock message n =
     (if message = [] then Some (Inr (), n)
      else case net_send net sock message n of
        ((k, blocked), n) \<Rightarrow>
          if k > 0 then cc_send_loop net os sock (drop k message) n
          else if \<not> blocked then Some (Inl SendFailed, n)
          else case co_wait os sock PollWrite (poll_deadline 1000) n of
            (ready, n) \<Rightarrow> if ready < 0 then Some (Inl SendFailed, n) else cc_send_loop net os sock message n)"

definition cc_send ::
    "'n network_operations \<Rightarrow> 'n client_operations \<Rightarrow> string \<Rightarrow> control_client \<Rightarrow> 'n \<Rightarrow> ((transport_error + unit) \<times> 'n) option" where
  "cc_send net os json cl n =
     (case cc_socket cl of
        None \<Rightarrow> Some (Inl InvalidSocket, n)
      | Some sock \<Rightarrow> cc_send_loop net os sock (json @ [newline]) n)"

text \<open>The loop of \<open>receive\<close> on an inbox; the cap of the buffer is the largest \<open>size_t\<close>.\<close>

type_synonym 'n received = "(transport_error + string option) \<times> string \<times> 'n"

partial_function (option) cc_receive_loop ::
    "'n network_operations \<Rightarrow> 'n client_operations \<Rightarrow> int \<Rightarrow> nat \<Rightarrow> string \<Rightarrow> 'n \<Rightarrow> 'n received option" where
  "cc_receive_loop net os deadline sock inbox n =
     (case take_message inbox of
        (Some m, inbox) \<Rightarrow> Some (Inr (Some m), inbox, n)
      | (None, inbox) \<Rightarrow>
          (case co_now os n of
             (now, n) \<Rightarrow>
               if ms_count (deadline - now) < 0 then Some (Inr None, inbox, n)
               else case co_wait os sock PollRead (poll_deadline (ms_count (deadline - now))) n of
                 (ready, n) \<Rightarrow>
                   if ready < 0 then Some (Inl TransportReceiveFailed, inbox, n)
                   else if ready = 0 then Some (Inr None, inbox, n)
                   else case drain net (2 ^ 64 - 1) sock inbox n of
                     (ok, inbox, n) \<Rightarrow>
                       if ok then cc_receive_loop net os deadline sock inbox n
                       else Some (Inl Disconnected, inbox, n)))"

definition cc_receive ::
    "'n network_operations \<Rightarrow> 'n client_operations \<Rightarrow> int \<Rightarrow> control_client \<Rightarrow> 'n
      \<Rightarrow> ((transport_error + string option) \<times> control_client \<times> 'n) option" where
  "cc_receive net os timeout cl n =
     (case cc_socket cl of
        None \<Rightarrow> Some (Inl InvalidSocket, cl, n)
      | Some sock \<Rightarrow>
          let (now, n) = co_now os n in
          map_option (\<lambda>(r, inbox, n). (r, cl\<lparr> cc_inbox := inbox \<rparr>, n))
            (cc_receive_loop net os (now + timeout * 1000000) sock (cc_inbox cl) n))"

text \<open>The messages that are not the answer to the query are kept in order.\<close>

definition answer_to :: "string \<Rightarrow> string \<Rightarrow> control_reply option" where
  "answer_to request_id message =
     (case control_reply_from_json message of
        Inl _ \<Rightarrow> None
      | Inr reply \<Rightarrow> if rp_id reply = request_id then Some reply else None)"

type_synonym 'n queried = "(transport_error + control_reply) \<times> string list \<times> control_client \<times> 'n"

partial_function (option) cc_query_loop ::
    "'n network_operations \<Rightarrow> 'n client_operations \<Rightarrow> string \<Rightarrow> int \<Rightarrow> string list \<Rightarrow> control_client \<Rightarrow> 'n \<Rightarrow> 'n queried option" where
  "cc_query_loop net os request_id deadline events cl n =
     (case co_now os n of
        (now, n) \<Rightarrow>
          if ms_count (deadline - now) \<le> 0 then Some (Inl Timeout, events, cl, n)
          else Option.bind (cc_receive net os (ms_count (deadline - now)) cl n) (\<lambda>(r, cl, n).
            case r of
              Inl e \<Rightarrow> Some (Inl e, events, cl, n)
            | Inr None \<Rightarrow> Some (Inl Timeout, events, cl, n)
            | Inr (Some m) \<Rightarrow>
                (case answer_to request_id m of
                   None \<Rightarrow> cc_query_loop net os request_id deadline (events @ [m]) cl n
                 | Some reply \<Rightarrow> Some (Inr reply, events, cl, n))))"

definition cc_query ::
    "'n network_operations \<Rightarrow> 'n client_operations \<Rightarrow> control_command \<Rightarrow> string \<Rightarrow> int \<Rightarrow> string list \<Rightarrow> control_client \<Rightarrow> 'n
      \<Rightarrow> 'n queried option" where
  "cc_query net os command request_id deadline events cl n =
     (let rq = default_request\<lparr> rq_id := request_id, rq_command := command, rq_revision := cc_revision cl \<rparr> in
      Option.bind (cc_send net os (request_to_json rq) cl n) (\<lambda>(r, n).
        case r of
          Inl e \<Rightarrow> Some (Inl e, events, cl, n)
        | Inr _ \<Rightarrow> cc_query_loop net os request_id deadline events cl n))"

text \<open>One query of \<open>resync\<close>, twice at most; the counter numbers the requests.\<close>

fun cc_attempts ::
    "nat \<Rightarrow> 'n network_operations \<Rightarrow> 'n client_operations \<Rightarrow> control_command \<Rightarrow> int
      \<Rightarrow> u32 \<times> string list \<times> control_client \<times> 'n \<Rightarrow> ((transport_error + unit) \<times> u32 \<times> string list \<times> control_client \<times> 'n) option" where
  "cc_attempts 0 net os command deadline st = Some (Inr (), st)"
| "cc_attempts (Suc left) net os command deadline (k, events, cl, n) =
     Option.bind (cc_query net os command (''resync-'' @ uint_text (k + 1)) deadline events cl n) (\<lambda>(r, events, cl, n).
       case r of
         Inl e \<Rightarrow> Some (Inl e, k + 1, events, cl, n)
       | Inr reply \<Rightarrow>
           let moved = rp_revision reply \<noteq> cc_revision cl; cl = cl\<lparr> cc_revision := rp_revision reply \<rparr> in
           if rp_accepted reply \<or> \<not> moved then Some (Inr (), k + 1, events, cl, n)
           else cc_attempts left net os command deadline (k + 1, events, cl, n))"

fun cc_queries ::
    "control_command list \<Rightarrow> 'n network_operations \<Rightarrow> 'n client_operations \<Rightarrow> int
      \<Rightarrow> u32 \<times> string list \<times> control_client \<times> 'n \<Rightarrow> ((transport_error + unit) \<times> u32 \<times> string list \<times> control_client \<times> 'n) option" where
  "cc_queries [] net os deadline st = Some (Inr (), st)"
| "cc_queries (command # commands) net os deadline st =
     Option.bind (cc_attempts 2 net os command deadline st) (\<lambda>(r, st).
       case r of Inl e \<Rightarrow> Some (Inl e, st) | Inr _ \<Rightarrow> cc_queries commands net os deadline st)"

text \<open>The events that settle within fifty milliseconds of each other, until the deadline.\<close>

partial_function (option) cc_settle ::
    "'n network_operations \<Rightarrow> 'n client_operations \<Rightarrow> int \<Rightarrow> string list \<Rightarrow> control_client \<Rightarrow> 'n
      \<Rightarrow> ((transport_error + string list) \<times> control_client \<times> 'n) option" where
  "cc_settle net os deadline messages cl n =
     (case co_now os n of
        (now, n) \<Rightarrow>
          if ms_count (deadline - now) \<le> 0 then Some (Inr messages, cl, n)
          else Option.bind (cc_receive net os (min (ms_count (deadline - now)) 50) cl n) (\<lambda>(r, cl, n).
            case r of
              Inl e \<Rightarrow> Some (Inl e, cl, n)
            | Inr None \<Rightarrow> Some (Inr messages, cl, n)
            | Inr (Some m) \<Rightarrow> cc_settle net os deadline (messages @ [m]) cl n))"

record control_resync =
  cr_revision :: u64
  cr_messages :: "string list"

definition cc_resync ::
    "'n network_operations \<Rightarrow> 'n client_operations \<Rightarrow> int \<Rightarrow> control_client \<Rightarrow> 'n
      \<Rightarrow> ((transport_error + control_resync) \<times> control_client \<times> 'n) option" where
  "cc_resync net os timeout cl n =
     (let (now, n) = co_now os n; deadline = now + timeout * 1000000 in
      Option.bind (cc_queries [GetSwitchState, GetActiveFaults, GetSupervisionState] net os deadline (0, [], cl, n))
        (\<lambda>(r, k, events, cl, n).
          case r of
            Inl e \<Rightarrow> Some (Inl e, cl, n)
          | Inr _ \<Rightarrow>
              map_option (\<lambda>(r, cl, n).
                (case r of
                   Inl e \<Rightarrow> Inl e
                 | Inr messages \<Rightarrow> Inr \<lparr> cr_revision = cc_revision cl, cr_messages = messages \<rparr>, cl, n))
              (cc_settle net os deadline events cl n)))"

section \<open>Waiting ends, and loses nothing\<close>

text \<open>What is assumed of the system: the clock passes any time after finitely many readings (\<open>fuel T\<close> counts
  them down), and a receive hands out what comes next on the socket and nothing else does.\<close>

definition clock_passes :: "'n network_operations \<Rightarrow> 'n client_operations \<Rightarrow> (int \<Rightarrow> 'n \<Rightarrow> nat) \<Rightarrow> bool" where
  "clock_passes net os fuel \<longleftrightarrow>
     (\<forall>T n. fuel T (snd (co_now os n)) \<le> fuel T n \<and> (T \<le> fst (co_now os n) \<or> fuel T (snd (co_now os n)) < fuel T n)) \<and>
     (\<forall>T sock flag ms n. fuel T (snd (co_wait os sock flag ms n)) \<le> fuel T n) \<and>
     (\<forall>T sock n. fuel T (snd (net_receive net sock n)) \<le> fuel T n)"

definition reads_stream :: "'n network_operations \<Rightarrow> 'n client_operations \<Rightarrow> (nat \<Rightarrow> 'n \<Rightarrow> string) \<Rightarrow> bool" where
  "reads_stream net os rd \<longleftrightarrow>
     (\<forall>sock n. rd sock (snd (net_receive net sock n)) =
       rd sock n @ (case fst (net_receive net sock n) of Inl _ \<Rightarrow> [] | Inr chunk \<Rightarrow> chunk)) \<and>
     (\<forall>sock n. rd sock (snd (co_now os n)) = rd sock n) \<and>
     (\<forall>sock sock' flag ms n. rd sock (snd (co_wait os sock' flag ms n)) = rd sock n)"

lemma drain_reads:
  assumes "reads_stream net os rd" and "clock_passes net os fuel"
  shows "drain net cap sock b n = (ok, b', n') \<Longrightarrow>
    \<exists>bytes. b' = b @ bytes \<and> rd sock n' = rd sock n @ bytes \<and> (\<forall>T. fuel T n' \<le> fuel T n)"
  using assms
proof (induction net cap sock b n rule: drain.induct)
  case (1 net cap sock b n)
  obtain res n1 where res: "net_receive net sock n = (res, n1)" by fastforce
  have f: "fuel T n1 \<le> fuel T n" for T
    using "1.prems"(3) res unfolding clock_passes_def by (metis snd_conv)
  have r: "rd sock n1 = rd sock n @ (case res of Inl _ \<Rightarrow> [] | Inr chunk \<Rightarrow> chunk)"
    using "1.prems"(2) res unfolding reads_stream_def by (metis fst_conv snd_conv)
  show ?case
  proof (cases res)
    case (Inl blocked)
    then show ?thesis using "1.prems"(1) r f by (subst (asm) drain.simps) (simp add: res)
  next
    case (Inr chunk)
    show ?thesis
    proof (cases "chunk = [] \<or> length (b @ chunk) > cap")
      case True
      then have "b' = b @ chunk \<and> n' = n1" using "1.prems"(1) by (subst (asm) drain.simps) (auto simp: res Inr split: if_splits)
      then show ?thesis using r f by (simp add: Inr)
    next
      case False
      then have "drain net cap sock (b @ chunk) n1 = (ok, b', n')"
        using "1.prems"(1) by (subst (asm) drain.simps) (simp add: res Inr)
      then obtain bytes where "b' = (b @ chunk) @ bytes" "rd sock n' = rd sock n1 @ bytes" "\<forall>T. fuel T n' \<le> fuel T n1"
        using "1.IH" [OF res [symmetric] Inr] False "1.prems"(2,3) by auto
      then show ?thesis using r f by (intro exI [of _ "chunk @ bytes"]) (auto simp: Inr intro: order_trans)
    qed
  qed
qed

text \<open>The lines that go from the stream to the caller.\<close>

definition hands_over :: "(nat \<Rightarrow> 'n \<Rightarrow> string) \<Rightarrow> nat \<Rightarrow> string \<Rightarrow> 'n \<Rightarrow> string list \<Rightarrow> string \<Rightarrow> 'n \<Rightarrow> bool" where
  "hands_over rd sock inbox n ms inbox' n' \<longleftrightarrow> (\<exists>bytes. rd sock n' = rd sock n @ bytes \<and>
     take_messages (inbox @ bytes) = (ms @ fst (take_messages inbox'), snd (take_messages inbox')))"

lemma hands_over_nothing: "rd sock n' = rd sock n @ bytes \<Longrightarrow> hands_over rd sock inbox n [] (inbox @ bytes) n'"
  by (auto simp: hands_over_def)

lemma hands_over_trans:
  assumes "hands_over rd sock inbox n ms inbox1 n1" and "hands_over rd sock inbox1 n1 ms' inbox2 n2"
  shows "hands_over rd sock inbox n (ms @ ms') inbox2 n2"
proof -
  obtain b1 b2 where 1: "rd sock n1 = rd sock n @ b1" "take_messages (inbox @ b1) = (ms @ fst (take_messages inbox1), snd (take_messages inbox1))"
    and 2: "rd sock n2 = rd sock n1 @ b2" "take_messages (inbox1 @ b2) = (ms' @ fst (take_messages inbox2), snd (take_messages inbox2))"
    using assms by (auto simp: hands_over_def)
  have "take_messages (inbox @ b1 @ b2) = (ms @ ms' @ fst (take_messages inbox2), snd (take_messages inbox2))"
    using take_messages_append [of "inbox @ b1" b2] take_messages_append [of inbox1 b2] 1(2) 2(2) by simp
  then show ?thesis using 1(1) 2(1) by (auto simp: hands_over_def intro: exI [of _ "b1 @ b2"])
qed

lemma take_message_hands_over:
  "take_message inbox = (Some m, inbox') \<Longrightarrow> rd sock n' = rd sock n \<Longrightarrow> hands_over rd sock inbox n [m] inbox' n'"
  "take_message inbox = (None, inbox') \<Longrightarrow> rd sock n' = rd sock n \<Longrightarrow> hands_over rd sock inbox n [] inbox' n'"
proof -
  assume m: "take_message inbox = (Some m, inbox')" and "rd sock n' = rd sock n"
  have "take_messages inbox = (m # fst (take_messages inbox'), snd (take_messages inbox'))"
    using take_message_messages [of inbox] m by (auto split: prod.splits list.splits)
  then show "hands_over rd sock inbox n [m] inbox' n'" using \<open>rd sock n' = rd sock n\<close> by (simp add: hands_over_def)
next
  assume m: "take_message inbox = (None, inbox')" and "rd sock n' = rd sock n"
  have "take_messages inbox = ([], inbox')"
    using take_message_messages [of inbox] m by (auto split: prod.splits list.splits)
  moreover from this have "newline \<notin> set inbox'" using take_messages_rest [of inbox] by simp
  ultimately show "hands_over rd sock inbox n [] inbox' n'"
    using \<open>rd sock n' = rd sock n\<close> by (simp add: hands_over_def without_newline)
qed

definition received_messages :: "transport_error + string option \<Rightarrow> string list" where
  "received_messages r = (case r of Inr (Some m) \<Rightarrow> [m] | _ \<Rightarrow> [])"

lemma receive_loop_returns:
  assumes "reads_stream net os rd" and "clock_passes net os fuel"
  shows "\<exists>r inbox' n'. cc_receive_loop net os deadline sock inbox n = Some (r, inbox', n') \<and>
    hands_over rd sock inbox n (received_messages r) inbox' n' \<and> (\<forall>T. fuel T n' \<le> fuel T n)"
proof (induction "fuel (deadline + 1000000) n" arbitrary: inbox n rule: less_induct)
  case less
  obtain m inbox1 where m: "take_message inbox = (m, inbox1)" by fastforce
  obtain now n1 where now: "co_now os n = (now, n1)" by fastforce
  have n1: "rd sock n1 = rd sock n" "fuel T n1 \<le> fuel T n" "T \<le> now \<or> fuel T n1 < fuel T n" for T
    using assms now unfolding reads_stream_def clock_passes_def by (metis fst_conv snd_conv)+
  obtain ready n2 where wait: "co_wait os sock PollRead (poll_deadline (ms_count (deadline - now))) n1 = (ready, n2)" by fastforce
  have n2: "rd sock n2 = rd sock n1" "fuel T n2 \<le> fuel T n1" for T
    using assms wait unfolding reads_stream_def clock_passes_def by (metis snd_conv)+
  obtain ok inbox2 n3 where drained: "drain net (2 ^ 64 - 1) sock inbox1 n2 = (ok, inbox2, n3)" by (metis prod_cases3)
  obtain bytes where n3: "inbox2 = inbox1 @ bytes" "rd sock n3 = rd sock n2 @ bytes" "\<forall>T. fuel T n3 \<le> fuel T n2"
    using drain_reads [OF assms drained] by blast
  have le: "fuel T n2 \<le> fuel T n" "fuel T n3 \<le> fuel T n" for T
    using n1(2) n2(2) n3(3) by (meson order_trans)+
  show ?case
  proof (cases m)
    case (Some line)
    then show ?thesis
      using take_message_hands_over(1) [of inbox line inbox1 rd sock n n] m
      by (subst cc_receive_loop.simps) (simp add: received_messages_def)
  next
    case None
    have quiet: "hands_over rd sock inbox n [] inbox1 n2" "hands_over rd sock inbox n [] inbox1 n1"
      using take_message_hands_over(2) [of inbox inbox1 rd sock] m None n1(1) n2(1) by simp_all
    have over: "hands_over rd sock inbox n [] inbox2 n3"
      using hands_over_trans [OF quiet(1) hands_over_nothing [of rd sock n3 n2 bytes inbox1, OF n3(2)]] n3(1) by simp
    show ?thesis
    proof (cases "\<not> ms_count (deadline - now) < 0 \<and> \<not> ready < 0 \<and> ready \<noteq> 0 \<and> ok")
      case True
      then have step: "cc_receive_loop net os deadline sock inbox n = cc_receive_loop net os deadline sock inbox2 n3"
        by (subst cc_receive_loop.simps) (simp add: m None now wait drained [simplified])
      have "now < deadline + 1000000"
        using True by (auto simp: ms_count_def sgn_if split: if_splits)
      then have "fuel (deadline + 1000000) n1 < fuel (deadline + 1000000) n" using n1(3) [of "deadline + 1000000"] by simp
      then have "fuel (deadline + 1000000) n3 < fuel (deadline + 1000000) n"
        using n2(2) n3(3) by (meson le_less_trans)
      from less [OF this, of inbox2] obtain r inbox' n' where
        rest: "cc_receive_loop net os deadline sock inbox2 n3 = Some (r, inbox', n')"
          "hands_over rd sock inbox2 n3 (received_messages r) inbox' n'" "\<forall>T. fuel T n' \<le> fuel T n3" by blast
      then show ?thesis
        using hands_over_trans [OF over rest(2)] le(2) by (auto simp: step intro: order_trans)
    next
      case False
      then show ?thesis
        using quiet over n1(2) le
        by (subst cc_receive_loop.simps) (auto simp: m None now wait drained [simplified] received_messages_def)
    qed
  qed
qed

lemma receive_returns:
  assumes "reads_stream net os rd" and "clock_passes net os fuel" and "cc_socket cl = Some sock"
  shows "\<exists>r inbox' n'. cc_receive net os timeout cl n = Some (r, cl\<lparr> cc_inbox := inbox' \<rparr>, n') \<and>
    hands_over rd sock (cc_inbox cl) n (received_messages r) inbox' n' \<and> (\<forall>T. fuel T n' \<le> fuel T n)"
proof -
  obtain now n1 where now: "co_now os n = (now, n1)" by fastforce
  have n1: "rd sock n1 = rd sock n" "fuel T n1 \<le> fuel T n" for T
    using assms(1,2) now unfolding reads_stream_def clock_passes_def by (metis snd_conv)+
  obtain r inbox' n' where r: "cc_receive_loop net os (now + timeout * 1000000) sock (cc_inbox cl) n1 = Some (r, inbox', n')"
      "hands_over rd sock (cc_inbox cl) n1 (received_messages r) inbox' n'" "\<forall>T. fuel T n' \<le> fuel T n1"
    using receive_loop_returns [OF assms(1,2)] by blast
  then show ?thesis
    using n1 by (auto simp: cc_receive_def assms(3) now hands_over_def intro: order_trans)
qed

text \<open>C25. A query that was sent comes back, with its answer or an error, and loses nothing: the lines that
  arrived are, in order, the messages that were kept as events, none of which answers the query, then the
  answer if there is one, and the lines that are still in the inbox. The clock is assumed to pass every
  time after finitely many readings, and the socket to be a stream. Nothing is said of how long it takes:
  the client drains its socket without a cap, so a peer that floods it can hold a query beyond its
  deadline.\<close>

theorem query_returns_and_keeps_events:
  assumes "reads_stream net os rd" and "clock_passes net os fuel" and "cc_socket cl = Some sock"
  shows "\<exists>r kept answers inbox' n'.
    cc_query_loop net os request_id deadline events cl n = Some (r, events @ kept, cl\<lparr> cc_inbox := inbox' \<rparr>, n') \<and>
    hands_over rd sock (cc_inbox cl) n (kept @ answers) inbox' n' \<and> list_all (\<lambda>m. answer_to request_id m = None) kept \<and>
    (case r of Inl _ \<Rightarrow> answers = [] | Inr reply \<Rightarrow> \<exists>m. answers = [m] \<and> answer_to request_id m = Some reply)"
  using assms(3)
proof (induction "fuel deadline n" arbitrary: events cl n rule: less_induct)
  case less
  obtain now n1 where now: "co_now os n = (now, n1)" by fastforce
  have n1: "rd sock n1 = rd sock n" "fuel T n1 \<le> fuel T n" "T \<le> now \<or> fuel T n1 < fuel T n" for T
    using assms(1,2) now unfolding reads_stream_def clock_passes_def by (metis fst_conv snd_conv)+
  have none: "hands_over rd sock (cc_inbox cl) n ms inbox' n' \<longleftrightarrow> hands_over rd sock (cc_inbox cl) n1 ms inbox' n'" for ms inbox' n'
    by (simp add: hands_over_def n1(1))
  let ?rest = "ms_count (deadline - now)"
  obtain r inbox1 n2 where r: "cc_receive net os ?rest cl n1 = Some (r, cl\<lparr> cc_inbox := inbox1 \<rparr>, n2)"
      "hands_over rd sock (cc_inbox cl) n1 (received_messages r) inbox1 n2" "\<forall>T. fuel T n2 \<le> fuel T n1"
    using receive_returns [OF assms(1,2) less.prems] by blast
  consider (late) "?rest \<le> 0"
    | (failed) e where "\<not> ?rest \<le> 0" and "r = Inl e"
    | (quiet) "\<not> ?rest \<le> 0" and "r = Inr None"
    | (answered) m reply where "\<not> ?rest \<le> 0" and "r = Inr (Some m)" and "answer_to request_id m = Some reply"
    | (other) m where "\<not> ?rest \<le> 0" and "r = Inr (Some m)" and "answer_to request_id m = None"
    by (metis not_Some_eq old.sum.exhaust)
  then show ?case
  proof cases
    case late
    then have "cc_query_loop net os request_id deadline events cl n = Some (Inl Timeout, events, cl, n1)"
      by (subst cc_query_loop.simps) (simp add: now)
    then show ?thesis
      by (intro exI [of _ "Inl Timeout"] exI [of _ "[] :: string list"] exI [of _ "cc_inbox cl"] exI [of _ n1]) (simp add: hands_over_def n1(1))
  next
    case (failed e)
    then have "cc_query_loop net os request_id deadline events cl n = Some (Inl e, events, cl\<lparr> cc_inbox := inbox1 \<rparr>, n2)"
      by (subst cc_query_loop.simps) (simp add: now r(1))
    then show ?thesis using r(2) failed(2)
      by (intro exI [of _ "Inl e"] exI [of _ "[] :: string list"] exI [of _ inbox1] exI [of _ n2]) (simp add: none received_messages_def)
  next
    case quiet
    then have "cc_query_loop net os request_id deadline events cl n = Some (Inl Timeout, events, cl\<lparr> cc_inbox := inbox1 \<rparr>, n2)"
      by (subst cc_query_loop.simps) (simp add: now r(1))
    then show ?thesis using r(2) quiet(2)
      by (intro exI [of _ "Inl Timeout"] exI [of _ "[] :: string list"] exI [of _ inbox1] exI [of _ n2]) (simp add: none received_messages_def)
  next
    case (answered m reply)
    then have "cc_query_loop net os request_id deadline events cl n = Some (Inr reply, events, cl\<lparr> cc_inbox := inbox1 \<rparr>, n2)"
      by (subst cc_query_loop.simps) (simp add: now r(1))
    then show ?thesis using r(2) answered(2,3)
      by (intro exI [of _ "Inr reply"] exI [of _ "[] :: string list"] exI [of _ "[m]"] exI [of _ inbox1] exI [of _ n2])
        (simp add: none received_messages_def)
  next
    case (other m)
    then have m: "r = Inr (Some m)" "answer_to request_id m = None" "\<not> ?rest \<le> 0" by simp_all
    then have step: "cc_query_loop net os request_id deadline events cl n =
        cc_query_loop net os request_id deadline (events @ [m]) (cl\<lparr> cc_inbox := inbox1 \<rparr>) n2"
      by (subst cc_query_loop.simps) (simp add: now r(1))
    have "now < deadline" using m(3) by (auto simp: ms_count_def sgn_if split: if_splits)
    then have "fuel deadline n2 < fuel deadline n" using n1(3) [of deadline] r(3) by (meson le_less_trans not_less)
    from less.hyps [OF this, of "cl\<lparr> cc_inbox := inbox1 \<rparr>" "events @ [m]"] less.prems
    obtain r' kept answers inbox' n' where rest:
      "cc_query_loop net os request_id deadline (events @ [m]) (cl\<lparr> cc_inbox := inbox1 \<rparr>) n2 =
        Some (r', (events @ [m]) @ kept, cl\<lparr> cc_inbox := inbox' \<rparr>, n')"
      "hands_over rd sock inbox1 n2 (kept @ answers) inbox' n'" "list_all (\<lambda>m. answer_to request_id m = None) kept"
      "case r' of Inl _ \<Rightarrow> answers = [] | Inr reply \<Rightarrow> \<exists>m. answers = [m] \<and> answer_to request_id m = Some reply"
      by auto
    have "hands_over rd sock (cc_inbox cl) n1 ([m] @ kept @ answers) inbox' n'"
      using hands_over_trans [OF r(2) rest(2)] by (simp add: m received_messages_def)
    then show ?thesis
      using rest m(2) by (intro exI [of _ r'] exI [of _ "m # kept"] exI [of _ answers] exI [of _ inbox'] exI [of _ n'])
        (simp add: step none)
  qed
qed

text \<open>A switch that has just answered, on a clock that moves a millisecond with every reading.\<close>

record answering_network =
  an_ticks :: nat
  an_unread :: string
  an_read :: string

definition answering_operations :: "answering_network network_operations" where
  "answering_operations = \<lparr>
     net_receive = (\<lambda>sock n. if an_unread n = [] then (Inl True, n)
       else (Inr (an_unread n), n\<lparr> an_unread := [], an_read := an_read n @ an_unread n \<rparr>)),
     net_send = (\<lambda>sock data n. ((length data, False), n)),
     net_accept = (\<lambda>n. (None, n)),
     net_poll = (\<lambda>watched timeout n. (None, n)) \<rparr>"

definition answering_clock :: "answering_network client_operations" where
  "answering_clock = \<lparr>
     co_wait = (\<lambda>sock flag ms n. (1, n)),
     co_now = (\<lambda>n. (int (an_ticks n) * 1000000, n\<lparr> an_ticks := an_ticks n + 1 \<rparr>)),
     co_connect = (\<lambda>address port n. (Inr 3, n)) \<rparr>"

lemma answering_clock_passes:
  "clock_passes answering_operations answering_clock (\<lambda>T n. nat (T - int (an_ticks n) * 1000000))"
  by (auto simp: clock_passes_def answering_operations_def answering_clock_def)

lemma answering_reads: "reads_stream answering_operations answering_clock (\<lambda>sock n. an_read n)"
  by (auto simp: reads_stream_def answering_operations_def answering_clock_def)

definition example_client :: control_client where
  "example_client = \<lparr> cc_socket = Some 3, cc_address = ''127.0.0.1'', cc_port = 9000, cc_revision = 0, cc_inbox = [] \<rparr>"

theorem query_returns_and_keeps_events_witness:
  "\<forall>unread. \<exists>r kept answers inbox' n'. cc_query_loop answering_operations answering_clock ''r'' 5000000 [] example_client
      \<lparr> an_ticks = 0, an_unread = unread, an_read = [] \<rparr> = Some (r, kept, example_client\<lparr> cc_inbox := inbox' \<rparr>, n') \<and>
    take_messages (an_read n') = (kept @ answers @ fst (take_messages inbox'), snd (take_messages inbox'))"
proof
  fix unread
  let ?n = "\<lparr> an_ticks = 0, an_unread = unread, an_read = [] \<rparr>"
  have "cc_socket example_client = Some 3" by (simp add: example_client_def)
  from query_returns_and_keeps_events [OF answering_reads answering_clock_passes this, of "''r''" 5000000 "[]" ?n]
  show "\<exists>r kept answers inbox' n'. cc_query_loop answering_operations answering_clock ''r'' 5000000 [] example_client ?n =
      Some (r, kept, example_client\<lparr> cc_inbox := inbox' \<rparr>, n') \<and>
      take_messages (an_read n') = (kept @ answers @ fst (take_messages inbox'), snd (take_messages inbox'))"
    by (fastforce simp: hands_over_def example_client_def)
qed

section \<open>A reply that is lost from sight\<close>

text \<open>When the switch answers and closes, the read that brings the answer also finds the end of the stream, and
  the caller is told of a broken connection although the answer is complete in the inbox.\<close>

lemma answer_behind_disconnect:
  assumes "take_message inbox = (None, inbox)" and "co_now os n = (now, n1)" and "\<not> ms_count (deadline - now) < 0"
    and "co_wait os sock PollRead (poll_deadline (ms_count (deadline - now))) n1 = (1, n2)"
    and "net_receive net sock n2 = (Inr (line @ [newline]), n3)" and "net_receive net sock n3 = (Inr [], n4)"
    and "line_safe line" and "inbox = []" and "length line < 2 ^ 32"
  shows "\<exists>inbox' n'. cc_receive_loop net os deadline sock inbox n = Some (Inl Disconnected, inbox', n') \<and>
    fst (take_message inbox') = Some line"
proof -
  have "drain net 18446744073709551615 sock [] n2 = (False, line @ [newline], n4)"
    using assms(5,6,9) by (subst drain.simps, simp, subst drain.simps, simp)
  then have loop: "cc_receive_loop net os deadline sock inbox n = Some (Inl Disconnected, line @ [newline], n4)"
    using assms(1-4,8) by (subst cc_receive_loop.simps) simp
  have "take_messages (line @ [newline]) = ([line], [])"
    using take_lines [of "[line]"] assms(7) by simp
  then have "fst (take_message (line @ [newline])) = Some line"
    using take_message_messages [of "line @ [newline]"] by auto
  then show ?thesis using loop by blast
qed

end
