(* ===== verification/Session_Text.thy ===== *)
theory Session_Text
  imports Control_Service
begin

text \<open>
  The texts of a desktop session, \<^verbatim>\<open>src/session_detail.hpp\<close>, \<^verbatim>\<open>src/session.cpp\<close> and the helpers of the
  other session files: labels and their readers, addresses, quoting, and the spellings of backends.
  Labels are read back as what they label, and an escaped text is read back by the JSON scanner.
\<close>

section \<open>Settings and small texts\<close>

definition desktop_anomaly_config :: detector_config where
  "desktop_anomaly_config = default_detector_config\<lparr> window_duration_ns := 1000000000, broadcast_threshold := 100,
     unknown_unicast_threshold := 100, udp_threshold := 200, port_scan_threshold := 20, hot_talker_threshold := 200,
     malformed_threshold := 1 \<rparr>"

definition ipv4_string :: "u32 \<Rightarrow> string" where
  "ipv4_string a = uint_text (drop_bit 24 a AND 0xff) @ ''.'' @ uint_text (drop_bit 16 a AND 0xff) @ ''.'' @
     uint_text (drop_bit 8 a AND 0xff) @ ''.'' @ uint_text (a AND 0xff)"

definition yaml_quote :: "string \<Rightarrow> string" where
  "yaml_quote s = [quote_char] @ concat (map (\<lambda>c. if c = backslash \<or> c = quote_char then [backslash, c] else [c]) s) @ [quote_char]"

definition enforcement_summary :: "enforcement_action \<Rightarrow> string" where
  "enforcement_summary a =
     (case ea_kind a of
        Blackhole \<Rightarrow> ''Dropping all frames''
      | Isolate \<Rightarrow> ''Port quarantined''
      | RateLimitKind \<Rightarrow> ''Capped at '' @ uint_text (ea_bits a div 1000) @ '' kbit/s''
      | NoEnforcement \<Rightarrow> ''Recorded only'')"

text \<open>\<open>std::tolower\<close> in the C locale.\<close>

definition to_lower :: "char \<Rightarrow> char" where
  "to_lower c = (if CHR ''A'' \<le> c \<and> c \<le> CHR ''Z'' then char_of ((of_char c :: nat) + 32) else c)"

definition benchmark_backend_id :: "string \<Rightarrow> string" where
  "benchmark_backend_id label = (if label = ''Metal (live)'' then ''metal-live'' else map to_lower label)"

definition benchmark_backend_label :: "string \<Rightarrow> string" where
  "benchmark_backend_label name =
     (if name = ''cuda'' then ''CUDA'' else if name = ''metal'' then ''Metal''
      else if name = ''metal-live'' then ''Metal (live)'' else ''CPU'')"

definition strip_file_url :: "string \<Rightarrow> string" where
  "strip_file_url path = (if take 7 path = ''file://'' then drop 7 path else path)"

definition file_name_of :: "string \<Rightarrow> string" where
  "file_name_of path = rev (takeWhile (\<lambda>c. c \<noteq> CHR ''/'' \<and> c \<noteq> backslash) (rev path))"

definition escape_char :: "char \<Rightarrow> string" where
  "escape_char c =
     (if c = quote_char then [backslash, quote_char]
      else if c = backslash then [backslash, backslash]
      else if c = CHR 0x0A then [backslash, CHR ''n'']
      else if c = CHR 0x0D then [backslash, CHR ''r'']
      else if c = CHR 0x09 then [backslash, CHR ''t'']
      else if (of_char c :: nat) < 0x20 then [backslash, CHR ''u''] @ pad_zero 4 (hex_of_nat (of_char c))
      else [c])"

definition json_escape :: "string \<Rightarrow> string" where
  "json_escape s = concat (map escape_char s)"

text \<open>The forms trim what they are given; the characters are those of \<open>isspace\<close>.\<close>

definition is_form_space :: "char \<Rightarrow> bool" where
  "is_form_space c \<longleftrightarrow> c \<in> {CHR '' '', CHR 0x09, CHR 0x0A, CHR 0x0B, CHR 0x0C, CHR 0x0D}"

definition form_trimmed :: "string \<Rightarrow> string" where
  "form_trimmed s = rev (dropWhile is_form_space (rev (dropWhile is_form_space s)))"

definition equals_ignore_case :: "string \<Rightarrow> string \<Rightarrow> bool" where
  "equals_ignore_case l r \<longleftrightarrow> map to_lower l = map to_lower r"

text \<open>The two characters outside ASCII that the messages use, in UTF-8.\<close>

definition middle_dot :: string where "middle_dot = [CHR 0xC2, CHR 0xB7]"
definition both_ways :: string where "both_ways = [CHR 0xE2, CHR 0x86, CHR 0x94]"

section \<open>Labels\<close>

definition anomaly_label :: "anomaly_type \<Rightarrow> string" where
  "anomaly_label t =
     (case t of anomaly_type.BroadcastStorm \<Rightarrow> ''Broadcast storm'' | MacFlap \<Rightarrow> ''MAC flap''
      | UnknownUnicastFlood \<Rightarrow> ''Unknown-unicast flood'' | anomaly_type.UdpFlood \<Rightarrow> ''UDP flood''
      | anomaly_type.PortScan \<Rightarrow> ''Port scan'' | HotTalker \<Rightarrow> ''Hot talker'' | MalformedFrame \<Rightarrow> ''Malformed frame'')"

definition action_label :: "policy_action \<Rightarrow> string" where
  "action_label a =
     (case a of Allow \<Rightarrow> ''Allow'' | Drop \<Rightarrow> ''Drop'' | Mirror \<Rightarrow> ''Mirror'' | RateLimit \<Rightarrow> ''Rate limit''
      | Quarantine \<Rightarrow> ''Quarantine'' | AlertOnly \<Rightarrow> ''Alert only'')"

definition classification_label :: "packet_classification \<Rightarrow> string" where
  "classification_label c =
     (case c of Broadcast \<Rightarrow> ''Broadcast'' | UnknownUnicast \<Rightarrow> ''Unknown unicast''
      | KnownUnicast \<Rightarrow> ''Known unicast'' | Malformed \<Rightarrow> ''Malformed'')"

definition validity_label :: "packet_validity \<Rightarrow> string" where
  "validity_label v =
     (case v of Valid \<Rightarrow> ''Valid'' | MalformedEthernet \<Rightarrow> ''Malformed Ethernet'' | MalformedIpv4 \<Rightarrow> ''Malformed IPv4''
      | MalformedTransport \<Rightarrow> ''Malformed transport'')"

definition anomaly_type_from_label :: "string \<Rightarrow> anomaly_type option" where
  "anomaly_type_from_label name = List.find (\<lambda>t. name = anomaly_label t)
     [anomaly_type.BroadcastStorm, MacFlap, UnknownUnicastFlood, anomaly_type.UdpFlood, anomaly_type.PortScan, HotTalker, MalformedFrame]"

definition policy_action_from_label :: "string \<Rightarrow> policy_action option" where
  "policy_action_from_label name = List.find (\<lambda>a. name = action_label a)
     [Allow, Drop, Mirror, RateLimit, Quarantine, AlertOnly]"

definition scenario_names :: "string list" where
  "scenario_names = filter (\<lambda>name. case scenario_from_text name of Inl _ \<Rightarrow> False | Inr _ \<Rightarrow> True)
     [''known-unicast'', ''broadcast'', ''unknown-unicast'', ''mixed-traffic'', ''udp-flood'', ''port-scan'', ''broadcast-storm'']"

section \<open>Reading back\<close>

lemma anomaly_label_read [codec_simps]: "anomaly_type_from_label name = Some t \<longleftrightarrow> name = anomaly_label t"
  by (cases t) (auto simp: anomaly_type_from_label_def anomaly_label_def)

lemma action_label_read [codec_simps]: "policy_action_from_label name = Some a \<longleftrightarrow> name = action_label a"
  by (cases a) (auto simp: policy_action_from_label_def action_label_def)

lemma scenario_names_eq: "scenario_names = map scenario_text
    [KnownUnicastTraffic, BroadcastTraffic, UnknownUnicastTraffic, Mixed, UdpFlood, PortScan, BroadcastStorm]"
  by (simp add: scenario_names_def scenario_from_text_def scenario_text_def)

lemma backend_label_id:
  "list_all (\<lambda>label. benchmark_backend_label (benchmark_backend_id label) = label) [''CPU'', ''CUDA'', ''Metal'', ''Metal (live)'']"
  by code_simp

lemma backend_ids: "map benchmark_backend_id [''CPU'', ''CUDA'', ''Metal'', ''Metal (live)''] = [''cpu'', ''cuda'', ''metal'', ''metal-live'']"
  by code_simp

lemma form_trimmed_ends:
  "form_trimmed s = [] \<or> \<not> is_form_space (hd (form_trimmed s)) \<and> \<not> is_form_space (last (form_trimmed s))"
proof (cases "form_trimmed s = []")
  case False
  let ?d = "dropWhile is_form_space s"
  have d: "dropWhile is_form_space (rev ?d) \<noteq> []" using False by (simp add: form_trimmed_def)
  obtain k where k: "rev ?d = k @ dropWhile is_form_space (rev ?d)" by (metis takeWhile_dropWhile_id)
  then have "?d = form_trimmed s @ rev k" by (metis form_trimmed_def rev_append rev_rev_ident)
  then have "hd (form_trimmed s) = hd ?d" "?d \<noteq> []" using False by (simp_all add: hd_append)
  moreover have "last (form_trimmed s) = hd (dropWhile is_form_space (rev ?d))"
    using d by (simp add: form_trimmed_def last_rev)
  ultimately show ?thesis using d by (metis hd_dropWhile)
qed simp

lemma read_chars_escape_char: "read_chars out (escape_char c @ s) = read_chars (out @ [c]) s"
proof (cases "(of_char c :: nat) < 0x20 \<and> c \<notin> {CHR 0x0A, CHR 0x0D, CHR 0x09}")
  case True
  then have "c \<noteq> quote_char" "c \<noteq> backslash" by (intro notI, simp)+
  then have "escape_char c = [backslash, CHR ''u''] @ pad_zero 4 (hex_of_nat (of_char c))"
    using True by (simp add: escape_char_def)
  then show ?thesis using read_chars_control [of c out s] True by simp
next
  case False
  then show ?thesis by (auto simp: escape_char_def read_escape_def)
qed

lemma read_chars_json_escape: "read_chars out (json_escape v @ quote_char # s) = Inr (out @ v, s)"
  by (induction v arbitrary: out) (simp_all add: json_escape_def read_chars_escape_char del: read_chars.simps(2), simp_all)

end
