(* ===== verification/Session.thy ===== *)
theory Session
  imports Session_Text
begin

text \<open>
  The desktop session, \<^verbatim>\<open>include/wirelab/session.hpp\<close>, \<^verbatim>\<open>src/session.cpp\<close>, \<^verbatim>\<open>src/session_topology.cpp\<close> and
  \<^verbatim>\<open>src/session_policy.cpp\<close>: the laboratory's topology, faults and policies, the selection, and the rows
  that are shown for them. The record of the class is split in four that extend one another; the bits that tell
  what changed are a word. Readings of the steady clock, the contents of files and what the system answered when
  one was written are arguments; floating-point numbers are a type parameter with the operations the code uses.
\<close>

section \<open>Rows\<close>

datatype session_dirty = DirtyTopology | DirtySelection | DirtyStatus | DirtyTraffic | DirtyTelemetry | DirtyFaults
  | DirtyPolicies | DirtyReport

primrec dirty_index :: "session_dirty \<Rightarrow> nat" where
  "dirty_index DirtyTopology = 0"
| "dirty_index DirtySelection = 1"
| "dirty_index DirtyStatus = 2"
| "dirty_index DirtyTraffic = 3"
| "dirty_index DirtyTelemetry = 4"
| "dirty_index DirtyFaults = 5"
| "dirty_index DirtyPolicies = 6"
| "dirty_index DirtyReport = 7"

definition dirty_bit :: "session_dirty \<Rightarrow> u32" where
  "dirty_bit flag = push_bit (dirty_index flag) 1"

record 'd node_row =
  nr_id :: string
  nr_type :: topology_node_type
  nr_place :: "'d \<times> 'd"

record link_row =
  lr_from :: string
  lr_to :: string
  lr_latency_ms :: int

record 'd metric_sample =
  ms_sequence :: u64
  ms_throughput :: 'd
  ms_latency :: 'd
  ms_loss :: 'd

record port_state_row =
  po_id :: string
  po_enforced :: bool
  po_received :: u64
  po_forwarded :: u64
  po_dropped :: u64

record packet_row =
  pk_source_mac :: string
  pk_destination_mac :: string
  pk_source_ip :: string
  pk_destination_ip :: string
  pk_ingress :: string
  pk_protocol :: u8
  pk_destination_port :: u16
  pk_bytes :: u16
  pk_classification :: packet_classification
  pk_validity :: packet_validity

record anomaly_row =
  ar_type :: anomaly_type
  ar_source_mac :: string
  ar_source_ip :: string
  ar_ingress :: u32
  ar_observed :: u64
  ar_threshold :: u64

record 'd fault_row =
  fw_first :: string
  fw_second :: string
  fw_latency_ms :: int
  fw_loss :: 'd
  fw_blackhole :: bool

definition fault_is_link :: "'d fault_row \<Rightarrow> bool" where
  "fault_is_link f \<longleftrightarrow> fw_second f \<noteq> []"

record policy_row =
  pw_name :: string
  pw_type :: anomaly_type
  pw_action :: policy_action
  pw_enabled :: bool
  pw_rate :: u64
  pw_hits :: u64

record policy_action_row =
  ac_sequence :: u64
  ac_rule :: string
  ac_type :: anomaly_type
  ac_action :: policy_action
  ac_port :: string
  ac_outcome :: enforcement_outcome
  ac_detail :: string

record enforced_port_row =
  ep_port :: string
  ep_rule :: string
  ep_kind :: enforcement_kind
  ep_summary :: string

record 'd report_row =
  rw_label :: string
  rw_backend :: string
  rw_scenario :: string
  rw_packets :: u64
  rw_elapsed_ns :: u64
  rw_packets_per_second :: 'd
  rw_goodput :: 'd
  rw_loss :: 'd
  rw_p50 :: u64
  rw_p95 :: u64
  rw_p99 :: u64
  rw_timing :: analyzer_timing
  rw_speedup :: 'd

record report_provenance =
  rv_scenario :: string
  rv_seed :: u64
  rv_packets :: u64
  rv_batch_size :: u64
  rv_frame_size :: u64
  rv_host_count :: u64
  rv_generator :: string
  rv_version :: string
  rv_build_type :: string
  rv_compiled :: "string list"
  rv_present :: "string list"
  rv_generated_at :: string

datatype selection_kind = NoSelection | NodeSelection | LinkSelection

record port_counters =
  pc_received :: u64
  pc_forwarded :: u64
  pc_dropped :: u64

definition no_traffic :: port_counters where
  "no_traffic = \<lparr> pc_received = 0, pc_forwarded = 0, pc_dropped = 0 \<rparr>"

section \<open>The session\<close>

text \<open>\<open>int32_t\<close> is a word read by \<open>sint\<close>.\<close>

type_synonym i32 = "32 word"

record 'd session_views =
  ss_dirty :: u32
  ss_status :: string
  ss_nodes :: "'d node_row list"
  ss_links :: "link_row list"
  ss_selection :: selection_kind
  ss_selected_id :: string
  ss_selected_first :: string
  ss_selected_second :: string
  ss_selected_summary :: string
  ss_result :: string
  ss_history :: "'d metric_sample list"
  ss_mac_table :: "(string \<times> string) list"
  ss_ports :: "port_state_row list"
  ss_packets :: "packet_row list"
  ss_anomalies :: "anomaly_row list"
  ss_faults :: "'d fault_row list"
  ss_policies :: "policy_row list"
  ss_actions :: "policy_action_row list"
  ss_enforced :: "enforced_port_row list"

record 'd session_laboratory = "'d session_views" +
  ss_controller :: topology_controller
  ss_configuration :: topology_configuration
  ss_path :: string
  ss_pipeline :: pipeline

record ('d, 'g) session_traffic = "'d session_laboratory" +
  ss_running :: bool
  ss_backend :: string
  ss_scenario :: traffic_scenario
  ss_packets_per_tick :: i32
  ss_frame_size :: i32
  ss_seed :: u64
  ss_tick :: u64
  ss_total_packets :: u64
  ss_total_bytes :: u64
  ss_total_dropped :: u64
  ss_generator :: "traffic_generator option"
  ss_analyzer :: "'g any_analyzer option"
  ss_counters :: "(string \<times> port_counters) list"
  ss_start :: int
  ss_learned :: "(string \<times> string) list"

record ('d, 'g) session = "('d, 'g) session_traffic" +
  ss_reporting :: bool
  ss_progress :: 'd
  ss_stage :: string
  ss_export_path :: string
  ss_report_config :: benchmark_config
  ss_queue :: "string list"
  ss_index :: nat
  ss_budget :: nat
  ss_completed :: u64
  ss_total :: u64
  ss_run :: "'g any_analyzer bench_run option"
  ss_results :: "'d benchmark_result list"
  ss_rows :: "'d report_row list"
  ss_provenance :: report_provenance

text \<open>Floating-point operations beside those of the benchmark: conversions, the place of host \<open>i\<close> of \<open>n\<close> on the
  circle, rounding to basis points, the comparison with zero, and the three forms of text.\<close>

record 'd session_doubles =
  sd_numbers :: "'d double_operations"
  sd_of_int :: "int \<Rightarrow> 'd"
  sd_centre :: 'd
  sd_ring :: "nat \<Rightarrow> nat \<Rightarrow> 'd \<times> 'd"
  sd_basis_points :: "'d \<Rightarrow> u32"
  sd_not_positive :: "'d \<Rightarrow> bool"
  sd_fixed :: "nat \<Rightarrow> 'd \<Rightarrow> string"
  sd_general :: "'d \<Rightarrow> string"
  sd_json :: "'d \<Rightarrow> string"

definition default_benchmark_config :: benchmark_config where
  "default_benchmark_config = \<lparr>
     bc_traffic = \<lparr> tg_scenario = Mixed, tg_seed = 1, tg_frame_size = 64, tg_host_count = 16 \<rparr>,
     bc_packet_count = 100000, bc_batch_size = 1, bc_backend = ''cpu'', bc_generator = ''cpu'' \<rparr>"

definition no_topology :: topology_configuration where
  "no_topology = \<lparr> topo_name = [], topo_nodes = [], topo_links = [] \<rparr>"

section \<open>Marks and messages\<close>

definition ss_mark :: "session_dirty \<Rightarrow> ('d, 'g) session \<Rightarrow> ('d, 'g) session" where
  "ss_mark flag s = s\<lparr> ss_dirty := ss_dirty s OR dirty_bit flag \<rparr>"

definition take_dirty :: "('d, 'g) session \<Rightarrow> u32 \<times> ('d, 'g) session" where
  "take_dirty s = (ss_dirty s, s\<lparr> ss_dirty := 0 \<rparr>)"

definition set_status :: "string \<Rightarrow> ('d, 'g) session \<Rightarrow> ('d, 'g) session" where
  "set_status message s = ss_mark DirtyStatus (s\<lparr> ss_status := message \<rparr>)"

definition has_topology :: "('d, 'g) session \<Rightarrow> bool" where
  "has_topology s \<longleftrightarrow> tc_topology (ss_controller s) \<noteq> None"

definition host_ids :: "topology_configuration \<Rightarrow> string list" where
  "host_ids c = map node_id (filter (\<lambda>n. node_type n = Host) (topo_nodes c))"

section \<open>Rebuilding rows\<close>

text \<open>\<open>placed i n ns\<close>: the rows of the nodes, where \<open>i\<close> of the \<open>n\<close> hosts are placed.\<close>

fun placed :: "'d session_doubles \<Rightarrow> nat \<Rightarrow> nat \<Rightarrow> topology_node list \<Rightarrow> 'd node_row list" where
  "placed d i n [] = []"
| "placed d i n (node # rest) =
     (if node_type node = Host \<and> n \<noteq> 0
      then \<lparr> nr_id = node_id node, nr_type = node_type node, nr_place = sd_ring d i n \<rparr> # placed d (Suc i) n rest
      else \<lparr> nr_id = node_id node, nr_type = node_type node, nr_place = (sd_centre d, sd_centre d) \<rparr> # placed d i n rest)"

definition rebuild_topology_rows :: "'d session_doubles \<Rightarrow> ('d, 'g) session \<Rightarrow> ('d, 'g) session" where
  "rebuild_topology_rows d s =
     (let c = ss_configuration s in
      s\<lparr> ss_nodes := placed d 0 (length (host_ids c)) (topo_nodes c),
         ss_links := map (\<lambda>l. \<lparr> lr_from = link_from l, lr_to = link_to l, lr_latency_ms = link_latency_ms l \<rparr>) (topo_links c) \<rparr>)"

definition fault_row_of :: "'d session_doubles \<Rightarrow> topology_fault \<Rightarrow> 'd fault_row" where
  "fault_row_of d f = \<lparr> fw_first = tf_first f, fw_second = tf_second f,
     fw_latency_ms = ms_count (latency (tf_configuration f)),
     fw_loss = db_divide (sd_numbers d) (db_of (sd_numbers d) (ucast (loss_basis_points (tf_configuration f))))
       (db_literal (sd_numbers d) 100),
     fw_blackhole = blackhole (tf_configuration f) \<rparr>"

definition rebuild_fault_rows :: "'d session_doubles \<Rightarrow> ('d, 'g) session \<Rightarrow> ('d, 'g) session" where
  "rebuild_fault_rows d s =
     ss_mark DirtyFaults (s\<lparr> ss_faults :=
       (case tc_active_faults (ss_controller s) of Inl _ \<Rightarrow> [] | Inr faults \<Rightarrow> map (fault_row_of d) faults) \<rparr>)"

definition policy_row_of :: "policy_engine \<Rightarrow> policy_rule \<Rightarrow> policy_row" where
  "policy_row_of e r = \<lparr> pw_name = pr_name r, pw_type = pr_type r, pw_action = pr_action r, pw_enabled = pr_enabled r,
     pw_rate = pr_rate r, pw_hits = hit_count e (pr_name r) \<rparr>"

definition enforced_row_of :: "enforcement_action \<Rightarrow> enforced_port_row" where
  "enforced_row_of a = \<lparr> ep_port = ea_port a, ep_rule = ea_rule a, ep_kind = ea_kind a, ep_summary = enforcement_summary a \<rparr>"

definition rebuild_policy_rows :: "('d, 'g) session \<Rightarrow> ('d, 'g) session" where
  "rebuild_policy_rows s =
     ss_mark DirtyPolicies (s\<lparr> ss_policies := map (policy_row_of (pl_policies (ss_pipeline s))) (rules (pl_policies (ss_pipeline s))),
       ss_enforced := map enforced_row_of (en_active (pl_enforcer (ss_pipeline s))) \<rparr>)"

section \<open>Topology\<close>

text \<open>\<open>port_counters_[id]\<close>, and \<open>try_emplace\<close> of new counters.\<close>

definition count_port :: "string \<Rightarrow> (port_counters \<Rightarrow> port_counters) \<Rightarrow> (string \<times> port_counters) list \<Rightarrow> (string \<times> port_counters) list" where
  "count_port port f cs = umap_assign port (f (case map_of cs port of None \<Rightarrow> no_traffic | Some c \<Rightarrow> c)) cs"

definition reset_simulation :: "int \<Rightarrow> ('d, 'g) session \<Rightarrow> ('d, 'g) session" where
  "reset_simulation now s =
     ss_mark DirtyTelemetry (s\<lparr> ss_generator := None, ss_analyzer := None, ss_pipeline := pl_reset (ss_pipeline s), ss_start := now,
       ss_tick := 0, ss_total_packets := 0, ss_total_bytes := 0, ss_total_dropped := 0, ss_learned := [],
       ss_history := [], ss_mac_table := [], ss_packets := [], ss_anomalies := [], ss_actions := [], ss_enforced := [],
       ss_counters := fold (\<lambda>h. count_port h (\<lambda>c. c)) (host_ids (ss_configuration s)) [], ss_ports := [],
       ss_result := ''Ready. Configure traffic and press Start.'' \<rparr>)"

definition stop_traffic :: "('d, 'g) session \<Rightarrow> ('d, 'g) session" where
  "stop_traffic s =
     (if \<not> ss_running s then s
      else ss_mark DirtyTraffic (set_status ''Traffic stopped.'' (s\<lparr> ss_running := False \<rparr>)))"

definition clear_selection :: "('d, 'g) session \<Rightarrow> ('d, 'g) session" where
  "clear_selection s =
     ss_mark DirtySelection (s\<lparr> ss_selection := NoSelection, ss_selected_id := [], ss_selected_first := [],
       ss_selected_second := [], ss_selected_summary := [] \<rparr>)"

definition commit_topology ::
    "'d session_doubles \<Rightarrow> int \<Rightarrow> topology_configuration \<Rightarrow> string \<Rightarrow> ('d, 'g) session \<Rightarrow> bool \<times> ('d, 'g) session" where
  "commit_topology d now c message s =
     (case topology_create c of
        Inl e \<Rightarrow> (False, set_status (''Topology validation failed: '' @ validation_error_text e) s)
      | Inr t \<Rightarrow>
          let s = stop_traffic s;
              s = s\<lparr> ss_configuration := c, ss_controller := tc_load t (ss_controller s) \<rparr>;
              s = rebuild_fault_rows d (rebuild_topology_rows d (reset_simulation now (clear_selection s)))
          in (True, ss_mark DirtyTopology (set_status message s)))"

definition open_topology ::
    "'d session_doubles \<Rightarrow> int \<Rightarrow> (string \<Rightarrow> string option) \<Rightarrow> string \<Rightarrow> ('d, 'g) session \<Rightarrow> ('d, 'g) session" where
  "open_topology d now files path s =
     (let local_path = strip_file_url path in
      case topology_configuration_from_yaml_file (files local_path) of
        Inl e \<Rightarrow> set_status (''Open topology failed: '' @ yaml_error_text e) s
      | Inr c \<Rightarrow> snd (commit_topology d now c (''Loaded '' @ topo_name c) (s\<lparr> ss_path := local_path \<rparr>)))"

definition saved_node :: "topology_node \<Rightarrow> string" where
  "saved_node n = ''  - { id: '' @ yaml_quote (node_id n) @ '', type: '' @
     (if node_type n = Switch then ''switch'' else ''host'') @ '' }''"

definition saved_link :: "topology_link \<Rightarrow> string" where
  "saved_link l = ''  - { from: '' @ yaml_quote (link_from l) @ '', to: '' @ yaml_quote (link_to l) @
     '', latency_ms: '' @ int_text (link_latency_ms l) @ '' }''"

definition saved_lines :: "topology_configuration \<Rightarrow> string list" where
  "saved_lines c = [''network:'', ''  name: '' @ yaml_quote (topo_name c), [], ''nodes:''] @ map saved_node (topo_nodes c) @
     [[], ''links:''] @ map saved_link (topo_links c)"

definition saved_text :: "topology_configuration \<Rightarrow> string" where
  "saved_text c = concat (map (\<lambda>l. l @ [CHR 0x0A]) (saved_lines c))"

text \<open>What is written where, if the file could be opened, and the session.\<close>

definition save_topology ::
    "bool \<Rightarrow> bool \<Rightarrow> string \<Rightarrow> ('d, 'g) session \<Rightarrow> (string \<times> string) option \<times> ('d, 'g) session" where
  "save_topology opened written path s =
     (if \<not> has_topology s then (None, set_status ''There is no topology to save.'' s)
      else
        let local_path = strip_file_url path in
        if \<not> opened then (None, set_status (''Could not open '' @ path @ '' for writing.'') s)
        else (Some (local_path, saved_text (ss_configuration s)),
          if \<not> written then set_status (''Writing '' @ local_path @ '' failed.'') s
          else set_status (''Saved topology to '' @ file_name_of local_path) (s\<lparr> ss_path := local_path \<rparr>)))"

definition add_node :: "'d session_doubles \<Rightarrow> int \<Rightarrow> string \<Rightarrow> string \<Rightarrow> ('d, 'g) session \<Rightarrow> ('d, 'g) session" where
  "add_node d now name type s =
     (let c = ss_configuration s;
          c = (if topo_name c = [] then c\<lparr> topo_name := ''untitled-lab'' \<rparr> else c);
          trimmed_id = form_trimmed name;
          node = \<lparr> node_id = trimmed_id, node_type = (if equals_ignore_case type ''switch'' then Switch else Host) \<rparr>
      in snd (commit_topology d now (c\<lparr> topo_nodes := topo_nodes c @ [node] \<rparr>) (''Added node '' @ trimmed_id) s))"

definition add_link :: "'d session_doubles \<Rightarrow> int \<Rightarrow> string \<Rightarrow> string \<Rightarrow> i32 \<Rightarrow> ('d, 'g) session \<Rightarrow> ('d, 'g) session" where
  "add_link d now from to latency_ms s =
     (let c = ss_configuration s;
          l = \<lparr> link_from = form_trimmed from, link_to = form_trimmed to, link_latency_ms = sint latency_ms \<rparr>
      in snd (commit_topology d now (c\<lparr> topo_links := topo_links c @ [l] \<rparr>)
           (''Added link '' @ link_from l @ '' '' @ both_ways @ '' '' @ link_to l) s))"

definition remove_selected :: "'d session_doubles \<Rightarrow> int \<Rightarrow> ('d, 'g) session \<Rightarrow> ('d, 'g) session" where
  "remove_selected d now s =
     (let c = ss_configuration s; first = ss_selected_first s; second = ss_selected_second s in
      case ss_selection s of
        NoSelection \<Rightarrow> s
      | NodeSelection \<Rightarrow> snd (commit_topology d now
          (c\<lparr> topo_nodes := filter (\<lambda>n. node_id n \<noteq> first) (topo_nodes c),
             topo_links := filter (\<lambda>l. \<not> (link_from l = first \<or> link_to l = first)) (topo_links c) \<rparr>)
          (''Removed '' @ ss_selected_id s) s)
      | LinkSelection \<Rightarrow> snd (commit_topology d now
          (c\<lparr> topo_links := filter (\<lambda>l. \<not> link_matches first second l) (topo_links c) \<rparr>)
          (''Removed '' @ ss_selected_id s) s))"

section \<open>Selection\<close>

definition select_node :: "string \<Rightarrow> ('d, 'g) session \<Rightarrow> ('d, 'g) session" where
  "select_node name s =
     (case List.find (\<lambda>n. node_id n = name) (topo_nodes (ss_configuration s)) of
        None \<Rightarrow> s
      | Some n \<Rightarrow>
          ss_mark DirtySelection (s\<lparr> ss_selection := NodeSelection, ss_selected_id := name, ss_selected_first := name,
            ss_selected_second := [],
            ss_selected_summary := node_type_text (node_type n) @ '' node '' @ middle_dot @ '' '' @
              dec_of_nat (length (filter (\<lambda>l. link_from l = name \<or> link_to l = name) (topo_links (ss_configuration s)))) @
              '' connected link(s)'' \<rparr>))"

definition select_link :: "string \<Rightarrow> string \<Rightarrow> ('d, 'g) session \<Rightarrow> ('d, 'g) session" where
  "select_link from to s =
     (case List.find (link_matches from to) (topo_links (ss_configuration s)) of
        None \<Rightarrow> s
      | Some l \<Rightarrow>
          ss_mark DirtySelection (s\<lparr> ss_selection := LinkSelection, ss_selected_id := from @ '' '' @ both_ways @ '' '' @ to,
            ss_selected_first := link_from l, ss_selected_second := link_to l,
            ss_selected_summary := int_text (link_latency_ms l) @ '' ms base latency'' \<rparr>))"

section \<open>Faults\<close>

definition apply_selected_fault ::
    "'d session_doubles \<Rightarrow> i32 \<Rightarrow> 'd \<Rightarrow> bool \<Rightarrow> ('d, 'g) session \<Rightarrow> ('d, 'g) session" where
  "apply_selected_fault d latency_ms loss hole s =
     (if ss_selection s = NoSelection then set_status ''Select a host or link before applying a fault.'' s
      else
        let f = no_fault\<lparr> latency := sint latency_ms * 1000000, loss_basis_points := sd_basis_points d loss, blackhole := hole \<rparr>;
            result = (if ss_selection s = LinkSelection
              then set_link_fault (ss_selected_first s) (ss_selected_second s) f (ss_controller s)
              else set_port_fault (ss_selected_first s) f (ss_controller s))
        in rebuild_fault_rows d (case result of
             Inl e \<Rightarrow> set_status (''Apply fault failed: '' @ controller_error_text e) s
           | Inr c \<Rightarrow> set_status (''Applied fault to '' @ ss_selected_id s) (s\<lparr> ss_controller := c \<rparr>)))"

definition ss_clear_fault :: "'d session_doubles \<Rightarrow> string \<Rightarrow> string \<Rightarrow> ('d, 'g) session \<Rightarrow> ('d, 'g) session" where
  "ss_clear_fault d first second s =
     (let (cleared, c) = (if second = [] then clear_port_fault first (ss_controller s)
            else clear_link_fault first second (ss_controller s))
      in rebuild_fault_rows d (set_status (if cleared then ''Cleared fault.'' else ''The selected fault was no longer active.'')
           (s\<lparr> ss_controller := c \<rparr>)))"

section \<open>Policies\<close>

definition with_policies :: "(policy_engine \<Rightarrow> policy_engine) \<Rightarrow> ('d, 'g) session \<Rightarrow> ('d, 'g) session" where
  "with_policies f s = s\<lparr> ss_pipeline := (ss_pipeline s)\<lparr> pl_policies := f (pl_policies (ss_pipeline s)) \<rparr> \<rparr>"

definition add_policy :: "string \<Rightarrow> string \<Rightarrow> string \<Rightarrow> u64 \<Rightarrow> ('d, 'g) session \<Rightarrow> ('d, 'g) session" where
  "add_policy name type action rate s =
     (case (anomaly_type_from_label type, policy_action_from_label action) of
        (Some t, Some a) \<Rightarrow>
          (case add_rule \<lparr> pr_name = form_trimmed name, pr_type = t, pr_action = a, pr_enabled = True, pr_rate = rate \<rparr>
                  (pl_policies (ss_pipeline s)) of
             (Inl e, _) \<Rightarrow> set_status (''Policy rejected: '' @ policy_configuration_error_text e) s
           | (Inr _, e) \<Rightarrow> rebuild_policy_rows (set_status (''Policy '' @ name @ '' added.'') (with_policies (\<lambda>_. e) s)))
      | _ \<Rightarrow> set_status ''Unknown anomaly type or policy action.'' s)"

definition remove_policy :: "string \<Rightarrow> ('d, 'g) session \<Rightarrow> ('d, 'g) session" where
  "remove_policy name s =
     (case remove_rule name (pl_policies (ss_pipeline s)) of
        (False, _) \<Rightarrow> set_status (''No policy named '' @ name @ ''.'') s
      | (True, e) \<Rightarrow> rebuild_policy_rows (set_status (''Policy '' @ name @ '' removed.'') (with_policies (\<lambda>_. e) s)))"

definition set_policy_enabled :: "string \<Rightarrow> bool \<Rightarrow> ('d, 'g) session \<Rightarrow> ('d, 'g) session" where
  "set_policy_enabled name enabled s =
     (case set_enabled name enabled (pl_policies (ss_pipeline s)) of
        (False, _) \<Rightarrow> set_status (''No policy named '' @ name @ ''.'') s
      | (True, e) \<Rightarrow>
          rebuild_policy_rows (set_status (''Policy '' @ name @ '' '' @ (if enabled then ''enabled'' else ''disabled'') @ ''.'')
            (with_policies (\<lambda>_. e) s)))"

definition release_enforcement :: "'d session_doubles \<Rightarrow> string \<Rightarrow> ('d, 'g) session \<Rightarrow> ('d, 'g) session" where
  "release_enforcement d port s =
     (case pl_release port (ss_pipeline s) (ss_controller s) of
        (False, _) \<Rightarrow> set_status (''Port '' @ port @ '' is not under enforcement.'') s
      | (True, p, c) \<Rightarrow>
          ss_mark DirtyTelemetry (rebuild_policy_rows (rebuild_fault_rows d
            (set_status (''Released enforcement on '' @ port @ ''.'') (s\<lparr> ss_pipeline := p, ss_controller := c \<rparr>)))))"

section \<open>The constructor\<close>

text \<open>The exception is the detector's.\<close>

definition session_new :: "'d session_doubles \<Rightarrow> int \<Rightarrow> detector_error + ('d, 'g) session" where
  "session_new d now =
     (case pl_new desktop_anomaly_config default_enforcer_config True of
        Inl e \<Rightarrow> Inl e
      | Inr p \<Rightarrow> Inr (rebuild_policy_rows \<lparr>
          ss_dirty = 0, ss_status = [], ss_nodes = [], ss_links = [], ss_selection = NoSelection, ss_selected_id = [],
          ss_selected_first = [], ss_selected_second = [], ss_selected_summary = [], ss_result = [], ss_history = [],
          ss_mac_table = [], ss_ports = [], ss_packets = [], ss_anomalies = [], ss_faults = [], ss_policies = [],
          ss_actions = [], ss_enforced = [],
          ss_controller = tc_new 1, ss_configuration = no_topology, ss_path = [], ss_pipeline = p,
          ss_running = False, ss_backend = ''CPU'', ss_scenario = Mixed, ss_packets_per_tick = 256, ss_frame_size = 64,
          ss_seed = 1, ss_tick = 0, ss_total_packets = 0, ss_total_bytes = 0, ss_total_dropped = 0, ss_generator = None,
          ss_analyzer = None, ss_counters = [], ss_start = now, ss_learned = [],
          ss_reporting = False, ss_progress = db_literal (sd_numbers d) 0, ss_stage = [], ss_export_path = [],
          ss_report_config = default_benchmark_config, ss_queue = [], ss_index = 0, ss_budget = 0, ss_completed = 0,
          ss_total = 0, ss_run = None, ss_results = [], ss_rows = [],
          ss_provenance = \<lparr> rv_scenario = [], rv_seed = 0, rv_packets = 0, rv_batch_size = 0, rv_frame_size = 0,
            rv_host_count = 0, rv_generator = [], rv_version = [], rv_build_type = [], rv_compiled = [], rv_present = [],
            rv_generated_at = [] \<rparr> \<rparr>))"

end
