(* ===== verification/Session_Traffic.thy ===== *)
theory Session_Traffic
  imports Session
begin

text \<open>
  The traffic of a session, \<^verbatim>\<open>src/session_traffic.cpp\<close>: starting it, and one tick, in which frames are generated,
  pass the faults of a port and of its link, are analyzed, and the telemetry rows are rebuilt. What devices
  this build has and how their analyzers answer, or fail, are arguments; so are the readings of the clock.
\<close>

section \<open>Starting\<close>

text \<open>The devices found beside the CPU, by label, with the analyzer each supplies or what its constructor throws. The
  analyzer of a device answers or throws: \<open>CudaPacketAnalyzer::analyze\<close> and its two siblings do so for a frame of more than
  65535 bytes and for every error of the device. Either way the analyzer object may have changed.\<close>

record 'g session_devices =
  dv_devices :: "(string \<times> (string + 'g)) list"
  dv_analyze :: "packet_view list \<Rightarrow> 'g \<Rightarrow> (string + analysis_batch) \<times> 'g"

definition available_backends :: "'g session_devices \<Rightarrow> string list" where
  "available_backends v = ''CPU'' # map fst (dv_devices v)"

text \<open>What the constructor of the generator throws.\<close>

definition what_of :: "generator_error \<Rightarrow> string" where
  "what_of e = (case e of FrameSizeTooSmall \<Rightarrow> ''frame_size must include a complete Ethernet header''
     | TooFewHosts \<Rightarrow> ''host_count must be at least two'')"

text \<open>The analyzer of a backend: a fresh one of the CPU, or what the constructor of the device's did.\<close>

definition device_analyzer :: "'g session_devices \<Rightarrow> string \<Rightarrow> string + 'g any_analyzer" where
  "device_analyzer v backend =
     (case map_of (dv_devices v) backend of None \<Rightarrow> Inr (Inl {}) | Some (Inl what) \<Rightarrow> Inl what | Some (Inr g) \<Rightarrow> Inr (Inr g))"

text \<open>An exception is the generator's or that of the device's analyzer, by its text; what was assigned before it stays. The
  analyzer is that of the CPU until the device's has been constructed.\<close>

definition start_traffic ::
    "'g session_devices \<Rightarrow> string \<Rightarrow> i32 \<Rightarrow> i32 \<Rightarrow> u64 \<Rightarrow> string \<Rightarrow> ('d, 'g) session
      \<Rightarrow> string option \<times> ('d, 'g) session" where
  "start_traffic v scenario packets frame sd backend s =
     (if \<not> has_topology s then (None, set_status ''Load or create a topology before starting traffic.'' s)
      else
        case scenario_from_text scenario of
          Inl _ \<Rightarrow> (None, set_status ''Traffic settings are invalid.'' s)
        | Inr parsed \<Rightarrow>
            if sint packets \<le> 0 \<or> sint frame < 14 then (None, set_status ''Traffic settings are invalid.'' s)
            else if backend \<notin> set (available_backends v)
            then (None, set_status (backend @ '' is not available in this build or on this system.'') s)
            else
              let s = s\<lparr> ss_scenario := parsed, ss_packets_per_tick := packets, ss_frame_size := frame, ss_seed := sd,
                         ss_backend := backend \<rparr>;
                  hosts = of_nat (max 1 (length (host_ids (ss_configuration s))))
              in case generator_new \<lparr> tg_scenario = parsed, tg_seed = sd, tg_frame_size = nat (sint frame), tg_host_count = hosts \<rparr> of
                   Inl e \<Rightarrow> (Some (what_of e), s)
                 | Inr g \<Rightarrow>
                     let s = s\<lparr> ss_generator := Some g, ss_analyzer := Some (Inl {}) \<rparr>
                     in case device_analyzer v backend of
                          Inl what \<Rightarrow> (Some what, s)
                        | Inr a \<Rightarrow>
                            let s = s\<lparr> ss_analyzer := Some a, ss_running := True \<rparr>
                            in (None, ss_mark DirtyTraffic (set_status (''Traffic running on '' @ backend) s)))"

section \<open>Frames\<close>

text \<open>What the loop over the frames of a tick keeps.\<close>

record tick_state =
  tk_controller :: topology_controller
  tk_counters :: "(string \<times> port_counters) list"
  tk_delivered :: "packet_view list"
  tk_bytes :: u64
  tk_dropped :: u64
  tk_latency :: int
  tk_samples :: u64

definition tick_drop :: "string \<Rightarrow> tick_state \<Rightarrow> tick_state" where
  "tick_drop host k = k\<lparr> tk_counters := count_port host (\<lambda>c. c\<lparr> pc_dropped := pc_dropped c + 1 \<rparr>) (tk_counters k),
     tk_dropped := tk_dropped k + 1 \<rparr>"

definition tick_deliver :: "string \<Rightarrow> nat \<Rightarrow> bytes \<Rightarrow> nat \<Rightarrow> tick_state \<Rightarrow> tick_state" where
  "tick_deliver host i frame copies k =
     k\<lparr> tk_counters := count_port host (\<lambda>c. c\<lparr> pc_forwarded := pc_forwarded c + of_nat copies \<rparr>) (tk_counters k),
        tk_bytes := tk_bytes k + of_nat copies * of_nat (length frame),
        tk_delivered := tk_delivered k @ replicate copies \<lparr> pv_bytes = Some frame, pv_size = length frame, pv_ingress = of_nat i \<rparr> \<rparr>"

text \<open>The frame with number \<open>i\<close> of host \<open>host_index\<close>: the decision of its port, its link to the switch, the decision
  of the link, and the copies that are left. \<open>delivery_times\<close> is an array of two.\<close>

definition tick_frame ::
    "topology_link list \<Rightarrow> string list \<Rightarrow> string \<Rightarrow> int \<Rightarrow> nat \<Rightarrow> bytes \<Rightarrow> tick_state \<Rightarrow> tick_state" where
  "tick_frame ls hosts switch_id arrival i frame k =
     (let host = hosts ! i;
          k = k\<lparr> tk_counters := count_port host (\<lambda>c. c\<lparr> pc_received := pc_received c + 1 \<rparr>) (tk_counters k) \<rparr>;
          (port, c) = evaluate_port host (length frame) arrival (tk_controller k);
          k = k\<lparr> tk_controller := c \<rparr>
      in case port of
           Inl _ \<Rightarrow> tick_drop host k
         | Inr p \<Rightarrow>
             if dropped p then tick_drop host k
             else case List.find (link_matches host switch_id) ls of
               None \<Rightarrow> tick_drop host k
             | Some l \<Rightarrow>
                 let (link, c) = evaluate_link (link_from l) (link_to l) (length frame) (delivery_times p ! 0) (tk_controller k);
                     k = k\<lparr> tk_controller := c \<rparr>
                 in case link of
                      Inl _ \<Rightarrow> tick_drop host k
                    | Inr q \<Rightarrow>
                        if dropped q then tick_drop host k
                        else let deliveries = delivery_count p * delivery_count q in
                          if deliveries = 0 then tick_drop host k
                          else
                            let k = tick_deliver host i frame deliveries k
                            in k\<lparr> tk_latency := tk_latency k + (delivery_times q ! 0 - arrival), tk_samples := tk_samples k + 1 \<rparr>)"

text \<open>The frames from index \<open>index\<close> on; \<open>base\<close> is the number of the first frame of the tick.\<close>

fun tick_frames ::
    "topology_link list \<Rightarrow> string list \<Rightarrow> string \<Rightarrow> int \<Rightarrow> u64 \<Rightarrow> nat \<Rightarrow> bytes list \<Rightarrow> tick_state \<Rightarrow> tick_state" where
  "tick_frames ls hosts switch_id arrival base index [] k = k"
| "tick_frames ls hosts switch_id arrival base index (frame # frames) k =
     tick_frames ls hosts switch_id arrival base (Suc index) frames
       (tick_frame ls hosts switch_id arrival (unat (base + of_nat index) mod length hosts) frame k)"

section \<open>Telemetry\<close>

text \<open>\<open>while (size > n) erase(begin)\<close>.\<close>

definition last_of :: "nat \<Rightarrow> 'a list \<Rightarrow> 'a list" where
  "last_of n xs = drop (length xs - n) xs"

definition ingress_text :: "string list \<Rightarrow> u32 \<Rightarrow> string" where
  "ingress_text hosts i = (if unat i < length hosts then hosts ! unat i else uint_text i)"

definition packet_row_of :: "string list \<Rightarrow> packet_analysis \<Rightarrow> packet_row" where
  "packet_row_of hosts p = \<lparr> pk_source_mac = mac_to_string (pa_source_mac p), pk_destination_mac = mac_to_string (pa_destination_mac p),
     pk_source_ip = ipv4_string (pa_source_ipv4 p), pk_destination_ip = ipv4_string (pa_destination_ipv4 p),
     pk_ingress = ingress_text hosts (pa_ingress p), pk_protocol = pa_protocol p,
     pk_destination_port = pa_destination_port p, pk_bytes = pa_frame_length p,
     pk_classification = pa_classification p, pk_validity = pa_validity p \<rparr>"

definition mac_row_less :: "string \<times> string \<Rightarrow> string \<times> string \<Rightarrow> bool" where
  "mac_row_less x y \<longleftrightarrow> fst x < fst y \<or> \<not> fst y < fst x \<and> snd x < snd y"

definition anomaly_row_of :: "anomaly_event \<Rightarrow> anomaly_row" where
  "anomaly_row_of a = \<lparr> ar_type = ev_type a, ar_source_mac = mac_to_string (ev_source_mac a),
     ar_source_ip = ipv4_string (ev_source_ipv4 a), ar_ingress = ev_ingress a, ar_observed = ev_packets a,
     ar_threshold = ev_threshold a \<rparr>"

definition action_row_of :: "u64 \<Rightarrow> string \<Rightarrow> enforcement_action \<Rightarrow> policy_action_row" where
  "action_row_of n detail a = \<lparr> ac_sequence = n, ac_rule = ea_rule a, ac_type = ea_type a, ac_action = ea_action a,
     ac_port = ea_port a, ac_outcome = ea_outcome a, ac_detail = detail \<rparr>"

definition port_row_of :: "enforcer \<Rightarrow> (string \<times> port_counters) list \<Rightarrow> string \<Rightarrow> port_state_row" where
  "port_row_of en cs host =
     (let c = (case map_of cs host of None \<Rightarrow> no_traffic | Some c \<Rightarrow> c) in
      \<lparr> po_id = host, po_enforced = is_enforced en host, po_received = pc_received c, po_forwarded = pc_forwarded c,
        po_dropped = pc_dropped c \<rparr>)"

text \<open>The rows of the packets and of the learned addresses, which come before the clock is read.\<close>

definition packet_telemetry ::
    "'d session_doubles \<Rightarrow> analysis_batch \<Rightarrow> u64 \<Rightarrow> 'd \<Rightarrow> 'd \<Rightarrow> ('d, 'g) session \<Rightarrow> ('d, 'g) session" where
  "packet_telemetry d analysis lost throughput average s =
     (let n = sd_numbers d;
          loss = (if ss_packets_per_tick s = 0 then db_literal n 0
            else db_divide n (db_times n (db_literal n 100) (db_of n lost)) (sd_of_int d (sint (ss_packets_per_tick s))));
          sample = \<lparr> ms_sequence = ss_tick s, ms_throughput = throughput, ms_latency = average, ms_loss = loss \<rparr>;
          shown = map (packet_row_of (host_ids (ss_configuration s))) (take 100 (ab_packets analysis));
          learned = fold (\<lambda>r. umap_assign (pk_source_mac r) (pk_ingress r)) shown (ss_learned s)
      in s\<lparr> ss_history := last_of 60 (ss_history s @ [sample]), ss_packets := shown, ss_learned := learned,
            ss_mac_table := std_sort mac_row_less learned \<rparr>)"

text \<open>The rows of what the pipeline found and did, and of the ports.\<close>

definition outcome_telemetry ::
    "'d session_doubles \<Rightarrow> analysis_outcome \<Rightarrow> 'd \<Rightarrow> 'd \<Rightarrow> ('d, 'g) session \<Rightarrow> ('d, 'g) session" where
  "outcome_telemetry d out throughput average s =
     (let actions = map (action_row_of (ss_tick s) ''Lease expired, fault restored'') (ao_released out) @
            map (\<lambda>a. action_row_of (ss_tick s) (enforcement_summary a) a) (ao_enforced out);
          s = s\<lparr> ss_anomalies := map anomaly_row_of (ao_anomalies out), ss_actions := last_of 200 (ss_actions s @ actions) \<rparr>;
          s = (if ao_released out \<noteq> [] \<or> ao_enforced out \<noteq> [] then rebuild_policy_rows (rebuild_fault_rows d s) else s);
          hosts = host_ids (ss_configuration s);
          counters = fold (\<lambda>h. count_port h (\<lambda>c. c)) hosts (ss_counters s)
      in ss_mark DirtyTelemetry (s\<lparr> ss_counters := counters,
           ss_ports := map (port_row_of (pl_enforcer (ss_pipeline s)) counters) hosts,
           ss_result := uint_text (ss_total_packets s) @ '' packets generated '' @ middle_dot @ '' '' @
             uint_text (ss_total_bytes s) @ '' delivered bytes '' @ middle_dot @ '' '' @
             uint_text (ss_total_dropped s) @ '' dropped '' @ middle_dot @ '' '' @
             sd_fixed d 3 throughput @ '' Mbps '' @ middle_dot @ '' '' @ sd_fixed d 2 average @ '' ms average'' \<rparr>))"

text \<open>A tick fails if the detector throws, a frame is read outside its bytes, or the analyzer of a device throws; only
  the last happens to a session that can be reached, so the session it leaves is kept. The clock is read at the arrival of
  the frames and before the evaluation.\<close>

datatype 's tick_failure = DetectorThrew detector_error | ReadOutside | AnalyzerThrew string 's

definition rebuild_telemetry_rows ::
    "'d session_doubles \<Rightarrow> int \<Rightarrow> analysis_batch \<Rightarrow> u64 \<Rightarrow> 'd \<Rightarrow> 'd \<Rightarrow> ('d, 'g) session \<Rightarrow>
      ('d, 'g) session tick_failure + ('d, 'g) session" where
  "rebuild_telemetry_rows d now analysis lost throughput average s =
     (let s = packet_telemetry d analysis lost throughput average s;
          elapsed = word_of_int (max (now - ss_start s) 0)
      in case pl_evaluate (ab_packets analysis) elapsed now (ss_pipeline s) (ss_controller s) of
           Inl e \<Rightarrow> Inl (DetectorThrew e)
         | Inr (out, p, c) \<Rightarrow>
             Inr (outcome_telemetry d out throughput average (s\<lparr> ss_pipeline := p, ss_controller := c \<rparr>)))"

text \<open>\<open>None\<close> if a frame is read outside its bytes.\<close>

definition analyze_any ::
    "'g session_devices \<Rightarrow> packet_view list \<Rightarrow> 'g any_analyzer \<Rightarrow> ((string + analysis_batch) \<times> 'g any_analyzer) option" where
  "analyze_any v views a =
     (case a of
        Inl learned \<Rightarrow> map_option (\<lambda>(b, learned). (Inr b, Inl learned)) (analyze_views views learned)
      | Inr g \<Rightarrow> (let (answer, g) = dv_analyze v views g in Some (answer, Inr g)))"

section \<open>A tick\<close>

text \<open>The switch is the last node that is not a host; the empty text if there is none.\<close>

definition tick_switch :: "topology_configuration \<Rightarrow> string" where
  "tick_switch c = (let others = map node_id (filter (\<lambda>n. node_type n \<noteq> Host) (topo_nodes c)) in if others = [] then [] else last others)"

definition tick_begin :: "('d, 'g) session \<Rightarrow> tick_state" where
  "tick_begin s = \<lparr> tk_controller = ss_controller s, tk_counters = ss_counters s, tk_delivered = [], tk_bytes = 0, tk_dropped = 0,
     tk_latency = 0, tk_samples = 0 \<rparr>"

definition forward_frames :: "int \<Rightarrow> bytes list \<Rightarrow> ('d, 'g) session \<Rightarrow> tick_state" where
  "forward_frames arrival frames s =
     (let c = ss_configuration s in
      tick_frames (topo_links c) (host_ids c) (tick_switch c) arrival (ss_tick s * scast (ss_packets_per_tick s)) 0 frames (tick_begin s))"

text \<open>Nothing is analyzed without frames or without an analyzer.\<close>

definition analyze_delivered ::
    "'g session_devices \<Rightarrow> packet_view list \<Rightarrow> 'g any_analyzer option \<Rightarrow>
      ((string + analysis_batch) \<times> 'g any_analyzer option) option" where
  "analyze_delivered v views analyzer =
     (case analyzer of
        None \<Rightarrow> Some (Inr empty_batch, None)
      | Some a \<Rightarrow> if views = [] then Some (Inr empty_batch, Some a) else map_option (\<lambda>(answer, a). (answer, Some a)) (analyze_any v views a))"

definition tick_throughput :: "'d session_doubles \<Rightarrow> tick_state \<Rightarrow> 'd" where
  "tick_throughput d k = (let n = sd_numbers d in
     db_divide n (db_times n (db_of n (tk_bytes k)) (db_literal n 16)) (db_literal n 1000000))"

definition tick_average :: "'d session_doubles \<Rightarrow> tick_state \<Rightarrow> 'd" where
  "tick_average d k = (let n = sd_numbers d in
     if tk_samples k = 0 then db_literal n 0
     else db_divide n (db_divide n (sd_of_int d (tk_latency k)) (db_literal n 1000000)) (db_of n (tk_samples k)))"

text \<open>The session after the frames: the objects they went through, and then the totals.\<close>

definition through_frames ::
    "traffic_generator \<Rightarrow> 'g any_analyzer option \<Rightarrow> tick_state \<Rightarrow> ('d, 'g) session \<Rightarrow> ('d, 'g) session" where
  "through_frames g a k s =
     s\<lparr> ss_generator := Some g, ss_analyzer := a, ss_controller := tk_controller k, ss_counters := tk_counters k \<rparr>"

definition after_frames ::
    "traffic_generator \<Rightarrow> 'g any_analyzer option \<Rightarrow> nat \<Rightarrow> tick_state \<Rightarrow> ('d, 'g) session \<Rightarrow> ('d, 'g) session" where
  "after_frames g a n k s =
     (through_frames g a k s)\<lparr> ss_total_packets := ss_total_packets s + of_nat n, ss_total_bytes := ss_total_bytes s + tk_bytes k,
        ss_total_dropped := ss_total_dropped s + tk_dropped k, ss_tick := ss_tick s + 1 \<rparr>"

definition run_traffic_step ::
    "'d session_doubles \<Rightarrow> 'g session_devices \<Rightarrow> int \<Rightarrow> int \<Rightarrow> ('d, 'g) session \<Rightarrow>
      ('d, 'g) session tick_failure + ('d, 'g) session" where
  "run_traffic_step d v arrival now s =
     (case (ss_running s, ss_generator s) of
        (True, Some g) \<Rightarrow>
          if host_ids (ss_configuration s) = [] \<or> tick_switch (ss_configuration s) = []
          then Inr (set_status ''Traffic requires at least one host and one switch.'' (stop_traffic s))
          else
            let (frames, g) = generate (nat (sint (ss_packets_per_tick s))) g;
                k = forward_frames arrival frames s
            in (case analyze_delivered v (tk_delivered k) (ss_analyzer s) of
                  None \<Rightarrow> Inl ReadOutside
                | Some (Inl what, a) \<Rightarrow> Inl (AnalyzerThrew what (through_frames g a k s))
                | Some (Inr analysis, a) \<Rightarrow>
                    rebuild_telemetry_rows d now analysis (tk_dropped k) (tick_throughput d k) (tick_average d k)
                      (after_frames g a (length frames) k s))
      | _ \<Rightarrow> Inr s)"

end
