(* ===== verification/Session_Report.thy ===== *)
theory Session_Report
  imports Session_Traffic
begin

text \<open>
  The benchmark report of a session, \<^verbatim>\<open>src/session_report.cpp\<close>, over the backends of a build,
  \<^verbatim>\<open>src/accelerated_backends.cpp\<close>: the queue of backends, measured one after the other in slices, the rows and
  their provenance, and the two files a report is exported to. Which devices a build has, what its version
  is and what the calendar says are arguments, as is whether a file could be written. The functions of the sections on
  measuring are the executions in which no backend throws; the executions in which one does have a section of their own.
\<close>

section \<open>Backends of a build\<close>

text \<open>The two macros of the build, and the devices the machine has, by the name of their backend: the backend a device
  supplies, and what its constructor and its analyzer may throw. \<open>an_analyze\<close> of such a backend is what it answers when it
  does not throw.\<close>

record 'g build =
  bu_cuda :: bool
  bu_metal :: bool
  bu_backend :: "string \<Rightarrow> 'g any_analyzer benchmark_backend option"
  bu_throws :: "string \<Rightarrow> string \<Rightarrow> bool"
  bu_source :: "traffic_config \<Rightarrow> batch_source option"
  bu_version :: string
  bu_type :: string

definition backend_is_compiled_in :: "'g build \<Rightarrow> string \<Rightarrow> bool" where
  "backend_is_compiled_in b name \<longleftrightarrow>
     name = ''cpu'' \<or> bu_cuda b \<and> name = ''cuda'' \<or> bu_metal b \<and> (name = ''metal'' \<or> name = ''metal-live'')"

definition accelerated_backend_factory :: "'g build \<Rightarrow> 'g any_analyzer backend_factory" where
  "accelerated_backend_factory b config =
     (if bc_backend config = ''cpu'' then any_cpu_factory config
      else if backend_is_compiled_in b (bc_backend config) then
        (case bu_backend b (bc_backend config) of None \<Rightarrow> Inl BackendUnavailable | Some backend \<Rightarrow> Inr backend)
      else Inl UnknownBackend)"

definition accelerated_source_factory :: "'g build \<Rightarrow> source_factory" where
  "accelerated_source_factory b config =
     (if bc_generator config = ''cpu'' then cpu_traffic_source_factory config
      else if bu_metal b \<and> bc_generator config = ''metal'' then
        (case bu_source b (bc_traffic config) of None \<Rightarrow> Inl BackendUnavailable | Some source \<Rightarrow> Inr (Some source))
      else Inl UnknownBackend)"

definition accelerated_packet_analyzer :: "'g build \<Rightarrow> string \<Rightarrow> benchmark_error + 'g any_analyzer option" where
  "accelerated_packet_analyzer b backend =
     (case accelerated_backend_factory b (default_benchmark_config\<lparr> bc_backend := backend \<rparr>) of
        Inl e \<Rightarrow> Inl e | Inr built \<Rightarrow> Inr (bb_analyzer built))"

section \<open>Measuring\<close>

definition rebuild_report_rows :: "'d session_doubles \<Rightarrow> ('d, 'g) session \<Rightarrow> ('d, 'g) session" where
  "rebuild_report_rows d s =
     (let zero = db_literal (sd_numbers d) 0;
          cpu = fold (\<lambda>r best. if br_backend r = ''cpu'' then br_packets_per_second r else best) (ss_results s) zero
      in s\<lparr> ss_rows := map (\<lambda>r.
           \<lparr> rw_label = benchmark_backend_label (br_backend r), rw_backend = br_backend r, rw_scenario = br_scenario r,
             rw_packets = br_completed r, rw_elapsed_ns = br_elapsed_ns r,
             rw_packets_per_second = br_packets_per_second r, rw_goodput = br_goodput r, rw_loss = br_loss r,
             rw_p50 = br_p50 r, rw_p95 = br_p95 r, rw_p99 = br_p99 r, rw_timing = br_timing r,
             rw_speedup = (if sd_not_positive d cpu then zero else db_divide (sd_numbers d) (br_packets_per_second r) cpu) \<rparr>)
           (ss_results s) \<rparr>)"

text \<open>\<open>now\<close> is the calendar's text.\<close>

definition rebuild_report_provenance :: "'g build \<Rightarrow> 'g session_devices \<Rightarrow> string \<Rightarrow> ('d, 'g) session \<Rightarrow> ('d, 'g) session" where
  "rebuild_report_provenance b v now s =
     (let c = ss_report_config s in
      s\<lparr> ss_provenance := \<lparr> rv_scenario = scenario_text (tg_scenario (bc_traffic c)), rv_seed = tg_seed (bc_traffic c),
           rv_packets = of_nat (bc_packet_count c), rv_batch_size = of_nat (bc_batch_size c),
           rv_frame_size = of_nat (tg_frame_size (bc_traffic c)), rv_host_count = ucast (tg_host_count (bc_traffic c)),
           rv_generator = bc_generator c, rv_version = bu_version b, rv_build_type = bu_type b,
           rv_compiled = filter (\<lambda>label. backend_is_compiled_in b (benchmark_backend_id label))
             [''CPU'', ''CUDA'', ''Metal'', ''Metal (live)''],
           rv_present = available_backends v, rv_generated_at = now \<rparr> \<rparr>)"

definition finish_report :: "'d session_doubles \<Rightarrow> ('d, 'g) session \<Rightarrow> ('d, 'g) session" where
  "finish_report d s =
     ss_mark DirtyReport (set_status ''Benchmark report complete.''
       (s\<lparr> ss_run := None, ss_reporting := False, ss_progress := db_literal (sd_numbers d) 1,
           ss_stage := dec_of_nat (length (ss_rows s)) @ '' backend(s) measured '' @ middle_dot @ '' '' @
             dec_of_nat (bc_packet_count (ss_report_config s)) @ '' packets each'' \<rparr>))"

definition report_backend_config :: "('d, 'g) session \<Rightarrow> benchmark_config" where
  "report_backend_config s = (ss_report_config s)\<lparr> bc_backend := benchmark_backend_id (ss_queue s ! ss_index s) \<rparr>"

function begin_next_report_backend :: "'g build \<Rightarrow> ('d, 'g) session \<Rightarrow> bool \<times> ('d, 'g) session" where
  "begin_next_report_backend b s =
     (if ss_index s < length (ss_queue s) then
        (case bench_create (report_backend_config s) (Some (accelerated_backend_factory b)) (Some cpu_traffic_source_factory) of
           Inr run \<Rightarrow> (True, s\<lparr> ss_run := Some run,
             ss_stage := ''Measuring '' @ ss_queue s ! ss_index s @ '' ('' @ dec_of_nat (ss_index s + 1) @ '' of '' @
               dec_of_nat (length (ss_queue s)) @ '')'' \<rparr>)
         | Inl _ \<Rightarrow> begin_next_report_backend b
             (s\<lparr> ss_completed := ss_completed s + of_nat (bc_packet_count (ss_report_config s)), ss_index := ss_index s + 1 \<rparr>))
      else (False, s))"
  by pat_completeness auto
termination
  by (relation "measure (\<lambda>(b, s). length (ss_queue s) - ss_index s)") auto

declare begin_next_report_backend.simps [simp del]

definition report_config_of :: "traffic_scenario \<Rightarrow> i32 \<Rightarrow> i32 \<Rightarrow> i32 \<Rightarrow> i32 \<Rightarrow> benchmark_config" where
  "report_config_of scenario packets batch frame sd = default_benchmark_config\<lparr>
     bc_traffic := (bc_traffic default_benchmark_config)\<lparr> tg_scenario := scenario, tg_seed := scast sd,
       tg_frame_size := nat (sint frame) \<rparr>,
     bc_packet_count := nat (sint packets), bc_batch_size := nat (sint batch) \<rparr>"

definition report_prepared ::
    "'d session_doubles \<Rightarrow> 'g build \<Rightarrow> 'g session_devices \<Rightarrow> string \<Rightarrow> benchmark_config \<Rightarrow> ('d, 'g) session \<Rightarrow> ('d, 'g) session" where
  "report_prepared d b v now config s =
     rebuild_report_provenance b v now (s\<lparr> ss_report_config := config, ss_queue := available_backends v, ss_index := 0,
       ss_results := [], ss_rows := [], ss_export_path := [], ss_completed := 0,
       ss_total := of_nat (bc_packet_count config) * of_nat (length (available_backends v)),
       ss_budget := max (bc_batch_size config) ((bc_packet_count config + 19) div 20),
       ss_reporting := True, ss_progress := db_literal (sd_numbers d) 0 \<rparr>)"

definition run_benchmark_report ::
    "'d session_doubles \<Rightarrow> 'g build \<Rightarrow> 'g session_devices \<Rightarrow> string \<Rightarrow> string \<Rightarrow> i32 \<Rightarrow> i32 \<Rightarrow> i32 \<Rightarrow> i32
      \<Rightarrow> ('d, 'g) session \<Rightarrow> ('d, 'g) session" where
  "run_benchmark_report d b v now scenario packets batch frame sd s =
     (if ss_reporting s then set_status ''A benchmark report is already running.'' s
      else
        case scenario_from_text scenario of
          Inl _ \<Rightarrow> set_status ''Report settings are invalid.'' s
        | Inr parsed \<Rightarrow>
            if sint packets \<le> 0 \<or> sint batch \<le> 0 \<or> sint sd < 0 \<or> sint frame < int ethernet_header_size \<or>
               sint frame > int MAX_BENCHMARK_FRAME_SIZE
            then set_status ''Report settings are invalid.'' s
            else
              let (armed, s) = begin_next_report_backend b (report_prepared d b v now (report_config_of parsed packets batch frame sd) s)
              in if \<not> armed then finish_report d s
                 else ss_mark DirtyReport (set_status (''Benchmark report running on '' @ dec_of_nat (length (ss_queue s)) @
                   '' backend(s).'') s))"

text \<open>One slice of the run; \<open>None\<close> if it does not return, or if there were no run to advance.
  \<open>spent\<close> and \<open>slice_ns\<close> are what the clock measured.\<close>

definition report_progressed :: "'d session_doubles \<Rightarrow> ('d, 'g) session \<Rightarrow> ('d, 'g) session" where
  "report_progressed d s =
     ss_mark DirtyReport (s\<lparr> ss_progress := (if ss_total s = 0 then db_literal (sd_numbers d) 1
       else db_divide (sd_numbers d) (db_of (sd_numbers d) (ss_completed s)) (db_of (sd_numbers d) (ss_total s))) \<rparr>)"

definition report_advanced :: "'g any_analyzer bench_run \<Rightarrow> 'g any_analyzer bench_run \<Rightarrow> ('d, 'g) session \<Rightarrow> ('d, 'g) session" where
  "report_advanced run run' s =
     s\<lparr> ss_run := Some run', ss_completed := ss_completed s + of_nat (rn_completed run' - rn_completed run) \<rparr>"

definition report_closed :: "'d session_doubles \<Rightarrow> 'g any_analyzer bench_run \<Rightarrow> ('d, 'g) session \<Rightarrow> ('d, 'g) session" where
  "report_closed d run' s =
     rebuild_report_rows d (s\<lparr> ss_results := ss_results s @ [bench_result (sd_numbers d) run'], ss_run := None,
       ss_index := ss_index s + 1 \<rparr>)"

definition report_slice ::
    "'d session_doubles \<Rightarrow> 'g build \<Rightarrow> (nat \<Rightarrow> u64) \<Rightarrow> u64 \<Rightarrow> 'g any_analyzer bench_run \<Rightarrow> ('d, 'g) session \<Rightarrow> ('d, 'g) session option" where
  "report_slice d b spent slice_ns run s =
     map_option (\<lambda>(advanced, run').
       let s = report_advanced run run' s
       in if \<not> bench_finished run' then report_progressed d s
          else
            let (armed, s) = begin_next_report_backend b (report_closed d run' s)
            in if armed then report_progressed d s else finish_report d s)
     (bench_advance spent slice_ns (ss_budget s) run)"

definition run_report_step ::
    "'d session_doubles \<Rightarrow> 'g build \<Rightarrow> (nat \<Rightarrow> u64) \<Rightarrow> u64 \<Rightarrow> ('d, 'g) session \<Rightarrow> ('d, 'g) session option" where
  "run_report_step d b spent slice_ns s =
     (if \<not> ss_reporting s then Some s
      else
        let (armed, s) = (if ss_run s = None then begin_next_report_backend b s else (True, s))
        in if \<not> armed then Some (finish_report d s)
           else case ss_run s of
             None \<Rightarrow> None
           | Some run \<Rightarrow> report_slice d b spent slice_ns run s)"

section \<open>Backends that throw\<close>

text \<open>Nothing catches an exception of a backend inside the session, so it leaves the session as it is then. The
  constructor of a backend may throw, at a position of the queue; its analyzer, after some batches of a slice and, if it is
  streaming, after some answers of the batch that failed; and a streaming analyzer also when it is drained. What the CPU does
  never throws.\<close>

definition backend_throws :: "'g build \<Rightarrow> string \<Rightarrow> string \<Rightarrow> bool" where
  "backend_throws b name what \<longleftrightarrow> name \<noteq> ''cpu'' \<and> backend_is_compiled_in b name \<and> bu_throws b name what"

datatype 'g report_failure = ConstructorThrew nat | AnalysisThrew nat "answer list" 'g | DrainThrew 'g

text \<open>The loop over the queue, up to the position whose backend throws; \<open>None\<close> if it is not reached.\<close>

function begin_throws :: "'g build \<Rightarrow> string \<Rightarrow> nat \<Rightarrow> ('d, 'g) session \<Rightarrow> ('d, 'g) session option" where
  "begin_throws b what i s =
     (if ss_index s < length (ss_queue s) then
        if ss_index s = i then
          if bench_config_ok (report_backend_config s) \<and> backend_throws b (bc_backend (report_backend_config s)) what
          then Some s else None
        else
          (case bench_create (report_backend_config s) (Some (accelerated_backend_factory b)) (Some cpu_traffic_source_factory) of
             Inr run \<Rightarrow> None
           | Inl _ \<Rightarrow> begin_throws b what i
               (s\<lparr> ss_completed := ss_completed s + of_nat (bc_packet_count (ss_report_config s)), ss_index := ss_index s + 1 \<rparr>))
      else None)"
  by pat_completeness auto
termination
  by (relation "measure (\<lambda>(b, what, i, s). length (ss_queue s) - ss_index s)") auto

declare begin_throws.simps [simp del]

text \<open>The first \<open>k\<close> batches of a slice, with another to follow; then the slice that throws. The time of a slice that threw is
  not added, and its last batch does not count as completed.\<close>

fun bench_batches :: "(nat \<Rightarrow> u64) \<Rightarrow> nat \<Rightarrow> nat \<Rightarrow> nat \<Rightarrow> 'a bench_run \<Rightarrow> 'a bench_run option" where
  "bench_batches spent budget here 0 r = Some r"
| "bench_batches spent budget here (Suc k) r =
     (case bench_batch spent r of
        (left, n, r) \<Rightarrow>
          if \<not> left \<and> here + n < budget \<and> rn_completed r < bc_packet_count (rn_config r)
          then bench_batches spent budget (here + n) k r
          else None)"

definition bench_advance_throws ::
    "(nat \<Rightarrow> u64) \<Rightarrow> nat \<Rightarrow> 'g report_failure \<Rightarrow> 'g any_analyzer bench_run \<Rightarrow> 'g any_analyzer bench_run option" where
  "bench_advance_throws spent budget failure r =
     (if budget = 0 \<or> rn_completed r \<ge> bc_packet_count (rn_config r) then None
      else case failure of
        ConstructorThrew i \<Rightarrow> None
      | AnalysisThrew k answers g \<Rightarrow>
          map_option (\<lambda>r. fold bench_account (if an_streaming (rn_operations r) = None then [] else answers) (r\<lparr> rn_analyzer := Inr g \<rparr>))
            (bench_batches spent budget 0 k r)
      | DrainThrew g \<Rightarrow>
          (case bench_loop spent budget 0 r of
             None \<Rightarrow> None
           | Some (here, r) \<Rightarrow>
               if an_streaming (rn_operations r) \<noteq> None \<and> bench_finished r then Some (r\<lparr> rn_analyzer := Inr g \<rparr>) else None))"

definition report_slice_throws ::
    "'d session_doubles \<Rightarrow> 'g build \<Rightarrow> (nat \<Rightarrow> u64) \<Rightarrow> u64 \<Rightarrow> 'g report_failure \<Rightarrow> string \<Rightarrow>
      'g any_analyzer bench_run \<Rightarrow> ('d, 'g) session \<Rightarrow> ('d, 'g) session option" where
  "report_slice_throws d b spent slice_ns failure what run s =
     (case failure of
        ConstructorThrew i \<Rightarrow>
          (case bench_advance spent slice_ns (ss_budget s) run of
             None \<Rightarrow> None
           | Some (advanced, run') \<Rightarrow>
               if bench_finished run' then begin_throws b what i (report_closed d run' (report_advanced run run' s)) else None)
      | _ \<Rightarrow>
          if backend_throws b (bc_backend (rn_config run)) what
          then map_option (\<lambda>run'. s\<lparr> ss_run := Some run' \<rparr>) (bench_advance_throws spent (ss_budget s) failure run)
          else None)"

text \<open>The two functions of the report, when a backend throws \<open>what\<close>; \<open>None\<close> if it does not come to that failure. A slice
  may throw before it has a run, for want of one.\<close>

definition run_report_step_throws ::
    "'d session_doubles \<Rightarrow> 'g build \<Rightarrow> (nat \<Rightarrow> u64) \<Rightarrow> u64 \<Rightarrow> 'g report_failure \<Rightarrow> string \<Rightarrow> ('d, 'g) session \<Rightarrow> ('d, 'g) session option" where
  "run_report_step_throws d b spent slice_ns failure what s =
     (if \<not> ss_reporting s then None
      else
        let early = (case failure of ConstructorThrew i \<Rightarrow> if ss_run s = None then begin_throws b what i s else None | _ \<Rightarrow> None);
            (armed, s) = (if ss_run s = None then begin_next_report_backend b s else (True, s))
        in if early \<noteq> None then early
           else if \<not> armed then None
           else case ss_run s of
             None \<Rightarrow> None
           | Some run \<Rightarrow> report_slice_throws d b spent slice_ns failure what run s)"

definition run_benchmark_report_throws ::
    "'d session_doubles \<Rightarrow> 'g build \<Rightarrow> 'g session_devices \<Rightarrow> string \<Rightarrow> string \<Rightarrow> i32 \<Rightarrow> i32 \<Rightarrow> i32 \<Rightarrow> i32
      \<Rightarrow> nat \<Rightarrow> string \<Rightarrow> ('d, 'g) session \<Rightarrow> ('d, 'g) session option" where
  "run_benchmark_report_throws d b v now scenario packets batch frame sd i what s =
     (if ss_reporting s then None
      else
        case scenario_from_text scenario of
          Inl _ \<Rightarrow> None
        | Inr parsed \<Rightarrow>
            if sint packets \<le> 0 \<or> sint batch \<le> 0 \<or> sint sd < 0 \<or> sint frame < int ethernet_header_size \<or>
               sint frame > int MAX_BENCHMARK_FRAME_SIZE
            then None
            else begin_throws b what i (report_prepared d b v now (report_config_of parsed packets batch frame sd) s))"

section \<open>Exporting\<close>

definition json_text_field :: "string \<Rightarrow> string \<Rightarrow> string" where
  "json_text_field key v = [quote_char] @ key @ [quote_char] @ '': '' @ [quote_char] @ json_escape v @ [quote_char]"

definition json_raw_field :: "string \<Rightarrow> string \<Rightarrow> string" where
  "json_raw_field key v = [quote_char] @ key @ [quote_char] @ '': '' @ v"

fun joined :: "string \<Rightarrow> string list \<Rightarrow> string" where
  "joined separator [] = []"
| "joined separator [x] = x"
| "joined separator (x # xs) = x @ separator @ joined separator xs"

definition json_string_array :: "string list \<Rightarrow> string" where
  "json_string_array vs = ''['' @ joined '', '' (map (\<lambda>v. [quote_char] @ json_escape v @ [quote_char]) vs) @ '']''"

definition join_json_fields :: "string list \<Rightarrow> string \<Rightarrow> string" where
  "join_json_fields fs indent =
     (if fs = [] then [] else joined ('','' @ [CHR 0x0A]) (map (\<lambda>f. indent @ f) fs) @ [CHR 0x0A])"

definition report_row_json_fields :: "'d session_doubles \<Rightarrow> 'd report_row \<Rightarrow> string list" where
  "report_row_json_fields d r =
     [json_text_field ''backend'' (rw_label r), json_text_field ''backendId'' (rw_backend r),
      json_text_field ''scenario'' (rw_scenario r), json_raw_field ''packets'' (uint_text (rw_packets r)),
      json_raw_field ''elapsedNs'' (uint_text (rw_elapsed_ns r)),
      json_raw_field ''packetsPerSecond'' (sd_json d (rw_packets_per_second r)),
      json_raw_field ''goodputBitsPerSecond'' (sd_json d (rw_goodput r)), json_raw_field ''lossPercent'' (sd_json d (rw_loss r)),
      json_raw_field ''latencyP50Ns'' (uint_text (rw_p50 r)), json_raw_field ''latencyP95Ns'' (uint_text (rw_p95 r)),
      json_raw_field ''latencyP99Ns'' (uint_text (rw_p99 r)),
      json_raw_field ''hostToDeviceNs'' (uint_text (at_host_to_device (rw_timing r))),
      json_raw_field ''kernelNs'' (uint_text (at_kernel (rw_timing r))),
      json_raw_field ''deviceToHostNs'' (uint_text (at_device_to_host (rw_timing r))),
      json_raw_field ''transferInclusiveNs'' (uint_text (at_transfer_inclusive (rw_timing r))),
      json_raw_field ''queueWaitNs'' (uint_text (at_queue_wait (rw_timing r))),
      json_raw_field ''speedup'' (sd_json d (rw_speedup r))]"

definition provenance_json_fields :: "report_provenance \<Rightarrow> string list" where
  "provenance_json_fields p =
     [json_text_field ''scenario'' (rv_scenario p), json_raw_field ''seed'' (uint_text (rv_seed p)),
      json_raw_field ''packets'' (uint_text (rv_packets p)), json_raw_field ''batchSize'' (uint_text (rv_batch_size p)),
      json_raw_field ''frameSize'' (uint_text (rv_frame_size p)), json_raw_field ''hostCount'' (uint_text (rv_host_count p)),
      json_text_field ''generator'' (rv_generator p), json_text_field ''version'' (rv_version p),
      json_text_field ''buildType'' (rv_build_type p),
      json_raw_field ''backendsCompiledIn'' (json_string_array (rv_compiled p)),
      json_raw_field ''backendsPresent'' (json_string_array (rv_present p)),
      json_text_field ''generatedAt'' (rv_generated_at p)]"

definition report_json :: "'d session_doubles \<Rightarrow> report_provenance \<Rightarrow> 'd report_row list \<Rightarrow> string" where
  "report_json d p rows =
     (let nl = [CHR 0x0A];
          begin = ''{'' @ nl @ ''  '' @ [quote_char] @ ''provenance'' @ [quote_char] @ '': {'' @ nl @
            join_json_fields (provenance_json_fields p) ''    '' @ ''  },'' @ nl @
            ''  '' @ [quote_char] @ ''results'' @ [quote_char] @ '': [''
      in if rows = [] then begin @ '']'' @ nl @ ''}'' @ nl
         else begin @ nl @ joined ('','' @ nl)
             (map (\<lambda>r. ''    {'' @ nl @ join_json_fields (report_row_json_fields d r) ''      '' @ ''    }'') rows) @ nl @
           ''  ]'' @ nl @ ''}'' @ nl)"

definition csv_columns :: "string list" where
  "csv_columns = [''backend'', ''scenario'', ''packets'', ''elapsedNs'', ''packetsPerSecond'', ''goodputBitsPerSecond'',
     ''lossPercent'', ''latencyP50Ns'', ''latencyP95Ns'', ''latencyP99Ns'', ''hostToDeviceNs'', ''kernelNs'', ''deviceToHostNs'',
     ''transferInclusiveNs'', ''queueWaitNs'', ''speedup'']"

definition csv_fields :: "'d session_doubles \<Rightarrow> 'd report_row \<Rightarrow> string list" where
  "csv_fields d r =
     [rw_label r, rw_scenario r, uint_text (rw_packets r), uint_text (rw_elapsed_ns r),
      sd_general d (rw_packets_per_second r), sd_general d (rw_goodput r), sd_general d (rw_loss r),
      uint_text (rw_p50 r), uint_text (rw_p95 r), uint_text (rw_p99 r),
      uint_text (at_host_to_device (rw_timing r)), uint_text (at_kernel (rw_timing r)),
      uint_text (at_device_to_host (rw_timing r)), uint_text (at_transfer_inclusive (rw_timing r)),
      uint_text (at_queue_wait (rw_timing r)), sd_general d (rw_speedup r)]"

definition csv_line :: "string list \<Rightarrow> string" where
  "csv_line fs = (if fs = [] then [] else joined '','' fs @ [CHR 0x0A])"

definition report_csv :: "'d session_doubles \<Rightarrow> 'd report_row list \<Rightarrow> string" where
  "report_csv d rows = csv_line csv_columns @ concat (map (\<lambda>r. csv_line (csv_fields d r)) rows)"

definition ends_with_json :: "string \<Rightarrow> bool" where
  "ends_with_json path \<longleftrightarrow> length path \<ge> 5 \<and> map to_lower (drop (length path - 5) path) = ''.json''"

definition export_failed :: "string \<Rightarrow> ('d, 'g) session \<Rightarrow> ('d, 'g) session" where
  "export_failed message s = ss_mark DirtyReport (set_status message (s\<lparr> ss_export_path := message \<rparr>))"

text \<open>The files that were written, in order, with whether all went well; \<open>write\<close> tells whether a file can be.\<close>

definition export_report ::
    "'d session_doubles \<Rightarrow> (string \<Rightarrow> bool) \<Rightarrow> string \<Rightarrow> ('d, 'g) session \<Rightarrow> bool \<times> (string \<times> string) list \<times> ('d, 'g) session" where
  "export_report d write path s =
     (if ss_rows s = [] then (False, [], export_failed ''Run a benchmark report before exporting.'' s)
      else
        let local_path = strip_file_url path;
            local_path = (if ends_with_json local_path then take (length local_path - 5) local_path else local_path)
        in if local_path = [] then (False, [], export_failed ''Choose a file name for the report.'' s)
           else
             let json_path = local_path @ ''.json''; csv_path = local_path @ ''.csv'';
                 json = (json_path, report_json d (ss_provenance s) (ss_rows s)); csv = (csv_path, report_csv d (ss_rows s))
             in if \<not> write json_path then (False, [], export_failed (''Could not write '' @ json_path) s)
                else if \<not> write csv_path then (False, [json], export_failed (''Could not write '' @ csv_path) s)
                else (True, [json, csv],
                  ss_mark DirtyReport (set_status (''Exported report to '' @ file_name_of json_path @ '' and '' @ file_name_of csv_path)
                    (s\<lparr> ss_export_path := json_path \<rparr>))))"

end
