(* ===== verification/Session_Steps.thy ===== *)
theory Session_Steps
  imports Session_Report
begin

text \<open>
  What a session does over time: the commands of its user and the ticks of its owner as a step relation, and the
  promise the front end rests on, that nothing it shows changes without the bit that says so.
\<close>

section \<open>Steps\<close>

text \<open>The arguments of the commands are free; \<open>d\<close>, \<open>v\<close> and \<open>b\<close> are the machine. First the steps that return, then those
  that throw, with the text of the exception and the session they leave; whoever owns the session goes on with it.\<close>

inductive ss_step :: "'d session_doubles \<Rightarrow> 'g session_devices \<Rightarrow> 'g build \<Rightarrow> ('d, 'g) session \<Rightarrow> ('d, 'g) session \<Rightarrow> bool"
  for d v b where
  st_open: "ss_step d v b s (open_topology d now files path s)"
| st_save: "ss_step d v b s (snd (save_topology opened written path s))"
| st_add_node: "ss_step d v b s (add_node d now name type s)"
| st_add_link: "ss_step d v b s (add_link d now from to ms s)"
| st_remove: "ss_step d v b s (remove_selected d now s)"
| st_select_node: "ss_step d v b s (select_node name s)"
| st_select_link: "ss_step d v b s (select_link from to s)"
| st_clear_selection: "ss_step d v b s (clear_selection s)"
| st_apply: "ss_step d v b s (apply_selected_fault d ms loss hole s)"
| st_clear_fault: "ss_step d v b s (ss_clear_fault d first second s)"
| st_add_policy: "ss_step d v b s (add_policy name type action rate s)"
| st_remove_policy: "ss_step d v b s (remove_policy name s)"
| st_enable_policy: "ss_step d v b s (set_policy_enabled name enabled s)"
| st_release: "ss_step d v b s (release_enforcement d port s)"
| st_start: "start_traffic v scenario packets frame sd backend s = (None, s') \<Longrightarrow> ss_step d v b s s'"
| st_stop: "ss_step d v b s (stop_traffic s)"
| st_tick: "run_traffic_step d v arrival now s = Inr s' \<Longrightarrow> ss_step d v b s s'"
| st_report: "ss_step d v b s (run_benchmark_report d b v calendar scenario packets batch frame sd s)"
| st_report_slice: "run_report_step d b spent slice_ns s = Some s' \<Longrightarrow> ss_step d v b s s'"
| st_export: "ss_step d v b s (snd (snd (export_report d write path s)))"

inductive ss_throw ::
    "'d session_doubles \<Rightarrow> 'g session_devices \<Rightarrow> 'g build \<Rightarrow> string \<Rightarrow> ('d, 'g) session \<Rightarrow> ('d, 'g) session \<Rightarrow> bool"
  for d v b where
  th_start: "start_traffic v scenario packets frame sd backend s = (Some what, s') \<Longrightarrow> ss_throw d v b what s s'"
| th_tick: "run_traffic_step d v arrival now s = Inl (AnalyzerThrew what s') \<Longrightarrow> ss_throw d v b what s s'"
| th_report: "run_benchmark_report_throws d b v calendar scenario packets batch frame sd i what s = Some s' \<Longrightarrow> ss_throw d v b what s s'"
| th_slice: "run_report_step_throws d b spent slice_ns failure what s = Some s' \<Longrightarrow> ss_throw d v b what s s'"

inductive ss_steps :: "'d session_doubles \<Rightarrow> 'g session_devices \<Rightarrow> 'g build \<Rightarrow> ('d, 'g) session \<Rightarrow> ('d, 'g) session \<Rightarrow> bool"
  for d v b where
  sts_refl: "ss_steps d v b s s"
| sts_step: "ss_steps d v b s t \<Longrightarrow> ss_step d v b t u \<Longrightarrow> ss_steps d v b s u"
| sts_throw: "ss_steps d v b s t \<Longrightarrow> ss_throw d v b what t u \<Longrightarrow> ss_steps d v b s u"

section \<open>Changes are marked\<close>

text \<open>What is shown, by the bit that announces it. The enforced ports are announced as policies, but a new
  topology clears them under its own bit.\<close>

definition marked :: "('d, 'g) session \<Rightarrow> session_dirty \<Rightarrow> bool" where
  "marked s f \<longleftrightarrow> bit (ss_dirty s) (dirty_index f)"

fun unchanged :: "session_dirty \<Rightarrow> ('d, 'g) session \<Rightarrow> ('d, 'g) session \<Rightarrow> bool" where
  "unchanged DirtyTopology s t \<longleftrightarrow>
     ss_nodes t = ss_nodes s \<and> ss_links t = ss_links s \<and> ss_configuration t = ss_configuration s"
| "unchanged DirtySelection s t \<longleftrightarrow>
     ss_selection t = ss_selection s \<and> ss_selected_id t = ss_selected_id s \<and> ss_selected_first t = ss_selected_first s \<and>
     ss_selected_second t = ss_selected_second s \<and> ss_selected_summary t = ss_selected_summary s"
| "unchanged DirtyStatus s t \<longleftrightarrow> ss_status t = ss_status s"
| "unchanged DirtyTraffic s t \<longleftrightarrow> ss_running t = ss_running s \<and> ss_backend t = ss_backend s"
| "unchanged DirtyTelemetry s t \<longleftrightarrow>
     ss_result t = ss_result s \<and> ss_history t = ss_history s \<and> ss_mac_table t = ss_mac_table s \<and> ss_ports t = ss_ports s \<and>
     ss_packets t = ss_packets s \<and> ss_anomalies t = ss_anomalies s \<and> ss_actions t = ss_actions s"
| "unchanged DirtyFaults s t \<longleftrightarrow> ss_faults t = ss_faults s"
| "unchanged DirtyPolicies s t \<longleftrightarrow> ss_policies t = ss_policies s"
| "unchanged DirtyReport s t \<longleftrightarrow>
     ss_reporting t = ss_reporting s \<and> ss_progress t = ss_progress s \<and> ss_stage t = ss_stage s \<and> ss_rows t = ss_rows s \<and>
     ss_provenance t = ss_provenance s \<and> ss_export_path t = ss_export_path s"

definition announced_but :: "session_dirty set \<Rightarrow> ('d, 'g) session \<Rightarrow> ('d, 'g) session \<Rightarrow> bool" where
  "announced_but F s t \<longleftrightarrow> (let told = (\<lambda>f. f \<in> F \<or> marked t f) in
     (\<forall>f. marked s f \<longrightarrow> told f) \<and> (\<forall>f. told f \<or> unchanged f s t) \<and>
     (told DirtyPolicies \<or> told DirtyTopology \<or> ss_enforced t = ss_enforced s))"

lemma all_dirty: "(\<forall>f. P f) \<longleftrightarrow> P DirtyTopology \<and> P DirtySelection \<and> P DirtyStatus \<and> P DirtyTraffic \<and> P DirtyTelemetry \<and>
    P DirtyFaults \<and> P DirtyPolicies \<and> P DirtyReport"
  by (metis session_dirty.exhaust)

lemma unchanged_refl [simp]: "unchanged f s s"
  by (cases f) simp_all

lemma unchanged_trans: "unchanged f s t \<Longrightarrow> unchanged f t u \<Longrightarrow> unchanged f s u"
  by (cases f) simp_all

abbreviation announced :: "('d, 'g) session \<Rightarrow> ('d, 'g) session \<Rightarrow> bool" where
  "announced \<equiv> announced_but {}"

lemma bit_dirty_bit: "bit (dirty_bit f) n \<longleftrightarrow> n = dirty_index f"
proof -
  have "dirty_index f < 32" by (cases f) simp_all
  then show ?thesis by (auto simp: dirty_bit_def bit_simps)
qed

lemma marked_mark [simp]: "marked (ss_mark f s) g \<longleftrightarrow> g = f \<or> marked s g"
proof -
  have "dirty_index g = dirty_index f \<longleftrightarrow> g = f" by (cases g; cases f) simp_all
  then show ?thesis by (auto simp: marked_def ss_mark_def bit_or_iff bit_dirty_bit)
qed

lemma announced_refl [simp]: "announced_but F s s"
  by (simp add: announced_but_def)

lemma announced_trans: "announced s t \<Longrightarrow> announced t u \<Longrightarrow> announced s u"
  unfolding announced_but_def Let_def by (elim conjE, intro conjI) (metis unchanged_trans empty_iff)+

text \<open>A mark excuses the changes before it; every other update of the record is of a group or is not shown.\<close>

lemma mark_keeps [simp]:
  "ss_status (ss_mark f s) = ss_status s"
  "ss_nodes (ss_mark f s) = ss_nodes s"
  "ss_links (ss_mark f s) = ss_links s"
  "ss_selection (ss_mark f s) = ss_selection s"
  "ss_selected_id (ss_mark f s) = ss_selected_id s"
  "ss_selected_first (ss_mark f s) = ss_selected_first s"
  "ss_selected_second (ss_mark f s) = ss_selected_second s"
  "ss_selected_summary (ss_mark f s) = ss_selected_summary s"
  "ss_result (ss_mark f s) = ss_result s"
  "ss_history (ss_mark f s) = ss_history s"
  "ss_mac_table (ss_mark f s) = ss_mac_table s"
  "ss_ports (ss_mark f s) = ss_ports s"
  "ss_packets (ss_mark f s) = ss_packets s"
  "ss_anomalies (ss_mark f s) = ss_anomalies s"
  "ss_faults (ss_mark f s) = ss_faults s"
  "ss_policies (ss_mark f s) = ss_policies s"
  "ss_actions (ss_mark f s) = ss_actions s"
  "ss_enforced (ss_mark f s) = ss_enforced s"
  "ss_controller (ss_mark f s) = ss_controller s"
  "ss_configuration (ss_mark f s) = ss_configuration s"
  "ss_path (ss_mark f s) = ss_path s"
  "ss_pipeline (ss_mark f s) = ss_pipeline s"
  "ss_running (ss_mark f s) = ss_running s"
  "ss_backend (ss_mark f s) = ss_backend s"
  "ss_scenario (ss_mark f s) = ss_scenario s"
  "ss_packets_per_tick (ss_mark f s) = ss_packets_per_tick s"
  "ss_frame_size (ss_mark f s) = ss_frame_size s"
  "ss_seed (ss_mark f s) = ss_seed s"
  "ss_tick (ss_mark f s) = ss_tick s"
  "ss_total_packets (ss_mark f s) = ss_total_packets s"
  "ss_total_bytes (ss_mark f s) = ss_total_bytes s"
  "ss_total_dropped (ss_mark f s) = ss_total_dropped s"
  "ss_generator (ss_mark f s) = ss_generator s"
  "ss_analyzer (ss_mark f s) = ss_analyzer s"
  "ss_counters (ss_mark f s) = ss_counters s"
  "ss_start (ss_mark f s) = ss_start s"
  "ss_learned (ss_mark f s) = ss_learned s"
  "ss_reporting (ss_mark f s) = ss_reporting s"
  "ss_progress (ss_mark f s) = ss_progress s"
  "ss_stage (ss_mark f s) = ss_stage s"
  "ss_export_path (ss_mark f s) = ss_export_path s"
  "ss_report_config (ss_mark f s) = ss_report_config s"
  "ss_queue (ss_mark f s) = ss_queue s"
  "ss_index (ss_mark f s) = ss_index s"
  "ss_budget (ss_mark f s) = ss_budget s"
  "ss_completed (ss_mark f s) = ss_completed s"
  "ss_total (ss_mark f s) = ss_total s"
  "ss_run (ss_mark f s) = ss_run s"
  "ss_results (ss_mark f s) = ss_results s"
  "ss_rows (ss_mark f s) = ss_rows s"
  "ss_provenance (ss_mark f s) = ss_provenance s"
  by (simp_all add: ss_mark_def)

lemma unchanged_mark [simp]: "unchanged f s (ss_mark X t) = unchanged f s t"
  by (cases f) simp_all

lemma announced_mark: "announced_but F s (ss_mark X t) \<longleftrightarrow> announced_but (insert X F) s t"
proof -
  have "(\<lambda>f. f \<in> F \<or> marked (ss_mark X t) f) = (\<lambda>f. f \<in> insert X F \<or> marked t f)" by auto
  then show ?thesis unfolding announced_but_def by simp
qed

lemma announced_hidden:
  "announced_but F s (t\<lparr> ss_controller := x0 \<rparr>) = announced_but F s t"
  "announced_but F s (t\<lparr> ss_path := x1 \<rparr>) = announced_but F s t"
  "announced_but F s (t\<lparr> ss_pipeline := x2 \<rparr>) = announced_but F s t"
  "announced_but F s (t\<lparr> ss_scenario := x3 \<rparr>) = announced_but F s t"
  "announced_but F s (t\<lparr> ss_packets_per_tick := x4 \<rparr>) = announced_but F s t"
  "announced_but F s (t\<lparr> ss_frame_size := x5 \<rparr>) = announced_but F s t"
  "announced_but F s (t\<lparr> ss_seed := x6 \<rparr>) = announced_but F s t"
  "announced_but F s (t\<lparr> ss_tick := x7 \<rparr>) = announced_but F s t"
  "announced_but F s (t\<lparr> ss_total_packets := x8 \<rparr>) = announced_but F s t"
  "announced_but F s (t\<lparr> ss_total_bytes := x9 \<rparr>) = announced_but F s t"
  "announced_but F s (t\<lparr> ss_total_dropped := x10 \<rparr>) = announced_but F s t"
  "announced_but F s (t\<lparr> ss_generator := x11 \<rparr>) = announced_but F s t"
  "announced_but F s (t\<lparr> ss_analyzer := x12 \<rparr>) = announced_but F s t"
  "announced_but F s (t\<lparr> ss_counters := x13 \<rparr>) = announced_but F s t"
  "announced_but F s (t\<lparr> ss_start := x14 \<rparr>) = announced_but F s t"
  "announced_but F s (t\<lparr> ss_learned := x15 \<rparr>) = announced_but F s t"
  "announced_but F s (t\<lparr> ss_report_config := x16 \<rparr>) = announced_but F s t"
  "announced_but F s (t\<lparr> ss_queue := x17 \<rparr>) = announced_but F s t"
  "announced_but F s (t\<lparr> ss_index := x18 \<rparr>) = announced_but F s t"
  "announced_but F s (t\<lparr> ss_budget := x19 \<rparr>) = announced_but F s t"
  "announced_but F s (t\<lparr> ss_completed := x20 \<rparr>) = announced_but F s t"
  "announced_but F s (t\<lparr> ss_total := x21 \<rparr>) = announced_but F s t"
  "announced_but F s (t\<lparr> ss_run := x22 \<rparr>) = announced_but F s t"
  "announced_but F s (t\<lparr> ss_results := x23 \<rparr>) = announced_but F s t"
  by (simp_all add: announced_but_def marked_def all_dirty)

lemma announced_shown:
  "DirtyTopology \<in> F \<Longrightarrow> announced_but F s (t\<lparr> ss_nodes := xto0 \<rparr>) = announced_but F s t"
  "DirtyTopology \<in> F \<Longrightarrow> announced_but F s (t\<lparr> ss_links := xto1 \<rparr>) = announced_but F s t"
  "DirtyTopology \<in> F \<Longrightarrow> announced_but F s (t\<lparr> ss_configuration := xto2 \<rparr>) = announced_but F s t"
  "DirtySelection \<in> F \<Longrightarrow> announced_but F s (t\<lparr> ss_selection := xse0 \<rparr>) = announced_but F s t"
  "DirtySelection \<in> F \<Longrightarrow> announced_but F s (t\<lparr> ss_selected_id := xse1 \<rparr>) = announced_but F s t"
  "DirtySelection \<in> F \<Longrightarrow> announced_but F s (t\<lparr> ss_selected_first := xse2 \<rparr>) = announced_but F s t"
  "DirtySelection \<in> F \<Longrightarrow> announced_but F s (t\<lparr> ss_selected_second := xse3 \<rparr>) = announced_but F s t"
  "DirtySelection \<in> F \<Longrightarrow> announced_but F s (t\<lparr> ss_selected_summary := xse4 \<rparr>) = announced_but F s t"
  "DirtyStatus \<in> F \<Longrightarrow> announced_but F s (t\<lparr> ss_status := xst0 \<rparr>) = announced_but F s t"
  "DirtyTraffic \<in> F \<Longrightarrow> announced_but F s (t\<lparr> ss_running := xtr0 \<rparr>) = announced_but F s t"
  "DirtyTraffic \<in> F \<Longrightarrow> announced_but F s (t\<lparr> ss_backend := xtr1 \<rparr>) = announced_but F s t"
  "DirtyTelemetry \<in> F \<Longrightarrow> announced_but F s (t\<lparr> ss_result := xte0 \<rparr>) = announced_but F s t"
  "DirtyTelemetry \<in> F \<Longrightarrow> announced_but F s (t\<lparr> ss_history := xte1 \<rparr>) = announced_but F s t"
  "DirtyTelemetry \<in> F \<Longrightarrow> announced_but F s (t\<lparr> ss_mac_table := xte2 \<rparr>) = announced_but F s t"
  "DirtyTelemetry \<in> F \<Longrightarrow> announced_but F s (t\<lparr> ss_ports := xte3 \<rparr>) = announced_but F s t"
  "DirtyTelemetry \<in> F \<Longrightarrow> announced_but F s (t\<lparr> ss_packets := xte4 \<rparr>) = announced_but F s t"
  "DirtyTelemetry \<in> F \<Longrightarrow> announced_but F s (t\<lparr> ss_anomalies := xte5 \<rparr>) = announced_but F s t"
  "DirtyTelemetry \<in> F \<Longrightarrow> announced_but F s (t\<lparr> ss_actions := xte6 \<rparr>) = announced_but F s t"
  "DirtyFaults \<in> F \<Longrightarrow> announced_but F s (t\<lparr> ss_faults := xfa0 \<rparr>) = announced_but F s t"
  "DirtyPolicies \<in> F \<Longrightarrow> announced_but F s (t\<lparr> ss_policies := xpo0 \<rparr>) = announced_but F s t"
  "DirtyReport \<in> F \<Longrightarrow> announced_but F s (t\<lparr> ss_reporting := xre0 \<rparr>) = announced_but F s t"
  "DirtyReport \<in> F \<Longrightarrow> announced_but F s (t\<lparr> ss_progress := xre1 \<rparr>) = announced_but F s t"
  "DirtyReport \<in> F \<Longrightarrow> announced_but F s (t\<lparr> ss_stage := xre2 \<rparr>) = announced_but F s t"
  "DirtyReport \<in> F \<Longrightarrow> announced_but F s (t\<lparr> ss_rows := xre3 \<rparr>) = announced_but F s t"
  "DirtyReport \<in> F \<Longrightarrow> announced_but F s (t\<lparr> ss_provenance := xre4 \<rparr>) = announced_but F s t"
  "DirtyReport \<in> F \<Longrightarrow> announced_but F s (t\<lparr> ss_export_path := xre5 \<rparr>) = announced_but F s t"
  "DirtyPolicies \<in> F \<Longrightarrow> announced_but F s (t\<lparr> ss_enforced := ro \<rparr>) = announced_but F s t"
  "DirtyTopology \<in> F \<Longrightarrow> announced_but F s (t\<lparr> ss_enforced := ro \<rparr>) = announced_but F s t"
  by (simp_all add: announced_but_def marked_def all_dirty)

lemmas announced_simps = announced_mark announced_hidden announced_shown

lemma announced_rows [simp]:
  "announced_but F s (rebuild_fault_rows d t) = announced_but (insert DirtyFaults F) s t"
  "announced_but F s (rebuild_policy_rows t) = announced_but (insert DirtyPolicies F) s t"
  "announced_but F s (set_status m t) = announced_but (insert DirtyStatus F) s t"
  by (simp_all add: announced_simps rebuild_fault_rows_def rebuild_policy_rows_def set_status_def)

lemma announced_mono:
  assumes "announced_but F s t" and "F \<subseteq> G"
  shows "announced_but G s t"
  using assms(1) unfolding announced_but_def Let_def
  by - (assumption | erule subsetD [OF assms(2)] | erule conj_forward | erule disj_forward | erule all_forward | erule imp_forward)+

lemma announced_insert: "announced_but F s t \<Longrightarrow> announced_but (insert X F) s t"
  by (erule announced_mono) blast

lemma announced_stop: "announced_but F s t \<Longrightarrow> announced_but F s (stop_traffic t)"
  by (auto simp: stop_traffic_def announced_simps intro: announced_mono)

lemma announced_selection:
  "announced_but F s (clear_selection t) = announced_but (insert DirtySelection F) s t"
  "announced_but F s (select_node name s)" "announced_but F s (select_link from to s)"
  by (simp_all add: announced_simps clear_selection_def select_node_def select_link_def split: option.split)

lemma announced_any: "announced s t \<Longrightarrow> announced_but F s t"
  by (erule announced_mono) simp

lemma announced_commit:
  assumes "announced s t"
  shows "announced s (snd (commit_topology d now c m t))"
proof (cases "topology_create c")
  case (Inr tp)
  note any = announced_any [OF announced_stop [OF assms]]
  show ?thesis
    unfolding commit_topology_def Inr Let_def sum.case snd_conv rebuild_topology_rows_def reset_simulation_def
    by (simp add: announced_simps announced_selection any)
qed (simp add: commit_topology_def announced_any [OF assms])

lemma announced_topology:
  "announced s (open_topology d now files path s)" "announced s (snd (save_topology opened written path s))"
  "announced s (add_node d now name type s)" "announced s (add_link d now from to ms s)" "announced s (remove_selected d now s)"
  by (auto simp: open_topology_def save_topology_def add_node_def add_link_def remove_selected_def announced_simps Let_def
      intro!: announced_commit split: sum.split selection_kind.split)

lemma announced_faults:
  "announced s (apply_selected_fault d ms loss hole s)" "announced s (ss_clear_fault d first second s)"
  by (auto simp: apply_selected_fault_def ss_clear_fault_def announced_simps Let_def split: sum.split prod.split)

lemma announced_policies:
  "announced s (add_policy name type action rate s)" "announced s (remove_policy name s)"
  "announced s (set_policy_enabled name enabled s)" "announced s (release_enforcement d port s)"
  by (simp_all add: announced_simps add_policy_def remove_policy_def set_policy_enabled_def release_enforcement_def with_policies_def
      split: option.split prod.split sum.split bool.split)

lemma announced_start: "start_traffic v scenario packets frame sd backend s = (None, t) \<Longrightarrow> announced s t"
  by (auto simp: start_traffic_def announced_simps Let_def split: if_splits sum.splits)

lemma announced_packets:
  "announced_but F s (packet_telemetry d analysis lost throughput average t) = announced_but F s t" if "DirtyTelemetry \<in> F"
  using that by (simp add: packet_telemetry_def announced_simps Let_def)

lemma announced_outcome:
  assumes "announced_but {DirtyTelemetry} s t"
  shows "announced s (outcome_telemetry d out throughput average t)"
  using assms by (auto simp: outcome_telemetry_def announced_simps Let_def intro: announced_mono)

lemma announced_tick:
  assumes "run_traffic_step d v arrival now s = Inr t"
  shows "announced s t"
proof -
  have telemetry: "announced s t" if "rebuild_telemetry_rows d now analysis lost throughput average u = Inr t" "announced s u"
    for analysis lost throughput average u
  proof -
    from that(1) obtain out p c where
        "t = outcome_telemetry d out throughput average
          ((packet_telemetry d analysis lost throughput average u)\<lparr> ss_pipeline := p, ss_controller := c \<rparr>)"
      by (auto simp: rebuild_telemetry_rows_def Let_def split: sum.splits)
    then show ?thesis
      using announced_any [OF that(2), of "{DirtyTelemetry}"]
      by (auto intro!: announced_outcome simp: announced_simps announced_packets)
  qed
  show ?thesis
    using assms
    by (auto simp: run_traffic_step_def after_frames_def through_frames_def announced_simps Let_def announced_any [OF announced_stop]
        split: if_splits bool.splits option.splits prod.splits sum.splits elim!: telemetry)
qed

lemma announced_begin:
  "announced_but F s t \<Longrightarrow> DirtyReport \<in> F \<Longrightarrow> announced_but F s (snd (begin_next_report_backend b t))"
proof (induction b t rule: begin_next_report_backend.induct)
  case (1 b t)
  then show ?case
    by (subst begin_next_report_backend.simps) (auto simp: announced_simps split: sum.split)
qed

lemma announced_finish: "announced_but {DirtyReport, DirtyStatus} s t \<Longrightarrow> announced s (finish_report d t)"
  by (simp add: finish_report_def announced_simps insert_commute)

lemma announced_progress: "announced_but {DirtyReport} s t \<Longrightarrow> announced s (report_progressed d t)"
  by (simp add: report_progressed_def announced_simps)

lemma announced_report: "announced s (run_benchmark_report d b v calendar scenario packets batch frame sd s)"
proof -
  have "announced_but {DirtyReport} s (report_prepared d b v calendar config s)" for config
    by (simp add: report_prepared_def rebuild_report_provenance_def announced_simps Let_def)
  then have begun: "announced_but F s (snd (begin_next_report_backend b (report_prepared d b v calendar config s)))"
    if "DirtyReport \<in> F" for config F
    using announced_begin announced_mono that by (metis empty_subsetI insert_subset)
  show ?thesis
    by (simp add: run_benchmark_report_def split_beta begun announced_finish announced_simps split: sum.split)
qed

lemma announced_slice:
  assumes "run_report_step d b spent slice_ns s = Some t"
  shows "announced s t"
proof -
  have begun: "announced_but F s (snd (begin_next_report_backend b u))" if "announced s u" "DirtyReport \<in> F" for u F
    using announced_begin [OF announced_any [OF that(1)] that(2)] .
  have slice: "announced s t" if slice: "report_slice d b spent slice_ns run u = Some t" and u: "announced_but {DirtyReport} s u" for run u
  proof -
    have "announced_but F s (snd (begin_next_report_backend b
        (rebuild_report_rows d (u\<lparr> ss_run := r1, ss_completed := n, ss_results := rs, ss_run := None, ss_index := i \<rparr>))))"
      if "DirtyReport \<in> F" for F r1 n rs i
      using that announced_mono [OF u, of F]
      by (intro announced_begin) (simp_all add: rebuild_report_rows_def announced_simps Let_def)
    then show ?thesis
      using slice u by (auto simp: report_slice_def report_advanced_def report_closed_def Let_def split_beta announced_simps
          intro!: announced_progress announced_finish split: if_splits)
  qed
  show ?thesis
    using assms begun [of s] slice
    by (auto simp: run_report_step_def split_beta Let_def intro: announced_finish announced_any split: if_splits option.splits)
qed

lemma announced_export: "announced s (snd (snd (export_report d write path s)))"
  by (simp add: export_report_def export_failed_def announced_simps Let_def)

lemma announced_step: "ss_step d v b s t \<Longrightarrow> announced s t"
  by (induction rule: ss_step.induct)
    (simp_all add: announced_topology announced_selection announced_simps announced_faults announced_policies announced_stop
      announced_report announced_export announced_start announced_tick announced_slice)

text \<open>The bits as the front end reads them.\<close>

definition told :: "u32 \<Rightarrow> session_dirty \<Rightarrow> bool" where
  "told bits f \<longleftrightarrow> bits AND dirty_bit f \<noteq> 0"

lemma told_iff: "told bits f \<longleftrightarrow> bit bits (dirty_index f)"
proof
  assume "told bits f"
  then have "bits AND dirty_bit f \<noteq> 0" by (simp add: told_def)
  then show "bit bits (dirty_index f)"
    by (metis (mono_tags) bit_and_iff bit_dirty_bit bit_eqI bit_0_eq bot_apply bot_bool_def)
next
  assume "bit bits (dirty_index f)"
  then have "bit (bits AND dirty_bit f) (dirty_index f)" by (simp add: bit_and_iff bit_dirty_bit)
  then show "told bits f" unfolding told_def by (metis bit_0_eq bot_apply bot_bool_def)
qed

text \<open>A machine for the witnesses: numbers that are all the same, no devices, a build for the CPU.\<close>

definition example_doubles :: "unit session_doubles" where
  "example_doubles = \<lparr> sd_numbers = \<lparr> db_of = (\<lambda>_. ()), db_literal = (\<lambda>_. ()), db_times = (\<lambda>_ _. ()), db_divide = (\<lambda>_ _. ()),
       db_equal = (\<lambda>_ _. True), db_finite = (\<lambda>_. True), db_fixed6 = (\<lambda>_. ''0'') \<rparr>,
     sd_of_int = (\<lambda>_. ()), sd_centre = (), sd_ring = (\<lambda>_ _. ((), ())), sd_basis_points = (\<lambda>_. 0), sd_not_positive = (\<lambda>_. True),
     sd_fixed = (\<lambda>_ _. ''0''), sd_general = (\<lambda>_. ''0''), sd_json = (\<lambda>_. ''0'') \<rparr>"

definition example_devices :: "unit session_devices" where
  "example_devices = \<lparr> dv_devices = [], dv_analyze = (\<lambda>_ g. (Inr empty_batch, g)) \<rparr>"

definition example_build :: "unit build" where
  "example_build = \<lparr> bu_cuda = False, bu_metal = False, bu_backend = (\<lambda>_. None), bu_throws = (\<lambda>_ _. False), bu_source = (\<lambda>_. None),
     bu_version = ''1.0'', bu_type = ''Release'' \<rparr>"

lemma session_new_some: "\<exists>s. session_new d now = Inr s"
  by (simp add: session_new_def pl_new_def ad_new_def desktop_anomaly_config_def)

end
