(* ===== verification/Session_Laboratory.thy ===== *)
theory Session_Laboratory
  imports Session_Steps
begin

text \<open>
  What a session shows of its laboratory is what the laboratory is: the rows of the topology, the faults, the
  policies and the enforced ports, and the selection, whatever commands, ticks and report slices came before.
  The same invariant carries what a tick relies on, so a tick of a session that was built and used throws only what the
  analyzer of a device does.
\<close>

section \<open>Evaluation leaves the faults\<close>

text \<open>Two controllers that show the same faults of the same topology.\<close>

definition same_plane :: "topology_controller \<Rightarrow> topology_controller \<Rightarrow> bool" where
  "same_plane c c' \<longleftrightarrow> tc_topology c' = tc_topology c \<and> fe_active_faults (tc_engine c') = fe_active_faults (tc_engine c)"

lemma same_plane_refl [simp]: "same_plane c c"
  by (simp add: same_plane_def)

lemma same_plane_trans: "same_plane c c' \<Longrightarrow> same_plane c' c'' \<Longrightarrow> same_plane c c''"
  by (simp add: same_plane_def)

lemma same_plane_faults: "same_plane c c' \<Longrightarrow> tc_active_faults c' = tc_active_faults c"
  by (simp add: same_plane_def tc_active_faults_def split: option.split)

lemma configurations_assign:
  "map_of m k = Some st \<Longrightarrow> configuration st' = configuration st \<Longrightarrow>
    map (\<lambda>(t, st). (t, configuration st)) (umap_assign k st' m) = map (\<lambda>(t, st). (t, configuration st)) m"
  by (induction m) auto

lemma evaluate_state_configuration: "configuration (snd (evaluate_state n at st)) = configuration st"
  by (simp add: evaluate_state_def Let_def split: prod.split)

lemma evaluate_active: "fe_active_faults (snd (evaluate x n at e)) = fe_active_faults e"
proof (cases "map_of (states e) x")
  case (Some st)
  then show ?thesis
    using configurations_assign [OF Some, of "snd (evaluate_state n at st)"] evaluate_state_configuration
    by (simp add: evaluate_def fe_active_faults_def split: prod.split) (metis snd_conv)
qed (simp add: evaluate_def)

lemma evaluate_same_plane:
  "same_plane c (snd (evaluate_port p n at c))" "same_plane c (snd (evaluate_link x y n at c))"
  using evaluate_active [of _ n at "tc_engine c"]
  by (auto simp: same_plane_def evaluate_port_def evaluate_link_def Let_def split_beta split: option.split)

lemma tick_frame_plane: "same_plane (tk_controller k) (tk_controller (tick_frame ls hosts sw arrival i frame k))"
proof -
  have "same_plane c (snd (evaluate_link x y n at' (snd (evaluate_port p n at c))))" for c x y n at at' p
    using evaluate_same_plane same_plane_trans by blast
  then show ?thesis
    using evaluate_same_plane(1)
    by (simp add: tick_frame_def tick_drop_def tick_deliver_def Let_def split_beta split: sum.split option.split)
qed

lemma tick_frames_plane: "same_plane (tk_controller k) (tk_controller (tick_frames ls hosts sw arrival base i frames k))"
proof (induction frames arbitrary: i k)
  case (Cons frame frames)
  then show ?case using tick_frame_plane same_plane_trans by fastforce
qed simp

section \<open>Enforcement keeps the topology\<close>

lemma set_port_fault_topology: "set_port_fault p f c = Inr c' \<Longrightarrow> tc_topology c' = tc_topology c"
  by (auto simp: set_port_fault_def split: option.splits if_splits sum.splits)

lemma set_link_fault_topology: "set_link_fault x y f c = Inr c' \<Longrightarrow> tc_topology c' = tc_topology c"
  by (auto simp: set_link_fault_def split: option.splits if_splits sum.splits)

lemma clear_fault_topology [simp]:
  "tc_topology (snd (clear_port_fault p c)) = tc_topology c" "tc_topology (snd (clear_link_fault x y c)) = tc_topology c"
  by (simp_all add: clear_port_fault_def clear_link_fault_def split: option.split prod.split)

lemma restore_port_topology [simp]: "tc_topology (restore_port l c) = tc_topology c"
  by (auto simp: restore_port_def dest: set_port_fault_topology split: sum.split)

lemma release_loop_topology: "tc_topology (snd (snd (release_loop m now c))) = tc_topology c"
  by (induction m now c rule: release_loop.induct) (auto simp: Let_def split: prod.splits)

lemma release_loop_nothing: "release_loop m now c = ([], kept, c') \<Longrightarrow> kept = m \<and> c' = c"
  by (induction m now c arbitrary: kept rule: release_loop.induct) (auto simp: Let_def split: prod.splits if_splits)

lemma apply_decision_topology: "tc_topology (snd (snd (apply_decision e now en c))) = tc_topology c"
  by (auto simp: apply_decision_def enforce_port_def Let_def dest: set_port_fault_topology split: option.split sum.split)

lemma apply_decisions_topology: "tc_topology (snd (snd (apply_decisions ds now en c))) = tc_topology c"
proof (induction ds arbitrary: en c)
  case (Cons e ds)
  then show ?case using apply_decision_topology [of e now en c] by (auto simp: Let_def split: prod.splits) (metis snd_conv)
qed simp

lemma apply_decisions_nothing: "apply_decisions ds now en c = ([], en', c') \<Longrightarrow> en' = en \<and> c' = c"
  by (cases ds) (auto simp: Let_def split: prod.splits)

lemma pe_evaluate_rules: "rules (snd (pe_evaluate as e)) = rules e"
  by (induction as e rule: pe_evaluate.induct) (simp_all add: Let_def split_beta split: option.split)

lemma pl_evaluate_rules:
  assumes "pl_evaluate packets ts now p c = Inr (out, p', c')"
  shows "rules (pl_policies p') = rules (pl_policies p) \<and> pl_attached p' = pl_attached p \<and> tc_topology c' = tc_topology c \<and>
    (ao_released out = [] \<and> ao_enforced out = [] \<longrightarrow> pl_enforcer p' = pl_enforcer p \<and> c' = c)"
proof -
  obtain anomalies dt where a: "ad_evaluate packets (max (pl_last_timestamp p) ts) (pl_detector p) = Inr (anomalies, dt)"
    using assms by (auto simp: pl_evaluate_def Let_def split: sum.splits)
  obtain ds e where e: "pe_evaluate anomalies (pl_policies p) = (ds, e)" by (cases "pe_evaluate anomalies (pl_policies p)")
  have kept: "rules e = rules (pl_policies p)" using pe_evaluate_rules [of anomalies] e by (metis snd_conv)
  show ?thesis
  proof (cases "pl_attached p")
    case True
    obtain rel kept1 c1 where r: "release_loop (leases (pl_enforcer p)) now c = (rel, kept1, c1)"
      by (cases "release_loop (leases (pl_enforcer p)) now c")
    obtain enf en2 c2 where d: "apply_decisions ds now ((pl_enforcer p)\<lparr> leases := kept1 \<rparr>) c1 = (enf, en2, c2)"
      by (cases "apply_decisions ds now ((pl_enforcer p)\<lparr> leases := kept1 \<rparr>) c1")
    have out: "ao_released out = std_sort ea_port_less rel" "ao_enforced out = enf" "c' = c2" "pl_enforcer p' = en2"
        "pl_policies p' = e" "pl_attached p'"
      using assms True by (auto simp: pl_evaluate_def Let_def a e r d release_expired_def)
    have "tc_topology c2 = tc_topology c"
      using release_loop_topology [of "leases (pl_enforcer p)" now c] apply_decisions_topology [of ds now _ c1] r d
      by (metis snd_conv)
    moreover have "en2 = pl_enforcer p \<and> c2 = c" if "rel = []" "enf = []"
      using release_loop_nothing [of "leases (pl_enforcer p)" now c] apply_decisions_nothing [of ds now _ c1] r d that by auto
    moreover have "std_sort ea_port_less rel = [] \<longleftrightarrow> rel = []" by (metis set_std_sort set_empty)
    ultimately show ?thesis using True kept by (simp add: out)
  qed (use assms kept in \<open>auto simp: pl_evaluate_def Let_def a e\<close>)
qed

section \<open>The invariant\<close>

text \<open>The rows of a laboratory, from its data; hits of policies apart, which are counted between two rebuilds.\<close>

definition link_row_of :: "topology_link \<Rightarrow> link_row" where
  "link_row_of l = \<lparr> lr_from = link_from l, lr_to = link_to l, lr_latency_ms = link_latency_ms l \<rparr>"

definition fault_rows :: "'d session_doubles \<Rightarrow> topology_controller \<Rightarrow> 'd fault_row list" where
  "fault_rows d c = (case tc_active_faults c of Inl _ \<Rightarrow> [] | Inr faults \<Rightarrow> map (fault_row_of d) faults)"

definition enforced_rows :: "pipeline \<Rightarrow> enforced_port_row list" where
  "enforced_rows p = map enforced_row_of (en_active (pl_enforcer p))"

definition without_hits :: "policy_row \<Rightarrow> policy_row" where
  "without_hits r = r\<lparr> pw_hits := 0 \<rparr>"

definition rule_rows :: "policy_rule list \<Rightarrow> policy_row list" where
  "rule_rows rs = map (\<lambda>r. \<lparr> pw_name = pr_name r, pw_type = pr_type r, pw_action = pr_action r, pw_enabled = pr_enabled r,
     pw_rate = pr_rate r, pw_hits = 0 \<rparr>) rs"

definition configuration_loaded :: "topology_configuration \<Rightarrow> topology_controller \<Rightarrow> bool" where
  "configuration_loaded conf c \<longleftrightarrow>
     (case tc_topology c of None \<Rightarrow> conf = no_topology | Some t \<Rightarrow> topology_create conf = Inr t)"

definition selection_exists :: "selection_kind \<Rightarrow> string \<Rightarrow> string \<Rightarrow> topology_configuration \<Rightarrow> bool" where
  "selection_exists kind first second conf \<longleftrightarrow>
     (case kind of NoSelection \<Rightarrow> True
      | NodeSelection \<Rightarrow> first \<in> node_id ` set (topo_nodes conf) \<and> second = []
      | LinkSelection \<Rightarrow> \<exists>l \<in> set (topo_links conf). link_from l = first \<and> link_to l = second)"

definition laboratory_ok :: "'d session_doubles \<Rightarrow> ('d, 'g) session \<Rightarrow> bool" where
  "laboratory_ok d s \<longleftrightarrow> configuration_loaded (ss_configuration s) (ss_controller s) \<and>
     ss_nodes s = placed d 0 (length (host_ids (ss_configuration s))) (topo_nodes (ss_configuration s)) \<and>
     ss_links s = map link_row_of (topo_links (ss_configuration s)) \<and>
     ss_faults s = fault_rows d (ss_controller s) \<and> ss_enforced s = enforced_rows (ss_pipeline s) \<and>
     map without_hits (ss_policies s) = rule_rows (rules (pl_policies (ss_pipeline s))) \<and>
     selection_exists (ss_selection s) (ss_selected_first s) (ss_selected_second s) (ss_configuration s) \<and>
     (ss_running s \<longrightarrow> has_topology s \<and> ss_generator s \<noteq> None \<and> ss_analyzer s \<noteq> None) \<and>
     pl_attached (ss_pipeline s) \<and> pl_clock desktop_anomaly_config (ss_pipeline s)"

lemma policy_rows_shown: "map without_hits (map (policy_row_of e) rs) = rule_rows rs"
  by (simp add: rule_rows_def policy_row_of_def without_hits_def)

lemma laboratory_new: "session_new d now = Inr s \<Longrightarrow> laboratory_ok d s"
  by (auto simp: session_new_def pl_new_def ad_new_def laboratory_ok_def rebuild_policy_rows_def ss_mark_def configuration_loaded_def
      tc_new_def no_topology_def fault_rows_def tc_active_faults_def enforced_rows_def en_active_def en_new_def rule_rows_def pe_new_def
      selection_exists_def pl_clock_def ad_inv_def host_ids_def split: sum.splits if_splits)

lemma laboratory_mark [simp]: "laboratory_ok d (ss_mark f s) = laboratory_ok d s"
  by (simp add: laboratory_ok_def has_topology_def)

lemma laboratory_status [simp]: "laboratory_ok d (set_status m s) = laboratory_ok d s"
  by (simp add: set_status_def laboratory_ok_def has_topology_def)

text \<open>Commands, by the part of the session they change.\<close>

lemma laboratory_path [simp]: "laboratory_ok d (s\<lparr> ss_path := path \<rparr>) = laboratory_ok d s"
  by (simp add: laboratory_ok_def has_topology_def)

lemma laboratory_stop: "laboratory_ok d s \<Longrightarrow> laboratory_ok d (stop_traffic s)"
  by (simp add: stop_traffic_def laboratory_ok_def has_topology_def set_status_def)

lemma pl_clock_reset: "pl_clock dc p \<Longrightarrow> pl_clock dc (pl_reset p)"
  using pl_step_clock [OF ps_reset] by simp

lemma pl_reset_keeps [simp]:
  "pl_attached (pl_reset p) = pl_attached p" "rules (pl_policies (pl_reset p)) = rules (pl_policies p)" "enforced_rows (pl_reset p) = []"
  by (simp_all add: pl_reset_def pe_reset_def en_forget_def enforced_rows_def en_active_def)

lemma pl_clock_policies: "pl_clock dc p \<Longrightarrow> pl_clock dc (p\<lparr> pl_policies := e \<rparr>)"
  using pl_step_clock [OF ps_policies] by simp

lemma laboratory_commit:
  assumes "laboratory_ok d s"
  shows "laboratory_ok d (snd (commit_topology d now c m s))"
proof (cases "topology_create c")
  case (Inr t)
  have stopped: "laboratory_ok d (stop_traffic s)" "\<not> ss_running (stop_traffic s)"
    using laboratory_stop [OF assms] by (simp_all add: stop_traffic_def set_status_def)
  have loaded: "tc_topology (tc_load t x) = Some t" for x by (simp add: tc_load_def Let_def)
  show ?thesis
    using stopped pl_clock_reset
    by (simp add: commit_topology_def Inr Let_def rebuild_fault_rows_def rebuild_topology_rows_def reset_simulation_def
        clear_selection_def laboratory_ok_def configuration_loaded_def loaded fault_rows_def selection_exists_def link_row_of_def set_status_def)
qed (simp add: commit_topology_def assms)

lemma laboratory_topology:
  assumes "laboratory_ok d s"
  shows "laboratory_ok d (open_topology d now files path s)" "laboratory_ok d (snd (save_topology opened written path s))"
    "laboratory_ok d (add_node d now name type s)" "laboratory_ok d (add_link d now from to ms s)" "laboratory_ok d (remove_selected d now s)"
  using assms
  by (auto simp: open_topology_def save_topology_def add_node_def add_link_def remove_selected_def Let_def
      intro!: laboratory_commit split: sum.split selection_kind.split)

lemma laboratory_selection:
  assumes "laboratory_ok d s"
  shows "laboratory_ok d (clear_selection s)" "laboratory_ok d (select_node name s)" "laboratory_ok d (select_link from to s)"
  using assms
  by (auto simp: clear_selection_def select_node_def select_link_def laboratory_ok_def selection_exists_def has_topology_def
      find_Some_iff split: option.split)

text \<open>The controller may be replaced by one of the same topology if the rows of the faults follow.\<close>

lemma laboratory_controller:
  assumes "laboratory_ok d s" and "tc_topology c = tc_topology (ss_controller s)"
  shows "laboratory_ok d (rebuild_fault_rows d (set_status m (s\<lparr> ss_controller := c \<rparr>)))"
  using assms
  by (simp add: laboratory_ok_def configuration_loaded_def has_topology_def rebuild_fault_rows_def set_status_def fault_rows_def)

lemma laboratory_same_controller: "laboratory_ok d s \<Longrightarrow> laboratory_ok d (rebuild_fault_rows d (set_status m s))"
  using laboratory_controller [of d s "ss_controller s"] by simp

lemma laboratory_faults:
  assumes "laboratory_ok d s"
  shows "laboratory_ok d (apply_selected_fault d ms loss hole s)" "laboratory_ok d (ss_clear_fault d first second s)"
  by (simp_all add: apply_selected_fault_def ss_clear_fault_def split_beta Let_def assms laboratory_same_controller
      laboratory_controller [OF assms] set_port_fault_topology set_link_fault_topology split: sum.split)

lemma laboratory_rules:
  assumes "laboratory_ok d s"
  shows "laboratory_ok d (rebuild_policy_rows (set_status m (with_policies f s)))"
  using assms pl_clock_policies policy_rows_shown
  by (simp add: rebuild_policy_rows_def with_policies_def set_status_def laboratory_ok_def enforced_rows_def has_topology_def)

lemma laboratory_policies:
  assumes "laboratory_ok d s"
  shows "laboratory_ok d (add_policy name type action rate s)" "laboratory_ok d (remove_policy name s)"
    "laboratory_ok d (set_policy_enabled name enabled s)"
  by (simp_all add: add_policy_def remove_policy_def set_policy_enabled_def assms laboratory_rules
      split: option.split prod.split sum.split bool.split)

lemma pl_release_keeps:
  assumes "pl_release port p c = (b, p', c')"
  shows "tc_topology c' = tc_topology c \<and> rules (pl_policies p') = rules (pl_policies p) \<and> pl_attached p' = pl_attached p"
  using assms by (auto simp: pl_release_def release_port_def split: if_splits option.splits)

lemma pl_clock_release: "pl_clock dc p \<Longrightarrow> pl_release port p c = (b, p', c') \<Longrightarrow> pl_clock dc p'"
  using pl_step_clock [OF ps_release] by simp

lemma laboratory_release:
  assumes "laboratory_ok d s"
  shows "laboratory_ok d (release_enforcement d port s)"
proof -
  obtain b p c where r: "pl_release port (ss_pipeline s) (ss_controller s) = (b, p, c)"
    by (cases "pl_release port (ss_pipeline s) (ss_controller s)")
  note kept = pl_release_keeps [OF r]
  have clock: "pl_clock desktop_anomaly_config p" using pl_clock_release [OF _ r] assms by (simp add: laboratory_ok_def)
  have "laboratory_ok d (rebuild_policy_rows (rebuild_fault_rows d (set_status m (s\<lparr> ss_pipeline := p, ss_controller := c \<rparr>))))" for m
    using assms kept clock policy_rows_shown
    by (simp add: rebuild_policy_rows_def rebuild_fault_rows_def set_status_def laboratory_ok_def enforced_rows_def has_topology_def
        configuration_loaded_def fault_rows_def)
  then show ?thesis by (simp add: release_enforcement_def r assms split: bool.split)
qed

lemma laboratory_running:
  "laboratory_ok d s \<Longrightarrow> has_topology s \<Longrightarrow>
    laboratory_ok d (s\<lparr> ss_scenario := p, ss_packets_per_tick := n, ss_frame_size := m, ss_seed := sd, ss_backend := b,
      ss_generator := Some g, ss_analyzer := Some a, ss_running := True \<rparr>)"
  by (simp add: laboratory_ok_def has_topology_def)

lemma laboratory_settings:
  "laboratory_ok d s \<Longrightarrow> laboratory_ok d (s\<lparr> ss_scenario := p, ss_packets_per_tick := n, ss_frame_size := m, ss_seed := sd, ss_backend := b \<rparr>)"
  "laboratory_ok d s \<Longrightarrow> laboratory_ok d (s\<lparr> ss_scenario := p, ss_packets_per_tick := n, ss_frame_size := m, ss_seed := sd, ss_backend := b,
      ss_generator := Some g, ss_analyzer := Some a \<rparr>)"
  by (auto simp add: laboratory_ok_def has_topology_def)

lemma laboratory_start:
  "start_traffic v scenario packets frame sd backend s = (thrown, t) \<Longrightarrow> laboratory_ok d s \<Longrightarrow> laboratory_ok d t"
  by (auto simp: start_traffic_def Let_def laboratory_running laboratory_settings split: if_splits sum.splits)

text \<open>A tick: the frames leave the topology and the faults, the telemetry rebuilds the rows when the pipeline changed them.\<close>

lemma laboratory_telemetry:
  assumes "laboratory_ok d s" and "rebuild_telemetry_rows d now analysis lost throughput average s = Inr t"
  shows "laboratory_ok d t"
proof -
  let ?s = "packet_telemetry d analysis lost throughput average s"
  have s: "laboratory_ok d ?s" using assms(1) by (simp add: packet_telemetry_def Let_def laboratory_ok_def has_topology_def)
  obtain out p c where e: "pl_evaluate (ab_packets analysis) (word_of_int (max (now - ss_start ?s) 0)) now (ss_pipeline ?s) (ss_controller ?s)
        = Inr (out, p, c)"
      and t: "t = outcome_telemetry d out throughput average (?s\<lparr> ss_pipeline := p, ss_controller := c \<rparr>)"
    using assms(2) by (auto simp: rebuild_telemetry_rows_def Let_def split: sum.splits)
  note kept = pl_evaluate_rules [OF e]
  have clock: "pl_clock desktop_anomaly_config p" using pl_clock_evaluate [OF _ e] s by (simp add: laboratory_ok_def)
  show ?thesis
  proof (cases "ao_released out \<noteq> [] \<or> ao_enforced out \<noteq> []")
    case True
    then show ?thesis
      using s kept clock policy_rows_shown
      by (simp add: t outcome_telemetry_def Let_def rebuild_policy_rows_def rebuild_fault_rows_def laboratory_ok_def enforced_rows_def
          has_topology_def configuration_loaded_def fault_rows_def)
  next
    case False
    then show ?thesis
      using s kept clock
      by (simp add: t outcome_telemetry_def Let_def laboratory_ok_def enforced_rows_def has_topology_def configuration_loaded_def)
  qed
qed

lemma laboratory_frames:
  assumes "laboratory_ok d s" and "same_plane (ss_controller s) (tk_controller k)" and "a \<noteq> None \<or> \<not> ss_running s"
  shows "laboratory_ok d (after_frames g a n k s)" "laboratory_ok d (through_frames g a k s)"
  using assms same_plane_faults [OF assms(2)]
  by (auto simp: after_frames_def through_frames_def laboratory_ok_def has_topology_def configuration_loaded_def fault_rows_def same_plane_def)

lemma forward_frames_plane: "same_plane (ss_controller s) (tk_controller (forward_frames arrival frames s))"
  using tick_frames_plane [of "tick_begin s"] by (simp add: forward_frames_def tick_begin_def Let_def)

lemma analyze_delivered_some: "analyze_delivered v views (Some a) = Some (b, a') \<Longrightarrow> a' \<noteq> None"
  by (auto simp: analyze_delivered_def split: if_splits)

lemma tick_cases [consumes 1, case_names idle nowhere frames]:
  assumes "run_traffic_step d v arrival now s = Inr t"
  obtains "t = s" | m where "t = set_status m (stop_traffic s)"
  | g frames g' k b a where "ss_running s" "ss_generator s = Some g" "host_ids (ss_configuration s) \<noteq> []"
      "generate (nat (sint (ss_packets_per_tick s))) g = (frames, g')" "k = forward_frames arrival frames s"
      "analyze_delivered v (tk_delivered k) (ss_analyzer s) = Some (Inr b, a)"
      "rebuild_telemetry_rows d now b (tk_dropped k) (tick_throughput d k) (tick_average d k) (after_frames g' a (length frames) k s) = Inr t"
  using assms by (auto simp: run_traffic_step_def Let_def split: if_splits bool.splits option.splits prod.splits sum.splits)

lemma tick_threw:
  assumes "run_traffic_step d v arrival now s = Inl (AnalyzerThrew what t)"
  obtains g frames g' k g1 a where "ss_running s" "ss_generator s = Some g"
    "generate (nat (sint (ss_packets_per_tick s))) g = (frames, g')" "k = forward_frames arrival frames s" "ss_analyzer s = Some (Inr g1)"
    "dv_analyze v (tk_delivered k) g1 = (Inl what, a)" "t = through_frames g' (Some (Inr a)) k s"
  using assms
  by (auto simp: run_traffic_step_def rebuild_telemetry_rows_def analyze_delivered_def analyze_any_def Let_def
      split: if_splits bool.splits option.splits prod.splits sum.splits)

lemma laboratory_tick_threw:
  assumes "run_traffic_step d v arrival now s = Inl (AnalyzerThrew what t)" and "laboratory_ok d s"
  shows "laboratory_ok d t"
  using assms(1)
proof (cases rule: tick_threw)
  case (1 g frames g' k g1 a)
  then show ?thesis using laboratory_frames(2) [OF assms(2)] forward_frames_plane by blast
qed

lemma laboratory_tick:
  assumes "run_traffic_step d v arrival now s = Inr t" and "laboratory_ok d s"
  shows "laboratory_ok d t"
  using assms(1)
proof (cases rule: tick_cases)
  case (frames g frames g' k b a)
  obtain an where "ss_analyzer s = Some an" using frames(1) assms(2) by (auto simp: laboratory_ok_def)
  then have "a \<noteq> None" using frames(6) analyze_delivered_some by metis
  then have "laboratory_ok d (after_frames g' a (length frames) k s)"
    using laboratory_frames [OF assms(2)] forward_frames_plane frames(5) by blast
  then show ?thesis by (rule laboratory_telemetry [OF _ frames(7)])
qed (use assms(2) laboratory_stop in simp_all)

text \<open>The report leaves the laboratory alone.\<close>

lemma laboratory_report_parts [simp]:
  "laboratory_ok d (s\<lparr> ss_reporting := x0 \<rparr>) = laboratory_ok d s"
  "laboratory_ok d (s\<lparr> ss_progress := x1 \<rparr>) = laboratory_ok d s"
  "laboratory_ok d (s\<lparr> ss_stage := x2 \<rparr>) = laboratory_ok d s"
  "laboratory_ok d (s\<lparr> ss_export_path := x3 \<rparr>) = laboratory_ok d s"
  "laboratory_ok d (s\<lparr> ss_report_config := x4 \<rparr>) = laboratory_ok d s"
  "laboratory_ok d (s\<lparr> ss_queue := x5 \<rparr>) = laboratory_ok d s"
  "laboratory_ok d (s\<lparr> ss_index := x6 \<rparr>) = laboratory_ok d s"
  "laboratory_ok d (s\<lparr> ss_budget := x7 \<rparr>) = laboratory_ok d s"
  "laboratory_ok d (s\<lparr> ss_completed := x8 \<rparr>) = laboratory_ok d s"
  "laboratory_ok d (s\<lparr> ss_total := x9 \<rparr>) = laboratory_ok d s"
  "laboratory_ok d (s\<lparr> ss_run := x10 \<rparr>) = laboratory_ok d s"
  "laboratory_ok d (s\<lparr> ss_results := x11 \<rparr>) = laboratory_ok d s"
  "laboratory_ok d (s\<lparr> ss_rows := x12 \<rparr>) = laboratory_ok d s"
  "laboratory_ok d (s\<lparr> ss_provenance := x13 \<rparr>) = laboratory_ok d s"
  by (simp_all add: laboratory_ok_def has_topology_def)

lemma laboratory_begin [simp]: "laboratory_ok d (snd (begin_next_report_backend b s)) = laboratory_ok d s"
proof (induction b s rule: begin_next_report_backend.induct)
  case (1 b s)
  then show ?case by (subst begin_next_report_backend.simps) (auto split: sum.split)
qed

lemma laboratory_finish [simp]:
  "laboratory_ok d (finish_report d' s) = laboratory_ok d s" "laboratory_ok d (report_progressed d' s) = laboratory_ok d s"
  "laboratory_ok d (rebuild_report_rows d' s) = laboratory_ok d s"
  "laboratory_ok d (report_prepared d' b v calendar config s) = laboratory_ok d s"
  by (simp_all add: finish_report_def report_progressed_def rebuild_report_rows_def report_prepared_def rebuild_report_provenance_def Let_def)

lemma laboratory_report:
  "laboratory_ok d s \<Longrightarrow> laboratory_ok d (run_benchmark_report d b v calendar scenario packets batch frame sd s)"
  "run_report_step d b spent slice_ns s = Some t \<Longrightarrow> laboratory_ok d s \<Longrightarrow> laboratory_ok d t"
  "laboratory_ok d s \<Longrightarrow> laboratory_ok d (snd (snd (export_report d write path s)))"
  by (auto simp: run_benchmark_report_def run_report_step_def report_slice_def report_advanced_def report_closed_def export_report_def export_failed_def split_beta Let_def
      split: sum.splits if_splits option.splits)

lemma laboratory_begin_throws: "begin_throws b what i s = Some t \<Longrightarrow> laboratory_ok d t = laboratory_ok d s"
proof (induction b what i s rule: begin_throws.induct)
  case (1 b what i s)
  then show ?case by (subst (asm) (2) begin_throws.simps) (auto split: if_splits sum.splits)
qed

lemma laboratory_report_throws:
  "run_benchmark_report_throws d b v calendar scenario packets batch frame sd i what s = Some t \<Longrightarrow> laboratory_ok d s \<Longrightarrow> laboratory_ok d t"
  "run_report_step_throws d b spent slice_ns failure what s = Some t \<Longrightarrow> laboratory_ok d s \<Longrightarrow> laboratory_ok d t"
  by (auto simp: run_benchmark_report_throws_def run_report_step_throws_def report_slice_throws_def report_advanced_def report_closed_def
      Let_def split_beta laboratory_begin_throws split: sum.splits if_splits option.splits report_failure.splits)

lemma laboratory_throw: "ss_throw d v b what s t \<Longrightarrow> laboratory_ok d s \<Longrightarrow> laboratory_ok d t"
  by (induction rule: ss_throw.induct) (auto intro: laboratory_start laboratory_tick_threw laboratory_report_throws)

lemma laboratory_step: "ss_step d v b s t \<Longrightarrow> laboratory_ok d s \<Longrightarrow> laboratory_ok d t"
  by (induction rule: ss_step.induct)
    (simp_all add: laboratory_topology laboratory_selection laboratory_faults laboratory_policies laboratory_release laboratory_stop
      laboratory_start laboratory_tick laboratory_report)

lemma laboratory_steps: "ss_steps d v b s t \<Longrightarrow> laboratory_ok d s \<Longrightarrow> laboratory_ok d t"
  by (induction rule: ss_steps.induct) (auto intro: laboratory_step laboratory_throw)

text \<open>C18. The rows and the selection of a session are always what its laboratory holds: the configuration is the one
  the controller has loaded, and a valid one; nodes, links, faults and enforced ports are shown exactly as they are, policies with
  the rules the engine applies; a selection names a node or a link that exists; and traffic runs only in a topology. This holds
  after any commands, ticks and report slices, also those that failed.\<close>

theorem rows_show_laboratory:
  assumes "session_new d now = Inr s0" and "ss_steps d v b s0 s"
  shows "configuration_loaded (ss_configuration s) (ss_controller s) \<and>
    ss_nodes s = placed d 0 (length (host_ids (ss_configuration s))) (topo_nodes (ss_configuration s)) \<and>
    ss_links s = map link_row_of (topo_links (ss_configuration s)) \<and>
    ss_faults s = fault_rows d (ss_controller s) \<and> ss_enforced s = enforced_rows (ss_pipeline s) \<and>
    map without_hits (ss_policies s) = rule_rows (rules (pl_policies (ss_pipeline s))) \<and>
    selection_exists (ss_selection s) (ss_selected_first s) (ss_selected_second s) (ss_configuration s) \<and>
    (ss_running s \<longrightarrow> has_topology s)"
  using laboratory_steps [OF assms(2) laboratory_new [OF assms(1)]] by (simp add: laboratory_ok_def)

theorem rows_show_laboratory_witness:
  "\<exists>s0 s. session_new example_doubles 0 = Inr s0 \<and> ss_steps example_doubles example_devices example_build s0 s \<and>
     ss_faults s = fault_rows example_doubles (ss_controller s)"
proof -
  obtain s0 :: "(unit, unit) session" where s0: "session_new example_doubles 0 = Inr s0" using session_new_some by blast
  have steps: "ss_steps example_doubles example_devices example_build s0 (add_node example_doubles 1 ''s1'' ''Switch'' s0)"
    by (rule sts_step [OF sts_refl st_add_node])
  show ?thesis using s0 steps rows_show_laboratory [OF s0 steps] by blast
qed

section \<open>What a tick may throw\<close>

lemma tick_drop_delivered [simp]: "tk_delivered (tick_drop h k) = tk_delivered k"
  by (simp add: tick_drop_def)

lemma tick_frame_views:
  assumes "\<forall>w \<in> set (tk_delivered k). view_ok w"
  shows "\<forall>w \<in> set (tk_delivered (tick_frame ls hosts sw arrival i frame k)). view_ok w"
  using assms by (simp add: tick_frame_def tick_deliver_def view_ok_def Let_def split_beta split: sum.split option.split)

lemma tick_frames_views:
  "\<forall>w \<in> set (tk_delivered k). view_ok w \<Longrightarrow>
    \<forall>w \<in> set (tk_delivered (tick_frames ls hosts sw arrival base i frames k)). view_ok w"
proof (induction frames arbitrary: i k)
  case (Cons frame frames)
  show ?case unfolding tick_frames.simps by (rule Cons.IH [OF tick_frame_views [OF Cons.prems]])
qed simp

lemma analyze_delivered_total:
  assumes "\<forall>w \<in> set views. view_ok w"
  shows "\<exists>r. analyze_delivered v views a = Some r"
proof -
  have "\<exists>r. analyze_any v views x = Some r" for x
  proof (cases x)
    case (Inl learned)
    obtain r where "analyze_views views learned = Some r" unfolding analyze_views_eq [OF assms] by blast
    then show ?thesis by (simp add: analyze_any_def Inl)
  qed (simp add: analyze_any_def split: prod.split)
  then show ?thesis by (cases a) (auto simp: analyze_delivered_def)
qed

lemma laboratory_tick_returns:
  assumes "laboratory_ok d s"
  shows "(\<exists>t. run_traffic_step d v arrival now s = Inr t) \<or> (\<exists>what t. run_traffic_step d v arrival now s = Inl (AnalyzerThrew what t))"
proof (cases "ss_running s \<and> \<not> (host_ids (ss_configuration s) = [] \<or> tick_switch (ss_configuration s) = [])")
  case True
  then obtain g where g: "ss_generator s = Some g" using assms by (auto simp: laboratory_ok_def)
  obtain frames g' where f: "generate (nat (sint (ss_packets_per_tick s))) g = (frames, g')"
    by (cases "generate (nat (sint (ss_packets_per_tick s))) g")
  let ?k = "forward_frames arrival frames s"
  have "\<forall>w \<in> set (tk_delivered ?k). view_ok w"
    using tick_frames_views [of "tick_begin s"] by (simp add: forward_frames_def Let_def tick_begin_def)
  then obtain answer a where a: "analyze_delivered v (tk_delivered ?k) (ss_analyzer s) = Some (answer, a)"
    using analyze_delivered_total by (metis surj_pair)
  have "pl_clock desktop_anomaly_config (ss_pipeline s)" using assms by (simp add: laboratory_ok_def)
  then have e: "\<exists>out p c. pl_evaluate xs ts m (ss_pipeline s) x = Inr (out, p, c)" for xs ts m x
    using pl_evaluate_total by blast
  have "\<exists>t. rebuild_telemetry_rows d now b' lost throughput average (after_frames g' a n k s) = Inr t" for b' lost throughput average n k
    using e [of "ab_packets b'" _ now "tk_controller k"]
    by (auto simp: rebuild_telemetry_rows_def packet_telemetry_def after_frames_def through_frames_def Let_def split: sum.split)
      (metis Inl_Inr_False)
  with True g f a show ?thesis by (cases answer) (simp_all add: run_traffic_step_def Let_def)
qed (auto simp: run_traffic_step_def split: bool.split option.split)

text \<open>Only an analyzer of a device throws.\<close>

lemma cpu_tick_returns:
  assumes "laboratory_ok d s" and "\<And>g. ss_analyzer s \<noteq> Some (Inr g)"
  shows "\<exists>t. run_traffic_step d v arrival now s = Inr t"
  using laboratory_tick_returns [OF assms(1)] tick_threw assms(2) by metis

end
