(* ===== verification/Session_Accounts.thy ===== *)
theory Session_Accounts
  imports Session_Laboratory
begin

text \<open>
  The books of a session: every frame of a tick is counted at a port, and what the table of ports shows adds
  up to the totals, whatever was started, stopped or contained in between, unless the analyzer of a device threw out of a
  tick. A tick returns and advances them, or throws what that analyzer did.
\<close>

section \<open>Sums over counters\<close>

definition tally :: "(port_counters \<Rightarrow> u64) \<Rightarrow> (string \<times> port_counters) list \<Rightarrow> u64" where
  "tally f cs = sum_list (map (\<lambda>(p, c). f c) cs)"

lemma tally_assign:
  "umap_ok cs \<Longrightarrow> tally f (umap_assign p c cs) = tally f cs + f c - (case map_of cs p of None \<Rightarrow> 0 | Some b \<Rightarrow> f b)"
  by (induction cs) (auto simp: tally_def split: option.split)

lemma tally_count_port:
  assumes "umap_ok cs" and "f no_traffic = 0"
  shows "tally f (count_port p g cs) = tally f cs + (let c = (case map_of cs p of None \<Rightarrow> no_traffic | Some c \<Rightarrow> c) in f (g c) - f c)"
  using assms(2) by (simp add: count_port_def tally_assign [OF assms(1)] Let_def split: option.split)

lemma keys_count_port [simp]: "fst ` set (count_port p g cs) = insert p (fst ` set cs)"
  by (simp add: count_port_def)

lemma umap_ok_count_port: "umap_ok cs \<Longrightarrow> umap_ok (count_port p g cs)"
  by (simp add: count_port_def umap_assign_ok)

lemma tally_received: "umap_ok cs \<Longrightarrow> tally pc_received (count_port p (\<lambda>c. c\<lparr> pc_received := pc_received c + 1 \<rparr>) cs) = tally pc_received cs + 1"
  "umap_ok cs \<Longrightarrow> tally pc_dropped (count_port p (\<lambda>c. c\<lparr> pc_received := pc_received c + 1 \<rparr>) cs) = tally pc_dropped cs"
  by (simp_all add: tally_count_port no_traffic_def Let_def)

lemma tally_dropped:
  "umap_ok cs \<Longrightarrow> tally pc_dropped (count_port p (\<lambda>c. c\<lparr> pc_dropped := pc_dropped c + 1 \<rparr>) cs) = tally pc_dropped cs + 1"
  "umap_ok cs \<Longrightarrow> tally pc_received (count_port p (\<lambda>c. c\<lparr> pc_dropped := pc_dropped c + 1 \<rparr>) cs) = tally pc_received cs"
  by (simp_all add: tally_count_port no_traffic_def Let_def)

lemma tally_forwarded:
  "umap_ok cs \<Longrightarrow> tally pc_dropped (count_port p (\<lambda>c. c\<lparr> pc_forwarded := pc_forwarded c + n \<rparr>) cs) = tally pc_dropped cs"
  "umap_ok cs \<Longrightarrow> tally pc_received (count_port p (\<lambda>c. c\<lparr> pc_forwarded := pc_forwarded c + n \<rparr>) cs) = tally pc_received cs"
  by (simp_all add: tally_count_port no_traffic_def Let_def)

section \<open>The frames of a tick\<close>

definition counters_step :: "string set \<Rightarrow> nat \<Rightarrow> tick_state \<Rightarrow> tick_state \<Rightarrow> bool" where
  "counters_step hs n k k' \<longleftrightarrow> umap_ok (tk_counters k') \<and> fst ` set (tk_counters k') \<subseteq> hs \<union> fst ` set (tk_counters k) \<and>
     tally pc_received (tk_counters k') = tally pc_received (tk_counters k) + of_nat n \<and>
     tally pc_dropped (tk_counters k') - tk_dropped k' = tally pc_dropped (tk_counters k) - tk_dropped k"

lemma tick_frame_counters:
  assumes "umap_ok (tk_counters k)"
  shows "counters_step {hosts ! i} (Suc 0) k (tick_frame ls hosts sw arrival i frame k)"
proof -
  let ?cs = "count_port (hosts ! i) (\<lambda>c. c\<lparr> pc_received := pc_received c + 1 \<rparr>) (tk_counters k)"
  have k: "umap_ok ?cs" "tally pc_received ?cs = tally pc_received (tk_counters k) + 1"
      "tally pc_dropped ?cs = tally pc_dropped (tk_counters k)" "fst ` set ?cs = insert (hosts ! i) (fst ` set (tk_counters k))"
    using assms by (simp_all add: umap_ok_count_port tally_received)
  have drop: "counters_step {hosts ! i} (Suc 0) k (tick_drop (hosts ! i) (k\<lparr> tk_counters := ?cs, tk_controller := c \<rparr>))" for c
    using k by (simp add: counters_step_def tick_drop_def umap_ok_count_port tally_dropped)
  have deliver: "counters_step {hosts ! i} (Suc 0) k ((tick_deliver (hosts ! i) i frame n (k\<lparr> tk_counters := ?cs, tk_controller := c \<rparr>))
      \<lparr> tk_latency := x, tk_samples := y \<rparr>)" for n c x y
    using k by (simp add: counters_step_def tick_deliver_def umap_ok_count_port tally_forwarded)
  show ?thesis
    by (simp add: tick_frame_def Let_def split_beta drop deliver split: sum.split option.split)
qed

lemma tick_frames_counters:
  assumes "umap_ok (tk_counters k)" and "hosts \<noteq> []"
  shows "counters_step (set hosts) (length frames) k (tick_frames ls hosts sw arrival base i frames k)"
  using assms(1)
proof (induction frames arbitrary: i k)
  case Nil
  then show ?case by (simp add: counters_step_def)
next
  case (Cons frame frames)
  let ?i = "unat (base + of_nat i) mod length hosts"
  let ?k = "tick_frame ls hosts sw arrival ?i frame k"
  have one: "counters_step {hosts ! ?i} (Suc 0) k ?k" by (rule tick_frame_counters [OF Cons.prems])
  have "umap_ok (tk_counters ?k)" using one by (simp add: counters_step_def)
  from Cons.IH [OF this, of "Suc i"] one have "counters_step (set hosts \<union> {hosts ! ?i}) (Suc (length frames)) k
      (tick_frames ls hosts sw arrival base (Suc i) frames ?k)"
    by (auto simp: counters_step_def)
  moreover have "hosts ! ?i \<in> set hosts" using assms(2) by simp
  ultimately show ?case by (simp add: insert_absorb)
qed

section \<open>The books\<close>

definition shown_counts :: "port_state_row \<Rightarrow> string \<times> port_counters" where
  "shown_counts r = (po_id r, \<lparr> pc_received = po_received r, pc_forwarded = po_forwarded r, pc_dropped = po_dropped r \<rparr>)"

definition counters_of :: "(string \<times> port_counters) list \<Rightarrow> string \<Rightarrow> port_counters" where
  "counters_of cs p = (case map_of cs p of None \<Rightarrow> no_traffic | Some c \<Rightarrow> c)"

definition accounts_ok :: "('d, 'g) session \<Rightarrow> bool" where
  "accounts_ok s \<longleftrightarrow> (let cs = ss_counters s; hosts = host_ids (ss_configuration s) in
     umap_ok cs \<and> fst ` set cs = set hosts \<and>
     tally pc_received cs = ss_total_packets s \<and> tally pc_dropped cs = ss_total_dropped s \<and>
     (map shown_counts (ss_ports s) = map (\<lambda>h. (h, counters_of cs h)) hosts \<or>
      ss_ports s = [] \<and> ss_total_packets s = 0 \<and> ss_total_dropped s = 0) \<and>
     length (ss_history s) \<le> 60 \<and> length (ss_actions s) \<le> 200 \<and> length (ss_packets s) \<le> 100)"

definition same_books :: "('d, 'g) session \<Rightarrow> ('d, 'g) session \<Rightarrow> bool" where
  "same_books s t \<longleftrightarrow> ss_counters t = ss_counters s \<and> ss_configuration t = ss_configuration s \<and>
     ss_total_packets t = ss_total_packets s \<and> ss_total_dropped t = ss_total_dropped s \<and> ss_ports t = ss_ports s \<and>
     ss_history t = ss_history s \<and> ss_actions t = ss_actions s \<and> ss_packets t = ss_packets s"

lemma same_books_ok: "same_books s t \<Longrightarrow> accounts_ok s \<Longrightarrow> accounts_ok t"
  by (simp add: same_books_def accounts_ok_def)

lemma same_books_mark [simp]:
  "same_books s (ss_mark f t) = same_books s t" "same_books s (set_status m t) = same_books s t"
  "same_books s (rebuild_fault_rows d t) = same_books s t" "same_books s (rebuild_policy_rows t) = same_books s t"
  "same_books s s"
  by (simp_all add: same_books_def set_status_def rebuild_fault_rows_def rebuild_policy_rows_def)

lemma accounts_status: "accounts_ok s \<Longrightarrow> accounts_ok (set_status m s)"
  by (rule same_books_ok [of s]) simp

lemma fold_count_port:
  assumes "umap_ok cs"
  shows "umap_ok (fold (\<lambda>h. count_port h (\<lambda>c. c)) hs cs) \<and> fst ` set (fold (\<lambda>h. count_port h (\<lambda>c. c)) hs cs) = set hs \<union> fst ` set cs \<and>
    counters_of (fold (\<lambda>h. count_port h (\<lambda>c. c)) hs cs) = counters_of cs \<and>
    (f no_traffic = 0 \<longrightarrow> tally f (fold (\<lambda>h. count_port h (\<lambda>c. c)) hs cs) = tally f cs)"
  using assms
proof (induction hs arbitrary: cs)
  case (Cons h hs)
  have "counters_of (count_port h (\<lambda>c. c) cs) = counters_of cs"
    by (auto simp: counters_of_def count_port_def)
  with Cons.IH [OF umap_ok_count_port [OF Cons.prems]] show ?case
    by (auto simp: tally_count_port [OF Cons.prems])
qed simp

lemma accounts_reset: "accounts_ok (reset_simulation now s)"
  using fold_count_port [of "[]" "host_ids (ss_configuration s)" pc_received] fold_count_port [of "[]" "host_ids (ss_configuration s)" pc_dropped]
  by (simp add: accounts_ok_def reset_simulation_def tally_def no_traffic_def)

lemma accounts_commit:
  assumes "accounts_ok s"
  shows "accounts_ok (snd (commit_topology d now c m s))"
proof (cases "topology_create c")
  case (Inl e)
  then show ?thesis using assms by (simp add: commit_topology_def accounts_status)
next
  case (Inr t)
  let ?u = "reset_simulation now (clear_selection ((stop_traffic s)\<lparr> ss_configuration := c, ss_controller := tc_load t (ss_controller (stop_traffic s)) \<rparr>))"
  have "same_books ?u (snd (commit_topology d now c m s))"
    by (simp add: commit_topology_def Inr Let_def rebuild_topology_rows_def) (simp add: same_books_def)
  then show ?thesis using same_books_ok accounts_reset by blast
qed

lemma accounts_topology:
  assumes "accounts_ok s"
  shows "accounts_ok (open_topology d now files path s)" "accounts_ok (snd (save_topology opened written path s))"
    "accounts_ok (add_node d now name type s)" "accounts_ok (add_link d now from to ms s)" "accounts_ok (remove_selected d now s)"
proof -
  have path: "accounts_ok (s\<lparr> ss_path := x \<rparr>)" for x using assms by (simp add: accounts_ok_def)
  show "accounts_ok (open_topology d now files path s)" "accounts_ok (snd (save_topology opened written path s))"
    "accounts_ok (add_node d now name type s)" "accounts_ok (add_link d now from to ms s)" "accounts_ok (remove_selected d now s)"
    using assms
    by (simp_all add: open_topology_def save_topology_def add_node_def add_link_def remove_selected_def Let_def path accounts_status
        accounts_commit split: sum.split selection_kind.split)
qed

lemma books_commands:
  "same_books s (clear_selection s)" "same_books s (select_node name s)" "same_books s (select_link from to s)"
  "same_books s (apply_selected_fault d ms loss hole s)" "same_books s (ss_clear_fault d first second s)"
  "same_books s (add_policy name type action rate s)" "same_books s (remove_policy name s)"
  "same_books s (set_policy_enabled name enabled s)" "same_books s (release_enforcement d port s)" "same_books s (stop_traffic s)"
  by (simp_all add: clear_selection_def select_node_def select_link_def apply_selected_fault_def ss_clear_fault_def add_policy_def
      remove_policy_def set_policy_enabled_def release_enforcement_def stop_traffic_def with_policies_def split_beta Let_def
      split: option.split sum.split prod.split bool.split)
    (simp_all add: same_books_def)

lemma books_start: "start_traffic v scenario packets frame sd backend s = (thrown, t) \<Longrightarrow> same_books s t"
  by (auto simp: start_traffic_def Let_def same_books_def set_status_def split: if_splits sum.splits)

lemma books_begin: "same_books s t \<Longrightarrow> same_books s (snd (begin_next_report_backend b t))"
proof (induction b t rule: begin_next_report_backend.induct)
  case (1 b t)
  then show ?case by (subst begin_next_report_backend.simps) (auto simp: same_books_def split: sum.split)
qed

lemma books_report_parts [simp]:
  "same_books s (finish_report d t) = same_books s t" "same_books s (report_progressed d t) = same_books s t"
  "same_books s (rebuild_report_rows d t) = same_books s t" "same_books s (report_prepared d b v calendar config t) = same_books s t"
  "same_books s (t\<lparr> ss_run := r \<rparr>) = same_books s t" "same_books s (t\<lparr> ss_completed := n \<rparr>) = same_books s t"
  "same_books s (t\<lparr> ss_results := rs \<rparr>) = same_books s t" "same_books s (t\<lparr> ss_index := i \<rparr>) = same_books s t"
  "same_books s (t\<lparr> ss_export_path := path \<rparr>) = same_books s t"
  by (simp_all add: same_books_def finish_report_def report_progressed_def rebuild_report_rows_def report_prepared_def
      rebuild_report_provenance_def Let_def set_status_def)

lemma books_report:
  "same_books s (run_benchmark_report d b v calendar scenario packets batch frame sd s)"
  "run_report_step d b spent slice_ns s = Some t \<Longrightarrow> same_books s t"
  "same_books s (snd (snd (export_report d write path s)))"
  by (auto simp: run_benchmark_report_def run_report_step_def report_slice_def report_advanced_def report_closed_def export_report_def export_failed_def split_beta Let_def
      intro!: books_begin split: sum.splits if_splits option.splits)

text \<open>A tick.\<close>

lemma last_of_length [simp]: "length (last_of n xs) \<le> n"
  by (simp add: last_of_def)

lemma forward_frames_counters:
  assumes "accounts_ok s" and "host_ids (ss_configuration s) \<noteq> []" and "k = forward_frames arrival frames s"
  shows "umap_ok (tk_counters k) \<and> fst ` set (tk_counters k) \<subseteq> set (host_ids (ss_configuration s)) \<and>
    tally pc_received (tk_counters k) = ss_total_packets s + of_nat (length frames) \<and>
    tally pc_dropped (tk_counters k) = ss_total_dropped s + tk_dropped k"
proof -
  have "umap_ok (tk_counters (tick_begin s))" using assms(1) by (simp add: accounts_ok_def tick_begin_def Let_def)
  from tick_frames_counters [OF this assms(2), of frames] assms(1) show ?thesis
    by (simp add: assms(3) forward_frames_def Let_def counters_step_def tick_begin_def accounts_ok_def algebra_simps)
qed

lemma accounts_tick:
  assumes "run_traffic_step d v arrival now s = Inr t" and "accounts_ok s"
  shows "accounts_ok t"
  using assms(1)
proof (cases rule: tick_cases)
  case idle
  then show ?thesis using assms(2) by simp
next
  case (nowhere m)
  then show ?thesis using accounts_status same_books_ok [OF books_commands(10) assms(2)] by simp
next
  case (frames g frames g' k b a)
  note c = forward_frames_counters [OF assms(2) frames(3,5)]
  let ?u = "packet_telemetry d b (tk_dropped k) (tick_throughput d k) (tick_average d k) (after_frames g' a (length frames) k s)"
  obtain out p c where t: "t = outcome_telemetry d out (tick_throughput d k) (tick_average d k) (?u\<lparr> ss_pipeline := p, ss_controller := c \<rparr>)"
    using frames(7) by (auto simp: rebuild_telemetry_rows_def Let_def split: sum.splits)
  let ?hosts = "host_ids (ss_configuration s)"
  let ?cs = "fold (\<lambda>h. count_port h (\<lambda>c. c)) ?hosts (tk_counters k)"
  have f: "umap_ok ?cs" "fst ` set ?cs = set ?hosts" "tally pc_received ?cs = ss_total_packets s + of_nat (length frames)"
      "tally pc_dropped ?cs = ss_total_dropped s + tk_dropped k"
    using c fold_count_port [of "tk_counters k" ?hosts pc_received] fold_count_port [of "tk_counters k" ?hosts pc_dropped]
    by (auto simp: no_traffic_def)
  have "ss_counters t = ?cs \<and> ss_configuration t = ss_configuration s \<and>
      ss_total_packets t = ss_total_packets s + of_nat (length frames) \<and> ss_total_dropped t = ss_total_dropped s + tk_dropped k \<and>
      map shown_counts (ss_ports t) = map (\<lambda>h. (h, counters_of ?cs h)) ?hosts \<and>
      length (ss_history t) \<le> 60 \<and> length (ss_actions t) \<le> 200 \<and> length (ss_packets t) \<le> 100"
    unfolding t
    by (simp add: outcome_telemetry_def Let_def packet_telemetry_def after_frames_def through_frames_def rebuild_policy_rows_def rebuild_fault_rows_def
        shown_counts_def port_row_of_def counters_of_def)
  with f show ?thesis by (simp add: accounts_ok_def)
qed

lemma accounts_step: "ss_step d v b s t \<Longrightarrow> accounts_ok s \<Longrightarrow> accounts_ok t"
proof (induction rule: ss_step.induct)
  case (st_tick arrival now s s')
  then show ?case by (rule accounts_tick)
qed (simp_all add: accounts_topology same_books_ok [OF books_commands(1)] same_books_ok [OF books_commands(2)]
    same_books_ok [OF books_commands(3)] same_books_ok [OF books_commands(4)] same_books_ok [OF books_commands(5)]
    same_books_ok [OF books_commands(6)] same_books_ok [OF books_commands(7)] same_books_ok [OF books_commands(8)]
    same_books_ok [OF books_commands(9)] same_books_ok [OF books_commands(10)] same_books_ok [OF books_start]
    same_books_ok [OF books_report(1)] same_books_ok [OF books_report(2)] same_books_ok [OF books_report(3)])

lemma books_throws:
  "begin_throws b what i t = Some u \<Longrightarrow> same_books s t \<Longrightarrow> same_books s u"
proof (induction b what i t rule: begin_throws.induct)
  case (1 b what i t)
  then show ?case by (subst (asm) (2) begin_throws.simps) (auto simp: same_books_def split: if_splits sum.splits)
qed

lemma books_report_throws:
  "run_benchmark_report_throws d b v calendar scenario packets batch frame sd i what s = Some t \<Longrightarrow> same_books s t"
  "run_report_step_throws d b spent slice_ns failure what s = Some t \<Longrightarrow> same_books s t"
  by (auto simp: run_benchmark_report_throws_def run_report_step_throws_def report_slice_throws_def report_advanced_def report_closed_def
      Let_def split_beta books_begin elim!: books_throws split: sum.splits if_splits option.splits report_failure.splits)

text \<open>An analyzer that threw has been shown frames that are counted at their ports and not in the totals.\<close>

definition devices_reliable :: "'g session_devices \<Rightarrow> bool" where
  "devices_reliable v \<longleftrightarrow> (\<forall>views g what. fst (dv_analyze v views g) \<noteq> Inl what)"

lemma accounts_throw: "ss_throw d v b what s t \<Longrightarrow> devices_reliable v \<Longrightarrow> accounts_ok s \<Longrightarrow> accounts_ok t"
proof (induction rule: ss_throw.induct)
  case (th_tick arrival now s what s')
  then show ?case by (metis devices_reliable_def fst_conv tick_threw)
qed (auto intro: same_books_ok books_start books_report_throws)

lemma accounts_steps: "ss_steps d v b s t \<Longrightarrow> devices_reliable v \<Longrightarrow> accounts_ok s \<Longrightarrow> accounts_ok t"
  by (induction rule: ss_steps.induct) (auto intro: accounts_step accounts_throw)

lemma accounts_new: "session_new d now = Inr s \<Longrightarrow> accounts_ok s"
  by (auto simp: session_new_def accounts_ok_def rebuild_policy_rows_def no_topology_def host_ids_def tally_def split: sum.splits)

section \<open>What the books show\<close>

lemma loaded_wf:
  assumes "configuration_loaded conf c" and "tc_topology c = Some t"
  shows "\<exists>i. topology_wf conf i"
  using assms by (auto simp: configuration_loaded_def topology_create_Inr)

lemma loaded_hosts_distinct: "configuration_loaded conf c \<Longrightarrow> distinct (host_ids conf)"
proof (cases "tc_topology c")
  case (Some t)
  assume "configuration_loaded conf c"
  then obtain i where "topology_wf conf i" using loaded_wf Some by blast
  then show ?thesis by (simp add: topology_wf_def host_ids_def distinct_map_filter)
qed (simp add: configuration_loaded_def no_topology_def host_ids_def)

lemma loaded_switch:
  assumes "configuration_loaded conf c" and "tc_topology c = Some t"
  shows "tick_switch conf \<noteq> []"
proof -
  obtain i where wf: "topology_wf conf i" using loaded_wf [OF assms] by blast
  let ?others = "filter (\<lambda>n. node_type n \<noteq> Host) (topo_nodes conf)"
  have i: "i < length (topo_nodes conf)" "node_type (topo_nodes conf ! i) = Switch"
    using wf switches_index [of i "topo_nodes conf"] by (auto simp: topology_wf_def)
  then have "topo_nodes conf ! i \<in> set ?others" by simp
  then have some: "?others \<noteq> []" by force
  then have "last (map node_id ?others) \<in> node_id ` set (topo_nodes conf)"
    using last_in_set [of ?others] by (auto simp: last_map)
  then have "last (map node_id ?others) \<noteq> []" using wf by (auto simp: topology_wf_def)
  then show ?thesis using some by (simp add: tick_switch_def)
qed

lemma tally_by_host:
  assumes "umap_ok cs" and "distinct hosts" and "fst ` set cs = set hosts"
  shows "sum_list (map (\<lambda>h. f (counters_of cs h)) hosts) = tally f cs"
proof -
  have same: "map (\<lambda>(p, c). f c) cs = map (\<lambda>p. f (counters_of cs p)) (map fst cs)"
    using assms(1) by (auto simp: counters_of_def)
  have "tally f cs = sum (\<lambda>p. f (counters_of cs p)) (set (map fst cs))"
    unfolding tally_def same by (rule sum_list_distinct_conv_sum_set [OF assms(1)])
  then show ?thesis using sum_list_distinct_conv_sum_set [OF assms(2)] assms(3) by simp
qed

text \<open>A session for the witnesses: the example topology is opened from a file and its traffic started.\<close>

lemma example_topology_writable: "writable example_topology"
  by (simp add: writable_def example_topology_def clean_def clean_char_def is_trimmed_def is_blank_def)

lemma example_running:
  "\<exists>s0 s. session_new example_doubles 0 = Inr s0 \<and> ss_steps example_doubles example_devices example_build s0 s \<and>
     ss_running s \<and> ss_configuration s = example_topology \<and> ss_packets_per_tick s = 256 \<and> ss_total_packets s = 0 \<and> ss_tick s = 0"
proof -
  obtain s0 :: "(unit, unit) session" where s0: "session_new example_doubles 0 = Inr s0" using session_new_some by blast
  define s where "s = open_topology example_doubles 1 (\<lambda>_. Some (document_text example_topology)) ''lab.yaml'' s0"
  have s: "ss_configuration s = example_topology" "has_topology s" "ss_total_packets s = 0" "ss_tick s = 0"
    by (simp_all add: s_def open_topology_def topology_configuration_from_yaml_file_def document_read_back [OF example_topology_writable]
        commit_topology_def example_topology_create Let_def rebuild_fault_rows_def rebuild_topology_rows_def reset_simulation_def
        clear_selection_def set_status_def has_topology_def tc_load_def)
  have "host_ids (ss_configuration s) = [''h1'', ''h2'']" by (simp add: s(1) host_ids_def example_topology_def)
  then obtain t where t: "start_traffic example_devices ''mixed-traffic'' 256 64 7 ''CPU'' s = (None, t)" "ss_running t"
      "ss_configuration t = example_topology" "ss_packets_per_tick t = 256" "ss_total_packets t = 0" "ss_tick t = 0"
    using s by (simp add: start_traffic_def scenario_from_text_def available_backends_def example_devices_def generator_new_def
        set_status_def Let_def ethernet_header_size_def device_analyzer_def)
  have "ss_steps example_doubles example_devices example_build s0 t"
    by (rule sts_step [OF sts_step [OF sts_refl st_open] st_start]) (use t(1) s_def in blast)
  then show ?thesis using s0 t by blast
qed

lemma example_reliable [simp]: "devices_reliable example_devices"
  by (simp add: devices_reliable_def example_devices_def)

text \<open>C20. The table of ports adds up on a machine whose devices do not throw out of a tick, as one without accelerators: over
  all the hosts shown, the frames received are the packets generated and the frames dropped are those the totals report,
  modulo \<open>2^64\<close>, through restarts of the traffic, starts and reports that threw, faults, containment and changes of the
  topology; and the histories that are shown stay within their windows. (The frames of a tick whose analyzer threw are counted at
  the ports and not in the totals.)\<close>

theorem shown_ports_add_up:
  assumes "session_new d now = Inr s0" and "ss_steps d v b s0 s" and "devices_reliable v"
  shows "sum_list (map po_received (ss_ports s)) = ss_total_packets s \<and>
    sum_list (map po_dropped (ss_ports s)) = ss_total_dropped s \<and>
    (ss_ports s \<noteq> [] \<longrightarrow> map po_id (ss_ports s) = host_ids (ss_configuration s)) \<and>
    length (ss_history s) \<le> 60 \<and> length (ss_actions s) \<le> 200 \<and> length (ss_packets s) \<le> 100"
proof -
  have ok: "accounts_ok s" using accounts_steps [OF assms(2,3) accounts_new [OF assms(1)]] .
  have "configuration_loaded (ss_configuration s) (ss_controller s)"
    using laboratory_steps [OF assms(2) laboratory_new [OF assms(1)]] by (simp add: laboratory_ok_def)
  note distinct = loaded_hosts_distinct [OF this]
  let ?hosts = "host_ids (ss_configuration s)"
  have sums: "sum_list (map po_received (ss_ports s)) = tally pc_received (ss_counters s)"
      "sum_list (map po_dropped (ss_ports s)) = tally pc_dropped (ss_counters s)" "map po_id (ss_ports s) = ?hosts"
    if "map shown_counts (ss_ports s) = map (\<lambda>h. (h, counters_of (ss_counters s) h)) ?hosts"
  proof -
    have shown: "map f (map shown_counts (ss_ports s)) = map (\<lambda>h. f (h, counters_of (ss_counters s) h)) ?hosts"
      for f :: "string \<times> port_counters \<Rightarrow> 'x" using arg_cong [OF that, of "map f"] by simp
    have "map po_received (ss_ports s) = map (\<lambda>h. pc_received (counters_of (ss_counters s) h)) ?hosts"
        "map po_dropped (ss_ports s) = map (\<lambda>h. pc_dropped (counters_of (ss_counters s) h)) ?hosts"
        "map po_id (ss_ports s) = ?hosts"
      using shown [of "\<lambda>x. pc_received (snd x)"] shown [of "\<lambda>x. pc_dropped (snd x)"] shown [of fst]
      by (simp_all add: shown_counts_def comp_def)
    with ok distinct show "sum_list (map po_received (ss_ports s)) = tally pc_received (ss_counters s)"
      "sum_list (map po_dropped (ss_ports s)) = tally pc_dropped (ss_counters s)" "map po_id (ss_ports s) = ?hosts"
      by (simp_all add: accounts_ok_def Let_def tally_by_host)
  qed
  then show ?thesis using ok by (auto simp: accounts_ok_def Let_def)
qed

theorem shown_ports_add_up_witness:
  "\<exists>s0 s. session_new example_doubles 0 = Inr s0 \<and> ss_steps example_doubles example_devices example_build s0 s \<and> ss_running s \<and>
     sum_list (map po_received (ss_ports s)) = ss_total_packets s"
  using example_running shown_ports_add_up [OF _ _ example_reliable] by blast

lemma length_generate: "length (fst (generate n g)) = n"
  by (induction n arbitrary: g) (simp_all add: Let_def split_beta)

lemma packet_telemetry_keeps [simp]:
  "ss_running (packet_telemetry d b lost throughput average s) = ss_running s"
  "ss_tick (packet_telemetry d b lost throughput average s) = ss_tick s"
  "ss_total_packets (packet_telemetry d b lost throughput average s) = ss_total_packets s"
  by (simp_all add: packet_telemetry_def Let_def)

lemma outcome_telemetry_keeps [simp]:
  "ss_running (outcome_telemetry d out throughput average s) = ss_running s"
  "ss_tick (outcome_telemetry d out throughput average s) = ss_tick s"
  "ss_total_packets (outcome_telemetry d out throughput average s) = ss_total_packets s"
  by (simp_all add: outcome_telemetry_def Let_def rebuild_policy_rows_def rebuild_fault_rows_def)

text \<open>C19. What a tick does, in every session that can be reached, whatever its faults and rules and whatever the clock
  reads. It returns, unless the accelerated analyzer of the traffic throws at the frames that were delivered; then it throws
  that and counts nothing, and traffic goes on running. The detector is never shown a time it refuses and no frame is read
  outside its bytes. A tick that returns while traffic runs in a topology with hosts counts as one and generates the packets it
  was asked for; otherwise it stops the traffic and counts nothing.\<close>

theorem ticks_count_or_throw:
  assumes "session_new d now0 = Inr s0" and "ss_steps d v b s0 s"
  shows "(\<exists>t. run_traffic_step d v arrival now s = Inr t \<and>
    (if ss_running s \<and> host_ids (ss_configuration s) \<noteq> []
     then ss_running t \<and> ss_tick t = ss_tick s + 1 \<and>
       ss_total_packets t = ss_total_packets s + of_nat (nat (sint (ss_packets_per_tick s)))
     else \<not> ss_running t \<and> ss_tick t = ss_tick s \<and> ss_total_packets t = ss_total_packets s)) \<or>
   (\<exists>what t g frames g1 g2. run_traffic_step d v arrival now s = Inl (AnalyzerThrew what t) \<and> ss_running s \<and>
     ss_generator s = Some g \<and> frames = fst (generate (nat (sint (ss_packets_per_tick s))) g) \<and> ss_analyzer s = Some (Inr g1) \<and>
     dv_analyze v (tk_delivered (forward_frames arrival frames s)) g1 = (Inl what, g2) \<and>
     ss_running t \<and> ss_tick t = ss_tick s \<and> ss_total_packets t = ss_total_packets s \<and> ss_status t = ss_status s)"
proof -
  have ok: "laboratory_ok d s" using laboratory_steps [OF assms(2) laboratory_new [OF assms(1)]] .
  consider (returns) t where "run_traffic_step d v arrival now s = Inr t"
    | (throws) what t where "run_traffic_step d v arrival now s = Inl (AnalyzerThrew what t)"
    using laboratory_tick_returns [OF ok] by blast
  then show ?thesis
  proof cases
    case (throws what t)
    then show ?thesis
    proof (cases rule: tick_threw)
      case (1 g frames g' k g1 a)
      then have "ss_running t \<and> ss_tick t = ss_tick s \<and> ss_total_packets t = ss_total_packets s \<and> ss_status t = ss_status s"
        by (simp add: through_frames_def)
      with 1 throws show ?thesis by (intro disjI2 exI [of _ what] exI [of _ t] exI [of _ g] exI [of _ frames] exI [of _ g1] exI [of _ a]) simp
    qed
  next
    case (returns t)
    note t = this
    have counted: "ss_running u = ss_running s \<and> ss_tick u = ss_tick s + 1 \<and> ss_total_packets u = ss_total_packets s + of_nat n"
      if "rebuild_telemetry_rows d now batch lost throughput average (after_frames g a n k s) = Inr u" for batch lost throughput average g a n k u
      using that by (auto simp: rebuild_telemetry_rows_def Let_def after_frames_def through_frames_def split: sum.splits)
    have stopped: "\<not> ss_running (stop_traffic s)" "ss_tick (stop_traffic s) = ss_tick s" "ss_total_packets (stop_traffic s) = ss_total_packets s"
      by (simp_all add: stop_traffic_def set_status_def)
    show ?thesis
    proof (cases "ss_running s \<and> host_ids (ss_configuration s) \<noteq> []")
      case True
      then obtain g tp where g: "ss_generator s = Some g" and tp: "tc_topology (ss_controller s) = Some tp"
        using ok by (auto simp: laboratory_ok_def has_topology_def)
      have "tick_switch (ss_configuration s) \<noteq> []" using ok loaded_switch [OF _ tp] by (simp add: laboratory_ok_def)
      with t True g have "\<exists>batch lost throughput average g' a k.
          rebuild_telemetry_rows d now batch lost throughput average
            (after_frames g' a (length (fst (generate (nat (sint (ss_packets_per_tick s))) g))) k s) = Inr t"
        by (auto simp: run_traffic_step_def Let_def split_beta split: option.splits sum.splits) blast
      then show ?thesis using t True counted by (auto simp: length_generate)
    next
      case False
      then have "t = s \<and> \<not> ss_running s \<or> (\<exists>m. t = set_status m (stop_traffic s))"
        using t by (auto simp: run_traffic_step_def split: bool.splits option.splits if_splits)
          (use ok in \<open>auto simp: laboratory_ok_def\<close>)
      then show ?thesis using t False stopped by (auto simp: set_status_def)
    qed
  qed
qed

theorem ticks_count_or_throw_witness:
  "\<exists>s t. ss_running s \<and> ss_total_packets s = 0 \<and>
     run_traffic_step example_doubles example_devices 5 9 s = Inr t \<and> ss_tick t = 1 \<and> ss_total_packets t = 256"
proof -
  obtain s0 s where s0: "session_new example_doubles 0 = Inr s0" and steps: "ss_steps example_doubles example_devices example_build s0 s"
    and s: "ss_running s" "ss_configuration s = example_topology" "ss_packets_per_tick s = 256" "ss_total_packets s = 0" "ss_tick s = 0"
    using example_running by blast
  have "host_ids (ss_configuration s) \<noteq> []" by (simp add: s(2) host_ids_def example_topology_def)
  then show ?thesis using ticks_count_or_throw [OF s0 steps, of 5 9] s by (auto simp: example_devices_def)
qed

section \<open>Starting traffic\<close>

definition traffic_accepted :: "'g session_devices \<Rightarrow> string \<Rightarrow> i32 \<Rightarrow> i32 \<Rightarrow> string \<Rightarrow> ('d, 'g) session \<Rightarrow> bool" where
  "traffic_accepted v scenario packets frame backend s \<longleftrightarrow> has_topology s \<and> (\<exists>sc. scenario_from_text scenario = Inr sc) \<and>
     0 < sint packets \<and> 14 \<le> sint frame \<and> backend \<in> set (available_backends v)"

text \<open>C23. What starting traffic does, on every branch. Settings that are refused change nothing but the status, so traffic
  that was running goes on. Accepted settings replace those of the session and the backend it shows. With fewer than two hosts
  the constructor of the generator then throws; otherwise a new generator is there, and a new analyzer, that of the chosen
  device, or a fresh one of the CPU if the backend is no device; and traffic runs, with the bit that says so. If the constructor of
  the device's analyzer throws, a fresh analyzer of the CPU is left. A start that threw leaves traffic running or not as it was,
  the status, and the bits, although the shown backend has changed.\<close>

theorem start_traffic_outcome:
  assumes "length (host_ids (ss_configuration s)) < 2 ^ 32"
    and "start_traffic v scenario packets frame sd backend s = (thrown, t)"
  shows "if \<not> traffic_accepted v scenario packets frame backend s
    then thrown = None \<and> (\<exists>m. t = set_status m s)
    else ss_backend t = backend \<and> ss_packets_per_tick t = packets \<and> ss_frame_size t = frame \<and> ss_seed t = sd \<and>
      scenario_from_text scenario = Inr (ss_scenario t) \<and> same_books s t \<and>
      (if length (host_ids (ss_configuration s)) < 2
       then thrown = Some ''host_count must be at least two'' \<and> ss_generator t = ss_generator s \<and> ss_analyzer t = ss_analyzer s \<and>
         ss_running t = ss_running s \<and> ss_status t = ss_status s \<and> ss_dirty t = ss_dirty s
       else (\<exists>g. ss_generator t = Some g \<and> generator_new \<lparr> tg_scenario = ss_scenario t, tg_seed = sd, tg_frame_size = nat (sint frame),
           tg_host_count = of_nat (length (host_ids (ss_configuration s))) \<rparr> = Inr g) \<and>
         (case map_of (dv_devices v) backend of
            Some (Inl what) \<Rightarrow> thrown = Some what \<and> ss_analyzer t = Some (Inl {}) \<and>
              ss_running t = ss_running s \<and> ss_status t = ss_status s \<and> ss_dirty t = ss_dirty s
          | Some (Inr a) \<Rightarrow> thrown = None \<and> ss_analyzer t = Some (Inr a) \<and> ss_running t \<and> marked t DirtyTraffic
          | None \<Rightarrow> thrown = None \<and> ss_analyzer t = Some (Inl {}) \<and> ss_running t \<and> marked t DirtyTraffic))"
proof (cases "traffic_accepted v scenario packets frame backend s")
  case False
  then show ?thesis using assms(2) by (auto simp: traffic_accepted_def start_traffic_def not_less not_le split: sum.splits if_splits)
next
  case True
  then obtain sc where sc: "scenario_from_text scenario = Inr sc" "has_topology s" "\<not> sint packets \<le> 0" "\<not> sint frame < 14"
      "backend \<in> set (available_backends v)" by (auto simp: traffic_accepted_def)
  let ?n = "length (host_ids (ss_configuration s))"
  have frame: "\<not> nat (sint frame) < ethernet_header_size" using sc(4) by (simp add: ethernet_header_size_def)
  have hosts: "(of_nat (max 1 ?n) :: u32) < 2 \<longleftrightarrow> ?n < 2"
  proof -
    have "max 1 ?n < 2 ^ 32" using assms(1) by simp
    then have "unat (of_nat (max 1 ?n) :: u32) = max 1 ?n" by (simp add: unsigned_of_nat take_bit_nat_eq_self)
    then show ?thesis by (simp add: word_less_nat_alt)
  qed
  show ?thesis
  proof (cases "?n < 2")
    case True
    then show ?thesis using \<open>traffic_accepted v scenario packets frame backend s\<close> sc frame hosts assms(2)
      by (auto simp: start_traffic_def generator_new_def Let_def what_of_def same_books_def)
  next
    case False
    then have many: "max 1 ?n = ?n" by simp
    show ?thesis
      using \<open>traffic_accepted v scenario packets frame backend s\<close> sc frame hosts [unfolded many] assms(2) False
      by (auto simp: start_traffic_def generator_new_def Let_def device_analyzer_def set_status_def same_books_def many
          split: option.splits sum.splits)
  qed
qed

theorem start_traffic_outcome_witness:
  "\<exists>(s :: (unit, unit) session) t. ss_configuration s = example_topology \<and>
     start_traffic example_devices ''udp-flood'' 8 64 1 ''CPU'' s = (None, t) \<and> ss_running t \<and> ss_packets_per_tick t = 8"
proof -
  obtain s0 s where s0: "session_new example_doubles 0 = Inr s0" and steps: "ss_steps example_doubles example_devices example_build s0 s"
    and s: "ss_running s" "ss_configuration s = example_topology" using example_running by blast
  have hosts: "host_ids (ss_configuration s) = [''h1'', ''h2'']" by (simp add: s(2) host_ids_def example_topology_def)
  have "has_topology s" using laboratory_steps [OF steps laboratory_new [OF s0]] s(1) by (simp add: laboratory_ok_def)
  then have "traffic_accepted example_devices ''udp-flood'' 8 64 ''CPU'' s"
    by (simp add: traffic_accepted_def scenario_from_text_def available_backends_def)
  moreover obtain thrown t where t: "start_traffic example_devices ''udp-flood'' 8 64 1 ''CPU'' s = (thrown, t)"
    by (metis surj_pair)
  ultimately show ?thesis using start_traffic_outcome [OF _ t] hosts s(2) t by (auto simp: example_devices_def)
qed

end
