(* ===== verification/Session_Save.thy ===== *)
theory Session_Save
  imports Session_Accounts
begin

text \<open>
  Saving a topology and opening the file again. Names are written between quotation marks, with escapes for the
  characters that would end them; the reader takes what is between the marks as it is. So a saved laboratory is
  opened as it was whenever its names need no escape, and is not when they do.
\<close>

section \<open>Quoted names\<close>

definition quotable :: "string \<Rightarrow> bool" where
  "quotable s \<longleftrightarrow> s \<noteq> [] \<and> quote_char \<notin> set s \<and> backslash \<notin> set s \<and> CHR 0x0A \<notin> set s"

lemma yaml_quote_plain: "quotable s \<Longrightarrow> yaml_quote s = quote_char # s @ [quote_char]"
proof -
  have "concat (map (\<lambda>c. if c = backslash \<or> c = quote_char then [backslash, c] else [c]) s) = s"
    if "quote_char \<notin> set s" "backslash \<notin> set s" using that by (induction s) auto
  then show "quotable s \<Longrightarrow> ?thesis" by (simp add: yaml_quote_def quotable_def)
qed

lemma uncommented_quoted:
  assumes "quote_char \<notin> set s" and "backslash \<notin> set s" and "b \<noteq> Some backslash"
  shows "\<exists>c. uncommented b (Some quote_char) (s @ quote_char # rest) = s @ quote_char # uncommented c None rest"
  using assms
proof (induction s arbitrary: b)
  case (Cons x s)
  then have "\<exists>c. uncommented (Some x) (Some quote_char) (s @ quote_char # rest) = s @ quote_char # uncommented c None rest" by auto
  then show ?case using Cons.prems by auto
qed auto

lemma quoted_value:
  assumes "quotable s"
  shows "field_value (yaml_quote s) s"
proof -
  have "\<exists>c. uncommented (Some CHR '' '') None (quote_char # s @ quote_char # rest) = quote_char # s @ quote_char # uncommented c None rest" for rest
    using uncommented_quoted [of s "Some quote_char" rest] assms by (auto simp: quotable_def)
  then show ?thesis
    using assms by (auto simp: field_value_def yaml_quote_plain unquoted_def quotable_def is_trimmed_def is_blank_def)
qed

section \<open>Saving\<close>

definition saveable :: "topology_configuration \<Rightarrow> bool" where
  "saveable c \<longleftrightarrow> quotable (topo_name c) \<and> (\<forall>n \<in> set (topo_nodes c). quotable (node_id n) \<and> CHR '','' \<notin> set (node_id n)) \<and>
     (\<forall>l \<in> set (topo_links c). link_latency_ms l < 2 ^ 63)"

lemma saved_document:
  assumes "\<forall>l \<in> set (topo_links c). 0 \<le> link_latency_ms l"
  shows "saved_text c = spelled_document yaml_quote c"
proof -
  have "map saved_node ns = map (spelled_node yaml_quote) ns" for ns
    by (auto simp: saved_node_def spelled_node_def node_type_text_def split: topology_node_type.split)
  moreover have "map saved_link (topo_links c) = map (spelled_link yaml_quote) (topo_links c)"
    using assms by (auto simp: saved_link_def spelled_link_def int_text_def)
  ultimately have "saved_lines c = spelled_lines yaml_quote c" by (simp only: saved_lines_def spelled_lines_def)
  then show ?thesis by (simp only: saved_text_def spelled_document_def)
qed

lemma saved_read_back:
  assumes "topology_wf c i" and "saveable c"
  shows "topology_configuration_from_yaml (saved_text c) = Inr c"
proof -
  have latencies: "\<forall>l \<in> set (topo_links c). 0 \<le> link_latency_ms l" using assms(1) by (auto simp: topology_wf_def link_ok_def)
  have entry: "entry_value (yaml_quote (node_id n)) (node_id n)" if "n \<in> set (topo_nodes c)" for n
    using that assms(2) quoted_value by (auto simp: entry_value_def saveable_def yaml_quote_plain)
  have ends: "link_from l \<in> node_id ` set (topo_nodes c) \<and> link_to l \<in> node_id ` set (topo_nodes c)" if "l \<in> set (topo_links c)" for l
    using that assms(1) by (auto simp: topology_wf_def link_ok_def)
  have "spelled_configuration yaml_quote c"
    using assms(2) latencies entry ends quoted_value by (fastforce simp: spelled_configuration_def saveable_def)
  then show ?thesis using saved_document [OF latencies] spelled_read_back by simp
qed

text \<open>C22. A saved laboratory is opened as it was: in any session that can be reached, the file that \<open>save_topology\<close>
  writes is read, when it is opened under the same path or URL by any session, as the saved topology, with its name, nodes
  and links in their order. The names must be free of quotation marks, backslashes and line ends, and the identifiers of commas.\<close>

theorem saved_topology_reopens:
  assumes "session_new d now0 = Inr s0" and "ss_steps d v b s0 s" and "save_topology True written path s = (Some (file, contents), s')"
    and "saveable (ss_configuration s)" and "t = open_topology d now (\<lambda>p. if p = file then Some contents else None) path r"
  shows "ss_configuration t = ss_configuration s \<and> ss_nodes t = ss_nodes s \<and> ss_links t = ss_links s \<and> has_topology t \<and>
    ss_status t = ''Loaded '' @ topo_name (ss_configuration s)"
proof -
  have lab: "laboratory_ok d s" using laboratory_steps [OF assms(2) laboratory_new [OF assms(1)]] .
  have saved: "has_topology s" "file = strip_file_url path" "contents = saved_text (ss_configuration s)"
    using assms(3) by (auto simp: save_topology_def Let_def split: if_splits)
  then obtain tp where tp: "tc_topology (ss_controller s) = Some tp" by (auto simp: has_topology_def)
  then have create: "topology_create (ss_configuration s) = Inr tp" using lab by (simp add: laboratory_ok_def configuration_loaded_def)
  then obtain i where "topology_wf (ss_configuration s) i" by (auto simp: topology_create_Inr)
  from saved_read_back [OF this assms(4)] have "topology_configuration_from_yaml contents = Inr (ss_configuration s)" by (simp add: saved(3))
  then have "t = snd (commit_topology d now (ss_configuration s) (''Loaded '' @ topo_name (ss_configuration s)) (r\<lparr> ss_path := strip_file_url path \<rparr>))"
    by (simp add: assms(5) open_topology_def saved(2) topology_configuration_from_yaml_file_def Let_def)
  moreover have "ss_nodes s = placed d 0 (length (host_ids (ss_configuration s))) (topo_nodes (ss_configuration s))"
      "ss_links s = map link_row_of (topo_links (ss_configuration s))" using lab by (simp_all add: laboratory_ok_def)
  ultimately show ?thesis
    by (simp add: commit_topology_def create Let_def rebuild_fault_rows_def rebuild_topology_rows_def reset_simulation_def clear_selection_def
        set_status_def has_topology_def tc_load_def link_row_of_def)
qed

lemma example_topology_saveable: "saveable example_topology"
  by (auto simp: saveable_def example_topology_def quotable_def)

theorem saved_topology_reopens_witness:
  "\<exists>(s :: (unit, unit) session) contents s'. ss_configuration s = example_topology \<and>
     save_topology True True ''file:///lab.yaml'' s = (Some (''/lab.yaml'', contents), s') \<and>
     ss_nodes (open_topology example_doubles 3 (\<lambda>p. if p = ''/lab.yaml'' then Some contents else None) ''file:///lab.yaml'' s) = ss_nodes s"
proof -
  obtain s0 s where s0: "session_new example_doubles 0 = Inr s0" and steps: "ss_steps example_doubles example_devices example_build s0 s"
    and s: "ss_running s" "ss_configuration s = example_topology" using example_running by blast
  have "has_topology s" using laboratory_steps [OF steps laboratory_new [OF s0]] s(1) by (simp add: laboratory_ok_def)
  then have "fst (save_topology True True ''file:///lab.yaml'' s) = Some (''/lab.yaml'', saved_text (ss_configuration s))"
    by (simp add: save_topology_def Let_def strip_file_url_def)
  then obtain contents s' where save: "save_topology True True ''file:///lab.yaml'' s = (Some (''/lab.yaml'', contents), s')"
    by (metis prod.collapse)
  have "saveable (ss_configuration s)" by (simp add: s(2) example_topology_saveable)
  from saved_topology_reopens [OF s0 steps save this refl, of 3 s] save s(2) show ?thesis by blast
qed

text \<open>What the restriction is for: the writer escapes a quotation mark, the reader leaves the backslash in the
  name, and a comma ends a field of an entry even between quotation marks.\<close>

lemma quotation_mark_read_back:
  "split_field (''name: '' @ yaml_quote [CHR ''a'', quote_char, CHR ''b'']) = Some (''name'', [CHR ''a'', backslash, quote_char, CHR ''b''])"
  by code_simp

lemma comma_refused: "parse_flow_mapping (drop 4 (saved_node \<lparr> node_id = ''a,b'', node_type = Switch \<rparr>)) [] = None"
  by code_simp

end
