(* ===== verification/Session_Measured.thy ===== *)
theory Session_Measured
  imports Session_Laboratory
begin

text \<open>
  A benchmark report of a session ends: each backend that can be built is measured in at most twenty slices that return,
  one after the other, and leaves one row. The measure is the number of slices that are still needed; a slice that throws
  does not increase it.
\<close>

section \<open>What a slice completes\<close>

lemma bench_loop_amount:
  assumes "rn_completed r < bc_packet_count (rn_config r)" and "bc_batch_size (rn_config r) \<noteq> 0"
    and "bench_loop spent budget here r = Some (h, r')"
  shows "h + rn_completed r \<le> here + rn_completed r'"
  using assms
proof (induction spent r arbitrary: here rule: run_out.induct)
  case (1 spent r)
  obtain left n r1 where batch: "bench_batch spent r = (left, n, r1)" by (cases "bench_batch spent r")
  note progress = bench_batch_progress [OF "1.prems"(1,2), of spent, unfolded batch]
  have same: "rn_config r1 = rn_config r" using bench_batch_keeps [of spent r] by (simp add: batch)
  show ?case
  proof (cases "\<not> left \<and> here + n < budget \<and> rn_completed r1 < bc_packet_count (rn_config r1)")
    case True
    then have "bench_loop spent budget (here + n) r1 = Some (h, r')"
      using "1.prems"(3) by (subst (asm) bench_loop.simps) (simp add: batch)
    then have "h + rn_completed r1 \<le> here + n + rn_completed r'"
      using "1.IH" [of "here + n"] "1.prems"(1,2) True same by (simp add: batch)
    with True progress(4) show ?thesis by simp
  next
    case False
    then show ?thesis
      using "1.prems"(3) progress(1,4) by (subst (asm) bench_loop.simps) (auto simp: batch split: if_splits)
  qed
qed

lemma bench_advance_amount:
  assumes "\<not> bench_finished r" and "bc_batch_size (rn_config r) \<noteq> 0" and "0 < budget"
  shows "\<exists>h r'. bench_advance spent t budget r = Some (h, r') \<and> rn_config r' = rn_config r \<and>
    rn_completed r' \<le> bc_packet_count (rn_config r) \<and> (bench_finished r' \<or> rn_completed r + budget \<le> rn_completed r')"
proof -
  have open_run: "rn_completed r < bc_packet_count (rn_config r)" using assms(1) by (simp add: bench_finished_def)
  from bench_loop_returns [OF open_run assms(2), of spent budget 0] obtain h r1 where
    loop: "bench_loop spent budget 0 r = Some (h, r1)" "rn_config r1 = rn_config r" "rn_completed r1 \<le> bc_packet_count (rn_config r)"
      "bench_finished r1 \<or> budget \<le> h" by blast
  then show ?thesis
    using bench_loop_amount [OF open_run assms(2) loop(1)] open_run assms(3)
    by (auto simp: bench_advance_def Let_def bench_finished_def)
qed

section \<open>Arming the next backend\<close>

text \<open>Whether the backend with a label can be measured under a configuration.\<close>

definition measurable :: "'g build \<Rightarrow> benchmark_config \<Rightarrow> string \<Rightarrow> bool" where
  "measurable b config label \<longleftrightarrow>
     (case bench_create (config\<lparr> bc_backend := benchmark_backend_id label \<rparr>) (Some (accelerated_backend_factory b))
       (Some cpu_traffic_source_factory) of Inl _ \<Rightarrow> False | Inr _ \<Rightarrow> True)"

definition fixed_report :: "('d, 'g) session \<Rightarrow> ('d, 'g) session \<Rightarrow> bool" where
  "fixed_report s t \<longleftrightarrow> ss_queue t = ss_queue s \<and> ss_report_config t = ss_report_config s \<and> ss_budget t = ss_budget s \<and>
     ss_results t = ss_results s \<and> ss_rows t = ss_rows s \<and> ss_reporting t = ss_reporting s"

lemma begin_next_spec:
  assumes "begin_next_report_backend b s = (armed, t)"
  shows "fixed_report s t \<and> ss_index s \<le> ss_index t \<and>
    (if armed then ss_index t < length (ss_queue t) \<and>
        (\<exists>run. ss_run t = Some run \<and>
          bench_create (report_backend_config t) (Some (accelerated_backend_factory b)) (Some cpu_traffic_source_factory) = Inr run) \<and>
        filter (measurable b (ss_report_config s)) (drop (ss_index s) (ss_queue s)) =
          ss_queue s ! ss_index t # filter (measurable b (ss_report_config s)) (drop (Suc (ss_index t)) (ss_queue s))
     else filter (measurable b (ss_report_config s)) (drop (ss_index s) (ss_queue s)) = [])"
  using assms
proof (induction b s rule: begin_next_report_backend.induct)
  case (1 b s)
  show ?case
  proof (cases "ss_index s < length (ss_queue s)")
    case False
    then show ?thesis using "1.prems" by (subst (asm) begin_next_report_backend.simps) (auto simp: fixed_report_def)
  next
    case True
    have split: "drop (ss_index s) (ss_queue s) = ss_queue s ! ss_index s # drop (Suc (ss_index s)) (ss_queue s)"
      using True by (rule Cons_nth_drop_Suc [symmetric])
    show ?thesis
    proof (cases "bench_create (report_backend_config s) (Some (accelerated_backend_factory b)) (Some cpu_traffic_source_factory)")
      case (Inr run)
      then have "measurable b (ss_report_config s) (ss_queue s ! ss_index s)"
        by (simp add: measurable_def report_backend_config_def)
      then show ?thesis
        using "1.prems" True Inr by (subst (asm) begin_next_report_backend.simps) (auto simp: fixed_report_def split report_backend_config_def)
    next
      case (Inl e)
      then have "\<not> measurable b (ss_report_config s) (ss_queue s ! ss_index s)"
        by (simp add: measurable_def report_backend_config_def)
      moreover have "begin_next_report_backend b
          (s\<lparr> ss_completed := ss_completed s + of_nat (bc_packet_count (ss_report_config s)), ss_index := ss_index s + 1 \<rparr>) = (armed, t)"
        using "1.prems" True Inl by (subst (asm) begin_next_report_backend.simps) simp
      ultimately show ?thesis using "1.IH" [OF True Inl] by (auto simp: fixed_report_def split split: if_splits)
    qed
  qed
qed

lemma begin_throws_spec:
  assumes "begin_throws b what i s = Some t"
  shows "fixed_report s t \<and> ss_index s \<le> ss_index t \<and> ss_index t < length (ss_queue t) \<and> ss_run t = ss_run s \<and>
    filter (measurable b (ss_report_config s)) (drop (ss_index t) (ss_queue s)) =
      filter (measurable b (ss_report_config s)) (drop (ss_index s) (ss_queue s))"
  using assms
proof (induction b what i s rule: begin_throws.induct)
  case (1 b what i s)
  show ?case
  proof (cases "ss_index s = i")
    case True
    then show ?thesis using "1.prems" by (subst (asm) begin_throws.simps) (auto simp: fixed_report_def split: if_splits)
  next
    case False
    then obtain e where inside: "ss_index s < length (ss_queue s)" and
      e: "bench_create (report_backend_config s) (Some (accelerated_backend_factory b)) (Some cpu_traffic_source_factory) = Inl e" and
      rest: "begin_throws b what i
        (s\<lparr> ss_completed := ss_completed s + of_nat (bc_packet_count (ss_report_config s)), ss_index := ss_index s + 1 \<rparr>) = Some t"
      using "1.prems" by (subst (asm) begin_throws.simps) (auto split: if_splits sum.splits)
    have split: "drop (ss_index s) (ss_queue s) = ss_queue s ! ss_index s # drop (Suc (ss_index s)) (ss_queue s)"
      using inside by (rule Cons_nth_drop_Suc [symmetric])
    have "\<not> measurable b (ss_report_config s) (ss_queue s ! ss_index s)" using e by (simp add: measurable_def report_backend_config_def)
    then show ?thesis using "1.IH" [OF inside False e rest] by (auto simp: fixed_report_def split)
  qed
qed

section \<open>The report, slice by slice\<close>

definition expected_ids :: "'g build \<Rightarrow> ('d, 'g) session \<Rightarrow> string list" where
  "expected_ids b s = map benchmark_backend_id (filter (measurable b (ss_report_config s)) (ss_queue s))"

text \<open>The results are all there for the backends before the position in the queue.\<close>

definition results_so_far :: "'g build \<Rightarrow> ('d, 'g) session \<Rightarrow> bool" where
  "results_so_far b s \<longleftrightarrow> bc_packet_count (ss_report_config s) \<le> 20 * ss_budget s \<and> 0 < ss_budget s \<and>
     map rw_backend (ss_rows s) = map br_backend (ss_results s) \<and>
     map br_backend (ss_results s) @ map benchmark_backend_id (filter (measurable b (ss_report_config s)) (drop (ss_index s) (ss_queue s)))
      = expected_ids b s"

text \<open>A report that runs. After an exception it may be without a run, or its run may be finished and not yet reported.\<close>

definition measuring :: "'g build \<Rightarrow> ('d, 'g) session \<Rightarrow> bool" where
  "measuring b s \<longleftrightarrow> ss_reporting s \<and> results_so_far b s \<and> ss_index s < length (ss_queue s) \<and>
     (\<forall>run. ss_run s = Some run \<longrightarrow> rn_config run = report_backend_config s \<and> bc_batch_size (ss_report_config s) \<noteq> 0 \<and>
       measurable b (ss_report_config s) (ss_queue s ! ss_index s))"

definition measured :: "'d session_doubles \<Rightarrow> 'g build \<Rightarrow> ('d, 'g) session \<Rightarrow> bool" where
  "measured d b s \<longleftrightarrow> \<not> ss_reporting s \<and> ss_run s = None \<and> ss_progress s = db_literal (sd_numbers d) 1 \<and>
     map rw_backend (ss_rows s) = expected_ids b s"

text \<open>The slices that are still needed, at most.\<close>

definition slices_of :: "nat \<Rightarrow> nat \<Rightarrow> nat" where
  "slices_of budget n = max 1 ((n + budget - 1) div budget)"

definition slices_left :: "('d, 'g) session \<Rightarrow> nat" where
  "slices_left s =
     (case ss_run s of
        None \<Rightarrow> 20 * (length (ss_queue s) - ss_index s)
      | Some run \<Rightarrow> 20 * (length (ss_queue s) - Suc (ss_index s)) +
          slices_of (ss_budget s) (bc_packet_count (rn_config run) - rn_completed run))"

lemma slices_of_less:
  assumes "0 < k" and "n + k \<le> m" and "0 < n"
  shows "slices_of k n < slices_of k m"
proof -
  have one: "1 \<le> (n + k - 1) div k" using assms(1,3) by (simp add: div_greater_zero_iff Suc_leI)
  have "(n + k - 1) div k < (n + k - 1) div k + 1" by simp
  also have "\<dots> = (n + k - 1 + k) div k" using div_add_self2 [of k "n + k - 1"] assms(1) by simp
  also have "\<dots> \<le> (m + k - 1) div k" using assms by (intro div_le_mono) simp
  finally show ?thesis using one by (simp add: slices_of_def)
qed

lemma slices_of_mono: "n \<le> m \<Longrightarrow> slices_of k n \<le> slices_of k m"
  unfolding slices_of_def by (intro max.mono div_le_mono) simp_all

lemma slices_of_bounds: "0 < k \<Longrightarrow> n \<le> 20 * k \<Longrightarrow> slices_of k n \<le> 20" "0 < slices_of k n"
proof -
  assume k: "0 < k" and "n \<le> 20 * k"
  then have "n + k - 1 \<le> 20 * k + (k - 1)" by simp
  then have "(n + k - 1) div k \<le> (20 * k + (k - 1)) div k" by (rule div_le_mono)
  also have "\<dots> = 20" using div_mult_self3 [of k 20 "k - 1"] k by (simp del: diff_Suc_1 add: algebra_simps)
  finally show "slices_of k n \<le> 20" by (simp add: slices_of_def)
qed (simp add: slices_of_def)

lemma bench_create_start:
  assumes "bench_create config factory traffic = Inr run"
  shows "rn_config run = config \<and> rn_completed run = 0 \<and> bc_packet_count config \<noteq> 0 \<and> bc_batch_size config \<noteq> 0"
  using assms by (auto simp: bench_create_def bench_config_ok_def split: if_splits option.splits sum.splits)

lemma armed_measuring:
  assumes next_one: "begin_next_report_backend b s = (True, t)" and "ss_reporting s" and so_far: "results_so_far b s"
  shows "measuring b t \<and> slices_left t \<le> 20 * (length (ss_queue s) - ss_index s) \<and> expected_ids b t = expected_ids b s \<and>
    (\<exists>run. ss_run t = Some run)"
proof -
  obtain run where fixed: "fixed_report s t" "ss_index s \<le> ss_index t" "ss_index t < length (ss_queue t)" "ss_run t = Some run"
    and created: "bench_create (report_backend_config t) (Some (accelerated_backend_factory b)) (Some cpu_traffic_source_factory) = Inr run"
    and rest: "filter (measurable b (ss_report_config s)) (drop (ss_index s) (ss_queue s)) =
      ss_queue s ! ss_index t # filter (measurable b (ss_report_config s)) (drop (Suc (ss_index t)) (ss_queue s))"
    using begin_next_spec [OF next_one] by auto
  note run = bench_create_start [OF created]
  have same: "expected_ids b t = expected_ids b s" using fixed(1) by (simp add: expected_ids_def fixed_report_def)
  have can: "measurable b (ss_report_config t) (ss_queue t ! ss_index t)" using created by (simp add: measurable_def report_backend_config_def)
  have "drop (ss_index t) (ss_queue t) = ss_queue t ! ss_index t # drop (Suc (ss_index t)) (ss_queue t)"
    using fixed(3) by (rule Cons_nth_drop_Suc [symmetric])
  then have "filter (measurable b (ss_report_config t)) (drop (ss_index t) (ss_queue t)) =
      filter (measurable b (ss_report_config s)) (drop (ss_index s) (ss_queue s))"
    using can rest fixed(1) by (simp add: fixed_report_def)
  then have "measuring b t"
    using fixed run can assms(2) so_far same
    by (simp add: measuring_def results_so_far_def fixed_report_def report_backend_config_def)
  moreover have "slices_of (ss_budget t) (bc_packet_count (rn_config run) - rn_completed run) \<le> 20"
    using slices_of_bounds(1) run so_far fixed(1) by (simp add: fixed_report_def results_so_far_def report_backend_config_def)
  ultimately show ?thesis using fixed same by (simp add: slices_left_def fixed_report_def)
qed

lemma thrown_measuring:
  assumes "begin_throws b what i s = Some t" and "ss_reporting s" and "results_so_far b s" and "ss_run s = None"
  shows "measuring b t \<and> slices_left t \<le> 20 * (length (ss_queue s) - ss_index s) \<and> expected_ids b t = expected_ids b s"
  using begin_throws_spec [OF assms(1)] assms(2-4)
  by (auto simp: measuring_def results_so_far_def fixed_report_def slices_left_def expected_ids_def)

lemma unarmed_measured:
  assumes "begin_next_report_backend b s = (False, t)" and "results_so_far b s"
  shows "measured d b (finish_report d t) \<and> expected_ids b (finish_report d t) = expected_ids b s"
  using begin_next_spec [OF assms(1)] assms(2)
  by (simp add: measured_def finish_report_def results_so_far_def fixed_report_def expected_ids_def set_status_def)

text \<open>One slice that returns.\<close>

lemma measured_rows: "map rw_backend (ss_rows (rebuild_report_rows d s)) = map br_backend (ss_results s)"
  by (simp add: rebuild_report_rows_def Let_def)

lemma report_progressed_keeps: "measuring b (report_progressed d s) = measuring b s" "slices_left (report_progressed d s) = slices_left s"
  "expected_ids b (report_progressed d s) = expected_ids b s"
  by (simp_all add: report_progressed_def measuring_def results_so_far_def slices_left_def expected_ids_def report_backend_config_def
      split: option.split)

lemma report_marked: "measuring b (ss_mark f s) = measuring b s" "slices_left (ss_mark f s) = slices_left s"
  "measuring b (set_status m s) = measuring b s" "slices_left (set_status m s) = slices_left s"
  "ss_queue (set_status m s) = ss_queue s"
  by (simp_all add: set_status_def measuring_def results_so_far_def slices_left_def expected_ids_def report_backend_config_def
      split: option.split)

text \<open>A run that is finished has been reported, and the next backend comes.\<close>

lemma closed_so_far:
  fixes d :: "'d session_doubles"
  assumes m: "measuring b s" and run: "ss_run s = Some run" and same: "rn_config run' = rn_config run"
  defines "w \<equiv> report_closed d run' (report_advanced run run' s)"
  shows "results_so_far b w \<and> ss_reporting w \<and> ss_run w = None \<and> ss_queue w = ss_queue s \<and> ss_index w = Suc (ss_index s) \<and>
    expected_ids b w = expected_ids b s \<and> 20 * (length (ss_queue w) - ss_index w) < slices_left s"
proof -
  have split: "drop (ss_index s) (ss_queue s) = ss_queue s ! ss_index s # drop (Suc (ss_index s)) (ss_queue s)"
    using m by (intro Cons_nth_drop_Suc [symmetric]) (simp add: measuring_def)
  have parts: "ss_reporting w" "ss_run w = None" "ss_queue w = ss_queue s" "ss_index w = Suc (ss_index s)" "expected_ids b w = expected_ids b s"
    using m by (simp_all add: w_def report_closed_def report_advanced_def rebuild_report_rows_def measuring_def expected_ids_def Let_def)
  have "bc_backend (rn_config run') = benchmark_backend_id (ss_queue s ! ss_index s)"
    using m run same by (simp add: measuring_def report_backend_config_def)
  then have "results_so_far b w" using m run parts(5) measured_rows
    by (clarsimp simp add: w_def measuring_def results_so_far_def report_closed_def report_advanced_def rebuild_report_rows_def expected_ids_def
        Let_def bench_result_def split)
  then show ?thesis using parts run slices_of_bounds(2) by (simp add: slices_left_def)
qed

lemma slice_returns:
  assumes m: "measuring b s" and run: "ss_run s = Some run"
  shows "\<exists>t. report_slice d b spent slice_ns run s = Some t \<and> expected_ids b t = expected_ids b s \<and>
    (measuring b t \<and> slices_left t < slices_left s \<or> measured d b t)"
proof -
  have config: "rn_config run = report_backend_config s" "bc_batch_size (rn_config run) \<noteq> 0" and budget: "0 < ss_budget s"
    using m run by (simp_all add: measuring_def results_so_far_def report_backend_config_def)
  obtain h run' where adv: "bench_advance spent slice_ns (ss_budget s) run = Some (h, run')" "rn_config run' = rn_config run"
      "bench_finished run' \<or> \<not> bench_finished run \<and> rn_completed run + ss_budget s \<le> rn_completed run'"
  proof (cases "bench_finished run")
    case True
    then have "bench_advance spent slice_ns (ss_budget s) run = Some (0, run)" by (simp add: bench_advance_def bench_finished_def)
    then show ?thesis using that True by blast
  next
    case False
    then show ?thesis using that bench_advance_amount [OF False config(2) budget, of spent slice_ns] by blast
  qed
  let ?u = "report_advanced run run' s"
  show ?thesis
  proof (cases "bench_finished run'")
    case False
    have "measuring b ?u"
      using m run adv(2) by (auto simp: report_advanced_def measuring_def results_so_far_def report_backend_config_def expected_ids_def)
    moreover have "slices_left ?u < slices_left s"
    proof -
      have "slices_of (ss_budget s) (bc_packet_count (rn_config run) - rn_completed run') <
          slices_of (ss_budget s) (bc_packet_count (rn_config run) - rn_completed run)"
        using adv(2,3) False by (intro slices_of_less [OF budget]) (auto simp: bench_finished_def)
      then show ?thesis using run adv(2) by (simp add: report_advanced_def slices_left_def)
    qed
    moreover have "expected_ids b ?u = expected_ids b s" by (simp add: report_advanced_def expected_ids_def)
    moreover have "report_slice d b spent slice_ns run s = Some (report_progressed d ?u)"
      using adv(1) False by (simp add: report_slice_def)
    ultimately show ?thesis by (auto simp: report_progressed_keeps)
  next
    case True
    let ?w = "report_closed d run' ?u"
    note w = closed_so_far [OF m run adv(2), of d]
    obtain armed t where next_one: "begin_next_report_backend b ?w = (armed, t)" by (cases "begin_next_report_backend b ?w")
    have step: "report_slice d b spent slice_ns run s = Some (if armed then report_progressed d t else finish_report d t)"
      using adv(1) True next_one by (simp add: report_slice_def)
    show ?thesis
    proof (cases armed)
      case True
      with armed_measuring [of b ?w t] next_one w step show ?thesis by (auto simp: report_progressed_keeps)
    next
      case False
      with unarmed_measured [of b ?w t d] next_one w step show ?thesis by simp
    qed
  qed
qed

lemma measuring_slice:
  assumes m: "measuring b s"
  shows "\<exists>t. run_report_step d b spent slice_ns s = Some t \<and> expected_ids b t = expected_ids b s \<and>
    (measuring b t \<and> slices_left t < slices_left s \<or> measured d b t)"
proof (cases "ss_run s")
  case (Some run)
  then show ?thesis using slice_returns [OF m Some, of d spent slice_ns] m by (simp add: run_report_step_def measuring_def)
next
  case None
  obtain armed t where next_one: "begin_next_report_backend b s = (armed, t)" by fastforce
  have so_far: "ss_reporting s" "results_so_far b s" using m by (simp_all add: measuring_def)
  show ?thesis
  proof (cases armed)
    case False
    with next_one None so_far unarmed_measured [of b s t d] show ?thesis by (simp add: run_report_step_def)
  next
    case True
    obtain run where t: "measuring b t" "slices_left t \<le> slices_left s" "expected_ids b t = expected_ids b s" "ss_run t = Some run"
      using armed_measuring [of b s t] next_one True so_far None by (auto simp: slices_left_def)
    have "run_report_step d b spent slice_ns s = report_slice d b spent slice_ns run t"
      using next_one True None so_far(1) t(4) by (simp add: run_report_step_def)
    with slice_returns [OF t(1,4), of d spent slice_ns] t(2,3) show ?thesis by auto
  qed
qed

text \<open>One slice that throws.\<close>

lemma bench_batches_keep:
  "bench_batches spent budget here k r = Some r' \<Longrightarrow> rn_config r' = rn_config r \<and> rn_completed r \<le> rn_completed r'"
proof (induction spent budget here k r rule: bench_batches.induct)
  case (2 spent budget here k r)
  obtain left n r1 where batch: "bench_batch spent r = (left, n, r1)" by (cases "bench_batch spent r")
  then show ?case using "2.IH" [OF batch [symmetric] refl] "2.prems" bench_batch_keeps [of spent r]
    by (auto simp: bench_batch_def Let_def split: if_splits sum.splits)
qed simp

lemma bench_advance_throws_keeps:
  assumes "bench_advance_throws spent budget failure r = Some r'" and "bc_batch_size (rn_config r) \<noteq> 0"
  shows "rn_config r' = rn_config r \<and> rn_completed r \<le> rn_completed r'"
proof -
  have open_run: "rn_completed r < bc_packet_count (rn_config r)"
    using assms(1) by (auto simp: bench_advance_throws_def not_le split: if_splits)
  show ?thesis
    using assms(1) bench_loop_returns [OF open_run assms(2), of spent budget 0]
    by (auto simp: bench_advance_throws_def dest!: bench_batches_keep split: if_splits report_failure.splits option.splits)
qed

lemma slice_throws:
  assumes m: "measuring b s" and run: "ss_run s = Some run" and t: "report_slice_throws d b spent slice_ns failure what run s = Some t"
  shows "measuring b t \<and> slices_left t \<le> slices_left s \<and> expected_ids b t = expected_ids b s"
proof -
  have config: "rn_config run = report_backend_config s" "bc_batch_size (rn_config run) \<noteq> 0"
    using m run by (simp_all add: measuring_def report_backend_config_def)
  have analysis: ?thesis if "bench_advance_throws spent (ss_budget s) failure run = Some run'" "t = s\<lparr> ss_run := Some run' \<rparr>" for run'
  proof -
    note kept = bench_advance_throws_keeps [OF that(1) config(2)]
    have "measuring b t" using m run kept
      by (simp add: that(2) measuring_def results_so_far_def report_backend_config_def expected_ids_def)
    moreover have "slices_left t \<le> slices_left s"
      using run kept by (simp add: that(2) slices_left_def slices_of_mono diff_le_mono2)
    ultimately show ?thesis by (simp add: that(2) expected_ids_def)
  qed
  show ?thesis
  proof (cases failure)
    case (ConstructorThrew i)
    then obtain h run' where adv: "bench_advance spent slice_ns (ss_budget s) run = Some (h, run')" and
      thrown: "begin_throws b what i (report_closed d run' (report_advanced run run' s)) = Some t"
      using t by (auto simp: report_slice_throws_def split: option.splits if_splits)
    have "rn_config run' = rn_config run"
    proof (cases "bench_finished run")
      case True
      then show ?thesis using adv by (simp add: bench_advance_def bench_finished_def)
    next
      case False
      then show ?thesis
        using bench_advance_amount [OF False config(2), of "ss_budget s" spent slice_ns] adv m by (auto simp: measuring_def results_so_far_def)
    qed
    from closed_so_far [OF m run this, of d] thrown_measuring [OF thrown] show ?thesis by auto
  qed (use t analysis in \<open>auto simp: report_slice_throws_def split: if_splits\<close>)
qed

lemma throwing_slice:
  assumes m: "measuring b s" and t: "run_report_step_throws d b spent slice_ns failure what s = Some t"
  shows "measuring b t \<and> slices_left t \<le> slices_left s \<and> expected_ids b t = expected_ids b s"
proof (cases "ss_run s")
  case (Some run)
  have "ss_reporting s" using m by (simp add: measuring_def)
  then have "report_slice_throws d b spent slice_ns failure what run s = Some t"
    using t Some by (cases failure) (simp_all add: run_report_step_throws_def)
  then show ?thesis by (rule slice_throws [OF m Some])
next
  case None
  have so_far: "ss_reporting s" "results_so_far b s" using m by (simp_all add: measuring_def)
  obtain armed u where next_one: "begin_next_report_backend b s = (armed, u)" by fastforce
  consider i where "begin_throws b what i s = Some t"
    | run where armed "ss_run u = Some run" "report_slice_throws d b spent slice_ns failure what run u = Some t"
    using t None so_far(1) next_one by (auto simp: run_report_step_throws_def Let_def split: report_failure.splits if_splits option.splits)
  then show ?thesis
  proof cases
    case (1 i)
    then show ?thesis using thrown_measuring [OF 1 so_far None] None by (simp add: slices_left_def)
  next
    case (2 run)
    have u: "measuring b u" "slices_left u \<le> slices_left s" "expected_ids b u = expected_ids b s"
      using armed_measuring [of b s u] next_one 2(1) so_far None by (auto simp: slices_left_def)
    from slice_throws [OF u(1) 2(2,3)] u(2,3) show ?thesis by simp
  qed
qed

section \<open>The report ends\<close>

text \<open>An owner that asks for slice after slice. What the clock measures in each is free, and so is what an adversary would
  have thrown in it; a failure that cannot occur in the slice does not, and then nothing happens.\<close>

datatype 'g slice_event = SliceReturns "nat \<Rightarrow> u64" u64 | SliceThrows "nat \<Rightarrow> u64" u64 "'g report_failure" string

fun slice_returning :: "'g slice_event \<Rightarrow> bool" where
  "slice_returning (SliceReturns spent slice_ns) = True"
| "slice_returning (SliceThrows spent slice_ns failure what) = False"

fun report_slices :: "'d session_doubles \<Rightarrow> 'g build \<Rightarrow> 'g slice_event list \<Rightarrow> ('d, 'g) session \<Rightarrow> ('d, 'g) session option" where
  "report_slices d b [] s = Some s"
| "report_slices d b (SliceReturns spent slice_ns # events) s = Option.bind (run_report_step d b spent slice_ns s) (report_slices d b events)"
| "report_slices d b (SliceThrows spent slice_ns failure what # events) s =
     report_slices d b events (case run_report_step_throws d b spent slice_ns failure what s of None \<Rightarrow> s | Some t \<Rightarrow> t)"

lemma report_slices_idle: "\<not> ss_reporting s \<Longrightarrow> report_slices d b events s = Some s"
  by (induction d b events s rule: report_slices.induct) (auto simp: run_report_step_def run_report_step_throws_def)

lemma report_slices_measured:
  "measuring b s \<and> slices_left s \<le> length (filter slice_returning events) \<or> measured d b s \<Longrightarrow>
    \<exists>t. report_slices d b events s = Some t \<and> measured d b t \<and> expected_ids b t = expected_ids b s"
proof (induction d b events s rule: report_slices.induct)
  case (1 d b s)
  have "0 < slices_left s" if "measuring b s"
    using that slices_of_bounds(2) by (auto simp: measuring_def slices_left_def split: option.split)
  then show ?case using "1.prems" by auto
next
  case (2 d b spent slice_ns events s)
  show ?case
  proof (cases "measured d b s")
    case True
    then show ?thesis using report_slices_idle [of s d b "SliceReturns spent slice_ns # events"] by (auto simp: measured_def)
  next
    case False
    then have m: "measuring b s" "slices_left s \<le> Suc (length (filter slice_returning events))" using "2.prems" by simp_all
    from measuring_slice [OF m(1), of d spent slice_ns] obtain t where t: "run_report_step d b spent slice_ns s = Some t"
      "expected_ids b t = expected_ids b s" "measuring b t \<and> slices_left t < slices_left s \<or> measured d b t" by blast
    then have "measuring b t \<and> slices_left t \<le> length (filter slice_returning events) \<or> measured d b t" using m(2) by auto
    from "2.IH" [OF t(1) this] show ?thesis by (simp add: t(1,2))
  qed
next
  case (3 d b spent slice_ns failure what events s)
  show ?case
  proof (cases "measured d b s")
    case True
    then show ?thesis using report_slices_idle [of s d b "SliceThrows spent slice_ns failure what # events"] by (auto simp: measured_def)
  next
    case False
    then have m: "measuring b s" "slices_left s \<le> length (filter slice_returning events)" using "3.prems" by simp_all
    show ?thesis
    proof (cases "run_report_step_throws d b spent slice_ns failure what s")
      case None
      then show ?thesis using "3.IH" m by simp
    next
      case (Some t)
      from throwing_slice [OF m(1) Some] m(2)
      have "measuring b t \<and> slices_left t \<le> length (filter slice_returning events)" "expected_ids b t = expected_ids b s" by auto
      then show ?thesis using "3.IH" Some by simp
    qed
  qed
qed

lemma report_started:
  assumes "\<not> ss_reporting s0" and "ss_reporting (run_benchmark_report d b v calendar scenario packets batch frame sd s0)"
  shows "\<exists>config t. begin_next_report_backend b (report_prepared d b v calendar config s0) = (True, t) \<and>
    bc_packet_count config = nat (sint packets) \<and> 0 < sint packets \<and>
    run_benchmark_report d b v calendar scenario packets batch frame sd s0 =
      ss_mark DirtyReport (set_status (''Benchmark report running on '' @ dec_of_nat (length (ss_queue t)) @ '' backend(s).'') t)"
proof -
  obtain sc where sc: "scenario_from_text scenario = Inr sc"
    and ok: "\<not> (sint packets \<le> 0 \<or> sint batch \<le> 0 \<or> sint sd < 0 \<or> sint frame < int ethernet_header_size \<or>
      sint frame > int MAX_BENCHMARK_FRAME_SIZE)"
    using assms by (auto simp: run_benchmark_report_def set_status_def split: sum.splits if_splits)
  let ?config = "report_config_of sc packets batch frame sd"
  obtain armed t where t: "begin_next_report_backend b (report_prepared d b v calendar ?config s0) = (armed, t)" by fastforce
  have run: "run_benchmark_report d b v calendar scenario packets batch frame sd s0 = (if \<not> armed then finish_report d t
      else ss_mark DirtyReport (set_status (''Benchmark report running on '' @ dec_of_nat (length (ss_queue t)) @ '' backend(s).'') t))"
    using assms(1) sc ok t by (simp add: run_benchmark_report_def)
  then have armed using assms(2) by (cases armed) (simp_all add: finish_report_def set_status_def)
  then have "begin_next_report_backend b (report_prepared d b v calendar ?config s0) = (True, t)" using t by simp
  moreover have "bc_packet_count ?config = nat (sint packets)" by (simp add: report_config_of_def)
  ultimately show ?thesis using run \<open>armed\<close> ok by (intro exI [of _ ?config] exI [of _ t]) simp
qed

definition prepared_report :: "'g session_devices \<Rightarrow> ('d, 'g) session \<Rightarrow> bool" where
  "prepared_report v p \<longleftrightarrow> ss_queue p = available_backends v \<and> ss_index p = 0 \<and> ss_reporting p \<and> ss_rows p = [] \<and> ss_results p = [] \<and>
     bc_packet_count (ss_report_config p) \<le> 20 * ss_budget p \<and> 0 < ss_budget p"

lemma report_prepared_so_far:
  assumes "0 < bc_packet_count config"
  shows "prepared_report v (report_prepared d b v calendar config s0) \<and> results_so_far b (report_prepared d b v calendar config s0)"
proof -
  have "n \<le> 20 * max m ((n + 19) div 20) \<and> 0 < max m ((n + 19) div 20)" if "0 < n" for n m :: nat
  proof -
    have "(n + 19) div 20 \<le> max m ((n + 19) div 20)" by simp
    moreover have "n \<le> 20 * k \<and> 0 < k" if "(n + 19) div 20 \<le> k" for k using that \<open>0 < n\<close> by linarith
    ultimately show ?thesis by blast
  qed
  from this [OF assms] show ?thesis
    by (simp add: prepared_report_def report_prepared_def rebuild_report_provenance_def results_so_far_def expected_ids_def Let_def)
qed

lemma report_starts_measuring:
  assumes "\<not> ss_reporting s0" and "s = run_benchmark_report d b v calendar scenario packets batch frame sd s0" and "ss_reporting s"
  shows "measuring b s \<and> slices_left s \<le> 20 * length (available_backends v) \<and> ss_queue s = available_backends v"
proof -
  obtain config t where t: "begin_next_report_backend b (report_prepared d b v calendar config s0) = (True, t)"
    and config: "0 < bc_packet_count config"
    and s: "s = ss_mark DirtyReport (set_status (''Benchmark report running on '' @ dec_of_nat (length (ss_queue t)) @ '' backend(s).'') t)"
    using report_started [OF assms(1)] assms(2,3) by (metis zero_less_nat_eq)
  note p = report_prepared_so_far [OF config, of v d b calendar s0]
  then have "measuring b t" "slices_left t \<le> 20 * length (available_backends v)"
    using armed_measuring [OF t] by (simp_all add: prepared_report_def)
  moreover have "ss_queue t = available_backends v" using begin_next_spec [OF t] p by (simp add: fixed_report_def prepared_report_def)
  ultimately show ?thesis by (simp add: s report_marked)
qed

lemma report_start_threw:
  assumes "run_benchmark_report_throws d b v calendar scenario packets batch frame sd i what s0 = Some s" and "ss_run s0 = None"
  shows "measuring b s \<and> slices_left s \<le> 20 * length (available_backends v) \<and> ss_queue s = available_backends v"
proof -
  obtain sc where thrown: "begin_throws b what i (report_prepared d b v calendar (report_config_of sc packets batch frame sd) s0) = Some s"
      and "0 < sint packets"
    using assms(1) by (auto simp: run_benchmark_report_throws_def split: sum.splits if_splits)
  then have "0 < bc_packet_count (report_config_of sc packets batch frame sd)" by (simp add: report_config_of_def)
  note p = report_prepared_so_far [OF this, of v d b calendar s0]
  have "ss_run (report_prepared d b v calendar config s0) = None" for config
    using assms(2) by (simp add: report_prepared_def rebuild_report_provenance_def Let_def)
  with thrown_measuring [OF thrown] begin_throws_spec [OF thrown] p show ?thesis by (simp add: prepared_report_def fixed_report_def)
qed

text \<open>C21. A report ends. It runs once its start has returned with the report running, or has thrown from the constructor
  of a backend. From then on any slices may return or throw, what a backend throws in them, and the clock, are free: every slice
  that does not throw returns, and when twenty of them have for each backend the report is at its end. Then it is no
  longer running, its progress is one, and its rows are the backends that could be built, each once, in the order they
  were listed.\<close>

theorem report_ends:
  assumes "\<not> ss_reporting s0" and "ss_run s0 = None"
    and "s = run_benchmark_report d b v calendar scenario packets batch frame sd s0 \<and> ss_reporting s \<or>
      run_benchmark_report_throws d b v calendar scenario packets batch frame sd i what s0 = Some s"
    and "20 * length (available_backends v) \<le> length (filter slice_returning events)"
  shows "\<exists>t. report_slices d b events s = Some t \<and> \<not> ss_reporting t \<and> ss_progress t = db_literal (sd_numbers d) 1 \<and>
    map rw_backend (ss_rows t) = map benchmark_backend_id (filter (measurable b (ss_report_config s)) (available_backends v))"
proof -
  have start: "measuring b s \<and> slices_left s \<le> 20 * length (available_backends v) \<and> ss_queue s = available_backends v"
    using assms(3)
  proof
    assume "s = run_benchmark_report d b v calendar scenario packets batch frame sd s0 \<and> ss_reporting s"
    then show ?thesis using report_starts_measuring [OF assms(1)] by blast
  next
    assume "run_benchmark_report_throws d b v calendar scenario packets batch frame sd i what s0 = Some s"
    then show ?thesis by (rule report_start_threw [OF _ assms(2)])
  qed
  then obtain t where "report_slices d b events s = Some t" "measured d b t" "expected_ids b t = expected_ids b s"
    using report_slices_measured [of b s events d] assms(4) by auto
  then show ?thesis using start by (auto simp: measured_def expected_ids_def)
qed

theorem report_ends_witness:
  "\<exists>s0 s t. session_new example_doubles 0 = Inr s0 \<and>
     s = run_benchmark_report example_doubles example_build example_devices ''now'' ''mixed-traffic'' 40 1 64 7 s0 \<and> ss_reporting s \<and>
     report_slices example_doubles example_build (replicate 20 (SliceReturns (\<lambda>_. 3) 9)) s = Some t \<and>
     map rw_backend (ss_rows t) = [''cpu'']"
proof -
  obtain s0 :: "(unit, unit) session" where s0: "session_new example_doubles 0 = Inr s0" using session_new_some by blast
  have idle: "\<not> ss_reporting s0" "ss_run s0 = None"
    using s0 by (auto simp: session_new_def rebuild_policy_rows_def split: sum.splits)
  let ?s = "run_benchmark_report example_doubles example_build example_devices ''now'' ''mixed-traffic'' 40 1 64 7 s0"
  let ?config = "report_config_of Mixed 40 1 64 7"
  let ?p = "report_prepared example_doubles example_build example_devices ''now'' ?config s0"
  have valid: "bench_config_ok (?config\<lparr> bc_backend := ''cpu'' \<rparr>)"
    by (simp add: bench_config_ok_def report_config_of_def default_benchmark_config_def ethernet_header_size_def MAX_BENCHMARK_FRAME_SIZE_def)
  have backends: "available_backends example_devices = [''CPU'']" by (simp add: available_backends_def example_devices_def)
  have id: "benchmark_backend_id ''CPU'' = ''cpu''" using backend_ids by simp
  have create: "\<exists>run. bench_create (?config\<lparr> bc_backend := ''cpu'' \<rparr>) (Some (accelerated_backend_factory example_build))
      (Some cpu_traffic_source_factory) = Inr run"
    using valid by (simp add: bench_create_def accelerated_backend_factory_def any_cpu_factory_def cpu_benchmark_backend_factory_def
        cpu_traffic_source_factory_def report_config_of_def default_benchmark_config_def)
  have p: "ss_index ?p = 0" "ss_queue ?p = [''CPU'']" "ss_report_config ?p = ?config" "ss_reporting ?p"
    by (simp_all add: report_prepared_def rebuild_report_provenance_def Let_def backends)
  have measurable_cpu: "measurable example_build ?config ''CPU''" using create id by (auto simp: measurable_def)
  obtain armed t where t: "begin_next_report_backend example_build ?p = (armed, t)" by fastforce
  with begin_next_spec [OF t] p measurable_cpu have armed by (auto split: if_splits)
  then have running: "ss_reporting ?s" "ss_report_config ?s = ?config"
    using idle t begin_next_spec [OF t] p
    by (simp_all add: run_benchmark_report_def scenario_from_text_def fixed_report_def set_status_def ethernet_header_size_def
        MAX_BENCHMARK_FRAME_SIZE_def)
  have "20 * length (available_backends example_devices) \<le> length (filter slice_returning (replicate 20 (SliceReturns (\<lambda>_::nat. 3 :: u64) 9)))"
    by (simp add: backends)
  from report_ends [OF idle disjI1 [OF conjI [OF refl running(1)]] this] running(2) show ?thesis
    using s0 running(1) measurable_cpu id backends by (auto simp del: replicate_Suc)
qed

section \<open>The report beside everything else\<close>

text \<open>No other command touches a report, so in every session that can be reached a report is as its last slice left
  it, and a slice that does not throw returns.\<close>

definition report_ok :: "'g build \<Rightarrow> ('d, 'g) session \<Rightarrow> bool" where
  "report_ok b s \<longleftrightarrow> (if ss_reporting s then measuring b s else ss_run s = None)"

definition same_report :: "('d, 'g) session \<Rightarrow> ('d, 'g) session \<Rightarrow> bool" where
  "same_report s t \<longleftrightarrow> ss_reporting t = ss_reporting s \<and> ss_queue t = ss_queue s \<and> ss_report_config t = ss_report_config s \<and>
     ss_index t = ss_index s \<and> ss_budget t = ss_budget s \<and> ss_run t = ss_run s \<and> ss_results t = ss_results s \<and> ss_rows t = ss_rows s"

lemma measuring_ok:
  assumes "measuring b s"
  shows "report_ok b s"
proof -
  have "ss_reporting s" using assms unfolding measuring_def by blast
  with assms show ?thesis by (simp add: report_ok_def)
qed

lemma same_report_measuring: "same_report s t \<Longrightarrow> measuring b t = measuring b s"
  by (simp add: same_report_def measuring_def results_so_far_def report_backend_config_def expected_ids_def)

lemma same_report_ok: "same_report s t \<Longrightarrow> report_ok b s \<Longrightarrow> report_ok b t"
  using same_report_measuring [of s t b] by (simp add: report_ok_def same_report_def)

lemma same_report_parts [simp]:
  "same_report s (ss_mark f t) = same_report s t" "same_report s (set_status m t) = same_report s t"
  "same_report s (rebuild_fault_rows d t) = same_report s t" "same_report s (rebuild_policy_rows t) = same_report s t"
  "same_report s (rebuild_topology_rows d t) = same_report s t" "same_report s (reset_simulation now t) = same_report s t"
  "same_report s (clear_selection t) = same_report s t" "same_report s (stop_traffic t) = same_report s t"
  "same_report s (packet_telemetry d batch lost throughput average t) = same_report s t"
  "same_report s (after_frames g a n k t) = same_report s t" "same_report s (with_policies e t) = same_report s t"
  "same_report s (t\<lparr> ss_controller := c \<rparr>) = same_report s t" "same_report s (t\<lparr> ss_configuration := conf \<rparr>) = same_report s t"
  "same_report s (t\<lparr> ss_path := path \<rparr>) = same_report s t" "same_report s (t\<lparr> ss_pipeline := p \<rparr>) = same_report s t"
  "same_report s (t\<lparr> ss_export_path := path \<rparr>) = same_report s t"
  "same_report s s"
  by (simp_all add: same_report_def set_status_def rebuild_fault_rows_def rebuild_policy_rows_def rebuild_topology_rows_def
      reset_simulation_def clear_selection_def stop_traffic_def packet_telemetry_def after_frames_def through_frames_def with_policies_def Let_def)

lemma same_report_outcome [simp]: "same_report s (outcome_telemetry d out throughput average t) = same_report s t"
  by (simp add: same_report_def outcome_telemetry_def Let_def rebuild_policy_rows_def rebuild_fault_rows_def)

lemma same_report_commit: "same_report s t \<Longrightarrow> same_report s (snd (commit_topology d now c m t))"
  by (simp add: commit_topology_def Let_def split: sum.split)

lemma same_report_commands:
  "same_report s (open_topology d now files path s)" "same_report s (snd (save_topology opened written path s))"
  "same_report s (add_node d now name type s)" "same_report s (add_link d now from to ms s)" "same_report s (remove_selected d now s)"
  "same_report s (select_node name s)" "same_report s (select_link from to s)"
  "same_report s (apply_selected_fault d ms loss hole s)" "same_report s (ss_clear_fault d first second s)"
  "same_report s (add_policy name type action rate s)" "same_report s (remove_policy name s)"
  "same_report s (set_policy_enabled name enabled s)" "same_report s (release_enforcement d port s)"
  "same_report s (snd (snd (export_report d write path s)))" "same_report s (clear_selection s)" "same_report s (stop_traffic s)"
  by (simp_all add: open_topology_def save_topology_def add_node_def add_link_def remove_selected_def apply_selected_fault_def
      ss_clear_fault_def add_policy_def remove_policy_def set_policy_enabled_def release_enforcement_def export_report_def export_failed_def
      same_report_commit split_beta Let_def split: option.split sum.split prod.split bool.split selection_kind.split)
    (simp_all add: same_report_def select_node_def select_link_def split: option.split)

lemmas report_ok_commands = same_report_commands [THEN same_report_ok]

lemma same_report_start: "same_report s (snd (start_traffic v scenario packets frame sd backend s))"
  by (simp add: start_traffic_def Let_def split: sum.split) (simp add: same_report_def)

lemma same_report_tick: "run_traffic_step d v arrival now s = Inr t \<Longrightarrow> same_report s t"
  by (auto simp: run_traffic_step_def rebuild_telemetry_rows_def Let_def split: if_splits bool.splits option.splits prod.splits sum.splits)

lemma report_not_started:
  assumes "\<not> ss_reporting s" and "ss_run s = None" and "t = run_benchmark_report d b v calendar scenario packets batch frame sd s"
    and "\<not> ss_reporting t"
  shows "ss_run t = None"
proof (cases "\<exists>sc. scenario_from_text scenario = Inr sc \<and> \<not> (sint packets \<le> 0 \<or> sint batch \<le> 0 \<or> sint sd < 0 \<or>
      sint frame < int ethernet_header_size \<or> sint frame > int MAX_BENCHMARK_FRAME_SIZE)")
  case True
  then obtain sc where sc: "scenario_from_text scenario = Inr sc" "\<not> (sint packets \<le> 0 \<or> sint batch \<le> 0 \<or> sint sd < 0 \<or>
      sint frame < int ethernet_header_size \<or> sint frame > int MAX_BENCHMARK_FRAME_SIZE)" by blast
  obtain armed u where u: "begin_next_report_backend b (report_prepared d b v calendar (report_config_of sc packets batch frame sd) s) = (armed, u)"
    by fastforce
  have t: "t = (if \<not> armed then finish_report d u
      else ss_mark DirtyReport (set_status (''Benchmark report running on '' @ dec_of_nat (length (ss_queue u)) @ '' backend(s).'') u))"
    using assms(1,3) sc u by (simp add: run_benchmark_report_def)
  have "ss_reporting u" using begin_next_spec [OF u] by (simp add: fixed_report_def report_prepared_def rebuild_report_provenance_def Let_def)
  then show ?thesis using t assms(4) by (cases armed) (simp_all add: finish_report_def set_status_def)
next
  case False
  then have "t = set_status ''Report settings are invalid.'' s"
    using assms(1,3) by (auto simp: run_benchmark_report_def split: sum.split)
  then show ?thesis using assms(2) by (simp add: set_status_def)
qed

lemma report_ok_started: "report_ok b s \<Longrightarrow> report_ok b (run_benchmark_report d b v calendar scenario packets batch frame sd s)"
proof (cases "ss_reporting s")
  case True
  then show "report_ok b s \<Longrightarrow> ?thesis" by (simp add: run_benchmark_report_def same_report_ok [where s = s])
next
  case False
  assume "report_ok b s"
  then show ?thesis using report_starts_measuring [OF False refl] report_not_started [OF False _ refl] False by (auto simp: report_ok_def)
qed

lemma report_ok_slice:
  assumes "report_ok b s"
  shows "\<exists>t. run_report_step d b spent slice_ns s = Some t \<and> report_ok b t"
proof (cases "ss_reporting s")
  case True
  then obtain t where "run_report_step d b spent slice_ns s = Some t" "measuring b t \<or> measured d b t"
    using measuring_slice [of b s d spent slice_ns] assms by (auto simp: report_ok_def)
  moreover from this(2) have "report_ok b t" by (auto simp: report_ok_def measured_def measuring_def)
  ultimately show ?thesis by blast
qed (use assms in \<open>simp add: run_report_step_def\<close>)

lemma report_ok_step: "ss_step d v b s t \<Longrightarrow> report_ok b s \<Longrightarrow> report_ok b t"
proof (induction rule: ss_step.induct)
  case (st_start scenario packets frame sd backend s s')
  then show ?case using same_report_ok [OF same_report_start] by (metis snd_conv)
next
  case (st_tick arrival now s s')
  then show ?case using same_report_ok [OF same_report_tick] by blast
next
  case (st_report_slice spent slice_ns s s')
  then show ?case using report_ok_slice by (metis option.inject)
next
  case (st_report calendar scenario packets batch frame sd s)
  then show ?case by (rule report_ok_started)
qed (simp_all add: report_ok_commands)

lemma report_ok_throw: "ss_throw d v b what s t \<Longrightarrow> report_ok b s \<Longrightarrow> report_ok b t"
proof (induction rule: ss_throw.induct)
  case (th_start scenario packets frame sd backend s what s')
  then show ?case using same_report_ok [OF same_report_start] by (metis snd_conv)
next
  case (th_tick arrival now s what s')
  from th_tick(1) have "same_report s s'"
    by (rule tick_threw) (simp add: same_report_def through_frames_def)
  then show ?case using th_tick(2) by (rule same_report_ok)
next
  case (th_report calendar scenario packets batch frame sd i what s s')
  from th_report(1) have "\<not> ss_reporting s" by (rule contrapos_pn) (simp add: run_benchmark_report_throws_def)
  with th_report(2) have "ss_run s = None" by (simp add: report_ok_def)
  with report_start_threw [OF th_report(1)] have "measuring b s'" by blast
  then show ?case by (rule measuring_ok)
next
  case (th_slice spent slice_ns failure what s s')
  from th_slice(1) have "ss_reporting s" by (rule contrapos_pp) (simp add: run_report_step_throws_def)
  with th_slice(2) have "measuring b s" by (simp add: report_ok_def)
  with throwing_slice [OF _ th_slice(1)] have "measuring b s'" by blast
  then show ?case by (rule measuring_ok)
qed

lemma report_ok_steps: "ss_steps d v b s t \<Longrightarrow> report_ok b s \<Longrightarrow> report_ok b t"
  by (induction rule: ss_steps.induct) (auto intro: report_ok_step report_ok_throw)

lemma report_ok_new: "session_new d now = Inr s \<Longrightarrow> report_ok b s"
  by (auto simp: session_new_def report_ok_def rebuild_policy_rows_def split: sum.splits)

end
