(* ===== verification/Foreign_Views.thy ===== *)
theory Foreign_Views
  imports Session_Save Session_Measured
begin

text \<open>
  What the C interface shows of a session, \<^verbatim>\<open>src/wirelab_ffi.cpp\<close> and \<^verbatim>\<open>include/wirelab/wirelab_ffi.h\<close>: codes of the
  enumerations, one view for each kind of row, the accessors, and the tables of names. A view is taken from the row
  at an index, or is all zero without a session or a row; a code is labelled back as what it codes. Borrowed text is
  the text, or \<open>None\<close> for the null view; a C string is what stands before its NUL; a handle is \<open>None\<close> for the null pointer.
\<close>

section \<open>Text and handles\<close>

type_synonym wirelab_str = "string option"

definition to_str :: "string \<Rightarrow> wirelab_str" where
  "to_str s = Some s"

definition arg_string :: "string option \<Rightarrow> string" where
  "arg_string p = (case p of None \<Rightarrow> [] | Some s \<Rightarrow> takeWhile (\<lambda>c. c \<noteq> CHR 0x00) s)"

definition row_at :: "'a list \<Rightarrow> nat \<Rightarrow> 'a option" where
  "row_at rows i = (if i < length rows then Some (rows ! i) else None)"

record ('d, 'g) ffi_handle =
  fs_session :: "('d, 'g) session"
  fs_error :: string
  fs_dirty :: u32

type_synonym ('d, 'g) ffi_pointer = "('d, 'g) ffi_handle option"

text \<open>What an accessor returns of a session, and \<open>none\<close> of the null pointer.\<close>

definition ffi_get :: "'v \<Rightarrow> (('d, 'g) session \<Rightarrow> 'v) \<Rightarrow> ('d, 'g) ffi_pointer \<Rightarrow> 'v" where
  "ffi_get none f h = (case h of None \<Rightarrow> none | Some k \<Rightarrow> f (fs_session k))"

definition ffi_at :: "'v \<Rightarrow> ('r \<Rightarrow> 'v) \<Rightarrow> (('d, 'g) session \<Rightarrow> 'r list) \<Rightarrow> ('d, 'g) ffi_pointer \<Rightarrow> nat \<Rightarrow> 'v" where
  "ffi_at none view rows h i = ffi_get none (\<lambda>s. case row_at (rows s) i of None \<Rightarrow> none | Some r \<Rightarrow> view r) h"

section \<open>Codes\<close>

primrec node_code :: "topology_node_type \<Rightarrow> u32" where
  "node_code Host = 0"
| "node_code Switch = 1"

primrec selection_code :: "selection_kind \<Rightarrow> u32" where
  "selection_code NoSelection = 0"
| "selection_code NodeSelection = 1"
| "selection_code LinkSelection = 2"

primrec classification_code :: "packet_classification \<Rightarrow> u32" where
  "classification_code Malformed = 0"
| "classification_code Broadcast = 1"
| "classification_code UnknownUnicast = 2"
| "classification_code KnownUnicast = 3"

primrec validity_code :: "packet_validity \<Rightarrow> u32" where
  "validity_code Valid = 0"
| "validity_code MalformedEthernet = 1"
| "validity_code MalformedIpv4 = 2"
| "validity_code MalformedTransport = 3"

primrec anomaly_code :: "anomaly_type \<Rightarrow> u32" where
  "anomaly_code anomaly_type.BroadcastStorm = 0"
| "anomaly_code MacFlap = 1"
| "anomaly_code UnknownUnicastFlood = 2"
| "anomaly_code anomaly_type.UdpFlood = 3"
| "anomaly_code anomaly_type.PortScan = 4"
| "anomaly_code HotTalker = 5"
| "anomaly_code MalformedFrame = 6"

primrec action_code :: "policy_action \<Rightarrow> u32" where
  "action_code Allow = 0"
| "action_code Drop = 1"
| "action_code Mirror = 2"
| "action_code RateLimit = 3"
| "action_code Quarantine = 4"
| "action_code AlertOnly = 5"

primrec kind_code :: "enforcement_kind \<Rightarrow> u32" where
  "kind_code NoEnforcement = 0"
| "kind_code RateLimitKind = 1"
| "kind_code Blackhole = 2"
| "kind_code Isolate = 3"

primrec outcome_code :: "enforcement_outcome \<Rightarrow> u32" where
  "outcome_code Applied = 0"
| "outcome_code Extended = 1"
| "outcome_code Released = 2"
| "outcome_code Skipped = 3"
| "outcome_code UnknownPortOutcome = 4"
| "outcome_code Rejected = 5"

section \<open>Views\<close>

record 'd node_view =
  nv_id :: wirelab_str
  nv_type :: u32
  nv_x :: 'd
  nv_y :: 'd

definition no_node_view :: "'d session_doubles \<Rightarrow> 'd node_view" where
  "no_node_view d = \<lparr>
     nv_id = None, nv_type = 0, nv_x = db_literal (sd_numbers d) 0, nv_y = db_literal (sd_numbers d) 0 \<rparr>"

definition node_view_of :: "'d node_row \<Rightarrow> 'd node_view" where
  "node_view_of r = \<lparr>
     nv_id = to_str (nr_id r), nv_type = node_code (nr_type r), nv_x = fst (nr_place r), nv_y = snd (nr_place r) \<rparr>"

definition wirelab_topology_node_count :: "('d, 'g) ffi_pointer \<Rightarrow> nat" where
  "wirelab_topology_node_count = ffi_get 0 (\<lambda>s. length (ss_nodes s))"

definition wirelab_topology_node_at :: "'d session_doubles \<Rightarrow> ('d, 'g) ffi_pointer \<Rightarrow> nat \<Rightarrow> 'd node_view" where
  "wirelab_topology_node_at d = ffi_at (no_node_view d) node_view_of ss_nodes"

record link_view =
  lv_from :: wirelab_str
  lv_to :: wirelab_str
  lv_latency_ms :: int

definition no_link_view :: "link_view" where
  "no_link_view = \<lparr>
     lv_from = None, lv_to = None, lv_latency_ms = 0 \<rparr>"

definition link_view_of :: "link_row \<Rightarrow> link_view" where
  "link_view_of r = \<lparr>
     lv_from = to_str (lr_from r), lv_to = to_str (lr_to r), lv_latency_ms = lr_latency_ms r \<rparr>"

definition wirelab_topology_link_count :: "('d, 'g) ffi_pointer \<Rightarrow> nat" where
  "wirelab_topology_link_count = ffi_get 0 (\<lambda>s. length (ss_links s))"

definition wirelab_topology_link_at :: "('d, 'g) ffi_pointer \<Rightarrow> nat \<Rightarrow> link_view" where
  "wirelab_topology_link_at = ffi_at no_link_view link_view_of ss_links"

record mac_table_view =
  mv_mac :: wirelab_str
  mv_port :: wirelab_str

definition no_mac_table_view :: "mac_table_view" where
  "no_mac_table_view = \<lparr>
     mv_mac = None, mv_port = None \<rparr>"

definition mac_table_view_of :: "string \<times> string \<Rightarrow> mac_table_view" where
  "mac_table_view_of r = \<lparr>
     mv_mac = to_str (fst r), mv_port = to_str (snd r) \<rparr>"

definition wirelab_mac_table_count :: "('d, 'g) ffi_pointer \<Rightarrow> nat" where
  "wirelab_mac_table_count = ffi_get 0 (\<lambda>s. length (ss_mac_table s))"

definition wirelab_mac_table_at :: "('d, 'g) ffi_pointer \<Rightarrow> nat \<Rightarrow> mac_table_view" where
  "wirelab_mac_table_at = ffi_at no_mac_table_view mac_table_view_of ss_mac_table"

record port_state_view =
  pov_id :: wirelab_str
  pov_enforced :: bool
  pov_received :: u64
  pov_forwarded :: u64
  pov_dropped :: u64

definition no_port_state_view :: "port_state_view" where
  "no_port_state_view = \<lparr>
     pov_id = None, pov_enforced = False, pov_received = 0, pov_forwarded = 0, pov_dropped = 0 \<rparr>"

definition port_state_view_of :: "port_state_row \<Rightarrow> port_state_view" where
  "port_state_view_of r = \<lparr>
     pov_id = to_str (po_id r), pov_enforced = po_enforced r, pov_received = po_received r, pov_forwarded = po_forwarded r,
     pov_dropped = po_dropped r \<rparr>"

definition wirelab_port_state_count :: "('d, 'g) ffi_pointer \<Rightarrow> nat" where
  "wirelab_port_state_count = ffi_get 0 (\<lambda>s. length (ss_ports s))"

definition wirelab_port_state_at :: "('d, 'g) ffi_pointer \<Rightarrow> nat \<Rightarrow> port_state_view" where
  "wirelab_port_state_at = ffi_at no_port_state_view port_state_view_of ss_ports"

record packet_row_view =
  pkv_source_mac :: wirelab_str
  pkv_destination_mac :: wirelab_str
  pkv_source_ip :: wirelab_str
  pkv_destination_ip :: wirelab_str
  pkv_ingress :: wirelab_str
  pkv_protocol :: u8
  pkv_destination_port :: u16
  pkv_bytes :: u16
  pkv_classification :: u32
  pkv_validity :: u32

definition no_packet_row_view :: "packet_row_view" where
  "no_packet_row_view = \<lparr>
     pkv_source_mac = None, pkv_destination_mac = None, pkv_source_ip = None, pkv_destination_ip = None, pkv_ingress = None,
     pkv_protocol = 0, pkv_destination_port = 0, pkv_bytes = 0, pkv_classification = 0, pkv_validity = 0 \<rparr>"

definition packet_row_view_of :: "packet_row \<Rightarrow> packet_row_view" where
  "packet_row_view_of r = \<lparr>
     pkv_source_mac = to_str (pk_source_mac r), pkv_destination_mac = to_str (pk_destination_mac r),
     pkv_source_ip = to_str (pk_source_ip r), pkv_destination_ip = to_str (pk_destination_ip r),
     pkv_ingress = to_str (pk_ingress r), pkv_protocol = pk_protocol r, pkv_destination_port = pk_destination_port r,
     pkv_bytes = pk_bytes r, pkv_classification = classification_code (pk_classification r),
     pkv_validity = validity_code (pk_validity r) \<rparr>"

definition wirelab_packet_count :: "('d, 'g) ffi_pointer \<Rightarrow> nat" where
  "wirelab_packet_count = ffi_get 0 (\<lambda>s. length (ss_packets s))"

definition wirelab_packet_at :: "('d, 'g) ffi_pointer \<Rightarrow> nat \<Rightarrow> packet_row_view" where
  "wirelab_packet_at = ffi_at no_packet_row_view packet_row_view_of ss_packets"

record anomaly_view =
  arv_type :: u32
  arv_source_mac :: wirelab_str
  arv_source_ip :: wirelab_str
  arv_ingress_port :: u32
  arv_observed :: u64
  arv_threshold :: u64

definition no_anomaly_view :: "anomaly_view" where
  "no_anomaly_view = \<lparr>
     arv_type = 0, arv_source_mac = None, arv_source_ip = None, arv_ingress_port = 0, arv_observed = 0, arv_threshold = 0 \<rparr>"

definition anomaly_view_of :: "anomaly_row \<Rightarrow> anomaly_view" where
  "anomaly_view_of r = \<lparr>
     arv_type = anomaly_code (ar_type r), arv_source_mac = to_str (ar_source_mac r), arv_source_ip = to_str (ar_source_ip r),
     arv_ingress_port = ar_ingress r, arv_observed = ar_observed r, arv_threshold = ar_threshold r \<rparr>"

definition wirelab_anomaly_count :: "('d, 'g) ffi_pointer \<Rightarrow> nat" where
  "wirelab_anomaly_count = ffi_get 0 (\<lambda>s. length (ss_anomalies s))"

definition wirelab_anomaly_at :: "('d, 'g) ffi_pointer \<Rightarrow> nat \<Rightarrow> anomaly_view" where
  "wirelab_anomaly_at = ffi_at no_anomaly_view anomaly_view_of ss_anomalies"

record 'd fault_view =
  fwv_first :: wirelab_str
  fwv_second :: wirelab_str
  fwv_latency_ms :: int
  fwv_loss :: 'd
  fwv_blackhole :: bool
  fwv_is_link :: bool

definition no_fault_view :: "'d session_doubles \<Rightarrow> 'd fault_view" where
  "no_fault_view d = \<lparr>
     fwv_first = None, fwv_second = None, fwv_latency_ms = 0, fwv_loss = db_literal (sd_numbers d) 0, fwv_blackhole = False,
     fwv_is_link = False \<rparr>"

definition fault_view_of :: "'d fault_row \<Rightarrow> 'd fault_view" where
  "fault_view_of r = \<lparr>
     fwv_first = to_str (fw_first r), fwv_second = to_str (fw_second r), fwv_latency_ms = fw_latency_ms r,
     fwv_loss = fw_loss r, fwv_blackhole = fw_blackhole r, fwv_is_link = fault_is_link r \<rparr>"

definition wirelab_fault_count :: "('d, 'g) ffi_pointer \<Rightarrow> nat" where
  "wirelab_fault_count = ffi_get 0 (\<lambda>s. length (ss_faults s))"

definition wirelab_fault_at :: "'d session_doubles \<Rightarrow> ('d, 'g) ffi_pointer \<Rightarrow> nat \<Rightarrow> 'd fault_view" where
  "wirelab_fault_at d = ffi_at (no_fault_view d) fault_view_of ss_faults"

record policy_view =
  pwv_name :: wirelab_str
  pwv_anomaly :: u32
  pwv_action :: u32
  pwv_enabled :: bool
  pwv_rate :: u64
  pwv_hits :: u64

definition no_policy_view :: "policy_view" where
  "no_policy_view = \<lparr>
     pwv_name = None, pwv_anomaly = 0, pwv_action = 0, pwv_enabled = False, pwv_rate = 0, pwv_hits = 0 \<rparr>"

definition policy_view_of :: "policy_row \<Rightarrow> policy_view" where
  "policy_view_of r = \<lparr>
     pwv_name = to_str (pw_name r), pwv_anomaly = anomaly_code (pw_type r), pwv_action = action_code (pw_action r),
     pwv_enabled = pw_enabled r, pwv_rate = pw_rate r, pwv_hits = pw_hits r \<rparr>"

definition wirelab_policy_count :: "('d, 'g) ffi_pointer \<Rightarrow> nat" where
  "wirelab_policy_count = ffi_get 0 (\<lambda>s. length (ss_policies s))"

definition wirelab_policy_at :: "('d, 'g) ffi_pointer \<Rightarrow> nat \<Rightarrow> policy_view" where
  "wirelab_policy_at = ffi_at no_policy_view policy_view_of ss_policies"

record policy_action_view =
  acv_sequence :: u64
  acv_rule :: wirelab_str
  acv_anomaly :: u32
  acv_action :: u32
  acv_port :: wirelab_str
  acv_outcome :: u32
  acv_detail :: wirelab_str

definition no_policy_action_view :: "policy_action_view" where
  "no_policy_action_view = \<lparr>
     acv_sequence = 0, acv_rule = None, acv_anomaly = 0, acv_action = 0, acv_port = None, acv_outcome = 0, acv_detail = None \<rparr>"

definition policy_action_view_of :: "policy_action_row \<Rightarrow> policy_action_view" where
  "policy_action_view_of r = \<lparr>
     acv_sequence = ac_sequence r, acv_rule = to_str (ac_rule r), acv_anomaly = anomaly_code (ac_type r),
     acv_action = action_code (ac_action r), acv_port = to_str (ac_port r), acv_outcome = outcome_code (ac_outcome r),
     acv_detail = to_str (ac_detail r) \<rparr>"

definition wirelab_policy_action_count :: "('d, 'g) ffi_pointer \<Rightarrow> nat" where
  "wirelab_policy_action_count = ffi_get 0 (\<lambda>s. length (ss_actions s))"

definition wirelab_policy_action_at :: "('d, 'g) ffi_pointer \<Rightarrow> nat \<Rightarrow> policy_action_view" where
  "wirelab_policy_action_at = ffi_at no_policy_action_view policy_action_view_of ss_actions"

record enforced_port_view =
  epv_port :: wirelab_str
  epv_rule :: wirelab_str
  epv_kind :: u32
  epv_summary :: wirelab_str

definition no_enforced_port_view :: "enforced_port_view" where
  "no_enforced_port_view = \<lparr>
     epv_port = None, epv_rule = None, epv_kind = 0, epv_summary = None \<rparr>"

definition enforced_port_view_of :: "enforced_port_row \<Rightarrow> enforced_port_view" where
  "enforced_port_view_of r = \<lparr>
     epv_port = to_str (ep_port r), epv_rule = to_str (ep_rule r), epv_kind = kind_code (ep_kind r),
     epv_summary = to_str (ep_summary r) \<rparr>"

definition wirelab_enforced_port_count :: "('d, 'g) ffi_pointer \<Rightarrow> nat" where
  "wirelab_enforced_port_count = ffi_get 0 (\<lambda>s. length (ss_enforced s))"

definition wirelab_enforced_port_at :: "('d, 'g) ffi_pointer \<Rightarrow> nat \<Rightarrow> enforced_port_view" where
  "wirelab_enforced_port_at = ffi_at no_enforced_port_view enforced_port_view_of ss_enforced"

record 'd report_row_view =
  rwv_label :: wirelab_str
  rwv_backend :: wirelab_str
  rwv_scenario :: wirelab_str
  rwv_packets :: u64
  rwv_elapsed_ns :: u64
  rwv_packets_per_second :: 'd
  rwv_goodput :: 'd
  rwv_loss :: 'd
  rwv_p50 :: u64
  rwv_p95 :: u64
  rwv_p99 :: u64
  rwv_host_to_device :: u64
  rwv_kernel :: u64
  rwv_device_to_host :: u64
  rwv_transfer_inclusive :: u64
  rwv_queue_wait :: u64
  rwv_speedup :: 'd

definition no_report_row_view :: "'d session_doubles \<Rightarrow> 'd report_row_view" where
  "no_report_row_view d = \<lparr>
     rwv_label = None, rwv_backend = None, rwv_scenario = None, rwv_packets = 0, rwv_elapsed_ns = 0,
     rwv_packets_per_second = db_literal (sd_numbers d) 0, rwv_goodput = db_literal (sd_numbers d) 0,
     rwv_loss = db_literal (sd_numbers d) 0, rwv_p50 = 0, rwv_p95 = 0, rwv_p99 = 0, rwv_host_to_device = 0, rwv_kernel = 0,
     rwv_device_to_host = 0, rwv_transfer_inclusive = 0, rwv_queue_wait = 0, rwv_speedup = db_literal (sd_numbers d) 0 \<rparr>"

definition report_row_view_of :: "'d report_row \<Rightarrow> 'd report_row_view" where
  "report_row_view_of r = \<lparr>
     rwv_label = to_str (rw_label r), rwv_backend = to_str (rw_backend r), rwv_scenario = to_str (rw_scenario r),
     rwv_packets = rw_packets r, rwv_elapsed_ns = rw_elapsed_ns r, rwv_packets_per_second = rw_packets_per_second r,
     rwv_goodput = rw_goodput r, rwv_loss = rw_loss r, rwv_p50 = rw_p50 r, rwv_p95 = rw_p95 r, rwv_p99 = rw_p99 r,
     rwv_host_to_device = at_host_to_device (rw_timing r), rwv_kernel = at_kernel (rw_timing r),
     rwv_device_to_host = at_device_to_host (rw_timing r), rwv_transfer_inclusive = at_transfer_inclusive (rw_timing r),
     rwv_queue_wait = at_queue_wait (rw_timing r), rwv_speedup = rw_speedup r \<rparr>"

definition wirelab_report_row_count :: "('d, 'g) ffi_pointer \<Rightarrow> nat" where
  "wirelab_report_row_count = ffi_get 0 (\<lambda>s. length (ss_rows s))"

definition wirelab_report_row_at :: "'d session_doubles \<Rightarrow> ('d, 'g) ffi_pointer \<Rightarrow> nat \<Rightarrow> 'd report_row_view" where
  "wirelab_report_row_at d = ffi_at (no_report_row_view d) report_row_view_of ss_rows"

record provenance_view =
  rvv_scenario :: wirelab_str
  rvv_seed :: u64
  rvv_packets :: u64
  rvv_batch_size :: u64
  rvv_frame_size :: u64
  rvv_host_count :: u64
  rvv_generator :: wirelab_str
  rvv_version :: wirelab_str
  rvv_build_type :: wirelab_str
  rvv_generated_at :: wirelab_str

definition no_provenance_view :: "provenance_view" where
  "no_provenance_view = \<lparr>
     rvv_scenario = None, rvv_seed = 0, rvv_packets = 0, rvv_batch_size = 0, rvv_frame_size = 0, rvv_host_count = 0,
     rvv_generator = None, rvv_version = None, rvv_build_type = None, rvv_generated_at = None \<rparr>"

definition provenance_view_of :: "report_provenance \<Rightarrow> provenance_view" where
  "provenance_view_of r = \<lparr>
     rvv_scenario = to_str (rv_scenario r), rvv_seed = rv_seed r, rvv_packets = rv_packets r,
     rvv_batch_size = rv_batch_size r, rvv_frame_size = rv_frame_size r, rvv_host_count = rv_host_count r,
     rvv_generator = to_str (rv_generator r), rvv_version = to_str (rv_version r), rvv_build_type = to_str (rv_build_type r),
     rvv_generated_at = to_str (rv_generated_at r) \<rparr>"

definition wirelab_report_provenance :: "('d, 'g) ffi_pointer \<Rightarrow> provenance_view" where
  "wirelab_report_provenance = ffi_get no_provenance_view (\<lambda>s. provenance_view_of (ss_provenance s))"

section \<open>Single values\<close>

definition wirelab_topology_loaded :: "('d, 'g) ffi_pointer \<Rightarrow> bool" where
  "wirelab_topology_loaded = ffi_get False (has_topology)"

definition wirelab_topology_name :: "('d, 'g) ffi_pointer \<Rightarrow> wirelab_str" where
  "wirelab_topology_name = ffi_get None (\<lambda>s. to_str (topo_name (ss_configuration s)))"

definition wirelab_selection_kind_of :: "('d, 'g) ffi_pointer \<Rightarrow> u32" where
  "wirelab_selection_kind_of = ffi_get (selection_code NoSelection) (\<lambda>s. selection_code (ss_selection s))"

definition wirelab_selected_id :: "('d, 'g) ffi_pointer \<Rightarrow> wirelab_str" where
  "wirelab_selected_id = ffi_get None (\<lambda>s. to_str (ss_selected_id s))"

definition wirelab_selected_summary :: "('d, 'g) ffi_pointer \<Rightarrow> wirelab_str" where
  "wirelab_selected_summary = ffi_get None (\<lambda>s. to_str (ss_selected_summary s))"

definition wirelab_traffic_running :: "('d, 'g) ffi_pointer \<Rightarrow> bool" where
  "wirelab_traffic_running = ffi_get False (ss_running)"

definition wirelab_active_backend :: "('d, 'g) ffi_pointer \<Rightarrow> wirelab_str" where
  "wirelab_active_backend = ffi_get None (\<lambda>s. to_str (ss_backend s))"

definition wirelab_traffic_result :: "('d, 'g) ffi_pointer \<Rightarrow> wirelab_str" where
  "wirelab_traffic_result = ffi_get None (\<lambda>s. to_str (ss_result s))"

text \<open>The span and its length; without a session the null pointer and zero.\<close>

definition wirelab_metrics_history :: "('d, 'g) ffi_pointer \<Rightarrow> 'd metric_sample list option \<times> nat" where
  "wirelab_metrics_history = ffi_get (None, 0) (\<lambda>s. (Some (ss_history s), length (ss_history s)))"

definition wirelab_report_running :: "('d, 'g) ffi_pointer \<Rightarrow> bool" where
  "wirelab_report_running = ffi_get False (ss_reporting)"

definition wirelab_report_progress :: "'d session_doubles \<Rightarrow> ('d, 'g) ffi_pointer \<Rightarrow> 'd" where
  "wirelab_report_progress d = ffi_get (db_literal (sd_numbers d) 0) (ss_progress)"

definition wirelab_report_stage :: "('d, 'g) ffi_pointer \<Rightarrow> wirelab_str" where
  "wirelab_report_stage = ffi_get None (\<lambda>s. to_str (ss_stage s))"

definition wirelab_report_export_path :: "('d, 'g) ffi_pointer \<Rightarrow> wirelab_str" where
  "wirelab_report_export_path = ffi_get None (\<lambda>s. to_str (ss_export_path s))"

definition wirelab_report_compiled_in_count :: "('d, 'g) ffi_pointer \<Rightarrow> nat" where
  "wirelab_report_compiled_in_count = ffi_get 0 (\<lambda>s. length (rv_compiled (ss_provenance s)))"

definition wirelab_report_compiled_in_at :: "('d, 'g) ffi_pointer \<Rightarrow> nat \<Rightarrow> wirelab_str" where
  "wirelab_report_compiled_in_at = ffi_at None to_str (\<lambda>s. rv_compiled (ss_provenance s))"

definition wirelab_report_present_count :: "('d, 'g) ffi_pointer \<Rightarrow> nat" where
  "wirelab_report_present_count = ffi_get 0 (\<lambda>s. length (rv_present (ss_provenance s)))"

definition wirelab_report_present_at :: "('d, 'g) ffi_pointer \<Rightarrow> nat \<Rightarrow> wirelab_str" where
  "wirelab_report_present_at = ffi_at None to_str (\<lambda>s. rv_present (ss_provenance s))"

section \<open>Tables of names\<close>

definition table_at :: "string list \<Rightarrow> nat \<Rightarrow> wirelab_str" where
  "table_at table i = (case row_at table i of None \<Rightarrow> None | Some s \<Rightarrow> to_str s)"

definition wirelab_backend_count :: "'g session_devices \<Rightarrow> nat" where
  "wirelab_backend_count v = length (available_backends v)"

definition wirelab_backend_name :: "'g session_devices \<Rightarrow> nat \<Rightarrow> wirelab_str" where
  "wirelab_backend_name v = table_at (available_backends v)"

definition wirelab_scenario_count :: nat where
  "wirelab_scenario_count = length scenario_names"

definition wirelab_scenario_name :: "nat \<Rightarrow> wirelab_str" where
  "wirelab_scenario_name = table_at scenario_names"

definition anomaly_order :: "anomaly_type list" where
  "anomaly_order = [anomaly_type.BroadcastStorm, MacFlap, UnknownUnicastFlood, anomaly_type.UdpFlood, anomaly_type.PortScan, HotTalker,
     MalformedFrame]"

definition policy_action_order :: "policy_action list" where
  "policy_action_order = [AlertOnly, Mirror, RateLimit, Drop, Quarantine, Allow]"

definition wirelab_anomaly_type_count :: nat where
  "wirelab_anomaly_type_count = length anomaly_order"

definition wirelab_anomaly_type_name :: "nat \<Rightarrow> wirelab_str" where
  "wirelab_anomaly_type_name i = (if i \<ge> length anomaly_order then None else to_str (anomaly_label (anomaly_order ! i)))"

definition wirelab_policy_action_name_count :: nat where
  "wirelab_policy_action_name_count = length policy_action_order"

definition wirelab_policy_action_name :: "nat \<Rightarrow> wirelab_str" where
  "wirelab_policy_action_name i = (if i \<ge> length policy_action_order then None else to_str (action_label (policy_action_order ! i)))"

text \<open>Labels of codes. The last four cast the code to the enumeration, whose enumerators are numbered in their order.\<close>

definition wirelab_node_type_label :: "u32 \<Rightarrow> wirelab_str" where
  "wirelab_node_type_label n =
     (if n = node_code Host then to_str (node_type_text Host) else if n = node_code Switch then to_str (node_type_text Switch) else None)"

definition wirelab_classification_label :: "u32 \<Rightarrow> wirelab_str" where
  "wirelab_classification_label n =
     (if n = classification_code Malformed then to_str (classification_label Malformed)
      else if n = classification_code Broadcast then to_str (classification_label Broadcast)
      else if n = classification_code UnknownUnicast then to_str (classification_label UnknownUnicast)
      else if n = classification_code KnownUnicast then to_str (classification_label KnownUnicast)
      else None)"

definition wirelab_validity_label :: "u32 \<Rightarrow> wirelab_str" where
  "wirelab_validity_label n =
     (if n = validity_code Valid then to_str (validity_label Valid)
      else if n = validity_code MalformedEthernet then to_str (validity_label MalformedEthernet)
      else if n = validity_code MalformedIpv4 then to_str (validity_label MalformedIpv4)
      else if n = validity_code MalformedTransport then to_str (validity_label MalformedTransport)
      else None)"

definition wirelab_anomaly_type_label :: "u32 \<Rightarrow> wirelab_str" where
  "wirelab_anomaly_type_label n = (if unat n \<ge> length anomaly_order then None
     else to_str (anomaly_label ([anomaly_type.BroadcastStorm, MacFlap, UnknownUnicastFlood, anomaly_type.UdpFlood, anomaly_type.PortScan,
       HotTalker, MalformedFrame] ! unat n)))"

definition wirelab_policy_action_label :: "u32 \<Rightarrow> wirelab_str" where
  "wirelab_policy_action_label n = (if n > action_code AlertOnly then None
     else to_str (action_label ([Allow, Drop, Mirror, RateLimit, Quarantine, AlertOnly] ! unat n)))"

definition wirelab_enforcement_kind_label :: "u32 \<Rightarrow> wirelab_str" where
  "wirelab_enforcement_kind_label n = (if n > kind_code Isolate then None
     else to_str (enforcement_kind_text ([NoEnforcement, RateLimitKind, Blackhole, Isolate] ! unat n)))"

definition wirelab_enforcement_outcome_label :: "u32 \<Rightarrow> wirelab_str" where
  "wirelab_enforcement_outcome_label n = (if n > outcome_code Rejected then None
     else to_str (enforcement_outcome_text ([Applied, Extended, Released, Skipped, UnknownPortOutcome, Rejected] ! unat n)))"

end
