(* ===== verification/Foreign_Interface.thy ===== *)
theory Foreign_Interface
  imports Foreign_Views
begin

text \<open>
  The calls of the C interface, \<^verbatim>\<open>src/wirelab_ffi.cpp\<close>: the guard that every command runs through, the commands, and the
  handle with its own error and its own bits, with the sequences of calls a front end makes.
\<close>

section \<open>The guard\<close>

text \<open>A body yields what it threw, if it did, and the session as it then is.\<close>

definition record_error :: "string \<Rightarrow> ('d, 'g) ffi_handle \<Rightarrow> ('d, 'g) ffi_handle" where
  "record_error what k = k\<lparr> fs_error := ''Internal error: '' @ what, fs_dirty := fs_dirty k OR dirty_bit DirtyStatus \<rparr>"

definition guard :: "(('d, 'g) session \<Rightarrow> string option \<times> ('d, 'g) session) \<Rightarrow> ('d, 'g) ffi_pointer \<Rightarrow> ('d, 'g) ffi_pointer" where
  "guard body h =
     (case h of
        None \<Rightarrow> None
      | Some k \<Rightarrow>
          let (thrown, s) = body (fs_session k); k = k\<lparr> fs_session := s, fs_error := [] \<rparr>
          in Some (case thrown of None \<Rightarrow> k | Some what \<Rightarrow> record_error what k))"

text \<open>A body that does not throw.\<close>

definition guard_quiet :: "(('d, 'g) session \<Rightarrow> ('d, 'g) session) \<Rightarrow> ('d, 'g) ffi_pointer \<Rightarrow> ('d, 'g) ffi_pointer" where
  "guard_quiet f = guard (\<lambda>s. (None, f s))"

text \<open>The sibling that answers: a throw is \<open>False\<close>.\<close>

definition guard_bool :: "(('d, 'g) session \<Rightarrow> (string + bool) \<times> ('d, 'g) session) \<Rightarrow> ('d, 'g) ffi_pointer \<Rightarrow> bool \<times> ('d, 'g) ffi_pointer" where
  "guard_bool body h =
     (case h of
        None \<Rightarrow> (False, None)
      | Some k \<Rightarrow>
          let (answer, s) = body (fs_session k); k = k\<lparr> fs_session := s, fs_error := [] \<rparr>
          in (case answer of Inr x \<Rightarrow> (x, Some k) | Inl what \<Rightarrow> (False, Some (record_error what k))))"

section \<open>The handle\<close>

definition WIRELAB_FFI_ABI_VERSION :: u32 where "WIRELAB_FFI_ABI_VERSION = 1"

definition wirelab_session_open :: "'d session_doubles \<Rightarrow> int \<Rightarrow> u32 \<Rightarrow> ('d, 'g) ffi_pointer" where
  "wirelab_session_open d now abi_version =
     (if abi_version \<noteq> WIRELAB_FFI_ABI_VERSION then None
      else case session_new d now of
        Inl _ \<Rightarrow> None
      | Inr s \<Rightarrow> (let (bits, s) = take_dirty s in Some \<lparr> fs_session = s, fs_error = [], fs_dirty = bits \<rparr>))"

definition wirelab_session_take_dirty :: "('d, 'g) ffi_pointer \<Rightarrow> u32 \<times> ('d, 'g) ffi_pointer" where
  "wirelab_session_take_dirty h =
     (case h of
        None \<Rightarrow> (0, None)
      | Some k \<Rightarrow> (let (bits, s) = take_dirty (fs_session k) in (bits OR fs_dirty k, Some (k\<lparr> fs_session := s, fs_dirty := 0 \<rparr>))))"

definition wirelab_session_status_message :: "('d, 'g) ffi_pointer \<Rightarrow> wirelab_str" where
  "wirelab_session_status_message h =
     (case h of None \<Rightarrow> None | Some k \<Rightarrow> to_str (if fs_error k \<noteq> [] then fs_error k else ss_status (fs_session k)))"

section \<open>Commands\<close>

text \<open>A C string may be the null pointer.\<close>

type_synonym c_str = "string option"

definition wirelab_topology_open :: "'d session_doubles \<Rightarrow> int \<Rightarrow> (string \<Rightarrow> string option) \<Rightarrow> c_str \<Rightarrow> ('d, 'g) ffi_pointer \<Rightarrow> ('d, 'g) ffi_pointer" where
  "wirelab_topology_open d now files path = guard_quiet (open_topology d now files (arg_string path))"

text \<open>What is written where, with the handle.\<close>

definition wirelab_topology_save :: "bool \<Rightarrow> bool \<Rightarrow> c_str \<Rightarrow> ('d, 'g) ffi_pointer \<Rightarrow> (string \<times> string) option \<times> ('d, 'g) ffi_pointer" where
  "wirelab_topology_save opened written path h =
     (ffi_get None (\<lambda>s. fst (save_topology opened written (arg_string path) s)) h,
      guard_quiet (\<lambda>s. snd (save_topology opened written (arg_string path) s)) h)"

definition wirelab_topology_add_node :: "'d session_doubles \<Rightarrow> int \<Rightarrow> c_str \<Rightarrow> c_str \<Rightarrow> ('d, 'g) ffi_pointer \<Rightarrow> ('d, 'g) ffi_pointer" where
  "wirelab_topology_add_node d now name type = guard_quiet (add_node d now (arg_string name) (arg_string type))"

definition wirelab_topology_add_link :: "'d session_doubles \<Rightarrow> int \<Rightarrow> c_str \<Rightarrow> c_str \<Rightarrow> i32 \<Rightarrow> ('d, 'g) ffi_pointer \<Rightarrow> ('d, 'g) ffi_pointer" where
  "wirelab_topology_add_link d now from to latency_ms = guard_quiet (add_link d now (arg_string from) (arg_string to) latency_ms)"

definition wirelab_topology_remove_selected :: "'d session_doubles \<Rightarrow> int \<Rightarrow> ('d, 'g) ffi_pointer \<Rightarrow> ('d, 'g) ffi_pointer" where
  "wirelab_topology_remove_selected d now = guard_quiet (remove_selected d now)"

definition wirelab_select_node :: "c_str \<Rightarrow> ('d, 'g) ffi_pointer \<Rightarrow> ('d, 'g) ffi_pointer" where
  "wirelab_select_node name = guard_quiet (select_node (arg_string name))"

definition wirelab_select_link :: "c_str \<Rightarrow> c_str \<Rightarrow> ('d, 'g) ffi_pointer \<Rightarrow> ('d, 'g) ffi_pointer" where
  "wirelab_select_link from to = guard_quiet (select_link (arg_string from) (arg_string to))"

definition wirelab_clear_selection :: "('d, 'g) ffi_pointer \<Rightarrow> ('d, 'g) ffi_pointer" where
  "wirelab_clear_selection = guard_quiet (clear_selection)"

definition wirelab_fault_apply_selected :: "'d session_doubles \<Rightarrow> i32 \<Rightarrow> 'd \<Rightarrow> bool \<Rightarrow> ('d, 'g) ffi_pointer \<Rightarrow> ('d, 'g) ffi_pointer" where
  "wirelab_fault_apply_selected d latency_ms loss hole = guard_quiet (apply_selected_fault d latency_ms loss hole)"

definition wirelab_fault_clear :: "'d session_doubles \<Rightarrow> c_str \<Rightarrow> c_str \<Rightarrow> ('d, 'g) ffi_pointer \<Rightarrow> ('d, 'g) ffi_pointer" where
  "wirelab_fault_clear d first second = guard_quiet (ss_clear_fault d (arg_string first) (arg_string second))"

definition wirelab_policy_add :: "c_str \<Rightarrow> c_str \<Rightarrow> c_str \<Rightarrow> u64 \<Rightarrow> ('d, 'g) ffi_pointer \<Rightarrow> ('d, 'g) ffi_pointer" where
  "wirelab_policy_add name type action rate = guard_quiet (add_policy (arg_string name) (arg_string type) (arg_string action) rate)"

definition wirelab_policy_remove :: "c_str \<Rightarrow> ('d, 'g) ffi_pointer \<Rightarrow> ('d, 'g) ffi_pointer" where
  "wirelab_policy_remove name = guard_quiet (remove_policy (arg_string name))"

definition wirelab_policy_set_enabled :: "c_str \<Rightarrow> bool \<Rightarrow> ('d, 'g) ffi_pointer \<Rightarrow> ('d, 'g) ffi_pointer" where
  "wirelab_policy_set_enabled name enabled = guard_quiet (set_policy_enabled (arg_string name) enabled)"

definition wirelab_enforcement_release :: "'d session_doubles \<Rightarrow> c_str \<Rightarrow> ('d, 'g) ffi_pointer \<Rightarrow> ('d, 'g) ffi_pointer" where
  "wirelab_enforcement_release d port = guard_quiet (release_enforcement d (arg_string port))"

text \<open>What the constructors of the generator and of the analyzer throw is caught here.\<close>

definition wirelab_traffic_start ::
    "'g session_devices \<Rightarrow> c_str \<Rightarrow> i32 \<Rightarrow> i32 \<Rightarrow> u64 \<Rightarrow> c_str \<Rightarrow> ('d, 'g) ffi_pointer \<Rightarrow> ('d, 'g) ffi_pointer" where
  "wirelab_traffic_start v scenario packets frame sd backend =
     guard (start_traffic v (arg_string scenario) packets frame sd (arg_string backend))"

definition wirelab_traffic_stop :: "('d, 'g) ffi_pointer \<Rightarrow> ('d, 'g) ffi_pointer" where
  "wirelab_traffic_stop = guard_quiet (stop_traffic)"

text \<open>An exception of the analyzer is caught; \<open>None\<close> for the two failures whose session is not modelled, or if the slice
  does not return. Neither happens to a handle that was opened.\<close>

definition wirelab_traffic_step :: "'d session_doubles \<Rightarrow> 'g session_devices \<Rightarrow> int \<Rightarrow> int \<Rightarrow> ('d, 'g) ffi_pointer \<Rightarrow> ('d, 'g) ffi_pointer option" where
  "wirelab_traffic_step d v arrival now h =
     (case h of
        None \<Rightarrow> Some None
      | Some k \<Rightarrow>
          (case run_traffic_step d v arrival now (fs_session k) of
             Inr s \<Rightarrow> Some (guard_quiet (\<lambda>_. s) h)
           | Inl (AnalyzerThrew what s) \<Rightarrow> Some (guard (\<lambda>_. (Some what, s)) h)
           | Inl _ \<Rightarrow> None))"

definition wirelab_report_start :: "'d session_doubles \<Rightarrow> 'g build \<Rightarrow> 'g session_devices \<Rightarrow> string \<Rightarrow> c_str \<Rightarrow> i32 \<Rightarrow> i32 \<Rightarrow> i32 \<Rightarrow> i32 \<Rightarrow>
      ('d, 'g) ffi_pointer \<Rightarrow> ('d, 'g) ffi_pointer" where
  "wirelab_report_start d b v calendar scenario packets batch frame sd = guard_quiet (run_benchmark_report d b v calendar (arg_string scenario) packets batch frame sd)"

definition wirelab_report_step :: "'d session_doubles \<Rightarrow> 'g build \<Rightarrow> (nat \<Rightarrow> u64) \<Rightarrow> u64 \<Rightarrow> ('d, 'g) ffi_pointer \<Rightarrow> ('d, 'g) ffi_pointer option" where
  "wirelab_report_step d b spent slice_ns h =
     (case h of
        None \<Rightarrow> Some None
      | Some k \<Rightarrow> map_option (\<lambda>s. guard_quiet (\<lambda>_. s) h) (run_report_step d b spent slice_ns (fs_session k)))"

text \<open>The same two commands when a backend throws in them; \<open>None\<close> if it cannot.\<close>

definition wirelab_report_start_throws :: "'d session_doubles \<Rightarrow> 'g build \<Rightarrow> 'g session_devices \<Rightarrow> string \<Rightarrow> c_str \<Rightarrow> i32 \<Rightarrow> i32 \<Rightarrow> i32 \<Rightarrow> i32 \<Rightarrow>
      nat \<Rightarrow> string \<Rightarrow> ('d, 'g) ffi_pointer \<Rightarrow> ('d, 'g) ffi_pointer option" where
  "wirelab_report_start_throws d b v calendar scenario packets batch frame sd i what h =
     (case h of
        None \<Rightarrow> None
      | Some k \<Rightarrow> map_option (\<lambda>s. guard (\<lambda>_. (Some what, s)) h)
          (run_benchmark_report_throws d b v calendar (arg_string scenario) packets batch frame sd i what (fs_session k)))"

definition wirelab_report_step_throws :: "'d session_doubles \<Rightarrow> 'g build \<Rightarrow> (nat \<Rightarrow> u64) \<Rightarrow> u64 \<Rightarrow> 'g report_failure \<Rightarrow> string \<Rightarrow>
      ('d, 'g) ffi_pointer \<Rightarrow> ('d, 'g) ffi_pointer option" where
  "wirelab_report_step_throws d b spent slice_ns failure what h =
     (case h of
        None \<Rightarrow> None
      | Some k \<Rightarrow> map_option (\<lambda>s. guard (\<lambda>_. (Some what, s)) h) (run_report_step_throws d b spent slice_ns failure what (fs_session k)))"

text \<open>With what is written where.\<close>

definition wirelab_report_export ::
    "'d session_doubles \<Rightarrow> (string \<Rightarrow> bool) \<Rightarrow> c_str \<Rightarrow> ('d, 'g) ffi_pointer \<Rightarrow> bool \<times> (string \<times> string) list \<times> ('d, 'g) ffi_pointer" where
  "wirelab_report_export d write path h =
     (let (ok, h') = guard_bool (\<lambda>s. let (ok, _, s) = export_report d write (arg_string path) s in (Inr ok, s)) h
      in (ok, ffi_get [] (\<lambda>s. fst (snd (export_report d write (arg_string path) s))) h, h'))"

section \<open>Calls\<close>

inductive ffi_call ::
    "'d session_doubles \<Rightarrow> 'g session_devices \<Rightarrow> 'g build \<Rightarrow> ('d, 'g) ffi_pointer \<Rightarrow> ('d, 'g) ffi_pointer \<Rightarrow> bool"
  for d v b where
  fc_open: "ffi_call d v b h (wirelab_topology_open d now files path h)"
| fc_save: "ffi_call d v b h (snd (wirelab_topology_save opened written path h))"
| fc_add_node: "ffi_call d v b h (wirelab_topology_add_node d now name type h)"
| fc_add_link: "ffi_call d v b h (wirelab_topology_add_link d now from to latency_ms h)"
| fc_remove: "ffi_call d v b h (wirelab_topology_remove_selected d now h)"
| fc_select_node: "ffi_call d v b h (wirelab_select_node name h)"
| fc_select_link: "ffi_call d v b h (wirelab_select_link from to h)"
| fc_clear_selection: "ffi_call d v b h (wirelab_clear_selection h)"
| fc_apply: "ffi_call d v b h (wirelab_fault_apply_selected d latency_ms loss hole h)"
| fc_clear: "ffi_call d v b h (wirelab_fault_clear d first second h)"
| fc_add_policy: "ffi_call d v b h (wirelab_policy_add name type action rate h)"
| fc_remove_policy: "ffi_call d v b h (wirelab_policy_remove name h)"
| fc_enable: "ffi_call d v b h (wirelab_policy_set_enabled name enabled h)"
| fc_release: "ffi_call d v b h (wirelab_enforcement_release d port h)"
| fc_start: "ffi_call d v b h (wirelab_traffic_start v scenario packets frame sd backend h)"
| fc_stop: "ffi_call d v b h (wirelab_traffic_stop h)"
| fc_tick: "wirelab_traffic_step d v arrival now h = Some h' \<Longrightarrow> ffi_call d v b h h'"
| fc_report: "ffi_call d v b h (wirelab_report_start d b v calendar scenario packets batch frame sd h)"
| fc_report_throws: "wirelab_report_start_throws d b v calendar scenario packets batch frame sd i what h = Some h' \<Longrightarrow> ffi_call d v b h h'"
| fc_slice: "wirelab_report_step d b spent slice_ns h = Some h' \<Longrightarrow> ffi_call d v b h h'"
| fc_slice_throws: "wirelab_report_step_throws d b spent slice_ns failure what h = Some h' \<Longrightarrow> ffi_call d v b h h'"
| fc_export: "ffi_call d v b h (snd (snd (wirelab_report_export d write path h)))"

text \<open>A command that threw has left its error at the handle; the next clears it.\<close>

definition call_threw :: "('d, 'g) ffi_pointer \<Rightarrow> bool" where
  "call_threw h \<longleftrightarrow> (case h of None \<Rightarrow> False | Some k \<Rightarrow> fs_error k \<noteq> [])"

text \<open>Commands one after another, and whether one threw; then with the bits taken in between.\<close>

inductive ffi_calls ::
    "'d session_doubles \<Rightarrow> 'g session_devices \<Rightarrow> 'g build \<Rightarrow> bool \<Rightarrow> ('d, 'g) ffi_pointer \<Rightarrow> ('d, 'g) ffi_pointer \<Rightarrow> bool"
  for d v b where
  fcs_refl: "ffi_calls d v b False h h"
| fcs_call: "ffi_calls d v b thrown h i \<Longrightarrow> ffi_call d v b i j \<Longrightarrow> ffi_calls d v b (thrown \<or> call_threw j) h j"

inductive ffi_uses ::
    "'d session_doubles \<Rightarrow> 'g session_devices \<Rightarrow> 'g build \<Rightarrow> ('d, 'g) ffi_pointer \<Rightarrow> ('d, 'g) ffi_pointer \<Rightarrow> bool"
  for d v b where
  fu_refl: "ffi_uses d v b h h"
| fu_call: "ffi_uses d v b h i \<Longrightarrow> ffi_call d v b i j \<Longrightarrow> ffi_uses d v b h j"
| fu_drain: "ffi_uses d v b h i \<Longrightarrow> ffi_uses d v b h (snd (wirelab_session_take_dirty i))"

end
