(* ===== verification/Foreign_Calls.thy ===== *)
theory Foreign_Calls
  imports Foreign_Interface
begin

text \<open>
  What the C interface keeps. A call is a step of the session below, or one that threw and was caught; so the
  invariants of the session hold of every handle, ticks and slices come back, and what changes between two calls of
  \<open>wirelab_session_take_dirty\<close> is announced. The names of the tables are read back as what they name.
\<close>

section \<open>A call is a step\<close>

definition internal_error :: "string \<Rightarrow> string" where
  "internal_error what = ''Internal error: '' @ what"

lemma internal_error_some [simp]: "internal_error what \<noteq> []"
  by (simp add: internal_error_def)

lemma guard_quiet_step:
  "guard_quiet f (Some k) = Some (k\<lparr> fs_session := f (fs_session k), fs_error := [] \<rparr>)"
  by (simp add: guard_quiet_def guard_def)

text \<open>A body that throws.\<close>

lemma guard_throws:
  "body (fs_session k) = (Some what, s) \<Longrightarrow> guard body (Some k) =
    Some (k\<lparr> fs_session := s, fs_error := internal_error what, fs_dirty := fs_dirty k OR dirty_bit DirtyStatus \<rparr>)"
  by (simp add: guard_def record_error_def internal_error_def)

lemma export_step:
  "snd (snd (wirelab_report_export d write path h)) = guard_quiet (\<lambda>s. snd (snd (export_report d write (arg_string path) s))) h"
  by (simp add: wirelab_report_export_def guard_bool_def guard_quiet_def guard_def Let_def split_beta split: option.split)

lemma guard_quiet_null [simp]: "guard_quiet f None = None"
  by (simp add: guard_quiet_def guard_def)

text \<open>A call that does not throw, and one that does.\<close>

definition quiet :: "('d, 'g) ffi_handle \<Rightarrow> ('d, 'g) ffi_handle \<Rightarrow> bool" where
  "quiet k k' \<longleftrightarrow> fs_error k' = [] \<and> fs_dirty k' = fs_dirty k"

definition threw :: "string \<Rightarrow> ('d, 'g) ffi_handle \<Rightarrow> ('d, 'g) ffi_handle \<Rightarrow> bool" where
  "threw what k k' \<longleftrightarrow> fs_error k' = internal_error what \<and> fs_dirty k' = fs_dirty k OR dirty_bit DirtyStatus"

lemma quiet_guard [simp]: "quiet k (k\<lparr> fs_session := s, fs_error := [] \<rparr>)"
  by (simp add: quiet_def)

lemma threw_guard [simp]:
  "threw what k (k\<lparr> fs_session := s, fs_error := internal_error what, fs_dirty := fs_dirty k OR dirty_bit DirtyStatus \<rparr>)"
  by (simp add: threw_def)

lemmas quiet_commands = wirelab_topology_open_def wirelab_topology_save_def wirelab_topology_add_node_def wirelab_topology_add_link_def
  wirelab_topology_remove_selected_def wirelab_select_node_def wirelab_select_link_def wirelab_clear_selection_def
  wirelab_fault_apply_selected_def wirelab_fault_clear_def wirelab_policy_add_def wirelab_policy_remove_def wirelab_policy_set_enabled_def
  wirelab_enforcement_release_def wirelab_traffic_stop_def wirelab_report_start_def export_step

lemmas loud_commands = wirelab_traffic_step_def wirelab_report_step_def wirelab_report_start_throws_def wirelab_report_step_throws_def

lemma call_null: "ffi_call d v b h h' \<Longrightarrow> h = None \<Longrightarrow> h' = None"
  by (induction rule: ffi_call.induct)
    (simp_all add: quiet_commands wirelab_traffic_start_def guard_def loud_commands)

text \<open>What a call may be, seen from the handle.\<close>

definition called ::
    "'d session_doubles \<Rightarrow> 'g session_devices \<Rightarrow> 'g build \<Rightarrow> ('d, 'g) ffi_handle \<Rightarrow> ('d, 'g) ffi_handle \<Rightarrow> bool" where
  "called d v b k k' \<longleftrightarrow> ss_step d v b (fs_session k) (fs_session k') \<and> quiet k k' \<or>
     (\<exists>what. ss_throw d v b what (fs_session k) (fs_session k') \<and> threw what k k')"

lemma called_quiet: "ss_step d v b (fs_session k) s \<Longrightarrow> called d v b k (k\<lparr> fs_session := s, fs_error := [] \<rparr>)"
  by (simp add: called_def)

lemma called_threw: "ss_throw d v b what (fs_session k) s \<Longrightarrow>
    called d v b k (k\<lparr> fs_session := s, fs_error := internal_error what, fs_dirty := fs_dirty k OR dirty_bit DirtyStatus \<rparr>)"
  by (auto simp: called_def)

lemma start_call:
  assumes "wirelab_traffic_start v scenario packets frame sd backend (Some k) = Some k'"
  shows "called d v b k k'"
proof -
  obtain e s where e: "start_traffic v (arg_string scenario) packets frame sd (arg_string backend) (fs_session k) = (e, s)"
    by (cases "start_traffic v (arg_string scenario) packets frame sd (arg_string backend) (fs_session k)")
  show ?thesis
  proof (cases e)
    case None
    then have "k' = k\<lparr> fs_session := s, fs_error := [] \<rparr>" using assms e by (simp add: wirelab_traffic_start_def guard_def)
    then show ?thesis using e None by (auto intro: called_quiet st_start)
  next
    case (Some what)
    then have "k' = k\<lparr> fs_session := s, fs_error := internal_error what, fs_dirty := fs_dirty k OR dirty_bit DirtyStatus \<rparr>"
      using assms e by (simp add: wirelab_traffic_start_def guard_throws)
    then show ?thesis using e Some by (auto intro: called_threw th_start)
  qed
qed

lemma call_step:
  assumes "ffi_call d v b (Some k) (Some k')"
  shows "called d v b k k'"
  using assms
proof (cases rule: ffi_call.cases)
  case (fc_start scenario packets frame sd backend)
  then show ?thesis using start_call by metis
qed (auto simp: quiet_commands guard_quiet_step guard_throws loud_commands
    intro: called_quiet called_threw ss_step.intros ss_throw.intros split: sum.splits tick_failure.splits)

lemma call_open: "ffi_call d v b (Some k) h \<Longrightarrow> \<exists>k'. h = Some k'"
  by (cases rule: ffi_call.cases, assumption)
    (auto simp: quiet_commands guard_quiet_step wirelab_traffic_start_def guard_def loud_commands Let_def
      split: sum.splits prod.splits tick_failure.splits)

section \<open>What is thrown\<close>

text \<open>A topology with too few hosts, or what a device throws: the constructor of its analyzer, the analyzer at a tick, or its
  backend in a report.\<close>

definition thrown_by :: "'g session_devices \<Rightarrow> 'g build \<Rightarrow> string \<Rightarrow> bool" where
  "thrown_by v b what \<longleftrightarrow> what = ''host_count must be at least two'' \<or> (\<exists>backend. (backend, Inl what) \<in> set (dv_devices v)) \<or>
     (\<exists>views g. fst (dv_analyze v views g) = Inl what) \<or> (\<exists>backend. backend_throws b backend what)"

lemma start_threw:
  assumes "start_traffic v scenario packets frame sd backend s = (Some what, t)"
  shows "thrown_by v b what"
  using assms
  by (auto simp: start_traffic_def Let_def generator_new_def ethernet_header_size_def device_analyzer_def what_of_def thrown_by_def
      split: if_splits sum.splits option.splits dest: map_of_SomeD)

lemma begin_threw: "begin_throws b what i s = Some t \<Longrightarrow> \<exists>backend. backend_throws b backend what"
proof (induction b what i s rule: begin_throws.induct)
  case (1 b what i s)
  then show ?case by (subst (asm) (2) begin_throws.simps) (auto split: if_splits sum.splits)
qed

lemma throw_by: "ss_throw d v b what s t \<Longrightarrow> thrown_by v b what"
proof (induction rule: ss_throw.induct)
  case (th_start scenario packets frame sd backend s what s')
  then show ?case by (rule start_threw)
next
  case (th_tick arrival now s what s')
  then show ?case by (rule tick_threw) (metis fst_conv thrown_by_def)
next
  case (th_report calendar scenario packets batch frame sd i what s s')
  then have "\<exists>backend. backend_throws b backend what"
    by (auto simp: run_benchmark_report_throws_def dest!: begin_threw split: if_splits sum.splits)
  then show ?case by (simp add: thrown_by_def)
next
  case (th_slice spent slice_ns failure what s s')
  then have "\<exists>backend. backend_throws b backend what"
    by (auto simp: run_report_step_throws_def report_slice_throws_def Let_def split_beta
        dest!: begin_threw split: if_splits option.splits report_failure.splits)
  then show ?case by (simp add: thrown_by_def)
qed

section \<open>Handles stay sound\<close>

definition handle_ok :: "'d session_doubles \<Rightarrow> 'g session_devices \<Rightarrow> 'g build \<Rightarrow> ('d, 'g) ffi_handle \<Rightarrow> bool" where
  "handle_ok d v b k \<longleftrightarrow> laboratory_ok d (fs_session k) \<and> (devices_reliable v \<longrightarrow> accounts_ok (fs_session k)) \<and>
     report_ok b (fs_session k) \<and> (fs_error k = [] \<or> (\<exists>what. fs_error k = internal_error what \<and> thrown_by v b what))"

lemma handle_ok_called:
  assumes "called d v b k k'" and ok: "handle_ok d v b k"
  shows "handle_ok d v b k'"
  using assms(1) unfolding called_def
proof (elim disjE exE conjE)
  assume "ss_step d v b (fs_session k) (fs_session k')" and "quiet k k'"
  then show ?thesis using ok laboratory_step accounts_step report_ok_step unfolding handle_ok_def quiet_def by blast
next
  fix what assume "ss_throw d v b what (fs_session k) (fs_session k')" and "threw what k k'"
  then show ?thesis
    using ok laboratory_throw [OF \<open>ss_throw _ _ _ _ _ _\<close>] accounts_throw [OF \<open>ss_throw _ _ _ _ _ _\<close>]
      report_ok_throw [OF \<open>ss_throw _ _ _ _ _ _\<close>] throw_by [OF \<open>ss_throw _ _ _ _ _ _\<close>]
    by (auto simp: handle_ok_def threw_def)
qed

lemma handle_ok_call: "ffi_call d v b (Some k) (Some k') \<Longrightarrow> handle_ok d v b k \<Longrightarrow> handle_ok d v b k'"
  using call_step handle_ok_called by blast

lemma drained [simp]:
  "laboratory_ok d (s\<lparr> ss_dirty := n \<rparr>) = laboratory_ok d s" "accounts_ok (s\<lparr> ss_dirty := n \<rparr>) = accounts_ok s"
  by (simp_all add: laboratory_ok_def has_topology_def accounts_ok_def)

lemma drained_report: "report_ok b s \<Longrightarrow> report_ok b (s\<lparr> ss_dirty := n \<rparr>)"
  by (rule same_report_ok [of s]) (simp_all add: same_report_def)

lemma handle_ok_drain: "handle_ok d v b k \<Longrightarrow> \<exists>k'. snd (wirelab_session_take_dirty (Some k)) = Some k' \<and> handle_ok d v b k'"
  by (simp add: wirelab_session_take_dirty_def take_dirty_def handle_ok_def drained_report)

lemma handle_ok_open: "wirelab_session_open d now abi = Some k \<Longrightarrow> handle_ok d v b k"
  by (auto simp: wirelab_session_open_def handle_ok_def take_dirty_def laboratory_new accounts_new drained_report report_ok_new
      split: if_splits sum.splits)

lemma handle_ok_uses: "ffi_uses d v b h h' \<Longrightarrow> h = Some k \<Longrightarrow> handle_ok d v b k \<Longrightarrow> \<exists>k'. h' = Some k' \<and> handle_ok d v b k'"
proof (induction rule: ffi_uses.induct)
  case (fu_call h i j)
  then show ?case using call_open handle_ok_call by metis
next
  case (fu_drain h i)
  then show ?case using handle_ok_drain by metis
qed simp

text \<open>C17. A handle that was opened stays sound whatever is called through it, in any order and with any arguments, null pointers
  included, and whatever devices throw: its session satisfies the invariants of the laboratory and of the report, and those of
  the accounts if no device throws out of a tick; the only errors that are ever caught are that of a topology with fewer
  than two hosts and what a device throws, so on a machine without accelerators only the former; the next tick of the
  traffic comes back, clearing the error or with what the analyzer of a device threw; and the next slice of the report, if no
  backend throws in it, returns and clears the error.\<close>

theorem handles_stay_sound:
  assumes "wirelab_session_open d now0 abi_version = Some k0" and "ffi_uses d v b (Some k0) h"
  shows "\<exists>k. h = Some k \<and> laboratory_ok d (fs_session k) \<and> report_ok b (fs_session k) \<and>
    (devices_reliable v \<longrightarrow> accounts_ok (fs_session k)) \<and>
    (fs_error k = [] \<or> (\<exists>what. fs_error k = ''Internal error: '' @ what \<and> thrown_by v b what)) \<and>
    (\<exists>k'. wirelab_traffic_step d v arrival now h = Some (Some k') \<and>
      (fs_error k' = [] \<or> (\<exists>views g what. fst (dv_analyze v views g) = Inl what \<and> fs_error k' = ''Internal error: '' @ what))) \<and>
    (\<exists>k'. wirelab_report_step d b spent slice_ns h = Some (Some k') \<and> fs_error k' = [])"
proof -
  obtain k where k: "h = Some k" "handle_ok d v b k" using handle_ok_uses [OF assms(2) refl handle_ok_open [OF assms(1)]] by blast
  obtain t where "run_report_step d b spent slice_ns (fs_session k) = Some t"
    using k(2) report_ok_slice unfolding handle_ok_def by blast
  then have slice: "\<exists>k'. wirelab_report_step d b spent slice_ns h = Some (Some k') \<and> fs_error k' = []"
    by (simp add: wirelab_report_step_def k(1) guard_quiet_step)
  consider (returns) s where "run_traffic_step d v arrival now (fs_session k) = Inr s"
    | (throws) what s where "run_traffic_step d v arrival now (fs_session k) = Inl (AnalyzerThrew what s)"
    using k(2) laboratory_tick_returns unfolding handle_ok_def by blast
  then have "\<exists>k'. wirelab_traffic_step d v arrival now h = Some (Some k') \<and>
      (fs_error k' = [] \<or> (\<exists>views g what. fst (dv_analyze v views g) = Inl what \<and> fs_error k' = ''Internal error: '' @ what))"
  proof cases
    case returns
    then show ?thesis by (simp add: wirelab_traffic_step_def k(1) guard_quiet_step)
  next
    case (throws what s)
    obtain views g where "fst (dv_analyze v views g) = Inl what" using throws by (rule tick_threw) (metis fst_conv)
    then show ?thesis using throws by (auto simp: wirelab_traffic_step_def k(1) guard_throws internal_error_def)
  qed
  with k slice show ?thesis by (auto simp: handle_ok_def internal_error_def)
qed

lemma open_some: "\<exists>k :: ('d, 'g) ffi_handle. wirelab_session_open d now 1 = Some k"
proof -
  obtain s :: "('d, 'g) session" where "session_new d now = Inr s" using session_new_some by blast
  then have "wirelab_session_open d now 1 = Some \<lparr> fs_session = snd (take_dirty s), fs_error = [], fs_dirty = fst (take_dirty s) \<rparr>"
    by (simp add: wirelab_session_open_def WIRELAB_FFI_ABI_VERSION_def split_beta Let_def)
  then show ?thesis by blast
qed

theorem handles_stay_sound_witness:
  "\<exists>k0 k :: (unit, unit) ffi_handle. wirelab_session_open example_doubles 0 1 = Some k0 \<and>
     wirelab_select_node None (Some k0) = Some k \<and> accounts_ok (fs_session k) \<and>
     (\<exists>k'. wirelab_report_step example_doubles example_build (\<lambda>_. 1) 5 (Some k) = Some (Some k') \<and> fs_error k' = [])"
proof -
  obtain k0 :: "(unit, unit) ffi_handle" where k0: "wirelab_session_open example_doubles 0 1 = Some k0"
    using open_some by blast
  have uses: "ffi_uses example_doubles example_devices example_build (Some k0) (wirelab_select_node None (Some k0))"
    by (rule fu_call [OF fu_refl fc_select_node])
  show ?thesis
    using k0 handles_stay_sound [OF k0 uses, where arrival = 0 and now = 0 and spent = "\<lambda>_. 1" and slice_ns = 5] example_reliable by metis
qed

section \<open>Changes are announced\<close>

text \<open>A step that threw may have changed the rows of the report and the backend that is shown, and no bit of the session.\<close>

lemma announced_begin_throws:
  "begin_throws b what i t = Some u \<Longrightarrow> announced_but F s t \<Longrightarrow> DirtyReport \<in> F \<Longrightarrow> announced_but F s u"
proof (induction b what i t rule: begin_throws.induct)
  case (1 b what i t)
  then show ?case
    by (subst (asm) (2) begin_throws.simps) (auto simp: announced_simps split: if_splits sum.splits)
qed

lemma announced_start_threw:
  assumes "start_traffic v scenario packets frame sd backend s = (Some what, t)"
  shows "announced_but {DirtyTraffic, DirtyReport} s t \<and> ss_running t = ss_running s"
  using assms by (auto simp: start_traffic_def announced_simps Let_def split: if_splits sum.splits)

lemma announced_report_throws:
  assumes "run_benchmark_report_throws d b v calendar scenario packets batch frame sd i what s = Some t"
  shows "announced_but {DirtyReport} s t"
proof -
  have "announced_but {DirtyReport} s (report_prepared d b v calendar config s)" for config
    by (simp add: report_prepared_def rebuild_report_provenance_def announced_simps Let_def)
  then show ?thesis
    using assms by (auto simp: run_benchmark_report_throws_def elim!: announced_begin_throws split: if_splits sum.splits)
qed

lemma announced_slice_throws:
  assumes "run_report_step_throws d b spent slice_ns failure what s = Some t"
  shows "announced_but {DirtyReport} s t"
proof -
  have begun: "announced_but {DirtyReport} s (snd (begin_next_report_backend b s))" by (rule announced_begin) simp_all
  have slice: "announced_but {DirtyReport} s t"
    if "report_slice_throws d b spent slice_ns failure what run u = Some t" "announced_but {DirtyReport} s u" for run u
    using that
    by (auto simp: report_slice_throws_def report_closed_def report_advanced_def rebuild_report_rows_def announced_simps Let_def
        elim!: announced_begin_throws split: option.splits if_splits report_failure.splits)
  show ?thesis
    using assms begun slice
    by (auto simp: run_report_step_throws_def split_beta Let_def elim!: announced_begin_throws
        split: if_splits option.splits report_failure.splits)
qed

lemma announced_throw:
  "ss_throw d v b what s t \<Longrightarrow> announced_but {DirtyTraffic, DirtyReport} s t \<and> (marked t DirtyTraffic \<or> ss_running t = ss_running s)"
proof (induction rule: ss_throw.induct)
  case (th_start scenario packets frame sd backend s what s')
  then show ?case using announced_start_threw by blast
next
  case (th_tick arrival now s what s')
  then show ?case by (rule tick_threw) (simp add: through_frames_def announced_simps)
next
  case (th_report calendar scenario packets batch frame sd i what s s')
  from announced_report_throws [OF this] show ?case
    using announced_insert [of "{DirtyReport}"] by (auto simp: announced_but_def Let_def)
next
  case (th_slice spent slice_ns failure what s s')
  from announced_slice_throws [OF this] show ?case
    using announced_insert [of "{DirtyReport}"] by (auto simp: announced_but_def Let_def)
qed

lemma begin_dirty: "ss_dirty (snd (begin_next_report_backend b s)) = ss_dirty s"
proof (induction b s rule: begin_next_report_backend.induct)
  case (1 b s)
  then show ?case by (subst begin_next_report_backend.simps) (auto split: sum.split)
qed

lemma begin_throws_dirty: "begin_throws b what i s = Some t \<Longrightarrow> ss_dirty t = ss_dirty s"
proof (induction b what i s rule: begin_throws.induct)
  case (1 b what i s)
  then show ?case by (subst (asm) (2) begin_throws.simps) (auto split: if_splits sum.splits)
qed

lemma throw_dirty: "ss_throw d v b what s t \<Longrightarrow> ss_dirty t = ss_dirty s"
proof (induction rule: ss_throw.induct)
  case (th_tick arrival now s what s')
  then show ?case by (rule tick_threw) (simp add: through_frames_def)
qed (auto simp: start_traffic_def run_benchmark_report_throws_def run_report_step_throws_def report_slice_throws_def report_closed_def
    report_advanced_def rebuild_report_rows_def report_prepared_def rebuild_report_provenance_def Let_def split_beta begin_dirty
    dest!: begin_throws_dirty split: if_splits option.splits sum.splits report_failure.splits)

text \<open>What has been raised so far, in the session or at the handle.\<close>

definition raised :: "('d, 'g) ffi_handle \<Rightarrow> session_dirty \<Rightarrow> bool" where
  "raised k f \<longleftrightarrow> marked (fs_session k) f \<or> bit (fs_dirty k) (dirty_index f)"

definition heard :: "bool \<Rightarrow> ('d, 'g) ffi_handle \<Rightarrow> ('d, 'g) ffi_handle \<Rightarrow> bool" where
  "heard thrown k k' \<longleftrightarrow> (\<forall>f. raised k f \<longrightarrow> raised k' f) \<and>
     (\<forall>f. thrown \<and> f \<in> {DirtyTraffic, DirtyReport} \<or> raised k' f \<or> unchanged f (fs_session k) (fs_session k')) \<and>
     (raised k' DirtyTraffic \<or> ss_running (fs_session k') = ss_running (fs_session k)) \<and>
     (raised k' DirtyPolicies \<or> raised k' DirtyTopology \<or> ss_enforced (fs_session k') = ss_enforced (fs_session k)) \<and>
     (raised k' DirtyStatus \<or> fs_error k' \<in> {[], fs_error k}) \<and> (thrown \<longrightarrow> raised k' DirtyStatus)"

lemma heard_refl: "heard False k k"
  by (simp add: heard_def)

lemma heard_trans: "heard x k k' \<Longrightarrow> heard y k' k'' \<Longrightarrow> heard (x \<or> y) k k''"
  unfolding heard_def using unchanged_trans by (smt (verit) insert_iff singletonD)

lemma heard_quiet:
  assumes "announced (fs_session k) (fs_session k')" and "quiet k k'"
  shows "heard False k k'"
proof -
  have "unchanged DirtyTraffic (fs_session k) (fs_session k') \<Longrightarrow> ss_running (fs_session k') = ss_running (fs_session k)" by simp
  then show ?thesis using assms unfolding announced_but_def heard_def quiet_def raised_def Let_def by auto
qed

lemma heard_threw:
  assumes "ss_throw d v b what (fs_session k) (fs_session k')" and "threw what k k'"
  shows "heard True k k'"
proof -
  have raised: "raised k' f \<longleftrightarrow> marked (fs_session k') f \<or> bit (fs_dirty k) (dirty_index f) \<or> f = DirtyStatus" for f
    using assms(2) by (cases f) (auto simp: raised_def threw_def bit_or_iff bit_dirty_bit)
  have raised0: "raised k f \<longleftrightarrow> marked (fs_session k) f \<or> bit (fs_dirty k) (dirty_index f)" for f by (simp add: raised_def)
  have kept: "marked (fs_session k') f = marked (fs_session k) f" for f using throw_dirty [OF assms(1)] by (simp add: marked_def)
  show ?thesis using announced_throw [OF assms(1)] unfolding announced_but_def heard_def raised raised0 kept Let_def by auto
qed

lemma heard_called: "called d v b k k' \<Longrightarrow> heard (fs_error k' \<noteq> []) k k'"
  unfolding called_def
proof (elim disjE exE conjE)
  assume "ss_step d v b (fs_session k) (fs_session k')" and "quiet k k'"
  from heard_quiet [OF announced_step [OF this(1)] this(2)] this(2) show ?thesis by (simp add: quiet_def)
next
  fix what assume "ss_throw d v b what (fs_session k) (fs_session k')" and "threw what k k'"
  from heard_threw [OF this] this(2) show ?thesis by (simp add: threw_def)
qed

lemma heard_calls: "ffi_calls d v b thrown h h' \<Longrightarrow> h = Some k \<Longrightarrow> \<exists>k'. h' = Some k' \<and> heard thrown k k'"
proof (induction rule: ffi_calls.induct)
  case (fcs_call thrown h i j)
  then obtain m k' where m: "i = Some m" "heard thrown k m" "j = Some k'" using call_open by metis
  have "heard (fs_error k' \<noteq> []) m k'" using fcs_call(2) m(1,3) heard_called call_step by blast
  then show ?case using heard_trans [OF m(2)] m(3) by (simp add: call_threw_def)
qed (simp add: heard_refl)

text \<open>C24. Between two calls of \<open>wirelab_session_take_dirty\<close>, whatever else is called and whatever throws and is caught, every group
  of rows that differs is announced by its bit in the second answer, with two exceptions, both only when a command in between
  threw, which the bit of the status then says: the rows of the report and the backend that is shown may differ without their
  bits. Even then traffic runs as before without the bit of the traffic. Without the bit of the status the shown status is the
  one shown before, or that of the session: the error of an earlier command may have been cleared without the bit.\<close>

theorem foreign_changes_announced:
  assumes "wirelab_session_take_dirty (Some k0) = (bits0, Some k)" and "ffi_calls d v b thrown (Some k) h"
    and "wirelab_session_take_dirty h = (bits, h')"
  shows "\<exists>k'. h' = Some k' \<and>
    (\<forall>f. \<not> told bits f \<and> \<not> (thrown \<and> f \<in> {DirtyTraffic, DirtyReport}) \<longrightarrow> unchanged f (fs_session k) (fs_session k')) \<and>
    (thrown \<longrightarrow> told bits DirtyStatus) \<and>
    (told bits DirtyPolicies \<or> told bits DirtyTopology \<or> ss_enforced (fs_session k') = ss_enforced (fs_session k)) \<and>
    (told bits DirtyTraffic \<or> wirelab_traffic_running h' = wirelab_traffic_running (Some k)) \<and>
    (told bits DirtyStatus \<or> wirelab_session_status_message h' = wirelab_session_status_message (Some k) \<or>
      wirelab_session_status_message h' = to_str (ss_status (fs_session k)))"
proof -
  obtain m where m: "h = Some m" "heard thrown k m" using heard_calls [OF assms(2) refl] by blast
  define k' where "k' = m\<lparr> fs_session := (fs_session m)\<lparr> ss_dirty := 0 \<rparr>, fs_dirty := 0 \<rparr>"
  have h': "h' = Some k'" "bits = ss_dirty (fs_session m) OR fs_dirty m"
    using assms(3) by (auto simp: m(1) wirelab_session_take_dirty_def take_dirty_def k'_def)
  have told: "told bits f \<longleftrightarrow> raised m f" for f by (auto simp: told_iff h'(2) raised_def marked_def bit_or_iff)
  have same: "unchanged f (fs_session k) (fs_session k') = unchanged f (fs_session k) (fs_session m)" for f
    by (cases f) (simp_all add: k'_def)
  have fields: "fs_error k' = fs_error m" "ss_status (fs_session k') = ss_status (fs_session m)"
      "ss_running (fs_session k') = ss_running (fs_session m)" "ss_enforced (fs_session k') = ss_enforced (fs_session m)"
    by (simp_all add: k'_def)
  have "raised m DirtyStatus \<or> ss_status (fs_session m) = ss_status (fs_session k)"
    using m(2) unfolding heard_def by (metis empty_iff insert_iff session_dirty.distinct unchanged.simps(3))
  moreover have "raised m DirtyStatus \<or> fs_error m \<in> {[], fs_error k}" using m(2) unfolding heard_def by blast
  ultimately have "told bits DirtyStatus \<or> wirelab_session_status_message h' = wirelab_session_status_message (Some k) \<or>
      wirelab_session_status_message h' = to_str (ss_status (fs_session k))"
    by (auto simp: h'(1) told fields wirelab_session_status_message_def)
  moreover have "told bits DirtyTraffic \<or> wirelab_traffic_running h' = wirelab_traffic_running (Some k)"
    using m(2) unfolding heard_def told by (auto simp: h'(1) fields wirelab_traffic_running_def ffi_get_def)
  moreover have "\<forall>f. \<not> told bits f \<and> \<not> (thrown \<and> f \<in> {DirtyTraffic, DirtyReport}) \<longrightarrow> unchanged f (fs_session k) (fs_session k')"
    using m(2) unfolding heard_def told same by blast
  moreover have "thrown \<longrightarrow> told bits DirtyStatus"
    "told bits DirtyPolicies \<or> told bits DirtyTopology \<or> ss_enforced (fs_session k') = ss_enforced (fs_session k)"
    using m(2) unfolding heard_def told fields by blast+
  ultimately show ?thesis using h'(1) by blast
qed

theorem foreign_changes_announced_witness:
  "\<exists>(k0 :: (unit, unit) ffi_handle) k bits0 bits k'. wirelab_session_open example_doubles 0 1 = Some k0 \<and>
     wirelab_session_take_dirty (Some k0) = (bits0, Some k) \<and>
     wirelab_session_take_dirty (wirelab_select_node None (Some k)) = (bits, Some k') \<and>
     \<not> told bits DirtyTopology \<and> unchanged DirtyTopology (fs_session k) (fs_session k')"
proof -
  obtain k0 :: "(unit, unit) ffi_handle" where k0: "wirelab_session_open example_doubles 0 1 = Some k0" using open_some by blast
  obtain bits0 k where k: "wirelab_session_take_dirty (Some k0) = (bits0, Some k)" "ss_dirty (fs_session k) = 0" "fs_dirty k = 0"
    by (simp add: wirelab_session_take_dirty_def take_dirty_def)
  have calls: "ffi_calls example_doubles example_devices example_build
      (False \<or> call_threw (wirelab_select_node None (Some k))) (Some k) (wirelab_select_node None (Some k))"
    by (rule fcs_call [OF fcs_refl fc_select_node])
  obtain bits h where h: "wirelab_session_take_dirty (wirelab_select_node None (Some k)) = (bits, h)" by fastforce
  have "\<not> told bits DirtyTopology" using h k(2,3)
    by (auto simp: wirelab_session_take_dirty_def wirelab_select_node_def guard_quiet_step take_dirty_def select_node_def ss_mark_def
        set_status_def told_iff bit_dirty_bit bit_or_iff split: option.splits)
  then show ?thesis using k0 k(1) h foreign_changes_announced [OF k(1) calls h]
    by (metis empty_iff insert_iff session_dirty.distinct(5) session_dirty.distinct(13))
qed

section \<open>Names\<close>

lemma label_of_code:
  "wirelab_anomaly_type_label (anomaly_code t) = Some (anomaly_label t)"
  "wirelab_policy_action_label (action_code a) = Some (action_label a)"
  by (cases t; simp add: wirelab_anomaly_type_label_def anomaly_order_def to_str_def)
    (cases a; simp add: wirelab_policy_action_label_def to_str_def)

lemma anomaly_offered: "\<exists>i < wirelab_anomaly_type_count. wirelab_anomaly_type_name i = Some (anomaly_label t)"
proof -
  have "t \<in> set anomaly_order" by (cases t) (simp_all add: anomaly_order_def)
  then obtain i where "i < length anomaly_order" "anomaly_order ! i = t" by (metis in_set_conv_nth)
  then show ?thesis by (intro exI [of _ i]) (simp add: wirelab_anomaly_type_count_def wirelab_anomaly_type_name_def to_str_def)
qed

lemma action_offered: "\<exists>i < wirelab_policy_action_name_count. wirelab_policy_action_name i = Some (action_label a)"
proof -
  have "a \<in> set policy_action_order" by (cases a) (simp_all add: policy_action_order_def)
  then obtain i where "i < length policy_action_order" "policy_action_order ! i = a" by (metis in_set_conv_nth)
  then show ?thesis by (intro exI [of _ i]) (simp add: wirelab_policy_action_name_count_def wirelab_policy_action_name_def to_str_def)
qed

lemma anomaly_code_number:
  assumes "unat c < 7"
  shows "\<exists>x. c = anomaly_code x"
proof -
  obtain n where c: "c = of_nat n" and "n < 7" using that [of "unat c"] assms by simp
  then have "n \<in> {0, 1, 2, 3, 4, 5, 6}" by auto
  then have "c \<in> {0, 1, 2, 3, 4, 5, 6}" unfolding c by (elim insertE emptyE) simp_all
  then show ?thesis by (metis anomaly_code.simps insert_iff singletonD)
qed

lemma action_code_number:
  assumes "unat c < 6"
  shows "\<exists>x. c = action_code x"
proof -
  obtain n where c: "c = of_nat n" and "n < 6" using that [of "unat c"] assms by simp
  then have "n \<in> {0, 1, 2, 3, 4, 5}" by auto
  then have "c \<in> {0, 1, 2, 3, 4, 5}" unfolding c by (elim insertE emptyE) simp_all
  then show ?thesis by (metis action_code.simps insert_iff singletonD)
qed

text \<open>Names and codes agree: the code of every anomaly type and of every policy action is labelled by a name that the
  commands read back as the same value and that the tables offer; no other code has a label; and every offered scenario is one
  that traffic and reports accept.\<close>

theorem names_are_read_back:
  "(\<exists>n i. wirelab_anomaly_type_label (anomaly_code t) = Some n \<and> anomaly_type_from_label n = Some t \<and>
      i < wirelab_anomaly_type_count \<and> wirelab_anomaly_type_name i = Some n) \<and>
   (\<exists>n i. wirelab_policy_action_label (action_code a) = Some n \<and> policy_action_from_label n = Some a \<and>
      i < wirelab_policy_action_name_count \<and> wirelab_policy_action_name i = Some n) \<and>
   {c. wirelab_anomaly_type_label c \<noteq> None} = range anomaly_code \<and>
   {c. wirelab_policy_action_label c \<noteq> None} = range action_code \<and>
   {n. \<exists>i. wirelab_scenario_name i = Some n} \<subseteq> {n. \<exists>sc. scenario_from_text n = Inr sc}"
proof (intro conjI)
  show "{c. wirelab_anomaly_type_label c \<noteq> None} = range anomaly_code"
    using anomaly_code_number label_of_code(1)
    by (force simp: wirelab_anomaly_type_label_def anomaly_order_def split: if_splits)
  show "{c. wirelab_policy_action_label c \<noteq> None} = range action_code"
    using action_code_number label_of_code(2)
    by (force simp: wirelab_policy_action_label_def word_less_nat_alt not_less word_le_nat_alt split: if_splits)
  show "{n. \<exists>i. wirelab_scenario_name i = Some n} \<subseteq> {n. \<exists>sc. scenario_from_text n = Inr sc}"
  proof
    fix n assume "n \<in> {n. \<exists>i. wirelab_scenario_name i = Some n}"
    then have "n \<in> set scenario_names"
      by (auto simp: wirelab_scenario_name_def table_at_def row_at_def to_str_def split: if_splits)
    then show "n \<in> {n. \<exists>sc. scenario_from_text n = Inr sc}"
      by (auto simp: scenario_names_def scenario_from_text_def)
  qed
qed (use label_of_code anomaly_offered action_offered in \<open>auto simp: anomaly_label_read action_label_read\<close>)

end
