(* ===== verification/Spec2Isabelle.thy ===== *)
theory Spec2Isabelle
  imports Pcap_Replay Cuda_Parser Control_Client Foreign_Calls
begin

text \<open>
  A model of WireLab, a virtual Ethernet switch in C++ that learns, forwards, analyzes its traffic,
  detects anomalies, and contains ports by policy (\<^verbatim>\<open>src/include/wirelab\<close>, \<^verbatim>\<open>src/src\<close>).

  The parts and how they meet. UDP clients send Ethernet frames to the switch. Each iteration of its
  loop sends what is due, receives a frame and asks its gate. The gate is the supervisor: it binds
  the sender to a port of the topology, keeps the frame for the analyzer, and answers with the fault
  of the port. On a clock it analyzes the batch and hands the analyses to the pipeline: the detector
  turns them into anomalies, the policies into decisions, and the enforcer into faults on ports, held
  by leases that restore the operator's fault. Captures and generated traffic feed the same analyzer.
  Around the switch, a control server takes requests of many clients as lines of JSON and a control
  service carries them out; a desktop session loads and edits a topology, sends generated traffic
  through its faults tick by tick, shows rows of what it found, and runs a report of benchmarks; a C
  interface hands the session to a front end.

  The theories, with the code they translate and what they show:

  \<^item> \<open>Prelude\<close>: machine types, byte reads, \<open>std::sort\<close>, \<open>std::map\<close>, \<open>std::unordered_map\<close>, decimal text.
  \<^item> \<open>Ethernet\<close> (\<^verbatim>\<open>ethernet_frame\<close>): addresses and frames; both codecs are exact inverses.
  \<^item> \<open>Mac_Table\<close> (\<^verbatim>\<open>mac_table\<close>, \<^verbatim>\<open>switch_metrics\<close>, \<open>Endpoint\<close> of \<^verbatim>\<open>udp_socket\<close>): the learning table, with
    its laws as the locale \<open>learning_table\<close>, and the counters.
  \<^item> \<open>Fault_Engine\<close> (\<^verbatim>\<open>fault_engine\<close>): validation, the seeded draws, loss, duplication, jitter and pacing;
    delivery windows, bandwidth pacing, independence of targets. Locale \<open>fault_store\<close>.
  \<^item> \<open>Topology\<close>, \<open>Topology_Controller\<close> (\<^verbatim>\<open>topology\<close>, \<^verbatim>\<open>topology_controller\<close>): validation accepts exactly the
    star topologies it should; faults stay on targets of the loaded topology and are listed exactly.
  \<^item> \<open>Packet_Batch\<close>, \<open>Packet_Analyzer\<close>, \<open>Packet_Aggregator\<close>, \<open>Packet_Accounting\<close> (\<^verbatim>\<open>packet_batch\<close>,
    \<^verbatim>\<open>packet_analyzer\<close>): parsing with explicit bounds, the aggregation loop with its in-place merges, and
    what they add up to: totals, histograms, flows, classes; the two entry points agree. Locale
    \<open>traffic_totals\<close>.
  \<^item> \<open>Anomaly_Detector\<close> (\<^verbatim>\<open>anomaly_detector\<close>): the sliding window is exact, events are edge-triggered.
  \<^item> \<open>Policy_Engine\<close>, \<open>Policy_Enforcer\<close> (\<^verbatim>\<open>policy_engine\<close>, \<^verbatim>\<open>policy_enforcer\<close>): the first enabled rule
    decides; enforcement is reversible, never weakens, cuts off what it isolates.
  \<^item> \<open>Analysis_Pipeline\<close> (\<^verbatim>\<open>analysis_pipeline\<close>): never throws on any clock; no lease outlives its expiry.
  \<^item> \<open>VSwitch\<close> (\<^verbatim>\<open>vswitch\<close>): the loop, learning and deferred delivery; every copy is sent once and not
    early, the counters are exact, blocked frames teach nothing. Locale \<open>frame_gate\<close>.
  \<^item> \<open>Switch_Supervisor\<close> (\<^verbatim>\<open>switch_supervisor\<close>): the gate of the switch. Locale \<open>control_plane\<close>, from which
    \<open>frame_gate\<close> follows; batching loses no frame, containment holds frame by frame.
  \<^item> \<open>Pcap\<close> (\<^verbatim>\<open>pcap\<close>): readers that stay inside any buffer, a writer they read back.
  \<^item> \<open>Traffic_Generator\<close> (\<^verbatim>\<open>traffic_generator\<close>): the frames of every scenario parse as what they claim to be.
  \<^item> \<open>Benchmark\<close> (\<^verbatim>\<open>benchmark\<close>, \<^verbatim>\<open>traffic_source\<close>): runs in slices that always return and measure the
    same however they are cut. Locale \<open>counting_analyzer\<close>.
  \<^item> \<open>Json_Scanner\<close>, \<open>Control_Protocol\<close>, \<open>Control_Roundtrip\<close> (\<^verbatim>\<open>control_protocol\<close>): the scanner, the
    parsers, the writers; what is written is read back, and no event is taken for a reply. Locale
    \<open>object_members\<close>.

  \<^item> \<open>Topology_Yaml\<close> (\<^verbatim>\<open>topology_yaml\<close>): the line-oriented parser of topology files, with every error.
  \<^item> \<open>Control_Service\<close>, \<open>Service_Contract\<close>, \<open>Service_Runs\<close> (\<^verbatim>\<open>control_service\<close>): every command, its refusals
    and its events; only requests for the current revision act, events are numbered without gaps, the
    benchmark job ends and refines an abstract job.
  \<^item> \<open>Control_Server\<close>, \<open>Control_Wire\<close>, \<open>Control_Client\<close> (\<^verbatim>\<open>control_server\<close>): framing, buffers and their caps, the
    poll, broadcasting, and the client's loops over an interface of socket operations; every request
    is answered once, requests do not depend on how their bytes arrive, the server stays bounded, queries
    return and keep the events.
  \<^item> \<open>Session_Text\<close>, \<open>Session\<close> (\<^verbatim>\<open>session\<close>, \<^verbatim>\<open>session_topology\<close>, \<^verbatim>\<open>session_policy\<close>): the state of the desktop session and
    its commands. \<open>Session_Traffic\<close> (\<^verbatim>\<open>session_traffic\<close>): starting traffic and the tick. \<open>Session_Report\<close>
    (\<^verbatim>\<open>session_report\<close>): the report in slices, and its JSON and CSV files.
  \<^item> \<open>Session_Steps\<close>: the steps of a session as a relation; \<open>ss_throw\<close> are those that a device ends by an exception.
    \<open>Session_Laboratory\<close>:
    the rows always show what the controller and the pipeline hold. \<open>Session_Accounts\<close>: a tick counts what it
    should or throws what its device threw, and the port counters add up. \<open>Session_Measured\<close>: a report ends,
    whatever its clocks read and however often a backend throws in its slices.
    \<open>Session_Save\<close>: a saved topology is opened again.
  \<^item> \<open>Foreign_Views\<close>, \<open>Foreign_Interface\<close>, \<open>Foreign_Calls\<close> (\<^verbatim>\<open>wirelab_ffi\<close>): the views, the accessors and the tables
    of names; the guard, the handle and the commands; handles stay sound and changes are announced
    also when a command throws.
  \<^item> \<open>Cuda_Parser\<close> (\<^verbatim>\<open>cuda_packet_parser.cu\<close>): the kernel, its launch and its host code over the calls of the CUDA
    runtime; it stays inside the buffers and agrees with the CPU in whatever order its threads run.
  \<^item> \<open>Pcap_Replay\<close> (\<^verbatim>\<open>wirelab_pcap_main\<close>): the program that replays a capture; it ends, and what it exports is
    exactly the packets it should, read back as they were.

  State is a record per class, passed and returned; an operation is a function on it; exceptions and
  \<open>expected\<close> errors are values; a read outside a buffer is \<open>None\<close>. References between objects are the
  referenced state passed beside the object. The operating system, clocks and sockets are arguments:
  the result of a send, the readings of the clock, the outcome of a wait. Floating-point numbers are
  a parameter, a record of the operations the code uses. Time points are unbounded integers of
  nanoseconds, with the code's clamps. No fuel is used: loops are structural or have a measure (the
  bytes left in the buffer, the packets left in the capture), and the loops that only a clock or a
  socket ends, those of the benchmark's slice, of the server's accepts and of the control client, are
  partial functions in \<open>option\<close>, with theorems that they return (the accepts, once one fails).
  Accelerated devices may fail: what CUDA and Metal throw out of a constructor, a tick or a slice of the
  report is an outcome of the session's operations and is caught by the guard of the C interface; out of
  a poll of the control server it ends the switch, and the poll has no result.

  Not modelled: sockets, TAP devices and ports, threads and logging, which are the operating system's,
  with \<open>ControlServer::create\<close> and the socket helpers; the Metal analyzer and generator, which are
  Objective-C++ over Apple's runtime; the command lines of the switch, the port and the benchmark
  programs; and of the C interface the release of a handle and the check of the binary layout.
\<close>

end
